(* ===== verification/FTE_Prelude.thy ===== *)
theory FTE_Prelude
  imports Main "HOL-Library.Word" "HOL-Library.Monad_Syntax"
begin

unbundle bit_operations_syntax

text \<open>
  Shared vocabulary of the development: the fixed-width integer types of
  \<^verbatim>\<open>target/include/fte_type.h\<close>, the numeric return codes of type
  \<^verbatim>\<open>FTE_RET\<close>, the addresses of the explicit store, and the generic lemmas on words,
  lists and the option monad that several components use.

  A C function that may fail to return (an \<^verbatim>\<open>ASSERT\<close> that spins for ever, a NULL
  dereference, a task blocked on a semaphore nobody will post, an access outside
  a buffer) is modelled by a result of type \<open>option\<close>: \<open>None\<close> is "does not
  return normally".  All ordinary error codes are values.
\<close>

section \<open>Machine types and return codes\<close>

type_synonym u8 = "8 word"
type_synonym u16 = "16 word"
type_synonym u32 = "32 word"
type_synonym u64 = "64 word"

type_synonym fte_ret = "32 word"

text \<open>
  The codes are kept as the numbers the headers define, because the code mixes
  them with \<^verbatim>\<open>FALSE\<close>, masks them (\<^verbatim>\<open>xRet & 0x0F\<close>) and uses one number for
  several names.  \<^verbatim>\<open>MQX_ERROR_BASE\<close> is 0.
\<close>

abbreviation FTE_RET_OK :: fte_ret where "FTE_RET_OK \<equiv> 0"
abbreviation FTE_RET_ERROR :: fte_ret where "FTE_RET_ERROR \<equiv> 0xFF"
abbreviation MQX_INVALID_PARAMETER :: fte_ret where "MQX_INVALID_PARAMETER \<equiv> 0x0C"
abbreviation MQX_INVALID_HANDLE :: fte_ret where "MQX_INVALID_HANDLE \<equiv> 0x1C"
abbreviation FTE_RET_INSUFFICIENT_MEMORY :: fte_ret where "FTE_RET_INSUFFICIENT_MEMORY \<equiv> 0x85"
abbreviation FTE_RET_INITIALIZE_FAILED :: fte_ret where "FTE_RET_INITIALIZE_FAILED \<equiv> 0x8F"
abbreviation FTE_RET_NOT_ENOUGH_MEMORY :: fte_ret where "FTE_RET_NOT_ENOUGH_MEMORY \<equiv> 0x85"
abbreviation FTE_RET_INVALID_ARGUMENT :: fte_ret where "FTE_RET_INVALID_ARGUMENT \<equiv> 0x8A"
abbreviation FTE_RET_EXCEEDS_THE_RANGE :: fte_ret where "FTE_RET_EXCEEDS_THE_RANGE \<equiv> 0x8C"
abbreviation FTE_RET_INVALID_MSG :: fte_ret where "FTE_RET_INVALID_MSG \<equiv> 0x90"
abbreviation FTE_RET_BUFFER_TOO_SMALL :: fte_ret where "FTE_RET_BUFFER_TOO_SMALL \<equiv> 0x91"
abbreviation FTE_RET_MODBUS_INVALID_FUNCTION :: fte_ret where "FTE_RET_MODBUS_INVALID_FUNCTION \<equiv> 0xA1"
abbreviation FTE_RET_MODBUS_INVALID_ADDRESS :: fte_ret where "FTE_RET_MODBUS_INVALID_ADDRESS \<equiv> 0xA2"
abbreviation FTE_RET_MODBUS_INVALID_DATA :: fte_ret where "FTE_RET_MODBUS_INVALID_DATA \<equiv> 0xA3"
abbreviation FTE_RET_MODBUS_EXECUTE_ERROR :: fte_ret where "FTE_RET_MODBUS_EXECUTE_ERROR \<equiv> 0xA4"

text \<open>Addresses are 32-bit; 0 is the NULL pointer.\<close>

type_synonym addr = "32 word"

abbreviation NULL :: addr where "NULL \<equiv> 0"

section \<open>Collections of hints\<close>

named_theorems opt_simps \<open>elimination of the option monad in goals and assumptions\<close>

lemmas [opt_simps] = Option.bind_eq_Some_conv Option.bind_eq_None_conv

definition guard_opt :: "bool \<Rightarrow> unit option" where
  "guard_opt b = (if b then Some () else None)"

lemma guard_opt_simps [simp]:
  "guard_opt True = Some ()"
  "guard_opt False = None"
  "(guard_opt b = Some u) = b"
  "(guard_opt b = None) = (\<not> b)"
  by (auto simp: guard_opt_def)

section \<open>Lists\<close>

lemma foldl_inj_state:
  assumes "\<And>b. inj (\<lambda>c. f c b)"
  shows "inj (\<lambda>c. foldl f c bs)"
proof (induction bs)
  case Nil
  then show ?case by (simp add: inj_def)
next
  case (Cons b bs)
  have "inj ((\<lambda>c. foldl f c bs) \<circ> (\<lambda>c. f c b))"
    using Cons.IH assms by (rule inj_compose)
  then show ?case by (simp add: comp_def)
qed

lemma foldl_cong_step:
  assumes "\<And>c b. f c b = g c b"
  shows "foldl f c bs = foldl g c bs"
  by (induction bs arbitrary: c) (simp_all add: assms)

section \<open>Words\<close>

lemma word_xor_cancel_right:
  fixes a b c :: "'a::len word"
  shows "a XOR c = b XOR c \<longleftrightarrow> a = b"
  by (metis xor.right_neutral xor.assoc xor_self_eq)

lemma of_nat_word_inj:
  assumes "m < 2 ^ LENGTH('a)" "n < 2 ^ LENGTH('a)"
  shows "(of_nat m :: 'a::len word) = of_nat n \<longleftrightarrow> m = n"
  using assms by (simp add: word_of_nat_eq_iff take_bit_nat_eq_self)

lemma unat_of_nat_small:
  assumes "m < 2 ^ LENGTH('a)"
  shows "unat (of_nat m :: 'a::len word) = m"
  using assms by (simp add: unat_of_nat take_bit_nat_eq_self)

lemma sint_small:
  fixes w :: "32 word"
  assumes "unat w < 2 ^ 31"
  shows "sint w = int (unat w)"
proof -
  have "uint w = int (unat w)" by simp
  moreover have "int (unat w) < 2 ^ 31" using assms by (metis of_nat_less_iff of_nat_numeral of_nat_power)
  ultimately have "- (2 ^ 31) \<le> uint w" "uint w < 2 ^ 31"
    using order_trans [OF _ uint_ge_0 [of w], of "- (2 ^ 31)"] by simp_all
  then have "signed_take_bit 31 (uint w) = uint w" by (intro signed_take_bit_int_eq_self) simp_all
  then show ?thesis by (simp add: sint_uint)
qed

lemma unat_less_32: "unat (w :: 32 word) < 2 ^ 32"
proof -
  have "unat w < 2 ^ LENGTH(32)" by (rule unsigned_less)
  then show ?thesis by simp
qed

end
