(* ===== verification/FTE_Crc.thy ===== *)
theory FTE_Crc
  imports FTE_Prelude
begin

text \<open>
  The three table-driven checksums of \<^verbatim>\<open>target/source/fte_crc16.c\<close> (MODBUS and
  1-wire style CRC-16), \<^verbatim>\<open>fte_crc_ccitt.c\<close> and \<^verbatim>\<open>fte_crc32.c\<close> (the CRC that protects
  the configuration, log and certificate pools in flash).  The tables are copied
  from the source; a table step is proved equal to eight steps of the bitwise
  shift register of the polynomial, and from the bitwise form come the
  error-detection guarantees and the chaining law.
\<close>

section \<open>The code\<close>

definition pCRC16Table :: "u16 list" where
  "pCRC16Table = [
     0x0000, 0xC0C1, 0xC181, 0x0140, 0xC301, 0x03C0, 0x0280, 0xC241,
     0xC601, 0x06C0, 0x0780, 0xC741, 0x0500, 0xC5C1, 0xC481, 0x0440,
     0xCC01, 0x0CC0, 0x0D80, 0xCD41, 0x0F00, 0xCFC1, 0xCE81, 0x0E40,
     0x0A00, 0xCAC1, 0xCB81, 0x0B40, 0xC901, 0x09C0, 0x0880, 0xC841,
     0xD801, 0x18C0, 0x1980, 0xD941, 0x1B00, 0xDBC1, 0xDA81, 0x1A40,
     0x1E00, 0xDEC1, 0xDF81, 0x1F40, 0xDD01, 0x1DC0, 0x1C80, 0xDC41,
     0x1400, 0xD4C1, 0xD581, 0x1540, 0xD701, 0x17C0, 0x1680, 0xD641,
     0xD201, 0x12C0, 0x1380, 0xD341, 0x1100, 0xD1C1, 0xD081, 0x1040,
     0xF001, 0x30C0, 0x3180, 0xF141, 0x3300, 0xF3C1, 0xF281, 0x3240,
     0x3600, 0xF6C1, 0xF781, 0x3740, 0xF501, 0x35C0, 0x3480, 0xF441,
     0x3C00, 0xFCC1, 0xFD81, 0x3D40, 0xFF01, 0x3FC0, 0x3E80, 0xFE41,
     0xFA01, 0x3AC0, 0x3B80, 0xFB41, 0x3900, 0xF9C1, 0xF881, 0x3840,
     0x2800, 0xE8C1, 0xE981, 0x2940, 0xEB01, 0x2BC0, 0x2A80, 0xEA41,
     0xEE01, 0x2EC0, 0x2F80, 0xEF41, 0x2D00, 0xEDC1, 0xEC81, 0x2C40,
     0xE401, 0x24C0, 0x2580, 0xE541, 0x2700, 0xE7C1, 0xE681, 0x2640,
     0x2200, 0xE2C1, 0xE381, 0x2340, 0xE101, 0x21C0, 0x2080, 0xE041,
     0xA001, 0x60C0, 0x6180, 0xA141, 0x6300, 0xA3C1, 0xA281, 0x6240,
     0x6600, 0xA6C1, 0xA781, 0x6740, 0xA501, 0x65C0, 0x6480, 0xA441,
     0x6C00, 0xACC1, 0xAD81, 0x6D40, 0xAF01, 0x6FC0, 0x6E80, 0xAE41,
     0xAA01, 0x6AC0, 0x6B80, 0xAB41, 0x6900, 0xA9C1, 0xA881, 0x6840,
     0x7800, 0xB8C1, 0xB981, 0x7940, 0xBB01, 0x7BC0, 0x7A80, 0xBA41,
     0xBE01, 0x7EC0, 0x7F80, 0xBF41, 0x7D00, 0xBDC1, 0xBC81, 0x7C40,
     0xB401, 0x74C0, 0x7580, 0xB541, 0x7700, 0xB7C1, 0xB681, 0x7640,
     0x7200, 0xB2C1, 0xB381, 0x7340, 0xB101, 0x71C0, 0x7080, 0xB041,
     0x5000, 0x90C1, 0x9181, 0x5140, 0x9301, 0x53C0, 0x5280, 0x9241,
     0x9601, 0x56C0, 0x5780, 0x9741, 0x5500, 0x95C1, 0x9481, 0x5440,
     0x9C01, 0x5CC0, 0x5D80, 0x9D41, 0x5F00, 0x9FC1, 0x9E81, 0x5E40,
     0x5A00, 0x9AC1, 0x9B81, 0x5B40, 0x9901, 0x59C0, 0x5880, 0x9841,
     0x8801, 0x48C0, 0x4980, 0x8941, 0x4B00, 0x8BC1, 0x8A81, 0x4A40,
     0x4E00, 0x8EC1, 0x8F81, 0x4F40, 0x8D01, 0x4DC0, 0x4C80, 0x8C41,
     0x4400, 0x84C1, 0x8581, 0x4540, 0x8701, 0x47C0, 0x4680, 0x8641,
     0x8201, 0x42C0, 0x4380, 0x8341, 0x4100, 0x81C1, 0x8081, 0x4040]"

definition pCCITTTable :: "u16 list" where
  "pCCITTTable = [
     0x0000, 0x1021, 0x2042, 0x3063, 0x4084, 0x50A5, 0x60C6, 0x70E7,
     0x8108, 0x9129, 0xA14A, 0xB16B, 0xC18C, 0xD1AD, 0xE1CE, 0xF1EF,
     0x1231, 0x0210, 0x3273, 0x2252, 0x52B5, 0x4294, 0x72F7, 0x62D6,
     0x9339, 0x8318, 0xB37B, 0xA35A, 0xD3BD, 0xC39C, 0xF3FF, 0xE3DE,
     0x2462, 0x3443, 0x0420, 0x1401, 0x64E6, 0x74C7, 0x44A4, 0x5485,
     0xA56A, 0xB54B, 0x8528, 0x9509, 0xE5EE, 0xF5CF, 0xC5AC, 0xD58D,
     0x3653, 0x2672, 0x1611, 0x0630, 0x76D7, 0x66F6, 0x5695, 0x46B4,
     0xB75B, 0xA77A, 0x9719, 0x8738, 0xF7DF, 0xE7FE, 0xD79D, 0xC7BC,
     0x48C4, 0x58E5, 0x6886, 0x78A7, 0x0840, 0x1861, 0x2802, 0x3823,
     0xC9CC, 0xD9ED, 0xE98E, 0xF9AF, 0x8948, 0x9969, 0xA90A, 0xB92B,
     0x5AF5, 0x4AD4, 0x7AB7, 0x6A96, 0x1A71, 0x0A50, 0x3A33, 0x2A12,
     0xDBFD, 0xCBDC, 0xFBBF, 0xEB9E, 0x9B79, 0x8B58, 0xBB3B, 0xAB1A,
     0x6CA6, 0x7C87, 0x4CE4, 0x5CC5, 0x2C22, 0x3C03, 0x0C60, 0x1C41,
     0xEDAE, 0xFD8F, 0xCDEC, 0xDDCD, 0xAD2A, 0xBD0B, 0x8D68, 0x9D49,
     0x7E97, 0x6EB6, 0x5ED5, 0x4EF4, 0x3E13, 0x2E32, 0x1E51, 0x0E70,
     0xFF9F, 0xEFBE, 0xDFDD, 0xCFFC, 0xBF1B, 0xAF3A, 0x9F59, 0x8F78,
     0x9188, 0x81A9, 0xB1CA, 0xA1EB, 0xD10C, 0xC12D, 0xF14E, 0xE16F,
     0x1080, 0x00A1, 0x30C2, 0x20E3, 0x5004, 0x4025, 0x7046, 0x6067,
     0x83B9, 0x9398, 0xA3FB, 0xB3DA, 0xC33D, 0xD31C, 0xE37F, 0xF35E,
     0x02B1, 0x1290, 0x22F3, 0x32D2, 0x4235, 0x5214, 0x6277, 0x7256,
     0xB5EA, 0xA5CB, 0x95A8, 0x8589, 0xF56E, 0xE54F, 0xD52C, 0xC50D,
     0x34E2, 0x24C3, 0x14A0, 0x0481, 0x7466, 0x6447, 0x5424, 0x4405,
     0xA7DB, 0xB7FA, 0x8799, 0x97B8, 0xE75F, 0xF77E, 0xC71D, 0xD73C,
     0x26D3, 0x36F2, 0x0691, 0x16B0, 0x6657, 0x7676, 0x4615, 0x5634,
     0xD94C, 0xC96D, 0xF90E, 0xE92F, 0x99C8, 0x89E9, 0xB98A, 0xA9AB,
     0x5844, 0x4865, 0x7806, 0x6827, 0x18C0, 0x08E1, 0x3882, 0x28A3,
     0xCB7D, 0xDB5C, 0xEB3F, 0xFB1E, 0x8BF9, 0x9BD8, 0xABBB, 0xBB9A,
     0x4A75, 0x5A54, 0x6A37, 0x7A16, 0x0AF1, 0x1AD0, 0x2AB3, 0x3A92,
     0xFD2E, 0xED0F, 0xDD6C, 0xCD4D, 0xBDAA, 0xAD8B, 0x9DE8, 0x8DC9,
     0x7C26, 0x6C07, 0x5C64, 0x4C45, 0x3CA2, 0x2C83, 0x1CE0, 0x0CC1,
     0xEF1F, 0xFF3E, 0xCF5D, 0xDF7C, 0xAF9B, 0xBFBA, 0x8FD9, 0x9FF8,
     0x6E17, 0x7E36, 0x4E55, 0x5E74, 0x2E93, 0x3EB2, 0x0ED1, 0x1EF0]"

definition pCRC32Table :: "u32 list" where
  "pCRC32Table = [
     0x00000000, 0x77073096, 0xEE0E612C, 0x990951BA, 0x076DC419, 0x706AF48F,
     0xE963A535, 0x9E6495A3, 0x0EDB8832, 0x79DCB8A4, 0xE0D5E91E, 0x97D2D988,
     0x09B64C2B, 0x7EB17CBD, 0xE7B82D07, 0x90BF1D91, 0x1DB71064, 0x6AB020F2,
     0xF3B97148, 0x84BE41DE, 0x1ADAD47D, 0x6DDDE4EB, 0xF4D4B551, 0x83D385C7,
     0x136C9856, 0x646BA8C0, 0xFD62F97A, 0x8A65C9EC, 0x14015C4F, 0x63066CD9,
     0xFA0F3D63, 0x8D080DF5, 0x3B6E20C8, 0x4C69105E, 0xD56041E4, 0xA2677172,
     0x3C03E4D1, 0x4B04D447, 0xD20D85FD, 0xA50AB56B, 0x35B5A8FA, 0x42B2986C,
     0xDBBBC9D6, 0xACBCF940, 0x32D86CE3, 0x45DF5C75, 0xDCD60DCF, 0xABD13D59,
     0x26D930AC, 0x51DE003A, 0xC8D75180, 0xBFD06116, 0x21B4F4B5, 0x56B3C423,
     0xCFBA9599, 0xB8BDA50F, 0x2802B89E, 0x5F058808, 0xC60CD9B2, 0xB10BE924,
     0x2F6F7C87, 0x58684C11, 0xC1611DAB, 0xB6662D3D, 0x76DC4190, 0x01DB7106,
     0x98D220BC, 0xEFD5102A, 0x71B18589, 0x06B6B51F, 0x9FBFE4A5, 0xE8B8D433,
     0x7807C9A2, 0x0F00F934, 0x9609A88E, 0xE10E9818, 0x7F6A0DBB, 0x086D3D2D,
     0x91646C97, 0xE6635C01, 0x6B6B51F4, 0x1C6C6162, 0x856530D8, 0xF262004E,
     0x6C0695ED, 0x1B01A57B, 0x8208F4C1, 0xF50FC457, 0x65B0D9C6, 0x12B7E950,
     0x8BBEB8EA, 0xFCB9887C, 0x62DD1DDF, 0x15DA2D49, 0x8CD37CF3, 0xFBD44C65,
     0x4DB26158, 0x3AB551CE, 0xA3BC0074, 0xD4BB30E2, 0x4ADFA541, 0x3DD895D7,
     0xA4D1C46D, 0xD3D6F4FB, 0x4369E96A, 0x346ED9FC, 0xAD678846, 0xDA60B8D0,
     0x44042D73, 0x33031DE5, 0xAA0A4C5F, 0xDD0D7CC9, 0x5005713C, 0x270241AA,
     0xBE0B1010, 0xC90C2086, 0x5768B525, 0x206F85B3, 0xB966D409, 0xCE61E49F,
     0x5EDEF90E, 0x29D9C998, 0xB0D09822, 0xC7D7A8B4, 0x59B33D17, 0x2EB40D81,
     0xB7BD5C3B, 0xC0BA6CAD, 0xEDB88320, 0x9ABFB3B6, 0x03B6E20C, 0x74B1D29A,
     0xEAD54739, 0x9DD277AF, 0x04DB2615, 0x73DC1683, 0xE3630B12, 0x94643B84,
     0x0D6D6A3E, 0x7A6A5AA8, 0xE40ECF0B, 0x9309FF9D, 0x0A00AE27, 0x7D079EB1,
     0xF00F9344, 0x8708A3D2, 0x1E01F268, 0x6906C2FE, 0xF762575D, 0x806567CB,
     0x196C3671, 0x6E6B06E7, 0xFED41B76, 0x89D32BE0, 0x10DA7A5A, 0x67DD4ACC,
     0xF9B9DF6F, 0x8EBEEFF9, 0x17B7BE43, 0x60B08ED5, 0xD6D6A3E8, 0xA1D1937E,
     0x38D8C2C4, 0x4FDFF252, 0xD1BB67F1, 0xA6BC5767, 0x3FB506DD, 0x48B2364B,
     0xD80D2BDA, 0xAF0A1B4C, 0x36034AF6, 0x41047A60, 0xDF60EFC3, 0xA867DF55,
     0x316E8EEF, 0x4669BE79, 0xCB61B38C, 0xBC66831A, 0x256FD2A0, 0x5268E236,
     0xCC0C7795, 0xBB0B4703, 0x220216B9, 0x5505262F, 0xC5BA3BBE, 0xB2BD0B28,
     0x2BB45A92, 0x5CB36A04, 0xC2D7FFA7, 0xB5D0CF31, 0x2CD99E8B, 0x5BDEAE1D,
     0x9B64C2B0, 0xEC63F226, 0x756AA39C, 0x026D930A, 0x9C0906A9, 0xEB0E363F,
     0x72076785, 0x05005713, 0x95BF4A82, 0xE2B87A14, 0x7BB12BAE, 0x0CB61B38,
     0x92D28E9B, 0xE5D5BE0D, 0x7CDCEFB7, 0x0BDBDF21, 0x86D3D2D4, 0xF1D4E242,
     0x68DDB3F8, 0x1FDA836E, 0x81BE16CD, 0xF6B9265B, 0x6FB077E1, 0x18B74777,
     0x88085AE6, 0xFF0F6A70, 0x66063BCA, 0x11010B5C, 0x8F659EFF, 0xF862AE69,
     0x616BFFD3, 0x166CCF45, 0xA00AE278, 0xD70DD2EE, 0x4E048354, 0x3903B3C2,
     0xA7672661, 0xD06016F7, 0x4969474D, 0x3E6E77DB, 0xAED16A4A, 0xD9D65ADC,
     0x40DF0B66, 0x37D83BF0, 0xA9BCAE53, 0xDEBB9EC5, 0x47B2CF7F, 0x30B5FFE9,
     0xBDBDF21C, 0xCABAC28A, 0x53B39330, 0x24B4A3A6, 0xBAD03605, 0xCDD70693,
     0x54DE5729, 0x23D967BF, 0xB3667A2E, 0xC4614AB8, 0x5D681B02, 0x2A6F2B94,
     0xB40BBE37, 0xC30C8EA1, 0x5A05DF1B, 0x2D02EF8D]"

text \<open>One iteration of the loop of \<^verbatim>\<open>FTE_CRC16\<close>: \<^verbatim>\<open>uiTemp\<close> is a byte, so the XOR with
  the 16-bit register is truncated.\<close>

definition FTE_CRC16_step :: "u16 \<Rightarrow> u8 \<Rightarrow> u16" where
  "FTE_CRC16_step uiCRC d =
     (let uiTemp = d XOR (ucast uiCRC :: u8)
      in drop_bit 8 uiCRC XOR pCRC16Table ! unat uiTemp)"

definition FTE_CRC16 :: "u8 list \<Rightarrow> u16" where
  "FTE_CRC16 pData = foldl FTE_CRC16_step 0xFFFF pData"

definition FTE_CRC_CCITT_step :: "u16 \<Rightarrow> u8 \<Rightarrow> u16" where
  "FTE_CRC_CCITT_step uiCRC d =
     push_bit 8 uiCRC XOR pCCITTTable ! unat ((drop_bit 8 uiCRC XOR ucast d) AND 0x00FF)"

definition FTE_CRC_CCITT :: "u16 \<Rightarrow> u8 list \<Rightarrow> u16" where
  "FTE_CRC_CCITT uiCRC pData = foldl FTE_CRC_CCITT_step uiCRC pData"

definition FTE_CRC32_step :: "u32 \<Rightarrow> u8 \<Rightarrow> u32" where
  "FTE_CRC32_step ulCRC d =
     pCRC32Table ! unat ((ulCRC XOR ucast d) AND 0xFF) XOR drop_bit 8 ulCRC"

definition FTE_CRC32 :: "u32 \<Rightarrow> u8 list \<Rightarrow> u32" where
  "FTE_CRC32 ulCRC pBuf = foldl FTE_CRC32_step (ulCRC XOR NOT 0) pBuf XOR NOT 0"

section \<open>Reference: the bitwise shift registers\<close>

text \<open>The reflected register shifts right and XORs the polynomial when the bit
  shifted out is set; the other one shifts left.\<close>

definition refl_bit :: "'a::len word \<Rightarrow> 'a word \<Rightarrow> 'a word" where
  "refl_bit p x = (if bit x 0 then drop_bit 1 x XOR p else drop_bit 1 x)"

definition refl_byte :: "'a::len word \<Rightarrow> 'a word \<Rightarrow> u8 \<Rightarrow> 'a word" where
  "refl_byte p c d = (refl_bit p ^^ 8) (c XOR ucast d)"

definition msb_bit :: "u16 \<Rightarrow> u16 \<Rightarrow> u16" where
  "msb_bit p x = (if bit x 15 then push_bit 1 x XOR p else push_bit 1 x)"

definition msb_byte :: "u16 \<Rightarrow> u16 \<Rightarrow> u8 \<Rightarrow> u16" where
  "msb_byte p c d = (msb_bit p ^^ 8) (c XOR push_bit 8 (ucast d))"

text \<open>The tables are the registers' responses to the 256 one-byte inputs.\<close>

definition byte_indices :: "'a::len word list" where
  "byte_indices = [
     0, 1, 2, 3, 4, 5, 6, 7, 8, 9, 10, 11, 12, 13, 14, 15,
     16, 17, 18, 19, 20, 21, 22, 23, 24, 25, 26, 27, 28, 29, 30, 31,
     32, 33, 34, 35, 36, 37, 38, 39, 40, 41, 42, 43, 44, 45, 46, 47,
     48, 49, 50, 51, 52, 53, 54, 55, 56, 57, 58, 59, 60, 61, 62, 63,
     64, 65, 66, 67, 68, 69, 70, 71, 72, 73, 74, 75, 76, 77, 78, 79,
     80, 81, 82, 83, 84, 85, 86, 87, 88, 89, 90, 91, 92, 93, 94, 95,
     96, 97, 98, 99, 100, 101, 102, 103, 104, 105, 106, 107, 108, 109, 110, 111,
     112, 113, 114, 115, 116, 117, 118, 119, 120, 121, 122, 123, 124, 125, 126, 127,
     128, 129, 130, 131, 132, 133, 134, 135, 136, 137, 138, 139, 140, 141, 142, 143,
     144, 145, 146, 147, 148, 149, 150, 151, 152, 153, 154, 155, 156, 157, 158, 159,
     160, 161, 162, 163, 164, 165, 166, 167, 168, 169, 170, 171, 172, 173, 174, 175,
     176, 177, 178, 179, 180, 181, 182, 183, 184, 185, 186, 187, 188, 189, 190, 191,
     192, 193, 194, 195, 196, 197, 198, 199, 200, 201, 202, 203, 204, 205, 206, 207,
     208, 209, 210, 211, 212, 213, 214, 215, 216, 217, 218, 219, 220, 221, 222, 223,
     224, 225, 226, 227, 228, 229, 230, 231, 232, 233, 234, 235, 236, 237, 238, 239,
     240, 241, 242, 243, 244, 245, 246, 247, 248, 249, 250, 251, 252, 253, 254, 255]"

lemma byte_indices_eq: "byte_indices = map of_nat [0..<256]"
  by (simp add: byte_indices_def upt_rec)

lemma funpow_8: "(f ^^ 8) x = f (f (f (f (f (f (f (f x)))))))"
  by (simp add: numeral_eq_Suc)

lemma pCRC16Table_bitwise: "pCRC16Table = map (refl_bit 0xA001 ^^ 8) byte_indices"
  by (simp add: pCRC16Table_def byte_indices_def funpow_8 refl_bit_def)

lemma pCCITTTable_bitwise:
  "pCCITTTable = map (msb_bit 0x1021 ^^ 8) (map (push_bit 8) byte_indices)"
  by (simp add: pCCITTTable_def byte_indices_def funpow_8 msb_bit_def)

lemma pCRC32Table_bitwise: "pCRC32Table = map (refl_bit 0xEDB88320 ^^ 8) byte_indices"
  by (simp add: pCRC32Table_def byte_indices_def funpow_8 refl_bit_def)

lemma byte_indices_nth:
  assumes "i < 256"
  shows "map f byte_indices ! i = f (of_nat i :: 'a::len word)"
  using assms by (simp add: byte_indices_eq)

lemma table_nth:
  fixes d :: u8
  shows "map f byte_indices ! unat d = f (ucast d :: 'a::len word)"
proof -
  have "unat d < 256" using unsigned_less [of d] by simp
  then show ?thesis by (simp add: byte_indices_nth)
qed

section \<open>Linearity and injectivity of the registers\<close>

lemma u8_bit_less: "bit (d :: u8) n \<Longrightarrow> n < 8"
  using bit_imp_le_length [of d n] by simp

lemma unat_ucast_u8: "8 \<le> LENGTH('a) \<Longrightarrow> unat (ucast (d :: u8) :: 'a::len word) = unat d"
proof -
  assume len: "8 \<le> LENGTH('a)"
  have "unat d < 2 ^ 8" using unsigned_less [of d] by simp
  also have "(2::nat) ^ 8 \<le> 2 ^ LENGTH('a)" using len by (rule power_increasing) simp
  finally show "unat (ucast d :: 'a word) = unat d"
    by (simp add: unsigned_ucast_eq take_bit_word_eq_self take_bit_nat_eq_self)
qed

lemma take_bit_self_mono:
  assumes "take_bit m x = x" "m \<le> k"
  shows "take_bit k x = (x :: 'a::len word)"
proof -
  have "take_bit k (take_bit m x) = take_bit m x" using assms(2) by simp
  then show ?thesis by (simp only: assms(1))
qed

lemma refl_bit_xor: "refl_bit p (x XOR y) = refl_bit p x XOR refl_bit p y"
  by (auto simp: refl_bit_def drop_bit_xor bit_xor_iff ac_simps)

lemma refl_pow_xor: "(refl_bit p ^^ n) (x XOR y) = (refl_bit p ^^ n) x XOR (refl_bit p ^^ n) y"
  by (induction n) (simp_all add: refl_bit_xor)

lemma refl_pow_low_zero:
  "take_bit n x = 0 \<Longrightarrow> (refl_bit p ^^ n) x = drop_bit n x"
proof (induction n arbitrary: x)
  case 0
  then show ?case by simp
next
  case (Suc n)
  have b0: "\<not> bit x 0"
    using arg_cong [OF Suc.prems, of "\<lambda>w. bit w 0"] by (simp add: bit_take_bit_iff)
  have "take_bit n (drop_bit 1 x) = 0"
    using Suc.prems by (simp add: take_bit_drop_bit)
  then have "(refl_bit p ^^ n) (drop_bit 1 x) = drop_bit n (drop_bit 1 x)"
    by (rule Suc.IH)
  moreover have "refl_bit p x = drop_bit 1 x" using b0 by (simp add: refl_bit_def)
  ultimately show ?case
    by (simp add: funpow_Suc_right del: funpow.simps)
qed

lemma word_split_low: "x = (x AND NOT (mask n)) XOR take_bit n (x :: 'a::len word)"
  by (rule bit_word_eqI) (auto simp: bit_simps)

lemma refl_pow_split:
  "(refl_bit p ^^ n) x = drop_bit n x XOR (refl_bit p ^^ n) (take_bit n x)"
proof -
  have "take_bit n (x AND NOT (mask n)) = 0"
    by (rule bit_word_eqI) (auto simp: bit_simps)
  then have hi: "(refl_bit p ^^ n) (x AND NOT (mask n)) = drop_bit n (x AND NOT (mask n))"
    by (rule refl_pow_low_zero)
  have "drop_bit n (x AND NOT (mask n)) = drop_bit n x"
    by (rule bit_word_eqI) (auto simp: bit_simps dest: bit_imp_le_length)
  then show ?thesis
    by (subst word_split_low [of x n]) (simp only: refl_pow_xor hi)
qed

lemma refl_bit_inj:
  fixes p :: "'a::len word"
  assumes "bit p (LENGTH('a) - 1)"
  shows "inj (refl_bit p)"
proof (rule injI)
  fix x y :: "'a word"
  assume eq: "refl_bit p x = refl_bit p y"
  have top: "\<not> bit (drop_bit 1 z) (LENGTH('a) - 1)" for z :: "'a word"
    by (simp add: bit_drop_bit_eq)
  have low: "bit x 0 = bit y 0"
    using arg_cong [OF eq, of "\<lambda>w. bit w (LENGTH('a) - 1)"] assms top [of x] top [of y]
    by (auto simp: refl_bit_def bit_xor_iff split: if_splits)
  then have "drop_bit 1 x = drop_bit 1 y"
    using eq by (auto simp: refl_bit_def word_xor_cancel_right split: if_splits)
  then have hi: "bit x (Suc n) = bit y (Suc n)" for n
    by (metis bit_drop_bit_eq comp_apply plus_1_eq_Suc)
  show "x = y"
  proof (rule bit_word_eqI)
    fix n show "bit x n = bit y n" using low hi by (cases n) auto
  qed
qed

text \<open>Little-endian reading of a run of bytes.\<close>

fun le_word :: "u8 list \<Rightarrow> 'a::len word" where
  "le_word [] = 0"
| "le_word (d # ds) = ucast d XOR push_bit 8 (le_word ds)"

lemma refl_pow_push:
  assumes "take_bit (LENGTH('a) - n) (y :: 'a::len word) = y"
  shows "(refl_bit p ^^ n) (push_bit n y) = y"
proof -
  have "take_bit n (push_bit n y) = 0"
    by (rule bit_word_eqI) (auto simp: bit_simps)
  then have "(refl_bit p ^^ n) (push_bit n y) = drop_bit n (push_bit n y)"
    by (rule refl_pow_low_zero)
  also have "\<dots> = take_bit (LENGTH('a) - n) y"
    by (rule bit_word_eqI) (auto simp: bit_simps)
  finally show ?thesis using assms by simp
qed

lemma le_word_bound: "take_bit (8 * length ds) (le_word ds) = (le_word ds :: 'a::len word)"
proof (induction ds)
  case Nil
  then show ?case by simp
next
  case (Cons d ds)
  have b: "bit (le_word ds :: 'a word) n \<Longrightarrow> n < 8 * length ds" for n
    using arg_cong [OF Cons.IH, of "\<lambda>w. bit w n"] by (auto simp: bit_take_bit_iff)
  show ?case
    by (rule bit_word_eqI) (auto simp: bit_simps dest: b bit_imp_le_length)
qed

lemma refl_foldl_window:
  assumes "8 * length ds \<le> LENGTH('a)"
  shows "foldl (refl_byte p) (c :: 'a::len word) ds
         = (refl_bit p ^^ (8 * length ds)) (c XOR le_word ds)"
  using assms
proof (induction ds arbitrary: c)
  case Nil
  then show ?case by simp
next
  case (Cons d ds)
  let ?w = "le_word ds :: 'a word"
  have w: "take_bit (LENGTH('a) - 8) ?w = ?w"
  proof -
    have "8 * length ds \<le> LENGTH('a) - 8" using Cons.prems by simp
    with le_word_bound show ?thesis by (rule take_bit_self_mono)
  qed
  have len: "8 * length ds \<le> LENGTH('a)" using Cons.prems by simp
  have "foldl (refl_byte p) c (d # ds) = foldl (refl_byte p) (refl_byte p c d) ds"
    by (simp only: foldl.simps)
  also have "\<dots> = (refl_bit p ^^ (8 * length ds)) (refl_byte p c d XOR ?w)"
    by (rule Cons.IH [OF len])
  also have "refl_byte p c d XOR ?w = (refl_bit p ^^ 8) (c XOR ucast d XOR push_bit 8 ?w)"
    by (simp only: refl_byte_def refl_pow_xor refl_pow_push [OF w] xor.assoc)
  also have "(refl_bit p ^^ (8 * length ds)) ((refl_bit p ^^ 8) (c XOR ucast d XOR push_bit 8 ?w))
             = (refl_bit p ^^ (8 * length ds + 8)) (c XOR ucast d XOR push_bit 8 ?w)"
    by (simp only: funpow_add comp_apply)
  also have "8 * length ds + 8 = 8 * length (d # ds)" by simp
  also have "c XOR ucast d XOR push_bit 8 ?w = c XOR le_word (d # ds)"
    by (simp only: le_word.simps xor.assoc)
  finally show ?case .
qed

lemma le_word_decode:
  assumes "8 * Suc (length ds) \<le> LENGTH('a)"
  shows "ucast (ucast (d :: u8) XOR push_bit 8 (le_word ds :: 'a::len word)) = d"
    and "drop_bit 8 (ucast d XOR push_bit 8 (le_word ds :: 'a word)) = le_word ds"
proof -
  show "ucast (ucast (d :: u8) XOR push_bit 8 (le_word ds :: 'a::len word)) = d"
  proof (rule bit_word_eqI)
    fix n assume "n < LENGTH(8)"
    then show "bit (ucast (ucast d XOR push_bit 8 (le_word ds :: 'a word)) :: u8) n = bit d n"
      using assms by (simp add: bit_simps)
  qed
  have b: "bit (le_word ds :: 'a word) n \<Longrightarrow> n < 8 * length ds" for n
    using arg_cong [OF le_word_bound [of ds, where 'a = 'a], of "\<lambda>w. bit w n"]
    by (auto simp: bit_take_bit_iff)
  have d8: "\<not> bit d (8 + n)" for n
    using bit_imp_le_length [of d "8 + n"] by auto
  show "drop_bit 8 (ucast d XOR push_bit 8 (le_word ds :: 'a word)) = le_word ds"
  proof (rule bit_word_eqI)
    fix n assume "n < LENGTH('a)"
    show "bit (drop_bit 8 (ucast d XOR push_bit 8 (le_word ds :: 'a word))) n
          = bit (le_word ds :: 'a word) n"
      using assms b [of n] by (auto simp: bit_simps d8)
  qed
qed

lemma le_word_inj:
  assumes "length xs = length ys" "8 * length xs \<le> LENGTH('a)"
    "le_word xs = (le_word ys :: 'a::len word)"
  shows "xs = ys"
  using assms
proof (induction xs ys rule: list_induct2)
  case Nil
  then show ?case by simp
next
  case (Cons x xs y ys)
  have bx: "8 * Suc (length xs) \<le> LENGTH('a)" and "8 * Suc (length ys) \<le> LENGTH('a)"
    using Cons.prems Cons.hyps by simp_all
  note d = le_word_decode [OF this(1), of x] le_word_decode [OF this(2), of y]
  have eq: "ucast x XOR push_bit 8 (le_word xs) = ucast y XOR push_bit 8 (le_word ys :: 'a word)"
    using Cons.prems by simp
  have "x = y" using d(1,3) eq by metis
  moreover have "le_word xs = (le_word ys :: 'a word)" using d(2,4) eq by metis
  ultimately show ?case using Cons.IH bx by simp
qed

section \<open>The table steps are the register steps\<close>

lemma FTE_CRC16_step_bitwise: "FTE_CRC16_step c d = refl_byte 0xA001 c d"
proof -
  let ?x = "c XOR ucast d :: u16"
  have low: "(ucast (d XOR ucast c :: u8) :: u16) = take_bit 8 ?x"
    by (rule bit_word_eqI) (auto simp: bit_simps dest: u8_bit_less)
  have hi: "drop_bit 8 ?x = drop_bit 8 c"
    by (rule bit_word_eqI) (auto simp: bit_simps dest: u8_bit_less)
  show ?thesis
    by (simp only: FTE_CRC16_step_def Let_def pCRC16Table_bitwise table_nth low refl_byte_def
        refl_pow_split [where x = ?x and n = 8] hi)
qed

lemma FTE_CRC32_step_bitwise: "FTE_CRC32_step c d = refl_byte 0xEDB88320 c d"
proof -
  let ?x = "c XOR ucast d :: u32"
  let ?i = "ucast ?x :: u8"
  have ix: "unat (?x AND 0xFF) = unat ?i"
  proof -
    have "?x AND 0xFF = ucast ?i"
    proof (rule bit_word_eqI)
      have m: "(0xFF :: u32) = mask 8" by (simp add: mask_eq_exp_minus_1)
      fix n assume "n < LENGTH(32)"
      then show "bit (?x AND 0xFF) n = bit (ucast ?i :: u32) n"
        by (auto simp only: m) (auto simp: bit_simps)
    qed
    then have "unat (?x AND 0xFF) = unat (ucast ?i :: u32)" by (simp only:)
    also have "\<dots> = unat ?i" by (rule unat_ucast_u8) simp
    finally show ?thesis .
  qed
  have low: "(ucast ?i :: u32) = take_bit 8 ?x"
    by (rule bit_word_eqI) (auto simp: bit_simps)
  have hi: "drop_bit 8 ?x = drop_bit 8 c"
    by (rule bit_word_eqI) (auto simp: bit_simps dest: u8_bit_less)
  show ?thesis
    by (simp only: FTE_CRC32_step_def pCRC32Table_bitwise ix table_nth low refl_byte_def
        refl_pow_split [where x = ?x and n = 8] hi xor.commute)
qed

lemma msb_bit_xor: "msb_bit p (x XOR y) = msb_bit p x XOR msb_bit p y"
  by (auto simp: msb_bit_def push_bit_xor bit_xor_iff ac_simps)

lemma msb_pow_xor: "(msb_bit p ^^ n) (x XOR y) = (msb_bit p ^^ n) x XOR (msb_bit p ^^ n) y"
  by (induction n) (simp_all add: msb_bit_xor)

lemma msb_pow_small:
  "n \<le> 16 \<Longrightarrow> take_bit (16 - n) x = x \<Longrightarrow> (msb_bit p ^^ n) x = push_bit n x"
proof (induction n)
  case 0
  then show ?case by simp
next
  case (Suc n)
  have "take_bit (16 - n) x = x"
    using Suc.prems(2) by (rule take_bit_self_mono) simp
  then have "(msb_bit p ^^ n) x = push_bit n x"
    using Suc by simp
  moreover have "\<not> bit (push_bit n x) 15"
  proof
    assume "bit (push_bit n x) 15"
    then have "bit x (15 - n)" by (simp add: bit_simps)
    then have "bit (take_bit (16 - Suc n) x) (15 - n)" using Suc.prems by simp
    then show False by (simp add: bit_take_bit_iff)
  qed
  then have "msb_bit p (push_bit n x) = push_bit 1 (push_bit n x)"
    by (simp add: msb_bit_def)
  ultimately show ?case by simp
qed

lemma FTE_CRC_CCITT_step_bitwise: "FTE_CRC_CCITT_step c d = msb_byte 0x1021 c d"
proof -
  let ?x = "c XOR push_bit 8 (ucast d) :: u16"
  let ?i = "ucast (drop_bit 8 ?x) :: u8"
  have "(drop_bit 8 c XOR ucast d) AND 0x00FF = (ucast ?i :: u16)"
  proof (rule bit_word_eqI)
    have m: "(0x00FF :: u16) = mask 8" by (simp add: mask_eq_exp_minus_1)
    fix n assume "n < LENGTH(16)"
    then show "bit ((drop_bit 8 c XOR ucast d) AND 0x00FF) n = bit (ucast ?i :: u16) n"
      by (simp only: m) (auto simp: bit_simps dest: u8_bit_less bit_imp_le_length)
  qed
  then have "unat ((drop_bit 8 c XOR ucast d) AND 0x00FF) = unat (ucast ?i :: u16)"
    by (simp only:)
  also have "\<dots> = unat ?i" by (rule unat_ucast_u8) simp
  finally have ix: "unat ((drop_bit 8 c XOR ucast d) AND 0x00FF) = unat ?i" .
  have split: "?x = take_bit 8 c XOR push_bit 8 (ucast ?i)"
    by (rule bit_word_eqI) (auto simp: bit_simps dest: u8_bit_less)
  have low: "(msb_bit 0x1021 ^^ 8) (take_bit 8 c) = push_bit 8 c"
  proof -
    have "(msb_bit 0x1021 ^^ 8) (take_bit 8 c) = push_bit 8 (take_bit 8 c)"
      by (rule msb_pow_small) simp_all
    also have "\<dots> = push_bit 8 c"
      by (rule bit_word_eqI) (auto simp: bit_simps)
    finally show ?thesis .
  qed
  have "msb_byte 0x1021 c d
        = (msb_bit 0x1021 ^^ 8) (take_bit 8 c XOR push_bit 8 (ucast ?i))"
    by (simp only: msb_byte_def split [symmetric])
  also have "\<dots> = push_bit 8 c XOR (msb_bit 0x1021 ^^ 8) (push_bit 8 (ucast ?i))"
    by (simp only: msb_pow_xor low)
  finally show ?thesis
    by (simp only: FTE_CRC_CCITT_step_def pCCITTTable_bitwise map_map comp_def ix table_nth)
qed

section \<open>What the checksums detect\<close>

text \<open>
  The contract every user of a checksum relies on: the register is a bijective
  function of its previous value, and a run of at most \<open>w\<close> bytes is determined by
  the registers before and after it.  From these two laws follows the burst
  guarantee: two messages that differ only inside a window of \<open>w\<close> bytes have
  different checksums.
\<close>

locale burst_crc =
  fixes step :: "'c \<Rightarrow> u8 \<Rightarrow> 'c" and w :: nat
  assumes step_inj: "step c d = step c' d \<Longrightarrow> c = c'"
    and window_inj: "length xs = length ys \<Longrightarrow> length xs \<le> w \<Longrightarrow>
      foldl step c xs = foldl step c ys \<Longrightarrow> xs = ys"
begin

lemma run_inj: "foldl step c ds = foldl step c' ds \<Longrightarrow> c = c'"
  by (induction ds arbitrary: c c') (auto dest: step_inj)

lemma burst_detected:
  assumes "length xs = length ys" "length xs \<le> w" "xs \<noteq> ys"
  shows "foldl step c (pre @ xs @ post) \<noteq> foldl step c (pre @ ys @ post)"
proof
  assume "foldl step c (pre @ xs @ post) = foldl step c (pre @ ys @ post)"
  then have "foldl step (foldl step c pre) xs = foldl step (foldl step c pre) ys"
    by (auto dest: run_inj)
  with assms(3) window_inj [OF assms(1,2)] show False by blast
qed

end

lemma refl_window_inj:
  assumes "bit p (LENGTH('a) - 1)" "length xs = length ys" "8 * length xs \<le> LENGTH('a)"
    and eq: "foldl (refl_byte p) (c :: 'a::len word) xs = foldl (refl_byte p) c ys"
  shows "xs = ys"
proof -
  have i: "inj (refl_bit p ^^ n)" for n by (rule inj_fn) (rule refl_bit_inj [OF assms(1)])
  have "c XOR le_word xs = c XOR le_word ys"
    using eq assms(2,3) injD [OF i] by (simp add: refl_foldl_window)
  then have "le_word xs = (le_word ys :: 'a word)"
    by (metis word_xor_cancel_right xor.commute)
  with assms(2,3) show ?thesis by (rule le_word_inj)
qed

lemma refl_byte_inj:
  assumes "bit p (LENGTH('a) - 1)" "refl_byte p (c :: 'a::len word) d = refl_byte p c' d"
  shows "c = c'"
proof -
  have i: "inj (refl_bit p ^^ 8)" by (rule inj_fn) (rule refl_bit_inj [OF assms(1)])
  have "c XOR ucast d = c' XOR ucast d"
    using assms(2) unfolding refl_byte_def by (rule injD [OF i])
  then show ?thesis by (simp only: word_xor_cancel_right)
qed

lemma step_fun_eqs:
  "FTE_CRC16_step = refl_byte 0xA001"
  "FTE_CRC32_step = refl_byte 0xEDB88320"
  "FTE_CRC_CCITT_step = msb_byte 0x1021"
  by (simp_all add: fun_eq_iff FTE_CRC16_step_bitwise FTE_CRC32_step_bitwise
      FTE_CRC_CCITT_step_bitwise)

interpretation crc16: burst_crc FTE_CRC16_step 2
proof unfold_locales
  have p: "bit (0xA001 :: u16) (LENGTH(16) - 1)" by simp
  show "FTE_CRC16_step c d = FTE_CRC16_step c' d \<Longrightarrow> c = c'" for c d c'
    unfolding step_fun_eqs by (rule refl_byte_inj [OF p])
  show "length xs = length ys \<Longrightarrow> length xs \<le> 2 \<Longrightarrow>
      foldl FTE_CRC16_step c xs = foldl FTE_CRC16_step c ys \<Longrightarrow> xs = ys" for xs ys c
    unfolding step_fun_eqs by (rule refl_window_inj [OF p]) auto
qed

interpretation crc32: burst_crc FTE_CRC32_step 4
proof unfold_locales
  have p: "bit (0xEDB88320 :: u32) (LENGTH(32) - 1)" by simp
  show "FTE_CRC32_step c d = FTE_CRC32_step c' d \<Longrightarrow> c = c'" for c d c'
    unfolding step_fun_eqs by (rule refl_byte_inj [OF p])
  show "length xs = length ys \<Longrightarrow> length xs \<le> 4 \<Longrightarrow>
      foldl FTE_CRC32_step c xs = foldl FTE_CRC32_step c ys \<Longrightarrow> xs = ys" for xs ys c
    unfolding step_fun_eqs by (rule refl_window_inj [OF p]) auto
qed

lemma msb_bit_inj:
  assumes "bit p 0"
  shows "inj (msb_bit p)"
proof (rule injI)
  fix x y :: u16
  assume eq: "msb_bit p x = msb_bit p y"
  have z: "\<not> bit (push_bit 1 z) 0" for z :: u16 by (simp only: bit_push_bit_iff) simp
  have top: "bit x 15 = bit y 15"
    using arg_cong [OF eq, of "\<lambda>w. bit w 0"] assms z [of x] z [of y]
    by (auto simp: msb_bit_def bit_xor_iff split: if_splits)
  then have sh: "push_bit 1 x = push_bit 1 y"
    using eq by (auto simp: msb_bit_def word_xor_cancel_right split: if_splits)
  show "x = y"
  proof (rule bit_word_eqI)
    fix n assume n: "n < LENGTH(16)"
    show "bit x n = bit y n"
    proof (cases "n = 15")
      case True
      then show ?thesis using top by simp
    next
      case False
      then have "bit (push_bit 1 z) (Suc n) = bit z n" for z :: u16
        using n by (simp only: bit_push_bit_iff) simp
      then show ?thesis using sh by metis
    qed
  qed
qed

lemma msb_two_bytes:
  "msb_byte p (msb_byte p c d) e = (msb_bit p ^^ 16) (c XOR (push_bit 8 (ucast d) XOR ucast e))"
proof -
  have "(msb_bit p ^^ 8) (ucast e) = push_bit 8 (ucast e)"
    by (rule msb_pow_small, simp, rule bit_word_eqI) (auto simp: bit_simps dest: u8_bit_less)
  then have "msb_byte p (msb_byte p c d) e
      = (msb_bit p ^^ 8) ((msb_bit p ^^ 8) (c XOR push_bit 8 (ucast d) XOR ucast e))"
    by (simp only: msb_byte_def msb_pow_xor xor.assoc)
  also have "\<dots> = (msb_bit p ^^ (8 + 8)) (c XOR push_bit 8 (ucast d) XOR ucast e)"
    by (simp only: funpow_add comp_apply)
  finally show ?thesis by (simp add: xor.assoc)
qed

lemma be_pair_inj:
  fixes d e d' e' :: u8
  assumes "push_bit 8 (ucast d) XOR ucast e = (push_bit 8 (ucast d') XOR ucast e' :: u16)"
  shows "d = d' \<and> e = e'"
proof -
  have lo: "(ucast (push_bit 8 (ucast d) XOR ucast e :: u16) :: u8) = e" for d e :: u8
    by (rule bit_word_eqI) (simp add: bit_simps)
  have hi: "(ucast (drop_bit 8 (push_bit 8 (ucast d) XOR ucast e :: u16)) :: u8) = d" for d e :: u8
    by (rule bit_word_eqI) (auto simp: bit_simps dest: u8_bit_less)
  from assms lo [of d e] lo [of d' e'] hi [of d e] hi [of d' e'] show ?thesis by metis
qed

lemma msb_window_inj:
  assumes p: "bit p 0" and len: "length xs = length ys" "length xs \<le> 2"
    and eq: "foldl (msb_byte p) c xs = foldl (msb_byte p) c ys"
  shows "xs = ys"
proof -
  have i: "(msb_bit p ^^ n) a = (msb_bit p ^^ n) b \<Longrightarrow> a = b" for n a b
    using inj_fn [OF msb_bit_inj [OF p], of n] by (rule injD)
  consider "xs = []" "ys = []"
    | x y where "xs = [x]" "ys = [y]"
    | x1 x2 y1 y2 where "xs = [x1, x2]" "ys = [y1, y2]"
    using len by (cases xs; cases ys; cases "tl xs"; cases "tl ys") auto
  then show ?thesis
  proof cases
    case 1
    then show ?thesis by simp
  next
    case (2 x y)
    have "c XOR push_bit 8 (ucast x) = c XOR push_bit 8 (ucast y)"
      using eq unfolding 2 by (auto simp: msb_byte_def dest: i)
    then have "push_bit 8 (ucast x) XOR ucast (0 :: u8) = (push_bit 8 (ucast y) XOR ucast (0 :: u8) :: u16)"
      by (metis word_xor_cancel_right xor.commute)
    then have "x = y" using be_pair_inj by blast
    then show ?thesis using 2 by simp
  next
    case (3 x1 x2 y1 y2)
    have "c XOR (push_bit 8 (ucast x1) XOR ucast x2) = c XOR (push_bit 8 (ucast y1) XOR ucast y2)"
      using eq unfolding 3 by (auto simp: msb_two_bytes dest: i)
    then have "push_bit 8 (ucast x1) XOR ucast x2 = (push_bit 8 (ucast y1) XOR ucast y2 :: u16)"
      by (metis word_xor_cancel_right xor.commute)
    then show ?thesis using 3 by (auto dest: be_pair_inj)
  qed
qed

interpretation ccitt: burst_crc FTE_CRC_CCITT_step 2
proof unfold_locales
  have p: "bit (0x1021 :: u16) 0" by simp
  show "FTE_CRC_CCITT_step c d = FTE_CRC_CCITT_step c' d \<Longrightarrow> c = c'" for c d c'
  proof -
    assume "FTE_CRC_CCITT_step c d = FTE_CRC_CCITT_step c' d"
    then have "c XOR push_bit 8 (ucast d) = c' XOR push_bit 8 (ucast d)"
      unfolding step_fun_eqs msb_byte_def by (rule injD [OF inj_fn [OF msb_bit_inj [OF p]]])
    then show "c = c'" by (simp only: word_xor_cancel_right)
  qed
  show "length xs = length ys \<Longrightarrow> length xs \<le> 2 \<Longrightarrow>
      foldl FTE_CRC_CCITT_step c xs = foldl FTE_CRC_CCITT_step c ys \<Longrightarrow> xs = ys" for xs ys c
    unfolding step_fun_eqs by (rule msb_window_inj [OF p])
qed

section \<open>Properties\<close>

text \<open>
  C5: The three table-driven loops compute the bitwise shift registers of their
  polynomials, for every message: CRC-16 with the reflected polynomial 0xA001
  and the register preset to 0xFFFF, CRC-CCITT with 0x1021 from the caller's
  value, CRC-32 with the reflected polynomial 0xEDB88320 and both complements.
\<close>

theorem crc_tables_equal_registers:
  "FTE_CRC16 ds = foldl (refl_byte 0xA001) 0xFFFF ds
   \<and> FTE_CRC_CCITT c ds = foldl (msb_byte 0x1021) c ds
   \<and> FTE_CRC32 k ds = NOT (foldl (refl_byte 0xEDB88320) (NOT k) ds)"
  by (simp add: FTE_CRC16_def FTE_CRC_CCITT_def FTE_CRC32_def step_fun_eqs)

lemma FTE_CRC32_append: "FTE_CRC32 c (a @ b) = FTE_CRC32 (FTE_CRC32 c a) b"
  by (simp add: FTE_CRC32_def xor.assoc)

text \<open>
  C6: A corrupted window is always noticed: two messages of equal length that
  differ only inside a run of at most two bytes (CRC-16, CCITT) or four bytes
  (CRC-32) never have the same checksum, whatever surrounds the run.
\<close>

theorem crc_burst_detected:
  assumes "length xs = length ys" "xs \<noteq> ys" "length xs \<le> 4"
  shows "FTE_CRC32 k (pre @ xs @ post) \<noteq> FTE_CRC32 k (pre @ ys @ post)
    \<and> (length xs \<le> 2 \<longrightarrow>
        FTE_CRC16 (pre @ xs @ post) \<noteq> FTE_CRC16 (pre @ ys @ post)
        \<and> FTE_CRC_CCITT c (pre @ xs @ post) \<noteq> FTE_CRC_CCITT c (pre @ ys @ post))"
  using assms crc16.burst_detected [of xs ys] ccitt.burst_detected [of xs ys]
    crc32.burst_detected [of xs ys]
  unfolding FTE_CRC16_def FTE_CRC_CCITT_def FTE_CRC32_def word_xor_cancel_right by blast

theorem crc_burst_detected_witness:
  "FTE_CRC32 0 ([0x31] @ [0x32, 0x33] @ [0x34]) \<noteq> FTE_CRC32 0 ([0x31] @ [0x33, 0x32] @ [0x34])
   \<and> FTE_CRC16 ([0x31] @ [0x32, 0x33] @ [0x34]) \<noteq> FTE_CRC16 ([0x31] @ [0x33, 0x32] @ [0x34])"
  using crc_burst_detected [of "[0x32, 0x33]" "[0x33, 0x32]" 0 "[0x31]" "[0x34]" 0] by simp

end
