(* ===== verification/FTE_Kernel.thy ===== *)
theory FTE_Kernel
  imports FTE_Prelude
begin

unbundle bit_operations_syntax

text \<open>
  What the firmware's containers need of the system: the block allocator behind
  \<^verbatim>\<open>FTE_MEM_allocZero\<close> and \<^verbatim>\<open>FTE_MEM_free\<close> (macros of \<^verbatim>\<open>target/include/fte_mem.h\<close>
  over the MQX memory pool) and the locks of \<^verbatim>\<open>target/source/sys/fte_sys.c\<close> over MQX
  light-weight semaphores.

  The allocator is external.  It is represented by the sequence of answers it is
  going to give (\<open>pool\<close>): a NULL entry is a call that fails, and an exhausted
  sequence always fails; released blocks are handed out again.  \<open>live\<close> is the set of
  blocks currently allocated; releasing a block that is not in it (a double free)
  does not return.  Memory is a store with one map per C type: list nodes, list
  headers and semaphore counts.
\<close>

section \<open>State\<close>

record fte_node =
  pPrev :: addr
  pNext :: addr
  pItem :: addr
  nReserved :: u32

record fte_list =
  nCount :: u32
  pHead :: addr
  pLockKey :: addr

record fte_kernel =
  pool :: "addr list"
  live :: "addr set"
  nodes :: "addr \<rightharpoonup> fte_node"
  lists :: "addr \<rightharpoonup> fte_list"
  sems :: "addr \<rightharpoonup> nat"
  unstable :: bool

type_synonym 'z kst = "'z fte_kernel_scheme"

abbreviation node_zero :: fte_node where
  "node_zero \<equiv> \<lparr>pPrev = NULL, pNext = NULL, pItem = NULL, nReserved = 0\<rparr>"

abbreviation list_zero :: fte_list where
  "list_zero \<equiv> \<lparr>nCount = 0, pHead = NULL, pLockKey = NULL\<rparr>"

section \<open>Memory\<close>

definition FTE_MEM_alloc :: "'z kst \<Rightarrow> addr \<times> 'z kst" where
  "FTE_MEM_alloc s = (case pool s of
       [] \<Rightarrow> (NULL, s)
     | a # as \<Rightarrow>
         if a = NULL then (NULL, s\<lparr>pool := as\<rparr>)
         else (a, s\<lparr>pool := as, live := insert a (live s)\<rparr>))"

definition FTE_MEM_free :: "addr \<Rightarrow> 'z kst \<Rightarrow> 'z kst option" where
  "FTE_MEM_free a s =
     (if a = NULL then Some s
      else if a \<in> live s then
        Some (s\<lparr>pool := a # pool s, live := live s - {a},
                nodes := (nodes s)(a := None), sems := (sems s)(a := None)\<rparr>)
      else None)"

text \<open>\<^verbatim>\<open>FTE_MEM_allocZero(sizeof(FTE_LIST_NODE))\<close>: the block becomes a zeroed node.\<close>

definition FTE_MEM_allocNode :: "'z kst \<Rightarrow> addr \<times> 'z kst" where
  "FTE_MEM_allocNode s =
     (let (a, s) = FTE_MEM_alloc s in
      if a = NULL then (NULL, s) else (a, s\<lparr>nodes := (nodes s)(a \<mapsto> node_zero)\<rparr>))"

section \<open>Locks\<close>

text \<open>\<^verbatim>\<open>_lwsem_create\<close> sets the count of a fresh block; \<^verbatim>\<open>_lwsem_wait\<close> takes a unit or
  blocks, \<^verbatim>\<open>_lwsem_post\<close> gives one back.\<close>

definition FTE_SYS_LOCK_create :: "'z kst \<Rightarrow> fte_ret \<times> addr \<times> 'z kst" where
  "FTE_SYS_LOCK_create s =
     (let (key, s) = FTE_MEM_alloc s in
      if key = NULL then (FTE_RET_ERROR, NULL, s)
      else (FTE_RET_OK, key, s\<lparr>sems := (sems s)(key \<mapsto> 1)\<rparr>))"

definition FTE_SYS_LOCK_destroy :: "addr \<Rightarrow> 'z kst \<Rightarrow> 'z kst option" where
  "FTE_SYS_LOCK_destroy key s =
     (if key = NULL then Some s
      else FTE_MEM_free key (s\<lparr>sems := (sems s)(key := None)\<rparr>))"

definition FTE_SYS_LOCK_enable :: "addr \<Rightarrow> 'z kst \<Rightarrow> 'z kst option" where
  "FTE_SYS_LOCK_enable key s = do {
     guard_opt (key \<noteq> NULL);
     n \<leftarrow> sems s key;
     guard_opt (0 < n);
     Some (s\<lparr>sems := (sems s)(key \<mapsto> n - 1)\<rparr>)
   }"

definition FTE_SYS_LOCK_disable :: "addr \<Rightarrow> 'z kst \<Rightarrow> 'z kst option" where
  "FTE_SYS_LOCK_disable key s = do {
     guard_opt (key \<noteq> NULL);
     n \<leftarrow> sems s key;
     Some (s\<lparr>sems := (sems s)(key \<mapsto> n + 1)\<rparr>)
   }"

section \<open>Field access through pointers\<close>

definition set_next :: "addr \<Rightarrow> addr \<Rightarrow> 'z kst \<Rightarrow> 'z kst option" where
  "set_next a x s = do { n \<leftarrow> nodes s a; Some (s\<lparr>nodes := (nodes s)(a \<mapsto> n\<lparr>pNext := x\<rparr>)\<rparr>) }"

definition set_prev :: "addr \<Rightarrow> addr \<Rightarrow> 'z kst \<Rightarrow> 'z kst option" where
  "set_prev a x s = do { n \<leftarrow> nodes s a; Some (s\<lparr>nodes := (nodes s)(a \<mapsto> n\<lparr>pPrev := x\<rparr>)\<rparr>) }"

definition set_item :: "addr \<Rightarrow> addr \<Rightarrow> 'z kst \<Rightarrow> 'z kst option" where
  "set_item a x s = do { n \<leftarrow> nodes s a; Some (s\<lparr>nodes := (nodes s)(a \<mapsto> n\<lparr>pItem := x\<rparr>)\<rparr>) }"

definition list_upd :: "(fte_list \<Rightarrow> fte_list) \<Rightarrow> addr \<Rightarrow> 'z kst \<Rightarrow> 'z kst option" where
  "list_upd f p s = do { l \<leftarrow> lists s p; Some (s\<lparr>lists := (lists s)(p \<mapsto> f l)\<rparr>) }"

section \<open>Well-formed allocator states\<close>

definition pool_ok :: "'z kst \<Rightarrow> bool" where
  "pool_ok s \<longleftrightarrow> distinct (filter (\<lambda>a. a \<noteq> NULL) (pool s)) \<and> set (pool s) \<inter> live s = {}
     \<and> NULL \<notin> live s"

definition room :: "'z kst \<Rightarrow> nat" where
  "room s = length (takeWhile (\<lambda>a. a \<noteq> NULL) (pool s))"

lemma room_Suc_iff:
  "Suc n \<le> room s \<longleftrightarrow> (\<exists>a as. pool s = a # as \<and> a \<noteq> NULL \<and> n \<le> room (s\<lparr>pool := as\<rparr>))"
  by (cases "pool s") (auto simp: room_def)

lemma room_pool_cong: "pool s = pool t \<Longrightarrow> room s = room t"
  by (simp add: room_def)

end
