(* ===== verification/FTE_List.thy ===== *)
theory FTE_List
  imports FTE_Kernel "HOL-Library.Multiset"
begin

unbundle bit_operations_syntax

text \<open>
  The doubly linked ring of \<^verbatim>\<open>target/source/fte_list.c\<close>, on which the object, event,
  task, trap and buffer pools are built.  The operations are the C functions over
  the explicit store of \<^theory_text>\<open>FTE_Kernel\<close>, with the list given by the address of its
  header.  The abstraction \<open>list_abs\<close> reads a header as the list of its items, and the
  lemmas show that each operation implements the list operation it stands for,
  touches no cell of any other list, and accounts for every block it takes or gives
  back.
\<close>

section \<open>The code\<close>

definition FTE_LIST_init :: "addr \<Rightarrow> 'z kst \<Rightarrow> (fte_ret \<times> 'z kst) option" where
  "FTE_LIST_init pList s = do {
     guard_opt (pList \<noteq> NULL);
     let (pNode, s) = FTE_MEM_allocNode s;
     if pNode = NULL then Some (FTE_RET_INSUFFICIENT_MEMORY, s)
     else do {
       s \<leftarrow> set_next pNode pNode s;
       s \<leftarrow> set_prev pNode pNode s;
       s \<leftarrow> list_upd (\<lambda>l. l\<lparr>pHead := pNode\<rparr>) pList s;
       s \<leftarrow> list_upd (\<lambda>l. l\<lparr>nCount := 0\<rparr>) pList s;
       let (r, key, s) = FTE_SYS_LOCK_create s;
       s \<leftarrow> list_upd (\<lambda>l. l\<lparr>pLockKey := key\<rparr>) pList s;
       Some (FTE_RET_OK, s)
     }
   }"

text \<open>The loop that is meant to release the nodes.\<close>

partial_function (option) list_final_loop :: "addr \<Rightarrow> addr \<Rightarrow> 'z kst \<Rightarrow> 'z kst option" where
  "list_final_loop pList pNode s = do {
     l \<leftarrow> lists s pList;
     if pNode \<noteq> pHead l then do {
       n \<leftarrow> nodes s pNode;
       s \<leftarrow> FTE_MEM_free pNode s;
       list_final_loop pList (pNext n) s
     } else Some s
   }"

definition FTE_LIST_final :: "addr \<Rightarrow> 'z kst \<Rightarrow> (fte_ret \<times> 'z kst) option" where
  "FTE_LIST_final pList s = do {
     guard_opt (pList \<noteq> NULL);
     l \<leftarrow> lists s pList;
     s \<leftarrow> list_final_loop pList (pHead l) s;
     s \<leftarrow> FTE_SYS_LOCK_destroy (pLockKey l) s;
     s \<leftarrow> FTE_MEM_free (pHead l) s;
     s \<leftarrow> list_upd (\<lambda>l. l\<lparr>pHead := NULL\<rparr>) pList s;
     s \<leftarrow> list_upd (\<lambda>l. l\<lparr>nCount := 0\<rparr>) pList s;
     Some (FTE_RET_OK, s)
   }"

definition FTE_LIST_isInitialized :: "addr \<Rightarrow> 'z kst \<Rightarrow> bool option" where
  "FTE_LIST_isInitialized pList s =
     (if pList = NULL then Some False else do {
        l \<leftarrow> lists s pList;
        Some (pHead l \<noteq> NULL)
      })"

text \<open>\<open>list_seek test\<close> is the walk shared by the searching loops: from \<open>pNode\<close> along
  \<^verbatim>\<open>pNext\<close> to the head or to the first node whose item passes the test.\<close>

partial_function (option) list_seek ::
    "(addr \<Rightarrow> bool) \<Rightarrow> addr \<Rightarrow> addr \<Rightarrow> 'z kst \<Rightarrow> addr option" where
  "list_seek test head pNode s =
     (if pNode = head then Some pNode else do {
        n \<leftarrow> nodes s pNode;
        if test (pItem n) then Some pNode else list_seek test head (pNext n) s
      })"

definition FTE_LIST_isExist :: "addr \<Rightarrow> addr \<Rightarrow> 'z kst \<Rightarrow> bool option" where
  "FTE_LIST_isExist pList item s = do {
     l \<leftarrow> lists s pList;
     if pHead l \<noteq> NULL then do {
       n \<leftarrow> nodes s (pHead l);
       pNode \<leftarrow> list_seek (\<lambda>i. i = item) (pHead l) (pNext n) s;
       Some (pNode \<noteq> pHead l)
     } else Some False
   }"

definition FTE_LIST_count :: "addr \<Rightarrow> 'z kst \<Rightarrow> u32 option" where
  "FTE_LIST_count pList s = do {
     guard_opt (pList \<noteq> NULL);
     l \<leftarrow> lists s pList;
     Some (nCount l)
   }"

text \<open>The first lines of every operation that uses the ring: a header that is not
  initialised is initialised, and the result of that is ignored.\<close>

definition list_ensure_init :: "addr \<Rightarrow> 'z kst \<Rightarrow> 'z kst option" where
  "list_ensure_init pList s = do {
     b \<leftarrow> FTE_LIST_isInitialized pList s;
     if \<not> b then do { (r, s) \<leftarrow> FTE_LIST_init pList s; Some s } else Some s
   }"

text \<open>The four pointer writes of \<^verbatim>\<open>FTE_LIST_pushFront\<close>, which hang \<open>pNode\<close> after the
  sentinel.\<close>

definition list_link_after :: "addr \<Rightarrow> addr \<Rightarrow> 'z kst \<Rightarrow> 'z kst option" where
  "list_link_after pNode head s = do {
     s \<leftarrow> set_prev pNode head s;
     n \<leftarrow> nodes s head;
     s \<leftarrow> set_next pNode (pNext n) s;
     n \<leftarrow> nodes s head;
     s \<leftarrow> set_prev (pNext n) pNode s;
     set_next head pNode s
   }"

definition FTE_LIST_pushFront :: "addr \<Rightarrow> addr \<Rightarrow> 'z kst \<Rightarrow> (fte_ret \<times> 'z kst) option" where
  "FTE_LIST_pushFront pList item s = do {
     guard_opt (pList \<noteq> NULL \<and> item \<noteq> NULL);
     s \<leftarrow> list_ensure_init pList s;
     let (pNode, s) = FTE_MEM_allocNode s;
     if pNode = NULL then Some (FTE_RET_NOT_ENOUGH_MEMORY, s\<lparr>unstable := True\<rparr>)
     else do {
       l \<leftarrow> lists s pList;
       s \<leftarrow> FTE_SYS_LOCK_enable (pLockKey l) s;
       s \<leftarrow> set_item pNode item s;
       s \<leftarrow> list_link_after pNode (pHead l) s;
       s \<leftarrow> list_upd (\<lambda>l. l\<lparr>nCount := nCount l + 1\<rparr>) pList s;
       s \<leftarrow> FTE_SYS_LOCK_disable (pLockKey l) s;
       Some (FTE_RET_OK, s)
     }
   }"

text \<open>The four pointer writes of \<^verbatim>\<open>FTE_LIST_pushBack\<close> and \<^verbatim>\<open>FTE_LIST_pushSort\<close>, which
  hang \<open>pNode\<close> before \<open>pNextNode\<close>.\<close>

definition list_link_before :: "addr \<Rightarrow> addr \<Rightarrow> 'z kst \<Rightarrow> 'z kst option" where
  "list_link_before pNode pNextNode s = do {
     n \<leftarrow> nodes s pNextNode;
     s \<leftarrow> set_prev pNode (pPrev n) s;
     s \<leftarrow> set_next pNode pNextNode s;
     n \<leftarrow> nodes s pNextNode;
     s \<leftarrow> set_next (pPrev n) pNode s;
     set_prev pNextNode pNode s
   }"

definition FTE_LIST_pushBack :: "addr \<Rightarrow> addr \<Rightarrow> 'z kst \<Rightarrow> (fte_ret \<times> 'z kst) option" where
  "FTE_LIST_pushBack pList item s = do {
     guard_opt (pList \<noteq> NULL \<and> item \<noteq> NULL);
     s \<leftarrow> list_ensure_init pList s;
     let (pNode, s) = FTE_MEM_allocNode s;
     if pNode = NULL then Some (FTE_RET_NOT_ENOUGH_MEMORY, s\<lparr>unstable := True\<rparr>)
     else do {
       l \<leftarrow> lists s pList;
       s \<leftarrow> FTE_SYS_LOCK_enable (pLockKey l) s;
       s \<leftarrow> set_item pNode item s;
       s \<leftarrow> list_link_before pNode (pHead l) s;
       s \<leftarrow> list_upd (\<lambda>l. l\<lparr>nCount := nCount l + 1\<rparr>) pList s;
       s \<leftarrow> FTE_SYS_LOCK_disable (pLockKey l) s;
       Some (FTE_RET_OK, s)
     }
   }"

text \<open>The comparator is a parameter, as in the code; its result is the sign of a
  32-bit integer.\<close>

definition FTE_LIST_pushSort ::
    "addr \<Rightarrow> addr \<Rightarrow> (addr \<Rightarrow> addr \<Rightarrow> 32 word) \<Rightarrow> 'z kst \<Rightarrow> (fte_ret \<times> 'z kst) option" where
  "FTE_LIST_pushSort pList item comparator s = do {
     guard_opt (pList \<noteq> NULL \<and> item \<noteq> NULL);
     s \<leftarrow> list_ensure_init pList s;
     let (pNode, s) = FTE_MEM_allocNode s;
     if pNode = NULL then Some (FTE_RET_NOT_ENOUGH_MEMORY, s\<lparr>unstable := True\<rparr>)
     else do {
       l \<leftarrow> lists s pList;
       s \<leftarrow> FTE_SYS_LOCK_enable (pLockKey l) s;
       s \<leftarrow> set_item pNode item s;
       hd \<leftarrow> nodes s (pHead l);
       pNextNode \<leftarrow> list_seek (\<lambda>i. sint (comparator item i) < 0) (pHead l) (pNext hd) s;
       s \<leftarrow> list_link_before pNode pNextNode s;
       s \<leftarrow> list_upd (\<lambda>l. l\<lparr>nCount := nCount l + 1\<rparr>) pList s;
       s \<leftarrow> FTE_SYS_LOCK_disable (pLockKey l) s;
       Some (FTE_RET_OK, s)
     }
   }"

text \<open>The two pointer writes that take \<open>pNode\<close> out of its ring.\<close>

definition list_unlink :: "addr \<Rightarrow> 'z kst \<Rightarrow> 'z kst option" where
  "list_unlink pNode s = do {
     n \<leftarrow> nodes s pNode;
     s \<leftarrow> set_next (pPrev n) (pNext n) s;
     n \<leftarrow> nodes s pNode;
     set_prev (pNext n) (pPrev n) s
   }"

text \<open>The out-parameter \<^verbatim>\<open>ppItem\<close> is the second result: \<open>None\<close> when it was not
  written.\<close>

definition FTE_LIST_popFront :: "addr \<Rightarrow> 'z kst \<Rightarrow> (fte_ret \<times> addr option \<times> 'z kst) option" where
  "FTE_LIST_popFront pList s = do {
     guard_opt (pList \<noteq> NULL);
     s \<leftarrow> list_ensure_init pList s;
     l \<leftarrow> lists s pList;
     if nCount l = 0 then Some (FTE_RET_ERROR, None, s)
     else do {
       s \<leftarrow> FTE_SYS_LOCK_enable (pLockKey l) s;
       hd \<leftarrow> nodes s (pHead l);
       let pNode = pNext hd;
       s \<leftarrow> list_unlink pNode s;
       s \<leftarrow> list_upd (\<lambda>l. l\<lparr>nCount := nCount l - 1\<rparr>) pList s;
       n \<leftarrow> nodes s pNode;
       s \<leftarrow> FTE_SYS_LOCK_disable (pLockKey l) s;
       s \<leftarrow> FTE_MEM_free pNode s;
       Some (FTE_RET_OK, Some (pItem n), s)
     }
   }"

definition FTE_LIST_popBack :: "addr \<Rightarrow> 'z kst \<Rightarrow> (fte_ret \<times> addr option \<times> 'z kst) option" where
  "FTE_LIST_popBack pList s = do {
     guard_opt (pList \<noteq> NULL);
     s \<leftarrow> list_ensure_init pList s;
     l \<leftarrow> lists s pList;
     if nCount l = 0 then Some (FTE_RET_ERROR, None, s)
     else do {
       s \<leftarrow> FTE_SYS_LOCK_enable (pLockKey l) s;
       hd \<leftarrow> nodes s (pHead l);
       let pNode = pPrev hd;
       s \<leftarrow> FTE_SYS_LOCK_enable (pLockKey l) s;
       n \<leftarrow> nodes s pNode;
       s \<leftarrow> set_prev (pHead l) (pPrev n) s;
       n \<leftarrow> nodes s pNode;
       s \<leftarrow> set_next (pPrev n) (pNext n) s;
       s \<leftarrow> list_upd (\<lambda>l. l\<lparr>nCount := nCount l - 1\<rparr>) pList s;
       s \<leftarrow> FTE_SYS_LOCK_disable (pLockKey l) s;
       n \<leftarrow> nodes s pNode;
       s \<leftarrow> FTE_MEM_free pNode s;
       Some (FTE_RET_OK, Some (pItem n), s)
     }
   }"

partial_function (option) list_getAt_loop ::
    "addr \<Rightarrow> addr \<Rightarrow> u32 \<Rightarrow> 'z kst \<Rightarrow> (addr \<times> u32) option" where
  "list_getAt_loop head pNode ulIndex s =
     (if pNode \<noteq> head \<and> 0 < ulIndex then do {
        n \<leftarrow> nodes s pNode;
        list_getAt_loop head (pNext n) (ulIndex - 1) s
      } else Some (pNode, ulIndex))"

definition FTE_LIST_getAt :: "addr \<Rightarrow> u32 \<Rightarrow> 'z kst \<Rightarrow> (addr \<times> 'z kst) option" where
  "FTE_LIST_getAt pList ulIndex s = do {
     guard_opt (pList \<noteq> NULL);
     s \<leftarrow> list_ensure_init pList s;
     l \<leftarrow> lists s pList;
     if nCount l \<le> ulIndex then Some (NULL, s)
     else do {
       hd \<leftarrow> nodes s (pHead l);
       (pNode, ulIndex) \<leftarrow> list_getAt_loop (pHead l) (pNext hd) ulIndex s;
       if ulIndex \<noteq> 0 then Some (NULL, s)
       else do {
         n \<leftarrow> nodes s pNode;
         Some (pItem n, s)
       }
     }
   }"

definition FTE_LIST_remove :: "addr \<Rightarrow> addr \<Rightarrow> 'z kst \<Rightarrow> (fte_ret \<times> 'z kst) option" where
  "FTE_LIST_remove pList item s = do {
     guard_opt (pList \<noteq> NULL \<and> item \<noteq> NULL);
     s \<leftarrow> list_ensure_init pList s;
     l \<leftarrow> lists s pList;
     s \<leftarrow> FTE_SYS_LOCK_enable (pLockKey l) s;
     hd \<leftarrow> nodes s (pHead l);
     pNode \<leftarrow> list_seek (\<lambda>i. i = item) (pHead l) (pNext hd) s;
     if pNode \<noteq> pHead l then do {
       s \<leftarrow> list_unlink pNode s;
       s \<leftarrow> list_upd (\<lambda>l. l\<lparr>nCount := nCount l - 1\<rparr>) pList s;
       s \<leftarrow> FTE_SYS_LOCK_disable (pLockKey l) s;
       s \<leftarrow> FTE_MEM_free pNode s;
       Some (FTE_RET_OK, s)
     } else do {
       s \<leftarrow> FTE_SYS_LOCK_disable (pLockKey l) s;
       Some (FTE_RET_ERROR, s)
     }
   }"

record fte_iter =
  itList :: addr
  itNode :: addr

definition FTE_LIST_ITER_init :: "addr \<Rightarrow> 'z kst \<Rightarrow> (fte_ret \<times> fte_iter \<times> 'z kst) option" where
  "FTE_LIST_ITER_init pList s = do {
     guard_opt (pList \<noteq> NULL);
     s \<leftarrow> list_ensure_init pList s;
     l \<leftarrow> lists s pList;
     Some (FTE_RET_OK, \<lparr>itList = pList, itNode = pHead l\<rparr>, s)
   }"

definition FTE_LIST_ITER_getNext :: "fte_iter \<Rightarrow> 'z kst \<Rightarrow> (addr \<times> fte_iter) option" where
  "FTE_LIST_ITER_getNext it s = do {
     n \<leftarrow> nodes s (itNode it);
     l \<leftarrow> lists s (itList it);
     if pNext n = pHead l then Some (NULL, it)
     else do {
       n' \<leftarrow> nodes s (pNext n);
       Some (pItem n', it\<lparr>itNode := pNext n\<rparr>)
     }
   }"

section \<open>Rings\<close>

text \<open>
  \<open>ring N h as\<close>: the nodes \<open>as\<close>, in this order, form with the sentinel \<open>h\<close> a doubly
  linked ring.  It is stated on the two pointer fields only, so that writes to
  other fields do not disturb it.
\<close>

abbreviation nx :: "(addr \<rightharpoonup> fte_node) \<Rightarrow> addr \<rightharpoonup> addr" where
  "nx N \<equiv> (\<lambda>a. map_option pNext (N a))"

abbreviation pv :: "(addr \<rightharpoonup> fte_node) \<Rightarrow> addr \<rightharpoonup> addr" where
  "pv N \<equiv> (\<lambda>a. map_option pPrev (N a))"

abbreviation im :: "(addr \<rightharpoonup> fte_node) \<Rightarrow> addr \<rightharpoonup> addr" where
  "im N \<equiv> (\<lambda>a. map_option pItem (N a))"

definition ring_ptrs :: "(addr \<rightharpoonup> addr) \<Rightarrow> (addr \<rightharpoonup> addr) \<Rightarrow> addr \<Rightarrow> addr list \<Rightarrow> bool" where
  "ring_ptrs nf pf h as \<longleftrightarrow> distinct (h # as)
     \<and> map nf (h # as) = map Some (as @ [h]) \<and> map pf (as @ [h]) = map Some (h # as)"

abbreviation ring :: "(addr \<rightharpoonup> fte_node) \<Rightarrow> addr \<Rightarrow> addr list \<Rightarrow> bool" where
  "ring N \<equiv> ring_ptrs (nx N) (pv N)"

lemma ring_split:
  assumes "h # us = ps @ [a]" "vs @ [h] = b # qs"
  shows "ring_ptrs nf pf h (us @ vs) \<longleftrightarrow> distinct (h # us @ vs)
     \<and> map nf ps = map Some us \<and> nf a = Some b \<and> map nf vs = map Some qs
     \<and> map pf us = map Some ps \<and> pf b = Some a \<and> map pf qs = map Some vs"
proof -
  have l: "length ps = length us" "length qs = length vs"
    using assms by (auto dest: arg_cong [of _ _ length])
  have "map nf (h # us @ vs) = map nf ps @ nf a # map nf vs"
    using assms(1) by (metis append.assoc append_Cons append_Nil list.simps(9) map_append)
  moreover have "map Some ((us @ vs) @ [h]) = map Some us @ Some b # map Some qs"
    using assms(2) by simp
  moreover have "map pf ((us @ vs) @ [h]) = map pf us @ pf b # map pf qs"
    using assms(2) by simp
  moreover have "map Some (h # us @ vs) = map Some ps @ Some a # map Some vs"
    using assms(1) by (metis append.assoc append_Cons append_Nil list.simps(9) map_append)
  ultimately show ?thesis
    using l by (simp only: ring_ptrs_def) auto
qed

lemma ring_insert:
  assumes "ring_ptrs nf pf h (us @ vs)" and p: "p \<notin> set (h # us @ vs)"
    and e: "h # us = ps @ [a]" "vs @ [h] = b # qs"
  shows "ring_ptrs (nf(p := Some b, a := Some p)) (pf(p := Some a, b := Some p)) h (us @ p # vs)"
proof -
  have e': "h # (us @ [p]) = (ps @ [a]) @ [p]" "(p # vs) @ [h] = p # (b # qs)"
    using e by simp_all
  have sets: "a \<in> set (h # us)" "b \<in> set (vs @ [h])" "set ps \<subseteq> set (h # us)" "set qs \<subseteq> set (vs @ [h])"
    unfolding e by auto
  have d: "distinct (h # us @ vs)" using assms(1) by (simp add: ring_ptrs_def)
  have da: "distinct (ps @ [a])" "set (ps @ [a]) \<inter> set vs = {}" using d unfolding e(1)[symmetric] by auto
  have db: "distinct (b # qs)" "set (b # qs) \<inter> set us = {}" using d unfolding e(2)[symmetric] by auto
  have np: "p \<noteq> a" "p \<noteq> b" "p \<notin> set ps" "p \<notin> set qs" "p \<notin> set us" "p \<notin> set vs"
    using p sets by auto
  note r = assms(1)[unfolded ring_split [OF e]]
  show ?thesis
    unfolding ring_split [OF e(1) e'(2)]
    using r np da db p by (auto simp: map_idI)
qed

lemma ring_delete:
  assumes r: "ring_ptrs nf pf h (us @ p # vs)"
    and e: "h # us = ps @ [a]" "vs @ [h] = b # qs"
  shows "ring_ptrs (nf(a := Some b)) (pf(b := Some a)) h (us @ vs)"
    and "nf p = Some b" and "pf p = Some a"
proof -
  have e': "(p # vs) @ [h] = p # (b # qs)" using e by simp
  have d: "distinct (h # us @ p # vs)" using r by (simp add: ring_ptrs_def)
  have da: "distinct (ps @ [a])" "set (ps @ [a]) \<inter> set (p # vs) = {}"
    using d unfolding e(1)[symmetric] by auto
  have db: "distinct (b # qs)" "set (b # qs) \<inter> set us = {}" using d unfolding e(2)[symmetric] by auto
  note r' = r[unfolded ring_split [OF e(1) e']]
  show "ring_ptrs (nf(a := Some b)) (pf(b := Some a)) h (us @ vs)"
    unfolding ring_split [OF e] using r' da db by auto
  show "nf p = Some b" "pf p = Some a" using r' by auto
qed

lemma map_Some_dom: "map f xs = map Some ys \<Longrightarrow> a \<in> set xs \<Longrightarrow> \<exists>y. f a = Some y"
proof -
  assume "map f xs = map Some ys" and "a \<in> set xs"
  then have "f a \<in> set (map Some ys)" by (metis imageI set_map)
  then show ?thesis by auto
qed

lemma ring_in_dom: "ring N h as \<Longrightarrow> set (h # as) \<subseteq> dom N"
proof
  fix a assume r: "ring N h as" and a: "a \<in> set (h # as)"
  have "map (nx N) (h # as) = map Some (as @ [h])" using r by (simp only: ring_ptrs_def)
  from map_Some_dom [OF this a] show "a \<in> dom N" by auto
qed

lemma ring_head:
  assumes r: "ring N h as"
  obtains n where "N h = Some n" "pNext n = hd (as @ [h])" "pPrev n = last (h # as)"
proof -
  obtain b qs where e2: "as @ [h] = b # qs" by (cases "as @ [h]") auto
  obtain ps a where e1: "h # as = ps @ [a]" by (metis list.distinct(1) rev_exhaust)
  have "ring N h ([] @ as)" "ring N h (as @ [])" using r by simp_all
  then have "nx N h = Some b" "pv N h = Some a"
    using ring_split [of h "[]" "[]" h as b qs "nx N" "pv N"]
      ring_split [of h as ps a "[]" h "[]" "nx N" "pv N"] e1 e2 by blast+
  then show thesis
    using that e1 e2 by (cases "N h") auto
qed

lemma ring_node:
  assumes "ring N h (us @ v # vs)"
  obtains n where "N v = Some n" "pNext n = hd (vs @ [h])" "pPrev n = last (h # us)" "v \<noteq> h"
proof -
  obtain b qs where e2: "vs @ [h] = b # qs" by (cases "vs @ [h]") auto
  obtain ps a where e1: "h # us = ps @ [a]" by (metis list.distinct(1) rev_exhaust)
  note r = ring_delete [OF assms e1 e2]
  have "v \<noteq> h" using assms by (auto simp: ring_ptrs_def)
  with r(2,3) e1 e2 show thesis
    using that by (cases "N v") auto
qed

lemma list_seek_ring:
  assumes "ring (nodes s) h (us @ vs)" "map (im (nodes s)) vs = map Some ys"
  shows "list_seek test h (hd (vs @ [h])) s
         = Some (hd (drop (length (takeWhile (\<lambda>y. \<not> test y) ys)) vs @ [h]))"
  using assms
proof (induction vs arbitrary: us ys)
  case Nil
  then show ?case by (simp add: list_seek.simps)
next
  case (Cons v vs)
  obtain y ys' where ys: "ys = y # ys'" "im (nodes s) v = Some y" "map (im (nodes s)) vs = map Some ys'"
    using Cons.prems(2) by (cases ys) auto
  obtain n where n: "nodes s v = Some n" "pNext n = hd (vs @ [h])" "v \<noteq> h"
    using Cons.prems(1) by (rule ring_node)
  have "ring (nodes s) h ((us @ [v]) @ vs)" using Cons.prems(1) by simp
  from Cons.IH [OF this ys(3)] show ?case
    using n ys by (subst list_seek.simps) auto
qed

section \<open>The pointer surgery\<close>

lemma nx_upd [simp]:
  "nx (N(a \<mapsto> n)) = (nx N)(a := Some (pNext n))"
  "pv (N(a \<mapsto> n)) = (pv N)(a := Some (pPrev n))"
  "im (N(a \<mapsto> n)) = (im N)(a := Some (pItem n))"
  by (auto simp: fun_eq_iff)

lemma map_option_same_field: "N a = Some n \<Longrightarrow> (\<lambda>c. map_option f (N c))(a := Some (f n)) = (\<lambda>c. map_option f (N c))"
  by (auto simp: fun_eq_iff)

lemma list_link_before_ring:
  assumes r: "ring (nodes s) h (us @ vs)" and p: "p \<notin> set (h # us @ vs)" "nodes s p \<noteq> None"
  obtains N where "list_link_before p (hd (vs @ [h])) s = Some (s\<lparr>nodes := N\<rparr>)"
    "ring N h (us @ p # vs)" "im N = im (nodes s)"
    "\<And>c. c \<notin> set (h # us @ p # vs) \<Longrightarrow> N c = nodes s c"
proof -
  obtain b qs where e2: "vs @ [h] = b # qs" by (cases "vs @ [h]") auto
  obtain ps a where e1: "h # us = ps @ [a]" by (metis list.distinct(1) rev_exhaust)
  have mem: "a \<in> set (h # us)" "b \<in> set (vs @ [h])" unfolding e1 e2 by auto
  have ne: "p \<noteq> a" "p \<noteq> b" using mem p by auto
  note r' = r [unfolded ring_split [OF e1 e2]]
  obtain na nb np where n: "nodes s a = Some na" "pNext na = b" "nodes s b = Some nb" "pPrev nb = a"
    "nodes s p = Some np"
    using r' p(2) by auto
  let ?N0 = "(nodes s)(p \<mapsto> np\<lparr>pPrev := a, pNext := b\<rparr>)"
  let ?N1 = "?N0(a \<mapsto> na\<lparr>pNext := p\<rparr>)"
  let ?N = "?N1(b \<mapsto> the (?N1 b)\<lparr>pPrev := p\<rparr>)"
  show thesis
  proof (rule that [of ?N])
    show "list_link_before p (hd (vs @ [h])) s = Some (s\<lparr>nodes := ?N\<rparr>)"
      using n ne e2 by (cases "a = b") (auto simp: list_link_before_def set_prev_def set_next_def)
    have "nx ?N = (nx (nodes s))(p := Some b, a := Some p)"
      using n ne by (cases "a = b") (auto simp: fun_eq_iff)
    moreover have "pv ?N = (pv (nodes s))(p := Some a, b := Some p)"
      using n ne by (cases "a = b") (auto simp: fun_eq_iff)
    ultimately show "ring ?N h (us @ p # vs)"
      using ring_insert [OF r p(1) e1 e2] by simp
    show "im ?N = im (nodes s)"
      using n ne by (cases "a = b") (auto simp: fun_eq_iff)
    show "\<And>c. c \<notin> set (h # us @ p # vs) \<Longrightarrow> ?N c = nodes s c"
      using mem by auto
  qed
qed

lemma list_unlink_ring:
  assumes r: "ring (nodes s) h (us @ p # vs)"
  obtains N where "list_unlink p s = Some (s\<lparr>nodes := N\<rparr>)"
    "ring N h (us @ vs)" "im N = im (nodes s)" "p \<notin> set (h # us @ vs)"
    "\<And>c. c \<notin> set (h # us @ vs) \<Longrightarrow> N c = nodes s c"
proof -
  obtain b qs where e2: "vs @ [h] = b # qs" by (cases "vs @ [h]") auto
  obtain ps a where e1: "h # us = ps @ [a]" by (metis list.distinct(1) rev_exhaust)
  have mem: "a \<in> set (h # us)" "b \<in> set (vs @ [h])" unfolding e1 e2 by auto
  have pn: "p \<notin> set (h # us @ vs)" using r by (auto simp: ring_ptrs_def)
  have ne: "p \<noteq> a" "p \<noteq> b" using mem pn by auto
  note r' = ring_delete [OF r e1 e2]
  have "a \<in> dom (nodes s)" "b \<in> dom (nodes s)" using ring_in_dom [OF r] mem by auto
  then obtain na nb np where n: "nodes s a = Some na" "nodes s b = Some nb"
    "nodes s p = Some np" "pNext np = b" "pPrev np = a"
    using r'(2,3) by auto
  let ?N1 = "(nodes s)(a \<mapsto> na\<lparr>pNext := b\<rparr>)"
  let ?N = "?N1(b \<mapsto> the (?N1 b)\<lparr>pPrev := a\<rparr>)"
  show thesis
  proof (rule that [of ?N])
    show "list_unlink p s = Some (s\<lparr>nodes := ?N\<rparr>)"
      using n ne by (cases "a = b") (auto simp: list_unlink_def set_prev_def set_next_def)
    have "nx ?N = (nx (nodes s))(a := Some b)" "pv ?N = (pv (nodes s))(b := Some a)"
      using n ne by (cases "a = b"; auto simp: fun_eq_iff)+
    then show "ring ?N h (us @ vs)" using r'(1) by simp
    show "im ?N = im (nodes s)"
      using n ne by (cases "a = b") (auto simp: fun_eq_iff)
    show "p \<notin> set (h # us @ vs)" by (rule pn)
    show "\<And>c. c \<notin> set (h # us @ vs) \<Longrightarrow> ?N c = nodes s c"
      using mem by auto
  qed
qed

section \<open>What a header stands for\<close>

text \<open>
  The footprint of a list is its sentinel, its nodes in order and its lock;
  \<open>None\<close> is a header that has not been initialised (all fields zero, as
  \<^verbatim>\<open>FTE_MEM_allocZero\<close> or static storage leave it) or has been finalised.
\<close>

type_synonym foot = "(addr \<times> addr list \<times> addr) option"

fun fpset :: "foot \<Rightarrow> addr set" where
  "fpset None = {}"
| "fpset (Some (h, as, k)) = insert k (set (h # as))"

fun list_abs :: "'z kst \<Rightarrow> addr \<Rightarrow> foot \<Rightarrow> addr list \<Rightarrow> bool" where
  "list_abs s p None xs \<longleftrightarrow> p \<noteq> NULL \<and> xs = []
     \<and> (\<exists>l. lists s p = Some l \<and> nCount l = 0 \<and> pHead l = NULL)"
| "list_abs s p (Some (h, as, k)) xs \<longleftrightarrow> p \<noteq> NULL
     \<and> lists s p = Some \<lparr>nCount = of_nat (length xs), pHead = h, pLockKey = k\<rparr>
     \<and> ring (nodes s) h as \<and> map (im (nodes s)) as = map Some xs \<and> NULL \<notin> set xs
     \<and> sems s k = Some 1 \<and> k \<notin> set (h # as)
     \<and> fpset (Some (h, as, k)) \<subseteq> live s \<and> NULL \<notin> fpset (Some (h, as, k))"

text \<open>The blocks an operation may need: a node, and before the first use also a
  sentinel and a lock.\<close>

fun first_use :: "foot \<Rightarrow> nat" where
  "first_use None = 2"
| "first_use (Some f) = 0"

text \<open>What an operation on list \<open>p\<close> leaves alone: every other header, every cell
  outside the footprint, and everything the store holds besides.  The live blocks
  change by exactly the change of the footprint.\<close>

definition list_frame :: "'z kst \<Rightarrow> 'z kst \<Rightarrow> addr \<Rightarrow> foot \<Rightarrow> foot \<Rightarrow> bool" where
  "list_frame s s' p F F' \<longleftrightarrow>
     (\<forall>q. q \<noteq> p \<longrightarrow> lists s' q = lists s q)
     \<and> (\<forall>a\<in>live s. a \<notin> fpset F \<longrightarrow> nodes s' a = nodes s a \<and> sems s' a = sems s a)
     \<and> live s' = (live s - fpset F) \<union> fpset F' \<and> fpset F' \<inter> (live s - fpset F) = {}
     \<and> unstable s' = unstable s \<and> fte_kernel.more s' = fte_kernel.more s"

lemma list_frame_refl: "fpset F \<subseteq> live s \<Longrightarrow> list_frame s s p F F"
  by (auto simp: list_frame_def)

lemma list_frame_trans:
  assumes "list_frame s s1 p F F1" "list_frame s1 s2 p F1 F2"
  shows "list_frame s s2 p F F2"
  using assms unfolding list_frame_def by (auto; blast)

lemma list_abs_foot: "list_abs s p F xs \<Longrightarrow> fpset F \<subseteq> live s"
  by (cases "(s, p, F, xs)" rule: list_abs.cases) auto

lemma list_abs_no_null: "list_abs s p F xs \<Longrightarrow> NULL \<notin> set xs"
  by (cases "(s, p, F, xs)" rule: list_abs.cases) auto

text \<open>A list whose footprint is disjoint from the one operated on is untouched.\<close>

lemma ring_cong:
  assumes "\<And>a. a \<in> set (h # as) \<Longrightarrow> N' a = N a"
  shows "ring N' h as = ring N h as"
proof -
  have "map (nx N') (h # as) = map (nx N) (h # as)" "map (pv N') (as @ [h]) = map (pv N) (as @ [h])"
    by (rule map_cong [OF refl], use assms in auto)+
  then show ?thesis by (simp only: ring_ptrs_def)
qed

lemma list_abs_cong:
  assumes abs: "list_abs s q G ys" and l: "lists s' q = lists s q" and lv: "fpset G \<subseteq> live s'"
    and same: "\<And>a. a \<in> fpset G \<Longrightarrow> nodes s' a = nodes s a \<and> sems s' a = sems s a"
  shows "list_abs s' q G ys"
proof (cases G)
  case None
  then show ?thesis using abs l by simp
next
  case (Some f)
  obtain h as k where f: "f = (h, as, k)" by (cases f) auto
  have "ring (nodes s') h as = ring (nodes s) h as"
    by (rule ring_cong) (use same f Some in auto)
  moreover have "map (im (nodes s')) as = map Some ys"
  proof -
    have "map (im (nodes s')) as = map (im (nodes s)) as"
      by (rule map_cong [OF refl]) (use same f Some in auto)
    also have "\<dots> = map Some ys" using abs f Some by simp
    finally show ?thesis .
  qed
  moreover have "sems s' k = sems s k" using same f Some by simp
  ultimately show ?thesis
    using abs l lv f Some by simp
qed

lemma list_abs_frame:
  assumes abs: "list_abs s q G ys" and fr: "list_frame s s' p F F'"
    and d: "q \<noteq> p" "fpset G \<inter> fpset F = {}"
  shows "list_abs s' q G ys" and "fpset G \<inter> fpset F' = {}"
proof -
  have sub: "fpset G \<subseteq> live s - fpset F" using abs d by (auto dest: list_abs_foot)
  then show "fpset G \<inter> fpset F' = {}" using fr by (auto simp: list_frame_def)
  show "list_abs s' q G ys"
    by (rule list_abs_cong [OF abs]) (use sub fr d in \<open>auto simp: list_frame_def\<close>)
qed

text \<open>The count field cannot wrap: the nodes are distinct non-NULL addresses.\<close>

lemma distinct_word_length:
  assumes "distinct (as :: addr list)" "NULL \<notin> set as"
  shows "length as < 2 ^ 32"
proof -
  have "length as = card (set as)" using assms(1) by (simp add: distinct_card)
  also have "set as \<subset> UNIV" using assms(2) by auto
  then have "card (set as) < card (UNIV :: addr set)" by (intro psubset_card_mono) simp_all
  finally show ?thesis by (simp add: card_word)
qed

lemma list_abs_count:
  assumes "list_abs s p (Some (h, as, k)) xs"
  shows "length as = length xs" "length xs < 2 ^ 32"
    "unat (of_nat (length xs) :: u32) = length xs" "(of_nat (length xs) :: u32) = 0 \<longleftrightarrow> xs = []"
proof -
  have "map (im (nodes s)) as = map Some xs" using assms by simp
  then show l: "length as = length xs" by (metis length_map)
  have "distinct as" "NULL \<notin> set as" using assms by (auto simp: ring_ptrs_def)
  then show b: "length xs < 2 ^ 32" using distinct_word_length l by metis
  show "unat (of_nat (length xs) :: u32) = length xs"
    using b by (intro unat_of_nat_small) simp
  then show "(of_nat (length xs) :: u32) = 0 \<longleftrightarrow> xs = []"
    by (metis length_0_conv unat_0 unat_eq_zero)
qed

section \<open>Initialisation\<close>

lemma pool_two:
  assumes "2 \<le> room s"
  obtains a b pl where "pool s = a # b # pl" "a \<noteq> NULL" "b \<noteq> NULL"
  using assms by (cases "pool s"; cases "tl (pool s)") (auto simp: room_def split: if_splits)

lemma pool_one:
  assumes "1 \<le> room s"
  obtains a pl where "pool s = a # pl" "a \<noteq> NULL"
  using assms by (cases "pool s") (auto simp: room_def split: if_splits)

lemma FTE_LIST_init_ok:
  assumes abs: "list_abs s p None xs" and ok: "pool_ok s" and room: "2 \<le> room s"
  obtains h k s' where "FTE_LIST_init p s = Some (FTE_RET_OK, s')"
    "list_abs s' p (Some (h, [], k)) xs" "pool_ok s'"
    "list_frame s s' p None (Some (h, [], k))" "pool s' = drop 2 (pool s)"
proof -
  obtain h k pl where pl: "pool s = h # k # pl" "h \<noteq> NULL" "k \<noteq> NULL" using room by (rule pool_two)
  obtain l where l: "p \<noteq> NULL" "xs = []" "lists s p = Some l" "nCount l = 0" "pHead l = NULL"
    using abs by auto
  have hk: "h \<noteq> k" "h \<notin> live s" "k \<notin> live s" "h \<notin> set pl" "k \<notin> set pl"
    using ok pl by (auto simp: pool_ok_def)
  let ?l = "\<lparr>nCount = 0, pHead = h, pLockKey = k\<rparr>"
  let ?s' = "s\<lparr>pool := pl, live := insert k (insert h (live s)),
      nodes := (nodes s)(h \<mapsto> \<lparr>pPrev = h, pNext = h, pItem = NULL, nReserved = 0\<rparr>),
      lists := (lists s)(p \<mapsto> ?l), sems := (sems s)(k \<mapsto> 1)\<rparr>"
  have "FTE_LIST_init p s = Some (FTE_RET_OK, ?s')"
    using l pl hk
    by (cases l) (simp add: FTE_LIST_init_def FTE_MEM_allocNode_def FTE_MEM_alloc_def
        FTE_SYS_LOCK_create_def set_next_def set_prev_def list_upd_def)
  moreover have "list_abs ?s' p (Some (h, [], k)) xs"
    using l pl hk by (auto simp: ring_ptrs_def)
  moreover have "pool_ok ?s'"
    using ok pl hk by (auto simp: pool_ok_def)
  moreover have "list_frame s ?s' p None (Some (h, [], k))"
    using hk by (auto simp: list_frame_def)
  moreover have "pool ?s' = drop 2 (pool s)" using pl by simp
  ultimately show thesis by (rule that)
qed

lemma list_ensure_init_ok:
  assumes abs: "list_abs s p F xs" and ok: "pool_ok s" and room: "first_use F \<le> room s"
  obtains h as k s' where "list_ensure_init p s = Some s'"
    "list_abs s' p (Some (h, as, k)) xs" "pool_ok s'"
    "list_frame s s' p F (Some (h, as, k))" "pool s' = drop (first_use F) (pool s)"
    "F \<noteq> None \<Longrightarrow> s' = s \<and> F = Some (h, as, k)"
proof (cases F)
  case None
  have r2: "2 \<le> room s" using room None by simp
  obtain h k s' where 1: "FTE_LIST_init p s = Some (FTE_RET_OK, s')"
    "list_abs s' p (Some (h, [], k)) xs" "pool_ok s'"
    "list_frame s s' p None (Some (h, [], k))" "pool s' = drop 2 (pool s)"
    using FTE_LIST_init_ok [OF abs [unfolded None] ok r2] .
  have "list_ensure_init p s = Some s'"
    using 1(1) abs None by (auto simp: list_ensure_init_def FTE_LIST_isInitialized_def)
  moreover have "list_frame s s' p F (Some (h, [], k))" "pool s' = drop (first_use F) (pool s)"
    using 1(4,5) None by simp_all
  ultimately show thesis using 1(2,3) None by (intro that [of s' h "[]" k]) blast+
next
  case (Some f)
  obtain h as k where f: "f = (h, as, k)" by (cases f) auto
  have "list_ensure_init p s = Some s"
    using abs Some f by (auto simp: list_ensure_init_def FTE_LIST_isInitialized_def)
  moreover have "list_frame s s p F F" using list_abs_foot [OF abs] by (rule list_frame_refl)
  moreover have "pool s = drop (first_use F) (pool s)" using Some by simp
  ultimately show thesis using abs ok Some f by (intro that [of s h as k]) (auto simp only:)
qed

section \<open>Insertion\<close>

text \<open>The state of an insertion between the item write and the pointer writes, and
  after the lock has been released.\<close>

definition ins_open :: "addr \<Rightarrow> addr \<Rightarrow> addr \<Rightarrow> 'z kst \<Rightarrow> 'z kst" where
  "ins_open a item k s = s\<lparr>pool := tl (pool s), live := insert a (live s),
     sems := (sems s)(k \<mapsto> 0), nodes := (nodes s)(a \<mapsto> node_zero\<lparr>pItem := item\<rparr>)\<rparr>"

definition ins_close :: "addr \<Rightarrow> addr \<Rightarrow> (addr \<rightharpoonup> fte_node) \<Rightarrow> 'z kst \<Rightarrow> 'z kst" where
  "ins_close p k N s = s\<lparr>nodes := N,
     lists := (lists s)(p := map_option (\<lambda>l. l\<lparr>nCount := nCount l + 1\<rparr>) (lists s p)),
     sems := (sems s)(k \<mapsto> 1)\<rparr>"

lemma ins_open_ring:
  assumes abs: "list_abs s p (Some (h, us @ vs, k)) (xs @ ys)" and ok: "pool_ok s"
    and pl: "pool s = a # pl" "a \<noteq> NULL"
  shows "a \<notin> insert k (set (h # us @ vs))" "ring (nodes (ins_open a item k s)) h (us @ vs)"
    "map (im (nodes (ins_open a item k s))) (us @ vs) = map Some (xs @ ys)"
proof -
  have "a \<notin> live s" using ok pl by (auto simp: pool_ok_def)
  then show a: "a \<notin> insert k (set (h # us @ vs))" using abs by auto
  have same: "\<And>c. c \<in> set (h # us @ vs) \<Longrightarrow> nodes (ins_open a item k s) c = nodes s c"
    using a by (auto simp: ins_open_def)
  show "ring (nodes (ins_open a item k s)) h (us @ vs)"
    using abs ring_cong [of h "us @ vs" "nodes (ins_open a item k s)" "nodes s", OF same] by simp
  have "map (im (nodes (ins_open a item k s))) (us @ vs) = map (im (nodes s)) (us @ vs)"
    by (rule map_cong [OF refl]) (metis list.set_intros(2) same)
  also have "\<dots> = map Some (xs @ ys)" using abs by simp
  finally show "map (im (nodes (ins_open a item k s))) (us @ vs) = map Some (xs @ ys)" .
qed

lemma ins_close_abs:
  assumes abs: "list_abs s p (Some (h, us @ vs, k)) (xs @ ys)" and len: "length us = length xs"
    and ok: "pool_ok s" and pl: "pool s = a # pl" "a \<noteq> NULL" and item: "item \<noteq> NULL"
    and N: "ring N h (us @ a # vs)" "im N = im (nodes (ins_open a item k s))"
      "\<And>c. c \<notin> set (h # us @ a # vs) \<Longrightarrow> N c = nodes (ins_open a item k s) c"
  defines "s' \<equiv> ins_close p k N (ins_open a item k s)"
  shows "list_abs s' p (Some (h, us @ a # vs, k)) (xs @ item # ys)" "pool_ok s'"
    "list_frame s s' p (Some (h, us @ vs, k)) (Some (h, us @ a # vs, k))" "pool s' = pl"
proof -
  note a = ins_open_ring [OF abs ok pl]
  have lv: "a \<notin> live s" using ok pl by (auto simp: pool_ok_def)
  have "map (im N) (us @ vs) = map Some (xs @ ys)" unfolding N(2) by (rule a(3))
  then have "map (im N) us @ map (im N) vs = map Some xs @ map Some ys"
    by (simp only: map_append)
  then have ims: "map (im N) us = map Some xs" "map (im N) vs = map Some ys"
    using len append_eq_append_conv [of "map (im N) us" "map Some xs"] by (metis length_map)+
  have ima: "im N a = Some item" using fun_cong [OF N(2), of a] by (simp add: ins_open_def)
  have ims': "map (im N) (us @ a # vs) = map Some (xs @ item # ys)"
    by (simp only: map_append list.map ims ima)
  have fields: "nodes s' = N" "lists s' p = Some \<lparr>nCount = of_nat (length (xs @ item # ys)), pHead = h, pLockKey = k\<rparr>"
    "sems s' k = Some 1" "live s' = insert a (live s)" "pool s' = pl"
    using abs pl by (simp_all add: s'_def ins_close_def ins_open_def)
  show "list_abs s' p (Some (h, us @ a # vs, k)) (xs @ item # ys)"
    unfolding list_abs.simps fields using abs N(1) ims' a(1) item pl by auto
  show "pool s' = pl" by (rule fields)
  show "pool_ok s'" using ok pl lv unfolding pool_ok_def fields by auto
  show "list_frame s s' p (Some (h, us @ vs, k)) (Some (h, us @ a # vs, k))"
    unfolding list_frame_def fields using lv abs N(3)
    by (auto simp: s'_def ins_close_def ins_open_def)
qed

text \<open>The common prologue: after it the lists can be read off the abstraction.\<close>

lemma alloc_node_ok:
  assumes "pool s = a # pl" "a \<noteq> NULL"
  shows "FTE_MEM_allocNode s = (a, s\<lparr>pool := pl, live := insert a (live s), nodes := (nodes s)(a \<mapsto> node_zero)\<rparr>)"
  using assms by (simp add: FTE_MEM_allocNode_def FTE_MEM_alloc_def)

lemma room_after_init:
  assumes "n + first_use F \<le> room s" "pool s' = drop (first_use F) (pool s)"
  shows "n \<le> room s'"
proof (cases F)
  case None
  then have "2 \<le> room s" using assms by simp
  then obtain a b pl where "pool s = a # b # pl" "a \<noteq> NULL" "b \<noteq> NULL" by (rule pool_two)
  then show ?thesis using assms None by (simp add: room_def)
qed (use assms in \<open>simp add: room_def\<close>)

text \<open>The outcome every insertion promises.\<close>

definition push_ok :: "'z kst \<Rightarrow> addr \<Rightarrow> foot \<Rightarrow> addr list \<Rightarrow> (fte_ret \<times> 'z kst) option \<Rightarrow> bool" where
  "push_ok s p F zs r \<longleftrightarrow> (\<exists>F' s'. r = Some (FTE_RET_OK, s') \<and> F' \<noteq> None \<and> list_abs s' p F' zs
     \<and> pool_ok s' \<and> list_frame s s' p F F' \<and> pool s' = drop (Suc (first_use F)) (pool s))"

text \<open>All three insertions run the same store changes once the place is known.\<close>

lemma push_result:
  assumes abs: "list_abs s p F (xs @ ys)" and ok: "pool_ok s" and room: "1 + first_use F \<le> room s"
    and item: "item \<noteq> NULL"
  obtains h us vs k s1 a pl where "list_ensure_init p s = Some s1"
    "list_abs s1 p (Some (h, us @ vs, k)) (xs @ ys)" "length us = length xs" "pool_ok s1"
    "pool s1 = a # pl" "a \<noteq> NULL"
    "\<forall>N. ring N h (us @ a # vs) \<and> im N = im (nodes (ins_open a item k s1))
       \<and> (\<forall>c. c \<notin> set (h # us @ a # vs) \<longrightarrow> N c = nodes (ins_open a item k s1) c) \<longrightarrow>
       push_ok s p F (xs @ item # ys) (Some (FTE_RET_OK, ins_close p k N (ins_open a item k s1)))"
proof -
  obtain h as k s1 where 1: "list_ensure_init p s = Some s1"
    "list_abs s1 p (Some (h, as, k)) (xs @ ys)" "pool_ok s1"
    "list_frame s s1 p F (Some (h, as, k))" "pool s1 = drop (first_use F) (pool s)"
    using list_ensure_init_ok [OF abs ok] room by (metis add_leD2)
  have "1 \<le> room s1" using room 1(5) by (rule room_after_init)
  then obtain a pl where pl: "pool s1 = a # pl" "a \<noteq> NULL" by (rule pool_one)
  let ?us = "take (length xs) as" and ?vs = "drop (length xs) as"
  have len: "length ?us = length xs" using list_abs_count(1) [OF 1(2)] by simp
  have abs1: "list_abs s1 p (Some (h, ?us @ ?vs, k)) (xs @ ys)" using 1(2) by simp
  show thesis
  proof (rule that [OF 1(1) abs1 len 1(3) pl], intro allI impI, elim conjE)
    fix N
    assume N: "ring N h (?us @ a # ?vs)" "im N = im (nodes (ins_open a item k s1))"
      "\<forall>c. c \<notin> set (h # ?us @ a # ?vs) \<longrightarrow> N c = nodes (ins_open a item k s1) c"
    let ?s' = "ins_close p k N (ins_open a item k s1)"
    note r = ins_close_abs [OF abs1 len 1(3) pl item N(1,2) N(3) [rule_format]]
    have "list_frame s ?s' p F (Some (h, ?us @ a # ?vs, k))"
      using list_frame_trans [OF 1(4)] r(3) by simp
    moreover have "drop (Suc (first_use F)) (pool s) = pl"
      using 1(5) pl(1) by (metis drop_Suc list.sel(3) tl_drop)
    ultimately show "push_ok s p F (xs @ item # ys) (Some (FTE_RET_OK, ?s'))"
      using r unfolding push_ok_def by (intro exI [of _ "Some (h, ?us @ a # ?vs, k)"] exI [of _ ?s']) simp
  qed
qed

lemma list_link_after_ring:
  assumes r: "ring (nodes s) h vs" and p: "p \<notin> set (h # vs)" "nodes s p \<noteq> None"
  obtains N where "list_link_after p h s = Some (s\<lparr>nodes := N\<rparr>)"
    "ring N h (p # vs)" "im N = im (nodes s)"
    "\<And>c. c \<notin> set (h # p # vs) \<Longrightarrow> N c = nodes s c"
proof -
  obtain b qs where e2: "vs @ [h] = b # qs" by (cases "vs @ [h]") auto
  have e1: "h # [] = [] @ [h]" by simp
  have mem: "b \<in> set (vs @ [h])" unfolding e2 by simp
  have ne: "p \<noteq> h" "p \<noteq> b" using mem p by auto
  have r0: "ring (nodes s) h ([] @ vs)" using r by simp
  note r' = r0 [unfolded ring_split [OF e1 e2]]
  obtain na nb np where n: "nodes s h = Some na" "pNext na = b" "nodes s b = Some nb" "pPrev nb = h"
    "nodes s p = Some np"
    using r' p(2) by auto
  let ?N0 = "(nodes s)(p \<mapsto> np\<lparr>pPrev := h, pNext := b\<rparr>)"
  let ?N1 = "?N0(b \<mapsto> nb\<lparr>pPrev := p\<rparr>)"
  let ?N = "?N1(h \<mapsto> the (?N1 h)\<lparr>pNext := p\<rparr>)"
  show thesis
  proof (rule that [of ?N])
    show "list_link_after p h s = Some (s\<lparr>nodes := ?N\<rparr>)"
      using n ne by (cases "h = b") (auto simp: list_link_after_def set_prev_def set_next_def)
    have "nx ?N = (nx (nodes s))(p := Some b, h := Some p)"
      using n ne by (cases "h = b") (auto simp: fun_eq_iff)
    moreover have "pv ?N = (pv (nodes s))(p := Some h, b := Some p)"
      using n ne by (cases "h = b") (auto simp: fun_eq_iff)
    ultimately show "ring ?N h (p # vs)"
      using ring_insert [OF r0 _ e1 e2, of p] p by simp
    show "im ?N = im (nodes s)"
      using n ne by (cases "h = b") (auto simp: fun_eq_iff)
    show "\<And>c. c \<notin> set (h # p # vs) \<Longrightarrow> ?N c = nodes s c"
      using mem by auto
  qed
qed

lemma list_abs_header:
  assumes "list_abs s p (Some (h, as, k)) xs"
  shows "p \<noteq> NULL" "lists s p = Some \<lparr>nCount = of_nat (length xs), pHead = h, pLockKey = k\<rparr>"
    "sems s k = Some 1" "k \<noteq> NULL" "h \<noteq> NULL" "ring (nodes s) h as" "map (im (nodes s)) as = map Some xs"
  using assms by auto

lemma pushFront_abs:
  assumes "list_abs s p F xs" "pool_ok s" "1 + first_use F \<le> room s" "item \<noteq> NULL"
  shows "push_ok s p F (item # xs) (FTE_LIST_pushFront p item s)"
proof -
  have abs: "list_abs s p F ([] @ xs)" using assms(1) by simp
  obtain h us vs k s1 a pl where 1: "list_ensure_init p s = Some s1"
    "list_abs s1 p (Some (h, us @ vs, k)) ([] @ xs)" "length us = length ([] :: addr list)" "pool_ok s1"
    "pool s1 = a # pl" "a \<noteq> NULL"
    and res: "\<forall>N. ring N h (us @ a # vs) \<and> im N = im (nodes (ins_open a item k s1))
       \<and> (\<forall>c. c \<notin> set (h # us @ a # vs) \<longrightarrow> N c = nodes (ins_open a item k s1) c) \<longrightarrow>
       push_ok s p F ([] @ item # xs) (Some (FTE_RET_OK, ins_close p k N (ins_open a item k s1)))"
    by (rule push_result [OF abs assms(2-4)], rule that)
  have us: "us = []" using 1(3) by simp
  note H = list_abs_header [OF 1(2)]
  note R = ins_open_ring [OF 1(2,4,5,6)]
  have "a \<notin> set (h # vs)" "nodes (ins_open a item k s1) a \<noteq> None"
    using R(1) us by (auto simp: ins_open_def)
  moreover have "ring (nodes (ins_open a item k s1)) h vs" using R(2) us by simp
  ultimately obtain N where N: "list_link_after a h (ins_open a item k s1) = Some ((ins_open a item k s1)\<lparr>nodes := N\<rparr>)"
    "ring N h (a # vs)" "im N = im (nodes (ins_open a item k s1))"
    "\<And>c. c \<notin> set (h # a # vs) \<Longrightarrow> N c = nodes (ins_open a item k s1) c"
    using list_link_after_ring by metis
  have "FTE_LIST_pushFront p item s = Some (FTE_RET_OK, ins_close p k N (ins_open a item k s1))"
    using assms(4) 1(1,5,6) H N(1)
    by (simp add: FTE_LIST_pushFront_def alloc_node_ok FTE_SYS_LOCK_enable_def FTE_SYS_LOCK_disable_def
        set_item_def list_upd_def ins_close_def ins_open_def)
  moreover have "push_ok s p F (item # xs) (Some (FTE_RET_OK, ins_close p k N (ins_open a item k s1)))"
    using res N(2-4) us by simp
  ultimately show ?thesis by simp
qed

lemma link_before_step:
  assumes abs: "list_abs s1 p (Some (h, us @ vs, k)) (xs @ ys)" and "length us = length xs" "pool_ok s1"
    "pool s1 = a # pl" "a \<noteq> NULL"
  obtains N where "list_link_before a (hd (vs @ [h])) (ins_open a item k s1) = Some ((ins_open a item k s1)\<lparr>nodes := N\<rparr>)"
    "ring N h (us @ a # vs)" "im N = im (nodes (ins_open a item k s1))"
    "\<forall>c. c \<notin> set (h # us @ a # vs) \<longrightarrow> N c = nodes (ins_open a item k s1) c"
proof -
  note R = ins_open_ring [OF abs assms(3-5)]
  have a: "a \<notin> set (h # us @ vs)" "nodes (ins_open a item k s1) a \<noteq> None"
    using R(1) by (auto simp: ins_open_def)
  show thesis using list_link_before_ring [OF R(2) a] that by metis
qed

lemma pushBack_abs:
  assumes "list_abs s p F xs" "pool_ok s" "1 + first_use F \<le> room s" "item \<noteq> NULL"
  shows "push_ok s p F (xs @ [item]) (FTE_LIST_pushBack p item s)"
proof -
  have abs: "list_abs s p F (xs @ [])" using assms(1) by simp
  obtain h us vs k s1 a pl where 1: "list_ensure_init p s = Some s1"
    "list_abs s1 p (Some (h, us @ vs, k)) (xs @ [])" "length us = length xs" "pool_ok s1"
    "pool s1 = a # pl" "a \<noteq> NULL"
    and res: "\<forall>N. ring N h (us @ a # vs) \<and> im N = im (nodes (ins_open a item k s1))
       \<and> (\<forall>c. c \<notin> set (h # us @ a # vs) \<longrightarrow> N c = nodes (ins_open a item k s1) c) \<longrightarrow>
       push_ok s p F (xs @ item # []) (Some (FTE_RET_OK, ins_close p k N (ins_open a item k s1)))"
    by (rule push_result [OF abs assms(2-4)], rule that)
  have vs: "vs = []" using list_abs_count(1) [OF 1(2)] 1(3) by simp
  note H = list_abs_header [OF 1(2)]
  obtain N where N: "list_link_before a (hd (vs @ [h])) (ins_open a item k s1) = Some ((ins_open a item k s1)\<lparr>nodes := N\<rparr>)"
    "ring N h (us @ a # vs)" "im N = im (nodes (ins_open a item k s1))"
    "\<forall>c. c \<notin> set (h # us @ a # vs) \<longrightarrow> N c = nodes (ins_open a item k s1) c"
    by (rule link_before_step [OF 1(2-6), where item = item], rule that)
  have "FTE_LIST_pushBack p item s = Some (FTE_RET_OK, ins_close p k N (ins_open a item k s1))"
    using assms(4) 1(1,5,6) H N(1) vs
    by (simp add: FTE_LIST_pushBack_def alloc_node_ok FTE_SYS_LOCK_enable_def FTE_SYS_LOCK_disable_def
        set_item_def list_upd_def ins_close_def ins_open_def)
  then show ?thesis using res N(2-4) by simp
qed

text \<open>The sorted insertion goes before the first item the new one is below.\<close>

definition sort_place :: "(addr \<Rightarrow> addr \<Rightarrow> 32 word) \<Rightarrow> addr \<Rightarrow> addr list \<Rightarrow> nat" where
  "sort_place cmp item xs = length (takeWhile (\<lambda>i. \<not> sint (cmp item i) < 0) xs)"

definition sort_insert :: "(addr \<Rightarrow> addr \<Rightarrow> 32 word) \<Rightarrow> addr \<Rightarrow> addr list \<Rightarrow> addr list" where
  "sort_insert cmp item xs =
     takeWhile (\<lambda>i. \<not> sint (cmp item i) < 0) xs @ item # dropWhile (\<lambda>i. \<not> sint (cmp item i) < 0) xs"

lemma pushSort_abs:
  assumes "list_abs s p F xs" "pool_ok s" "1 + first_use F \<le> room s" "item \<noteq> NULL"
  shows "push_ok s p F (sort_insert cmp item xs) (FTE_LIST_pushSort p item cmp s)"
proof -
  let ?P = "\<lambda>i. \<not> sint (cmp item i) < 0"
  let ?xs = "takeWhile ?P xs" and ?ys = "dropWhile ?P xs"
  have abs: "list_abs s p F (?xs @ ?ys)" using assms(1) by simp
  obtain h us vs k s1 a pl where 1: "list_ensure_init p s = Some s1"
    "list_abs s1 p (Some (h, us @ vs, k)) (?xs @ ?ys)" "length us = length ?xs" "pool_ok s1"
    "pool s1 = a # pl" "a \<noteq> NULL"
    and res: "\<forall>N. ring N h (us @ a # vs) \<and> im N = im (nodes (ins_open a item k s1))
       \<and> (\<forall>c. c \<notin> set (h # us @ a # vs) \<longrightarrow> N c = nodes (ins_open a item k s1) c) \<longrightarrow>
       push_ok s p F (?xs @ item # ?ys) (Some (FTE_RET_OK, ins_close p k N (ins_open a item k s1)))"
    by (rule push_result [OF abs assms(2-4)], rule that)
  note H = list_abs_header [OF 1(2)]
  note R = ins_open_ring [OF 1(2,4,5,6)]
  obtain N where N: "list_link_before a (hd (vs @ [h])) (ins_open a item k s1) = Some ((ins_open a item k s1)\<lparr>nodes := N\<rparr>)"
    "ring N h (us @ a # vs)" "im N = im (nodes (ins_open a item k s1))"
    "\<forall>c. c \<notin> set (h # us @ a # vs) \<longrightarrow> N c = nodes (ins_open a item k s1) c"
    by (rule link_before_step [OF 1(2-6), where item = item], rule that)
  have "ring (nodes (ins_open a item k s1)) h ([] @ us @ vs)" using R(2) by simp
  from list_seek_ring [OF this, where test = "\<lambda>i. sint (cmp item i) < 0", OF R(3)]
  have seek: "list_seek (\<lambda>i. sint (cmp item i) < 0) h (hd ((us @ vs) @ [h])) (ins_open a item k s1)
      = Some (hd (vs @ [h]))"
    using 1(3) by simp
  obtain n where n: "nodes (ins_open a item k s1) h = Some n" "pNext n = hd ((us @ vs) @ [h])"
    using R(2) by (rule ring_head)
  have ah: "h \<noteq> a" using R(1) by auto
  have "FTE_LIST_pushSort p item cmp s = Some (FTE_RET_OK, ins_close p k N (ins_open a item k s1))"
    using assms(4) 1(1,5,6) H N(1) seek n ah
    by (simp add: FTE_LIST_pushSort_def alloc_node_ok FTE_SYS_LOCK_enable_def FTE_SYS_LOCK_disable_def
        set_item_def list_upd_def ins_close_def ins_open_def)
  then show ?thesis using res N(2-4) by (simp add: sort_insert_def)
qed

section \<open>Removal\<close>

definition del_close :: "addr \<Rightarrow> addr \<Rightarrow> addr \<Rightarrow> (addr \<rightharpoonup> fte_node) \<Rightarrow> 'z kst \<Rightarrow> 'z kst" where
  "del_close p k a N s = s\<lparr>
     lists := (lists s)(p := map_option (\<lambda>l. l\<lparr>nCount := nCount l - 1\<rparr>) (lists s p)),
     pool := a # pool s, live := live s - {a},
     nodes := N(a := None), sems := (sems s)(k \<mapsto> 1, a := None)\<rparr>"

text \<open>The outcome of a removal: one block goes back to the allocator.\<close>

definition pop_ok :: "'z kst \<Rightarrow> addr \<Rightarrow> foot \<Rightarrow> addr list \<Rightarrow> 'z kst \<Rightarrow> bool" where
  "pop_ok s p F zs s' \<longleftrightarrow> (\<exists>F' a. F' \<noteq> None \<and> list_abs s' p F' zs
     \<and> pool_ok s' \<and> list_frame s s' p F F' \<and> a \<noteq> NULL \<and> pool s' = a # pool s
     \<and> fpset F' \<subseteq> fpset F)"

lemma del_close_abs:
  assumes abs: "list_abs s p (Some (h, us @ a # vs, k)) (xs @ y # ys)" and len: "length us = length xs"
    and ok: "pool_ok s"
    and N: "ring N h (us @ vs)" "im N = im (nodes s)"
      "\<And>c. c \<notin> set (h # us @ vs) \<Longrightarrow> N c = nodes s c"
  shows "pop_ok s p (Some (h, us @ a # vs, k)) (xs @ ys) (del_close p k a N s)"
proof -
  let ?s' = "del_close p k a N s"
  let ?F' = "Some (h, us @ vs, k)"
  have a: "a \<notin> insert k (set (h # us @ vs))" "a \<in> live s" "a \<noteq> NULL" "k \<noteq> a"
    using abs by (auto simp: ring_ptrs_def)
  have "map (im N) (us @ a # vs) = map Some (xs @ y # ys)" using abs unfolding N(2) by simp
  then have "map (im N) us @ map (im N) (a # vs) = map Some xs @ map Some (y # ys)"
    by (simp only: map_append)
  then have ims: "map (im N) us = map Some xs" "map (im N) (a # vs) = map Some (y # ys)"
    using len append_eq_append_conv [of "map (im N) us" "map Some xs"] by (metis length_map)+
  have same: "(N(a := None)) c = N c" if "c \<in> set (h # us @ vs)" for c using that a by auto
  have ims': "map (im (N(a := None))) (us @ vs) = map Some (xs @ ys)"
  proof -
    have "map (im (N(a := None))) (us @ vs) = map (im N) (us @ vs)"
      by (rule map_cong [OF refl]) (metis list.set_intros(2) same)
    also have "\<dots> = map Some (xs @ ys)" using ims by (simp only: map_append list.map list.inject)
    finally show ?thesis .
  qed
  have ring': "ring (N(a := None)) h (us @ vs)"
    using N(1) ring_cong [of h "us @ vs" "N(a := None)" N, OF same] by simp
  have fields: "nodes ?s' = N(a := None)"
    "lists ?s' p = Some \<lparr>nCount = of_nat (length (xs @ ys)), pHead = h, pLockKey = k\<rparr>"
    "sems ?s' k = Some 1" "live ?s' = live s - {a}" "pool ?s' = a # pool s"
    using abs a by (simp_all add: del_close_def)
  have "list_abs ?s' p ?F' (xs @ ys)"
    unfolding list_abs.simps fields using abs a ring' ims' by auto
  moreover have "pool_ok ?s'" using ok a unfolding pool_ok_def fields by auto
  moreover have "list_frame s ?s' p (Some (h, us @ a # vs, k)) ?F'"
    unfolding list_frame_def fields using abs a N(3) by (auto simp: del_close_def)
  ultimately show ?thesis
    unfolding pop_ok_def using a fields(5) by (intro exI [of _ ?F'] exI [of _ a]) auto
qed

text \<open>The steps both removals share, from the unlinking to the release.\<close>

lemma unlink_step:
  assumes abs: "list_abs s p (Some (h, us @ a # vs, k)) (xs @ y # ys)" and len: "length us = length xs"
    and ok: "pool_ok s"
  defines "s1 \<equiv> s\<lparr>sems := (sems s)(k \<mapsto> 0)\<rparr>"
  obtains N n where "list_unlink a s1 = Some (s1\<lparr>nodes := N\<rparr>)"
    "N a = Some n" "pItem n = y" "a \<in> live s" "a \<noteq> NULL" "a \<noteq> k"
    "pop_ok s p (Some (h, us @ a # vs, k)) (xs @ ys) (del_close p k a N s)"
proof -
  have r: "ring (nodes s1) h (us @ a # vs)" using abs by (simp add: s1_def)
  obtain N where N: "list_unlink a s1 = Some (s1\<lparr>nodes := N\<rparr>)" "ring N h (us @ vs)"
    "im N = im (nodes s1)" "\<forall>c. c \<notin> set (h # us @ vs) \<longrightarrow> N c = nodes s1 c"
    by (rule list_unlink_ring [OF r]) auto
  have n1: "nodes s1 = nodes s" by (simp add: s1_def)
  have pop: "pop_ok s p (Some (h, us @ a # vs, k)) (xs @ ys) (del_close p k a N s)"
    by (rule del_close_abs [OF abs len ok N(2) N(3) [unfolded n1] N(4) [unfolded n1, rule_format]])
  have "map (im (nodes s)) us @ im (nodes s) a # map (im (nodes s)) vs = map Some xs @ Some y # map Some ys"
    using abs by simp
  then have "im (nodes s) a = Some y"
    using len append_eq_append_conv [of "map (im (nodes s)) us" "map Some xs"] by (metis length_map list.inject)
  then have "im N a = Some y" using fun_cong [OF N(3), of a] n1 by simp
  then obtain n where "N a = Some n" "pItem n = y" by (cases "N a") auto
  moreover have "a \<in> live s" "a \<noteq> NULL" "a \<noteq> k" using abs by auto
  ultimately show thesis using that N(1) pop by blast
qed

lemma popFront_abs:
  assumes abs: "list_abs s p F (x # xs)" and ok: "pool_ok s"
  obtains s' where "FTE_LIST_popFront p s = Some (FTE_RET_OK, Some x, s')" "pop_ok s p F xs s'"
proof -
  obtain h as k where F: "F = Some (h, as, k)" using abs by (cases F) auto
  have "length as = length (x # xs)" using abs unfolding F by (rule list_abs_count)
  then obtain a vs where as: "as = a # vs" by (cases as) auto
  have abs': "list_abs s p (Some (h, [] @ a # vs, k)) ([] @ x # xs)" using abs F as by simp
  note H = list_abs_header [OF abs'] and C = list_abs_count [OF abs']
  obtain N n where N: "list_unlink a (s\<lparr>sems := (sems s)(k \<mapsto> 0)\<rparr>) = Some (s\<lparr>sems := (sems s)(k \<mapsto> 0)\<rparr>\<lparr>nodes := N\<rparr>)"
    "N a = Some n" "pItem n = x" "a \<in> live s" "a \<noteq> NULL" "a \<noteq> k"
    "pop_ok s p (Some (h, [] @ a # vs, k)) ([] @ xs) (del_close p k a N s)"
    using unlink_step [OF abs' _ ok] by auto
  obtain hn where hn: "nodes s h = Some hn" "pNext hn = a"
    using ring_head [OF H(6)] by auto
  have ens: "list_ensure_init p s = Some s"
    using H by (simp add: list_ensure_init_def FTE_LIST_isInitialized_def)
  have "FTE_LIST_popFront p s = Some (FTE_RET_OK, Some x, del_close p k a N s)"
    using H(1-5) C(4) N(1-6) hn ens
    by (simp add: FTE_LIST_popFront_def FTE_SYS_LOCK_enable_def FTE_SYS_LOCK_disable_def
        list_upd_def FTE_MEM_free_def del_close_def)
  then show thesis using that N(7) F as by simp
qed

lemma popFront_empty:
  assumes abs: "list_abs s p F []" and ok: "pool_ok s" and room: "first_use F \<le> room s"
  obtains F' s' where "FTE_LIST_popFront p s = Some (FTE_RET_ERROR, None, s')" "F' \<noteq> None"
    "list_abs s' p F' []" "pool_ok s'" "list_frame s s' p F F'"
    "pool s' = drop (first_use F) (pool s)" "F \<noteq> None \<Longrightarrow> s' = s"
proof -
  obtain h as k s' where 1: "list_ensure_init p s = Some s'"
    "list_abs s' p (Some (h, as, k)) []" "pool_ok s'"
    "list_frame s s' p F (Some (h, as, k))" "pool s' = drop (first_use F) (pool s)"
    "F \<noteq> None \<Longrightarrow> s' = s \<and> F = Some (h, as, k)"
    using list_ensure_init_ok [OF abs ok room] by metis
  note H = list_abs_header [OF 1(2)]
  have "FTE_LIST_popFront p s = Some (FTE_RET_ERROR, None, s')"
    using 1(1) H by (simp add: FTE_LIST_popFront_def)
  then show thesis using that [of s' "Some (h, as, k)"] 1(2-6) by blast
qed

lemma remove_abs:
  assumes abs: "list_abs s p F xs" and ok: "pool_ok s" and mem: "item \<in> set xs"
  obtains s' where "FTE_LIST_remove p item s = Some (FTE_RET_OK, s')" "pop_ok s p F (remove1 item xs) s'"
proof -
  obtain us' ys' where split: "xs = us' @ item # ys'" "item \<notin> set us'"
    using split_list_first [OF mem] by auto
  obtain h as k where F: "F = Some (h, as, k)" using abs mem by (cases F) auto
  have len: "length as = length xs" using abs unfolding F by (rule list_abs_count)
  let ?n = "length us'"
  have "?n < length as" using len split by simp
  then have as: "as = take ?n as @ as ! ?n # drop (Suc ?n) as" by (rule id_take_nth_drop)
  define us a vs where "us = take ?n as" and "a = as ! ?n" and "vs = drop (Suc ?n) as"
  have as': "as = us @ a # vs" using as by (simp only: us_def a_def vs_def)
  have lus: "length us = ?n" using len split by (simp add: us_def)
  have abs': "list_abs s p (Some (h, us @ a # vs, k)) (us' @ item # ys')"
    using abs F as' split by simp
  note H = list_abs_header [OF abs']
  obtain N n where N: "list_unlink a (s\<lparr>sems := (sems s)(k \<mapsto> 0)\<rparr>) = Some (s\<lparr>sems := (sems s)(k \<mapsto> 0)\<rparr>\<lparr>nodes := N\<rparr>)"
    "N a = Some n" "pItem n = item" "a \<in> live s" "a \<noteq> NULL" "a \<noteq> k"
    "pop_ok s p (Some (h, us @ a # vs, k)) (us' @ ys') (del_close p k a N s)"
    using unlink_step [OF abs' lus ok] by auto
  obtain hn where hn: "nodes s h = Some hn" "pNext hn = hd ((us @ a # vs) @ [h])"
    using ring_head [OF H(6)] by metis
  have "a \<noteq> h" using H(6) by (auto simp: ring_ptrs_def)
  let ?s1 = "s\<lparr>sems := (sems s)(k \<mapsto> 0)\<rparr>"
  have tw: "takeWhile (\<lambda>y. y \<noteq> item) (us' @ item # ys') = us'"
    using split(2) by (induction us') auto
  have "ring (nodes ?s1) h ([] @ us @ a # vs)" "map (im (nodes ?s1)) (us @ a # vs) = map Some (us' @ item # ys')"
    using H(6,7) by simp_all
  from list_seek_ring [OF this, where test = "\<lambda>i. i = item"]
  have seek: "list_seek (\<lambda>i. i = item) h (hd ((us @ a # vs) @ [h])) ?s1 = Some a"
    using lus tw by simp
  have ens: "list_ensure_init p s = Some s"
    using H by (simp add: list_ensure_init_def FTE_LIST_isInitialized_def)
  have nn: "item \<noteq> NULL" using list_abs_no_null [OF abs] mem by auto
  have "FTE_LIST_remove p item s = Some (FTE_RET_OK, del_close p k a N s)"
    using H(1-5) N(1-6) hn ens seek nn \<open>a \<noteq> h\<close>
    by (simp add: FTE_LIST_remove_def FTE_SYS_LOCK_enable_def FTE_SYS_LOCK_disable_def
        list_upd_def FTE_MEM_free_def del_close_def)
  moreover have "remove1 item xs = us' @ ys'" using split by (simp add: remove1_append)
  ultimately show thesis using that N(7) F as' by simp
qed

lemma remove_absent:
  assumes abs: "list_abs s p F xs" and ok: "pool_ok s" and room: "first_use F \<le> room s"
    and "item \<notin> set xs" "item \<noteq> NULL"
  obtains F' s' where "FTE_LIST_remove p item s = Some (FTE_RET_ERROR, s')" "F' \<noteq> None"
    "list_abs s' p F' xs" "pool_ok s'" "list_frame s s' p F F'"
    "pool s' = drop (first_use F) (pool s)" "F \<noteq> None \<Longrightarrow> s' = s"
proof -
  obtain h as k s' where 1: "list_ensure_init p s = Some s'"
    "list_abs s' p (Some (h, as, k)) xs" "pool_ok s'"
    "list_frame s s' p F (Some (h, as, k))" "pool s' = drop (first_use F) (pool s)"
    "F \<noteq> None \<Longrightarrow> s' = s \<and> F = Some (h, as, k)"
    using list_ensure_init_ok [OF abs ok room] by metis
  note H = list_abs_header [OF 1(2)]
  let ?s1 = "s'\<lparr>sems := (sems s')(k \<mapsto> 0)\<rparr>"
  obtain hn where hn: "nodes s' h = Some hn" "pNext hn = hd (as @ [h])"
    using ring_head [OF H(6)] by metis
  have "ring (nodes ?s1) h ([] @ as)" "map (im (nodes ?s1)) as = map Some xs"
    using H(6,7) by simp_all
  note sk = list_seek_ring [OF this, where test = "\<lambda>i. i = item"]
  have tw: "takeWhile (\<lambda>y. y \<noteq> item) xs = xs" using assms(4) by (auto simp: takeWhile_eq_all_conv)
  have seek: "list_seek (\<lambda>i. i = item) h (hd (as @ [h])) ?s1 = Some h"
    using sk list_abs_count(1) [OF 1(2)] unfolding tw by simp
  have "s'\<lparr>sems := (sems s')(k \<mapsto> Suc 0)\<rparr> = s'" using H(3) by (cases s') (auto simp: fun_upd_idem)
  then have "FTE_LIST_remove p item s = Some (FTE_RET_ERROR, s')"
    using 1(1) H(1-5) hn seek assms(5)
    by (simp add: FTE_LIST_remove_def FTE_SYS_LOCK_enable_def FTE_SYS_LOCK_disable_def)
  then show thesis using that [of s' "Some (h, as, k)"] 1(2-6) by blast
qed

section \<open>Queries\<close>

lemma count_abs:
  assumes "list_abs s p F xs"
  shows "FTE_LIST_count p s = Some (of_nat (length xs))"
  using assms by (cases F) (auto simp: FTE_LIST_count_def)

lemma count_zero_iff:
  assumes "list_abs s p F xs"
  shows "(of_nat (length xs) :: u32) = 0 \<longleftrightarrow> xs = []"
proof (cases F)
  case (Some f)
  obtain h as k where "f = (h, as, k)" by (cases f) auto
  then show ?thesis using assms Some list_abs_count(4) by blast
qed (use assms in simp)

lemma isExist_abs:
  assumes "list_abs s p F xs"
  shows "FTE_LIST_isExist p item s = Some (item \<in> set xs)"
proof (cases F)
  case None
  then show ?thesis using assms by (auto simp: FTE_LIST_isExist_def)
next
  case (Some f)
  obtain h as k where f: "f = (h, as, k)" by (cases f) auto
  have abs: "list_abs s p (Some (h, as, k)) xs" using assms Some f by simp
  note H = list_abs_header [OF abs] and C = list_abs_count [OF abs]
  obtain hn where hn: "nodes s h = Some hn" "pNext hn = hd (as @ [h])"
    using ring_head [OF H(6)] by metis
  have "ring (nodes s) h ([] @ as)" using H(6) by simp
  note sk = list_seek_ring [OF this H(7), where test = "\<lambda>i. i = item"]
  let ?n = "length (takeWhile (\<lambda>y. y \<noteq> item) xs)"
  have "hd (drop ?n as @ [h]) \<noteq> h \<longleftrightarrow> item \<in> set xs"
  proof (cases "item \<in> set xs")
    case True
    then have "0 < length (dropWhile (\<lambda>y. y \<noteq> item) xs)" by (auto simp: length_greater_0_conv)
    then have "?n < length as"
      using C(1) arg_cong [OF takeWhile_dropWhile_id [of "\<lambda>y. y \<noteq> item" xs], of length]
      by (simp only: length_append)
    moreover have "h \<notin> set as" using H(6) by (auto simp: ring_ptrs_def)
    ultimately show ?thesis using True by (auto simp: hd_append hd_drop_conv_nth)
  next
    case False
    then have "takeWhile (\<lambda>y. y \<noteq> item) xs = xs" by (auto simp: takeWhile_eq_all_conv)
    then have "?n = length as" using C(1) by (simp only:)
    then show ?thesis using False by simp
  qed
  then show ?thesis using H(2,5) hn sk by (simp add: FTE_LIST_isExist_def)
qed

lemma list_getAt_loop_ring:
  assumes "ring (nodes s) h (us @ vs)" "unat i < length vs"
  shows "list_getAt_loop h (hd (vs @ [h])) i s = Some (vs ! unat i, 0)"
  using assms
proof (induction vs arbitrary: us i)
  case Nil
  then show ?case by simp
next
  case (Cons v vs)
  obtain n where n: "nodes s v = Some n" "pNext n = hd (vs @ [h])" "v \<noteq> h"
    using Cons.prems(1) by (rule ring_node)
  show ?case
  proof (cases "i = 0")
    case True
    then show ?thesis by (subst list_getAt_loop.simps) simp
  next
    case False
    then have i: "0 < i" "unat i = Suc (unat (i - 1))"
      by (simp_all add: word_gt_0 unat_minus_one unat_gt_0)
    have "ring (nodes s) h ((us @ [v]) @ vs)" "unat (i - 1) < length vs"
      using Cons.prems i by simp_all
    from Cons.IH [OF this] show ?thesis
      using n i by (subst list_getAt_loop.simps) simp
  qed
qed

lemma getAt_abs:
  assumes "list_abs s p F xs" "F \<noteq> None"
  shows "FTE_LIST_getAt p i s = Some (if unat i < length xs then xs ! unat i else NULL, s)"
proof -
  obtain h as k where F: "F = Some (h, as, k)" using assms(2) by (cases F) auto
  have abs: "list_abs s p (Some (h, as, k)) xs" using assms F by simp
  note H = list_abs_header [OF abs] and C = list_abs_count [OF abs]
  obtain hn where hn: "nodes s h = Some hn" "pNext hn = hd (as @ [h])"
    using ring_head [OF H(6)] by metis
  have ens: "list_ensure_init p s = Some s"
    using H by (simp add: list_ensure_init_def FTE_LIST_isInitialized_def)
  have le: "(of_nat (length xs) :: u32) \<le> i \<longleftrightarrow> length xs \<le> unat i"
    using C(3) by (simp add: word_le_nat_alt)
  show ?thesis
  proof (cases "unat i < length xs")
    case False
    then show ?thesis using H ens le by (simp add: FTE_LIST_getAt_def)
  next
    case True
    have "ring (nodes s) h ([] @ as)" "unat i < length as" using H(6) True C(1) by simp_all
    note lp = list_getAt_loop_ring [OF this]
    have "im (nodes s) (as ! unat i) = Some (xs ! unat i)"
      using arg_cong [OF H(7), of "\<lambda>l. l ! unat i"] True C(1) by simp
    then obtain n where "nodes s (as ! unat i) = Some n" "pItem n = xs ! unat i" by auto
    then show ?thesis using H(1-5) ens le True hn lp by (simp add: FTE_LIST_getAt_def)
  qed
qed

text \<open>The iteration idiom of the callers:
  \<^verbatim>\<open>while((p = FTE_LIST_ITER_getNext(&it)) != NULL)\<close>.\<close>

partial_function (option) list_iterate :: "fte_iter \<Rightarrow> 'z kst \<Rightarrow> addr list option" where
  "list_iterate it s = do {
     (item, it) \<leftarrow> FTE_LIST_ITER_getNext it s;
     if item = NULL then Some [] else do {
       items \<leftarrow> list_iterate it s;
       Some (item # items)
     }
   }"

lemma list_iterate_ring:
  assumes "ring (nodes s) h (us @ vs)" "lists s p = Some l" "pHead l = h"
    "map (im (nodes s)) vs = map Some ys" "NULL \<notin> set ys"
  shows "list_iterate \<lparr>itList = p, itNode = last (h # us)\<rparr> s = Some ys"
  using assms
proof (induction vs arbitrary: us ys)
  case Nil
  obtain n where "nodes s (last (h # us)) = Some n" "pNext n = h"
  proof (cases us rule: rev_cases)
    case Nil
    then show ?thesis using ring_head [OF assms(1) [folded append_Nil2]] that Nil.prems(1)
      by (metis Nil append_Nil ring_head last_ConsL list.sel(1) self_append_conv)
  next
    case (snoc us' u)
    then have "ring (nodes s) h (us' @ u # [])" using Nil.prems(1) by simp
    then show ?thesis by (rule ring_node) (use snoc that in auto)
  qed
  then show ?case
    using Nil.prems by (subst list_iterate.simps) (simp add: FTE_LIST_ITER_getNext_def)
next
  case (Cons v vs)
  obtain y ys' where ys: "ys = y # ys'" "im (nodes s) v = Some y" "map (im (nodes s)) vs = map Some ys'"
    "y \<noteq> NULL" "NULL \<notin> set ys'"
    using Cons.prems(4,5) by (cases ys) auto
  have v: "v \<noteq> h" using Cons.prems(1) by (auto simp: ring_ptrs_def)
  obtain n where n: "nodes s (last (h # us)) = Some n" "pNext n = v"
  proof (cases us rule: rev_cases)
    case Nil
    then have "ring (nodes s) h (v # vs)" using Cons.prems(1) by simp
    then show ?thesis by (rule ring_head) (use Nil that in auto)
  next
    case (snoc us' u)
    then have "ring (nodes s) h (us' @ u # v # vs)" using Cons.prems(1) by simp
    then show ?thesis by (rule ring_node) (use snoc that in auto)
  qed
  have "ring (nodes s) h ((us @ [v]) @ vs)" using Cons.prems(1) by simp
  from Cons.IH [OF this Cons.prems(2,3) ys(3,5)] show ?case
    using n ys v Cons.prems(2,3)
    by (subst list_iterate.simps) (auto simp: FTE_LIST_ITER_getNext_def)
qed

lemma iterate_abs:
  assumes "list_abs s p F xs" "F \<noteq> None"
  obtains it where "FTE_LIST_ITER_init p s = Some (FTE_RET_OK, it, s)" "list_iterate it s = Some xs"
proof -
  obtain h as k where F: "F = Some (h, as, k)" using assms(2) by (cases F) auto
  have abs: "list_abs s p (Some (h, as, k)) xs" using assms F by simp
  note H = list_abs_header [OF abs]
  have "ring (nodes s) h ([] @ as)" using H(6) by simp
  from list_iterate_ring [OF this H(2) _ H(7) list_abs_no_null [OF abs]]
  have "list_iterate \<lparr>itList = p, itNode = h\<rparr> s = Some xs" by simp
  moreover have "FTE_LIST_ITER_init p s = Some (FTE_RET_OK, \<lparr>itList = p, itNode = h\<rparr>, s)"
    using H by (simp add: FTE_LIST_ITER_init_def list_ensure_init_def FTE_LIST_isInitialized_def)
  ultimately show thesis using that by blast
qed

section \<open>What does not work\<close>

text \<open>\<^verbatim>\<open>FTE_LIST_popBack\<close> takes the lock twice.\<close>

lemma popBack_blocks:
  assumes "list_abs s p F xs" "xs \<noteq> []"
  shows "FTE_LIST_popBack p s = None"
proof -
  obtain h as k where F: "F = Some (h, as, k)" using assms by (cases F) auto
  have abs: "list_abs s p (Some (h, as, k)) xs" using assms F by simp
  note H = list_abs_header [OF abs] and C = list_abs_count [OF abs]
  obtain hn where hn: "nodes s h = Some hn" using ring_head [OF H(6)] by metis
  show ?thesis
    using H C(4) assms(2) hn
    by (simp add: FTE_LIST_popBack_def list_ensure_init_def FTE_LIST_isInitialized_def
        FTE_SYS_LOCK_enable_def)
qed

text \<open>\<^verbatim>\<open>FTE_LIST_final\<close> gives back the sentinel and the lock, and loses the nodes:
  they stay allocated, and nothing refers to them any more.\<close>

lemma final_leaks:
  assumes "list_abs s p (Some (h, as, k)) xs" "pool_ok s"
  obtains s' where "FTE_LIST_final p s = Some (FTE_RET_OK, s')" "list_abs s' p None []" "pool_ok s'"
    "live s' = live s - {h, k}" "set as \<subseteq> live s'" "pool s' = h # k # pool s"
proof -
  note H = list_abs_header [OF assms(1)]
  have L: "h \<in> live s" "k \<in> live s" "h \<noteq> k" "set as \<subseteq> live s" "h \<notin> set as" "k \<notin> set as"
    using assms(1) by (auto simp: ring_ptrs_def)
  let ?s' = "s\<lparr>pool := h # k # pool s, live := live s - {k} - {h},
      nodes := (nodes s)(k := None, h := None), sems := (sems s)(k := None, h := None),
      lists := (lists s)(p \<mapsto> \<lparr>nCount = 0, pHead = NULL, pLockKey = k\<rparr>)\<rparr>"
  have "FTE_LIST_final p s = Some (FTE_RET_OK, ?s')"
    using H(1-5) L
    by (simp add: FTE_LIST_final_def list_final_loop.simps FTE_SYS_LOCK_destroy_def FTE_MEM_free_def
        list_upd_def)
  moreover have "list_abs ?s' p None []" using H(1) by simp
  moreover have "pool_ok ?s'" using assms(2) L H(4,5) by (auto simp: pool_ok_def)
  moreover have "live ?s' = live s - {h, k}" "set as \<subseteq> live ?s'" "pool ?s' = h # k # pool s"
    using L by auto
  ultimately show thesis using that by blast
qed

text \<open>An insertion that finds no memory reports it, marks the system unstable and
  leaves the list as it was.\<close>

lemma push_no_memory:
  assumes "list_abs s p F xs" "F \<noteq> None" "pool s = []" "item \<noteq> NULL"
  shows "FTE_LIST_pushFront p item s = Some (FTE_RET_NOT_ENOUGH_MEMORY, s\<lparr>unstable := True\<rparr>)"
    "FTE_LIST_pushBack p item s = Some (FTE_RET_NOT_ENOUGH_MEMORY, s\<lparr>unstable := True\<rparr>)"
    "FTE_LIST_pushSort p item cmp s = Some (FTE_RET_NOT_ENOUGH_MEMORY, s\<lparr>unstable := True\<rparr>)"
proof -
  obtain h as k where F: "F = Some (h, as, k)" using assms(2) by (cases F) auto
  have abs: "list_abs s p (Some (h, as, k)) xs" using assms F by simp
  note H = list_abs_header [OF abs]
  have ens: "list_ensure_init p s = Some s"
    using H by (simp add: list_ensure_init_def FTE_LIST_isInitialized_def)
  show "FTE_LIST_pushFront p item s = Some (FTE_RET_NOT_ENOUGH_MEMORY, s\<lparr>unstable := True\<rparr>)"
    "FTE_LIST_pushBack p item s = Some (FTE_RET_NOT_ENOUGH_MEMORY, s\<lparr>unstable := True\<rparr>)"
    "FTE_LIST_pushSort p item cmp s = Some (FTE_RET_NOT_ENOUGH_MEMORY, s\<lparr>unstable := True\<rparr>)"
    using H(1) ens assms(3,4)
    by (simp_all add: FTE_LIST_pushFront_def FTE_LIST_pushBack_def FTE_LIST_pushSort_def
        FTE_MEM_allocNode_def FTE_MEM_alloc_def)
qed

section \<open>The contract offered to the pools\<close>

text \<open>
  What a component that keeps blocks in two lists relies on.  \<open>need\<close> is what a list
  takes from the allocator before its first use, \<open>frame s s' p F F'\<close> says that the step
  from \<open>s\<close> to \<open>s'\<close> was an operation on list \<open>p\<close>, and \<open>disj\<close> that two footprints share no
  block.
\<close>

locale list_store =
  fixes abs :: "'s \<Rightarrow> addr \<Rightarrow> 'f \<Rightarrow> addr list \<Rightarrow> bool"
    and ok :: "'s \<Rightarrow> bool"
    and space :: "'s \<Rightarrow> nat"
    and need :: "'f \<Rightarrow> nat"
    and frame :: "'s \<Rightarrow> 's \<Rightarrow> addr \<Rightarrow> 'f \<Rightarrow> 'f \<Rightarrow> bool"
    and disj :: "'f \<Rightarrow> 'f \<Rightarrow> bool"
    and push :: "addr \<Rightarrow> addr \<Rightarrow> 's \<Rightarrow> (fte_ret \<times> 's) option"
    and pop :: "addr \<Rightarrow> 's \<Rightarrow> (fte_ret \<times> addr option \<times> 's) option"
    and rem :: "addr \<Rightarrow> addr \<Rightarrow> 's \<Rightarrow> (fte_ret \<times> 's) option"
  assumes no_null: "abs s p F xs \<Longrightarrow> NULL \<notin> set xs"
    and disj_sym: "disj F G \<Longrightarrow> disj G F"
    and push_law: "abs s p F xs \<Longrightarrow> ok s \<Longrightarrow> Suc (need F) \<le> space s \<Longrightarrow> item \<noteq> NULL \<Longrightarrow>
      \<exists>F' s'. push p item s = Some (FTE_RET_OK, s') \<and> abs s' p F' (xs @ [item]) \<and> ok s'
        \<and> frame s s' p F F' \<and> need F' = 0 \<and> space s \<le> space s' + Suc (need F)"
    and pop_law: "abs s p F (x # xs) \<Longrightarrow> ok s \<Longrightarrow>
      \<exists>F' s'. pop p s = Some (FTE_RET_OK, Some x, s') \<and> abs s' p F' xs \<and> ok s'
        \<and> frame s s' p F F' \<and> need F' = 0 \<and> Suc (space s) \<le> space s'"
    and rem_law: "abs s p F xs \<Longrightarrow> ok s \<Longrightarrow> item \<in> set xs \<Longrightarrow>
      \<exists>F' s'. rem p item s = Some (FTE_RET_OK, s') \<and> abs s' p F' (remove1 item xs) \<and> ok s'
        \<and> frame s s' p F F' \<and> need F' = 0 \<and> Suc (space s) \<le> space s'"
    and frame_law: "abs s q G ys \<Longrightarrow> frame s s' p F F' \<Longrightarrow> q \<noteq> p \<Longrightarrow> disj G F \<Longrightarrow>
      abs s' q G ys \<and> disj G F'"
begin

text \<open>Moving the front item of one list to the back of another never fails once the
  target can be initialised: the cell released by the first step serves the second.\<close>

lemma second_step:
  assumes 1: "abs s1 p F' xs" "ok s1" "frame s s1 p F F'" "need F' = 0" "Suc (space s) \<le> space s1"
    and q: "abs s q G ys" "p \<noteq> q" "disj F G" "need G \<le> space s" "x \<noteq> NULL"
  shows "\<exists>G' s2. push q x s1 = Some (FTE_RET_OK, s2) \<and> abs s2 p F' xs \<and> abs s2 q G' (ys @ [x])
     \<and> ok s2 \<and> disj F' G' \<and> need G' = 0 \<and> frame s1 s2 q G G' \<and> space s \<le> space s2 + need G"
proof -
  have g: "abs s1 q G ys" "disj G F'" using frame_law [OF q(1) 1(3)] q disj_sym by auto
  obtain G' s2 where 2: "push q x s1 = Some (FTE_RET_OK, s2)" "abs s2 q G' (ys @ [x])" "ok s2"
    "frame s1 s2 q G G'" "need G' = 0" "space s1 \<le> space s2 + Suc (need G)"
    using push_law [OF g(1) 1(2)] q(4,5) 1(5) by (meson Suc_le_mono le_trans)
  have "abs s2 p F' xs \<and> disj F' G'" using frame_law [OF 1(1) 2(4)] q(2) g(2) disj_sym by blast
  then show ?thesis using 2 1(5) by (intro exI [of _ G'] exI [of _ s2]) simp
qed

lemma move_front:
  assumes "abs s p F (x # xs)" "abs s q G ys" "ok s" "p \<noteq> q" "disj F G" "need G \<le> space s"
  obtains F' G' s1 s2 where "pop p s = Some (FTE_RET_OK, Some x, s1)"
    "push q x s1 = Some (FTE_RET_OK, s2)" "abs s2 p F' xs" "abs s2 q G' (ys @ [x])"
    "ok s2" "disj F' G'" "need F' = 0" "need G' = 0" "frame s s1 p F F'" "frame s1 s2 q G G'"
    "space s \<le> space s2 + need G"
proof -
  obtain F' s1 where 1: "pop p s = Some (FTE_RET_OK, Some x, s1)" "abs s1 p F' xs" "ok s1"
    "frame s s1 p F F'" "need F' = 0" "Suc (space s) \<le> space s1"
    using pop_law assms by blast
  have "x \<noteq> NULL" using no_null [OF assms(1)] by auto
  then show thesis
    using that [OF 1(1)] second_step [OF 1(2-6) assms(2,4,5,6)] 1(4,5) by blast
qed

lemma move_item:
  assumes "abs s p F xs" "x \<in> set xs" "abs s q G ys" "ok s" "p \<noteq> q" "disj F G" "need G \<le> space s"
  obtains F' G' s1 s2 where "rem p x s = Some (FTE_RET_OK, s1)"
    "push q x s1 = Some (FTE_RET_OK, s2)" "abs s2 p F' (remove1 x xs)" "abs s2 q G' (ys @ [x])"
    "ok s2" "disj F' G'" "need F' = 0" "need G' = 0" "frame s s1 p F F'" "frame s1 s2 q G G'"
    "space s \<le> space s2 + need G"
proof -
  obtain F' s1 where 1: "rem p x s = Some (FTE_RET_OK, s1)" "abs s1 p F' (remove1 x xs)" "ok s1"
    "frame s s1 p F F'" "need F' = 0" "Suc (space s) \<le> space s1"
    using rem_law assms by blast
  have "x \<noteq> NULL" using no_null [OF assms(1)] assms(2) by auto
  then show thesis
    using that [OF 1(1)] second_step [OF 1(2-6) assms(3,5,6,7)] 1(4,5) by blast
qed

end

lemma room_drop: "n \<le> room s \<Longrightarrow> pool s' = drop n (pool s) \<Longrightarrow> room s = room s' + n"
proof (induction n arbitrary: s)
  case 0
  then show ?case by (simp add: room_def)
next
  case (Suc n)
  obtain a pl where pl: "pool s = a # pl" "a \<noteq> NULL"
    using Suc.prems(1) by (cases "pool s") (auto simp: room_def split: if_splits)
  have "room (s\<lparr>pool := pl\<rparr>) = room s' + n"
    by (rule Suc.IH) (use Suc.prems pl in \<open>auto simp: room_def\<close>)
  then show ?case using pl by (simp add: room_def)
qed

lemma room_cons: "pool s' = a # pool s \<Longrightarrow> a \<noteq> NULL \<Longrightarrow> room s' = Suc (room s)"
  by (simp add: room_def)

lemma foot_used: "F \<noteq> None \<Longrightarrow> first_use F = 0"
  by (cases F) auto

lemma pop_ok_contract:
  assumes "pop_ok s p F zs s'"
  shows "\<exists>F'. list_abs s' p F' zs \<and> pool_ok s' \<and> list_frame s s' p F F' \<and> first_use F' = 0
    \<and> F' \<noteq> None \<and> Suc (room s) \<le> room s' \<and> fpset F' \<subseteq> fpset F"
proof -
  obtain F' a where "F' \<noteq> None" "list_abs s' p F' zs" "pool_ok s'" "list_frame s s' p F F'"
    "a \<noteq> NULL" "pool s' = a # pool s" "fpset F' \<subseteq> fpset F"
    using assms unfolding pop_ok_def by blast
  then show ?thesis using foot_used room_cons [of s' a s] by auto
qed

interpretation lists_of_ring: list_store list_abs pool_ok room first_use list_frame
    "\<lambda>F G. fpset F \<inter> fpset G = {}" FTE_LIST_pushBack FTE_LIST_popFront FTE_LIST_remove
proof unfold_locales
  fix s :: "'a kst" and s' p q F F' G xs ys item x
  show "list_abs s p F xs \<Longrightarrow> NULL \<notin> set xs" by (rule list_abs_no_null)
  show "fpset F \<inter> fpset G = {} \<Longrightarrow> fpset G \<inter> fpset F = {}" by auto
  show "list_abs s q G ys \<Longrightarrow> list_frame s s' p F F' \<Longrightarrow> q \<noteq> p \<Longrightarrow> fpset G \<inter> fpset F = {} \<Longrightarrow>
      list_abs s' q G ys \<and> fpset G \<inter> fpset F' = {}"
    using list_abs_frame by blast
  show "list_abs s p F xs \<Longrightarrow> pool_ok s \<Longrightarrow> Suc (first_use F) \<le> room s \<Longrightarrow> item \<noteq> NULL \<Longrightarrow>
      \<exists>F' s'. FTE_LIST_pushBack p item s = Some (FTE_RET_OK, s') \<and> list_abs s' p F' (xs @ [item])
        \<and> pool_ok s' \<and> list_frame s s' p F F' \<and> first_use F' = 0 \<and> room s \<le> room s' + Suc (first_use F)"
    using pushBack_abs [of s p F xs item] foot_used unfolding push_ok_def
    by (metis add_Suc_right le_refl plus_1_eq_Suc room_drop)
  show "list_abs s p F (x # xs) \<Longrightarrow> pool_ok s \<Longrightarrow>
      \<exists>F' s'. FTE_LIST_popFront p s = Some (FTE_RET_OK, Some x, s') \<and> list_abs s' p F' xs
        \<and> pool_ok s' \<and> list_frame s s' p F F' \<and> first_use F' = 0 \<and> Suc (room s) \<le> room s'"
    using popFront_abs pop_ok_contract by metis
  show "list_abs s p F xs \<Longrightarrow> pool_ok s \<Longrightarrow> item \<in> set xs \<Longrightarrow>
      \<exists>F' s'. FTE_LIST_remove p item s = Some (FTE_RET_OK, s') \<and> list_abs s' p F' (remove1 item xs)
        \<and> pool_ok s' \<and> list_frame s s' p F F' \<and> first_use F' = 0 \<and> Suc (room s) \<le> room s'"
    using remove_abs pop_ok_contract by metis
qed

section \<open>Command sequences\<close>

text \<open>Any sequence of calls on one list, executed on the store and on the list of
  items it stands for.\<close>

datatype list_cmd =
    PushFront addr | PushBack addr | PushSort addr | PopFront | Remove addr
  | GetAt u32 | IsExist addr | Count

datatype list_out = Ret fte_ret | Popped fte_ret "addr option" | Item addr | Found bool | Num u32

fun exec_cmd :: "(addr \<Rightarrow> addr \<Rightarrow> 32 word) \<Rightarrow> addr \<Rightarrow> list_cmd \<Rightarrow> 'z kst \<Rightarrow> (list_out \<times> 'z kst) option" where
  "exec_cmd cmp p (PushFront i) s = do { (r, s) \<leftarrow> FTE_LIST_pushFront p i s; Some (Ret r, s) }"
| "exec_cmd cmp p (PushBack i) s = do { (r, s) \<leftarrow> FTE_LIST_pushBack p i s; Some (Ret r, s) }"
| "exec_cmd cmp p (PushSort i) s = do { (r, s) \<leftarrow> FTE_LIST_pushSort p i cmp s; Some (Ret r, s) }"
| "exec_cmd cmp p PopFront s = do { (r, x, s) \<leftarrow> FTE_LIST_popFront p s; Some (Popped r x, s) }"
| "exec_cmd cmp p (Remove i) s = do { (r, s) \<leftarrow> FTE_LIST_remove p i s; Some (Ret r, s) }"
| "exec_cmd cmp p (GetAt n) s = do { (x, s) \<leftarrow> FTE_LIST_getAt p n s; Some (Item x, s) }"
| "exec_cmd cmp p (IsExist i) s = do { b \<leftarrow> FTE_LIST_isExist p i s; Some (Found b, s) }"
| "exec_cmd cmp p Count s = do { n \<leftarrow> FTE_LIST_count p s; Some (Num n, s) }"

fun spec_cmd :: "(addr \<Rightarrow> addr \<Rightarrow> 32 word) \<Rightarrow> list_cmd \<Rightarrow> addr list \<Rightarrow> list_out \<times> addr list" where
  "spec_cmd cmp (PushFront i) xs = (Ret FTE_RET_OK, i # xs)"
| "spec_cmd cmp (PushBack i) xs = (Ret FTE_RET_OK, xs @ [i])"
| "spec_cmd cmp (PushSort i) xs = (Ret FTE_RET_OK, sort_insert cmp i xs)"
| "spec_cmd cmp PopFront [] = (Popped FTE_RET_ERROR None, [])"
| "spec_cmd cmp PopFront (x # xs) = (Popped FTE_RET_OK (Some x), xs)"
| "spec_cmd cmp (Remove i) xs =
     (if i \<in> set xs then (Ret FTE_RET_OK, remove1 i xs) else (Ret FTE_RET_ERROR, xs))"
| "spec_cmd cmp (GetAt n) xs = (Item (if unat n < length xs then xs ! unat n else NULL), xs)"
| "spec_cmd cmp (IsExist i) xs = (Found (i \<in> set xs), xs)"
| "spec_cmd cmp Count xs = (Num (of_nat (length xs)), xs)"

fun cmd_item :: "list_cmd \<Rightarrow> addr option" where
  "cmd_item (PushFront i) = Some i"
| "cmd_item (PushBack i) = Some i"
| "cmd_item (PushSort i) = Some i"
| "cmd_item (Remove i) = Some i"
| "cmd_item _ = None"

fun exec_cmds :: "(addr \<Rightarrow> addr \<Rightarrow> 32 word) \<Rightarrow> addr \<Rightarrow> list_cmd list \<Rightarrow> 'z kst
    \<Rightarrow> (list_out list \<times> 'z kst) option" where
  "exec_cmds cmp p [] s = Some ([], s)"
| "exec_cmds cmp p (c # cs) s = do {
     (out, s) \<leftarrow> exec_cmd cmp p c s;
     (outs, s) \<leftarrow> exec_cmds cmp p cs s;
     Some (out # outs, s)
   }"

fun spec_cmds :: "(addr \<Rightarrow> addr \<Rightarrow> 32 word) \<Rightarrow> list_cmd list \<Rightarrow> addr list \<Rightarrow> list_out list \<times> addr list" where
  "spec_cmds cmp [] xs = ([], xs)"
| "spec_cmds cmp (c # cs) xs =
     (let (out, xs) = spec_cmd cmp c xs; (outs, xs) = spec_cmds cmp cs xs in (out # outs, xs))"

lemma getAt_abs_any:
  assumes abs: "list_abs s p F xs" and ok: "pool_ok s" and room: "first_use F \<le> room s"
  obtains F' s' where
    "FTE_LIST_getAt p i s = Some (if unat i < length xs then xs ! unat i else NULL, s')"
    "list_abs s' p F' xs" "pool_ok s'" "list_frame s s' p F F'" "pool s' = drop (first_use F) (pool s)"
    "first_use F' = 0"
proof -
  obtain h as k s' where 1: "list_ensure_init p s = Some s'" "list_abs s' p (Some (h, as, k)) xs"
    "pool_ok s'" "list_frame s s' p F (Some (h, as, k))" "pool s' = drop (first_use F) (pool s)"
    using list_ensure_init_ok [OF abs ok room] by metis
  have "list_ensure_init p s' = Some s'"
    using list_abs_header [OF 1(2)] by (simp add: list_ensure_init_def FTE_LIST_isInitialized_def)
  then have "FTE_LIST_getAt p i s = FTE_LIST_getAt p i s'"
    using 1(1) by (simp add: FTE_LIST_getAt_def)
  with getAt_abs [OF 1(2)] 1 show thesis by (intro that [of s' "Some (h, as, k)"]) simp_all
qed

definition cmd_sim :: "'z kst \<Rightarrow> addr \<Rightarrow> foot \<Rightarrow> (list_out \<times> 'z kst) option \<Rightarrow> list_out \<times> addr list \<Rightarrow> bool" where
  "cmd_sim s p F r sp \<longleftrightarrow> (\<exists>F' s'. r = Some (fst sp, s') \<and> list_abs s' p F' (snd sp) \<and> pool_ok s'
     \<and> list_frame s s' p F F' \<and> room s + first_use F' \<le> room s' + Suc (first_use F))"

lemma cmd_simI:
  assumes "r = Some (fst sp, s')" "list_abs s' p F' (snd sp)" "pool_ok s'" "list_frame s s' p F F'"
    "room s + first_use F' \<le> room s' + Suc (first_use F)"
  shows "cmd_sim s p F r sp"
  using assms unfolding cmd_sim_def by blast

lemma push_cmd_sim:
  assumes "push_ok s p F zs r" "Suc (first_use F) \<le> room s"
  shows "cmd_sim s p F (do { (r, s) \<leftarrow> r; Some (Ret r, s) }) (Ret FTE_RET_OK, zs)"
proof -
  obtain F' s' where 1: "r = Some (FTE_RET_OK, s')" "F' \<noteq> None" "list_abs s' p F' zs" "pool_ok s'"
    "list_frame s s' p F F'" "pool s' = drop (Suc (first_use F)) (pool s)"
    using assms(1) unfolding push_ok_def by blast
  then show ?thesis
    using foot_used [OF 1(2)] room_drop [OF assms(2) 1(6)] by (intro cmd_simI [where s' = s' and F' = F']) simp_all
qed

lemma exec_cmd_sim:
  assumes abs: "list_abs s p F xs" and ok: "pool_ok s" and room: "Suc (first_use F) \<le> room s"
    and item: "cmd_item c \<noteq> Some NULL"
  shows "cmd_sim s p F (exec_cmd cmp p c s) (spec_cmd cmp c xs)"
proof -
  have room': "first_use F \<le> room s" and room1: "1 + first_use F \<le> room s" using room by simp_all
  show ?thesis
  proof (cases c)
    case (PushFront i)
    then show ?thesis
      using push_cmd_sim [OF pushFront_abs [OF abs ok room1] room] item by simp
  next
    case (PushBack i)
    then show ?thesis
      using push_cmd_sim [OF pushBack_abs [OF abs ok room1] room] item by simp
  next
    case (PushSort i)
    then show ?thesis
      using push_cmd_sim [OF pushSort_abs [OF abs ok room1] room] item by simp
  next
    case PopFront
    show ?thesis
    proof (cases xs)
      case Nil
      obtain F' s' where 2: "FTE_LIST_popFront p s = Some (FTE_RET_ERROR, None, s')" "F' \<noteq> None"
        "list_abs s' p F' []" "pool_ok s'" "list_frame s s' p F F'" "pool s' = drop (first_use F) (pool s)"
        using popFront_empty [OF _ ok room'] abs Nil by metis
      then show ?thesis using PopFront Nil foot_used [OF 2(2)] room_drop [OF room' 2(6)]
        by (intro cmd_simI [where s' = s' and F' = F']) simp_all
    next
      case (Cons x xs')
      obtain s' where 1: "FTE_LIST_popFront p s = Some (FTE_RET_OK, Some x, s')" "pop_ok s p F xs' s'"
        using popFront_abs [OF _ ok] abs Cons by metis
      obtain F' where "list_abs s' p F' xs'" "pool_ok s'" "list_frame s s' p F F'" "first_use F' = 0"
        "Suc (room s) \<le> room s'"
        using pop_ok_contract [OF 1(2)] by blast
      then show ?thesis using PopFront Cons 1(1)
        by (intro cmd_simI [where s' = s' and F' = F']) simp_all
    qed
  next
    case (Remove i)
    then have i: "i \<noteq> NULL" using item by simp
    show ?thesis
    proof (cases "i \<in> set xs")
      case True
      obtain s' where 1: "FTE_LIST_remove p i s = Some (FTE_RET_OK, s')" "pop_ok s p F (remove1 i xs) s'"
        using remove_abs [OF abs ok True] .
      obtain F' where "list_abs s' p F' (remove1 i xs)" "pool_ok s'" "list_frame s s' p F F'"
        "first_use F' = 0" "Suc (room s) \<le> room s'"
        using pop_ok_contract [OF 1(2)] by blast
      then show ?thesis using Remove True 1(1)
        by (intro cmd_simI [where s' = s' and F' = F']) simp_all
    next
      case False
      obtain F' s' where 2: "FTE_LIST_remove p i s = Some (FTE_RET_ERROR, s')" "F' \<noteq> None"
        "list_abs s' p F' xs" "pool_ok s'" "list_frame s s' p F F'" "pool s' = drop (first_use F) (pool s)"
        using remove_absent [OF abs ok room' False i] by metis
      then show ?thesis using Remove False foot_used [OF 2(2)] room_drop [OF room' 2(6)]
        by (intro cmd_simI [where s' = s' and F' = F']) simp_all
    qed
  next
    case (GetAt n)
    obtain F' s' where 2:
      "FTE_LIST_getAt p n s = Some (if unat n < length xs then xs ! unat n else NULL, s')"
      "list_abs s' p F' xs" "pool_ok s'" "list_frame s s' p F F'" "pool s' = drop (first_use F) (pool s)"
      "first_use F' = 0"
      using getAt_abs_any [OF abs ok room'] by metis
    then show ?thesis using GetAt room_drop [OF room' 2(5)]
      by (intro cmd_simI [where s' = s' and F' = F']) simp_all
  next
    case (IsExist i)
    then show ?thesis
      using isExist_abs [OF abs, of i] abs ok list_frame_refl [OF list_abs_foot [OF abs]]
      by (intro cmd_simI [where s' = s and F' = F]) simp_all
  next
    case Count
    then show ?thesis
      using count_abs [OF abs] abs ok list_frame_refl [OF list_abs_foot [OF abs]]
      by (intro cmd_simI [where s' = s and F' = F]) simp_all
  qed
qed

lemma exec_cmds_sim:
  assumes "list_abs s p F xs" "pool_ok s" "length cs + first_use F \<le> room s"
    "\<forall>c\<in>set cs. cmd_item c \<noteq> Some NULL"
  shows "\<exists>F' s'. exec_cmds cmp p cs s = Some (fst (spec_cmds cmp cs xs), s')
    \<and> list_abs s' p F' (snd (spec_cmds cmp cs xs)) \<and> pool_ok s' \<and> list_frame s s' p F F'"
  using assms
proof (induction cs arbitrary: s F xs)
  case Nil
  then show ?case using list_frame_refl [OF list_abs_foot] by fastforce
next
  case (Cons c cs)
  obtain out xs1 where sp: "spec_cmd cmp c xs = (out, xs1)" by fastforce
  have "cmd_sim s p F (exec_cmd cmp p c s) (spec_cmd cmp c xs)"
    using Cons.prems by (intro exec_cmd_sim) auto
  then obtain F1 s1 where 1: "exec_cmd cmp p c s = Some (out, s1)" "list_abs s1 p F1 xs1" "pool_ok s1"
    "list_frame s s1 p F F1" "room s + first_use F1 \<le> room s1 + Suc (first_use F)"
    unfolding cmd_sim_def sp by auto
  have "length cs + first_use F1 \<le> room s1" using Cons.prems(3) 1(5) by simp
  then obtain F' s' where 2: "exec_cmds cmp p cs s1 = Some (fst (spec_cmds cmp cs xs1), s')"
    "list_abs s' p F' (snd (spec_cmds cmp cs xs1))" "pool_ok s'" "list_frame s1 s' p F1 F'"
    using Cons.IH [OF 1(2,3)] Cons.prems(4) by auto
  show ?case
    using 1 2 sp list_frame_trans [OF 1(4) 2(4)]
    by (intro exI [of _ F'] exI [of _ s']) (simp add: split_beta)
qed

lemma sort_insert_sorted:
  assumes asym: "\<And>a b. sint (cmp a b) < 0 \<Longrightarrow> \<not> sint (cmp b a) < 0"
    and trans: "\<And>a b c. \<not> sint (cmp b a) < 0 \<Longrightarrow> \<not> sint (cmp c b) < 0 \<Longrightarrow> \<not> sint (cmp c a) < 0"
    and "sorted_wrt (\<lambda>a b. \<not> sint (cmp b a) < 0) xs"
  shows "sorted_wrt (\<lambda>a b. \<not> sint (cmp b a) < 0) (sort_insert cmp x xs)"
  using assms(3)
proof (induction xs)
  case Nil
  then show ?case by (simp add: sort_insert_def)
next
  case (Cons y ys)
  show ?case
  proof (cases "sint (cmp x y) < 0")
    case True
    then have "\<not> sint (cmp y x) < 0" by (rule asym)
    then show ?thesis using Cons.prems True trans by (auto simp: sort_insert_def)
  next
    case False
    have "set (sort_insert cmp x ys) = insert x (set ys)"
      unfolding sort_insert_def by (metis Un_insert_right list.simps(15) set_append takeWhile_dropWhile_id)
    then show ?thesis using Cons False by (auto simp: sort_insert_def)
  qed
qed

lemma sort_insert_mset: "mset (sort_insert cmp x xs) = add_mset x (mset xs)"
proof -
  have "mset xs = mset (takeWhile (\<lambda>i. \<not> sint (cmp x i) < 0) xs) + mset (dropWhile (\<lambda>i. \<not> sint (cmp x i) < 0) xs)"
    by (metis mset_append takeWhile_dropWhile_id)
  then show ?thesis by (simp add: sort_insert_def)
qed

lemma spec_sort_all:
  "snd (spec_cmds cmp (map PushSort is) xs) = foldl (\<lambda>xs i. sort_insert cmp i xs) xs is"
  by (induction "is" arbitrary: xs) (simp_all add: split_beta)

lemma foldl_sort_insert:
  assumes "\<And>a b. sint (cmp a b) < 0 \<Longrightarrow> \<not> sint (cmp b a) < 0"
    and "\<And>a b c. \<not> sint (cmp b a) < 0 \<Longrightarrow> \<not> sint (cmp c b) < 0 \<Longrightarrow> \<not> sint (cmp c a) < 0"
    and "sorted_wrt (\<lambda>a b. \<not> sint (cmp b a) < 0) xs"
  shows "sorted_wrt (\<lambda>a b. \<not> sint (cmp b a) < 0) (foldl (\<lambda>xs i. sort_insert cmp i xs) xs is)
    \<and> mset (foldl (\<lambda>xs i. sort_insert cmp i xs) xs is) = mset xs + mset is"
  using assms(3)
proof (induction "is" arbitrary: xs)
  case Nil
  then show ?case by simp
next
  case (Cons i "is")
  from Cons.IH [OF sort_insert_sorted [of cmp xs i, OF assms(1,2) Cons.prems]]
  show ?case by (simp add: sort_insert_mset)
qed

section \<open>Sample states\<close>

text \<open>A zeroed header at 0x100 with twelve free blocks, and a ring of two items with
  a second, empty ring beside it.\<close>

definition demo_zero :: fte_kernel where
  "demo_zero = \<lparr>pool = [0x8, 0x10, 0x18, 0x20, 0x28, 0x30, 0x38, 0x40], live = {}, nodes = Map.empty,
     lists = [0x100 \<mapsto> list_zero, 0x200 \<mapsto> list_zero], sems = Map.empty, unstable = False\<rparr>"

definition demo_two :: fte_kernel where
  "demo_two = \<lparr>pool = [], live = {0x8, 0x10, 0x18, 0x20, 0x28, 0x30},
     nodes = [0x8 \<mapsto> \<lparr>pPrev = 0x18, pNext = 0x10, pItem = 0, nReserved = 0\<rparr>,
              0x10 \<mapsto> \<lparr>pPrev = 0x8, pNext = 0x18, pItem = 0x70, nReserved = 0\<rparr>,
              0x18 \<mapsto> \<lparr>pPrev = 0x10, pNext = 0x8, pItem = 0x80, nReserved = 0\<rparr>,
              0x28 \<mapsto> \<lparr>pPrev = 0x28, pNext = 0x28, pItem = 0, nReserved = 0\<rparr>],
     lists = [0x100 \<mapsto> \<lparr>nCount = 2, pHead = 0x8, pLockKey = 0x20\<rparr>,
              0x200 \<mapsto> \<lparr>nCount = 0, pHead = 0x28, pLockKey = 0x30\<rparr>],
     sems = [0x20 \<mapsto> 1, 0x30 \<mapsto> 1], unstable = False\<rparr>"

lemma demo_zero_ok: "list_abs demo_zero 0x100 None []" "list_abs demo_zero 0x200 None []"
  "pool_ok demo_zero" "room demo_zero = 8"
  by (simp_all add: demo_zero_def pool_ok_def room_def)

lemma demo_two_ok: "list_abs demo_two 0x100 (Some (0x8, [0x10, 0x18], 0x20)) [0x70, 0x80]"
  "list_abs demo_two 0x200 (Some (0x28, [], 0x30)) []" "pool_ok demo_two" "pool demo_two = []"
  "room demo_two = 0"
  by (simp_all add: demo_two_def pool_ok_def ring_ptrs_def room_def)

section \<open>Properties\<close>

text \<open>
  C1: Every sequence of calls on one list (insertions at either end and sorted,
  removals from the front and by item, indexed reads, membership, count) returns
  and gives, call for call, the results of the same sequence on the list of items,
  provided the allocator can serve the insertions.  The header and ring stay well
  formed and the allocator stays consistent.
\<close>

theorem FTE_LIST_refines_list:
  assumes "list_abs s p F xs" "pool_ok s" "length cs + first_use F \<le> room s"
    "\<forall>c\<in>set cs. cmd_item c \<noteq> Some NULL"
  shows "\<exists>F' s'. exec_cmds cmp p cs s = Some (fst (spec_cmds cmp cs xs), s')
    \<and> list_abs s' p F' (snd (spec_cmds cmp cs xs)) \<and> pool_ok s'"
  using exec_cmds_sim [OF assms] by blast

theorem FTE_LIST_refines_list_witness:
  "\<exists>F' s'. exec_cmds (\<lambda>a b. a - b) 0x100
      [PushSort 0x80, PushSort 0x70, PopFront, Remove 0x80, PopFront] demo_zero
    = Some ([Ret 0, Ret 0, Popped 0 (Some 0x70), Ret 0, Popped 0xFF None], s')
      \<and> list_abs s' 0x100 F' [] \<and> pool_ok s'"
  using FTE_LIST_refines_list [OF demo_zero_ok(1,3), where cmp = "\<lambda>a b. a - b"
      and cs = "[PushSort 0x80, PushSort 0x70, PopFront, Remove 0x80, PopFront]"]
  by (simp add: demo_zero_ok sort_insert_def)

text \<open>
  C35: The sorted insertion sorts: filling an uninitialised list through
  \<^verbatim>\<open>FTE_LIST_pushSort\<close> leaves a permutation of the inserted items, ordered by the
  comparator, for every comparator whose sign is a strict weak order.
\<close>

theorem FTE_LIST_pushSort_sorts:
  assumes "list_abs s p None []" "pool_ok s" "length is + 2 \<le> room s" "NULL \<notin> set is"
    and "\<And>a b. sint (cmp a b) < 0 \<Longrightarrow> \<not> sint (cmp b a) < 0"
    and "\<And>a b c. \<not> sint (cmp b a) < 0 \<Longrightarrow> \<not> sint (cmp c b) < 0 \<Longrightarrow> \<not> sint (cmp c a) < 0"
  shows "\<exists>F' s' outs xs. exec_cmds cmp p (map PushSort is) s = Some (outs, s') \<and> list_abs s' p F' xs
    \<and> mset xs = mset is \<and> sorted_wrt (\<lambda>a b. \<not> sint (cmp b a) < 0) xs"
proof -
  have "length (map PushSort is) + first_use None \<le> room s"
    "\<forall>c\<in>set (map PushSort is). cmd_item c \<noteq> Some NULL"
    using assms(3,4) by auto
  note sim = exec_cmds_sim [OF assms(1,2) this, of cmp, unfolded spec_sort_all]
  have "sorted_wrt (\<lambda>a b. \<not> sint (cmp b a) < 0) (foldl (\<lambda>xs i. sort_insert cmp i xs) [] is)
    \<and> mset (foldl (\<lambda>xs i. sort_insert cmp i xs) [] is) = mset [] + mset is"
    by (rule foldl_sort_insert, erule assms(5), erule (1) assms(6), simp)
  with sim show ?thesis by (metis add_cancel_right_left mset.simps(1))
qed

theorem FTE_LIST_pushSort_sorts_witness:
  "\<exists>F' s' outs xs. exec_cmds (\<lambda>a b. if a < b then -1 else 0) 0x100 (map PushSort [0x90, 0x70, 0x80]) demo_zero
     = Some (outs, s') \<and> list_abs s' 0x100 F' xs \<and> mset xs = mset [0x90, 0x70, 0x80]
     \<and> sorted_wrt (\<lambda>a b. \<not> sint ((if b < a then -1 else 0) :: u32) < 0) xs"
  by (rule FTE_LIST_pushSort_sorts [OF demo_zero_ok(1,3)]) (auto simp: demo_zero_ok split: if_splits)



text \<open>
  C37: The callers' iteration idiom terminates and visits every item once, in
  order, leaving the store as it was.
\<close>

theorem FTE_LIST_iteration_complete:
  assumes "list_abs s p (Some f) xs"
  shows "\<exists>it. FTE_LIST_ITER_init p s = Some (FTE_RET_OK, it, s) \<and> list_iterate it s = Some xs"
  using iterate_abs [OF assms] by blast

theorem FTE_LIST_iteration_complete_witness:
  "\<exists>it. FTE_LIST_ITER_init 0x100 demo_two = Some (FTE_RET_OK, it, demo_two)
     \<and> list_iterate it demo_two = Some [0x70, 0x80]"
  by (rule FTE_LIST_iteration_complete [OF demo_two_ok(1)])

text \<open>
  \<^verbatim>\<open>FTE_LIST_popBack\<close> never returns on a list that has an item: it takes the
  list's lock a second time while it holds it.
\<close>

lemma FTE_LIST_popBack_deadlocks:
  assumes "list_abs s p F xs" "xs \<noteq> []"
  shows "FTE_LIST_popBack p s = None"
  using assms by (rule popBack_blocks)

lemma FTE_LIST_popBack_deadlocks_witness: "FTE_LIST_popBack 0x100 demo_two = None"
  by (rule FTE_LIST_popBack_deadlocks [OF demo_two_ok(1)]) simp

text \<open>
  \<^verbatim>\<open>FTE_LIST_final\<close> returns with the list uninitialised again, but of its blocks
  it gives back the sentinel and the lock only: every node that held an item stays
  allocated.
\<close>

lemma FTE_LIST_final_leaks_nodes:
  assumes "list_abs s p (Some (h, as, k)) xs" "pool_ok s"
  shows "\<exists>s'. FTE_LIST_final p s = Some (FTE_RET_OK, s') \<and> list_abs s' p None [] \<and> pool_ok s'
    \<and> live s' = live s - {h, k} \<and> set as \<subseteq> live s' \<and> length as = length xs"
  using final_leaks [OF assms] list_abs_count(1) [OF assms(1)] by metis

lemma FTE_LIST_final_leaks_nodes_witness:
  "\<exists>s'. FTE_LIST_final 0x100 demo_two = Some (FTE_RET_OK, s') \<and> list_abs s' 0x100 None [] \<and> pool_ok s'
    \<and> live s' = live demo_two - {0x8, 0x20} \<and> set [0x10, 0x18] \<subseteq> live s'
    \<and> length [0x10, 0x18 :: addr] = length [0x70, 0x80 :: addr]"
  by (rule FTE_LIST_final_leaks_nodes [OF demo_two_ok(1,3)])

text \<open>
  When the allocator has nothing left, each of the insertions reports
  \<^verbatim>\<open>FTE_RET_NOT_ENOUGH_MEMORY\<close> and changes nothing but the system's unstable mark.
\<close>

lemma FTE_LIST_push_out_of_memory:
  assumes "list_abs s p (Some f) xs" "pool s = []" "item \<noteq> NULL"
  shows "FTE_LIST_pushFront p item s = Some (FTE_RET_NOT_ENOUGH_MEMORY, s\<lparr>unstable := True\<rparr>)
    \<and> FTE_LIST_pushBack p item s = Some (FTE_RET_NOT_ENOUGH_MEMORY, s\<lparr>unstable := True\<rparr>)
    \<and> FTE_LIST_pushSort p item cmp s = Some (FTE_RET_NOT_ENOUGH_MEMORY, s\<lparr>unstable := True\<rparr>)"
  using push_no_memory [OF assms(1) _ assms(2,3)] by simp

lemma FTE_LIST_push_out_of_memory_witness:
  "FTE_LIST_pushBack 0x100 0x90 demo_two = Some (FTE_RET_NOT_ENOUGH_MEMORY, demo_two\<lparr>unstable := True\<rparr>)"
  using FTE_LIST_push_out_of_memory [OF demo_two_ok(1,4), of "0x90"] by simp

end
