(* ===== verification/FTE_Buff.thy ===== *)
theory FTE_Buff
  imports FTE_List
begin

unbundle bit_operations_syntax

text \<open>
  The fixed-size buffer pool of \<^verbatim>\<open>target/source/fte_buff.c\<close>, which hands receive and
  transmit buffers to the radio task: two lists (allocated and free buffers) and a
  lock inside one block.  The pool extends the kernel's store with its two types;
  the list operations leave these fields alone by their frame, and the pool's
  lemmas use the lists only through the contract \<open>list_store\<close>.
\<close>

section \<open>State\<close>

text \<open>The embedded lists live at fixed offsets of the block, the lock is a field.
  Of a buffer only the size word is modelled, its bytes are never read here.\<close>

record fte_fbm =
  ulUnit :: u32
  ulMaxCount :: u32
  xLock :: nat

record fbm_kernel = fte_kernel +
  fbms :: "addr \<rightharpoonup> fte_fbm"
  buffs :: "addr \<rightharpoonup> u32"

type_synonym 'z fbmst = "'z fbm_kernel_scheme"

definition xAllocList :: "addr \<Rightarrow> addr" where "xAllocList p = p + 8"
definition xFreeList :: "addr \<Rightarrow> addr" where "xFreeList p = p + 20"

section \<open>The code\<close>

definition fbm_lock_enable :: "addr \<Rightarrow> 'z fbmst \<Rightarrow> 'z fbmst option" where
  "fbm_lock_enable p s = do {
     m \<leftarrow> fbms s p;
     guard_opt (0 < xLock m);
     Some (s\<lparr>fbms := (fbms s)(p \<mapsto> m\<lparr>xLock := xLock m - 1\<rparr>)\<rparr>)
   }"

definition fbm_lock_disable :: "addr \<Rightarrow> 'z fbmst \<Rightarrow> 'z fbmst option" where
  "fbm_lock_disable p s = do {
     m \<leftarrow> fbms s p;
     Some (s\<lparr>fbms := (fbms s)(p \<mapsto> m\<lparr>xLock := xLock m + 1\<rparr>)\<rparr>)
   }"

text \<open>Releasing a buffer and releasing the pool's own block.\<close>

definition fbm_free_buff :: "addr \<Rightarrow> 'z fbmst \<Rightarrow> 'z fbmst option" where
  "fbm_free_buff a s = do {
     s \<leftarrow> FTE_MEM_free a s;
     Some (s\<lparr>buffs := (buffs s)(a := None)\<rparr>)
   }"

definition fbm_free_pool :: "addr \<Rightarrow> 'z fbmst \<Rightarrow> 'z fbmst option" where
  "fbm_free_pool p s = do {
     s \<leftarrow> FTE_MEM_free p s;
     Some (s\<lparr>fbms := (fbms s)(p := None),
             lists := (lists s)(xAllocList p := None, xFreeList p := None)\<rparr>)
   }"

text \<open>\<^verbatim>\<open>while(FTE_LIST_count(l) != 0) { if (popFront == OK) free }\<close>: used four times.\<close>

partial_function (option) fbm_drain :: "addr \<Rightarrow> 'z fbmst \<Rightarrow> 'z fbmst option" where
  "fbm_drain l s = do {
     n \<leftarrow> FTE_LIST_count l s;
     if n \<noteq> 0 then do {
       (r, x, s) \<leftarrow> FTE_LIST_popFront l s;
       s \<leftarrow> (if r = FTE_RET_OK then fbm_free_buff (the x) s else Some s);
       fbm_drain l s
     } else Some s
   }"

definition FTE_FBM_destroy :: "addr \<Rightarrow> 'z fbmst \<Rightarrow> (fte_ret \<times> 'z fbmst) option" where
  "FTE_FBM_destroy pFBM s =
     (if pFBM \<noteq> NULL then do {
        s \<leftarrow> fbm_drain (xAllocList pFBM) s;
        s \<leftarrow> fbm_drain (xFreeList pFBM) s;
        s \<leftarrow> fbm_free_pool pFBM s;
        Some (FTE_RET_OK, s)
      } else Some (FTE_RET_OK, s))"

text \<open>The filling loop: \<open>False\<close> is the jump to the error label.\<close>

fun fbm_fill :: "nat \<Rightarrow> addr \<Rightarrow> 'z fbmst \<Rightarrow> (bool \<times> 'z fbmst) option" where
  "fbm_fill 0 pFBM s = Some (True, s)"
| "fbm_fill (Suc n) pFBM s =
     (let (pBuff, s) = FTE_MEM_alloc s in
      if pBuff = NULL then Some (False, s)
      else do {
        (r, s) \<leftarrow> FTE_LIST_pushBack (xFreeList pFBM) pBuff (s\<lparr>buffs := (buffs s)(pBuff \<mapsto> 0)\<rparr>);
        fbm_fill n pFBM s
      })"

definition FTE_FBM_create :: "u32 \<Rightarrow> u32 \<Rightarrow> 'z fbmst \<Rightarrow> (addr \<times> 'z fbmst) option" where
  "FTE_FBM_create unit maxCount s =
     (let (pFBM, s) = FTE_MEM_alloc s in
      if pFBM = NULL then Some (NULL, s)
      else do {
        let s = s\<lparr>fbms := (fbms s)(pFBM \<mapsto> \<lparr>ulUnit = 0, ulMaxCount = 0, xLock = 0\<rparr>),
                  lists := (lists s)(xAllocList pFBM \<mapsto> list_zero, xFreeList pFBM \<mapsto> list_zero)\<rparr>;
        (filled, s) \<leftarrow> fbm_fill (unat maxCount) pFBM s;
        if filled then
          Some (pFBM, s\<lparr>fbms := (fbms s)(pFBM \<mapsto> \<lparr>ulUnit = unit, ulMaxCount = maxCount, xLock = 1\<rparr>)\<rparr>)
        else do {
          s \<leftarrow> fbm_drain (xAllocList pFBM) s;
          s \<leftarrow> fbm_drain (xFreeList pFBM) s;
          s \<leftarrow> fbm_free_pool pFBM s;
          Some (NULL, s)
        }
      })"

definition FTE_FBM_alloc :: "addr \<Rightarrow> u32 \<Rightarrow> 'z fbmst \<Rightarrow> (addr \<times> 'z fbmst) option" where
  "FTE_FBM_alloc pFBM ulSize s =
     (if pFBM = NULL then Some (NULL, s)
      else do {
        n \<leftarrow> FTE_LIST_count (xFreeList pFBM) s;
        if n = 0 then Some (NULL, s)
        else do {
          s \<leftarrow> fbm_lock_enable pFBM s;
          (r, x, s) \<leftarrow> FTE_LIST_popFront (xFreeList pFBM) s;
          (pAlloc, s) \<leftarrow>
            (if r = FTE_RET_OK then do {
               (r, s) \<leftarrow> FTE_LIST_pushBack (xAllocList pFBM) (the x) s;
               _ \<leftarrow> buffs s (the x);
               Some (the x, s\<lparr>buffs := (buffs s)(the x \<mapsto> ulSize)\<rparr>)
             } else Some (NULL, s));
          s \<leftarrow> fbm_lock_disable pFBM s;
          Some (pAlloc, s)
        }
      })"

definition FTE_FBM_free :: "addr \<Rightarrow> addr \<Rightarrow> 'z fbmst \<Rightarrow> 'z fbmst option" where
  "FTE_FBM_free pFBM pBlock s =
     (if pFBM = NULL then Some s
      else do {
        s \<leftarrow> fbm_lock_enable pFBM s;
        (r, s) \<leftarrow> FTE_LIST_remove (xAllocList pFBM) pBlock s;
        s \<leftarrow> (if r = FTE_RET_OK then do {
               (r, s) \<leftarrow> FTE_LIST_pushBack (xFreeList pFBM) pBlock s;
               Some s
             } else Some s);
        fbm_lock_disable pFBM s
      })"

section \<open>Invariant\<close>

definition fbm_inv :: "'z fbmst \<Rightarrow> addr \<Rightarrow> foot \<Rightarrow> foot \<Rightarrow> addr list \<Rightarrow> addr list \<Rightarrow> bool" where
  "fbm_inv s p F G as fs \<longleftrightarrow> p \<noteq> NULL
     \<and> (\<exists>m. fbms s p = Some m \<and> xLock m = 1 \<and> unat (ulMaxCount m) = length (as @ fs))
     \<and> list_abs s (xAllocList p) F as \<and> list_abs s (xFreeList p) G fs \<and> fpset F \<inter> fpset G = {}
     \<and> pool_ok s \<and> distinct (as @ fs) \<and> set (as @ fs) \<subseteq> dom (buffs s)
     \<and> insert p (set (as @ fs)) \<subseteq> live s \<and> insert p (set (as @ fs)) \<inter> (fpset F \<union> fpset G) = {}
     \<and> p \<notin> set (as @ fs)"

lemma embedded_lists_differ [simp]: "xAllocList p \<noteq> xFreeList p" "xFreeList p \<noteq> xAllocList p"
  by (simp_all add: xAllocList_def xFreeList_def)

lemma list_abs_fbms [simp]:
  "list_abs (s\<lparr>fbms := m\<rparr>) p F xs = list_abs s p F xs"
  "list_abs (s\<lparr>buffs := b\<rparr>) p F xs = list_abs s p F xs"
  by (cases F; auto; fail)+

lemma kernel_fbms [simp]:
  "pool_ok (s\<lparr>fbms := m\<rparr>) = pool_ok s" "pool_ok (s\<lparr>buffs := b\<rparr>) = pool_ok s"
  "room (s\<lparr>fbms := m\<rparr>) = room s" "room (s\<lparr>buffs := b\<rparr>) = room s"
  by (simp_all add: pool_ok_def room_def)

lemma list_frame_fbms:
  assumes "list_frame s s' p F F'"
  shows "fbms s' = fbms s" "buffs s' = buffs (s :: 'z fbmst)"
  using assms by (cases s; cases s'; simp add: list_frame_def)+

lemma list_frame_outside:
  assumes "list_frame s s' p F F'" "X \<subseteq> live s" "X \<inter> fpset F = {}"
  shows "X \<subseteq> live s'" "X \<inter> fpset F' = {}"
  using assms unfolding list_frame_def by blast+

text \<open>Two list operations in a row leave the pool's block and its buffers alone.\<close>

lemma two_frames:
  assumes "list_frame s s1 p F F'" "list_frame s1 s2 q G G'"
    and "X \<subseteq> live s" "X \<inter> (fpset F \<union> fpset G) = {}" "fpset F \<inter> fpset G = {}" "fpset G \<subseteq> live s"
  shows "X \<subseteq> live s2 \<and> X \<inter> (fpset F' \<union> fpset G') = {}"
proof -
  have 1: "X \<subseteq> live s1" "X \<inter> fpset F' = {}"
    using list_frame_outside [OF assms(1,3)] assms(4) by blast+
  have "X \<subseteq> live s2" "X \<inter> fpset G' = {}"
    using list_frame_outside [OF assms(2) 1(1)] assms(4) by blast+
  with 1 show ?thesis by blast
qed

lemma fbm_relock: "xLock m = n \<Longrightarrow> m\<lparr>xLock := n\<rparr> = m"
  by (cases m) simp

section \<open>Allocation and release\<close>

lemma FTE_FBM_alloc_ok:
  assumes inv: "fbm_inv s p F G as (x # fs)" and room: "first_use F \<le> room s"
  shows "\<exists>F' G' s'. FTE_FBM_alloc p n s = Some (x, s') \<and> fbm_inv s' p F' G' (as @ [x]) fs
    \<and> buffs s' = (buffs s)(x \<mapsto> n) \<and> first_use F' = 0 \<and> first_use G' = 0 \<and> room s \<le> room s' + first_use F"
proof -
  obtain m where m: "fbms s p = Some m" "xLock m = 1" "unat (ulMaxCount m) = length (as @ x # fs)"
    using inv by (auto simp: fbm_inv_def)
  have I: "p \<noteq> NULL" "list_abs s (xAllocList p) F as" "list_abs s (xFreeList p) G (x # fs)"
    "fpset F \<inter> fpset G = {}" "pool_ok s" "distinct (as @ x # fs)" "set (as @ x # fs) \<subseteq> dom (buffs s)"
    "insert p (set (as @ x # fs)) \<subseteq> live s"
    "insert p (set (as @ x # fs)) \<inter> (fpset F \<union> fpset G) = {}" "p \<notin> set (as @ x # fs)"
    using inv by (auto simp: fbm_inv_def)
  let ?s0 = "s\<lparr>fbms := (fbms s)(p \<mapsto> m\<lparr>xLock := 0\<rparr>)\<rparr>"
  have pre: "list_abs ?s0 (xFreeList p) G (x # fs)" "list_abs ?s0 (xAllocList p) F as" "pool_ok ?s0"
    "fpset G \<inter> fpset F = {}" "first_use F \<le> room ?s0"
    using I room by auto
  obtain G' F' s1 s2 where 1: "FTE_LIST_popFront (xFreeList p) ?s0 = Some (FTE_RET_OK, Some x, s1)"
    "FTE_LIST_pushBack (xAllocList p) x s1 = Some (FTE_RET_OK, s2)" "list_abs s2 (xFreeList p) G' fs"
    "list_abs s2 (xAllocList p) F' (as @ [x])" "pool_ok s2" "fpset G' \<inter> fpset F' = {}"
    "first_use G' = 0" "first_use F' = 0"
    "list_frame ?s0 s1 (xFreeList p) G G'" "list_frame s1 s2 (xAllocList p) F F'"
    "room ?s0 \<le> room s2 + first_use F"
    by (rule lists_of_ring.move_front [OF pre(1,2,3) embedded_lists_differ(2) pre(4,5)])
  have "insert p (set (as @ x # fs)) \<subseteq> live ?s0" using I(8) by simp
  note fr = two_frames [OF 1(9,10) this]
  have X: "insert p (set (as @ x # fs)) \<subseteq> live s2"
    "insert p (set (as @ x # fs)) \<inter> (fpset G' \<union> fpset F') = {}"
    "fbms s2 = (fbms s)(p \<mapsto> m\<lparr>xLock := 0\<rparr>)" "buffs s2 = buffs s"
    using fr I(4,9) list_abs_foot [OF pre(2)] list_frame_fbms [OF 1(9)] list_frame_fbms [OF 1(10)]
    by (simp_all add: Int_commute Un_commute)
  let ?s' = "s2\<lparr>buffs := (buffs s)(x \<mapsto> n), fbms := (fbms s)(p \<mapsto> m)\<rparr>"
  have "FTE_LIST_count (xFreeList p) s = Some (of_nat (length (x # fs)))"
    using I(3) by (rule count_abs)
  moreover have "(of_nat (length (x # fs)) :: u32) \<noteq> 0" using count_zero_iff [OF I(3)] by simp
  moreover have "buffs s x \<noteq> None" using I(7) by auto
  ultimately have "FTE_FBM_alloc p n s = Some (x, ?s')"
    using I(1) m X(3,4) 1(1,2)
    by (auto simp: FTE_FBM_alloc_def fbm_lock_enable_def fbm_lock_disable_def fbm_relock)
  moreover have "fbm_inv ?s' p F' G' (as @ [x]) fs"
    using I 1(3-6) X(1,2) m by (auto simp: fbm_inv_def)
  moreover have "room s \<le> room ?s' + first_use F" using 1(11) by simp
  ultimately show ?thesis using 1(7,8) by (intro exI [of _ F'] exI [of _ G'] exI [of _ ?s']) simp
qed

lemma FTE_FBM_alloc_exhausted:
  assumes "fbm_inv s p F G as []"
  shows "FTE_FBM_alloc p n s = Some (NULL, s)"
proof -
  have "p \<noteq> NULL" "list_abs s (xFreeList p) G []" using assms by (auto simp: fbm_inv_def)
  then show ?thesis using count_abs [of s "xFreeList p" G "[]"] by (simp add: FTE_FBM_alloc_def)
qed

lemma FTE_FBM_free_ok:
  assumes inv: "fbm_inv s p F G as fs" and x: "x \<in> set as" and room: "first_use G \<le> room s"
  shows "\<exists>F' G' s'. FTE_FBM_free p x s = Some s' \<and> fbm_inv s' p F' G' (remove1 x as) (fs @ [x])
    \<and> buffs s' = buffs s \<and> first_use F' = 0 \<and> first_use G' = 0 \<and> room s \<le> room s' + first_use G"
proof -
  obtain m where m: "fbms s p = Some m" "xLock m = 1" "unat (ulMaxCount m) = length (as @ fs)"
    using inv by (auto simp: fbm_inv_def)
  have I: "p \<noteq> NULL" "list_abs s (xAllocList p) F as" "list_abs s (xFreeList p) G fs"
    "fpset F \<inter> fpset G = {}" "pool_ok s" "distinct (as @ fs)" "set (as @ fs) \<subseteq> dom (buffs s)"
    "insert p (set (as @ fs)) \<subseteq> live s"
    "insert p (set (as @ fs)) \<inter> (fpset F \<union> fpset G) = {}" "p \<notin> set (as @ fs)"
    using inv by (auto simp: fbm_inv_def)
  let ?s0 = "s\<lparr>fbms := (fbms s)(p \<mapsto> m\<lparr>xLock := 0\<rparr>)\<rparr>"
  have pre: "list_abs ?s0 (xAllocList p) F as" "list_abs ?s0 (xFreeList p) G fs" "pool_ok ?s0"
    "first_use G \<le> room ?s0"
    using I room by auto
  obtain F' G' s1 s2 where 1: "FTE_LIST_remove (xAllocList p) x ?s0 = Some (FTE_RET_OK, s1)"
    "FTE_LIST_pushBack (xFreeList p) x s1 = Some (FTE_RET_OK, s2)"
    "list_abs s2 (xAllocList p) F' (remove1 x as)" "list_abs s2 (xFreeList p) G' (fs @ [x])"
    "pool_ok s2" "fpset F' \<inter> fpset G' = {}" "first_use F' = 0" "first_use G' = 0"
    "list_frame ?s0 s1 (xAllocList p) F F'" "list_frame s1 s2 (xFreeList p) G G'"
    "room ?s0 \<le> room s2 + first_use G"
    by (rule lists_of_ring.move_item [OF pre(1) x pre(2,3) embedded_lists_differ(1) I(4) pre(4)])
  have "insert p (set (as @ fs)) \<subseteq> live ?s0" using I(8) by simp
  note fr = two_frames [OF 1(9,10) this]
  have X: "insert p (set (as @ fs)) \<subseteq> live s2"
    "insert p (set (as @ fs)) \<inter> (fpset F' \<union> fpset G') = {}"
    "fbms s2 = (fbms s)(p \<mapsto> m\<lparr>xLock := 0\<rparr>)" "buffs s2 = buffs s"
    using fr I(4,9) list_abs_foot [OF pre(2)] list_frame_fbms [OF 1(9)] list_frame_fbms [OF 1(10)]
    by (simp_all add: Int_commute Un_commute)
  let ?s' = "s2\<lparr>fbms := (fbms s)(p \<mapsto> m)\<rparr>"
  have "FTE_FBM_free p x s = Some ?s'"
    using I(1) m X(3) 1(1,2)
    by (simp add: FTE_FBM_free_def fbm_lock_enable_def fbm_lock_disable_def fbm_relock)
  moreover have sets: "set (remove1 x as) = set as - {x}" using I(6) by (simp add: set_remove1_eq)
  have "length (remove1 x as @ fs @ [x]) = length (as @ fs)"
    using x length_pos_if_in_set [OF x] by (simp add: length_remove1)
  then have "fbm_inv ?s' p F' G' (remove1 x as) (fs @ [x])"
    using I 1(3-6) X m x sets by (auto simp: fbm_inv_def)
  moreover have "room s \<le> room ?s' + first_use G" using 1(11) by simp
  ultimately show ?thesis using 1(7,8) X(4) by (intro exI [of _ F'] exI [of _ G'] exI [of _ ?s']) simp
qed

text \<open>A block that is not allocated (already released, or foreign) is refused.\<close>

lemma FTE_FBM_free_absent:
  assumes inv: "fbm_inv s p F G as fs" and x: "x \<notin> set as" "x \<noteq> NULL" and room: "first_use F \<le> room s"
  shows "\<exists>F' s'. FTE_FBM_free p x s = Some s' \<and> fbm_inv s' p F' G as fs
    \<and> buffs s' = buffs s \<and> first_use F' = 0 \<and> (F \<noteq> None \<longrightarrow> s' = s) \<and> room s \<le> room s' + first_use F"
proof -
  obtain m where m: "fbms s p = Some m" "xLock m = 1" "unat (ulMaxCount m) = length (as @ fs)"
    using inv by (auto simp: fbm_inv_def)
  have I: "p \<noteq> NULL" "list_abs s (xAllocList p) F as" "list_abs s (xFreeList p) G fs"
    "fpset F \<inter> fpset G = {}" "pool_ok s" "distinct (as @ fs)" "set (as @ fs) \<subseteq> dom (buffs s)"
    "insert p (set (as @ fs)) \<subseteq> live s"
    "insert p (set (as @ fs)) \<inter> (fpset F \<union> fpset G) = {}" "p \<notin> set (as @ fs)"
    using inv by (auto simp: fbm_inv_def)
  let ?s0 = "s\<lparr>fbms := (fbms s)(p \<mapsto> m\<lparr>xLock := 0\<rparr>)\<rparr>"
  have pre: "list_abs ?s0 (xAllocList p) F as" "list_abs ?s0 (xFreeList p) G fs" "pool_ok ?s0"
    "first_use F \<le> room ?s0"
    using I room by auto
  obtain F' s1 where 1: "FTE_LIST_remove (xAllocList p) x ?s0 = Some (FTE_RET_ERROR, s1)" "F' \<noteq> None"
    "list_abs s1 (xAllocList p) F' as" "pool_ok s1" "list_frame ?s0 s1 (xAllocList p) F F'"
    "pool s1 = drop (first_use F) (pool ?s0)" "F \<noteq> None \<Longrightarrow> s1 = ?s0"
    by (rule remove_absent [OF pre(1,3,4) x]) blast
  have 2: "list_abs s1 (xFreeList p) G fs" "fpset G \<inter> fpset F' = {}"
    using list_abs_frame [OF pre(2) 1(5)] I(4) by auto
  have X0: "insert p (set (as @ fs)) \<subseteq> live ?s0" "insert p (set (as @ fs)) \<inter> fpset F = {}"
    using I(8,9) by auto
  note X = list_frame_outside [OF 1(5) X0] list_frame_fbms [OF 1(5)]
  let ?s' = "s1\<lparr>fbms := (fbms s)(p \<mapsto> m)\<rparr>"
  have "FTE_FBM_free p x s = Some ?s'"
    using I(1) m X(3) 1(1)
    by (simp add: FTE_FBM_free_def fbm_lock_enable_def fbm_lock_disable_def fbm_relock)
  moreover have "fbm_inv ?s' p F' G as fs"
    using I 1(3,4) 2 X m by (auto simp: fbm_inv_def)
  moreover have "F \<noteq> None \<Longrightarrow> ?s' = s"
    using 1(7) m(1) by (cases s) (auto simp: fun_upd_idem)
  moreover have "room s \<le> room ?s' + first_use F" using room_drop [OF pre(4) 1(6)] by simp
  ultimately show ?thesis using 1(2) X(4) foot_used
    by (intro exI [of _ F'] exI [of _ ?s']) simp
qed

section \<open>Histories of use\<close>

text \<open>What the clients of a pool can do, in any order: ask for a buffer, or release any
  non-NULL address, whether it is one of theirs or not.\<close>

datatype fbm_cmd = Alloc u32 | Release addr

fun fbm_exec :: "addr \<Rightarrow> fbm_cmd list \<Rightarrow> 'z fbmst \<Rightarrow> (addr list \<times> 'z fbmst) option" where
  "fbm_exec p [] s = Some ([], s)"
| "fbm_exec p (Alloc n # cs) s = do {
     (x, s) \<leftarrow> FTE_FBM_alloc p n s;
     (xs, s) \<leftarrow> fbm_exec p cs s;
     Some (x # xs, s)
   }"
| "fbm_exec p (Release x # cs) s = do {
     s \<leftarrow> FTE_FBM_free p x s;
     fbm_exec p cs s
   }"

text \<open>The pool as its clients see it: which buffers are out, which are in.\<close>

fun fbm_spec :: "fbm_cmd list \<Rightarrow> addr list \<times> addr list \<Rightarrow> addr list \<times> (addr list \<times> addr list)" where
  "fbm_spec [] P = ([], P)"
| "fbm_spec (Alloc n # cs) (as, []) = (let (xs, P) = fbm_spec cs (as, []) in (NULL # xs, P))"
| "fbm_spec (Alloc n # cs) (as, x # fs) = (let (xs, P) = fbm_spec cs (as @ [x], fs) in (x # xs, P))"
| "fbm_spec (Release x # cs) (as, fs) =
     (if x \<in> set as then fbm_spec cs (remove1 x as, fs @ [x]) else fbm_spec cs (as, fs))"

lemma fbm_exec_sim:
  assumes "fbm_inv s p F G as fs" "first_use F \<le> room s" "first_use G = 0" "Release NULL \<notin> set cs"
  shows "\<exists>F' G' s'. fbm_exec p cs s = Some (fst (fbm_spec cs (as, fs)), s')
    \<and> fbm_inv s' p F' G' (fst (snd (fbm_spec cs (as, fs)))) (snd (snd (fbm_spec cs (as, fs))))"
  using assms
proof (induction cs arbitrary: s F G as fs)
  case Nil
  then show ?case by auto
next
  case (Cons c cs)
  have nn: "Release NULL \<notin> set cs" using Cons.prems(4) by simp
  show ?case
  proof (cases c)
    case (Alloc n)
    show ?thesis
    proof (cases fs)
      case Nil
      have inv: "fbm_inv s p F G as []" using Cons.prems(1) Nil by simp
      obtain F' G' s' where "fbm_exec p cs s = Some (fst (fbm_spec cs (as, [])), s')"
        "fbm_inv s' p F' G' (fst (snd (fbm_spec cs (as, [])))) (snd (snd (fbm_spec cs (as, []))))"
        using Cons.IH [OF inv Cons.prems(2,3) nn] by blast
      then show ?thesis
        using FTE_FBM_alloc_exhausted [OF inv, of n] Alloc Nil
        by (intro exI [of _ F'] exI [of _ G'] exI [of _ s']) (simp add: split_beta)
    next
      case fs: (Cons x fs')
      obtain F1 G1 s1 where 1: "FTE_FBM_alloc p n s = Some (x, s1)" "fbm_inv s1 p F1 G1 (as @ [x]) fs'"
        "first_use F1 = 0" "first_use G1 = 0"
        using FTE_FBM_alloc_ok [OF Cons.prems(1) [unfolded fs] Cons.prems(2), of n] by blast
      have r1: "first_use F1 \<le> room s1" using 1(3) by simp
      obtain F' G' s' where "fbm_exec p cs s1 = Some (fst (fbm_spec cs (as @ [x], fs')), s')"
        "fbm_inv s' p F' G' (fst (snd (fbm_spec cs (as @ [x], fs')))) (snd (snd (fbm_spec cs (as @ [x], fs'))))"
        using Cons.IH [OF 1(2) r1 1(4) nn] by blast
      then show ?thesis
        using 1(1) Alloc fs
        by (intro exI [of _ F'] exI [of _ G'] exI [of _ s']) (simp add: split_beta)
    qed
  next
    case (Release x)
    then have x: "x \<noteq> NULL" using Cons.prems(4) by auto
    show ?thesis
    proof (cases "x \<in> set as")
      case True
      obtain F1 G1 s1 where 1: "FTE_FBM_free p x s = Some s1" "fbm_inv s1 p F1 G1 (remove1 x as) (fs @ [x])"
        "first_use F1 = 0" "first_use G1 = 0"
        using FTE_FBM_free_ok [OF Cons.prems(1) True] Cons.prems(3) by auto
      have r1: "first_use F1 \<le> room s1" using 1(3) by simp
      obtain F' G' s' where "fbm_exec p cs s1 = Some (fst (fbm_spec cs (remove1 x as, fs @ [x])), s')"
        "fbm_inv s' p F' G' (fst (snd (fbm_spec cs (remove1 x as, fs @ [x])))) (snd (snd (fbm_spec cs (remove1 x as, fs @ [x]))))"
        using Cons.IH [OF 1(2) r1 1(4) nn] by blast
      then show ?thesis
        using 1(1) Release True
        by (intro exI [of _ F'] exI [of _ G'] exI [of _ s']) (simp add: split_beta)
    next
      case False
      obtain F1 s1 where 1: "FTE_FBM_free p x s = Some s1" "fbm_inv s1 p F1 G as fs" "first_use F1 = 0"
        using FTE_FBM_free_absent [OF Cons.prems(1) False x Cons.prems(2)] by blast
      have r1: "first_use F1 \<le> room s1" using 1(3) by simp
      obtain F' G' s' where "fbm_exec p cs s1 = Some (fst (fbm_spec cs (as, fs)), s')"
        "fbm_inv s' p F' G' (fst (snd (fbm_spec cs (as, fs)))) (snd (snd (fbm_spec cs (as, fs))))"
        using Cons.IH [OF 1(2) r1 Cons.prems(3) nn] by blast
      then show ?thesis
        using 1(1) Release False
        by (intro exI [of _ F'] exI [of _ G'] exI [of _ s']) (simp add: split_beta)
    qed
  qed
qed

section \<open>Creation and destruction\<close>

text \<open>Releasing a buffer does not disturb a list it is not part of.\<close>

lemma fbm_free_buff_ok:
  assumes "x \<in> live s" "x \<noteq> NULL"
  obtains s' where "fbm_free_buff x s = Some s'" "live s' = live s - {x}" "pool s' = x # pool s"
    "lists s' = lists s" "fbms s' = fbms s"
    "\<And>q F xs. list_abs s q F xs \<Longrightarrow> x \<notin> fpset F \<Longrightarrow> list_abs s' q F xs" "pool_ok s \<Longrightarrow> pool_ok s'"
proof -
  let ?s' = "s\<lparr>pool := x # pool s, live := live s - {x}, nodes := (nodes s)(x := None),
    sems := (sems s)(x := None), buffs := (buffs s)(x := None)\<rparr>"
  have "list_abs ?s' q F xs" if "list_abs s q F xs" "x \<notin> fpset F" for q F xs
  proof (cases F)
    case None
    then show ?thesis using that by simp
  next
    case (Some f)
    obtain h as k where f: "f = (h, as, k)" by (cases f) auto
    have same: "(nodes ?s') a = nodes s a" if "a \<in> set (h # as)" for a
      using that \<open>x \<notin> fpset F\<close> Some f by auto
    have "ring (nodes ?s') h as = ring (nodes s) h as" by (rule ring_cong) (rule same)
    moreover have "map (im (nodes ?s')) as = map Some xs"
    proof -
      have "map (im (nodes ?s')) as = map (im (nodes s)) as"
        by (rule map_cong [OF refl]) (metis list.set_intros(2) same)
      also have "\<dots> = map Some xs" using that Some f by simp
      finally show ?thesis .
    qed
    ultimately show ?thesis using that Some f by auto
  qed
  moreover have "pool_ok s \<Longrightarrow> pool_ok ?s'" using assms by (auto simp: pool_ok_def)
  ultimately show thesis
    using that [of ?s'] assms by (simp add: fbm_free_buff_def FTE_MEM_free_def)
qed

text \<open>Draining a list releases every item and every node, and ends.  Of the list's
  blocks the sentinel and the lock remain.\<close>

lemma fbm_drain_ok:
  assumes "list_abs s l F xs" "pool_ok s" "distinct xs" "set xs \<subseteq> live s" "set xs \<inter> fpset F = {}"
  shows "\<exists>F' s'. fbm_drain l s = Some s' \<and> list_abs s' l F' [] \<and> pool_ok s'
    \<and> fpset F' \<subseteq> fpset F \<and> live s' = (live s - fpset F - set xs) \<union> fpset F'
    \<and> (F' = None \<longleftrightarrow> F = None) \<and> fbms s' = fbms s
    \<and> (\<forall>q. q \<noteq> l \<longrightarrow> lists s' q = lists s q)
    \<and> (\<forall>q G ys. list_abs s q G ys \<longrightarrow> q \<noteq> l \<longrightarrow> fpset G \<inter> (fpset F \<union> set xs) = {} \<longrightarrow> list_abs s' q G ys)"
  using assms
proof (induction xs arbitrary: s F)
  case Nil
  have "FTE_LIST_count l s = Some 0" using count_abs [OF Nil.prems(1)] by simp
  then have "fbm_drain l s = Some s" by (simp add: fbm_drain.simps)
  moreover have "fpset F \<subseteq> live s" using Nil.prems(1) by (rule list_abs_foot)
  then have "live s = (live s - fpset F) \<union> fpset F" by blast
  ultimately show ?case using Nil.prems by (intro exI [of _ F] exI [of _ s]) simp
next
  case (Cons x xs)
  obtain s1 where 1: "FTE_LIST_popFront l s = Some (FTE_RET_OK, Some x, s1)" "pop_ok s l F xs s1"
    using popFront_abs [OF Cons.prems(1,2)] by metis
  obtain F1 where F1: "list_abs s1 l F1 xs" "pool_ok s1" "list_frame s s1 l F F1" "F1 \<noteq> None"
    "fpset F1 \<subseteq> fpset F"
    using pop_ok_contract [OF 1(2)] by blast
  have X: "set (x # xs) \<subseteq> live s1" "set (x # xs) \<inter> fpset F1 = {}"
    using list_frame_outside [OF F1(3) Cons.prems(4,5)] by blast+
  have "x \<noteq> NULL" using list_abs_no_null [OF Cons.prems(1)] by auto
  moreover have "x \<in> live s1" using X by simp
  ultimately obtain s2 where 2: "fbm_free_buff x s1 = Some s2" "live s2 = live s1 - {x}"
    "pool s2 = x # pool s1" "lists s2 = lists s1" "fbms s2 = fbms s1"
    "\<And>q F xs. list_abs s1 q F xs \<Longrightarrow> x \<notin> fpset F \<Longrightarrow> list_abs s2 q F xs" "pool_ok s1 \<Longrightarrow> pool_ok s2"
    using fbm_free_buff_ok by metis
  have pre: "list_abs s2 l F1 xs" "pool_ok s2" "distinct xs" "set xs \<subseteq> live s2" "set xs \<inter> fpset F1 = {}"
    using 2(2,6,7) F1(1,2) X Cons.prems(3) by auto
  obtain F' s' where 3: "fbm_drain l s2 = Some s'" "list_abs s' l F' []" "pool_ok s'"
    "fpset F' \<subseteq> fpset F1" "live s' = (live s2 - fpset F1 - set xs) \<union> fpset F'"
    "F' = None \<longleftrightarrow> F1 = None" "fbms s' = fbms s2" "\<forall>q. q \<noteq> l \<longrightarrow> lists s' q = lists s2 q"
    "\<forall>q G ys. list_abs s2 q G ys \<longrightarrow> q \<noteq> l \<longrightarrow> fpset G \<inter> (fpset F1 \<union> set xs) = {} \<longrightarrow> list_abs s' q G ys"
    using Cons.IH [OF pre] by blast
  have "FTE_LIST_count l s = Some (of_nat (length (x # xs)))" using Cons.prems(1) by (rule count_abs)
  moreover have "(of_nat (length (x # xs)) :: u32) \<noteq> 0" using count_zero_iff [OF Cons.prems(1)] by simp
  ultimately have "fbm_drain l s = Some s'"
    using 1(1) 2(1) 3(1) by (subst fbm_drain.simps) simp
  moreover have "F \<noteq> None" using Cons.prems(1) by (cases F) auto
  moreover have "live s' = (live s - fpset F - set (x # xs)) \<union> fpset F'"
    using 3(5) 2(2) F1(3) X unfolding list_frame_def by auto
  moreover have "list_abs s' q G ys"
    if q: "list_abs s q G ys" "q \<noteq> l" "fpset G \<inter> (fpset F \<union> set (x # xs)) = {}" for q G ys
  proof -
    have d: "fpset G \<inter> fpset F = {}" using q(3) by blast
    have "list_abs s1 q G ys" "fpset G \<inter> fpset F1 = {}"
      using list_abs_frame [OF q(1) F1(3) q(2) d] by blast+
    then have "list_abs s2 q G ys" "fpset G \<inter> (fpset F1 \<union> set xs) = {}"
      using 2(6) q(3) by auto
    then show ?thesis using 3(9) q(2) by blast
  qed
  moreover have "fbms s' = fbms s" using 3(7) 2(5) list_frame_fbms [OF F1(3)] by simp
  moreover have "\<forall>q. q \<noteq> l \<longrightarrow> lists s' q = lists s q"
    using 3(8) 2(4) F1(3) by (simp add: list_frame_def)
  ultimately show ?case using 3(2,3,4,6) F1(4,5)
    by (intro exI [of _ F'] exI [of _ s']) auto
qed

lemma list_abs_empty_card:
  assumes "list_abs s p (Some f) []"
  shows "card (fpset (Some f)) = 2"
proof -
  obtain h as k where f: "f = (h, as, k)" by (cases f) auto
  have "as = []" using assms f list_abs_count(1) [of s p h as k "[]"] by simp
  then show ?thesis using assms f by (auto simp: card_insert_if)
qed

lemma FTE_FBM_destroy_ok:
  assumes inv: "fbm_inv s p F G as fs"
  shows "\<exists>L s'. FTE_FBM_destroy p s = Some (FTE_RET_OK, s')
    \<and> live s' = (live s - insert p (set (as @ fs) \<union> fpset F \<union> fpset G)) \<union> L
    \<and> L \<subseteq> fpset F \<union> fpset G \<and> card L = (if F = None then 0 else 2) + (if G = None then 0 else 2)"
proof -
  have I: "p \<noteq> NULL" "list_abs s (xAllocList p) F as" "list_abs s (xFreeList p) G fs"
    "fpset F \<inter> fpset G = {}" "pool_ok s" "distinct as" "distinct fs" "set as \<inter> set fs = {}"
    "set as \<subseteq> live s" "set fs \<subseteq> live s" "p \<in> live s"
    "insert p (set (as @ fs)) \<inter> (fpset F \<union> fpset G) = {}" "p \<notin> set as" "p \<notin> set fs"
    using inv by (auto simp: fbm_inv_def)
  have "set as \<inter> fpset F = {}" using I(12) by auto
  then obtain F' s1 where 1: "fbm_drain (xAllocList p) s = Some s1" "list_abs s1 (xAllocList p) F' []"
    "pool_ok s1" "fpset F' \<subseteq> fpset F" "live s1 = (live s - fpset F - set as) \<union> fpset F'"
    "F' = None \<longleftrightarrow> F = None"
    "\<forall>q G ys. list_abs s q G ys \<longrightarrow> q \<noteq> xAllocList p \<longrightarrow> fpset G \<inter> (fpset F \<union> set as) = {} \<longrightarrow> list_abs s1 q G ys"
    using fbm_drain_ok [OF I(2,5,6,9)] by blast
  have "fpset G \<inter> (fpset F \<union> set as) = {}" using I(4,12) by auto
  then have g1: "list_abs s1 (xFreeList p) G fs" using 1(7) I(3) by simp
  have f1: "set fs \<subseteq> live s1" "set fs \<inter> fpset G = {}" using 1(5) I(8,10,12) by auto
  obtain G' s2 where 2: "fbm_drain (xFreeList p) s1 = Some s2" "list_abs s2 (xFreeList p) G' []"
    "pool_ok s2" "fpset G' \<subseteq> fpset G" "live s2 = (live s1 - fpset G - set fs) \<union> fpset G'"
    "G' = None \<longleftrightarrow> G = None"
    using fbm_drain_ok [OF g1 1(3) I(7) f1] by blast
  have p2: "p \<in> live s2" using 2(5) 1(5) I(11-14) by auto
  then obtain s3 where 3: "fbm_free_pool p s2 = Some s3" "live s3 = live s2 - {p}"
    using I(1) by (simp add: fbm_free_pool_def FTE_MEM_free_def)
  have "FTE_FBM_destroy p s = Some (FTE_RET_OK, s3)"
    using 1(1) 2(1) 3(1) I(1) by (simp add: FTE_FBM_destroy_def)
  moreover have "live s3 = (live s - insert p (set (as @ fs) \<union> fpset F \<union> fpset G)) \<union> (fpset F' \<union> fpset G')"
  proof -
    have "p \<notin> fpset F' \<union> fpset G'" "fpset F' \<inter> (fpset G \<union> set fs) = {}"
      using 1(4) 2(4) I(4,12) by auto
    then show ?thesis using 3(2) 2(5) 1(5) by auto
  qed
  moreover have "fpset F' \<union> fpset G' \<subseteq> fpset F \<union> fpset G" using 1(4) 2(4) by auto
  moreover have "card (fpset F' \<union> fpset G') = (if F = None then 0 else 2) + (if G = None then 0 else 2)"
  proof -
    have "fpset F' \<inter> fpset G' = {}" using 1(4) 2(4) I(4) by auto
    moreover have "finite (fpset H)" for H by (cases H) auto
    moreover have "card (fpset F') = (if F = None then 0 else 2)"
      using 1(2,6) list_abs_empty_card by (cases F') auto
    moreover have "card (fpset G') = (if G = None then 0 else 2)"
      using 2(2,6) list_abs_empty_card by (cases G') auto
    ultimately show ?thesis by (simp add: card_Un_disjoint)
  qed
  ultimately show ?thesis by blast
qed

lemma fbm_fill_ok:
  assumes "list_abs s (xFreeList p) G fs" "pool_ok s" "2 * n + first_use G \<le> room s \<or> n = 0"
  shows "\<exists>G' bs s'. fbm_fill n p s = Some (True, s') \<and> list_abs s' (xFreeList p) G' (fs @ bs)
    \<and> length bs = n \<and> pool_ok s' \<and> distinct bs \<and> set bs \<inter> (live s - fpset G) = {} \<and> set bs \<subseteq> live s'
    \<and> set bs \<inter> fpset G' = {} \<and> live s - fpset G \<subseteq> live s' - fpset G'
    \<and> dom (buffs s) \<union> set bs \<subseteq> dom (buffs s') \<and> fbms s' = fbms s
    \<and> (\<forall>q. q \<noteq> xFreeList p \<longrightarrow> lists s' q = lists s q) \<and> room s \<le> room s' + 2 * n + first_use G"
  using assms
proof (induction n arbitrary: s G fs)
  case 0
  then show ?case by (intro exI [of _ G] exI [of _ "[]"] exI [of _ s]) auto
next
  case (Suc n)
  have room: "Suc (Suc (2 * n + first_use G)) \<le> room s" using Suc.prems(3) by simp
  then obtain b pl where b: "pool s = b # pl" "b \<noteq> NULL"
    by (cases "pool s") (auto simp: room_def split: if_splits)
  have bl: "b \<notin> live s" "b \<notin> set pl" using Suc.prems(2) b by (auto simp: pool_ok_def)
  let ?s1 = "s\<lparr>pool := pl, live := insert b (live s), buffs := (buffs s)(b \<mapsto> 0)\<rparr>"
  have G: "fpset G \<subseteq> live s" using Suc.prems(1) by (rule list_abs_foot)
  have a1: "list_abs ?s1 (xFreeList p) G fs" using Suc.prems(1) by (cases G) auto
  have p1: "pool_ok ?s1" using Suc.prems(2) b bl by (auto simp: pool_ok_def)
  have r1: "room s = Suc (room ?s1)" using b by (simp add: room_def)
  have "push_ok ?s1 (xFreeList p) G (fs @ [b]) (FTE_LIST_pushBack (xFreeList p) b ?s1)"
    by (rule pushBack_abs [OF a1 p1 _ b(2)]) (use room r1 in simp)
  then obtain G2 s2 where 2: "FTE_LIST_pushBack (xFreeList p) b ?s1 = Some (FTE_RET_OK, s2)" "G2 \<noteq> None"
    "list_abs s2 (xFreeList p) G2 (fs @ [b])" "pool_ok s2" "list_frame ?s1 s2 (xFreeList p) G G2"
    "pool s2 = drop (Suc (first_use G)) (pool ?s1)"
    unfolding push_ok_def by blast
  have r12: "room ?s1 = room s2 + Suc (first_use G)" by (rule room_drop [OF _ 2(6)]) (use room r1 in simp)
  then have r2: "2 * n + first_use G2 \<le> room s2" using room r1 r12 foot_used [OF 2(2)] by simp
  have "insert b (live s - fpset G) \<subseteq> live ?s1" "insert b (live s - fpset G) \<inter> fpset G = {}"
    using bl G by auto
  note X = list_frame_outside [OF 2(5) this] and fb = list_frame_fbms [OF 2(5)]
  obtain G' bs s' where 3: "fbm_fill n p s2 = Some (True, s')" "list_abs s' (xFreeList p) G' ((fs @ [b]) @ bs)"
    "length bs = n" "pool_ok s'" "distinct bs" "set bs \<inter> (live s2 - fpset G2) = {}" "set bs \<subseteq> live s'"
    "set bs \<inter> fpset G' = {}" "live s2 - fpset G2 \<subseteq> live s' - fpset G'"
    "dom (buffs s2) \<union> set bs \<subseteq> dom (buffs s')" "fbms s' = fbms s2"
    "\<forall>q. q \<noteq> xFreeList p \<longrightarrow> lists s' q = lists s2 q" "room s2 \<le> room s' + 2 * n + first_use G2"
    using Suc.IH [OF 2(3,4)] r2 by blast
  have "fbm_fill (Suc n) p s = Some (True, s')"
    using b 2(1) 3(1) by (simp add: FTE_MEM_alloc_def)
  moreover have keep: "insert b (live s - fpset G) \<subseteq> live s' - fpset G'" using X 3(9) by auto
  moreover have "set (b # bs) \<inter> (live s - fpset G) = {}" using X 3(6) bl by auto
  moreover have "b \<notin> set bs" using X 3(6) by auto
  moreover have "dom (buffs s) \<union> set (b # bs) \<subseteq> dom (buffs s')" using 3(10) fb by auto
  moreover have "\<forall>q. q \<noteq> xFreeList p \<longrightarrow> lists s' q = lists s q"
    using 3(12) 2(5) by (simp add: list_frame_def)
  moreover have "room s \<le> room s' + 2 * Suc n + first_use G"
    using r1 r12 3(13) foot_used [OF 2(2)] by simp
  ultimately show ?case using 3(2-5,7,8,11) fb
    by (intro exI [of _ G'] exI [of _ "b # bs"] exI [of _ s']) auto
qed


text \<open>The block of a pool does not wrap round the address space.\<close>

lemma FTE_FBM_create_ok:
  assumes "pool_ok s" "2 * unat maxCount + 3 \<le> room s" "hd (pool s) < 0xFFFFFF00"
  shows "\<exists>p G fs s'. FTE_FBM_create unit maxCount s = Some (p, s') \<and> fbm_inv s' p None G [] fs
    \<and> length fs = unat maxCount \<and> insert p (set fs) \<inter> live s = {} \<and> (fs \<noteq> [] \<longrightarrow> first_use G = 0)
    \<and> room s \<le> room s' + 2 * unat maxCount + 3"
proof -
  obtain p pl where p: "pool s = p # pl" "p \<noteq> NULL" using assms(2)
    by (cases "pool s") (auto simp: room_def split: if_splits)
  have emb: "xAllocList p \<noteq> NULL" "xFreeList p \<noteq> NULL"
    using assms(3) p unfolding xAllocList_def xFreeList_def by (simp; unat_arith)+
  have pf: "p \<notin> live s" using assms(1) p by (auto simp: pool_ok_def)
  let ?s1 = "s\<lparr>pool := pl, live := insert p (live s),
     fbms := (fbms s)(p \<mapsto> \<lparr>ulUnit = 0, ulMaxCount = 0, xLock = 0\<rparr>),
     lists := (lists s)(xAllocList p \<mapsto> list_zero, xFreeList p \<mapsto> list_zero)\<rparr>"
  have a1: "list_abs ?s1 (xFreeList p) None []" using emb by simp
  have p1: "pool_ok ?s1" using assms(1) p pf by (auto simp: pool_ok_def)
  have r1: "2 * unat maxCount + first_use None \<le> room ?s1" using assms(2) p by (simp add: room_def)
  obtain G bs s2 where 2: "fbm_fill (unat maxCount) p ?s1 = Some (True, s2)"
    "list_abs s2 (xFreeList p) G ([] @ bs)" "length bs = unat maxCount" "pool_ok s2" "distinct bs"
    "set bs \<inter> (live ?s1 - fpset None) = {}" "set bs \<subseteq> live s2" "set bs \<inter> fpset G = {}"
    "live ?s1 - fpset None \<subseteq> live s2 - fpset G" "dom (buffs ?s1) \<union> set bs \<subseteq> dom (buffs s2)"
    "fbms s2 = fbms ?s1" "\<forall>q. q \<noteq> xFreeList p \<longrightarrow> lists s2 q = lists ?s1 q"
    "room ?s1 \<le> room s2 + 2 * unat maxCount + first_use None"
    using fbm_fill_ok [OF a1 p1 disjI1 [OF r1]] by blast
  let ?s' = "s2\<lparr>fbms := (fbms s2)(p \<mapsto> \<lparr>ulUnit = unit, ulMaxCount = maxCount, xLock = 1\<rparr>)\<rparr>"
  have "FTE_FBM_create unit maxCount s = Some (p, ?s')"
    using p 2(1) by (simp add: FTE_FBM_create_def FTE_MEM_alloc_def)
  moreover have "fbm_inv ?s' p None G [] bs"
  proof -
    have "list_abs s2 (xAllocList p) None []" using 2(12) emb by simp
    moreover have "p \<in> live s2 - fpset G" "p \<notin> set bs" using 2(6,9) by auto
    ultimately show ?thesis using p(2) 2 by (simp add: fbm_inv_def)
  qed
  moreover have "insert p (set bs) \<inter> live s = {}" using 2(6) pf by auto
  moreover have "bs \<noteq> [] \<longrightarrow> first_use G = 0" using 2(2) by (cases G) auto
  moreover have "room s \<le> room ?s' + 2 * unat maxCount + 3" using 2(13) p by (simp add: room_def)
  ultimately show ?thesis using 2(3) by blast
qed

section \<open>Properties\<close>

text \<open>
  C2: A pool created with enough memory holds exactly the requested number of
  buffers, all fresh and distinct, and every later history of allocations and
  releases behaves like the abstract pool: buffers are handed out in the order they
  came in, an exhausted pool answers NULL, a released buffer becomes available again,
  and releasing an address that is not out (twice released, foreign) changes nothing.
\<close>

theorem FTE_FBM_history_refines:
  assumes "pool_ok s" "2 * unat maxCount + 5 \<le> room s" "hd (pool s) < 0xFFFFFF00" "0 < maxCount"
    "Release NULL \<notin> set cs"
  shows "\<exists>p fs s1 F G s2. FTE_FBM_create unit maxCount s = Some (p, s1) \<and> length fs = unat maxCount
    \<and> distinct fs \<and> insert p (set fs) \<inter> live s = {}
    \<and> fbm_exec p cs s1 = Some (fst (fbm_spec cs ([], fs)), s2)
    \<and> fbm_inv s2 p F G (fst (snd (fbm_spec cs ([], fs)))) (snd (snd (fbm_spec cs ([], fs))))"
proof -
  have "2 * unat maxCount + 3 \<le> room s" using assms(2) by simp
  from FTE_FBM_create_ok [OF assms(1) this assms(3)]
  obtain p G fs s1 where 1: "FTE_FBM_create unit maxCount s = Some (p, s1)" "fbm_inv s1 p None G [] fs"
    "length fs = unat maxCount" "insert p (set fs) \<inter> live s = {}" "fs \<noteq> [] \<longrightarrow> first_use G = 0"
    "room s \<le> room s1 + 2 * unat maxCount + 3"
    by blast
  have "fs \<noteq> []" using 1(3) assms(4) by (auto simp: word_less_nat_alt)
  then have "first_use G = 0" "first_use None \<le> room s1" using 1(5,6) assms(2) by simp_all
  from fbm_exec_sim [OF 1(2) this(2,1) assms(5)]
  obtain F' G' s2 where "fbm_exec p cs s1 = Some (fst (fbm_spec cs ([], fs)), s2)"
    "fbm_inv s2 p F' G' (fst (snd (fbm_spec cs ([], fs)))) (snd (snd (fbm_spec cs ([], fs))))"
    by blast
  moreover have "distinct fs" using 1(2) by (simp add: fbm_inv_def)
  ultimately show ?thesis using 1(1,3,4) by blast
qed

definition demo_fbm :: fbm_kernel where
  "demo_fbm = fte_kernel.extend demo_zero \<lparr>fbms = Map.empty, buffs = Map.empty\<rparr>\<lparr>pool := map (\<lambda>i. of_nat (64 * i)) [1..<12]\<rparr>"

lemma demo_fbm_ok: "pool_ok demo_fbm" "room demo_fbm = 11" "hd (pool demo_fbm) < 0xFFFFFF00"
  by (simp_all add: demo_fbm_def demo_zero_def fte_kernel.defs pool_ok_def room_def upt_rec)

theorem FTE_FBM_history_refines_witness:
  "\<exists>p fs s1 F G s2. FTE_FBM_create 16 2 demo_fbm = Some (p, s1) \<and> length fs = 2
    \<and> distinct fs \<and> insert p (set fs) \<inter> live demo_fbm = {}
    \<and> fbm_exec p [Alloc 7, Alloc 8, Alloc 9, Release 0x40] s1
      = Some (fst (fbm_spec [Alloc 7, Alloc 8, Alloc 9, Release 0x40] ([], fs)), s2)
    \<and> fbm_inv s2 p F G (fst (snd (fbm_spec [Alloc 7, Alloc 8, Alloc 9, Release 0x40] ([], fs))))
       (snd (snd (fbm_spec [Alloc 7, Alloc 8, Alloc 9, Release 0x40] ([], fs))))"
  using FTE_FBM_history_refines [OF demo_fbm_ok(1), of 2 "[Alloc 7, Alloc 8, Alloc 9, Release 0x40]" 16]
  by (simp add: demo_fbm_ok)

text \<open>
  Destroying a pool returns and releases the block, every buffer (free or still
  out) and every node, but not the sentinel and the lock of each list that was used:
  two blocks per list are lost each time.
\<close>

lemma FTE_FBM_destroy_leaks_headers:
  assumes "fbm_inv s p F G as fs"
  shows "\<exists>L s'. FTE_FBM_destroy p s = Some (FTE_RET_OK, s')
    \<and> live s' = (live s - insert p (set (as @ fs) \<union> fpset F \<union> fpset G)) \<union> L
    \<and> L \<subseteq> fpset F \<union> fpset G \<and> card L = (if F = None then 0 else 2) + (if G = None then 0 else 2)"
  by (rule FTE_FBM_destroy_ok [OF assms])

definition demo_pool :: fbm_kernel where
  "demo_pool = \<lparr>pool = [], live = {0x40, 0x80, 0xC0, 0x100, 0x140},
     nodes = [0x100 \<mapsto> \<lparr>pPrev = 0x140, pNext = 0x140, pItem = 0, nReserved = 0\<rparr>,
              0x140 \<mapsto> \<lparr>pPrev = 0x100, pNext = 0x100, pItem = 0x80, nReserved = 0\<rparr>],
     lists = [xAllocList 0x40 \<mapsto> list_zero,
              xFreeList 0x40 \<mapsto> \<lparr>nCount = 1, pHead = 0x100, pLockKey = 0xC0\<rparr>],
     sems = [0xC0 \<mapsto> 1], unstable = False,
     fbms = [0x40 \<mapsto> \<lparr>ulUnit = 16, ulMaxCount = 1, xLock = 1\<rparr>], buffs = [0x80 \<mapsto> 0]\<rparr>"

lemma demo_pool_inv: "fbm_inv demo_pool 0x40 None (Some (0x100, [0x140], 0xC0)) [] [0x80]"
  by (simp add: fbm_inv_def demo_pool_def pool_ok_def ring_ptrs_def xAllocList_def xFreeList_def)

lemma FTE_FBM_destroy_leaks_headers_witness:
  "\<exists>L s'. FTE_FBM_destroy 0x40 demo_pool = Some (FTE_RET_OK, s')
    \<and> live s' = (live demo_pool - insert 0x40 (set ([] @ [0x80]) \<union> fpset None \<union> fpset (Some (0x100, [0x140], 0xC0)))) \<union> L
    \<and> L \<subseteq> fpset None \<union> fpset (Some (0x100, [0x140], 0xC0)) \<and> card L = (if (None :: foot) = None then 0 else 2)
       + (if Some (0x100, [0x140], 0xC0) = (None :: foot) then 0 else 2)"
  by (rule FTE_FBM_destroy_leaks_headers [OF demo_pool_inv])

end
