(* ===== verification/FTE_CString.thy ===== *)
theory FTE_CString
  imports FTE_Prelude
begin

unbundle bit_operations_syntax

text \<open>
  The parts of the C library the value, configuration and document code uses to
  print and parse numbers: the integer conversions of \<^verbatim>\<open>snprintf\<close>, truncation to the
  buffer, \<^verbatim>\<open>strtoul\<close>, \<^verbatim>\<open>strtol\<close> and \<^verbatim>\<open>strcasecmp\<close>, for 32-bit \<^verbatim>\<open>int\<close> and \<^verbatim>\<open>long\<close>.  A C
  string is the list of its characters without the terminator.
\<close>

section \<open>Digits\<close>

definition digit_char :: "nat \<Rightarrow> char" where
  "digit_char d = (if d < 10 then char_of (48 + d) else char_of (87 + d))"

definition digit_val :: "char \<Rightarrow> nat" where
  "digit_val c = (let n = of_char c :: nat in
     if 48 \<le> n \<and> n \<le> 57 then n - 48
     else if 97 \<le> n \<and> n \<le> 122 then n - 87
     else if 65 \<le> n \<and> n \<le> 90 then n - 55
     else 99)"

definition is_digit :: "nat \<Rightarrow> char \<Rightarrow> bool" where
  "is_digit b c \<longleftrightarrow> digit_val c < b"

lemma digit_val_char [simp]: "d < 16 \<Longrightarrow> digit_val (digit_char d) = d"
  by (simp add: digit_val_def digit_char_def of_char_of)

lemma is_digit_char [simp]: "d < b \<Longrightarrow> b \<le> 16 \<Longrightarrow> is_digit b (digit_char d)"
  by (simp add: is_digit_def)

fun num_string :: "nat \<Rightarrow> nat \<Rightarrow> string" where
  "num_string b n = (if n < b \<or> b < 2 then [digit_char n]
     else num_string b (n div b) @ [digit_char (n mod b)])"

declare num_string.simps [simp del]

definition num_value :: "nat \<Rightarrow> string \<Rightarrow> nat" where
  "num_value b s = foldl (\<lambda>v c. v * b + digit_val c) 0 s"

lemma num_string_digits:
  assumes "2 \<le> b" "b \<le> 16"
  shows "\<forall>c\<in>set (num_string b n). is_digit b c"
  using assms
proof (induction b n rule: num_string.induct)
  case (1 b n)
  show ?case
  proof (cases "n < b")
    case True
    then show ?thesis using 1 by (subst num_string.simps) simp
  next
    case False
    then show ?thesis using 1 by (subst num_string.simps) auto
  qed
qed

lemma num_value_string [simp]:
  assumes "2 \<le> b" "b \<le> 16"
  shows "num_value b (num_string b n) = n"
  using assms
proof (induction b n rule: num_string.induct)
  case (1 b n)
  show ?case
  proof (cases "n < b")
    case True
    then show ?thesis using 1 by (subst num_string.simps) (simp add: num_value_def)
  next
    case False
    then have "num_value b (num_string b (n div b)) = n div b" using 1 by simp
    moreover have "n mod b < 16"
      using 1(2,3) mod_less_divisor [of b n] by linarith
    ultimately show ?thesis using False 1
      by (subst num_string.simps) (simp add: num_value_def)
  qed
qed

lemma num_string_length:
  assumes "2 \<le> b" "n < b ^ k" "0 < k"
  shows "length (num_string b n) \<le> k"
  using assms
proof (induction b n arbitrary: k rule: num_string.induct)
  case (1 b n)
  show ?case
  proof (cases "n < b")
    case True
    then show ?thesis using 1 by (subst num_string.simps) simp
  next
    case False
    obtain j where k: "k = Suc j" using 1(4) by (cases k) auto
    with False 1(3) have "0 < j" by (cases j) auto
    moreover have "n div b < b ^ j" using 1(2,3) k by (simp add: less_mult_imp_div_less mult.commute)
    ultimately have "length (num_string b (n div b)) \<le> j" using 1 False by simp
    then show ?thesis using False 1(2) k by (subst num_string.simps) simp
  qed
qed

lemma num_string_not_empty [simp]: "num_string b n \<noteq> []"
  by (subst num_string.simps) simp

section \<open>Printing\<close>

definition c_quot :: "int \<Rightarrow> int \<Rightarrow> int" where
  "c_quot a b = (if a < 0 then - ((- a) div b) else a div b)"

definition c_rem :: "int \<Rightarrow> int \<Rightarrow> int" where
  "c_rem a b = a - b * c_quot a b"

text \<open>\<^verbatim>\<open>%d\<close> on an \<^verbatim>\<open>int\<close>, \<^verbatim>\<open>%0kd\<close> (sign first, then zeros), \<^verbatim>\<open>%0kx\<close> on an \<^verbatim>\<open>unsigned\<close>.\<close>

definition fmt_d :: "int \<Rightarrow> string" where
  "fmt_d i = (if i < 0 then CHR ''-'' # num_string 10 (nat (- i)) else num_string 10 (nat i))"

definition zero_pad :: "nat \<Rightarrow> string \<Rightarrow> string" where
  "zero_pad k s = replicate (k - length s) (CHR ''0'') @ s"

definition fmt_0d :: "nat \<Rightarrow> int \<Rightarrow> string" where
  "fmt_0d k i = (if i < 0 then CHR ''-'' # zero_pad (k - 1) (num_string 10 (nat (- i)))
     else zero_pad k (num_string 10 (nat i)))"

definition fmt_0x :: "nat \<Rightarrow> u32 \<Rightarrow> string" where
  "fmt_0x k w = zero_pad k (num_string 16 (unat w))"

text \<open>\<^verbatim>\<open>snprintf(p, n, ...)\<close> keeps at most \<open>n - 1\<close> characters; with \<open>n = 0\<close> it writes nothing
  (\<open>None\<close>: the buffer is as it was).\<close>

definition c_snprintf :: "u32 \<Rightarrow> string \<Rightarrow> string option" where
  "c_snprintf n s = (if n = 0 then None else Some (take (unat n - 1) s))"

lemma c_snprintf_fits: "length s < unat n \<Longrightarrow> c_snprintf n s = Some s"
  by (auto simp: c_snprintf_def)

lemma c_snprintf_bound: "c_snprintf n s = Some t \<Longrightarrow> length t < unat n"
proof -
  assume "c_snprintf n s = Some t"
  then have "n \<noteq> 0" "t = take (unat n - 1) s" by (auto simp: c_snprintf_def split: if_splits)
  moreover have "0 < unat n" using \<open>n \<noteq> 0\<close> by (simp add: unat_gt_0)
  ultimately show ?thesis by (auto simp: min_def)
qed

section \<open>Parsing\<close>

definition c_space :: "char \<Rightarrow> bool" where
  "c_space c \<longleftrightarrow> c = CHR '' '' \<or> (9 \<le> (of_char c :: nat) \<and> (of_char c :: nat) \<le> 13)"

definition c_sign :: "string \<Rightarrow> bool \<times> string" where
  "c_sign s = (case s of
       c # r \<Rightarrow> if c = CHR ''-'' then (True, r) else if c = CHR ''+'' then (False, r) else (False, s)
     | [] \<Rightarrow> (False, s))"

text \<open>An optional \<^verbatim>\<open>0x\<close> is skipped in base 16 when a digit follows.\<close>

definition c_prefix :: "nat \<Rightarrow> string \<Rightarrow> string" where
  "c_prefix b s = (case s of
       z # x # d # r \<Rightarrow> if b = 16 \<and> z = CHR ''0'' \<and> (x = CHR ''x'' \<or> x = CHR ''X'') \<and> is_digit 16 d
                    then d # r else s
     | _ \<Rightarrow> s)"

definition c_magnitude :: "nat \<Rightarrow> string \<Rightarrow> nat" where
  "c_magnitude b s = num_value b (takeWhile (is_digit b) (c_prefix b s))"

definition c_strtoul :: "nat \<Rightarrow> string \<Rightarrow> u32" where
  "c_strtoul b s = (let (neg, r) = c_sign (dropWhile c_space s); v = c_magnitude b r in
     if 2 ^ 32 \<le> v then - 1 else if neg then - of_nat v else of_nat v)"

definition c_strtol :: "nat \<Rightarrow> string \<Rightarrow> u32" where
  "c_strtol b s = (let (neg, r) = c_sign (dropWhile c_space s); v = c_magnitude b r in
     if neg then (if 2 ^ 31 < v then of_nat (2 ^ 31) else - of_nat v)
     else (if 2 ^ 31 \<le> v then of_nat (2 ^ 31 - 1) else of_nat v))"

definition c_tolower :: "char \<Rightarrow> char" where
  "c_tolower c = (let n = of_char c :: nat in if 65 \<le> n \<and> n \<le> 90 then char_of (n + 32) else c)"

text \<open>\<^verbatim>\<open>strcasecmp(a, b) == 0\<close>\<close>

definition c_caseeq :: "string \<Rightarrow> string \<Rightarrow> bool" where
  "c_caseeq a b \<longleftrightarrow> map c_tolower a = map c_tolower b"

section \<open>What is printed is read back\<close>

lemma digit_not_sign:
  assumes "is_digit 16 c"
  shows "c \<noteq> CHR ''-''" "c \<noteq> CHR ''+''" "\<not> c_space c" "c \<noteq> CHR ''x''" "c \<noteq> CHR ''X''"
  using assms by (auto simp: is_digit_def digit_val_def c_space_def Let_def split: if_splits)

lemma is_digit_mono: "is_digit b c \<Longrightarrow> b \<le> b' \<Longrightarrow> is_digit b' c"
  by (simp add: is_digit_def)

text \<open>A string of digits, in base 10 or (without the prefix's letter) in base 16, is
  its own magnitude.\<close>

lemma c_magnitude_digits:
  assumes "\<forall>c\<in>set s. is_digit b c" "b \<le> 16"
  shows "c_magnitude b s = num_value b s"
proof -
  have no_x: "is_digit 16 c \<Longrightarrow> c \<noteq> CHR ''x'' \<and> c \<noteq> CHR ''X''" for c
    using digit_not_sign by blast
  have "c_prefix b s = s"
  proof (cases s)
    case (Cons z r)
    show ?thesis
    proof (cases r)
      case (Cons x r')
      then have "is_digit 16 x" using assms \<open>s = z # r\<close> is_digit_mono by auto
      then show ?thesis using no_x [of x] \<open>s = z # r\<close> Cons
        by (auto simp: c_prefix_def split: list.splits)
    qed (use Cons in \<open>simp add: c_prefix_def\<close>)
  qed (simp add: c_prefix_def)
  moreover have "takeWhile (is_digit b) s = s" using assms(1) by (simp add: takeWhile_eq_all_conv)
  ultimately show ?thesis by (simp only: c_magnitude_def)
qed

lemma c_sign_digits:
  assumes "\<forall>c\<in>set s. is_digit b c" "b \<le> 16"
  shows "c_sign (dropWhile c_space s) = (False, s)"
proof (cases s)
  case (Cons c r)
  then have "is_digit 16 c" using assms is_digit_mono by auto
  then show ?thesis using digit_not_sign Cons by (simp add: c_sign_def)
qed (simp add: c_sign_def)

text \<open>Parsing a run of digits, with and without a minus sign.\<close>

lemma c_strtoul_digits:
  assumes "\<forall>c\<in>set s. is_digit b c" "b \<le> 16" "num_value b s < 2 ^ 32"
  shows "c_strtoul b s = of_nat (num_value b s)"
    and "c_strtoul b (CHR ''-'' # s) = - of_nat (num_value b s)"
proof -
  note m = c_magnitude_digits [OF assms(1,2)]
  show "c_strtoul b s = of_nat (num_value b s)"
    using assms(3) by (simp add: c_strtoul_def c_sign_digits [OF assms(1,2)] m)
  have "c_sign (dropWhile c_space (CHR ''-'' # s)) = (True, s)"
    by (simp add: c_sign_def c_space_def)
  then show "c_strtoul b (CHR ''-'' # s) = - of_nat (num_value b s)"
    using assms(3) by (simp only: c_strtoul_def Let_def prod.case m) simp
qed

lemma strtoul_fmt_d:
  "c_strtoul 10 (fmt_d (sint (w :: u32))) = w"
proof -
  have b: "- (2 ^ 31) \<le> sint w" "sint w < 2 ^ 31" using sint_greater_eq [of w] sint_less [of w] by simp_all
  have d: "\<forall>c\<in>set (num_string 10 n). is_digit 10 c" for n by (rule num_string_digits) simp_all
  have v: "num_value 10 (num_string 10 n) = n" for n by simp
  show ?thesis
  proof (cases "sint w < 0")
    case True
    then have "nat (- sint w) < 2 ^ 32" using b by auto
    then have "c_strtoul 10 (CHR ''-'' # num_string 10 (nat (- sint w))) = - of_nat (nat (- sint w))"
      using c_strtoul_digits(2) [OF d, of "nat (- sint w)"] by (simp only: v)
    also have "\<dots> = of_int (sint w)" using True by simp
    finally show ?thesis using True by (simp add: fmt_d_def)
  next
    case False
    then have "nat (sint w) < 2 ^ 32" using b by auto
    then have "c_strtoul 10 (num_string 10 (nat (sint w))) = of_nat (nat (sint w))"
      using c_strtoul_digits(1) [OF d, of "nat (sint w)"] by (simp only: v)
    also have "\<dots> = of_int (sint w)" using False by simp
    finally show ?thesis using False by (simp add: fmt_d_def)
  qed
qed

lemma fmt_d_length: "length (fmt_d (sint (w :: u32))) \<le> 11"
proof -
  have "- (2 ^ 31) \<le> sint w" "sint w < 2 ^ 31" using sint_greater_eq [of w] sint_less [of w] by simp_all
  then have "nat (- sint w) < 10 ^ 10" "nat (sint w) < 10 ^ 10" by auto
  then have "length (num_string 10 (nat (- sint w))) \<le> 10" "length (num_string 10 (nat (sint w))) \<le> 10"
    by (intro num_string_length; simp)+
  then show ?thesis by (simp add: fmt_d_def)
qed

lemma zero_pad_value: "num_value b (zero_pad k s) = num_value b s"
proof -
  have "foldl (\<lambda>v c. v * b + digit_val c) 0 (replicate n (CHR ''0'')) = 0" for n
    by (induction n) (simp_all add: digit_val_def)
  then show ?thesis by (simp add: num_value_def zero_pad_def)
qed

lemma strtoul_fmt_0x: "c_strtoul 16 (''0x'' @ fmt_0x 8 w) = w"
proof -
  let ?s = "fmt_0x 8 w"
  have d: "\<forall>c\<in>set ?s. is_digit 16 c"
    using num_string_digits [of 16 "unat w"]
    by (auto simp: fmt_0x_def zero_pad_def is_digit_def digit_val_def split: if_splits)
  have ne: "?s \<noteq> []" by (simp add: fmt_0x_def zero_pad_def)
  obtain c r where s: "?s = c # r" using ne by (cases ?s) auto
  have "c_prefix 16 (''0x'' @ ?s) = ?s" using d s by (simp add: c_prefix_def)
  moreover have "takeWhile (is_digit 16) ?s = ?s" using d by (simp add: takeWhile_eq_all_conv)
  ultimately have "c_magnitude 16 (''0x'' @ ?s) = num_value 16 ?s"
    by (simp only: c_magnitude_def)
  also have "\<dots> = unat w" by (simp add: fmt_0x_def zero_pad_value)
  finally have m: "c_magnitude 16 (''0x'' @ ?s) = unat w" .
  have "c_sign (dropWhile c_space (''0x'' @ ?s)) = (False, ''0x'' @ ?s)"
    by (simp add: c_sign_def c_space_def)
  then have "c_strtoul 16 (''0x'' @ ?s) = (if 2 ^ 32 \<le> unat w then - 1 else of_nat (unat w))"
    by (simp only: c_strtoul_def Let_def prod.case m if_False)
  moreover have "unat w < 2 ^ 32" using unsigned_less [of w] by simp
  ultimately show ?thesis by simp
qed

lemma fmt_0x_length: "length (fmt_0x 8 w) = 8"
proof -
  have "unat w < 16 ^ 8" using unsigned_less [of w] by simp
  then have "length (num_string 16 (unat w)) \<le> 8" by (intro num_string_length) simp_all
  then show ?thesis by (simp add: fmt_0x_def zero_pad_def)
qed

end
