(* ===== verification/FTE_Value.thy ===== *)
theory FTE_Value
  imports FTE_CString
begin

unbundle bit_operations_syntax

text \<open>
  The typed sensor and actuator values of \<^verbatim>\<open>target/source/fte_value.c\<close>: a type tag, a
  32-bit datum whose members of the union share one word (\<^verbatim>\<open>FTE_BOOL\<close> is a 32-bit
  integer on this target), a validity mark that only three failures in a row clear,
  and a time stamp.  Values are printed for the protocols and parsed from
  configuration and commands.  A function that takes a non-NULL pointer is a function
  of the structure; the creators take the allocator's answer as an argument.
\<close>

section \<open>Data\<close>

datatype fte_value_type =
    FTE_VALUE_TYPE_ULONG | FTE_VALUE_TYPE_BOOL | FTE_VALUE_TYPE_TEMPERATURE
  | FTE_VALUE_TYPE_HUMIDITY | FTE_VALUE_TYPE_PPM | FTE_VALUE_TYPE_DIO
  | FTE_VALUE_TYPE_VOLTAGE | FTE_VALUE_TYPE_CURRENT | FTE_VALUE_TYPE_PRESSURE
  | FTE_VALUE_TYPE_LED | FTE_VALUE_TYPE_PWR_KWH | FTE_VALUE_TYPE_PWR_KW
  | FTE_VALUE_TYPE_HEX32 | FTE_VALUE_TYPE_PH | FTE_VALUE_TYPE_MM | FTE_VALUE_TYPE_MAX

record time_struct =
  SECONDS :: u32
  MILLISECONDS :: u32

record fte_value =
  xType :: fte_value_type
  bValid :: bool
  bChanged :: bool
  ulFailCount :: u32
  xData :: u32
  xTimeStamp :: time_struct

text \<open>A structure cleared by \<^verbatim>\<open>memset\<close> or \<^verbatim>\<open>FTE_MEM_allocZero\<close>: type 0 is ULONG.\<close>

definition value_zero :: fte_value where
  "value_zero = \<lparr>xType = FTE_VALUE_TYPE_ULONG, bValid = False, bChanged = False, ulFailCount = 0,
     xData = 0, xTimeStamp = \<lparr>SECONDS = 0, MILLISECONDS = 0\<rparr>\<rparr>"

definition value_alloc :: "bool \<Rightarrow> fte_value option" where
  "value_alloc mem = (if mem then Some value_zero else None)"

section \<open>Creation\<close>

definition FTE_VALUE_createTemperature :: "bool \<Rightarrow> fte_value option" where
  "FTE_VALUE_createTemperature mem = do {
     v \<leftarrow> value_alloc mem;
     Some (v\<lparr>xType := FTE_VALUE_TYPE_TEMPERATURE, bValid := False, xData := 0\<rparr>)
   }"

definition FTE_VALUE_createHumidity :: "bool \<Rightarrow> fte_value option" where
  "FTE_VALUE_createHumidity mem = do {
     v \<leftarrow> value_alloc mem;
     Some (v\<lparr>xType := FTE_VALUE_TYPE_HUMIDITY, bValid := False, xData := 0\<rparr>)
   }"

definition FTE_VALUE_createDIO :: "bool \<Rightarrow> fte_value option" where
  "FTE_VALUE_createDIO mem = do {
     v \<leftarrow> value_alloc mem;
     Some (v\<lparr>xType := FTE_VALUE_TYPE_DIO, bValid := False, xData := 0\<rparr>)
   }"

definition FTE_VALUE_createPPM :: "bool \<Rightarrow> fte_value option" where
  "FTE_VALUE_createPPM mem = do {
     v \<leftarrow> value_alloc mem;
     Some (v\<lparr>xType := FTE_VALUE_TYPE_PPM, bValid := False, xData := 0\<rparr>)
   }"

definition FTE_VALUE_createPH :: "bool \<Rightarrow> fte_value option" where
  "FTE_VALUE_createPH mem = do {
     v \<leftarrow> value_alloc mem;
     Some (v\<lparr>xType := FTE_VALUE_TYPE_PH, bValid := False, xData := 0\<rparr>)
   }"

definition FTE_VALUE_createMM :: "bool \<Rightarrow> fte_value option" where
  "FTE_VALUE_createMM mem = do {
     v \<leftarrow> value_alloc mem;
     Some (v\<lparr>xType := FTE_VALUE_TYPE_MM, bValid := False, xData := 0\<rparr>)
   }"

definition FTE_VALUE_createULONG :: "bool \<Rightarrow> fte_value option" where
  "FTE_VALUE_createULONG mem = do {
     v \<leftarrow> value_alloc mem;
     Some (v\<lparr>xType := FTE_VALUE_TYPE_ULONG, bValid := False, xData := 0\<rparr>)
   }"

definition FTE_VALUE_createHex32 :: "bool \<Rightarrow> fte_value option" where
  "FTE_VALUE_createHex32 mem = do {
     v \<leftarrow> value_alloc mem;
     Some (v\<lparr>xType := FTE_VALUE_TYPE_HEX32, bValid := False, xData := 0\<rparr>)
   }"

definition FTE_VALUE_createVoltage :: "bool \<Rightarrow> fte_value option" where
  "FTE_VALUE_createVoltage mem = do {
     v \<leftarrow> value_alloc mem;
     Some (v\<lparr>xType := FTE_VALUE_TYPE_VOLTAGE, bValid := False, xData := 0\<rparr>)
   }"

definition FTE_VALUE_createCurrent :: "bool \<Rightarrow> fte_value option" where
  "FTE_VALUE_createCurrent mem = do {
     v \<leftarrow> value_alloc mem;
     Some (v\<lparr>xType := FTE_VALUE_TYPE_CURRENT, bValid := False, xData := 0\<rparr>)
   }"

definition FTE_VALUE_createPressure :: "bool \<Rightarrow> fte_value option" where
  "FTE_VALUE_createPressure mem = do {
     v \<leftarrow> value_alloc mem;
     Some (v\<lparr>xType := FTE_VALUE_TYPE_PRESSURE, bValid := False, xData := 0\<rparr>)
   }"

definition FTE_VALUE_createPowerKW :: "bool \<Rightarrow> fte_value option" where
  "FTE_VALUE_createPowerKW mem = do {
     v \<leftarrow> value_alloc mem;
     Some (v\<lparr>xType := FTE_VALUE_TYPE_PWR_KW, bValid := False, xData := 0\<rparr>)
   }"

definition FTE_VALUE_createPowerKWH :: "bool \<Rightarrow> fte_value option" where
  "FTE_VALUE_createPowerKWH mem = do {
     v \<leftarrow> value_alloc mem;
     Some (v\<lparr>xType := FTE_VALUE_TYPE_PWR_KWH, bValid := False, xData := 0\<rparr>)
   }"

definition FTE_VALUE_createLED :: "bool \<Rightarrow> fte_value option" where
  "FTE_VALUE_createLED mem = do {
     v \<leftarrow> value_alloc mem;
     Some (v\<lparr>xType := FTE_VALUE_TYPE_LED, xData := 0\<rparr>)
   }"

fun FTE_VALUE_create :: "fte_value_type \<Rightarrow> bool \<Rightarrow> fte_value option" where
  "FTE_VALUE_create FTE_VALUE_TYPE_ULONG = FTE_VALUE_createULONG"
| "FTE_VALUE_create FTE_VALUE_TYPE_TEMPERATURE = FTE_VALUE_createTemperature"
| "FTE_VALUE_create FTE_VALUE_TYPE_HUMIDITY = FTE_VALUE_createHumidity"
| "FTE_VALUE_create FTE_VALUE_TYPE_PPM = FTE_VALUE_createPPM"
| "FTE_VALUE_create FTE_VALUE_TYPE_PH = FTE_VALUE_createPH"
| "FTE_VALUE_create FTE_VALUE_TYPE_MM = FTE_VALUE_createMM"
| "FTE_VALUE_create FTE_VALUE_TYPE_BOOL = FTE_VALUE_createDIO"
| "FTE_VALUE_create FTE_VALUE_TYPE_DIO = FTE_VALUE_createDIO"
| "FTE_VALUE_create FTE_VALUE_TYPE_VOLTAGE = FTE_VALUE_createVoltage"
| "FTE_VALUE_create FTE_VALUE_TYPE_CURRENT = FTE_VALUE_createCurrent"
| "FTE_VALUE_create FTE_VALUE_TYPE_PRESSURE = FTE_VALUE_createPressure"
| "FTE_VALUE_create FTE_VALUE_TYPE_PWR_KW = FTE_VALUE_createPowerKW"
| "FTE_VALUE_create FTE_VALUE_TYPE_PWR_KWH = FTE_VALUE_createPowerKWH"
| "FTE_VALUE_create FTE_VALUE_TYPE_LED = FTE_VALUE_createLED"
| "FTE_VALUE_create FTE_VALUE_TYPE_HEX32 = FTE_VALUE_createHex32"
| "FTE_VALUE_create FTE_VALUE_TYPE_MAX = (\<lambda>mem. None)"

text \<open>The element count is the length of \<^verbatim>\<open>pTypes\<close>.\<close>

definition FTE_VALUE_createArray :: "fte_value_type list \<Rightarrow> bool \<Rightarrow> fte_value list option" where
  "FTE_VALUE_createArray pTypes mem =
     (if mem then Some (map (\<lambda>t. value_zero\<lparr>xType := t, bValid := False\<rparr>) pTypes) else None)"

definition FTE_VALUE_init :: "fte_value_type \<Rightarrow> fte_ret \<times> fte_value" where
  "FTE_VALUE_init t = (FTE_RET_OK, value_zero\<lparr>xType := t\<rparr>)"

definition FTE_VALUE_initTemperature :: "u32 \<Rightarrow> fte_ret \<times> fte_value" where
  "FTE_VALUE_initTemperature x = (FTE_RET_OK, value_zero\<lparr>xType := FTE_VALUE_TYPE_TEMPERATURE, xData := x\<rparr>)"

definition FTE_VALUE_initHumidity :: "u32 \<Rightarrow> fte_ret \<times> fte_value" where
  "FTE_VALUE_initHumidity x = (FTE_RET_OK, value_zero\<lparr>xType := FTE_VALUE_TYPE_HUMIDITY, xData := x\<rparr>)"

definition FTE_VALUE_initDIO :: "u32 \<Rightarrow> fte_ret \<times> fte_value" where
  "FTE_VALUE_initDIO x = (FTE_RET_OK, value_zero\<lparr>xType := FTE_VALUE_TYPE_DIO, xData := x\<rparr>)"

definition FTE_VALUE_initPPM :: "u32 \<Rightarrow> fte_ret \<times> fte_value" where
  "FTE_VALUE_initPPM x = (FTE_RET_OK, value_zero\<lparr>xType := FTE_VALUE_TYPE_PPM, xData := x\<rparr>)"

definition FTE_VALUE_initPH :: "u32 \<Rightarrow> fte_ret \<times> fte_value" where
  "FTE_VALUE_initPH x = (FTE_RET_OK, value_zero\<lparr>xType := FTE_VALUE_TYPE_PH, xData := x\<rparr>)"

definition FTE_VALUE_initULONG :: "u32 \<Rightarrow> fte_ret \<times> fte_value" where
  "FTE_VALUE_initULONG x = (FTE_RET_OK, value_zero\<lparr>xType := FTE_VALUE_TYPE_ULONG, xData := x\<rparr>)"

definition FTE_VALUE_initHex32 :: "u32 \<Rightarrow> fte_ret \<times> fte_value" where
  "FTE_VALUE_initHex32 x = (FTE_RET_OK, value_zero\<lparr>xType := FTE_VALUE_TYPE_HEX32, xData := x\<rparr>)"

definition FTE_VALUE_initVoltage :: "u32 \<Rightarrow> fte_ret \<times> fte_value" where
  "FTE_VALUE_initVoltage x = (FTE_RET_OK, value_zero\<lparr>xType := FTE_VALUE_TYPE_VOLTAGE, xData := x\<rparr>)"

definition FTE_VALUE_initCurrent :: "u32 \<Rightarrow> fte_ret \<times> fte_value" where
  "FTE_VALUE_initCurrent x = (FTE_RET_OK, value_zero\<lparr>xType := FTE_VALUE_TYPE_CURRENT, xData := x\<rparr>)"

definition FTE_VALUE_initPressure :: "u32 \<Rightarrow> fte_ret \<times> fte_value" where
  "FTE_VALUE_initPressure x = (FTE_RET_OK, value_zero\<lparr>xType := FTE_VALUE_TYPE_PRESSURE, xData := x\<rparr>)"

definition FTE_VALUE_initPowerKW :: "u32 \<Rightarrow> fte_ret \<times> fte_value" where
  "FTE_VALUE_initPowerKW x = (FTE_RET_OK, value_zero\<lparr>xType := FTE_VALUE_TYPE_PWR_KW, xData := x\<rparr>)"

definition FTE_VALUE_initPowerKWH :: "u32 \<Rightarrow> fte_ret \<times> fte_value" where
  "FTE_VALUE_initPowerKWH x = (FTE_RET_OK, value_zero\<lparr>xType := FTE_VALUE_TYPE_PWR_KWH, xData := x\<rparr>)"

definition FTE_VALUE_initLED :: "u32 \<Rightarrow> fte_ret \<times> fte_value" where
  "FTE_VALUE_initLED x = (FTE_RET_OK, value_zero\<lparr>xType := FTE_VALUE_TYPE_LED, xData := x\<rparr>)"

section \<open>Validity\<close>

definition FTE_VALUE_setValid :: "bool \<Rightarrow> fte_value \<Rightarrow> fte_ret \<times> fte_value" where
  "FTE_VALUE_setValid valid v =
     (if valid then (FTE_RET_OK, v\<lparr>ulFailCount := 0, bValid := True\<rparr>)
      else (let v = v\<lparr>ulFailCount := ulFailCount v + 1\<rparr> in
        if 3 \<le> ulFailCount v then (FTE_RET_OK, v\<lparr>bValid := False\<rparr>) else (FTE_RET_OK, v)))"

definition FTE_VALUE_isValid :: "fte_value \<Rightarrow> bool" where
  "FTE_VALUE_isValid v = bValid v"

section \<open>Parsing\<close>

text \<open>
  Double-precision arithmetic is a parameter: parsing, multiplication by a small
  constant, the two comparisons and the conversion to \<^verbatim>\<open>FTE_UINT32\<close> that the code
  uses.
\<close>

record 'd float_ops =
  strtod :: "string \<Rightarrow> 'd"
  fmul :: "'d \<Rightarrow> nat \<Rightarrow> 'd"
  fless0 :: "'d \<Rightarrow> bool"
  fgreater100 :: "'d \<Rightarrow> bool"
  fto_u32 :: "'d \<Rightarrow> u32"

text \<open>The switch of \<^verbatim>\<open>FTE_VALUE_set\<close>: the datum to store, or \<open>None\<close> for the jump to the
  error label.\<close>

fun value_parse :: "'d float_ops \<Rightarrow> fte_value_type \<Rightarrow> string \<Rightarrow> u32 option" where
  "value_parse fl FTE_VALUE_TYPE_ULONG s = Some (c_strtoul 10 s)"
| "value_parse fl FTE_VALUE_TYPE_HEX32 s = Some (c_strtoul 16 s)"
| "value_parse fl FTE_VALUE_TYPE_VOLTAGE s = Some (fto_u32 fl (fmul fl (strtod fl s) 1000))"
| "value_parse fl FTE_VALUE_TYPE_CURRENT s = Some (fto_u32 fl (fmul fl (strtod fl s) 1000))"
| "value_parse fl FTE_VALUE_TYPE_PWR_KW s = Some (fto_u32 fl (fmul fl (strtod fl s) 1000))"
| "value_parse fl FTE_VALUE_TYPE_PWR_KWH s = Some (fto_u32 fl (fmul fl (strtod fl s) 1000))"
| "value_parse fl FTE_VALUE_TYPE_PRESSURE s = Some (fto_u32 fl (fmul fl (strtod fl s) 10))"
| "value_parse fl FTE_VALUE_TYPE_BOOL s =
     (if c_caseeq s ''true'' \<or> c_caseeq s ''1'' then Some 1
      else if c_caseeq s ''false'' \<or> c_caseeq s ''0'' then Some 0 else None)"
| "value_parse fl FTE_VALUE_TYPE_TEMPERATURE s = Some (fto_u32 fl (fmul fl (strtod fl s) 100))"
| "value_parse fl FTE_VALUE_TYPE_HUMIDITY s =
     (let fValue = strtod fl s in
      if fless0 fl fValue \<or> fgreater100 fl fValue then None else Some (fto_u32 fl (fmul fl fValue 100)))"
| "value_parse fl FTE_VALUE_TYPE_PPM s =
     (let nValue = c_strtol 10 s in if sint nValue < 0 then None else Some nValue)"
| "value_parse fl FTE_VALUE_TYPE_PH s =
     (let nValue = c_strtol 10 s in if sint nValue < 0 then None else Some nValue)"
| "value_parse fl FTE_VALUE_TYPE_MM s =
     (let nValue = c_strtol 10 s in if sint nValue < 0 then None else Some nValue)"
| "value_parse fl FTE_VALUE_TYPE_DIO s =
     (if c_caseeq s ''on'' \<or> c_caseeq s ''1'' then Some 1
      else if c_caseeq s ''off'' \<or> c_caseeq s ''0'' then Some 0 else None)"
| "value_parse fl FTE_VALUE_TYPE_LED s =
     (if c_caseeq s ''on'' \<or> c_caseeq s ''1'' then Some 1
      else if c_caseeq s ''off'' \<or> c_caseeq s ''0'' then Some 0
      else if c_caseeq s ''blink'' \<or> c_caseeq s ''2'' then Some 2 else None)"
| "value_parse fl FTE_VALUE_TYPE_MAX s = None"

definition FTE_VALUE_set :: "'d float_ops \<Rightarrow> string \<Rightarrow> fte_value \<Rightarrow> fte_ret \<times> fte_value" where
  "FTE_VALUE_set fl pString v = (case value_parse fl (xType v) pString of
       Some d \<Rightarrow> (FTE_RET_OK, snd (FTE_VALUE_setValid True (v\<lparr>xData := d\<rparr>)))
     | None \<Rightarrow> (FTE_RET_ERROR, snd (FTE_VALUE_setValid False v)))"

section \<open>Typed access\<close>

text \<open>The setters differ in the union member they name only; \<open>now\<close> is \<^verbatim>\<open>_time_get\<close>.\<close>

definition FTE_VALUE_setTemperature :: "time_struct \<Rightarrow> u32 \<Rightarrow> fte_value \<Rightarrow> fte_ret \<times> fte_value" where
  "FTE_VALUE_setTemperature now x v =
     (let v = v\<lparr>bChanged := (xData v \<noteq> x)\<rparr>; v = v\<lparr>xData := x\<rparr>; v = snd (FTE_VALUE_setValid True v)
      in (FTE_RET_OK, v\<lparr>xTimeStamp := now\<rparr>))"

definition FTE_VALUE_getTemperature :: "fte_value \<Rightarrow> fte_ret \<times> u32" where
  "FTE_VALUE_getTemperature v = (FTE_RET_OK, xData v)"

definition FTE_VALUE_setHumidity :: "time_struct \<Rightarrow> u32 \<Rightarrow> fte_value \<Rightarrow> fte_ret \<times> fte_value" where
  "FTE_VALUE_setHumidity now x v =
     (let v = v\<lparr>bChanged := (xData v \<noteq> x)\<rparr>; v = v\<lparr>xData := x\<rparr>; v = snd (FTE_VALUE_setValid True v)
      in (FTE_RET_OK, v\<lparr>xTimeStamp := now\<rparr>))"

definition FTE_VALUE_getHumidity :: "fte_value \<Rightarrow> fte_ret \<times> u32" where
  "FTE_VALUE_getHumidity v = (FTE_RET_OK, xData v)"

definition FTE_VALUE_setDIO :: "time_struct \<Rightarrow> u32 \<Rightarrow> fte_value \<Rightarrow> fte_ret \<times> fte_value" where
  "FTE_VALUE_setDIO now x v =
     (let v = v\<lparr>bChanged := (xData v \<noteq> x)\<rparr>; v = v\<lparr>xData := x\<rparr>; v = snd (FTE_VALUE_setValid True v)
      in (FTE_RET_OK, v\<lparr>xTimeStamp := now\<rparr>))"

definition FTE_VALUE_getDIO :: "fte_value \<Rightarrow> fte_ret \<times> u32" where
  "FTE_VALUE_getDIO v = (FTE_RET_OK, xData v)"

definition FTE_VALUE_setPPM :: "time_struct \<Rightarrow> u32 \<Rightarrow> fte_value \<Rightarrow> fte_ret \<times> fte_value" where
  "FTE_VALUE_setPPM now x v =
     (let v = v\<lparr>bChanged := (xData v \<noteq> x)\<rparr>; v = v\<lparr>xData := x\<rparr>; v = snd (FTE_VALUE_setValid True v)
      in (FTE_RET_OK, v\<lparr>xTimeStamp := now\<rparr>))"

definition FTE_VALUE_getPPM :: "fte_value \<Rightarrow> fte_ret \<times> u32" where
  "FTE_VALUE_getPPM v = (FTE_RET_OK, xData v)"

definition FTE_VALUE_setPH :: "time_struct \<Rightarrow> u32 \<Rightarrow> fte_value \<Rightarrow> fte_ret \<times> fte_value" where
  "FTE_VALUE_setPH now x v =
     (let v = v\<lparr>bChanged := (xData v \<noteq> x)\<rparr>; v = v\<lparr>xData := x\<rparr>; v = snd (FTE_VALUE_setValid True v)
      in (FTE_RET_OK, v\<lparr>xTimeStamp := now\<rparr>))"

definition FTE_VALUE_getPH :: "fte_value \<Rightarrow> fte_ret \<times> u32" where
  "FTE_VALUE_getPH v = (FTE_RET_OK, xData v)"

definition FTE_VALUE_setMM :: "time_struct \<Rightarrow> u32 \<Rightarrow> fte_value \<Rightarrow> fte_ret \<times> fte_value" where
  "FTE_VALUE_setMM now x v =
     (let v = v\<lparr>bChanged := (xData v \<noteq> x)\<rparr>; v = v\<lparr>xData := x\<rparr>; v = snd (FTE_VALUE_setValid True v)
      in (FTE_RET_OK, v\<lparr>xTimeStamp := now\<rparr>))"

definition FTE_VALUE_getMM :: "fte_value \<Rightarrow> fte_ret \<times> u32" where
  "FTE_VALUE_getMM v = (FTE_RET_OK, xData v)"

definition FTE_VALUE_setULONG :: "time_struct \<Rightarrow> u32 \<Rightarrow> fte_value \<Rightarrow> fte_ret \<times> fte_value" where
  "FTE_VALUE_setULONG now x v =
     (let v = v\<lparr>bChanged := (xData v \<noteq> x)\<rparr>; v = v\<lparr>xData := x\<rparr>; v = snd (FTE_VALUE_setValid True v)
      in (FTE_RET_OK, v\<lparr>xTimeStamp := now\<rparr>))"

definition FTE_VALUE_getULONG :: "fte_value \<Rightarrow> fte_ret \<times> u32" where
  "FTE_VALUE_getULONG v = (FTE_RET_OK, xData v)"

definition FTE_VALUE_setVoltage :: "time_struct \<Rightarrow> u32 \<Rightarrow> fte_value \<Rightarrow> fte_ret \<times> fte_value" where
  "FTE_VALUE_setVoltage now x v =
     (let v = v\<lparr>bChanged := (xData v \<noteq> x)\<rparr>; v = v\<lparr>xData := x\<rparr>; v = snd (FTE_VALUE_setValid True v)
      in (FTE_RET_OK, v\<lparr>xTimeStamp := now\<rparr>))"

definition FTE_VALUE_getVoltage :: "fte_value \<Rightarrow> fte_ret \<times> u32" where
  "FTE_VALUE_getVoltage v = (FTE_RET_OK, xData v)"

definition FTE_VALUE_setCurrent :: "time_struct \<Rightarrow> u32 \<Rightarrow> fte_value \<Rightarrow> fte_ret \<times> fte_value" where
  "FTE_VALUE_setCurrent now x v =
     (let v = v\<lparr>bChanged := (xData v \<noteq> x)\<rparr>; v = v\<lparr>xData := x\<rparr>; v = snd (FTE_VALUE_setValid True v)
      in (FTE_RET_OK, v\<lparr>xTimeStamp := now\<rparr>))"

definition FTE_VALUE_getCurrent :: "fte_value \<Rightarrow> fte_ret \<times> u32" where
  "FTE_VALUE_getCurrent v = (FTE_RET_OK, xData v)"

definition FTE_VALUE_setPressure :: "time_struct \<Rightarrow> u32 \<Rightarrow> fte_value \<Rightarrow> fte_ret \<times> fte_value" where
  "FTE_VALUE_setPressure now x v =
     (let v = v\<lparr>bChanged := (xData v \<noteq> x)\<rparr>; v = v\<lparr>xData := x\<rparr>; v = snd (FTE_VALUE_setValid True v)
      in (FTE_RET_OK, v\<lparr>xTimeStamp := now\<rparr>))"

definition FTE_VALUE_getPressure :: "fte_value \<Rightarrow> fte_ret \<times> u32" where
  "FTE_VALUE_getPressure v = (FTE_RET_OK, xData v)"

definition FTE_VALUE_setPowerKW :: "time_struct \<Rightarrow> u32 \<Rightarrow> fte_value \<Rightarrow> fte_ret \<times> fte_value" where
  "FTE_VALUE_setPowerKW now x v =
     (let v = v\<lparr>bChanged := (xData v \<noteq> x)\<rparr>; v = v\<lparr>xData := x\<rparr>; v = snd (FTE_VALUE_setValid True v)
      in (FTE_RET_OK, v\<lparr>xTimeStamp := now\<rparr>))"

definition FTE_VALUE_getPowerKW :: "fte_value \<Rightarrow> fte_ret \<times> u32" where
  "FTE_VALUE_getPowerKW v = (FTE_RET_OK, xData v)"

definition FTE_VALUE_setPowerKWH :: "time_struct \<Rightarrow> u32 \<Rightarrow> fte_value \<Rightarrow> fte_ret \<times> fte_value" where
  "FTE_VALUE_setPowerKWH now x v =
     (let v = v\<lparr>bChanged := (xData v \<noteq> x)\<rparr>; v = v\<lparr>xData := x\<rparr>; v = snd (FTE_VALUE_setValid True v)
      in (FTE_RET_OK, v\<lparr>xTimeStamp := now\<rparr>))"

definition FTE_VALUE_getPowerKWH :: "fte_value \<Rightarrow> fte_ret \<times> u32" where
  "FTE_VALUE_getPowerKWH v = (FTE_RET_OK, xData v)"

definition FTE_VALUE_setLED :: "time_struct \<Rightarrow> u32 \<Rightarrow> fte_value \<Rightarrow> fte_ret \<times> fte_value" where
  "FTE_VALUE_setLED now x v =
     (let v = v\<lparr>bChanged := (xData v \<noteq> x)\<rparr>; v = v\<lparr>xData := x\<rparr>; v = snd (FTE_VALUE_setValid True v)
      in (FTE_RET_OK, v\<lparr>xTimeStamp := now\<rparr>))"

definition FTE_VALUE_getLED :: "fte_value \<Rightarrow> fte_ret \<times> u32" where
  "FTE_VALUE_getLED v = (FTE_RET_OK, xData v)"

definition FTE_VALUE_getTimeStamp :: "fte_value \<Rightarrow> fte_ret \<times> time_struct" where
  "FTE_VALUE_getTimeStamp v = (FTE_RET_OK, xTimeStamp v)"

definition FTE_VALUE_copy :: "fte_value \<Rightarrow> fte_value \<Rightarrow> fte_ret \<times> fte_value" where
  "FTE_VALUE_copy dest src = (FTE_RET_OK, src)"

section \<open>Printing\<close>

text \<open>The format and arguments of each case: \<open>None\<close> where the switch has none.  The
  unsigned quotients are passed to \<^verbatim>\<open>%d\<close>, which reads them as signed.\<close>

abbreviation i32 :: "u32 \<Rightarrow> int" where "i32 \<equiv> sint"

definition c_abs :: "u32 \<Rightarrow> u32" where
  "c_abs w = (if i32 w < 0 then - w else w)"

fun value_text :: "fte_value_type \<Rightarrow> u32 \<Rightarrow> string option" where
  "value_text FTE_VALUE_TYPE_TEMPERATURE x =
     Some (fmt_d (c_quot (i32 x) 100) @ ''.'' @ fmt_d (c_quot (c_rem (i32 (c_abs x)) 100) 10))"
| "value_text FTE_VALUE_TYPE_HUMIDITY x =
     Some (fmt_d (i32 (x div 100)) @ ''.'' @ fmt_d (i32 (x mod 100 div 10)))"
| "value_text FTE_VALUE_TYPE_DIO x = Some (if x \<noteq> 0 then ''1'' else ''0'')"
| "value_text FTE_VALUE_TYPE_LED x =
     Some (if x = 0 then ''off'' else if x = 1 then ''on'' else if x = 2 then ''blink'' else fmt_d (i32 x))"
| "value_text FTE_VALUE_TYPE_VOLTAGE x =
     Some (if x < 1000 then fmt_d (i32 (x div 1000)) @ ''.'' @ fmt_0d 2 (i32 (x mod 1000 div 10))
       else fmt_d (i32 (x div 1000)) @ ''.'' @ fmt_d (i32 (x mod 1000 div 100)))"
| "value_text FTE_VALUE_TYPE_CURRENT x =
     Some (if x < 1000 then fmt_d (i32 (x div 1000)) @ ''.'' @ fmt_0d 2 (i32 (x mod 1000 div 10))
       else fmt_d (i32 (x div 1000)) @ ''.'' @ fmt_d (i32 (x mod 1000 div 100)))"
| "value_text FTE_VALUE_TYPE_PWR_KW x =
     Some (if x < 1000 then fmt_d (i32 (x div 1000)) @ ''.'' @ fmt_0d 3 (i32 (x mod 1000))
       else fmt_d (i32 (x div 1000)) @ ''.'' @ fmt_0d 2 (i32 (x mod 1000 div 10)))"
| "value_text FTE_VALUE_TYPE_PWR_KWH x =
     Some (if x < 1000 then fmt_d (i32 (x div 1000)) @ ''.'' @ fmt_0d 3 (i32 (x mod 1000))
       else fmt_d (i32 (x div 1000)) @ ''.'' @ fmt_0d 2 (i32 (x mod 1000 div 10)))"
| "value_text FTE_VALUE_TYPE_PPM x = Some (fmt_d (i32 x))"
| "value_text FTE_VALUE_TYPE_ULONG x = Some (fmt_d (i32 x))"
| "value_text FTE_VALUE_TYPE_PH x =
     Some (fmt_d (i32 (x div 100)) @ ''.'' @ fmt_0d 2 (i32 (x mod 100)))"
| "value_text FTE_VALUE_TYPE_MM x =
     Some (fmt_d (i32 (x div 100)) @ ''.'' @ fmt_0d 2 (i32 (x mod 100)))"
| "value_text FTE_VALUE_TYPE_HEX32 x = Some (''0x'' @ fmt_0x 8 x)"
| "value_text FTE_VALUE_TYPE_PRESSURE x =
     Some (if x < 1000 then fmt_d (i32 (x div 1000)) @ ''.'' @ fmt_0d 3 (i32 (x mod 1000))
       else fmt_d (i32 (x div 1000)) @ ''.'' @ fmt_0d 2 (i32 (x mod 1000 div 10)))"
| "value_text FTE_VALUE_TYPE_BOOL x = None"
| "value_text FTE_VALUE_TYPE_MAX x = None"

text \<open>The contents of the caller's buffer after the call; \<open>None\<close>: it was not written.\<close>

definition FTE_VALUE_toString :: "fte_value \<Rightarrow> u32 \<Rightarrow> string option" where
  "FTE_VALUE_toString v ulLen =
     (if \<not> bValid v then c_snprintf ulLen ''N/A''
      else Option.bind (value_text (xType v) (xData v)) (c_snprintf ulLen))"

definition FTE_VALUE_unit :: "fte_value \<Rightarrow> u32 \<Rightarrow> string option" where
  "FTE_VALUE_unit v ulLen = c_snprintf ulLen (case xType v of
       FTE_VALUE_TYPE_TEMPERATURE \<Rightarrow> ''C''
     | FTE_VALUE_TYPE_HUMIDITY \<Rightarrow> CHR 0x25 # '' RH''
     | FTE_VALUE_TYPE_VOLTAGE \<Rightarrow> ''V''
     | FTE_VALUE_TYPE_CURRENT \<Rightarrow> ''A''
     | FTE_VALUE_TYPE_PWR_KWH \<Rightarrow> ''kWh''
     | FTE_VALUE_TYPE_PWR_KW \<Rightarrow> ''kW''
     | FTE_VALUE_TYPE_PPM \<Rightarrow> ''PPM''
     | FTE_VALUE_TYPE_PH \<Rightarrow> ''PH''
     | FTE_VALUE_TYPE_MM \<Rightarrow> ''MM''
     | FTE_VALUE_TYPE_PRESSURE \<Rightarrow> ''kgf''
     | _ \<Rightarrow> [])"

definition FTE_VALUE_printTimeStamp :: "fte_value \<Rightarrow> string" where
  "FTE_VALUE_printTimeStamp v = the (c_snprintf 16 (fmt_d (i32 (SECONDS (xTimeStamp v)))))"

section \<open>Comparison and narrowing\<close>

text \<open>The first test compares the first value's type with itself.\<close>

definition FTE_VALUE_equal :: "fte_value \<Rightarrow> fte_value \<Rightarrow> bool" where
  "FTE_VALUE_equal v1 v2 =
     (if xType v1 \<noteq> xType v1 then False
      else case xType v1 of
        FTE_VALUE_TYPE_BOOL \<Rightarrow> False
      | FTE_VALUE_TYPE_MAX \<Rightarrow> False
      | _ \<Rightarrow> xData v1 = xData v2)"

text \<open>The result is \<open>None\<close> where the switch has no case and \<^verbatim>\<open>*pValue\<close> stays as it was.\<close>

definition FTE_VALUE_toINT16 :: "fte_value \<Rightarrow> fte_ret \<times> u16 option" where
  "FTE_VALUE_toINT16 v = (FTE_RET_OK,
     if \<not> bValid v then Some 0
     else case xType v of
       FTE_VALUE_TYPE_TEMPERATURE \<Rightarrow> Some (ucast (xData v))
     | FTE_VALUE_TYPE_HUMIDITY \<Rightarrow> Some (ucast (xData v))
     | FTE_VALUE_TYPE_PRESSURE \<Rightarrow> Some (ucast (xData v))
     | FTE_VALUE_TYPE_DIO \<Rightarrow> Some (ucast (xData v))
     | FTE_VALUE_TYPE_LED \<Rightarrow> Some (ucast (xData v))
     | FTE_VALUE_TYPE_VOLTAGE \<Rightarrow> Some (ucast (xData v div 10))
     | FTE_VALUE_TYPE_CURRENT \<Rightarrow> Some (ucast (xData v div 10))
     | FTE_VALUE_TYPE_PWR_KW \<Rightarrow> Some (ucast (xData v div 10))
     | FTE_VALUE_TYPE_PWR_KWH \<Rightarrow> Some (ucast (xData v div 10))
     | FTE_VALUE_TYPE_PPM \<Rightarrow> Some (ucast (xData v))
     | FTE_VALUE_TYPE_PH \<Rightarrow> Some (ucast (xData v))
     | FTE_VALUE_TYPE_MM \<Rightarrow> Some (ucast (xData v))
     | FTE_VALUE_TYPE_ULONG \<Rightarrow> Some (ucast (xData v))
     | FTE_VALUE_TYPE_HEX32 \<Rightarrow> Some (ucast (xData v))
     | FTE_VALUE_TYPE_BOOL \<Rightarrow> None
     | FTE_VALUE_TYPE_MAX \<Rightarrow> None)"

section \<open>Lemmas\<close>

lemma setValid_simps:
  "snd (FTE_VALUE_setValid True v) = v\<lparr>ulFailCount := 0, bValid := True\<rparr>"
  "ulFailCount (snd (FTE_VALUE_setValid False v)) = ulFailCount v + 1"
  "bValid (snd (FTE_VALUE_setValid False v)) = (bValid v \<and> \<not> 3 \<le> ulFailCount v + 1)"
  "xData (snd (FTE_VALUE_setValid b v)) = xData v" "xType (snd (FTE_VALUE_setValid b v)) = xType v"
  by (simp_all add: FTE_VALUE_setValid_def Let_def)

text \<open>The reports a driver makes on one value, in order.\<close>

definition valid_run :: "bool list \<Rightarrow> fte_value \<Rightarrow> fte_value" where
  "valid_run bs v = foldl (\<lambda>v b. snd (FTE_VALUE_setValid b v)) v bs"

definition recent_failures :: "bool list \<Rightarrow> nat" where
  "recent_failures bs = length (takeWhile Not (rev bs))"

lemma valid_run_state:
  "ulFailCount (valid_run bs (snd (FTE_VALUE_init t))) = of_nat (recent_failures bs)
   \<and> bValid (valid_run bs (snd (FTE_VALUE_init t))) = (True \<in> set bs \<and> recent_failures bs < 3)"
proof (induction bs rule: rev_induct)
  case Nil
  then show ?case by (simp add: valid_run_def FTE_VALUE_init_def value_zero_def recent_failures_def)
next
  case (snoc b bs)
  let ?v = "valid_run bs (snd (FTE_VALUE_init t))" and ?n = "recent_failures bs"
  have run: "valid_run (bs @ [b]) (snd (FTE_VALUE_init t)) = snd (FTE_VALUE_setValid b ?v)"
    by (simp add: valid_run_def)
  show ?case
  proof (cases b)
    case True
    then show ?thesis unfolding run by (simp add: setValid_simps recent_failures_def)
  next
    case False
    have rf: "recent_failures (bs @ [b]) = Suc ?n" using False by (simp add: recent_failures_def)
    have n: "ulFailCount ?v = of_nat ?n" "bValid ?v = (True \<in> set bs \<and> ?n < 3)" using snoc by auto
    have "(True \<in> set bs \<and> ?n < 3 \<and> \<not> 3 \<le> (of_nat ?n + 1 :: u32)) = (True \<in> set bs \<and> Suc ?n < 3)"
    proof (cases "?n < 3")
      case True
      then have "?n = 0 \<or> ?n = 1 \<or> ?n = 2" by auto
      then show ?thesis by (auto simp: word_le_nat_alt)
    qed simp
    then show ?thesis unfolding run rf using False n
      by (simp add: setValid_simps add.commute)
  qed
qed

lemma strtol_fmt_d:
  assumes "0 \<le> sint (w :: u32)"
  shows "c_strtol 10 (fmt_d (sint w)) = w"
proof -
  have b: "nat (sint w) < 2 ^ 31" using sint_less [of w] assms by auto
  have d: "\<forall>c\<in>set (num_string 10 n). is_digit 10 c" for n by (rule num_string_digits) simp_all
  have m: "c_magnitude 10 (num_string 10 n) = n" for n using c_magnitude_digits [OF d] by simp
  have "c_strtol 10 (num_string 10 (nat (sint w))) = of_nat (nat (sint w))"
    using b by (simp add: c_strtol_def c_sign_digits [OF d] m)
  then show ?thesis using assms by (simp add: fmt_d_def)
qed

lemma fmt_d_short:
  assumes "\<bar>i\<bar> < 10 ^ k" "0 < k"
  shows "length (fmt_d i) \<le> (if i < 0 then Suc k else k)"
proof -
  have "nat (- i) < 10 ^ k \<or> 0 \<le> i" "nat i < 10 ^ k \<or> i < 0" using assms(1) by auto
  then have "i < 0 \<Longrightarrow> length (num_string 10 (nat (- i))) \<le> k" "0 \<le> i \<Longrightarrow> length (num_string 10 (nat i)) \<le> k"
    using assms(2) by (auto intro!: num_string_length)
  then show ?thesis by (simp add: fmt_d_def)
qed

text \<open>A quotient by at least two is non-negative when read as signed.\<close>

lemma sint_div:
  fixes x :: u32
  assumes "2 \<le> unat d"
  shows "sint (x div d) = int (unat x div unat d)"
proof -
  have "unat x div unat d \<le> unat x div 2" using assms by (simp add: div_le_mono2)
  also have "unat x < 2 ^ 32" by (rule unat_less_32)
  then have "unat x div 2 < 2 ^ 31" by auto
  finally have "unat (x div d) < 2 ^ 31" by (simp add: unat_div)
  then show ?thesis by (simp only: sint_small) (simp add: unat_div)
qed

lemma sint_mod_div:
  fixes x :: u32
  assumes "0 < unat d" "unat d \<le> 1000" "0 < unat e"
  shows "sint (x mod d div e) = int (unat x mod unat d div unat e)" "sint (x mod d) = int (unat x mod unat d)"
proof -
  have "unat x mod unat d < 1000" using assms by (meson mod_less_divisor less_le_trans)
  moreover have "unat x mod unat d div unat e \<le> unat x mod unat d" by simp
  ultimately have "unat x mod unat d div unat e < 1000" "unat x mod unat d < 1000" by linarith+
  then have "unat x mod unat d div unat e < 2 ^ 31" "unat x mod unat d < 2 ^ 31" by auto
  then have "unat (x mod d div e) < 2 ^ 31" "unat (x mod d) < 2 ^ 31"
    by (simp_all add: unat_div unat_mod)
  then show "sint (x mod d div e) = int (unat x mod unat d div unat e)"
    "sint (x mod d) = int (unat x mod unat d)"
    by (simp_all only: sint_small) (simp_all add: unat_div unat_mod)
qed

lemma fmt_0d_length:
  assumes "i < 10 ^ k" "0 < k"
  shows "length (fmt_0d k (int i)) = k"
proof -
  have "length (num_string 10 i) \<le> k" using assms by (intro num_string_length) simp_all
  then show ?thesis by (simp add: fmt_0d_def zero_pad_def)
qed

lemma fmt_d_nat_length:
  assumes "i < 10 ^ k" "0 < k"
  shows "length (fmt_d (int i)) \<le> k"
  using fmt_d_short [of "int i" k] assms by (auto simp flip: of_nat_less_iff)

lemma quotient_length:
  fixes x d :: u32
  assumes "2 \<le> unat d" "2 ^ 32 \<le> unat d * 10 ^ k" "0 < k"
  shows "length (fmt_d (sint (x div d))) \<le> k"
proof -
  have "unat x < unat d * 10 ^ k" using unat_less_32 [of x] assms(2) by linarith
  then have "unat x div unat d < 10 ^ k" by (simp add: less_mult_imp_div_less mult.commute)
  then show ?thesis using assms by (simp only: sint_div fmt_d_nat_length)
qed

lemma c_quot_bound:
  assumes "0 < b" "\<bar>a\<bar> < b * c"
  shows "\<bar>c_quot a b\<bar> < c"
proof -
  have "n div b < c" if "n < b * c" for n :: int
  proof (rule ccontr)
    assume "\<not> n div b < c"
    then have "b * c \<le> b * (n div b)" using assms(1) by (intro mult_left_mono) simp_all
    also have "\<dots> \<le> n" using mult_div_mod_eq [of b n] pos_mod_sign [OF assms(1), of n] by linarith
    finally show False using that by simp
  qed
  note lt = this
  show ?thesis
  proof (cases "a < 0")
    case True
    then have "0 \<le> (- a) div b" "(- a) div b < c" using assms lt [of "- a"] by (simp_all add: pos_imp_zdiv_nonneg_iff)
    then show ?thesis using True by (simp only: c_quot_def if_True abs_minus_cancel abs_of_nonneg)
  next
    case False
    then have "0 \<le> a div b" "a div b < c" using assms lt [of a] by (simp_all add: pos_imp_zdiv_nonneg_iff)
    then show ?thesis using False by (simp only: c_quot_def if_False abs_of_nonneg)
  qed
qed

lemma c_rem_bound:
  assumes "0 < b"
  shows "\<bar>c_rem a b\<bar> < b"
proof (cases "a < 0")
  case True
  have "c_rem a b = - ((- a) mod b)" using True by (simp add: c_rem_def c_quot_def minus_mult_div_eq_mod [symmetric])
  then show ?thesis using pos_mod_bound [OF assms, of "- a"] pos_mod_sign [OF assms, of "- a"] by simp
next
  case False
  have "c_rem a b = a mod b" using False by (simp add: c_rem_def c_quot_def minus_mult_div_eq_mod)
  then show ?thesis using pos_mod_bound [OF assms, of a] pos_mod_sign [OF assms, of a] by simp
qed

lemma temperature_length:
  "length (fmt_d (c_quot (sint (x :: u32)) 100)) \<le> 9"
  "length (fmt_d (c_quot (c_rem i 100) 10)) \<le> 2"
proof -
  have "\<bar>sint x\<bar> < 100 * 10 ^ 8" using sint_greater_eq [of x] sint_less [of x] by auto
  then have "\<bar>c_quot (sint x) 100\<bar> < 10 ^ 8" by (intro c_quot_bound) simp_all
  from fmt_d_short [OF this] show "length (fmt_d (c_quot (sint x) 100)) \<le> 9" by (simp split: if_splits)
  have "\<bar>c_rem i 100\<bar> < 10 * 10 ^ 1" using c_rem_bound [of 100 i] by simp
  then have "\<bar>c_quot (c_rem i 100) 10\<bar> < 10 ^ 1" by (intro c_quot_bound) simp_all
  from fmt_d_short [OF this] show "length (fmt_d (c_quot (c_rem i 100) 10)) \<le> 2" by (simp split: if_splits)
qed

lemma remainder_lengths:
  fixes x :: u32
  shows "length (fmt_d (sint (x mod 100 div 10))) \<le> 1" "length (fmt_d (sint (x mod 1000 div 100))) \<le> 1"
    "length (fmt_0d 2 (sint (x mod 1000 div 10))) = 2" "length (fmt_0d 3 (sint (x mod 1000))) = 3"
    "length (fmt_0d 2 (sint (x mod 100))) = 2"
proof -
  have "unat x mod 100 div 10 < 10" "unat x mod 1000 div 100 < 10" "unat x mod 1000 div 10 < 100"
    by (simp_all add: less_mult_imp_div_less)
  then show "length (fmt_d (sint (x mod 100 div 10))) \<le> 1" "length (fmt_d (sint (x mod 1000 div 100))) \<le> 1"
    "length (fmt_0d 2 (sint (x mod 1000 div 10))) = 2" "length (fmt_0d 3 (sint (x mod 1000))) = 3"
    "length (fmt_0d 2 (sint (x mod 100))) = 2"
    by (simp_all add: sint_mod_div(1) sint_mod_div(2) [where e = 1] fmt_d_nat_length fmt_0d_length)
qed

lemma value_text_length:
  assumes "value_text t x = Some s"
  shows "length s \<le> 12"
proof -
  have q: "length (fmt_d (sint (x div 100))) \<le> 8" "length (fmt_d (sint (x div 1000))) \<le> 7"
    by (rule quotient_length; simp)+
  have "length (fmt_d (c_quot (sint x) 100)) + length (fmt_d (c_quot (c_rem (sint (c_abs x)) 100) 10)) \<le> 11"
    using temperature_length(1) [of x] temperature_length(2) [of "sint (c_abs x)"] by linarith
  then show ?thesis
    using assms q remainder_lengths [of x] fmt_d_length [of x] fmt_0x_length [of x]
    by (cases t) (auto split: if_splits)
qed

text \<open>Parsing stops at the decimal point.\<close>

lemma strtol_point:
  assumes "n < 2 ^ 31"
  shows "c_strtol 10 (fmt_d (int n) @ CHR ''.'' # r) = of_nat n"
proof -
  let ?ds = "num_string 10 n"
  have d: "\<forall>c\<in>set ?ds. is_digit 10 c" by (rule num_string_digits) simp_all
  obtain c cs where ds: "?ds = c # cs" by (cases ?ds) auto
  have c: "is_digit 16 c" using d ds is_digit_mono [of 10 c 16] by simp
  have "c_sign (dropWhile c_space (?ds @ CHR ''.'' # r)) = (False, ?ds @ CHR ''.'' # r)"
    using digit_not_sign [OF c] ds by (simp add: c_sign_def)
  moreover have "c_prefix 10 (?ds @ CHR ''.'' # r) = ?ds @ CHR ''.'' # r"
    by (simp add: c_prefix_def split: list.splits)
  moreover have "takeWhile (is_digit 10) (?ds @ CHR ''.'' # r) = ?ds"
    using d by (subst takeWhile_append2) (simp_all add: is_digit_def digit_val_def)
  ultimately have "c_strtol 10 (?ds @ CHR ''.'' # r) = of_nat n"
    using assms by (simp add: c_strtol_def c_magnitude_def)
  then show ?thesis by (simp add: fmt_d_def)
qed

lemma toString_value:
  assumes "bValid v" "13 \<le> unat n" "value_text (xType v) (xData v) = Some s"
  shows "FTE_VALUE_toString v n = Some s"
  using assms value_text_length [OF assms(3)] by (simp add: FTE_VALUE_toString_def c_snprintf_fits)

section \<open>Properties\<close>

text \<open>
  C32: Validity is a filter over the reports of a driver: after any history of
  good and bad reports the value is valid exactly when there has been a good report
  and fewer than three bad ones followed the last good one.  The failure counter may
  wrap; the verdict does not.
\<close>

theorem FTE_VALUE_valid_filter:
  "FTE_VALUE_isValid (valid_run bs (snd (FTE_VALUE_init t)))
   \<longleftrightarrow> True \<in> set bs \<and> recent_failures bs < 3"
  using valid_run_state [of bs t] by (simp add: FTE_VALUE_isValid_def)

text \<open>
  C30: A valid value printed into a buffer of 13 bytes is read back by
  \<^verbatim>\<open>FTE_VALUE_set\<close> as the same datum: for every word of the types ULONG (printed
  signed) and HEX32, for non-negative PPM values, and for the defined states of DIO
  and LED values.
\<close>

theorem FTE_VALUE_print_parse:
  assumes "bValid v" "13 \<le> unat n" "xType v' = xType v"
    and "xType v = FTE_VALUE_TYPE_ULONG \<or> xType v = FTE_VALUE_TYPE_HEX32
       \<or> (xType v = FTE_VALUE_TYPE_PPM \<and> 0 \<le> sint (xData v))
       \<or> (xType v = FTE_VALUE_TYPE_DIO \<and> xData v \<in> {0, 1})
       \<or> (xType v = FTE_VALUE_TYPE_LED \<and> xData v \<in> {0, 1, 2})"
  shows "\<exists>s. FTE_VALUE_toString v n = Some s
    \<and> FTE_VALUE_set fl s v' = (FTE_RET_OK, v'\<lparr>xData := xData v, ulFailCount := 0, bValid := True\<rparr>)"
proof -
  have "\<exists>s. value_text (xType v) (xData v) = Some s \<and> value_parse fl (xType v) s = Some (xData v)"
    using assms(4) strtoul_fmt_d [of "xData v"] strtoul_fmt_0x [of "xData v"] strtol_fmt_d [of "xData v"]
    by (elim disjE conjE) (auto simp: c_caseeq_def c_tolower_def)
  then show ?thesis
    using toString_value [OF assms(1,2)] assms(3)
    by (auto simp: FTE_VALUE_set_def setValid_simps)
qed

text \<open>An instance of the arithmetic that keeps whole numbers, for the witnesses.\<close>

definition int_float_ops :: "int float_ops" where
  "int_float_ops = \<lparr>strtod = (\<lambda>s. sint (c_strtol 10 s)), fmul = (\<lambda>d k. d * int k),
     fless0 = (\<lambda>d. d < 0), fgreater100 = (\<lambda>d. 100 < d), fto_u32 = of_int\<rparr>"

theorem FTE_VALUE_print_parse_witness:
  "\<exists>s. FTE_VALUE_toString (value_zero\<lparr>bValid := True, xData := 0xFFFFFF85\<rparr>) 32 = Some s
    \<and> FTE_VALUE_set int_float_ops s value_zero
      = (FTE_RET_OK, value_zero\<lparr>xData := 0xFFFFFF85, ulFailCount := 0, bValid := True\<rparr>)"
  using FTE_VALUE_print_parse [of "value_zero\<lparr>bValid := True, xData := 0xFFFFFF85\<rparr>" 32 value_zero int_float_ops]
  by (simp add: value_zero_def)

text \<open>
  Printing stays inside the caller's buffer: with a non-empty buffer the text and
  its terminator fit, a buffer of 13 bytes never truncates any value of any type, and an
  empty buffer is not written.
\<close>

lemma FTE_VALUE_toString_bounds:
  "(\<forall>s. FTE_VALUE_toString v n = Some s \<longrightarrow> length s < unat n \<and> length s \<le> 12)
   \<and> (n = 0 \<longrightarrow> FTE_VALUE_toString v n = None)
   \<and> (13 \<le> unat n \<longrightarrow> bValid v \<longrightarrow> FTE_VALUE_toString v n = value_text (xType v) (xData v))"
proof (intro conjI allI impI)
  fix s assume "FTE_VALUE_toString v n = Some s"
  then obtain r where r: "c_snprintf n r = Some s" "length r \<le> 12"
    by (auto simp: FTE_VALUE_toString_def Option.bind_eq_Some_conv dest: value_text_length split: if_splits)
  then show "length s < unat n" by (intro c_snprintf_bound)
  show "length s \<le> 12" using r by (auto simp: c_snprintf_def split: if_splits)
next
  assume "n = 0"
  then show "FTE_VALUE_toString v n = None"
    by (cases "value_text (xType v) (xData v)") (simp_all add: FTE_VALUE_toString_def c_snprintf_def)
next
  assume "13 \<le> unat n" "bValid v"
  then show "FTE_VALUE_toString v n = value_text (xType v) (xData v)"
    using toString_value [of v n]
    by (cases "value_text (xType v) (xData v)") (simp_all add: FTE_VALUE_toString_def)
qed

lemma FTE_VALUE_toString_bounds_witness:
  "length ''-21474836.4'' < unat (14 :: u32)"
  using FTE_VALUE_toString_bounds [of "value_zero\<lparr>bValid := True, xType := FTE_VALUE_TYPE_TEMPERATURE, xData := 0x80000001\<rparr>" 14]
  by (simp add: value_zero_def)

text \<open>
  A string \<^verbatim>\<open>FTE_VALUE_set\<close> cannot use is an error that leaves the datum, the type and
  the time stamp alone and counts as one failure; any accepted string makes the value
  valid.
\<close>

lemma FTE_VALUE_set_outcome:
  "FTE_VALUE_set fl s v =
     (case value_parse fl (xType v) s of
        Some d \<Rightarrow> (FTE_RET_OK, v\<lparr>xData := d, ulFailCount := 0, bValid := True\<rparr>)
      | None \<Rightarrow> (FTE_RET_ERROR, v\<lparr>ulFailCount := ulFailCount v + 1,
          bValid := bValid v \<and> ulFailCount v + 1 < 3\<rparr>))"
proof -
  have "snd (FTE_VALUE_setValid False v)
      = v\<lparr>ulFailCount := ulFailCount v + 1, bValid := bValid v \<and> ulFailCount v + 1 < 3\<rparr>"
    by (cases v) (auto simp: FTE_VALUE_setValid_def Let_def not_less)
  then show ?thesis by (auto simp: FTE_VALUE_set_def setValid_simps split: option.splits)
qed

text \<open>
  A temperature between -0.99 and -0.10 degrees is printed like the positive one: the
  sign is lost with the zero quotient.
\<close>

lemma FTE_VALUE_temperature_sign_lost:
  assumes "xType v = FTE_VALUE_TYPE_TEMPERATURE" "xData v = of_nat k" "k < 100"
  shows "FTE_VALUE_toString (v\<lparr>xData := - xData v\<rparr>) n = FTE_VALUE_toString v n"
proof (cases "k = 0")
  case True
  then show ?thesis using assms by (cases v) (simp add: FTE_VALUE_toString_def)
next
  case False
  have pos: "sint (of_nat k :: u32) = int k"
    using assms(3) by (subst sint_small) (simp_all add: unat_of_nat_small)
  have neg: "sint (- of_nat k :: u32) = - int k"
  proof -
    have "- of_nat k = (of_int (- int k) :: u32)" by simp
    moreover have "signed_take_bit 31 (- int k) = - int k"
      using assms(3) by (intro signed_take_bit_int_eq_self) simp_all
    ultimately show ?thesis by (simp only: sint_sbintrunc') simp
  qed
  have "c_quot (- int k) 100 = 0" "c_quot (int k) 100 = 0"
    using assms(3) by (simp_all add: c_quot_def)
  moreover have "c_abs (- of_nat k) = of_nat k" "c_abs (of_nat k) = of_nat k"
    using False pos neg by (simp_all add: c_abs_def)
  ultimately have "value_text FTE_VALUE_TYPE_TEMPERATURE (- of_nat k) = value_text FTE_VALUE_TYPE_TEMPERATURE (of_nat k)"
    using pos neg by simp
  then show ?thesis using assms by (simp only: FTE_VALUE_toString_def) simp
qed

lemma FTE_VALUE_temperature_sign_lost_witness:
  "FTE_VALUE_toString (value_zero\<lparr>bValid := True, xType := FTE_VALUE_TYPE_TEMPERATURE, xData := - 50\<rparr>) 16
   = FTE_VALUE_toString (value_zero\<lparr>bValid := True, xType := FTE_VALUE_TYPE_TEMPERATURE, xData := 50\<rparr>) 16"
  using FTE_VALUE_temperature_sign_lost
    [of "value_zero\<lparr>bValid := True, xType := FTE_VALUE_TYPE_TEMPERATURE, xData := 50\<rparr>" 50 16]
  by simp

text \<open>
  \<^verbatim>\<open>FTE_VALUE_equal\<close> compares the data words only: the type of the second value plays no
  part, and two BOOL values are never equal, not even a value with itself.
\<close>

lemma FTE_VALUE_equal_ignores_type:
  "FTE_VALUE_equal v w \<longleftrightarrow> xType v \<noteq> FTE_VALUE_TYPE_BOOL \<and> xType v \<noteq> FTE_VALUE_TYPE_MAX \<and> xData v = xData w"
  by (cases "xType v") (simp_all add: FTE_VALUE_equal_def)

text \<open>
  PH and MM values are printed in hundredths but parsed as whole numbers: reading
  back what was printed divides the datum by 100.
\<close>

lemma FTE_VALUE_hundredths_lost:
  assumes "xType v = FTE_VALUE_TYPE_PH \<or> xType v = FTE_VALUE_TYPE_MM" "bValid v" "13 \<le> unat n"
  shows "\<exists>s. FTE_VALUE_toString v n = Some s
    \<and> FTE_VALUE_set fl s v = (FTE_RET_OK, v\<lparr>xData := xData v div 100, ulFailCount := 0, bValid := True\<rparr>)"
proof -
  let ?x = "xData v" and ?t = "xType v"
  let ?s = "fmt_d (sint (?x div 100)) @ CHR ''.'' # fmt_0d 2 (sint (?x mod 100))"
  have q: "sint (?x div 100) = int (unat ?x div 100)" using sint_div [of 100 ?x] by simp
  have "unat ?x div 100 < 2 ^ 31" using unat_less_32 [of ?x] by auto
  from strtol_point [OF this] have l: "c_strtol 10 ?s = of_nat (unat ?x div 100)" by (simp only: q)
  have w: "of_nat (unat ?x div 100) = ?x div 100"
    by (simp add: word_arith_nat_div)
  have "0 \<le> sint (?x div 100)" by (simp add: q)
  then have "value_text ?t ?x = Some ?s" "value_parse fl ?t ?s = Some (?x div 100)"
    using assms(1) l w by auto
  then show ?thesis using toString_value [OF assms(2,3)]
    by (auto simp: FTE_VALUE_set_def setValid_simps)
qed

lemma FTE_VALUE_hundredths_lost_witness:
  "\<exists>s. FTE_VALUE_toString (value_zero\<lparr>xType := FTE_VALUE_TYPE_PH, bValid := True, xData := 705\<rparr>) 16 = Some s
    \<and> snd (FTE_VALUE_set int_float_ops s (value_zero\<lparr>xType := FTE_VALUE_TYPE_PH, bValid := True, xData := 705\<rparr>))
      = value_zero\<lparr>xType := FTE_VALUE_TYPE_PH, bValid := True, xData := 7, ulFailCount := 0\<rparr>"
  using FTE_VALUE_hundredths_lost [of "value_zero\<lparr>xType := FTE_VALUE_TYPE_PH, bValid := True, xData := 705\<rparr>" 16 int_float_ops]
  by (auto simp: value_zero_def)

section \<open>Well-typed values\<close>

text \<open>The data a value of a type can hold: two states of an input or output, three of a lamp, no
  negative concentration, acidity or length; every word for the others.  BOOL and the end
  mark are not types of values.\<close>

definition type_data :: "fte_value_type \<Rightarrow> u32 set" where
  "type_data ty = (case ty of FTE_VALUE_TYPE_DIO \<Rightarrow> {0, 1} | FTE_VALUE_TYPE_LED \<Rightarrow> {0, 1, 2}
     | FTE_VALUE_TYPE_PPM \<Rightarrow> {x. 0 \<le> sint x} | FTE_VALUE_TYPE_PH \<Rightarrow> {x. 0 \<le> sint x} | FTE_VALUE_TYPE_MM \<Rightarrow> {x. 0 \<le> sint x}
     | FTE_VALUE_TYPE_BOOL \<Rightarrow> {} | FTE_VALUE_TYPE_MAX \<Rightarrow> {} | _ \<Rightarrow> UNIV)"

definition value_wt :: "fte_value \<Rightarrow> bool" where
  "value_wt v \<longleftrightarrow> xData v \<in> type_data (xType v)"

text \<open>What happens to a value: a text from a command or the configuration, a report of success
  or failure, a datum stored by a driver through the setter of the value's type.\<close>

datatype value_cmd = VText string | VReport bool | VStore time_struct u32

definition value_store :: "time_struct \<Rightarrow> u32 \<Rightarrow> fte_value \<Rightarrow> fte_value" where
  "value_store now x v = (case xType v of
       FTE_VALUE_TYPE_TEMPERATURE \<Rightarrow> snd (FTE_VALUE_setTemperature now x v)
     | FTE_VALUE_TYPE_HUMIDITY \<Rightarrow> snd (FTE_VALUE_setHumidity now x v)
     | FTE_VALUE_TYPE_DIO \<Rightarrow> snd (FTE_VALUE_setDIO now x v)
     | FTE_VALUE_TYPE_PPM \<Rightarrow> snd (FTE_VALUE_setPPM now x v)
     | FTE_VALUE_TYPE_PH \<Rightarrow> snd (FTE_VALUE_setPH now x v)
     | FTE_VALUE_TYPE_MM \<Rightarrow> snd (FTE_VALUE_setMM now x v)
     | FTE_VALUE_TYPE_ULONG \<Rightarrow> snd (FTE_VALUE_setULONG now x v)
     | FTE_VALUE_TYPE_VOLTAGE \<Rightarrow> snd (FTE_VALUE_setVoltage now x v)
     | FTE_VALUE_TYPE_CURRENT \<Rightarrow> snd (FTE_VALUE_setCurrent now x v)
     | FTE_VALUE_TYPE_PRESSURE \<Rightarrow> snd (FTE_VALUE_setPressure now x v)
     | FTE_VALUE_TYPE_PWR_KW \<Rightarrow> snd (FTE_VALUE_setPowerKW now x v)
     | FTE_VALUE_TYPE_PWR_KWH \<Rightarrow> snd (FTE_VALUE_setPowerKWH now x v)
     | FTE_VALUE_TYPE_LED \<Rightarrow> snd (FTE_VALUE_setLED now x v)
     | _ \<Rightarrow> v)"

fun value_exec :: "'d float_ops \<Rightarrow> value_cmd \<Rightarrow> fte_value \<Rightarrow> fte_value" where
  "value_exec fl (VText s) v = snd (FTE_VALUE_set fl s v)"
| "value_exec fl (VReport b) v = snd (FTE_VALUE_setValid b v)"
| "value_exec fl (VStore now x) v = value_store now x v"

fun cmd_typed :: "fte_value_type \<Rightarrow> value_cmd \<Rightarrow> bool" where
  "cmd_typed ty (VStore now x) = (x \<in> type_data ty)"
| "cmd_typed ty _ = True"

lemma setValid_keeps [simp]:
  "xType (snd (FTE_VALUE_setValid b v)) = xType v" "xData (snd (FTE_VALUE_setValid b v)) = xData v"
  by (simp_all add: FTE_VALUE_setValid_def Let_def)

lemma value_store_effect:
  "xType (value_store now x v) = xType v"
  "xData (value_store now x v) = x \<or> xData (value_store now x v) = xData v"
  by (cases "xType v"; simp add: value_store_def Let_def FTE_VALUE_setTemperature_def FTE_VALUE_setHumidity_def
      FTE_VALUE_setDIO_def FTE_VALUE_setPPM_def FTE_VALUE_setPH_def FTE_VALUE_setMM_def FTE_VALUE_setULONG_def
      FTE_VALUE_setVoltage_def FTE_VALUE_setCurrent_def FTE_VALUE_setPressure_def FTE_VALUE_setPowerKW_def
      FTE_VALUE_setPowerKWH_def FTE_VALUE_setLED_def)+

lemma value_parse_typed: "value_parse fl ty s = Some d \<Longrightarrow> ty \<noteq> FTE_VALUE_TYPE_BOOL \<Longrightarrow> d \<in> type_data ty"
  by (cases ty) (auto simp: type_data_def Let_def split: if_splits)

lemma value_exec_typed:
  assumes "value_wt v" "cmd_typed (xType v) c"
  shows "value_wt (value_exec fl c v) \<and> xType (value_exec fl c v) = xType v"
proof (cases c)
  case (VText s)
  have "xType v \<noteq> FTE_VALUE_TYPE_BOOL" using assms(1) by (auto simp: value_wt_def type_data_def)
  then show ?thesis using VText assms(1) value_parse_typed [of fl "xType v" s]
    by (auto simp: FTE_VALUE_set_def value_wt_def split: option.splits)
next
  case (VReport b)
  then show ?thesis using assms by (simp add: value_wt_def)
next
  case (VStore now x)
  then show ?thesis using assms value_store_effect [of now x v] by (auto simp: value_wt_def)
qed

lemma value_execs_typed:
  assumes "value_wt v" "list_all (cmd_typed (xType v)) cs"
  shows "value_wt (fold (value_exec fl) cs v) \<and> xType (fold (value_exec fl) cs v) = xType v"
  using assms
proof (induction cs arbitrary: v)
  case (Cons c cs)
  from value_exec_typed [of v c fl] Cons.prems have "value_wt (value_exec fl c v)" "xType (value_exec fl c v) = xType v" by auto
  with Cons.IH [of "value_exec fl c v"] Cons.prems show ?case by simp
qed simp

lemma value_wt_prints: "value_wt v \<Longrightarrow> n \<noteq> 0 \<Longrightarrow> FTE_VALUE_toString v n \<noteq> None"
  by (cases "xType v") (auto simp: FTE_VALUE_toString_def c_snprintf_def value_wt_def type_data_def)

lemma create_typed:
  assumes "FTE_VALUE_create ty mem = Some v"
  shows "value_wt v" "xType v = (if ty = FTE_VALUE_TYPE_BOOL then FTE_VALUE_TYPE_DIO else ty)"
  using assms
  by (cases ty; auto simp: value_alloc_def value_wt_def type_data_def value_zero_def
     FTE_VALUE_createTemperature_def FTE_VALUE_createHumidity_def FTE_VALUE_createDIO_def FTE_VALUE_createPPM_def
     FTE_VALUE_createPH_def FTE_VALUE_createMM_def FTE_VALUE_createULONG_def FTE_VALUE_createHex32_def
     FTE_VALUE_createVoltage_def FTE_VALUE_createCurrent_def FTE_VALUE_createPressure_def
     FTE_VALUE_createPowerKW_def FTE_VALUE_createPowerKWH_def FTE_VALUE_createLED_def split: if_splits)+



end
