(* ===== verification/FTE_Utils.thy ===== *)
theory FTE_Utils
  imports FTE_CString
begin

unbundle bit_operations_syntax

text \<open>
  The string parsers of \<^verbatim>\<open>target/source/fte_utils.c\<close>: IP and MAC addresses, decimal and
  hexadecimal numbers, byte arrays and decimal fractions.  They read the
  configuration file, the shell's arguments and the messages of the server, so what
  they accept matters.  A result pair gives the return code and what was stored
  through the out-parameter (\<open>None\<close>: it was left as it was).
\<close>

section \<open>The code\<close>

definition c_isdigit :: "char \<Rightarrow> bool" where
  "c_isdigit c \<longleftrightarrow> 48 \<le> (of_char c :: nat) \<and> (of_char c :: nat) \<le> 57"

definition c_isxdigit :: "char \<Rightarrow> bool" where
  "c_isxdigit c \<longleftrightarrow> c_isdigit c \<or> (65 \<le> (of_char c :: nat) \<and> (of_char c :: nat) \<le> 70)
     \<or> (97 \<le> (of_char c :: nat) \<and> (of_char c :: nat) \<le> 102)"

text \<open>The scanning loop of \<^verbatim>\<open>FTE_strToIP\<close>: position, current component and the four
  components; it stops at the end, after 16 characters or at a fourth dot.  \<open>None\<close> is
  the early return on a character that is neither a digit nor a dot.\<close>

fun ip_scan :: "string \<Rightarrow> nat \<Rightarrow> nat \<Rightarrow> u32 list \<Rightarrow> (string \<times> nat \<times> u32 list) option" where
  "ip_scan [] i index nNum = Some ([], index, nNum)"
| "ip_scan (c # cs) i index nNum =
     (if i < 16 \<and> index < 4 then
        if c_isdigit c then
          ip_scan cs (i + 1) index (nNum[index := nNum ! index * 10 + of_nat (of_char c) - 48])
        else if c = CHR ''.'' then ip_scan cs (i + 1) (index + 1) nNum
        else None
      else Some (c # cs, index, nNum))"

definition FTE_strToIP :: "string \<Rightarrow> fte_ret \<times> u32 option" where
  "FTE_strToIP pIPString = (case ip_scan pIPString 0 0 [0, 0, 0, 0] of
       None \<Rightarrow> (FTE_RET_INVALID_ARGUMENT, None)
     | Some (rest, index, nNum) \<Rightarrow>
         if rest = [] \<and> index = 3 then
           if \<exists>n\<in>set nNum. 255 < n then (FTE_RET_INVALID_ARGUMENT, None)
           else (FTE_RET_OK, Some (foldl (\<lambda>nTemp n. push_bit 8 nTemp OR n) 0 nNum))
         else (FTE_RET_OK, Some 0))"

text \<open>The macro \<^verbatim>\<open>hexnum\<close> of the shell's header; bytes are computed modulo 256.\<close>

definition hexnum :: "char \<Rightarrow> u8" where
  "hexnum c = (let n = of_char c :: nat in
     if n \<le> 57 then of_nat n - 48 else if n \<le> 70 then of_nat n - 65 + 10 else of_nat n - 97 + 10)"

text \<open>Reading \<^verbatim>\<open>pString[i]\<close>, with the terminator at the end.\<close>

definition c_at :: "string \<Rightarrow> nat \<Rightarrow> char" where
  "c_at s i = (if i < length s then s ! i else CHR 0x00)"

fun mac_loop :: "string \<Rightarrow> nat list \<Rightarrow> u8 list \<Rightarrow> fte_ret \<times> u8 list" where
  "mac_loop s [] bs = (FTE_RET_OK, bs)"
| "mac_loop s (i # is) bs =
     (if c_isxdigit (c_at s i) \<and> c_isxdigit (c_at s (i + 1))
         \<and> (c_at s (i + 2) = CHR '':'' \<or> c_at s (i + 2) = CHR 0x00)
      then mac_loop s is (bs @ [hexnum (c_at s i) * 16 + hexnum (c_at s (i + 1))])
      else (FTE_RET_INVALID_ARGUMENT, bs))"

definition FTE_strToMAC :: "string \<Rightarrow> fte_ret \<times> u8 list" where
  "FTE_strToMAC s = (if length s \<noteq> 17 then (FTE_RET_INVALID_ARGUMENT, [])
     else mac_loop s [0, 3, 6, 9, 12, 15] [])"

text \<open>\<^verbatim>\<open>FTE_strToUINT16\<close> and \<^verbatim>\<open>FTE_strToUINT32\<close>: the value after the leading digits, and the rest.\<close>

fun digits_loop :: "'a::len word \<Rightarrow> string \<Rightarrow> 'a word \<times> string" where
  "digits_loop v [] = (v, [])"
| "digits_loop v (c # cs) =
     (if c_isdigit c then digits_loop (v * 10 + of_nat (of_char c - 48)) cs else (v, c # cs))"

definition FTE_strToUINT16 :: "string \<Rightarrow> fte_ret \<times> u16 option" where
  "FTE_strToUINT16 s = (let (v, rest) = digits_loop 0 s in
     if rest \<noteq> [] then (FTE_RET_INVALID_ARGUMENT, None) else (FTE_RET_OK, Some v))"

definition FTE_strToUINT32 :: "string \<Rightarrow> fte_ret \<times> u32 option" where
  "FTE_strToUINT32 s = (let (v, rest) = digits_loop 0 s in
     if rest \<noteq> [] then (FTE_RET_INVALID_ARGUMENT, None) else (FTE_RET_OK, Some v))"

text \<open>The three ranges each digit of \<^verbatim>\<open>FTE_strToHex\<close> and \<^verbatim>\<open>FTE_strToHexArray\<close> is tested for.\<close>

definition hex_digit :: "char \<Rightarrow> nat option" where
  "hex_digit c = (let n = of_char c :: nat in
     if 48 \<le> n \<and> n \<le> 57 then Some (n - 48)
     else if 65 \<le> n \<and> n \<le> 70 then Some (n - 65 + 10)
     else if 97 \<le> n \<and> n \<le> 102 then Some (n - 97 + 10)
     else None)"

fun hex_loop :: "u32 \<Rightarrow> string \<Rightarrow> u32 option" where
  "hex_loop v [] = Some v"
| "hex_loop v (c # cs) = (case hex_digit c of
       Some d \<Rightarrow> hex_loop (v * 16 + of_nat d) cs
     | None \<Rightarrow> None)"

definition FTE_strToHex :: "string \<Rightarrow> fte_ret \<times> u32 option" where
  "FTE_strToHex s = (case hex_loop 0 s of
       Some v \<Rightarrow> (FTE_RET_OK, Some v)
     | None \<Rightarrow> (FTE_RET_INVALID_ARGUMENT, None))"

fun hex_pairs :: "string \<Rightarrow> u8 list" where
  "hex_pairs (a # b # cs) =
     (push_bit 4 (of_nat (the (hex_digit a))) + of_nat (the (hex_digit b))) # hex_pairs cs"
| "hex_pairs _ = []"

text \<open>Return code, \<^verbatim>\<open>*pLen\<close> and the bytes written to the front of the buffer.\<close>

definition FTE_strToHexArray :: "string \<Rightarrow> u32 \<Rightarrow> fte_ret \<times> nat \<times> u8 list" where
  "FTE_strToHexArray s ulBuffLen =
     (if length s mod 2 = 1 \<or> unat ulBuffLen < length s div 2 then (FTE_RET_OK, 0, [])
      else if \<exists>c\<in>set s. hex_digit c = None then (FTE_RET_INVALID_ARGUMENT, 0, [])
      else (FTE_RET_OK, length s div 2, hex_pairs s))"

text \<open>The double arithmetic of \<^verbatim>\<open>FTE_strToFLOAT\<close> is a parameter.\<close>

record 'd dec_ops =
  fnat :: "nat \<Rightarrow> 'd"
  fadd :: "'d \<Rightarrow> 'd \<Rightarrow> 'd"
  fsub :: "'d \<Rightarrow> 'd \<Rightarrow> 'd"
  fmult :: "'d \<Rightarrow> 'd \<Rightarrow> 'd"
  fdivide :: "'d \<Rightarrow> 'd \<Rightarrow> 'd"

text \<open>The digit loop: \<open>Inl\<close> is a return from inside it.\<close>

fun float_loop :: "'d dec_ops \<Rightarrow> string \<Rightarrow> 'd \<Rightarrow> bool \<Rightarrow> 'd \<Rightarrow> fte_ret + 'd" where
  "float_loop F [] dValue bInteger dDevider = Inr dValue"
| "float_loop F (c # cs) dValue bInteger dDevider =
     (if c_isdigit c then
        if bInteger then
          float_loop F cs (fadd F (fmult F dValue (fnat F 10)) (fnat F (of_char c - 48))) bInteger dDevider
        else
          float_loop F cs (fadd F dValue (fdivide F (fnat F (of_char c - 48)) dDevider)) bInteger
            (fmult F dDevider (fnat F 10))
      else if c = CHR ''.'' then
        if \<not> bInteger then Inl FTE_RET_INVALID_ARGUMENT
        else float_loop F cs dValue False dDevider
      else Inl 0)"

definition FTE_strToFLOAT :: "'d dec_ops \<Rightarrow> string \<Rightarrow> fte_ret \<times> 'd option" where
  "FTE_strToFLOAT F pString =
     (if length pString = 0 then (FTE_RET_OK, Some (fnat F 0))
      else
        let r = dropWhile c_space pString;
            run = (\<lambda>neg s. case float_loop F s (fnat F 0) True (fnat F 10) of
                Inl ret \<Rightarrow> (ret, None)
              | Inr d \<Rightarrow> (FTE_RET_OK, Some (if neg then fsub F (fnat F 0) d else d)))
        in case r of
             [] \<Rightarrow> (FTE_RET_INVALID_ARGUMENT, None)
           | c # cs \<Rightarrow>
               if c = CHR ''-'' then run True cs
               else if c = CHR ''+'' then run False cs
               else if \<not> c_isdigit c then (FTE_RET_INVALID_ARGUMENT, None)
               else run False r)"

section \<open>Characters\<close>

lemma c_isdigit_iff: "c_isdigit c \<longleftrightarrow> is_digit 10 c"
  by (auto simp: c_isdigit_def is_digit_def digit_val_def Let_def)

lemma c_isdigit_val: "c_isdigit c \<Longrightarrow> of_char c - 48 = digit_val c \<and> 48 \<le> (of_char c :: nat)"
  by (auto simp: c_isdigit_def digit_val_def)

lemma hex_digit_iff: "hex_digit c = (if is_digit 16 c then Some (digit_val c) else None)"
  by (auto simp: hex_digit_def is_digit_def digit_val_def Let_def)

lemma c_isxdigit_iff: "c_isxdigit c \<longleftrightarrow> is_digit 16 c"
  by (auto simp: c_isxdigit_def c_isdigit_def is_digit_def digit_val_def Let_def)

lemma word_digit:
  assumes "c_isdigit c"
  shows "of_nat (of_char c) - 48 = (of_nat (digit_val c) :: 'a::len word)"
proof -
  have "(of_char c :: nat) = digit_val c + 48" using c_isdigit_val [OF assms] by arith
  then have "(of_nat (of_char c) :: 'a word) = of_nat (digit_val c) + of_nat 48" by (metis of_nat_add)
  then show ?thesis by simp
qed

lemma foldl_digits_word:
  "foldl (\<lambda>v c. v * of_nat b + of_nat (digit_val c)) (of_nat n :: 'a::len word) s
   = of_nat (foldl (\<lambda>v c. v * b + digit_val c) n s)"
proof (induction s arbitrary: n)
  case Nil
  then show ?case by simp
next
  case (Cons c s)
  have "of_nat n * of_nat b + of_nat (digit_val c) = (of_nat (n * b + digit_val c) :: 'a word)" by simp
  then show ?case by (simp only: foldl.simps Cons.IH)
qed

section \<open>Numbers\<close>

lemma digits_loop_spec:
  "digits_loop v s = (foldl (\<lambda>v c. v * 10 + of_nat (digit_val c)) v (takeWhile c_isdigit s), dropWhile c_isdigit s)"
proof (induction s arbitrary: v)
  case Nil
  then show ?case by simp
next
  case (Cons c s)
  then show ?case using c_isdigit_val [of c] by simp
qed

lemma hex_loop_spec:
  "hex_loop v s = (if \<forall>c\<in>set s. is_digit 16 c
     then Some (foldl (\<lambda>v c. v * 16 + of_nat (digit_val c)) v s) else None)"
  by (induction s arbitrary: v) (auto simp: hex_digit_iff)

lemma digits_loop_value:
  "digits_loop (0 :: 'a::len word) s =
     (of_nat (num_value 10 (takeWhile c_isdigit s)), dropWhile c_isdigit s)"
  using foldl_digits_word [of 10 0 "takeWhile c_isdigit s", where 'a = 'a]
  by (simp add: digits_loop_spec num_value_def)

section \<open>Addresses\<close>

lemma ip_scan_digits:
  assumes "\<forall>c\<in>set ds. c_isdigit c" "i + length ds \<le> 16" "index < 4" "length nNum = 4"
  shows "ip_scan (ds @ r) i index nNum
    = ip_scan r (i + length ds) index
        (nNum[index := foldl (\<lambda>v c. v * 10 + of_nat (digit_val c)) (nNum ! index) ds])"
  using assms
proof (induction ds arbitrary: i nNum)
  case Nil
  then show ?case by simp
next
  case (Cons c ds)
  have c: "nNum ! index * 10 + of_nat (of_char c) - 48 = nNum ! index * 10 + of_nat (digit_val c)"
    using word_digit [of c, where 'a = 32] Cons.prems(1) by (simp add: algebra_simps)
  have "ip_scan ((c # ds) @ r) i index nNum
      = ip_scan (ds @ r) (i + 1) index (nNum[index := nNum ! index * 10 + of_nat (digit_val c)])"
    using Cons.prems by (simp add: c)
  then show ?case using Cons.prems by (subst (asm) Cons.IH) simp_all
qed

lemma ip_scan_component:
  assumes "n < 256" "i \<le> 12" "index < 4" "length nNum = 4" "nNum ! index = 0"
  shows "ip_scan (num_string 10 n @ r) i index nNum
    = ip_scan r (i + length (num_string 10 n)) index (nNum[index := of_nat n])"
proof -
  have l: "length (num_string 10 n) \<le> 3" using assms(1) by (intro num_string_length) simp_all
  have d: "\<forall>c\<in>set (num_string 10 n). c_isdigit c"
    unfolding c_isdigit_iff by (rule num_string_digits) simp_all
  have "foldl (\<lambda>v c. v * 10 + of_nat (digit_val c)) (0 :: u32) (num_string 10 n) = of_nat n"
    using foldl_digits_word [of 10 0 "num_string 10 n", where 'a = 32] num_value_string [of 10 n]
    by (simp add: num_value_def)
  then show ?thesis using ip_scan_digits [OF d] l assms by simp
qed

definition dotted :: "nat list \<Rightarrow> string" where
  "dotted ns = num_string 10 (ns ! 0) @ ''.'' @ num_string 10 (ns ! 1) @ ''.''
     @ num_string 10 (ns ! 2) @ ''.'' @ num_string 10 (ns ! 3)"

lemma ip_scan_dotted:
  assumes "a < 256" "b < 256" "c < 256" "d < 256"
  shows "ip_scan (dotted [a, b, c, d]) 0 0 [0, 0, 0, 0] = Some ([], 3, [of_nat a, of_nat b, of_nat c, of_nat d])"
proof -
  have l: "length (num_string 10 n) \<le> 3" if "n < 256" for n
    using that by (intro num_string_length) simp_all
  note la = l [OF assms(1)] and lb = l [OF assms(2)] and lc = l [OF assms(3)]
  have dot: "ip_scan (CHR ''.'' # r) i k ns = ip_scan r (i + 1) (k + 1) ns" if "i < 16" "k < 4" for r i k ns
    using that by (simp add: c_isdigit_def)
  show ?thesis
    using la lb lc assms ip_scan_component [OF assms(4), of _ _ _ "[]"]
    by (simp add: dotted_def ip_scan_component dot del: ip_scan.simps(2))
qed

text \<open>Only digits and dots, but not three of them.\<close>

lemma ip_scan_dots:
  assumes "\<forall>c\<in>set s. c_isdigit c \<or> c = CHR ''.''" "i + length s \<le> 16"
  shows "\<exists>rest index' ns. ip_scan s i index nNum = Some (rest, index', ns)
    \<and> (index' = index + count_list s (CHR ''.'') \<and> rest = [] \<or> rest \<noteq> [])"
  using assms
proof (induction s arbitrary: i index nNum)
  case Nil
  then show ?case by simp
next
  case (Cons c s)
  have IH: "\<exists>rest index' ns. ip_scan s (i + 1) k m = Some (rest, index', ns)
    \<and> (index' = k + count_list s (CHR ''.'') \<and> rest = [] \<or> rest \<noteq> [])" for k m
    using Cons.IH [of "i + 1" k m] Cons.prems by simp
  have nd: "\<not> c_isdigit (CHR ''.'')" by (simp add: c_isdigit_def)
  show ?case
  proof (cases "index < 4")
    case True
    show ?thesis
    proof (cases "c_isdigit c")
      case d: True
      then have "c \<noteq> CHR ''.''" using nd by auto
      then show ?thesis using IH [of index] d True Cons.prems(2) by simp
    next
      case False
      then show ?thesis using IH [of "index + 1" nNum] True Cons.prems nd by auto
    qed
  qed simp
qed

section \<open>Byte strings\<close>

definition hex_byte :: "u8 \<Rightarrow> string" where
  "hex_byte b = [digit_char (unat b div 16), digit_char (unat b mod 16)]"

lemma u8_nibbles: "unat (b :: u8) div 16 < 16" "unat (b :: u8) mod 16 < 16"
proof -
  have "unat b < 2 ^ LENGTH(8)" by (rule unsigned_less)
  then show "unat b div 16 < 16" by (simp add: less_mult_imp_div_less)
qed simp

lemma nibbles_word: "(of_nat (unat b div 16) :: u8) * 16 + of_nat (unat b mod 16) = b"
proof -
  have "(of_nat (unat b div 16) :: u8) * 16 + of_nat (unat b mod 16)
      = of_nat (unat b div 16 * 16 + unat b mod 16)"
    by (simp only: of_nat_add of_nat_mult of_nat_numeral)
  also have "\<dots> = b" by (simp only: div_mult_mod_eq) simp
  finally show ?thesis .
qed

lemma hex_pairs_bytes: "hex_pairs (concat (map hex_byte bs)) = bs"
proof (induction bs)
  case Nil
  then show ?case by simp
next
  case (Cons b bs)
  have "hex_pairs (hex_byte b @ r) = b # hex_pairs r" for r
    using u8_nibbles [of b] nibbles_word [of b]
    by (simp add: hex_byte_def hex_digit_iff push_bit_eq_mult mult.commute)
  then show ?case using Cons by simp
qed

lemma hex_bytes_length: "length (concat (map hex_byte bs)) = 2 * length bs"
  by (induction bs) (simp_all add: hex_byte_def)

lemma hex_bytes_digits: "\<forall>c\<in>set (concat (map hex_byte bs)). hex_digit c \<noteq> None"
  using u8_nibbles by (auto simp: hex_byte_def hex_digit_iff)

section \<open>Properties\<close>

text \<open>
  The dotted decimal form of four bytes is accepted and gives the address with the
  first component in the most significant byte.
\<close>

lemma FTE_strToIP_dotted:
  assumes "a < 256" "b < 256" "c < 256" "d < 256"
  shows "FTE_strToIP (dotted [a, b, c, d]) = (FTE_RET_OK, Some (of_nat (a * 2 ^ 24 + b * 2 ^ 16 + c * 2 ^ 8 + d)))"
proof -
  have le: "\<not> 255 < (of_nat n :: u32)" if "n < 256" for n
    using that by (simp add: word_less_nat_alt unat_of_nat_small)
  have sh: "push_bit 8 v OR of_nat n = v * 256 + (of_nat n :: u32)" if "n < 256" for v n
  proof -
    have "push_bit 8 v AND (of_nat n :: u32) = 0"
    proof (rule bit_word_eqI)
      fix k assume "k < LENGTH(32)"
      have "take_bit 8 n = n" using that by (simp add: take_bit_nat_eq_self)
      then have "bit n k \<Longrightarrow> k < 8" by (metis bit_take_bit_iff)
      then show "bit (push_bit 8 v AND (of_nat n :: u32)) k = bit (0 :: u32) k"
        by (auto simp: bit_simps)
    qed
    then show ?thesis by (simp add: disjunctive_add_eq_or [symmetric] push_bit_eq_mult)
  qed
  have "foldl (\<lambda>nTemp n. push_bit 8 nTemp OR n) 0 [of_nat a, of_nat b, of_nat c, of_nat d :: u32]
      = ((of_nat a * 256 + of_nat b) * 256 + of_nat c) * 256 + of_nat d"
    using sh [OF assms(1), of 0] sh [OF assms(2)] sh [OF assms(3)] sh [OF assms(4)] by simp
  also have "\<dots> = of_nat (a * 2 ^ 24 + b * 2 ^ 16 + c * 2 ^ 8 + d)" by (simp add: algebra_simps)
  finally show ?thesis
    using le assms by (simp add: FTE_strToIP_def ip_scan_dotted)
qed

lemma FTE_strToIP_dotted_witness:
  "FTE_strToIP (dotted [192, 168, 0, 7]) = (FTE_RET_OK, Some 0xC0A80007)"
  using FTE_strToIP_dotted [of 192 168 0 7] by simp

text \<open>
  A text of digits and dots that is not a dotted quad, because it has not exactly three
  dots, is not refused: the function reports success and stores the address 0.0.0.0.
\<close>

lemma FTE_strToIP_accepts_malformed:
  assumes "\<forall>c\<in>set s. c_isdigit c \<or> c = CHR ''.''" "length s \<le> 16" "count_list s (CHR ''.'') \<noteq> 3"
  shows "FTE_strToIP s = (FTE_RET_OK, Some 0)"
proof -
  have "0 + length s \<le> 16" using assms(2) by simp
  from ip_scan_dots [OF assms(1) this, of 0 "[0, 0, 0, 0]"]
  obtain rest index' ns where 1: "ip_scan s 0 0 [0, 0, 0, 0] = Some (rest, index', ns)"
    and "index' = 0 + count_list s (CHR ''.'') \<and> rest = [] \<or> rest \<noteq> []"
    by (elim exE conjE) (rule that)
  then have "(rest = [] \<and> index' = 3) = False" using assms(3) by auto
  then show ?thesis by (simp only: FTE_strToIP_def 1 option.case prod.case if_False)
qed

lemma FTE_strToIP_accepts_malformed_witness:
  "FTE_strToIP ''10.0.1'' = (FTE_RET_OK, Some 0)"
  by (rule FTE_strToIP_accepts_malformed) (simp_all add: c_isdigit_def)

text \<open>
  The decimal parsers accept exactly the digit strings (the empty one included) and store
  the number modulo their width; the hexadecimal one accepts exactly the strings of
  hexadecimal digits and stores the number modulo 2^32.
\<close>

lemma FTE_strTo_numbers:
  "FTE_strToUINT16 s = (if list_all c_isdigit s then (FTE_RET_OK, Some (of_nat (num_value 10 s)))
     else (FTE_RET_INVALID_ARGUMENT, None))
   \<and> FTE_strToUINT32 s = (if list_all c_isdigit s then (FTE_RET_OK, Some (of_nat (num_value 10 s)))
     else (FTE_RET_INVALID_ARGUMENT, None))
   \<and> FTE_strToHex s = (if list_all (is_digit 16) s then (FTE_RET_OK, Some (of_nat (num_value 16 s)))
     else (FTE_RET_INVALID_ARGUMENT, None))"
proof -
  have dw: "dropWhile c_isdigit s \<noteq> [] \<longleftrightarrow> \<not> (\<forall>c\<in>set s. c_isdigit c)" by (simp add: dropWhile_eq_Nil_conv)
  have tw: "\<forall>c\<in>set s. c_isdigit c \<Longrightarrow> takeWhile c_isdigit s = s" by (simp add: takeWhile_eq_all_conv)
  have hx: "foldl (\<lambda>v c. v * 16 + of_nat (digit_val c)) 0 s = (of_nat (num_value 16 s) :: u32)"
    using foldl_digits_word [of 16 0 s, where 'a = 32] by (simp add: num_value_def)
  show ?thesis
  proof (cases "\<forall>c\<in>set s. c_isdigit c")
    case True
    have e: "digits_loop (0 :: 'a::len word) s = (of_nat (num_value 10 s), [])"
      using True dw by (simp only: digits_loop_value tw [OF True]) simp
    show ?thesis unfolding list_all_iff using True
      by (simp add: FTE_strToUINT16_def FTE_strToUINT32_def FTE_strToHex_def e hex_loop_spec hx)
  next
    case False
    then have "dropWhile c_isdigit s \<noteq> []" using dw by blast
    then show ?thesis unfolding list_all_iff using False
      by (simp add: FTE_strToUINT16_def FTE_strToUINT32_def FTE_strToHex_def digits_loop_value hex_loop_spec hx) blast
  qed
qed

text \<open>
  The hexadecimal form of a byte array is read back as that array, into every buffer it
  fits in, and a longer one is answered with success and length 0.
\<close>

lemma FTE_strToHexArray_roundtrip:
  assumes "length bs < 2 ^ 31"
  shows "FTE_strToHexArray (concat (map hex_byte bs)) n =
    (if length bs \<le> unat n then (FTE_RET_OK, length bs, bs) else (FTE_RET_OK, 0, []))"
proof -
  have "(\<exists>c\<in>set (concat (map hex_byte bs)). hex_digit c = None) = False"
    using hex_bytes_digits [of bs] by blast
  then show ?thesis
    unfolding FTE_strToHexArray_def hex_bytes_length hex_pairs_bytes by (simp only: if_False) auto
qed

lemma FTE_strToHexArray_roundtrip_witness:
  "FTE_strToHexArray ''0ff3'' 2 = (FTE_RET_OK, 2, [0x0F, 0xF3])"
  using FTE_strToHexArray_roundtrip [of "[0x0F, 0xF3]" 2]
  by (simp add: hex_byte_def digit_char_def char_of_def bit_0_eq bit_Suc_0_iff)

text \<open>
  Six bytes written with two hexadecimal digits each and separated by colons are
  accepted and give those bytes.
\<close>

lemma FTE_strToMAC_roundtrip:
  "FTE_strToMAC (hex_byte a @ '':'' @ hex_byte b @ '':'' @ hex_byte c @ '':'' @ hex_byte d @ '':'' @ hex_byte e
     @ '':'' @ hex_byte f) = (FTE_RET_OK, [a, b, c, d, e, f])"
proof -
  have x: "c_isxdigit (digit_char k)" if "k < 16" for k using that by (simp add: c_isxdigit_iff)
  have n: "hexnum (digit_char k) = of_nat k" if "k < 16" for k
  proof -
    have "k < 10 \<or> (k = 10 \<or> k = 11 \<or> k = 12 \<or> k = 13 \<or> k = 14 \<or> k = 15)" using that by auto
    then show ?thesis by (elim disjE) (auto simp: hexnum_def digit_char_def of_char_of Let_def)
  qed
  show ?thesis
    using u8_nibbles nibbles_word [of a] nibbles_word [of b] nibbles_word [of c] nibbles_word [of d]
      nibbles_word [of e] nibbles_word [of f]
    by (simp add: FTE_strToMAC_def c_at_def hex_byte_def x n)
qed

text \<open>
  \<^verbatim>\<open>FTE_strToFLOAT\<close> reports success without storing anything when the digits are followed by
  another character: it returns \<^verbatim>\<open>FALSE\<close>, which is the success code.
\<close>

lemma FTE_strToFLOAT_garbage_succeeds:
  assumes "ds \<noteq> []" "\<forall>c\<in>set ds. c_isdigit c" "\<not> c_isdigit x" "x \<noteq> CHR ''.''"
  shows "FTE_strToFLOAT F (ds @ x # r) = (FTE_RET_OK, None)"
proof -
  have lp: "float_loop F (cs @ x # r) v b d = Inl 0" if "\<forall>c\<in>set cs. c_isdigit c" for cs v b d
    using that assms(3,4) by (induction cs arbitrary: v d) auto
  obtain c cs where ds: "ds = c # cs" using assms(1) by (cases ds) auto
  have c: "c_isdigit c" using assms(2) ds by simp
  then have "\<not> c_space c" "c \<noteq> CHR ''-''" "c \<noteq> CHR ''+''"
    using digit_not_sign [of c] is_digit_mono [of 10 c 16] by (auto simp: c_isdigit_iff)
  then show ?thesis using ds c lp [OF assms(2)] by (simp add: FTE_strToFLOAT_def)
qed

definition int_dec_ops :: "int dec_ops" where
  "int_dec_ops = \<lparr>fnat = int, fadd = (+), fsub = (-), fmult = (*), fdivide = (div)\<rparr>"

lemma FTE_strToFLOAT_garbage_succeeds_witness:
  "FTE_strToFLOAT int_dec_ops (''12'' @ CHR ''x'' # []) = (FTE_RET_OK, None)"
  by (rule FTE_strToFLOAT_garbage_succeeds) (simp_all add: c_isdigit_def)

end
