(* ===== verification/FTE_Modbus.thy ===== *)
theory FTE_Modbus
  imports FTE_Prelude
begin

unbundle bit_operations_syntax

text \<open>
  The MODBUS slave of \<^verbatim>\<open>target/source/protocol/modbus/fte_modbus.c\<close>: it decodes a request
  PDU, calls the slave model's callback and encodes the reply.  The request is the
  receive buffer (\<open>req\<close>) with the length the transport reports; a read past the buffer
  and a write past the response buffer do not return (\<open>None\<close>).  A reply is the bytes the
  first \<^verbatim>\<open>*pRespPDULen\<close> positions of the response buffer hold, \<open>None\<close> when the length was
  not set.  The allocator's answers are the function \<open>mem\<close> of the size asked for.
\<close>

section \<open>Frames\<close>

definition byte_at :: "u8 list \<Rightarrow> nat \<Rightarrow> u8 option" where
  "byte_at bs i = (if i < length bs then Some (bs ! i) else None)"

text \<open>A packed 16-bit field read with \<^verbatim>\<open>FTE_NTOHS\<close>, and the two bytes \<^verbatim>\<open>FTE_HTONS\<close> stores.\<close>

definition be16 :: "u8 \<Rightarrow> u8 \<Rightarrow> u16" where
  "be16 hi lo = push_bit 8 (ucast hi) OR ucast lo"

definition be16_bytes :: "u16 \<Rightarrow> u8 list" where
  "be16_bytes w = [ucast (drop_bit 8 w), ucast w]"

definition be16_at :: "u8 list \<Rightarrow> nat \<Rightarrow> u16 option" where
  "be16_at bs i = do { hi \<leftarrow> byte_at bs i; lo \<leftarrow> byte_at bs (i + 1); Some (be16 hi lo) }"

fun be16s_at :: "u8 list \<Rightarrow> nat \<Rightarrow> nat \<Rightarrow> u16 list option" where
  "be16s_at bs i 0 = Some []"
| "be16s_at bs i (Suc n) = do { v \<leftarrow> be16_at bs i; vs \<leftarrow> be16s_at bs (i + 2) n; Some (v # vs) }"

abbreviation FTE_MODBUS_MAX_COILS :: u16 where "FTE_MODBUS_MAX_COILS \<equiv> 2000"
abbreviation FTE_MODBUS_MAX_DISCRETE_INPUTS :: u16 where "FTE_MODBUS_MAX_DISCRETE_INPUTS \<equiv> 2000"
abbreviation FTE_MODBUS_MAX_HOINDING_REGISTERS :: u16 where "FTE_MODBUS_MAX_HOINDING_REGISTERS \<equiv> 125"
abbreviation FTE_MODBUS_MAX_INPUT_REGISTERS :: u16 where "FTE_MODBUS_MAX_INPUT_REGISTERS \<equiv> 125"

section \<open>The slave model's callbacks\<close>

text \<open>A NULL callback is \<open>None\<close>; \<open>'s\<close> is the state behind the callbacks.  A reader gets the
  zeroed buffer and returns it filled.\<close>

record modbus_object =
  ucID :: u8
  ucLen :: u8
  pValue :: "u8 list"

record modbus_ident =
  id_values :: "modbus_object list"
  id_count :: u8
  id_conformity :: u8
  id_more :: u8
  id_next :: u8

record 's modbus_model =
  fReadCoils :: "(u16 \<Rightarrow> u16 \<Rightarrow> u8 list \<Rightarrow> 's \<Rightarrow> fte_ret \<times> u8 list \<times> 's) option"
  fReadDiscreteInputs :: "(u16 \<Rightarrow> u16 \<Rightarrow> u8 list \<Rightarrow> 's \<Rightarrow> fte_ret \<times> u8 list \<times> 's) option"
  fReadHoldingRegisters :: "(u16 \<Rightarrow> u16 \<Rightarrow> u16 list \<Rightarrow> 's \<Rightarrow> fte_ret \<times> u16 list \<times> 's) option"
  fReadInputRegisters :: "(u16 \<Rightarrow> u16 \<Rightarrow> u16 list \<Rightarrow> 's \<Rightarrow> fte_ret \<times> u16 list \<times> 's) option"
  fWriteSingleCoil :: "(u16 \<Rightarrow> u16 \<Rightarrow> 's \<Rightarrow> fte_ret \<times> 's) option"
  fWriteSingleRegister :: "(u16 \<Rightarrow> u16 \<Rightarrow> 's \<Rightarrow> fte_ret \<times> 's) option"
  fWriteMultiCoils :: "(u16 \<Rightarrow> u16 \<Rightarrow> u8 list \<Rightarrow> 's \<Rightarrow> fte_ret \<times> 's) option"
  fWriteMultiRegisters :: "(u16 \<Rightarrow> u16 \<Rightarrow> u16 list \<Rightarrow> 's \<Rightarrow> fte_ret \<times> 's) option"
  fReadDeviceIdent :: "(u8 \<Rightarrow> u8 \<Rightarrow> u8 \<Rightarrow> 's \<Rightarrow> fte_ret \<times> modbus_ident \<times> 's) option"

definition FTE_MODBUS_SLAVE_readCoils ::
    "'s modbus_model \<Rightarrow> u16 \<Rightarrow> u16 \<Rightarrow> u8 list \<Rightarrow> 's \<Rightarrow> fte_ret \<times> u8 list \<times> 's" where
  "FTE_MODBUS_SLAVE_readCoils M usAddress usQuantity buf s = (case fReadCoils M of
       None \<Rightarrow> (FTE_RET_MODBUS_INVALID_FUNCTION, buf, s)
     | Some f \<Rightarrow> f usAddress usQuantity buf s)"

definition FTE_MODBUS_SLAVE_readDiscreteInputs ::
    "'s modbus_model \<Rightarrow> u16 \<Rightarrow> u16 \<Rightarrow> u8 list \<Rightarrow> 's \<Rightarrow> fte_ret \<times> u8 list \<times> 's" where
  "FTE_MODBUS_SLAVE_readDiscreteInputs M usAddress usQuantity buf s = (case fReadDiscreteInputs M of
       None \<Rightarrow> (FTE_RET_MODBUS_INVALID_FUNCTION, buf, s)
     | Some f \<Rightarrow> f usAddress usQuantity buf s)"

definition FTE_MODBUS_SLAVE_readHoldingRegisters ::
    "'s modbus_model \<Rightarrow> u16 \<Rightarrow> u16 \<Rightarrow> u16 list \<Rightarrow> 's \<Rightarrow> fte_ret \<times> u16 list \<times> 's" where
  "FTE_MODBUS_SLAVE_readHoldingRegisters M usAddress usQuantity buf s = (case fReadHoldingRegisters M of
       None \<Rightarrow> (FTE_RET_MODBUS_INVALID_FUNCTION, buf, s)
     | Some f \<Rightarrow> f usAddress usQuantity buf s)"

definition FTE_MODBUS_SLAVE_readInputRegisters ::
    "'s modbus_model \<Rightarrow> u16 \<Rightarrow> u16 \<Rightarrow> u16 list \<Rightarrow> 's \<Rightarrow> fte_ret \<times> u16 list \<times> 's" where
  "FTE_MODBUS_SLAVE_readInputRegisters M usAddress usQuantity buf s = (case fReadInputRegisters M of
       None \<Rightarrow> (FTE_RET_MODBUS_INVALID_FUNCTION, buf, s)
     | Some f \<Rightarrow> f usAddress usQuantity buf s)"

definition FTE_MODBUS_SLAVE_writeSingleCoil ::
    "'s modbus_model \<Rightarrow> u16 \<Rightarrow> u16 \<Rightarrow> 's \<Rightarrow> fte_ret \<times> 's" where
  "FTE_MODBUS_SLAVE_writeSingleCoil M usAddress usValue s = (case fWriteSingleCoil M of
       None \<Rightarrow> (FTE_RET_MODBUS_INVALID_FUNCTION, s)
     | Some f \<Rightarrow> f usAddress usValue s)"

definition FTE_MODBUS_SLAVE_writeSingleRegister ::
    "'s modbus_model \<Rightarrow> u16 \<Rightarrow> u16 \<Rightarrow> 's \<Rightarrow> fte_ret \<times> 's" where
  "FTE_MODBUS_SLAVE_writeSingleRegister M usAddress usValue s = (case fWriteSingleRegister M of
       None \<Rightarrow> (FTE_RET_MODBUS_INVALID_FUNCTION, s)
     | Some f \<Rightarrow> f usAddress usValue s)"

definition FTE_MODBUS_SLAVE_writeMultiCoils ::
    "'s modbus_model \<Rightarrow> u16 \<Rightarrow> u16 \<Rightarrow> u8 list \<Rightarrow> 's \<Rightarrow> fte_ret \<times> 's" where
  "FTE_MODBUS_SLAVE_writeMultiCoils M usAddress usQuantity vals s = (case fWriteMultiCoils M of
       None \<Rightarrow> (FTE_RET_MODBUS_INVALID_FUNCTION, s)
     | Some f \<Rightarrow> f usAddress usQuantity vals s)"

definition FTE_MODBUS_SLAVE_writeMultiRegisters ::
    "'s modbus_model \<Rightarrow> u16 \<Rightarrow> u16 \<Rightarrow> u16 list \<Rightarrow> 's \<Rightarrow> fte_ret \<times> 's" where
  "FTE_MODBUS_SLAVE_writeMultiRegisters M usAddress usQuantity vals s = (case fWriteMultiRegisters M of
       None \<Rightarrow> (FTE_RET_MODBUS_INVALID_FUNCTION, s)
     | Some f \<Rightarrow> f usAddress usQuantity vals s)"

definition ident_none :: modbus_ident where
  "ident_none = \<lparr>id_values = [], id_count = 0, id_conformity = 0, id_more = 0, id_next = 0\<rparr>"

definition FTE_MODBUS_SLAVE_readDeviceIdent ::
    "'s modbus_model \<Rightarrow> u8 \<Rightarrow> u8 \<Rightarrow> u8 \<Rightarrow> 's \<Rightarrow> fte_ret \<times> modbus_ident \<times> 's" where
  "FTE_MODBUS_SLAVE_readDeviceIdent M mei code obj s = (case fReadDeviceIdent M of
       None \<Rightarrow> (FTE_RET_MODBUS_INVALID_FUNCTION, ident_none, s)
     | Some f \<Rightarrow> f mei code obj s)"

section \<open>The function codes\<close>

type_synonym 's reply = "fte_ret \<times> u8 list option \<times> 's"

text \<open>Storing a reply in the response buffer: it must fit.\<close>

definition put_reply :: "u32 \<Rightarrow> u8 list \<Rightarrow> u8 list option" where
  "put_reply ulRespBuffLen bs = (if length bs \<le> unat ulRespBuffLen then Some bs else None)"

definition process_read_coils ::
    "'s modbus_model \<Rightarrow> (nat \<Rightarrow> bool) \<Rightarrow> u8 list \<Rightarrow> u32 \<Rightarrow> u32 \<Rightarrow> 's \<Rightarrow> 's reply option" where
  "process_read_coils M mem req ulReqFrameLen ulRespBuffLen s =
     (if ulReqFrameLen \<noteq> 5 then Some (FTE_RET_INVALID_MSG, None, s)
      else do {
        usAddress \<leftarrow> be16_at req 1;
        usQuantity \<leftarrow> be16_at req 3;
        if usQuantity < 1 \<or> FTE_MODBUS_MAX_COILS < usQuantity then Some (FTE_RET_INVALID_MSG, None, s)
        else let ucByteCount = ucast ((usQuantity + 7) div 8) :: u8 in
          if ulRespBuffLen < 2 + ucast ucByteCount then Some (FTE_RET_BUFFER_TOO_SMALL, None, s)
          else if \<not> mem (unat ucByteCount) then Some (FTE_RET_NOT_ENOUGH_MEMORY, None, s)
          else let (xRet, buf, s) = FTE_MODBUS_SLAVE_readCoils M usAddress usQuantity
                   (replicate (unat ucByteCount) 0) s in
            if xRet = FTE_RET_OK then do {
              fc \<leftarrow> byte_at req 0;
              resp \<leftarrow> put_reply ulRespBuffLen (fc # ucByteCount # take (unat ucByteCount) buf);
              Some (xRet, Some resp, s)
            } else Some (xRet, None, s)
      })"

definition process_read_discrete_inputs ::
    "'s modbus_model \<Rightarrow> (nat \<Rightarrow> bool) \<Rightarrow> u8 list \<Rightarrow> u32 \<Rightarrow> u32 \<Rightarrow> 's \<Rightarrow> 's reply option" where
  "process_read_discrete_inputs M mem req ulReqFrameLen ulRespBuffLen s =
     (if ulReqFrameLen \<noteq> 5 then Some (FTE_RET_INVALID_MSG, None, s)
      else do {
        usAddress \<leftarrow> be16_at req 1;
        usQuantity \<leftarrow> be16_at req 3;
        if usQuantity < 1 \<or> FTE_MODBUS_MAX_DISCRETE_INPUTS < usQuantity then Some (FTE_RET_INVALID_MSG, None, s)
        else let ucByteCount = ucast ((usQuantity + 7) div 8) :: u8 in
          if ulRespBuffLen < 2 + ucast ucByteCount then Some (FTE_RET_BUFFER_TOO_SMALL, None, s)
          else if \<not> mem (unat ucByteCount) then Some (FTE_RET_NOT_ENOUGH_MEMORY, None, s)
          else let (xRet, buf, s) = FTE_MODBUS_SLAVE_readDiscreteInputs M usAddress usQuantity
                   (replicate (unat ucByteCount) 0) s in
            if xRet = FTE_RET_OK then do {
              fc \<leftarrow> byte_at req 0;
              resp \<leftarrow> put_reply ulRespBuffLen (fc # ucByteCount # take (unat ucByteCount) buf);
              Some (xRet, Some resp, s)
            } else Some (xRet, None, s)
      })"

definition process_read_holding_registers ::
    "'s modbus_model \<Rightarrow> (nat \<Rightarrow> bool) \<Rightarrow> u8 list \<Rightarrow> u32 \<Rightarrow> u32 \<Rightarrow> 's \<Rightarrow> 's reply option" where
  "process_read_holding_registers M mem req ulReqFrameLen ulRespBuffLen s =
     (if ulReqFrameLen \<noteq> 5 then Some (FTE_RET_INVALID_MSG, None, s)
      else do {
        usAddress \<leftarrow> be16_at req 1;
        usQuantity \<leftarrow> be16_at req 3;
        if usQuantity < 1 \<or> FTE_MODBUS_MAX_HOINDING_REGISTERS < usQuantity then Some (FTE_RET_INVALID_MSG, None, s)
        else if ulRespBuffLen < 2 + ucast usQuantity * 2 then Some (FTE_RET_BUFFER_TOO_SMALL, None, s)
        else if \<not> mem (2 * unat usQuantity) then Some (FTE_RET_NOT_ENOUGH_MEMORY, None, s)
        else let (xRet, regs, s) = FTE_MODBUS_SLAVE_readHoldingRegisters M usAddress usQuantity
                 (replicate (unat usQuantity) 0) s in
          if xRet = FTE_RET_OK then do {
            fc \<leftarrow> byte_at req 0;
            resp \<leftarrow> put_reply ulRespBuffLen
              (fc # ucast (usQuantity * 2) # concat (map be16_bytes (take (unat usQuantity) regs)));
            Some (xRet, Some resp, s)
          } else Some (xRet, None, s)
      })"

definition process_read_input_registers ::
    "'s modbus_model \<Rightarrow> (nat \<Rightarrow> bool) \<Rightarrow> u8 list \<Rightarrow> u32 \<Rightarrow> u32 \<Rightarrow> 's \<Rightarrow> 's reply option" where
  "process_read_input_registers M mem req ulReqFrameLen ulRespBuffLen s =
     (if ulReqFrameLen \<noteq> 5 then Some (FTE_RET_INVALID_MSG, None, s)
      else do {
        usAddress \<leftarrow> be16_at req 1;
        usQuantity \<leftarrow> be16_at req 3;
        if usQuantity < 1 \<or> FTE_MODBUS_MAX_INPUT_REGISTERS < usQuantity then Some (FTE_RET_INVALID_MSG, None, s)
        else if ulRespBuffLen < 2 + ucast usQuantity * 2 then Some (FTE_RET_BUFFER_TOO_SMALL, None, s)
        else if \<not> mem (2 * unat usQuantity) then Some (FTE_RET_NOT_ENOUGH_MEMORY, None, s)
        else let (xRet, regs, s) = FTE_MODBUS_SLAVE_readInputRegisters M usAddress usQuantity
                 (replicate (unat usQuantity) 0) s in
          if xRet = FTE_RET_OK then do {
            fc \<leftarrow> byte_at req 0;
            resp \<leftarrow> put_reply ulRespBuffLen
              (fc # ucast (usQuantity * 2) # concat (map be16_bytes (take (unat usQuantity) regs)));
            Some (xRet, Some resp, s)
          } else Some (xRet, None, s)
      })"

definition process_write_single_coil ::
    "'s modbus_model \<Rightarrow> u8 list \<Rightarrow> u32 \<Rightarrow> u32 \<Rightarrow> 's \<Rightarrow> 's reply option" where
  "process_write_single_coil M req ulReqFrameLen ulRespBuffLen s =
     (if ulReqFrameLen \<noteq> 5 then Some (FTE_RET_INVALID_MSG, None, s)
      else do {
        usAddress \<leftarrow> be16_at req 1;
        usValue \<leftarrow> be16_at req 3;
        if ulRespBuffLen < 5 then Some (FTE_RET_BUFFER_TOO_SMALL, None, s)
        else let (xRet, s) = FTE_MODBUS_SLAVE_writeSingleCoil M usAddress usValue s in
          if xRet = FTE_RET_OK then do {
            fc \<leftarrow> byte_at req 0;
            resp \<leftarrow> put_reply ulRespBuffLen (fc # be16_bytes usAddress @ be16_bytes usValue);
            Some (xRet, Some resp, s)
          } else Some (xRet, None, s)
      })"

definition process_write_single_register ::
    "'s modbus_model \<Rightarrow> u8 list \<Rightarrow> u32 \<Rightarrow> u32 \<Rightarrow> 's \<Rightarrow> 's reply option" where
  "process_write_single_register M req ulReqFrameLen ulRespBuffLen s =
     (if ulReqFrameLen \<noteq> 5 then Some (FTE_RET_INVALID_MSG, None, s)
      else do {
        usAddress \<leftarrow> be16_at req 1;
        usValue \<leftarrow> be16_at req 3;
        if ulRespBuffLen < 5 then Some (FTE_RET_BUFFER_TOO_SMALL, None, s)
        else let (xRet, s) = FTE_MODBUS_SLAVE_writeSingleRegister M usAddress usValue s in
          if xRet = FTE_RET_OK then do {
            fc \<leftarrow> byte_at req 0;
            resp \<leftarrow> put_reply ulRespBuffLen (fc # be16_bytes usAddress @ be16_bytes usValue);
            Some (xRet, Some resp, s)
          } else Some (xRet, None, s)
      })"

text \<open>The coil callback gets a pointer into the request: everything from there on.\<close>

definition process_write_multi_coils ::
    "'s modbus_model \<Rightarrow> u8 list \<Rightarrow> u32 \<Rightarrow> u32 \<Rightarrow> 's \<Rightarrow> 's reply option" where
  "process_write_multi_coils M req ulReqFrameLen ulRespBuffLen s =
     (if ulReqFrameLen \<le> 6 then Some (FTE_RET_INVALID_MSG, None, s)
      else do {
        usAddress \<leftarrow> be16_at req 1;
        usQuantity \<leftarrow> be16_at req 3;
        ucByteCount \<leftarrow> byte_at req 5;
        if ulReqFrameLen \<noteq> 6 + ucast ucByteCount then Some (FTE_RET_INVALID_MSG, None, s)
        else if ulRespBuffLen < 5 then Some (FTE_RET_BUFFER_TOO_SMALL, None, s)
        else let (xRet, s) = FTE_MODBUS_SLAVE_writeMultiCoils M usAddress usQuantity (drop 6 req) s in
          if xRet = FTE_RET_OK then do {
            fc \<leftarrow> byte_at req 0;
            resp \<leftarrow> put_reply ulRespBuffLen (fc # be16_bytes usAddress @ be16_bytes usQuantity);
            Some (xRet, Some resp, s)
          } else Some (xRet, None, s)
      })"

definition process_write_multi_registers ::
    "'s modbus_model \<Rightarrow> (nat \<Rightarrow> bool) \<Rightarrow> u8 list \<Rightarrow> u32 \<Rightarrow> u32 \<Rightarrow> 's \<Rightarrow> 's reply option" where
  "process_write_multi_registers M mem req ulReqFrameLen ulRespBuffLen s =
     (if ulReqFrameLen \<le> 6 then Some (FTE_RET_INVALID_MSG, None, s)
      else do {
        usAddress \<leftarrow> be16_at req 1;
        usQuantity \<leftarrow> be16_at req 3;
        ucByteCount \<leftarrow> byte_at req 5;
        if ulReqFrameLen \<noteq> 6 + ucast ucByteCount then Some (FTE_RET_INVALID_MSG, None, s)
        else if ulRespBuffLen < 5 then Some (FTE_RET_BUFFER_TOO_SMALL, None, s)
        else if \<not> mem (2 * unat usQuantity) then Some (FTE_RET_NOT_ENOUGH_MEMORY, None, s)
        else do {
          vals \<leftarrow> be16s_at req 6 (unat usQuantity);
          let (xRet, s) = FTE_MODBUS_SLAVE_writeMultiRegisters M usAddress usQuantity vals s;
          if xRet = FTE_RET_OK then do {
            fc \<leftarrow> byte_at req 0;
            resp \<leftarrow> put_reply ulRespBuffLen (fc # be16_bytes usAddress @ be16_bytes usQuantity);
            Some (xRet, Some resp, s)
          } else Some (xRet, None, s)
        }
      })"

text \<open>The values to write are read through the layout of the other write request, from
  offset 6 and not 10, and the reply is checked for its two header bytes only.\<close>

definition process_write_read_multi_registers ::
    "'s modbus_model \<Rightarrow> (nat \<Rightarrow> bool) \<Rightarrow> u8 list \<Rightarrow> u32 \<Rightarrow> u32 \<Rightarrow> 's \<Rightarrow> 's reply option" where
  "process_write_read_multi_registers M mem req ulReqFrameLen ulRespBuffLen s =
     (if ulReqFrameLen \<le> 10 then Some (FTE_RET_INVALID_MSG, None, s)
      else do {
        usWriteAddress \<leftarrow> be16_at req 5;
        usWriteQuantity \<leftarrow> be16_at req 7;
        ucByteCount \<leftarrow> byte_at req 9;
        usReadAddress \<leftarrow> be16_at req 1;
        usReadQuantity \<leftarrow> be16_at req 3;
        if ulReqFrameLen \<noteq> 10 + ucast ucByteCount then Some (FTE_RET_INVALID_MSG, None, s)
        else if ulRespBuffLen < 2 then Some (FTE_RET_BUFFER_TOO_SMALL, None, s)
        else if \<not> mem (2 * unat usWriteQuantity) then Some (FTE_RET_NOT_ENOUGH_MEMORY, None, s)
        else do {
          vals \<leftarrow> be16s_at req 6 (unat usWriteQuantity);
          let (xRet, s) = FTE_MODBUS_SLAVE_writeMultiRegisters M usWriteAddress usWriteQuantity vals s;
          if xRet \<noteq> FTE_RET_OK then Some (xRet, None, s)
          else if \<not> mem (2 * unat usReadQuantity) then Some (FTE_RET_NOT_ENOUGH_MEMORY, None, s)
          else let (xRet, regs, s) = FTE_MODBUS_SLAVE_readInputRegisters M usReadAddress usReadQuantity
                   (replicate (unat usReadQuantity) 0) s in
            if xRet = FTE_RET_OK then do {
              fc \<leftarrow> byte_at req 0;
              resp \<leftarrow> put_reply ulRespBuffLen
                (fc # ucast (usReadQuantity * 2) # concat (map be16_bytes (take (unat usReadQuantity) regs)));
              Some (xRet, Some resp, s)
            } else Some (xRet, None, s)
        }
      })"

text \<open>An object goes out as its id, its length and that many of its 32 value bytes.\<close>

definition object_bytes :: "modbus_object \<Rightarrow> u8 list option" where
  "object_bytes v = (if unat (ucLen v) \<le> 32 then Some (ucID v # ucLen v # take (unat (ucLen v)) (pValue v)) else None)"

fun objects_bytes :: "modbus_object list \<Rightarrow> u8 list option" where
  "objects_bytes [] = Some []"
| "objects_bytes (v # vs) = do { b \<leftarrow> object_bytes v; bs \<leftarrow> objects_bytes vs; Some (b @ bs) }"

definition process_read_device_ident ::
    "'s modbus_model \<Rightarrow> u8 list \<Rightarrow> u32 \<Rightarrow> u32 \<Rightarrow> 's \<Rightarrow> 's reply option" where
  "process_read_device_ident M req ulReqFrameLen ulRespBuffLen s =
     (if ulReqFrameLen \<le> 4 then Some (FTE_RET_INVALID_MSG, None, s)
      else do {
        ucMEIType \<leftarrow> byte_at req 1;
        ucDeviceIDCode \<leftarrow> byte_at req 2;
        ucObjectID \<leftarrow> byte_at req 3;
        let (xRet, d, s) = FTE_MODBUS_SLAVE_readDeviceIdent M ucMEIType ucDeviceIDCode ucObjectID s;
        if xRet = FTE_RET_OK then do {
          guard_opt (unat (id_count d) \<le> 3 \<and> unat (id_count d) \<le> length (id_values d));
          let values = take (unat (id_count d)) (id_values d);
          let nPos = sum_list (map (\<lambda>v. 2 + unat (ucLen v)) values);
          if unat ulRespBuffLen < 7 + nPos then Some (FTE_RET_BUFFER_TOO_SMALL, None, s)
          else do {
            fc \<leftarrow> byte_at req 0;
            objs \<leftarrow> objects_bytes values;
            resp \<leftarrow> put_reply ulRespBuffLen ([fc, ucMEIType, ucDeviceIDCode, id_conformity d, id_more d,
              id_next d, id_count d] @ objs);
            Some (xRet, Some resp, s)
          }
        } else Some (xRet, None, s)
      })"

section \<open>The dispatcher\<close>

definition process_switch ::
    "'s modbus_model \<Rightarrow> (nat \<Rightarrow> bool) \<Rightarrow> u8 list \<Rightarrow> u32 \<Rightarrow> u32 \<Rightarrow> 's \<Rightarrow> 's reply option" where
  "process_switch M mem req n m s = do {
     fc \<leftarrow> byte_at req 0;
     if fc = 1 then process_read_coils M mem req n m s
     else if fc = 2 then process_read_discrete_inputs M mem req n m s
     else if fc = 3 then process_read_holding_registers M mem req n m s
     else if fc = 4 then process_read_input_registers M mem req n m s
     else if fc = 5 then process_write_single_coil M req n m s
     else if fc = 6 then process_write_single_register M req n m s
     else if fc = 15 then process_write_multi_coils M req n m s
     else if fc = 16 then process_write_multi_registers M mem req n m s
     else if fc = 23 then process_write_read_multi_registers M mem req n m s
     else if fc = 43 then process_read_device_ident M req n m s
     else Some (1, None, s)
   }"

definition modbus_exception :: "fte_ret \<Rightarrow> bool" where
  "modbus_exception r \<longleftrightarrow> r = FTE_RET_MODBUS_INVALID_FUNCTION \<or> r = FTE_RET_MODBUS_INVALID_ADDRESS
     \<or> r = FTE_RET_MODBUS_INVALID_DATA \<or> r = FTE_RET_MODBUS_EXECUTE_ERROR"

definition FTE_MODBUS_SLAVE_process ::
    "'s modbus_model \<Rightarrow> (nat \<Rightarrow> bool) \<Rightarrow> u8 list \<Rightarrow> u32 \<Rightarrow> u32 \<Rightarrow> 's \<Rightarrow> 's reply option" where
  "FTE_MODBUS_SLAVE_process M mem req ulReqFrameLen ulRespBuffLen s = do {
     (xRet, resp, s) \<leftarrow> process_switch M mem req ulReqFrameLen ulRespBuffLen s;
     if modbus_exception xRet then do {
       fc \<leftarrow> byte_at req 0;
       resp \<leftarrow> put_reply ulRespBuffLen [fc OR 0x80, ucast (xRet AND 0x0F)];
       Some (FTE_RET_OK, Some resp, s)
     } else Some (xRet, resp, s)
   }"

section \<open>Frames, proved\<close>

lemma be16_bytes_length [simp]: "length (be16_bytes w) = 2"
  by (simp add: be16_bytes_def)

lemma be16_of_bytes [simp]: "be16 (ucast (drop_bit 8 w)) (ucast (w :: u16)) = w"
  unfolding be16_def by (rule bit_word_eqI) (auto simp: bit_simps)

lemma byte_at_simps [simp]:
  "byte_at [] i = None"
  "byte_at (b # bs) 0 = Some b"
  "byte_at (b # bs) (Suc i) = byte_at bs i"
  "byte_at (b # bs) (numeral k) = byte_at bs (pred_numeral k)"
  by (auto simp: byte_at_def numeral_eq_Suc)

lemma byte_at_eq_None [simp]: "byte_at bs i = None \<longleftrightarrow> length bs \<le> i"
  by (simp add: byte_at_def)

lemma byte_at_eq_Some: "byte_at bs i = Some b \<longleftrightarrow> i < length bs \<and> bs ! i = b"
  by (simp add: byte_at_def)

lemma be16_at_eq_None [simp]: "be16_at bs i = None \<longleftrightarrow> length bs \<le> i + 1"
  by (auto simp: be16_at_def Option.bind_eq_None_conv byte_at_eq_Some not_less)

lemma be16_at_some: "i + 1 < length bs \<Longrightarrow> be16_at bs i = Some (be16 (bs ! i) (bs ! (i + 1)))"
  by (simp add: be16_at_def byte_at_def)

lemma be16s_at_eq_None: "be16s_at bs i n = None \<longleftrightarrow> 0 < n \<and> length bs < i + 2 * n"
proof (induction n arbitrary: i)
  case (Suc n)
  show ?case
  proof (cases "be16_at bs i")
    case (Some v)
    then have "i + 1 < length bs" using be16_at_eq_None [of bs i] by (simp add: not_le)
    then show ?thesis using Some Suc.IH [of "i + 2"] by (auto simp: Option.bind_eq_None_conv)
  next
    case None
    then have "length bs \<le> i + 1" by simp
    moreover have "be16s_at bs i (Suc n) = None" by (simp only: be16s_at.simps None Option.bind.simps)
    ultimately show ?thesis by simp
  qed
qed simp

lemma be16s_at_append:
  "be16s_at (pre @ concat (map be16_bytes vs) @ post) (length pre) (length vs) = Some vs"
proof (induction vs arbitrary: pre)
  case (Cons v vs)
  have "be16s_at ((pre @ be16_bytes v) @ concat (map be16_bytes vs) @ post)
      (length (pre @ be16_bytes v)) (length vs) = Some vs"
    by (rule Cons.IH)
  moreover have "be16_at (pre @ be16_bytes v @ concat (map be16_bytes vs) @ post) (length pre) = Some v"
    by (simp add: be16_at_some be16_bytes_def nth_append)
  ultimately show ?case by simp
qed simp

lemma length_be16_concat [simp]: "length (concat (map be16_bytes vs)) = 2 * length vs"
  by (induction vs) simp_all

lemma put_reply_eq: "put_reply n bs = Some r \<longleftrightarrow> r = bs \<and> length bs \<le> unat n"
  by (auto simp: put_reply_def)

lemma put_reply_None [simp]: "put_reply n bs = None \<longleftrightarrow> unat n < length bs"
  by (auto simp: put_reply_def)

lemma unat_u8: "unat (b :: u8) < 256"
  using unsigned_less [of b, where ?'a = nat] by simp

lemma unat_u16: "unat (b :: u16) < 65536"
  using unsigned_less [of b, where ?'a = nat] by simp

lemma unat_ucast_8_32 [simp]: "unat (ucast (b :: u8) :: u32) = unat b"
  using unat_u8 [of b] by (simp add: unsigned_ucast_eq take_bit_nat_eq_self)

lemma unat_ucast_16_32 [simp]: "unat (ucast (b :: u16) :: u32) = unat b"
  using unat_u16 [of b] by (simp add: unsigned_ucast_eq take_bit_nat_eq_self)

lemma unat_add_ucast8:
  assumes "unat k \<le> 100"
  shows "unat (k + ucast (b :: u8) :: u32) = unat k + unat b"
  using assms unat_u8 [of b] by (subst unat_add_lem [THEN iffD1]) simp_all

lemma unat_two_q:
  fixes q :: u16
  assumes "q \<le> 125"
  shows "unat (2 + ucast q * 2 :: u32) = 2 + 2 * unat q" "unat (q * 2) = 2 * unat q"
    "unat (ucast (q * 2) :: u8) = 2 * unat q"
proof -
  have q: "unat q \<le> 125" using assms by (simp add: word_le_nat_alt)
  have m: "unat (ucast q * 2 :: u32) = 2 * unat q"
    using q by (subst unat_mult_lem [THEN iffD1]) simp_all
  show "unat (2 + ucast q * 2 :: u32) = 2 + 2 * unat q"
    using q m by (subst unat_add_lem [THEN iffD1]) simp_all
  show r: "unat (q * 2) = 2 * unat q"
    using q by (subst unat_mult_lem [THEN iffD1]) simp_all
  show "unat (ucast (q * 2) :: u8) = 2 * unat q"
    using q r by (simp add: unsigned_ucast_eq take_bit_nat_eq_self)
qed

section \<open>What every reply looks like\<close>

text \<open>A reply is there exactly when the code is OK; it starts with the request's function
  code and fits the response buffer.\<close>

definition reply_ok :: "u8 list \<Rightarrow> u32 \<Rightarrow> 's reply option \<Rightarrow> bool" where
  "reply_ok req m R = (case R of None \<Rightarrow> True | Some (r, rep, _) \<Rightarrow> (case rep of
       None \<Rightarrow> r \<noteq> FTE_RET_OK
     | Some b \<Rightarrow> r = FTE_RET_OK \<and> b \<noteq> [] \<and> byte_at req 0 = Some (b ! 0) \<and> length b \<le> unat m))"

lemma reply_okI:
  assumes "\<And>r s'. R = Some (r, None, s') \<Longrightarrow> r \<noteq> FTE_RET_OK"
    and "\<And>r b s'. R = Some (r, Some b, s') \<Longrightarrow>
      r = FTE_RET_OK \<and> b \<noteq> [] \<and> byte_at req 0 = Some (b ! 0) \<and> length b \<le> unat m"
  shows "reply_ok req m R"
  using assms by (auto simp: reply_ok_def split: option.split)

named_theorems shape_intros \<open>the replies of the function codes are well-shaped\<close>

lemma shape_read_coils [shape_intros]: "reply_ok req m (process_read_coils M mem req n m s)"
  unfolding process_read_coils_def Let_def
  by (rule reply_okI) (auto simp: opt_simps put_reply_eq byte_at_eq_Some case_prod_unfold split: if_split_asm)

lemma shape_read_discrete_inputs [shape_intros]: "reply_ok req m (process_read_discrete_inputs M mem req n m s)"
  unfolding process_read_discrete_inputs_def Let_def
  by (rule reply_okI) (auto simp: opt_simps put_reply_eq byte_at_eq_Some case_prod_unfold split: if_split_asm)

lemma shape_read_holding_registers [shape_intros]: "reply_ok req m (process_read_holding_registers M mem req n m s)"
  unfolding process_read_holding_registers_def Let_def
  by (rule reply_okI) (auto simp: opt_simps put_reply_eq byte_at_eq_Some case_prod_unfold split: if_split_asm)

lemma shape_read_input_registers [shape_intros]: "reply_ok req m (process_read_input_registers M mem req n m s)"
  unfolding process_read_input_registers_def Let_def
  by (rule reply_okI) (auto simp: opt_simps put_reply_eq byte_at_eq_Some case_prod_unfold split: if_split_asm)

lemma shape_write_single_coil [shape_intros]: "reply_ok req m (process_write_single_coil M req n m s)"
  unfolding process_write_single_coil_def Let_def
  by (rule reply_okI) (auto simp: opt_simps put_reply_eq byte_at_eq_Some case_prod_unfold split: if_split_asm)

lemma shape_write_single_register [shape_intros]: "reply_ok req m (process_write_single_register M req n m s)"
  unfolding process_write_single_register_def Let_def
  by (rule reply_okI) (auto simp: opt_simps put_reply_eq byte_at_eq_Some case_prod_unfold split: if_split_asm)

lemma shape_write_multi_coils [shape_intros]: "reply_ok req m (process_write_multi_coils M req n m s)"
  unfolding process_write_multi_coils_def Let_def
  by (rule reply_okI) (auto simp: opt_simps put_reply_eq byte_at_eq_Some case_prod_unfold split: if_split_asm)

lemma shape_write_multi_registers [shape_intros]: "reply_ok req m (process_write_multi_registers M mem req n m s)"
  unfolding process_write_multi_registers_def Let_def
  by (rule reply_okI) (auto simp: opt_simps put_reply_eq byte_at_eq_Some case_prod_unfold split: if_split_asm)

lemma shape_write_read_multi_registers [shape_intros]: "reply_ok req m (process_write_read_multi_registers M mem req n m s)"
  unfolding process_write_read_multi_registers_def Let_def
  by (rule reply_okI) (auto simp: opt_simps put_reply_eq byte_at_eq_Some case_prod_unfold split: if_split_asm)

lemma shape_read_device_ident [shape_intros]: "reply_ok req m (process_read_device_ident M req n m s)"
  unfolding process_read_device_ident_def Let_def
  by (rule reply_okI) (auto simp: opt_simps put_reply_eq byte_at_eq_Some case_prod_unfold split: if_split_asm)

lemma shape_switch: "reply_ok req m (process_switch M mem req n m s)"
  by (cases "byte_at req 0") (simp_all add: process_switch_def shape_intros reply_ok_def [of _ _ None]
    reply_ok_def [of _ _ "Some (1, None, s)"])

lemma exception_low_nibble:
  "modbus_exception r \<Longrightarrow> \<exists>k \<in> {1, 2, 3, 4}. (ucast (r AND 0x0F) :: u8) = k"
  by (auto simp: modbus_exception_def)

lemma modbus_exception_not_ok [simp]: "\<not> modbus_exception 0" "\<not> modbus_exception 1"
  by (simp_all add: modbus_exception_def)

lemma frame_length:
  assumes "k \<le> 255"
  shows "(of_nat (6 + k) :: u32) = 6 + ucast (of_nat k :: u8)"
    and "(of_nat (10 + k) :: u32) = 10 + ucast (of_nat k :: u8)"
proof -
  have k: "unat (of_nat k :: u8) = k" using assms by (simp add: unat_of_nat_small)
  show "(of_nat (6 + k) :: u32) = 6 + ucast (of_nat k :: u8)"
    using k assms by (simp add: word_unat_eq_iff unat_add_ucast8 unat_of_nat_small del: of_nat_add)
  show "(of_nat (10 + k) :: u32) = 10 + ucast (of_nat k :: u8)"
    using k assms by (simp add: word_unat_eq_iff unat_add_ucast8 unat_of_nat_small del: of_nat_add)
qed

definition regs_model :: "u16 list modbus_model" where
  "regs_model = \<lparr>fReadCoils = None, fReadDiscreteInputs = None,
     fReadHoldingRegisters = Some (\<lambda>a q buf st. (FTE_RET_OK, take (unat q) (drop (unat a) st @ buf), st)),
     fReadInputRegisters = Some (\<lambda>a q buf st. (FTE_RET_OK, take (unat q) (drop (unat a) st @ buf), st)),
     fWriteSingleCoil = None, fWriteSingleRegister = None, fWriteMultiCoils = None,
     fWriteMultiRegisters = Some (\<lambda>a q vs st. (FTE_RET_OK, vs)), fReadDeviceIdent = None\<rparr>"

text \<open>C14: Whatever the request and the callbacks do, when the slave returns there is a reply
  exactly when the code is OK, the code is never one of the four internal exception
  codes, and a reply fits the response buffer and either starts with the request's
  function code or is the two bytes of an exception: that code with its top bit set and an
  exception number from 1 to 4.\<close>

theorem FTE_MODBUS_SLAVE_reply_shape:
  assumes "FTE_MODBUS_SLAVE_process M mem req n m s = Some (r, rep, s')"
  shows "(rep = None \<longleftrightarrow> r \<noteq> FTE_RET_OK) \<and> \<not> modbus_exception r \<and>
    (\<forall>b. rep = Some b \<longrightarrow> length b \<le> unat m \<and>
      (b ! 0 = req ! 0 \<or> (\<exists>k \<in> {1, 2, 3, 4}. b = [(req ! 0) OR 0x80, k])))"
proof -
  obtain r1 rep1 s1 where sw: "process_switch M mem req n m s = Some (r1, rep1, s1)"
    using assms by (auto simp: FTE_MODBUS_SLAVE_process_def opt_simps)
  have ok: "reply_ok req m (Some (r1, rep1, s1))" using shape_switch [of req m M mem n s] sw by simp
  have "(rep = None \<longleftrightarrow> r \<noteq> FTE_RET_OK) \<and> \<not> modbus_exception r"
    using assms sw ok
    by (auto simp: FTE_MODBUS_SLAVE_process_def opt_simps put_reply_eq reply_ok_def
        split: if_split_asm option.split_asm)
  moreover have "\<forall>b. rep = Some b \<longrightarrow> length b \<le> unat m \<and>
      (b ! 0 = req ! 0 \<or> (\<exists>k \<in> {1, 2, 3, 4}. b = [(req ! 0) OR 0x80, k]))"
    using assms sw ok exception_low_nibble [of r1]
    by (auto simp: FTE_MODBUS_SLAVE_process_def opt_simps put_reply_eq reply_ok_def byte_at_eq_Some
        split: if_split_asm option.split_asm)
  ultimately show ?thesis by blast
qed

lemma FTE_MODBUS_SLAVE_reply_shape_witness:
  "FTE_MODBUS_SLAVE_process regs_model (\<lambda>_. True) [5, 0, 1, 0xFF, 0] 5 260 []
      = Some (FTE_RET_OK, Some [0x85, 1], [])
    \<and> length [0x85, 1 :: u8] \<le> unat (260 :: u32)
    \<and> (\<exists>k \<in> {1, 2, 3, 4}. [0x85, 1] = [(5 :: u8) OR 0x80, k])"
proof -
  have run: "FTE_MODBUS_SLAVE_process regs_model (\<lambda>_. True) [5, 0, 1, 0xFF, 0] 5 260 []
      = Some (FTE_RET_OK, Some [0x85, 1], [])"
    by (simp add: FTE_MODBUS_SLAVE_process_def process_switch_def process_write_single_coil_def be16_at_some
      FTE_MODBUS_SLAVE_writeSingleCoil_def regs_model_def modbus_exception_def put_reply_def)
  note shape = FTE_MODBUS_SLAVE_reply_shape [OF run, THEN conjunct2, THEN conjunct2, rule_format, OF refl]
  from shape have "length [0x85, 1 :: u8] \<le> unat (260 :: u32)" by (rule conjunct1)
  moreover from shape have "\<exists>k \<in> {1, 2, 3, 4}. [0x85, 1] = [(5 :: u8) OR 0x80, k]"
    by (elim conjE disjE) simp_all
  ultimately show ?thesis using run by blast
qed

text \<open>The reply to a READ INPUT REGISTERS request.\<close>

lemma input_registers_reply:
  assumes "1 \<le> q" "q \<le> 125" "2 + 2 * unat q \<le> unat m" "mem (2 * unat q)"
    and "fReadInputRegisters M = Some f" "f a q (replicate (unat q) 0) s = (FTE_RET_OK, regs, s')"
    and "length regs = unat q"
  shows "FTE_MODBUS_SLAVE_process M mem (4 # be16_bytes a @ be16_bytes q @ rest) 5 m s
      = Some (FTE_RET_OK, Some (4 # ucast (q * 2) # concat (map be16_bytes regs)), s')"
    and "be16s_at (4 # ucast (q * 2) # concat (map be16_bytes regs)) 2 (unat q) = Some regs"
proof -
  let ?req = "4 # be16_bytes a @ be16_bytes q @ rest" and ?rep = "[4, ucast (q * 2)] @ concat (map be16_bytes regs) @ []"
  have at: "be16_at ?req 1 = Some a" "be16_at ?req 3 = Some q"
    by (simp_all add: be16_bytes_def be16_at_some)
  have le: "\<not> m < 2 + ucast q * 2"
    using assms unat_two_q [of q] by (simp add: word_less_nat_alt)
  have "FTE_MODBUS_SLAVE_process M mem ?req 5 m s = Some (FTE_RET_OK, Some ?rep, s')"
    using assms at le by (simp add: FTE_MODBUS_SLAVE_process_def process_switch_def
        process_read_input_registers_def FTE_MODBUS_SLAVE_readInputRegisters_def not_less
        put_reply_def word_less_nat_alt word_le_nat_alt)
  then show "FTE_MODBUS_SLAVE_process M mem ?req 5 m s
      = Some (FTE_RET_OK, Some (4 # ucast (q * 2) # concat (map be16_bytes regs)), s')" by simp
  have "be16s_at ?rep 2 (unat q) = Some regs"
    using be16s_at_append [of "[4, ucast (q * 2)]" regs "[]"] assms by (simp add: numeral_2_eq_2)
  then show "be16s_at (4 # ucast (q * 2) # concat (map be16_bytes regs)) 2 (unat q) = Some regs" by simp
qed

text \<open>A READ HOLDING REGISTERS request for 1 to 125 registers whose callback answers OK is
  answered with the function code, the byte count and the registers, high byte first;
  reading them back from the reply gives the callback's registers, and the reply is
  \<open>2 + byte count\<close> long.\<close>

lemma FTE_MODBUS_read_holding_registers:
  assumes "1 \<le> q" "q \<le> 125" "2 + 2 * unat q \<le> unat m" "mem (2 * unat q)"
    and "fReadHoldingRegisters M = Some f" "f a q (replicate (unat q) 0) s = (FTE_RET_OK, regs, s')"
    and "length regs = unat q"
  shows "\<exists>rep. FTE_MODBUS_SLAVE_process M mem (3 # be16_bytes a @ be16_bytes q) 5 m s
      = Some (FTE_RET_OK, Some rep, s')
    \<and> byte_at rep 0 = Some 3 \<and> byte_at rep 1 = Some (of_nat (2 * unat q))
    \<and> be16s_at rep 2 (unat q) = Some regs \<and> length rep = 2 + 2 * unat q"
proof -
  let ?req = "3 # be16_bytes a @ be16_bytes q" and ?rep = "[3, ucast (q * 2)] @ concat (map be16_bytes regs) @ []"
  have at: "be16_at ?req 1 = Some a" "be16_at ?req 3 = Some q"
    by (simp_all add: be16_bytes_def be16_at_some)
  have le: "\<not> m < 2 + ucast q * 2"
    using assms unat_two_q [of q] by (simp add: word_less_nat_alt)
  have ub: "0 < unat q" "unat q \<le> 125" using assms by (simp_all add: word_le_nat_alt)
  have "FTE_MODBUS_SLAVE_process M mem ?req 5 m s = Some (FTE_RET_OK, Some ?rep, s')"
    using assms at le ub by (simp add: FTE_MODBUS_SLAVE_process_def process_switch_def
        process_read_holding_registers_def FTE_MODBUS_SLAVE_readHoldingRegisters_def not_less
        put_reply_def word_less_nat_alt)
  moreover have "be16s_at ?rep 2 (unat q) = Some regs"
    using be16s_at_append [of "[3, ucast (q * 2)]" regs "[]"] assms by (simp add: numeral_2_eq_2)
  moreover have "ucast (q * 2) = (of_nat (2 * unat q) :: u8)"
    using unat_two_q [of q] assms ub by (simp add: word_unat_eq_iff unat_of_nat_small del: of_nat_mult)
  ultimately show ?thesis using assms by (intro exI [of _ ?rep]) simp
qed

lemma FTE_MODBUS_read_holding_registers_witness:
  "\<exists>rep. FTE_MODBUS_SLAVE_process regs_model (\<lambda>_. True) (3 # be16_bytes 1 @ be16_bytes 2) 5 260 [7, 0x1234, 9]
      = Some (FTE_RET_OK, Some rep, [7, 0x1234, 9])
    \<and> byte_at rep 0 = Some 3 \<and> byte_at rep 1 = Some (of_nat (2 * unat (2 :: u16)))
    \<and> be16s_at rep 2 (unat (2 :: u16)) = Some [0x1234, 9] \<and> length rep = 2 + 2 * unat (2 :: u16)"
  by (rule FTE_MODBUS_read_holding_registers [where M = regs_model and a = 1 and s = "[7, 0x1234, 9]"
      and f = "\<lambda>a q buf st. (FTE_RET_OK, take (unat q) (drop (unat a) st @ buf), st)"])
    (simp_all add: regs_model_def)

text \<open>C31: A WRITE MULTIPLE REGISTERS request that carries up to 123 values reaches the callback
  with exactly these values and is answered with the address and the quantity.\<close>

theorem FTE_MODBUS_write_multi_registers:
  assumes "vals \<noteq> []" "length vals \<le> 123" "q = of_nat (length vals)" "5 \<le> m" "mem (2 * length vals)"
    and "fWriteMultiRegisters M = Some f" "f a q vals s = (FTE_RET_OK, s')"
  shows "FTE_MODBUS_SLAVE_process M mem
      (16 # be16_bytes a @ be16_bytes q @ [of_nat (2 * length vals)] @ concat (map be16_bytes vals))
      (of_nat (6 + 2 * length vals)) m s
    = Some (FTE_RET_OK, Some (16 # be16_bytes a @ be16_bytes q), s')"
proof -
  let ?hd = "16 # be16_bytes a @ be16_bytes q @ [of_nat (2 * length vals)] :: u8 list"
  let ?req = "?hd @ concat (map be16_bytes vals) @ []"
  have q: "unat q = length vals" using assms by (simp add: unat_of_nat_small)
  have at: "be16_at ?req 1 = Some a" "be16_at ?req 3 = Some q" "byte_at ?req 5 = Some (of_nat (2 * length vals))"
    by (simp_all add: be16_bytes_def be16_at_some byte_at_def)
  have vs: "be16s_at ?req 6 (length vals) = Some vals"
    using be16s_at_append [of ?hd vals "[]"] by simp
  have len: "(of_nat (6 + 2 * length vals) :: u32) = 6 + ucast (of_nat (2 * length vals) :: u8)"
    by (rule frame_length) (use assms in simp)
  have gt: "\<not> (of_nat (6 + 2 * length vals) :: u32) \<le> 6"
    using assms by (simp add: word_le_nat_alt unat_of_nat_small del: of_nat_mult of_nat_add)
  have "unat m \<ge> 5" using assms by (simp add: word_le_nat_alt)
  then have "process_write_multi_registers M mem ?req (of_nat (6 + 2 * length vals)) m s
    = Some (FTE_RET_OK, Some (16 # be16_bytes a @ be16_bytes q), s')"
    using assms q gt len at vs
    by (simp add: process_write_multi_registers_def FTE_MODBUS_SLAVE_writeMultiRegisters_def put_reply_def
        not_less del: of_nat_mult of_nat_add)
  then show ?thesis
    by (simp add: FTE_MODBUS_SLAVE_process_def process_switch_def)
qed

lemma FTE_MODBUS_write_multi_registers_witness:
  "FTE_MODBUS_SLAVE_process regs_model (\<lambda>_. True)
      (16 # be16_bytes 4 @ be16_bytes (of_nat (length [1, 0x203 :: u16])) @
        [of_nat (2 * length [1, 0x203 :: u16])] @ concat (map be16_bytes [1, 0x203]))
      (of_nat (6 + 2 * length [1, 0x203 :: u16])) 5 []
    = Some (FTE_RET_OK, Some (16 # be16_bytes 4 @ be16_bytes (of_nat (length [1, 0x203 :: u16]))), [1, 0x203])"
  by (rule FTE_MODBUS_write_multi_registers [where vals = "[1, 0x203]"]) (simp_all add: regs_model_def)


text \<open>A WRITE MULTIPLE REGISTERS request whose quantity asks for more bytes than it
  carries passes every check (the byte count is compared with the frame length only, never
  with the quantity) and is read past the end of the receive buffer.\<close>

lemma FTE_MODBUS_write_multi_registers_overread:
  assumes "bs \<noteq> []" "length bs \<le> 255" "length bs < 2 * unat q" "5 \<le> m" "mem (2 * unat q)"
  shows "FTE_MODBUS_SLAVE_process M mem
      (16 # be16_bytes a @ be16_bytes q @ [of_nat (length bs)] @ bs) (of_nat (6 + length bs)) m s = None"
proof -
  let ?req = "16 # be16_bytes a @ be16_bytes q @ [of_nat (length bs)] @ bs :: u8 list"
  have at: "be16_at ?req 1 = Some a" "be16_at ?req 3 = Some q" "byte_at ?req 5 = Some (of_nat (length bs))"
    by (simp_all add: be16_bytes_def be16_at_some byte_at_def)
  have none: "be16s_at ?req 6 (unat q) = None"
    using assms by (simp add: be16s_at_eq_None)
  have len: "(of_nat (6 + length bs) :: u32) = 6 + ucast (of_nat (length bs) :: u8)"
    by (rule frame_length) (use assms in simp)
  have gt: "\<not> (of_nat (6 + length bs) :: u32) \<le> 6"
    using assms by (simp add: word_le_nat_alt unat_of_nat_small del: of_nat_add)
  have "process_write_multi_registers M mem ?req (of_nat (6 + length bs)) m s = None"
    using assms gt len at none
    by (simp add: process_write_multi_registers_def not_less del: of_nat_add)
  then show ?thesis by (simp add: FTE_MODBUS_SLAVE_process_def process_switch_def)
qed

lemma FTE_MODBUS_write_multi_registers_overread_witness:
  "FTE_MODBUS_SLAVE_process regs_model (\<lambda>_. True)
     (16 # be16_bytes 0 @ be16_bytes 123 @ [of_nat (length [0, 5 :: u8])] @ [0, 5])
     (of_nat (6 + length [0, 5 :: u8])) 260 [] = None"
  by (rule FTE_MODBUS_write_multi_registers_overread) simp_all

text \<open>A WRITE/READ MULTIPLE REGISTERS request does not write the values it carries: the
  handler reads them four bytes too early, so the callback gets the low byte of the write
  address with the high byte of the quantity, the low byte of the quantity with the byte
  count, and then the first \<open>n - 2\<close> values.  The reply then comes from the input registers.\<close>

lemma FTE_MODBUS_write_read_writes_header:
  assumes "2 \<le> length vals" "length vals \<le> 122" "q = of_nat (length vals)" "2 \<le> m"
    and "mem (2 * length vals)" "mem (2 * unat rq)"
    and "fWriteMultiRegisters M = Some f"
    and "f wa q (be16 (ucast wa) (ucast (drop_bit 8 q)) # be16 (ucast q) (of_nat (2 * length vals)) #
      take (length vals - 2) vals) s = (FTE_RET_OK, sa)"
    and "fReadInputRegisters M = Some g" "g ra rq (replicate (unat rq) 0) sa = (FTE_RET_OK, regs, sb)"
    and "length regs = unat rq" "2 + 2 * unat rq \<le> unat m"
  shows "FTE_MODBUS_SLAVE_process M mem
      (23 # be16_bytes ra @ be16_bytes rq @ be16_bytes wa @ be16_bytes q @ [of_nat (2 * length vals)] @
        concat (map be16_bytes vals)) (of_nat (10 + 2 * length vals)) m s
    = Some (FTE_RET_OK, Some (23 # ucast (rq * 2) # concat (map be16_bytes regs)), sb)"
proof -
  let ?n = "length vals"
  let ?hd = "23 # be16_bytes ra @ be16_bytes rq @ be16_bytes wa @ be16_bytes q @ [of_nat (2 * ?n)] :: u8 list"
  let ?req = "?hd @ concat (map be16_bytes vals)"
  let ?w = "be16 (ucast wa) (ucast (drop_bit 8 q)) # be16 (ucast q) (of_nat (2 * ?n)) # take (?n - 2) vals"
  have q: "unat q = ?n" using assms by (simp add: unat_of_nat_small)
  have at: "be16_at ?req 1 = Some ra" "be16_at ?req 3 = Some rq" "be16_at ?req 5 = Some wa"
    "be16_at ?req 7 = Some q" "byte_at ?req 9 = Some (of_nat (2 * ?n))" "byte_at ?req 0 = Some 23"
    by (simp_all add: be16_bytes_def be16_at_some byte_at_def)
  have "be16s_at (?hd @ concat (map be16_bytes (take (?n - 2) vals)) @ concat (map be16_bytes (drop (?n - 2) vals)))
      (length ?hd) (length (take (?n - 2) vals)) = Some (take (?n - 2) vals)"
    by (rule be16s_at_append)
  moreover have "concat (map be16_bytes (take (?n - 2) vals)) @ concat (map be16_bytes (drop (?n - 2) vals))
      = concat (map be16_bytes vals)"
    by (simp flip: concat_append map_append)
  ultimately have tl: "be16s_at ?req 10 (?n - 2) = Some (take (?n - 2) vals)"
    using assms by simp
  have ws: "be16s_at ?req 6 (Suc (Suc (?n - 2))) = Some ?w"
    using tl by (simp add: be16_bytes_def be16_at_some)
  have "Suc (Suc (?n - 2)) = ?n" using assms by simp
  with ws have ws: "be16s_at ?req 6 ?n = Some ?w" by simp
  have len: "(of_nat (10 + 2 * ?n) :: u32) = 10 + ucast (of_nat (2 * ?n) :: u8)"
    by (rule frame_length) (use assms in simp)
  have gt: "\<not> (of_nat (10 + 2 * ?n) :: u32) \<le> 10"
    using assms by (auto simp add: word_le_nat_alt unat_of_nat_small simp del: of_nat_mult of_nat_add)
  have "process_write_read_multi_registers M mem ?req (of_nat (10 + 2 * ?n)) m s
    = Some (FTE_RET_OK, Some (23 # ucast (rq * 2) # concat (map be16_bytes regs)), sb)"
    using assms q gt len at ws
    by (simp add: process_write_read_multi_registers_def FTE_MODBUS_SLAVE_writeMultiRegisters_def
        FTE_MODBUS_SLAVE_readInputRegisters_def put_reply_def not_less del: of_nat_mult of_nat_add)
  then show ?thesis
    by (simp add: FTE_MODBUS_SLAVE_process_def process_switch_def)
qed

lemma FTE_MODBUS_write_read_writes_header_witness:
  "FTE_MODBUS_SLAVE_process regs_model (\<lambda>_. True)
      (23 # be16_bytes 0 @ be16_bytes 2 @ be16_bytes 0 @ be16_bytes (of_nat (length [1, 2 :: u16])) @
        [of_nat (2 * length [1, 2 :: u16])] @ concat (map be16_bytes [1, 2]))
      (of_nat (10 + 2 * length [1, 2 :: u16])) 260 []
    = Some (FTE_RET_OK, Some (23 # ucast (2 * 2 :: u16) # concat (map be16_bytes [be16 0 0, be16 2 4])),
      [be16 0 0, be16 2 4])"
  by (rule FTE_MODBUS_write_read_writes_header
      [where vals = "[1, 2]" and ra = 0 and rq = 2 and wa = 0 and s = "[]" and sa = "[be16 0 0, be16 2 4]"
        and f = "\<lambda>a q vs st. (FTE_RET_OK, vs)"
        and g = "\<lambda>a q buf st. (FTE_RET_OK, take (unat q) (drop (unat a) st @ buf), st)"])
    (simp_all add: regs_model_def)

text \<open>A request with a function code the switch does not know is not answered with exception
  01: the code is 1 (the exception number, not the internal code it stands for), no reply
  is made and the callbacks are not called.\<close>

lemma FTE_MODBUS_unknown_function_unanswered:
  assumes "byte_at req 0 = Some fc" "fc \<notin> {1, 2, 3, 4, 5, 6, 15, 16, 23, 43}"
  shows "FTE_MODBUS_SLAVE_process M mem req n m s = Some (1, None, s)"
  using assms by (simp add: FTE_MODBUS_SLAVE_process_def process_switch_def)

lemma FTE_MODBUS_unknown_function_unanswered_witness:
  "FTE_MODBUS_SLAVE_process regs_model (\<lambda>_. True) [7] 1 260 [] = Some (1, None, [])"
  by (rule FTE_MODBUS_unknown_function_unanswered [of _ 7]) simp_all

text \<open>A request for the device identification with exactly its four bytes is refused, with
  no reply, whatever the model.\<close>

lemma FTE_MODBUS_device_ident_refused:
  "FTE_MODBUS_SLAVE_process M mem [43, mei, code, obj] 4 m s = Some (FTE_RET_INVALID_MSG, None, s)"
  by (simp add: FTE_MODBUS_SLAVE_process_def process_switch_def process_read_device_ident_def modbus_exception_def)

lemma be16_at_long: "i + 1 < length bs \<Longrightarrow> \<exists>w. be16_at bs i = Some w"
  by (simp add: be16_at_some)

lemma fixed_frame:
  assumes "unat n = length req" "\<not> n \<noteq> (5 :: u32)"
  obtains a q where "be16_at req 1 = Some a" "be16_at req 3 = Some q" "byte_at req 0 = Some (req ! 0)"
proof -
  have l: "length req = 5" using assms by simp
  then have "req \<noteq> []" by auto
  then show thesis using l by (intro that) (simp_all add: be16_at_some byte_at_def)
qed

lemma byte_reply_fits:
  assumes "\<not> (m :: u32) < 2 + ucast (c :: u8)"
  shows "2 + unat c \<le> unat m"
  using assms unat_add_ucast8 [of 2 c] by (simp add: word_less_nat_alt not_less)

lemma reg_reply_fits:
  assumes "\<not> (m :: u32) < 2 + ucast (q :: u16) * 2" "\<not> 125 < q"
  shows "2 + 2 * unat q \<le> unat m"
  using assms unat_two_q [of q] by (simp add: word_less_nat_alt not_less)

lemma five_fits: "\<not> 5 \<le> unat m \<Longrightarrow> (m :: u32) < 5"
  by (simp add: word_less_nat_alt not_le)

named_theorems returns_intros \<open>the function codes return on frames of the reported length\<close>

lemma returns_read_coils [returns_intros]:
  assumes "unat n = length req"
  shows "process_read_coils M mem req n m s \<noteq> None"
proof (cases "n \<noteq> 5")
  case False
  with assms obtain a q where at: "be16_at req 1 = Some a" "be16_at req 3 = Some q" "byte_at req 0 = Some (req ! 0)"
    by (rule fixed_frame)
  show ?thesis
    unfolding process_read_coils_def Let_def using False at
    by (auto simp: opt_simps put_reply_def case_prod_unfold min_def dest!: byte_reply_fits split: if_split_asm)
qed (simp add: process_read_coils_def)

lemma returns_read_discrete_inputs [returns_intros]:
  assumes "unat n = length req"
  shows "process_read_discrete_inputs M mem req n m s \<noteq> None"
proof (cases "n \<noteq> 5")
  case False
  with assms obtain a q where at: "be16_at req 1 = Some a" "be16_at req 3 = Some q" "byte_at req 0 = Some (req ! 0)"
    by (rule fixed_frame)
  show ?thesis
    unfolding process_read_discrete_inputs_def Let_def using False at
    by (auto simp: opt_simps put_reply_def case_prod_unfold min_def dest!: byte_reply_fits split: if_split_asm)
qed (simp add: process_read_discrete_inputs_def)

lemma returns_read_holding_registers [returns_intros]:
  assumes "unat n = length req"
  shows "process_read_holding_registers M mem req n m s \<noteq> None"
proof (cases "n \<noteq> 5")
  case False
  with assms obtain a q where at: "be16_at req 1 = Some a" "be16_at req 3 = Some q" "byte_at req 0 = Some (req ! 0)"
    by (rule fixed_frame)
  show ?thesis
    unfolding process_read_holding_registers_def Let_def using False at
    by (auto simp: opt_simps put_reply_def case_prod_unfold min_def dest!: reg_reply_fits split: if_split_asm)
qed (simp add: process_read_holding_registers_def)

lemma returns_read_input_registers [returns_intros]:
  assumes "unat n = length req"
  shows "process_read_input_registers M mem req n m s \<noteq> None"
proof (cases "n \<noteq> 5")
  case False
  with assms obtain a q where at: "be16_at req 1 = Some a" "be16_at req 3 = Some q" "byte_at req 0 = Some (req ! 0)"
    by (rule fixed_frame)
  show ?thesis
    unfolding process_read_input_registers_def Let_def using False at
    by (auto simp: opt_simps put_reply_def case_prod_unfold min_def dest!: reg_reply_fits split: if_split_asm)
qed (simp add: process_read_input_registers_def)

lemma returns_write_single_coil [returns_intros]:
  assumes "unat n = length req"
  shows "process_write_single_coil M req n m s \<noteq> None"
proof (cases "n \<noteq> 5")
  case False
  with assms obtain a q where at: "be16_at req 1 = Some a" "be16_at req 3 = Some q" "byte_at req 0 = Some (req ! 0)"
    by (rule fixed_frame)
  show ?thesis
    unfolding process_write_single_coil_def Let_def using False at
    by (auto simp: opt_simps put_reply_def case_prod_unfold min_def dest!: five_fits split: if_split_asm)
qed (simp add: process_write_single_coil_def)

lemma returns_write_single_register [returns_intros]:
  assumes "unat n = length req"
  shows "process_write_single_register M req n m s \<noteq> None"
proof (cases "n \<noteq> 5")
  case False
  with assms obtain a q where at: "be16_at req 1 = Some a" "be16_at req 3 = Some q" "byte_at req 0 = Some (req ! 0)"
    by (rule fixed_frame)
  show ?thesis
    unfolding process_write_single_register_def Let_def using False at
    by (auto simp: opt_simps put_reply_def case_prod_unfold min_def dest!: five_fits split: if_split_asm)
qed (simp add: process_write_single_register_def)


lemma six_bytes:
  assumes "unat n = length req" "\<not> n \<le> (6 :: u32)"
  obtains a q c where "be16_at req 1 = Some a" "be16_at req 3 = Some q" "byte_at req 5 = Some c"
    "byte_at req 0 = Some (req ! 0)" "6 < length req" "q = be16 (req ! 3) (req ! 4)"
proof -
  have l: "6 < length req" using assms by (simp add: word_le_nat_alt)
  then have "req \<noteq> []" by auto
  then show thesis using l by (intro that) (simp_all add: be16_at_some byte_at_def)
qed

lemma returns_write_multi_coils [returns_intros]:
  assumes "unat n = length req"
  shows "process_write_multi_coils M req n m s \<noteq> None"
proof (cases "n \<le> 6")
  case False
  from six_bytes [OF assms False] obtain a q c where at: "be16_at req 1 = Some a" "be16_at req 3 = Some q"
    "byte_at req 5 = Some c" "byte_at req 0 = Some (req ! 0)" .
  show ?thesis
    unfolding process_write_multi_coils_def Let_def using False at
    by (auto simp: opt_simps put_reply_def case_prod_unfold dest!: five_fits split: if_split_asm)
qed (simp add: process_write_multi_coils_def)

lemma returns_write_multi_registers:
  assumes "unat n = length req" "6 + 2 * unat (be16 (req ! 3) (req ! 4)) \<le> length req"
  shows "process_write_multi_registers M mem req n m s \<noteq> None"
proof (cases "n \<le> 6")
  case False
  from six_bytes [OF assms(1) False] obtain a q c where at: "be16_at req 1 = Some a" "be16_at req 3 = Some q"
    "byte_at req 5 = Some c" "byte_at req 0 = Some (req ! 0)" and q: "q = be16 (req ! 3) (req ! 4)" .
  obtain vs where vs: "be16s_at req 6 (unat q) = Some vs"
    using be16s_at_eq_None [of req 6 "unat q"] assms q by (cases "be16s_at req 6 (unat q)") simp_all
  show ?thesis
    unfolding process_write_multi_registers_def Let_def using False at vs
    by (auto simp: opt_simps put_reply_def case_prod_unfold dest!: five_fits split: if_split_asm)
qed (simp add: process_write_multi_registers_def)

text \<open>C15: No access out of bounds for the eight simpler function codes and for the unknown ones:
  when the frame length is the receive buffer's, the response buffer holds at least an
  exception, and a WRITE MULTIPLE REGISTERS request carries the bytes its quantity asks for,
  the slave returns, whatever the callbacks and the allocator answer.\<close>

theorem FTE_MODBUS_SLAVE_in_bounds:
  assumes "unat n = length req" "req \<noteq> []" "2 \<le> m" "req ! 0 \<noteq> 23" "req ! 0 \<noteq> 43"
    and "req ! 0 = 16 \<longrightarrow> 6 + 2 * unat (be16 (req ! 3) (req ! 4)) \<le> length req"
  shows "\<exists>r rep s'. FTE_MODBUS_SLAVE_process M mem req n m s = Some (r, rep, s')"
proof -
  have fc: "byte_at req 0 = Some (req ! 0)" using assms by (simp add: byte_at_def)
  have "process_switch M mem req n m s \<noteq> None"
    using assms fc returns_write_multi_registers [of n req M mem m s]
    by (simp add: process_switch_def returns_intros del: not_None_eq)
  moreover have "2 \<le> unat m" using assms by (simp add: word_le_nat_alt)
  ultimately have "FTE_MODBUS_SLAVE_process M mem req n m s \<noteq> None"
    using fc by (auto simp: FTE_MODBUS_SLAVE_process_def opt_simps put_reply_def split: if_split_asm)
  then show ?thesis by auto
qed

lemma FTE_MODBUS_SLAVE_in_bounds_witness:
  "\<exists>r rep s'. FTE_MODBUS_SLAVE_process regs_model (\<lambda>_. True) [16, 0, 0, 0, 1, 2, 0, 5] 8 2 [] = Some (r, rep, s')"
  by (rule FTE_MODBUS_SLAVE_in_bounds) (simp_all add: be16_def)

end
