(* ===== verification/FTE_ConfigFlash.thy ===== *)
theory FTE_ConfigFlash
  imports FTE_Config
begin

unbundle bit_operations_syntax

text \<open>
  What the configuration store of \<^verbatim>\<open>target/source/fte_config.c\<close> keeps through a loss of power.
  \<open>holds\<close> says what a pair of devices stands for; every turn of the save loop keeps the old
  image until the new one is written, so that an interrupted save leaves one of the two.
\<close>

section \<open>What the flash holds\<close>

text \<open>
  \<open>holds enc D n b\<close>: the flash stands for the body \<open>b\<close> with serial number \<open>n\<close>.  The device
  of the parity of \<open>n\<close> has the valid image, the other one nothing valid as new.
\<close>

definition max_serial :: nat where "max_serial = 0x7FFFFFFF"

definition holds :: "('b \<Rightarrow> u8 list) \<Rightarrow> (nat \<Rightarrow> 'b mtd) \<Rightarrow> nat \<Rightarrow> 'b \<Rightarrow> bool" where
  "holds enc D n b \<longleftrightarrow> 1 \<le> n \<and> n \<le> max_serial
     \<and> (\<exists>p. D (n mod 2) = Some p \<and> pool_valid enc p \<and> poolID p = of_nat n \<and> body p = b)
     \<and> (\<exists>q. D (Suc n mod 2) = Some q \<and> (pool_valid enc q \<longrightarrow> unat (poolID q) < n))"

lemma serial_unat: "n \<le> max_serial \<Longrightarrow> unat (of_nat n :: u32) = n"
  by (simp add: max_serial_def unat_of_nat_small)

lemma serial_sint: "pool_valid enc p \<Longrightarrow> sint (poolID p) = int (unat (poolID p))"
  by (rule sint_small) (auto simp: pool_valid_def word_le_nat_alt)

lemma load_holds:
  assumes "holds enc D n b" "poolID cur = 0"
  shows "body (load_pool enc D cur) = b" "poolID (load_pool enc D cur) = of_nat n"
    "pool_valid enc (load_pool enc D cur)"
proof -
  obtain p q where p: "D (n mod 2) = Some p" "pool_valid enc p" "poolID p = of_nat n" "body p = b"
    and q: "D (Suc n mod 2) = Some q" "pool_valid enc q \<longrightarrow> unat (poolID q) < n"
    using assms(1) by (auto simp: holds_def)
  have n: "1 \<le> n" "n \<le> max_serial" using assms(1) by (auto simp: holds_def)
  have sp: "sint (poolID p) = int n" using serial_sint [OF p(2)] p(3) serial_unat [OF n(2)] by simp
  have sq: "pool_valid enc q \<Longrightarrow> 0 \<le> sint (poolID q) \<and> sint (poolID q) < int n"
    using serial_sint [of enc q] q(2) by (metis of_nat_0_le_iff of_nat_less_iff)
  have "load_pool enc D cur = p"
  proof (cases "n mod 2 = 0")
    case True
    then have "D 0 = Some p" "D 1 = Some q" using p(1) q(1) by (auto simp: mod_Suc)
    then show ?thesis using p(2) sp sq n assms(2) by (auto simp: load_pool_def load_step_def)
  next
    case False
    then have "n mod 2 = 1" by simp
    moreover have "Suc n mod 2 = 0" using False by (simp add: mod_Suc)
    ultimately have "D 1 = Some p" "D 0 = Some q" using p(1) q(1) by auto
    then show ?thesis using p(2) sp sq n assms(2) by (auto simp: load_pool_def load_step_def)
  qed
  then show "body (load_pool enc D cur) = b" "poolID (load_pool enc D cur) = of_nat n"
    "pool_valid enc (load_pool enc D cur)" using p by simp_all
qed

section \<open>One write\<close>

lemma serial_Suc: "Suc n \<le> max_serial \<Longrightarrow> unat (of_nat n + 1 :: u32) = Suc n"
  using serial_unat [of "Suc n"] by (simp add: add.commute)

text \<open>The pool as the next turn of the loop writes it.\<close>

definition next_image :: "('b \<Rightarrow> u8 list) \<Rightarrow> 'b cfg_pool \<Rightarrow> 'b cfg_pool" where
  "next_image enc p = (let p = p\<lparr>poolID := poolID p + 1\<rparr> in p\<lparr>ulCRC := pool_crc enc p\<rparr>)"

lemma next_image_simps [simp]:
  "poolID (next_image enc p) = poolID p + 1" "ulTag (next_image enc p) = ulTag p"
  "body (next_image enc p) = body p"
  by (simp_all add: next_image_def Let_def)

lemma next_image_valid:
  assumes "poolID p = of_nat n" "Suc n \<le> max_serial" "ulTag p = FTE_CFG_POOL_VERSION"
  shows "pool_valid enc (next_image enc p)"
proof -
  have "unat (of_nat n + 1 :: u32) = Suc n" by (rule serial_Suc [OF assms(2)])
  then show ?thesis using assms
    by (simp add: pool_valid_def next_image_def Let_def pool_crc_def word_le_nat_alt max_serial_def)
qed

lemma device_of_serial: "Suc n \<le> max_serial \<Longrightarrow> unat ((of_nat n + 1 :: u32) AND 1) = Suc n mod 2"
  using serial_Suc [of n] by (simp add: and_one_eq unat_mod)

lemma save_loop_Suc:
  "save_loop enc torn (Suc k) p D ws =
     (let p = next_image enc p; nMTD = unat (poolID p AND 1)
      in case D nMTD of
           None \<Rightarrow> save_loop enc torn k p D ws
         | Some _ \<Rightarrow> (case ws of
             [] \<Rightarrow> save_loop enc torn k p (D(nMTD := Some p)) []
           | WOk # ws \<Rightarrow> save_loop enc torn k p (D(nMTD := Some p)) ws
           | WShort # ws \<Rightarrow> (p, D(nMTD := Some torn), ws, WriteError)
           | WCut # ws \<Rightarrow> (p, D(nMTD := Some torn), ws, PowerLost)))"
  by (simp only: save_loop.simps next_image_def Let_def)

lemma holds_written:
  assumes "holds enc D n b" "poolID p = of_nat n" "Suc n \<le> max_serial" "ulTag p = FTE_CFG_POOL_VERSION"
  shows "holds enc (D(Suc n mod 2 := Some (next_image enc p))) (Suc n) (body p)"
proof -
  obtain q where q: "D (n mod 2) = Some q" "poolID q = of_nat n"
    using assms(1) by (auto simp: holds_def)
  have "n mod 2 \<noteq> Suc n mod 2" by (simp add: mod_Suc)
  moreover have "Suc (Suc n) mod 2 = n mod 2" by (simp add: mod_Suc)
  ultimately show ?thesis
    using q next_image_valid [OF assms(2,3,4)] assms(2,3) serial_unat [of n]
    by (auto simp: holds_def)
qed

lemma holds_torn:
  assumes "holds enc D n b" "\<not> pool_valid enc torn"
  shows "holds enc (D(Suc n mod 2 := Some torn)) n b"
proof -
  have "n mod 2 \<noteq> Suc n mod 2" by (simp add: mod_Suc)
  then show ?thesis using assms by (auto simp: holds_def)
qed

text \<open>One turn of the loop: it writes the image the loop goes on with, or stops with the
  old one still there.\<close>

lemma save_loop_turn:
  assumes "holds enc D n b" "poolID p = of_nat n" "Suc n \<le> max_serial"
    "ulTag p = FTE_CFG_POOL_VERSION" "\<not> pool_valid enc torn"
  obtains (go) ws' where "save_loop enc torn (Suc k) p D ws
      = save_loop enc torn k (next_image enc p) (D(Suc n mod 2 := Some (next_image enc p))) ws'"
  | (stop) ws' r where "save_loop enc torn (Suc k) p D ws
      = (next_image enc p, D(Suc n mod 2 := Some torn), ws', r)" "r \<noteq> Saved"
proof -
  obtain q where q: "D (Suc n mod 2) = Some q" using assms(1) by (auto simp: holds_def)
  have d: "unat ((of_nat n + 1 :: u32) AND 1) = Suc n mod 2" using assms(3) by (rule device_of_serial)
  have u: "save_loop enc torn (Suc k) p D ws = (case ws of
       [] \<Rightarrow> save_loop enc torn k (next_image enc p) (D(Suc n mod 2 := Some (next_image enc p))) []
     | WOk # ws \<Rightarrow> save_loop enc torn k (next_image enc p) (D(Suc n mod 2 := Some (next_image enc p))) ws
     | WShort # ws \<Rightarrow> (next_image enc p, D(Suc n mod 2 := Some torn), ws, WriteError)
     | WCut # ws \<Rightarrow> (next_image enc p, D(Suc n mod 2 := Some torn), ws, PowerLost))"
    using d q assms(2) by (simp only: save_loop_Suc Let_def next_image_simps option.case)
  show thesis
  proof (cases ws)
    case Nil
    with u show thesis by (intro go [of "[]"]) simp
  next
    case (Cons w ws')
    then show thesis
    proof (cases w)
      case WOk
      with u Cons show thesis by (intro go [of ws']) simp
    next
      case WShort
      with u Cons show thesis by (intro stop [of ws' WriteError]) simp_all
    next
      case WCut
      with u Cons show thesis by (intro stop [of ws' PowerLost]) simp_all
    qed
  qed
qed

text \<open>The two turns: the flash stands for the new body when the loop ends, and for the old or
  the new one when it is interrupted.\<close>

lemma save_two:
  assumes "holds enc D n b" "poolID p = of_nat n" "n + 2 \<le> max_serial"
    "ulTag p = FTE_CFG_POOL_VERSION" "\<not> pool_valid enc torn"
    and "save_loop enc torn 2 p D ws = (p', D', ws', r)"
  shows "ulTag p' = ulTag p \<and> body p' = body p
    \<and> (r = Saved \<longrightarrow> holds enc D' (n + 2) (body p) \<and> poolID p' = of_nat (n + 2))
    \<and> (r \<noteq> Saved \<longrightarrow> holds enc D' n b \<or> holds enc D' (n + 1) (body p))"
proof -
  have n: "Suc n \<le> max_serial" "Suc (Suc n) \<le> max_serial" using assms(3) by simp_all
  have h1: "holds enc (D(Suc n mod 2 := Some (next_image enc p))) (Suc n) (body p)"
    by (rule holds_written [OF assms(1,2) n(1) assms(4)])
  have i1: "poolID (next_image enc p) = of_nat (Suc n)" using assms(2) by simp
  have t1: "ulTag (next_image enc p) = FTE_CFG_POOL_VERSION" using assms(4) by simp
  from assms(1,2) n(1) assms(4,5) show ?thesis
  proof (cases rule: save_loop_turn [where k = 1 and ws = ws])
    case (go ws1)
    have two: "save_loop enc torn 2 p D ws = save_loop enc torn (Suc 0) (next_image enc p)
        (D(Suc n mod 2 := Some (next_image enc p))) ws1"
      using go by (simp add: numeral_2_eq_2 del: save_loop.simps)
    from h1 i1 n(2) t1 assms(5) show ?thesis
    proof (cases rule: save_loop_turn [where k = 0 and ws = ws1])
      case (go ws2)
      have "holds enc ((D(Suc n mod 2 := Some (next_image enc p)))
          (Suc (Suc n) mod 2 := Some (next_image enc (next_image enc p)))) (Suc (Suc n)) (body p)"
        using holds_written [OF h1 i1 n(2) t1] by simp
      then show ?thesis using go two assms(2,6) by (auto simp: add.commute)
    next
      case (stop ws2 r2)
      have "holds enc ((D(Suc n mod 2 := Some (next_image enc p)))(Suc (Suc n) mod 2 := Some torn))
          (Suc n) (body p)"
        by (rule holds_torn [OF h1 assms(5)])
      then show ?thesis using stop two assms(6) by auto
    qed
  next
    case (stop ws1 r1)
    have "holds enc (D(Suc n mod 2 := Some torn)) n b" by (rule holds_torn [OF assms(1,5)])
    then show ?thesis using stop assms(6) by (auto simp: numeral_2_eq_2 simp del: save_loop.simps)
  qed
qed


section \<open>Saving and starting again\<close>

text \<open>A pool in memory and its devices agree: the serial number is the flash's, and a pool not
  marked as modified has the flash's body.\<close>

definition synced :: "('b \<Rightarrow> u8 list) \<Rightarrow> bool \<Rightarrow> 'b cfg_pool \<Rightarrow> (nat \<Rightarrow> 'b mtd) \<Rightarrow> bool" where
  "synced enc flag p D \<longleftrightarrow> ulTag p = FTE_CFG_POOL_VERSION
     \<and> (\<exists>n b. holds enc D n b \<and> poolID p = of_nat n \<and> (\<not> flag \<longrightarrow> body p = b))"

definition cfg_synced :: "cfg_env \<Rightarrow> fte_config \<Rightarrow> cfg_flash \<Rightarrow> bool" where
  "cfg_synced E c F \<longleftrightarrow> synced (encPool E) (bPoolModified c) (xPool c) (mPool F)
     \<and> synced (encObject E) (bObjectPoolModified c) (xObjectPool c) (mObject F)
     \<and> synced (encEvent E) (bEventPoolModified c) (xEventPool c) (mEvent F)
     \<and> synced (encExt E) (bExtPoolModified c) (xExtPool c) (mExt F)"

definition serials_left :: "fte_config \<Rightarrow> bool" where
  "serials_left c \<longleftrightarrow> unat (poolID (xPool c)) + 2 \<le> max_serial \<and> unat (poolID (xObjectPool c)) + 2 \<le> max_serial
     \<and> unat (poolID (xEventPool c)) + 2 \<le> max_serial \<and> unat (poolID (xExtPool c)) + 2 \<le> max_serial"

text \<open>The check refuses what an interrupted write leaves.\<close>

definition torn_refused :: "cfg_env \<Rightarrow> bool" where
  "torn_refused E \<longleftrightarrow> \<not> pool_valid (encPool E) (tornPool E) \<and> \<not> pool_valid (encObject E) (tornObject E)
     \<and> \<not> pool_valid (encEvent E) (tornEvent E) \<and> \<not> pool_valid (encExt E) (tornExt E)"

definition stands_for :: "('b \<Rightarrow> u8 list) \<Rightarrow> (nat \<Rightarrow> 'b mtd) \<Rightarrow> 'b \<Rightarrow> bool" where
  "stands_for enc D b \<longleftrightarrow> (\<exists>n. holds enc D n b)"

lemma holds_unique:
  assumes "holds enc D n b" "holds enc D n' b'"
  shows "n = n'" "b = b'"
proof -
  have z: "poolID (pool_zero b) = 0" by (simp add: pool_zero_def)
  show "b = b'" by (rule trans [OF load_holds(1) [OF assms(1) z, symmetric] load_holds(1) [OF assms(2) z]])
  have "(of_nat n :: u32) = of_nat n'"
    by (rule trans [OF load_holds(2) [OF assms(1) z, symmetric] load_holds(2) [OF assms(2) z]])
  moreover have "n \<le> max_serial" "n' \<le> max_serial" using assms by (simp_all add: holds_def)
  ultimately show "n = n'" using serial_unat [of n] serial_unat [of n'] by metis
qed

lemma load_stands:
  assumes "stands_for enc D b"
  shows "body (load_pool enc D (pool_zero z)) = b" "poolID (load_pool enc D (pool_zero z)) \<noteq> 0"
proof -
  obtain n where n: "holds enc D n b" using assms by (auto simp: stands_for_def)
  then have "1 \<le> n" "n \<le> max_serial" by (simp_all add: holds_def)
  then have "(of_nat n :: u32) \<noteq> 0" using serial_unat [of n] by (metis unat_0 not_one_le_zero)
  then show "body (load_pool enc D (pool_zero z)) = b" "poolID (load_pool enc D (pool_zero z)) \<noteq> 0"
    using load_holds [OF n, of "pool_zero z"] by (simp_all add: pool_zero_def)
qed

text \<open>One block of \<^verbatim>\<open>FTE_CFG_save\<close>, for every pool alike.\<close>

lemma block_ok:
  assumes "synced enc flag p D" "unat (poolID p) + 2 \<le> max_serial" "\<not> pool_valid enc torn"
    and "save_loop enc torn 2 p D ws = (p', D', ws', r)"
  shows "body p' = body p"
    and "r = Saved \<Longrightarrow> synced enc False p' D' \<and> stands_for enc D' (body p)"
    and "stands_for enc D b \<Longrightarrow> stands_for enc D' b \<or> stands_for enc D' (body p)"
proof -
  obtain n b0 where n: "holds enc D n b0" "poolID p = of_nat n" "ulTag p = FTE_CFG_POOL_VERSION"
    using assms(1) by (auto simp: synced_def)
  then have "n \<le> max_serial" by (simp add: holds_def)
  then have "n + 2 \<le> max_serial" using assms(2) n(2) serial_unat by simp
  note two = save_two [OF n(1,2) this n(3) assms(3,4)]
  show "body p' = body p" using two by blast
  show "r = Saved \<Longrightarrow> synced enc False p' D' \<and> stands_for enc D' (body p)"
    using two n(3) unfolding synced_def stands_for_def by metis
  show "stands_for enc D' b \<or> stands_for enc D' (body p)" if "stands_for enc D b"
  proof -
    obtain m where "holds enc D m b" using \<open>stands_for enc D b\<close> by (auto simp: stands_for_def)
    then have "b = b0" using holds_unique(2) [OF _ n(1)] by blast
    then show ?thesis using two unfolding stands_for_def by metis
  qed
qed

text \<open>What a block does to its own pool and devices; the others it does not touch.\<close>

definition block_post :: "('b \<Rightarrow> u8 list) \<Rightarrow> bool \<Rightarrow> 'b cfg_pool \<Rightarrow> (nat \<Rightarrow> 'b mtd) \<Rightarrow> bool \<Rightarrow> 'b cfg_pool
    \<Rightarrow> (nat \<Rightarrow> 'b mtd) \<Rightarrow> save_outcome \<Rightarrow> bool" where
  "block_post enc flag p D flag' p' D' r \<longleftrightarrow> body p' = body p
     \<and> (r = Saved \<longrightarrow> synced enc flag' p' D' \<and> stands_for enc D' (body p))
     \<and> (\<forall>b. stands_for enc D b \<longrightarrow> stands_for enc D' b \<or> stands_for enc D' (body p))"

lemma block_post_written:
  assumes "synced enc flag p D" "unat (poolID p) + 2 \<le> max_serial" "\<not> pool_valid enc torn"
    and "save_loop enc torn 2 p D ws = (p', D', ws', r)" "flag' = (if r = Saved then False else flag)"
  shows "block_post enc flag p D flag' p' D' r"
  using block_ok [OF assms(1-4)] assms(5) by (auto simp: block_post_def)

lemma block_post_clean:
  assumes "synced enc flag p D" "\<not> flag"
  shows "block_post enc flag p D flag p D Saved"
  using assms by (auto simp: block_post_def synced_def stands_for_def)

lemma block_post_same:
  assumes "r \<noteq> Saved"
  shows "block_post enc flag p D flag p D r"
  using assms by (auto simp: block_post_def)

lemma save_block_post:
  assumes "synced enc flag p D" "unat (poolID p) + 2 \<le> max_serial" "\<not> pool_valid enc torn"
    "save_block enc torn force flag p D ws = (flag', p', D', ws', r)"
  shows "block_post enc flag p D flag' p' D' r"
proof (cases "force \<or> flag")
  case True
  obtain p1 D1 ws1 r1 where l: "save_loop enc torn 2 p D ws = (p1, D1, ws1, r1)" by (metis prod_cases4)
  then have "p1 = p'" "D1 = D'" "r1 = r" "flag' = (if r = Saved then False else flag)"
    using assms(4) True by (auto simp: save_block_def)
  then show ?thesis using block_post_written [OF assms(1-3) l] by simp
next
  case False
  then show ?thesis using block_post_clean [OF assms(1)] assms(4) by (simp add: save_block_def)
qed

lemma save_block_pool_post:
  assumes "synced (encPool E) (bPoolModified c) (xPool c) (mPool F)" "unat (poolID (xPool c)) + 2 \<le> max_serial"
    "\<not> pool_valid (encPool E) (tornPool E)" "save_block_pool E force c F ws = (c', F', ws', r)"
  obtains f p D where "c' = c\<lparr>xPool := p, bPoolModified := f\<rparr>" "F' = F\<lparr>mPool := D\<rparr>"
    "block_post (encPool E) (bPoolModified c) (xPool c) (mPool F) f p D r"
  using assms(4) save_block_post [OF assms(1-3)] that by (auto simp: save_block_pool_def split: prod.splits)

lemma save_block_object_post:
  assumes "synced (encObject E) (bObjectPoolModified c) (xObjectPool c) (mObject F)" "unat (poolID (xObjectPool c)) + 2 \<le> max_serial"
    "\<not> pool_valid (encObject E) (tornObject E)" "save_block_object E force c F ws = (c', F', ws', r)"
  obtains f p D where "c' = c\<lparr>xObjectPool := p, bObjectPoolModified := f\<rparr>" "F' = F\<lparr>mObject := D\<rparr>"
    "block_post (encObject E) (bObjectPoolModified c) (xObjectPool c) (mObject F) f p D r"
  using assms(4) save_block_post [OF assms(1-3)] that by (auto simp: save_block_object_def split: prod.splits)

lemma save_block_event_post:
  assumes "synced (encEvent E) (bEventPoolModified c) (xEventPool c) (mEvent F)" "unat (poolID (xEventPool c)) + 2 \<le> max_serial"
    "\<not> pool_valid (encEvent E) (tornEvent E)" "save_block_event E force c F ws = (c', F', ws', r)"
  obtains f p D where "c' = c\<lparr>xEventPool := p, bEventPoolModified := f\<rparr>" "F' = F\<lparr>mEvent := D\<rparr>"
    "block_post (encEvent E) (bEventPoolModified c) (xEventPool c) (mEvent F) f p D r"
  using assms(4) save_block_post [OF assms(1-3)] that by (auto simp: save_block_event_def split: prod.splits)

lemma save_block_ext_post:
  assumes "synced (encExt E) (bExtPoolModified c) (xExtPool c) (mExt F)" "unat (poolID (xExtPool c)) + 2 \<le> max_serial"
    "\<not> pool_valid (encExt E) (tornExt E)" "save_block_ext E force c F ws = (c', F', ws', r)"
  obtains f p D where "c' = c\<lparr>xExtPool := p, bExtPoolModified := f\<rparr>" "F' = F\<lparr>mExt := D\<rparr>"
    "block_post (encExt E) (bExtPoolModified c) (xExtPool c) (mExt F) f p D r"
  using assms(4) save_block_post [OF assms(1-3)] that by (auto simp: save_block_ext_def split: prod.splits)

text \<open>Nothing is written for pools that are not marked.\<close>

lemma save_block_clean:
  "\<not> bPoolModified c \<Longrightarrow> save_block_pool E False c F ws = (c, F, ws, Saved)"
  "\<not> bObjectPoolModified c \<Longrightarrow> save_block_object E False c F ws = (c, F, ws, Saved)"
  "\<not> bEventPoolModified c \<Longrightarrow> save_block_event E False c F ws = (c, F, ws, Saved)"
  "\<not> bExtPoolModified c \<Longrightarrow> save_block_ext E False c F ws = (c, F, ws, Saved)"
  by (cases c, cases F, simp add: save_block_def save_block_pool_def save_block_object_def
      save_block_event_def save_block_ext_def)+

lemma FTE_CFG_save_clean:
  assumes "pDESC c \<noteq> None" "\<not> bPoolModified c" "\<not> bObjectPoolModified c" "\<not> bEventPoolModified c" "\<not> bExtPoolModified c"
  shows "FTE_CFG_save E False c F ws = Some (Saved, FTE_RET_OK, c, F)"
  using assms by (simp add: FTE_CFG_save_def save_block_clean)

lemma save_loop_no_failure:
  "\<forall>i. D i \<noteq> None \<Longrightarrow> \<exists>p' D'. save_loop enc torn k p D [] = (p', D', [], Saved)"
  by (induction k arbitrary: p D) (auto simp: save_loop_Suc Let_def simp del: save_loop.simps(2) split: option.split)

lemma FTE_CFG_save_returns: "pDESC c \<noteq> None \<Longrightarrow> \<exists>r ret c' F'. FTE_CFG_save E force c F ws = Some (r, ret, c', F')"
  by (auto simp: FTE_CFG_save_def Let_def split: prod.split)

text \<open>The four blocks together.\<close>

definition save_post :: "cfg_env \<Rightarrow> fte_config \<Rightarrow> cfg_flash \<Rightarrow> fte_config \<Rightarrow> cfg_flash \<Rightarrow> save_outcome \<Rightarrow> bool" where
  "save_post E c F c' F' r \<longleftrightarrow>
     block_post (encPool E) (bPoolModified c) (xPool c) (mPool F) (bPoolModified c') (xPool c') (mPool F') r
   \<and> block_post (encObject E) (bObjectPoolModified c) (xObjectPool c) (mObject F) (bObjectPoolModified c') (xObjectPool c') (mObject F') r
   \<and> block_post (encEvent E) (bEventPoolModified c) (xEventPool c) (mEvent F) (bEventPoolModified c') (xEventPool c') (mEvent F') r
   \<and> block_post (encExt E) (bExtPoolModified c) (xExtPool c) (mExt F) (bExtPoolModified c') (xExtPool c') (mExt F') r"

lemma block_post_stop: "block_post enc fl p D fl' p' D' Saved \<Longrightarrow> r \<noteq> Saved \<Longrightarrow> block_post enc fl p D fl' p' D' r"
  by (simp add: block_post_def)

lemma FTE_CFG_save_post:
  assumes sy: "cfg_synced E c F" and sl: "serials_left c" and tr: "torn_refused E"
    and run: "FTE_CFG_save E force c F ws = Some (r, ret, c', F')"
  shows "save_post E c F c' F' r"
proof -
  obtain c1 F1 ws1 r1 where 1: "save_block_pool E force c F ws = (c1, F1, ws1, r1)" by (metis prod_cases4)
  obtain c2 F2 ws2 r2 where 2: "save_block_object E force c1 F1 ws1 = (c2, F2, ws2, r2)" by (metis prod_cases4)
  obtain c3 F3 ws3 r3 where 3: "save_block_event E force c2 F2 ws2 = (c3, F3, ws3, r3)" by (metis prod_cases4)
  obtain c4 F4 ws4 r4 where 4: "save_block_ext E force c3 F3 ws3 = (c4, F4, ws4, r4)" by (metis prod_cases4)
  have S: "synced (encPool E) (bPoolModified c) (xPool c) (mPool F)"
    "synced (encObject E) (bObjectPoolModified c) (xObjectPool c) (mObject F)"
    "synced (encEvent E) (bEventPoolModified c) (xEventPool c) (mEvent F)"
    "synced (encExt E) (bExtPoolModified c) (xExtPool c) (mExt F)"
    using sy by (simp_all add: cfg_synced_def)
  have R: "unat (poolID (xPool c)) + 2 \<le> max_serial" "unat (poolID (xObjectPool c)) + 2 \<le> max_serial"
    "unat (poolID (xEventPool c)) + 2 \<le> max_serial" "unat (poolID (xExtPool c)) + 2 \<le> max_serial"
    using sl by (simp_all add: serials_left_def)
  have T: "\<not> pool_valid (encPool E) (tornPool E)" "\<not> pool_valid (encObject E) (tornObject E)"
    "\<not> pool_valid (encEvent E) (tornEvent E)" "\<not> pool_valid (encExt E) (tornExt E)"
    using tr by (simp_all add: torn_refused_def)
  obtain p1 f1 D1 where e1: "c1 = c\<lparr>xPool := p1, bPoolModified := f1\<rparr>" "F1 = F\<lparr>mPool := D1\<rparr>"
    and b1: "block_post (encPool E) (bPoolModified c) (xPool c) (mPool F) f1 p1 D1 r1"
    using save_block_pool_post [OF S(1) R(1) T(1) 1] .
  have "synced (encObject E) (bObjectPoolModified c1) (xObjectPool c1) (mObject F1)"
    "unat (poolID (xObjectPool c1)) + 2 \<le> max_serial" using S(2) R(2) e1 by simp_all
  from save_block_object_post [OF this T(2) 2] obtain p2 f2 D2 where
    e2: "c2 = c1\<lparr>xObjectPool := p2, bObjectPoolModified := f2\<rparr>" "F2 = F1\<lparr>mObject := D2\<rparr>"
    and "block_post (encObject E) (bObjectPoolModified c1) (xObjectPool c1) (mObject F1) f2 p2 D2 r2" .
  then have b2: "block_post (encObject E) (bObjectPoolModified c) (xObjectPool c) (mObject F) f2 p2 D2 r2"
    using e1 by simp
  have "synced (encEvent E) (bEventPoolModified c2) (xEventPool c2) (mEvent F2)"
    "unat (poolID (xEventPool c2)) + 2 \<le> max_serial" using S(3) R(3) e1 e2 by simp_all
  from save_block_event_post [OF this T(3) 3] obtain p3 f3 D3 where
    e3: "c3 = c2\<lparr>xEventPool := p3, bEventPoolModified := f3\<rparr>" "F3 = F2\<lparr>mEvent := D3\<rparr>"
    and "block_post (encEvent E) (bEventPoolModified c2) (xEventPool c2) (mEvent F2) f3 p3 D3 r3" .
  then have b3: "block_post (encEvent E) (bEventPoolModified c) (xEventPool c) (mEvent F) f3 p3 D3 r3"
    using e1 e2 by simp
  have "synced (encExt E) (bExtPoolModified c3) (xExtPool c3) (mExt F3)"
    "unat (poolID (xExtPool c3)) + 2 \<le> max_serial" using S(4) R(4) e1 e2 e3 by simp_all
  from save_block_ext_post [OF this T(4) 4] obtain p4 f4 D4 where
    e4: "c4 = c3\<lparr>xExtPool := p4, bExtPoolModified := f4\<rparr>" "F4 = F3\<lparr>mExt := D4\<rparr>"
    and "block_post (encExt E) (bExtPoolModified c3) (xExtPool c3) (mExt F3) f4 p4 D4 r4" .
  then have b4: "block_post (encExt E) (bExtPoolModified c) (xExtPool c) (mExt F) f4 p4 D4 r4"
    using e1 e2 e3 by simp
  consider (one) "r1 \<noteq> Saved" "c' = c1" "F' = F1" "r = r1"
    | (two) "r1 = Saved" "r2 \<noteq> Saved" "c' = c2" "F' = F2" "r = r2"
    | (three) "r1 = Saved" "r2 = Saved" "r3 \<noteq> Saved" "c' = c3" "F' = F3" "r = r3"
    | (four) "r1 = Saved" "r2 = Saved" "r3 = Saved" "c' = c4" "F' = F4" "r = r4"
    using run 1 2 3 4 by (cases "r1 = Saved"; cases "r2 = Saved"; cases "r3 = Saved"; cases "r4 = Saved")
      (auto simp: FTE_CFG_save_def opt_simps)
  then show ?thesis
  proof cases
    case one
    then show ?thesis using b1 e1 by (simp add: save_post_def block_post_same)
  next
    case two
    then show ?thesis using b1 b2 e1 e2 by (simp add: save_post_def block_post_same block_post_stop)
  next
    case three
    then show ?thesis using b1 b2 b3 e1 e2 e3 by (simp add: save_post_def block_post_same block_post_stop)
  next
    case four
    then show ?thesis using b1 b2 b3 b4 e1 e2 e3 e4
      by (cases "r4 = Saved") (simp_all add: save_post_def block_post_stop)
  qed
qed

text \<open>The four bodies a start-up finds.\<close>

lemma cfg_load_bodies:
  assumes "stands_for (encPool E) (mPool F) b1" "stands_for (encObject E) (mObject F) b2"
    "stands_for (encEvent E) (mEvent F) b3" "stands_for (encExt E) (mExt F) b4"
  shows "body (xPool (cfg_load E desc F)) = b1 \<and> body (xObjectPool (cfg_load E desc F)) = b2
    \<and> body (xEventPool (cfg_load E desc F)) = b3 \<and> body (xExtPool (cfg_load E desc F)) = b4"
    and "poolID (xPool (cfg_load E desc F)) \<noteq> 0 \<and> poolID (xObjectPool (cfg_load E desc F)) \<noteq> 0
    \<and> poolID (xEventPool (cfg_load E desc F)) \<noteq> 0 \<and> poolID (xExtPool (cfg_load E desc F)) \<noteq> 0"
  using load_stands [OF assms(1)] load_stands [OF assms(2)] load_stands [OF assms(3)] load_stands [OF assms(4)]
  by (simp_all add: cfg_load_def cfg_zero_def Let_def)

lemma synced_stands: "synced enc flag p D \<Longrightarrow> \<exists>b. stands_for enc D b"
  by (auto simp: synced_def stands_for_def)

lemma block_post_either:
  "block_post enc flag p D flag' p' D' r \<Longrightarrow> stands_for enc D b
    \<Longrightarrow> \<exists>d. stands_for enc D' d \<and> d \<in> {b, body p}"
  by (auto simp: block_post_def)

text \<open>The pools of a configuration, as values.\<close>

definition cfg_bodies :: "fte_config \<Rightarrow> cfg_body \<times> object_body \<times> event_body \<times> u8 list" where
  "cfg_bodies c = (body (xPool c), body (xObjectPool c), body (xEventPool c), body (xExtPool c))"

text \<open>Pool by pool, \<open>x\<close> is what one of two configurations has.\<close>

definition each_of :: "fte_config \<Rightarrow> fte_config \<Rightarrow> fte_config \<Rightarrow> bool" where
  "each_of x old new \<longleftrightarrow> body (xPool x) \<in> {body (xPool old), body (xPool new)}
     \<and> body (xObjectPool x) \<in> {body (xObjectPool old), body (xObjectPool new)}
     \<and> body (xEventPool x) \<in> {body (xEventPool old), body (xEventPool new)}
     \<and> body (xExtPool x) \<in> {body (xExtPool old), body (xExtPool new)}"


text \<open>A gateway with four pools saved once and a change of the system pool pending.\<close>

definition demo_env :: cfg_env where
  "demo_env = \<lparr>encPool = (\<lambda>b. map (\<lambda>ch. of_nat (of_char ch)) (pModel b)), encObject = (\<lambda>_. []), encEvent = (\<lambda>_. []),
     encExt = id, tornPool = pool_zero cfg_body_zero, tornObject = pool_zero object_body_zero,
     tornEvent = pool_zero event_body_zero, tornExt = pool_zero []\<rparr>"

definition tagged :: "'b \<Rightarrow> 'b cfg_pool" where
  "tagged b = (pool_zero b)\<lparr>ulTag := FTE_CFG_POOL_VERSION\<rparr>"

definition demo_mtd :: "('b \<Rightarrow> u8 list) \<Rightarrow> 'b \<Rightarrow> nat \<Rightarrow> 'b mtd" where
  "demo_mtd enc b i = (if i = 1 then Some (next_image enc (tagged b)) else Some (pool_zero b))"

definition demo_flash :: cfg_flash where
  "demo_flash = \<lparr>mPool = demo_mtd (encPool demo_env) cfg_body_zero, mObject = demo_mtd (encObject demo_env) object_body_zero,
     mEvent = demo_mtd (encEvent demo_env) event_body_zero, mExt = demo_mtd (encExt demo_env) []\<rparr>"

definition demo_desc :: cfg_desc where
  "demo_desc = \<lparr>dSystem = xSystem cfg_body_zero, dShell = [], dNetwork = xNetwork cfg_body_zero,
     dObjects = [], dEvents = [], dExt = []\<rparr>"

definition demo_config :: fte_config where
  "demo_config = (cfg_zero demo_desc)\<lparr>bPoolModified := True,
     xPool := (next_image (encPool demo_env) (tagged cfg_body_zero))\<lparr>body := cfg_body_zero\<lparr>pModel := ''FTE-E1''\<rparr>\<rparr>,
     xObjectPool := next_image (encObject demo_env) (tagged object_body_zero),
     xEventPool := next_image (encEvent demo_env) (tagged event_body_zero),
     xExtPool := next_image (encExt demo_env) (tagged [])\<rparr>"

lemma tagged_simps [simp]: "poolID (tagged b) = 0" "ulTag (tagged b) = FTE_CFG_POOL_VERSION" "body (tagged b) = b"
  by (simp_all add: tagged_def pool_zero_def)

lemma pool_zero_invalid [simp]: "\<not> pool_valid enc (pool_zero b)"
  by (simp add: pool_valid_def pool_zero_def FTE_CFG_POOL_VERSION_def)

lemma holds_demo: "holds enc (demo_mtd enc b) 1 b"
proof -
  have "pool_valid enc (next_image enc (tagged b))"
    by (rule next_image_valid [where n = 0]) (simp_all add: max_serial_def)
  then show ?thesis by (simp add: holds_def demo_mtd_def max_serial_def)
qed

lemma synced_demo: "synced enc flag (next_image enc (tagged b)) (demo_mtd enc b)"
  using holds_demo [of enc b] by (auto simp: synced_def intro!: exI [of _ "1 :: nat"])

lemma demo_ok: "cfg_synced demo_env demo_config demo_flash" "serials_left demo_config" "torn_refused demo_env"
  "pDESC demo_config = Some demo_desc"
proof -
  have "synced (encPool demo_env) True ((next_image (encPool demo_env) (tagged cfg_body_zero))\<lparr>body := b\<rparr>)
      (demo_mtd (encPool demo_env) cfg_body_zero)" for b
    using holds_demo [of "encPool demo_env" cfg_body_zero]
    by (auto simp: synced_def intro!: exI [of _ "1 :: nat"])
  then show "cfg_synced demo_env demo_config demo_flash"
    by (simp add: cfg_synced_def demo_config_def demo_flash_def synced_demo)
  show "serials_left demo_config" by (simp add: serials_left_def demo_config_def max_serial_def)
  show "torn_refused demo_env" by (simp add: torn_refused_def demo_env_def)
  show "pDESC demo_config = Some demo_desc" by (simp add: demo_config_def cfg_zero_def)
qed



lemma demo_saved: "\<exists>ret c' F'. FTE_CFG_save demo_env False demo_config demo_flash [] = Some (Saved, ret, c', F')"
proof -
  have "\<forall>i. mPool demo_flash i \<noteq> None" by (simp add: demo_flash_def demo_mtd_def)
  from save_loop_no_failure [OF this] obtain p D where
    "save_loop (encPool demo_env) (tornPool demo_env) 2 (xPool demo_config) (mPool demo_flash) [] = (p, D, [], Saved)"
    by blast
  then have "save_block_pool demo_env False demo_config demo_flash []
    = (demo_config\<lparr>xPool := p, bPoolModified := False\<rparr>, demo_flash\<lparr>mPool := D\<rparr>, [], Saved)"
    by (simp add: save_block_pool_def save_block_def demo_config_def)
  moreover have "\<not> bObjectPoolModified demo_config" "\<not> bEventPoolModified demo_config" "\<not> bExtPoolModified demo_config"
    by (simp_all add: demo_config_def cfg_zero_def)
  ultimately show ?thesis using demo_ok(4) by (simp add: FTE_CFG_save_def save_block_clean)
qed


section \<open>The periodic save\<close>

text \<open>The timer's callback, a number of times.\<close>

fun autosave_ticks :: "cfg_env \<Rightarrow> nat \<Rightarrow> fte_config \<Rightarrow> cfg_flash \<Rightarrow> write_outcome list
    \<Rightarrow> (save_outcome \<times> fte_config \<times> cfg_flash) option" where
  "autosave_ticks E 0 c F ws = Some (Saved, c, F)"
| "autosave_ticks E (Suc n) c F ws = do {
     (r, c, F) \<leftarrow> FTE_CFG_autoSave E c F ws;
     if r \<noteq> Saved then Some (r, c, F) else autosave_ticks E n c F ws
   }"

lemma autosave_idle: "\<not> bPoolModified c \<Longrightarrow> autosave_ticks E n c F ws = Some (Saved, c, F)"
  by (induction n) (simp_all add: FTE_CFG_autoSave_def FTE_CFG_isChanged_def)

text \<open>A changed object configuration is never saved by the periodic timer while the system
  settings are unchanged: however often it fires the flash stays as it is, and the next start-up
  works with the object pool from before the change.\<close>

lemma FTE_CFG_autoSave_ignores_objects:
  assumes "cfg_synced E c F" "\<not> bPoolModified c" "\<not> bObjectPoolModified c"
    and "FTE_CFG_OBJ_save x c = (FTE_RET_OK, c1)"
  shows "autosave_ticks E n c1 F ws = Some (Saved, c1, F) \<and> bObjectPoolModified c1
    \<and> (\<exists>i. objects c1 = (objects c)[i := x]) \<and> objects (cfg_load E desc F) = objects c"
proof -
  obtain i where "FTE_CFG_OBJ_get (nID x) c = Some i" and c1: "c1 = (set_object i x c)\<lparr>bObjectPoolModified := True\<rparr>"
    using assms(4) by (auto simp: FTE_CFG_OBJ_save_def split: option.splits)
  have b: "\<not> bPoolModified c1" using assms(2) c1 by (simp add: set_object_def)
  note Y = assms(1) [unfolded cfg_synced_def]
  obtain b1 where b1: "stands_for (encPool E) (mPool F) b1"
    using synced_stands [OF Y [THEN conjunct1]] by blast
  obtain b3 where b3: "stands_for (encEvent E) (mEvent F) b3"
    using synced_stands [OF Y [THEN conjunct2, THEN conjunct2, THEN conjunct1]] by blast
  obtain b4 where b4: "stands_for (encExt E) (mExt F) b4"
    using synced_stands [OF Y [THEN conjunct2, THEN conjunct2, THEN conjunct2]] by blast
  have b2: "stands_for (encObject E) (mObject F) (body (xObjectPool c))"
    using Y assms(3) by (auto simp: synced_def stands_for_def)
  have "objects (cfg_load E desc F) = objects c"
    using cfg_load_bodies(1) [OF b1 b2 b3 b4, of desc] by simp
  then show ?thesis using autosave_idle [OF b] c1 by (auto simp: set_object_def)
qed

text \<open>The gateway above with one object in its pool.\<close>

definition demo_objects :: object_body where
  "demo_objects = object_body_zero\<lparr>uiObjectCount := 1, pObjects := object_zero\<lparr>nID := 7\<rparr> # replicate 32 object_zero\<rparr>"

definition demo_config2 :: fte_config where
  "demo_config2 = demo_config\<lparr>bPoolModified := False, xPool := next_image (encPool demo_env) (tagged cfg_body_zero),
     xObjectPool := next_image (encObject demo_env) (tagged demo_objects)\<rparr>"

lemma demo_config2_ok:
  "cfg_synced demo_env demo_config2 (demo_flash\<lparr>mObject := demo_mtd (encObject demo_env) demo_objects\<rparr>)"
  "FTE_CFG_OBJ_get 7 demo_config2 = Some 0"
  by (simp_all add: cfg_synced_def demo_config2_def demo_config_def demo_flash_def synced_demo cfg_zero_def
      FTE_CFG_OBJ_get_def demo_objects_def object_body_zero_def FTE_OBJ_MAX_COUNT_def)

lemma FTE_CFG_autoSave_ignores_objects_witness:
  "\<exists>c1. FTE_CFG_OBJ_save (object_zero\<lparr>nID := 7, xFlags := 1\<rparr>) demo_config2 = (FTE_RET_OK, c1)
     \<and> autosave_ticks demo_env 100 c1 (demo_flash\<lparr>mObject := demo_mtd (encObject demo_env) demo_objects\<rparr>) [WOk]
       = Some (Saved, c1, demo_flash\<lparr>mObject := demo_mtd (encObject demo_env) demo_objects\<rparr>)"
proof -
  have "\<not> bPoolModified demo_config2" "\<not> bObjectPoolModified demo_config2"
    by (simp_all add: demo_config2_def demo_config_def cfg_zero_def)
  moreover obtain c1 where "FTE_CFG_OBJ_save (object_zero\<lparr>nID := 7, xFlags := 1\<rparr>) demo_config2 = (FTE_RET_OK, c1)"
    using demo_config2_ok(2) by (simp add: FTE_CFG_OBJ_save_def)
  ultimately show ?thesis
    using FTE_CFG_autoSave_ignores_objects [OF demo_config2_ok(1), where n = 100 and ws = "[WOk]"] by blast
qed

end
