(* ===== verification/FTE_Stat.thy ===== *)
theory FTE_Stat
  imports FTE_Config
begin

unbundle bit_operations_syntax

text \<open>
  The failure statistics of an object, \<^verbatim>\<open>FT_OBJ_STAT_incSucceed\<close> and
  \<^verbatim>\<open>FT_OBJ_STAT_incFailed\<close> of \<^verbatim>\<open>target/source/obj/fte_object.c\<close>: a register of the last
  outcomes, shifted bit by bit through an array of words, with the number of failures
  it holds counted beside it.  The lemmas show it to be a sliding window over the
  history of outcomes.
\<close>

section \<open>The code\<close>

record obj_stat =
  nTotalTrial :: u32
  nTotalFail :: u32
  nPartialFail :: u32
  pStatBits :: "u32 list"

text \<open>\<^verbatim>\<open>FTE_OBJ_CHECK_FAILURE_COUNT_MAX / sizeof(FTE_UINT32)\<close> words.\<close>

definition nPartialCount :: nat where "nPartialCount = 64 div 4"

definition stat_zero :: obj_stat where
  "stat_zero = \<lparr>nTotalTrial = 0, nTotalFail = 0, nPartialFail = 0, pStatBits = replicate nPartialCount 0\<rparr>"

text \<open>The loop from \<open>i\<close> down to 1.\<close>

fun stat_shift :: "nat \<Rightarrow> u32 list \<Rightarrow> u32 list" where
  "stat_shift 0 bs = bs"
| "stat_shift (Suc i) bs = stat_shift i (bs[Suc i := push_bit 1 (bs ! Suc i) OR drop_bit 31 (bs ! i)])"

definition stat_drop_oldest :: "obj_stat \<Rightarrow> obj_stat" where
  "stat_drop_oldest st =
     (if pStatBits st ! (nPartialCount - 1) AND 0x80000000 \<noteq> 0
      then if 0 < nPartialFail st then st\<lparr>nPartialFail := nPartialFail st - 1\<rparr> else st
      else st)"

definition FT_OBJ_STAT_incSucceed :: "obj_stat \<Rightarrow> fte_ret \<times> obj_stat" where
  "FT_OBJ_STAT_incSucceed st =
     (let st = st\<lparr>nTotalTrial := nTotalTrial st + 1\<rparr>;
          st = stat_drop_oldest st;
          bs = stat_shift (nPartialCount - 1) (pStatBits st)
      in (FTE_RET_OK, st\<lparr>pStatBits := bs[0 := push_bit 1 (bs ! 0)]\<rparr>))"

text \<open>The second result: whether \<^verbatim>\<open>FTE_SYS_setUnstable\<close> is called.\<close>

definition FT_OBJ_STAT_incFailed :: "fte_config \<Rightarrow> obj_stat \<Rightarrow> fte_ret \<times> bool \<times> obj_stat" where
  "FT_OBJ_STAT_incFailed c st =
     (let st = st\<lparr>nTotalTrial := nTotalTrial st + 1, nTotalFail := nTotalFail st + 1\<rparr>;
          st = stat_drop_oldest st;
          bs = stat_shift (nPartialCount - 1) (pStatBits st);
          st = st\<lparr>pStatBits := bs[0 := push_bit 1 (bs ! 0) OR 1]\<rparr>;
          st = st\<lparr>nPartialFail := nPartialFail st + 1\<rparr>
      in (FTE_RET_OK, FTE_CFG_SYS_getAllowedFailureCount c \<le> nPartialFail st, st))"

section \<open>The register as a list of outcomes\<close>

definition stat_bits :: "u32 list \<Rightarrow> bool list" where
  "stat_bits bs = concat (map (\<lambda>w. map (bit w) [0..<32]) bs)"

fun shift_in :: "bool \<Rightarrow> u32 list \<Rightarrow> u32 list" where
  "shift_in b [] = []"
| "shift_in b (w # ws) = (push_bit 1 w OR of_bool b) # shift_in (bit w 31) ws"

lemma length_stat_bits [simp]: "length (stat_bits bs) = 32 * length bs"
  by (induction bs) (simp_all add: stat_bits_def)

lemma word_shift_bits: "map (bit (push_bit 1 w OR of_bool b :: u32)) [0..<32] = b # map (bit w) [0..<31]"
proof (rule nth_equalityI)
  show "length (map (bit (push_bit 1 w OR of_bool b :: u32)) [0..<32]) = length (b # map (bit w) [0..<31])" by simp
  fix i assume "i < length (map (bit (push_bit 1 w OR of_bool b :: u32)) [0..<32])"
  then show "map (bit (push_bit 1 w OR of_bool b :: u32)) [0..<32] ! i = (b # map (bit w) [0..<31]) ! i"
    by (cases i) (auto simp: bit_simps simp del: push_bit_Suc push_bit_numeral)
qed

lemma stat_bits_shift_in: "bs \<noteq> [] \<Longrightarrow> stat_bits (shift_in b bs) = butlast (b # stat_bits bs)"
proof (induction bs arbitrary: b)
  case (Cons w ws)
  have w: "map (bit w) [0..<32] = map (bit w) [0..<31] @ [bit w 31]"
    using upt_Suc_append [of 0 31] by simp
  have c: "stat_bits (v # vs) = map (bit v) [0..<32] @ stat_bits vs" for v vs by (simp add: stat_bits_def)
  have ne: "stat_bits ws \<noteq> []" if "ws \<noteq> []" using that length_stat_bits [of ws] by (metis length_0_conv mult_is_0 zero_neq_numeral)
  show ?case
  proof (cases "ws = []")
    case True
    then show ?thesis unfolding True shift_in.simps c word_shift_bits w by (simp add: stat_bits_def butlast_append)
  next
    case False
    then show ?thesis using Cons.IH [OF False, of "bit w 31"] ne
      unfolding shift_in.simps c word_shift_bits w by (simp add: butlast_append)
  qed
qed simp

lemma nth_shift_in:
  "j < length bs \<Longrightarrow> shift_in b bs ! j = push_bit 1 (bs ! j) OR of_bool (if j = 0 then b else bit (bs ! (j - 1)) 31)"
  by (induction bs arbitrary: b j) (auto simp: nth_Cons split: nat.splits)

lemma length_shift_in [simp]: "length (shift_in b bs) = length bs"
  by (induction bs arbitrary: b) auto

lemma length_stat_shift [simp]: "length (stat_shift k bs) = length bs"
  by (induction k arbitrary: bs) auto

lemma drop_bit_31: "drop_bit 31 (w :: u32) = of_bool (bit w 31)"
proof (rule bit_word_eqI)
  fix n assume "n < LENGTH(32)"
  have "\<not> bit w (31 + n)" if "n \<noteq> 0"
    using that bit_imp_le_length [of w "31 + n"] by auto
  then show "bit (drop_bit 31 w) n = bit (of_bool (bit w 31) :: u32) n"
    by (cases n) (auto simp: bit_simps)
qed

lemma nth_stat_shift:
  "k < length bs \<Longrightarrow> j < length bs \<Longrightarrow> stat_shift k bs ! j =
     (if 0 < j \<and> j \<le> k then push_bit 1 (bs ! j) OR of_bool (bit (bs ! (j - 1)) 31) else bs ! j)"
proof (induction k arbitrary: bs)
  case (Suc k)
  then show ?case
    by (auto simp: nth_list_update drop_bit_31 le_Suc_eq simp del: push_bit_Suc)
qed auto

lemma shift_register:
  assumes "bs \<noteq> []"
  shows "(stat_shift (length bs - 1) bs)[0 := push_bit 1 (stat_shift (length bs - 1) bs ! 0) OR of_bool b] = shift_in b bs"
proof (rule nth_equalityI)
  fix j assume "j < length ((stat_shift (length bs - 1) bs)[0 := push_bit 1 (stat_shift (length bs - 1) bs ! 0) OR of_bool b])"
  then have j: "j < length bs" by simp
  then show "(stat_shift (length bs - 1) bs)[0 := push_bit 1 (stat_shift (length bs - 1) bs ! 0) OR of_bool b] ! j = shift_in b bs ! j"
    using assms nth_stat_shift [of "length bs - 1" bs j] nth_stat_shift [of "length bs - 1" bs 0]
    by (auto simp: nth_shift_in nth_list_update simp del: push_bit_Suc)
qed simp

section \<open>The window\<close>

text \<open>The last \<open>WINDOW\<close> outcomes, the newest first, \<open>True\<close> for a failure; before the first
  outcome all were successes.\<close>

definition WINDOW :: nat where "WINDOW = 32 * nPartialCount"

definition window :: "bool list \<Rightarrow> bool list" where
  "window hs = take WINDOW (rev hs @ replicate WINDOW False)"

definition failures :: "bool list \<Rightarrow> nat" where
  "failures w = length (filter (\<lambda>b. b) w)"

lemma WINDOW_pos: "0 < WINDOW" by (simp add: WINDOW_def nPartialCount_def)

lemma length_window [simp]: "length (window hs) = WINDOW"
  by (simp add: window_def)

lemma window_Cons: "window (hs @ [b]) = b # butlast (window hs)"
proof -
  define l where "l = rev hs @ replicate WINDOW False"
  obtain m where m: "WINDOW = Suc m" using WINDOW_pos by (metis Suc_pred)
  have "Suc m \<le> length l" using m by (simp add: l_def)
  then have "butlast (take (Suc m) l) = take m l" by (simp add: butlast_take)
  moreover have "window (hs @ [b]) = b # take m l" by (simp add: window_def m l_def)
  moreover have "window hs = take (Suc m) l" by (simp add: window_def m l_def)
  ultimately show ?thesis by simp
qed

lemma failures_shift: "w \<noteq> [] \<Longrightarrow> failures (b # butlast w) + of_bool (last w) = of_bool b + failures w"
  by (induction w rule: rev_induct) (auto simp: failures_def)

lemma failures_le: "failures w \<le> length w"
  by (simp add: failures_def)

text \<open>What a register stands for.\<close>

definition stat_abs :: "obj_stat \<Rightarrow> bool list \<Rightarrow> bool" where
  "stat_abs st hs \<longleftrightarrow> length (pStatBits st) = nPartialCount \<and> stat_bits (pStatBits st) = window hs
     \<and> unat (nPartialFail st) = failures (window hs)
     \<and> nTotalTrial st = of_nat (length hs) \<and> nTotalFail st = of_nat (failures hs)"

lemma last_stat_bits: "bs \<noteq> [] \<Longrightarrow> last (stat_bits bs) = bit (last bs) 31"
proof (induction bs)
  case (Cons w ws)
  have w: "map (bit w) [0..<32] = map (bit w) [0..<31] @ [bit w 31]"
    using upt_Suc_append [of 0 31] by simp
  have "ws \<noteq> [] \<Longrightarrow> stat_bits ws \<noteq> []" using length_stat_bits [of ws] by (metis length_0_conv mult_is_0 zero_neq_numeral)
  then show ?case using Cons.IH by (cases "ws = []") (auto simp: stat_bits_def w)
qed simp

lemma top_bit: "(w :: u32) AND 0x80000000 \<noteq> 0 \<longleftrightarrow> bit w 31"
  using bit_iff_and_push_bit_not_eq_0 [of w 31] by simp

lemma drop_oldest:
  assumes "length (pStatBits st) = nPartialCount" "unat (nPartialFail st) = failures (stat_bits (pStatBits st))"
  shows "stat_drop_oldest st = st\<lparr>nPartialFail := nPartialFail st - of_bool (last (stat_bits (pStatBits st)))\<rparr>"
proof -
  have ne: "pStatBits st \<noteq> []" using assms(1) by (auto simp: nPartialCount_def)
  have l: "last (pStatBits st) = pStatBits st ! (nPartialCount - 1)" using ne assms(1) by (simp add: last_conv_nth)
  have "last (stat_bits (pStatBits st)) \<Longrightarrow> 0 < failures (stat_bits (pStatBits st))"
    using ne length_stat_bits [of "pStatBits st"] unfolding failures_def length_greater_0_conv filter_empty_conv
    by (metis last_in_set length_0_conv mult_is_0 zero_neq_numeral)
  then have "last (stat_bits (pStatBits st)) \<Longrightarrow> 0 < nPartialFail st" using assms(2) by (simp add: word_gt_0_no word_less_nat_alt)
  then show ?thesis
    using last_stat_bits [OF ne] l by (auto simp: stat_drop_oldest_def top_bit)
qed

text \<open>Both functions shift an outcome in; they differ in the totals and in what they report.\<close>

lemma stat_abs_shift:
  assumes "stat_abs st hs"
  shows "stat_abs (st\<lparr>nTotalTrial := nTotalTrial st + 1, nTotalFail := nTotalFail st + of_bool b,
      nPartialFail := nPartialFail st - of_bool (last (stat_bits (pStatBits st))) + of_bool b,
      pStatBits := shift_in b (pStatBits st)\<rparr>) (hs @ [b])"
proof -
  note A = assms [unfolded stat_abs_def]
  have ne: "pStatBits st \<noteq> []" using A by (auto simp: nPartialCount_def)
  have wn: "window hs \<noteq> []" using WINDOW_pos by (metis length_window length_0_conv less_irrefl)
  have bits: "stat_bits (shift_in b (pStatBits st)) = window (hs @ [b])"
    using stat_bits_shift_in [OF ne, of b] A window_Cons [of hs b] wn by simp
  have f: "failures (window (hs @ [b])) + of_bool (last (window hs)) = of_bool b + failures (window hs)"
    using failures_shift [OF wn, of b] by (simp add: window_Cons)
  have le: "failures (window (hs @ [b])) \<le> WINDOW" using failures_le [of "window (hs @ [b])"] by simp
  have p: "nPartialFail st = of_nat (failures (window hs))" 
  proof -
    have "of_nat (unat (nPartialFail st)) = nPartialFail st" by simp
    then show ?thesis using A by metis
  qed
  have "nPartialFail st - of_bool (last (window hs)) + of_bool b = of_nat (failures (window (hs @ [b])))"
  proof -
    have "(of_nat (failures (window (hs @ [b]))) :: u32) + of_bool (last (window hs)) = of_bool b + of_nat (failures (window hs))"
      using f by (metis of_nat_add of_nat_of_bool)
    then show ?thesis unfolding p by (simp add: algebra_simps)
  qed
  then have "unat (nPartialFail st - of_bool (last (window hs)) + of_bool b) = failures (window (hs @ [b]))"
    using le by (simp only:) (rule unat_of_nat_small, simp add: WINDOW_def nPartialCount_def)
  moreover have "failures (hs @ [b]) = failures hs + of_bool b" by (simp add: failures_def)
  ultimately show ?thesis using A bits by (simp add: stat_abs_def)
qed

lemma incSucceed_abs:
  assumes "stat_abs st hs"
  shows "fst (FT_OBJ_STAT_incSucceed st) = FTE_RET_OK" "stat_abs (snd (FT_OBJ_STAT_incSucceed st)) (hs @ [False])"
proof -
  note A = assms [unfolded stat_abs_def]
  have ne: "pStatBits st \<noteq> []" using A by (auto simp: nPartialCount_def)
  have "stat_drop_oldest (st\<lparr>nTotalTrial := nTotalTrial st + 1\<rparr>) = st\<lparr>nTotalTrial := nTotalTrial st + 1,
      nPartialFail := nPartialFail st - of_bool (last (stat_bits (pStatBits st)))\<rparr>"
    using A by (subst drop_oldest) simp_all
  then have "snd (FT_OBJ_STAT_incSucceed st) = st\<lparr>nTotalTrial := nTotalTrial st + 1, nTotalFail := nTotalFail st + of_bool False,
      nPartialFail := nPartialFail st - of_bool (last (stat_bits (pStatBits st))) + of_bool False,
      pStatBits := shift_in False (pStatBits st)\<rparr>"
    using shift_register [OF ne, of False] A by (simp add: FT_OBJ_STAT_incSucceed_def Let_def del: push_bit_Suc)
  then show "stat_abs (snd (FT_OBJ_STAT_incSucceed st)) (hs @ [False])"
    using stat_abs_shift [OF assms, of False] by simp
  show "fst (FT_OBJ_STAT_incSucceed st) = FTE_RET_OK" by (simp add: FT_OBJ_STAT_incSucceed_def Let_def)
qed

lemma incFailed_abs:
  assumes "stat_abs st hs" "FT_OBJ_STAT_incFailed c st = (r, u, st')"
  shows "r = FTE_RET_OK" "stat_abs st' (hs @ [True])"
    "u \<longleftrightarrow> unat (FTE_CFG_SYS_getAllowedFailureCount c) \<le> failures (window (hs @ [True]))"
proof -
  note A = assms(1) [unfolded stat_abs_def]
  have ne: "pStatBits st \<noteq> []" using A by (auto simp: nPartialCount_def)
  have d: "stat_drop_oldest (st\<lparr>nTotalTrial := nTotalTrial st + 1, nTotalFail := nTotalFail st + 1\<rparr>)
      = st\<lparr>nTotalTrial := nTotalTrial st + 1, nTotalFail := nTotalFail st + 1,
           nPartialFail := nPartialFail st - of_bool (last (stat_bits (pStatBits st)))\<rparr>"
    using A by (subst drop_oldest) simp_all
  have e: "st' = st\<lparr>nTotalTrial := nTotalTrial st + 1, nTotalFail := nTotalFail st + of_bool True,
      nPartialFail := nPartialFail st - of_bool (last (stat_bits (pStatBits st))) + of_bool True,
      pStatBits := shift_in True (pStatBits st)\<rparr>"
    and r: "r = FTE_RET_OK" and u: "u = (FTE_CFG_SYS_getAllowedFailureCount c \<le> nPartialFail st')"
    using shift_register [OF ne, of True] A assms(2) d
    by (auto simp: FT_OBJ_STAT_incFailed_def Let_def simp del: push_bit_Suc)
  show "r = FTE_RET_OK" by (rule r)
  show abs: "stat_abs st' (hs @ [True])" using stat_abs_shift [OF assms(1), of True] e by simp
  show "u \<longleftrightarrow> unat (FTE_CFG_SYS_getAllowedFailureCount c) \<le> failures (window (hs @ [True]))"
    using abs u by (simp add: stat_abs_def word_le_nat_alt)
qed

lemma stat_zero_abs: "stat_abs stat_zero []"
proof -
  have "map (bit (0 :: u32)) [0..<32] = replicate 32 False" by (rule nth_equalityI) auto
  then have "stat_bits (replicate n 0) = replicate (32 * n) False" for n
    unfolding stat_bits_def by (induction n) (simp_all add: replicate_add [symmetric] del: bit_0_eq)
  then show ?thesis by (simp add: stat_abs_def stat_zero_def window_def WINDOW_def failures_def)
qed

text \<open>A history of outcomes, with the calls to \<^verbatim>\<open>FTE_SYS_setUnstable\<close>.\<close>

fun stat_run :: "fte_config \<Rightarrow> bool list \<Rightarrow> obj_stat \<Rightarrow> bool list \<times> obj_stat" where
  "stat_run c [] st = ([], st)"
| "stat_run c (b # bs) st =
     (let (u, st) = (if b then snd (FT_OBJ_STAT_incFailed c st) else (False, snd (FT_OBJ_STAT_incSucceed st)));
          (us, st) = stat_run c bs st
      in (u # us, st))"

text \<open>What is reported after each outcome.\<close>

definition alarms :: "fte_config \<Rightarrow> bool list \<Rightarrow> bool list \<Rightarrow> bool list" where
  "alarms c old hs = map (\<lambda>k. hs ! k \<and> unat (FTE_CFG_SYS_getAllowedFailureCount c)
      \<le> failures (window (old @ take (Suc k) hs))) [0..<length hs]"

lemma alarms_Cons: "alarms c old (b # bs) =
    (b \<and> unat (FTE_CFG_SYS_getAllowedFailureCount c) \<le> failures (window (old @ [b]))) # alarms c (old @ [b]) bs"
  by (simp add: alarms_def upt_conv_Cons map_Suc_upt [symmetric] del: upt_Suc)

lemma stat_run_abs:
  "stat_abs st old \<Longrightarrow> stat_run c hs st = (us, st') \<Longrightarrow> stat_abs st' (old @ hs) \<and> us = alarms c old hs"
proof (induction hs arbitrary: st old us)
  case Nil
  then show ?case by (simp add: alarms_def)
next
  case (Cons b bs)
  obtain r u st1 where f: "FT_OBJ_STAT_incFailed c st = (r, u, st1)" by (metis prod_cases3)
  show ?case
  proof (cases b)
    case True
    obtain us1 where run: "stat_run c bs st1 = (us1, st')" "us = u # us1"
      using Cons.prems(2) f True by (auto split: prod.splits)
    note I = incFailed_abs [OF Cons.prems(1) f]
    show ?thesis using Cons.IH [OF I(2) run(1)] I(3) run(2) True by (simp add: alarms_Cons)
  next
    case False
    obtain us1 where run: "stat_run c bs (snd (FT_OBJ_STAT_incSucceed st)) = (us1, st')" "us = False # us1"
      using Cons.prems(2) False by (auto split: prod.splits)
    show ?thesis
      using Cons.IH [OF incSucceed_abs(2) [OF Cons.prems(1)] run(1)] run(2) False by (simp add: alarms_Cons)
  qed
qed

text \<open>C27: After any history of outcomes the register holds the last 512 of them, newest first,
  the partial count is the number of failures among these, the totals count all outcomes modulo
  $2^{32}$, and the system was declared unstable exactly at those failures that brought the
  failures among the last 512 outcomes to the configured number or beyond.\<close>

theorem FT_OBJ_STAT_sliding_window:
  "case stat_run c hs stat_zero of (us, st) \<Rightarrow>
     stat_bits (pStatBits st) = window hs \<and> unat (nPartialFail st) = failures (window hs)
   \<and> nTotalTrial st = of_nat (length hs) \<and> nTotalFail st = of_nat (failures hs)
   \<and> us = alarms c [] hs"
proof -
  obtain us st where run: "stat_run c hs stat_zero = (us, st)" by fastforce
  show ?thesis using stat_run_abs [OF stat_zero_abs run] run by (simp add: stat_abs_def)
qed

end
