(* ===== verification/FTE_Object.thy ===== *)
theory FTE_Object
  imports FTE_List FTE_Config FTE_Value
begin

unbundle bit_operations_syntax

text \<open>
  The objects of \<^verbatim>\<open>target/source/obj/fte_object.c\<close>: sensors and actuators, each with a copy
  of its configuration, a status with its values, and the action table of its driver,
  kept in one list ordered by class and index.  The state is the kernel's store with the
  objects by address, the configuration and whatever the drivers keep.

  Drivers are parameters: an object holds a number for its action table, and the
  environment gives the callbacks (\<open>None\<close> for NULL) and the table of object types of
  \<^verbatim>\<open>obj/fte_object_description.c\<close>, which the product selects.  A callback gets the
  object's address and the whole state.
\<close>

section \<open>State\<close>

record fte_object =
  pConfigP :: addr
  pStatusP :: addr
  oAction :: "nat option"
  oConfig :: object_config
  oFlags :: u32
  oValues :: "fte_value list"

record 'd fte_system = fte_kernel +
  objs :: "addr \<rightharpoonup> fte_object"
  cfg :: fte_config
  dev :: 'd

record 's obj_action =
  fInit :: "(addr \<Rightarrow> 's \<Rightarrow> (fte_ret \<times> 's) option) option"
  fRun :: "(addr \<Rightarrow> 's \<Rightarrow> (fte_ret \<times> 's) option) option"
  fStop :: "(addr \<Rightarrow> 's \<Rightarrow> (fte_ret \<times> 's) option) option"
  fSet :: "(addr \<Rightarrow> fte_value \<Rightarrow> 's \<Rightarrow> (fte_ret \<times> 's) option) option"
  fSetMulti :: "(addr \<Rightarrow> u32 \<Rightarrow> fte_value \<Rightarrow> 's \<Rightarrow> (fte_ret \<times> 's) option) option"
  fGetMulti :: "(addr \<Rightarrow> u32 \<Rightarrow> 's \<Rightarrow> (fte_ret \<times> fte_value option \<times> 's) option) option"
  fGetInterval :: "(addr \<Rightarrow> 's \<Rightarrow> (fte_ret \<times> u32 \<times> 's) option) option"
  fSetInterval :: "(addr \<Rightarrow> u32 \<Rightarrow> 's \<Rightarrow> (fte_ret \<times> 's) option) option"
  fAttachChild :: "(addr \<Rightarrow> u32 \<Rightarrow> 's \<Rightarrow> (fte_ret \<times> 's) option) option"
  fDetachChild :: "(addr \<Rightarrow> u32 \<Rightarrow> 's \<Rightarrow> (fte_ret \<times> 's) option) option"
  fGetChildCount :: "(addr \<Rightarrow> 's \<Rightarrow> (u32 \<times> 's) option) option"
  fGetChild :: "(addr \<Rightarrow> u32 \<Rightarrow> 's \<Rightarrow> (fte_ret \<times> u32 \<times> 's) option) option"

record 's obj_desc =
  nType :: u32
  dName :: string
  f_attach :: "addr \<Rightarrow> 's \<Rightarrow> (fte_ret \<times> 's) option"
  f_detach :: "addr \<Rightarrow> 's \<Rightarrow> (fte_ret \<times> 's) option"

text \<open>\<^verbatim>\<open>_xObjList\<close> is the address of the registry's header.\<close>

record 's obj_env =
  xObjList :: addr
  pObjDescs :: "'s obj_desc list"
  actions :: "nat \<Rightarrow> 's obj_action"

type_synonym 'd sys = "'d fte_system"

section \<open>Identifiers and flags\<close>

abbreviation FTE_OBJ_SYSTEM :: u32 where "FTE_OBJ_SYSTEM \<equiv> 0x80000000"
abbreviation FTE_OBJ_CLASS_INDEX :: u32 where "FTE_OBJ_CLASS_INDEX \<equiv> 0xFF"
abbreviation FTE_OBJ_TYPE_UNKNOWN :: u32 where "FTE_OBJ_TYPE_UNKNOWN \<equiv> 0x7FFFFFFF"
abbreviation FTE_OBJ_CONFIG_FLAG_ENABLE :: u32 where "FTE_OBJ_CONFIG_FLAG_ENABLE \<equiv> 1"
abbreviation FTE_OBJ_STATUS_FLAG_UPDATED :: u32 where "FTE_OBJ_STATUS_FLAG_UPDATED \<equiv> 8"
abbreviation FTE_OBJ_STATUS_FLAG_CHANGED :: u32 where "FTE_OBJ_STATUS_FLAG_CHANGED \<equiv> 0x10"
abbreviation FTE_RET_NOT_SUPPORTED_FUNCTION :: fte_ret where "FTE_RET_NOT_SUPPORTED_FUNCTION \<equiv> 0x81"
abbreviation FTE_RET_INVALID_OBJECT :: fte_ret where "FTE_RET_INVALID_OBJECT \<equiv> 0x82"
abbreviation FTE_RET_OBJECT_NOT_FOUND :: fte_ret where "FTE_RET_OBJECT_NOT_FOUND \<equiv> 0x86"
abbreviation FTE_RET_PARENT_IS_STOPPED :: fte_ret where "FTE_RET_PARENT_IS_STOPPED \<equiv> 0x8E"

definition FTE_FLAG_IS_SET :: "u32 \<Rightarrow> u32 \<Rightarrow> bool" where "FTE_FLAG_IS_SET flags f \<longleftrightarrow> flags AND f = f"
definition FTE_FLAG_SET :: "u32 \<Rightarrow> u32 \<Rightarrow> u32" where "FTE_FLAG_SET flags f = flags OR f"
definition FTE_FLAG_CLR :: "u32 \<Rightarrow> u32 \<Rightarrow> u32" where "FTE_FLAG_CLR flags f = flags AND NOT f"

abbreviation obj_id :: "fte_object \<Rightarrow> u32" where "obj_id ob \<equiv> nID (oConfig ob)"

definition FTE_OBJ_IS_CHILD :: "fte_object \<Rightarrow> bool" where
  "FTE_OBJ_IS_CHILD ob \<longleftrightarrow> drop_bit 16 (obj_id ob) AND 0x80 = 0x80"

definition FTE_OBJ_IS_ENABLED :: "fte_object \<Rightarrow> bool" where
  "FTE_OBJ_IS_ENABLED ob \<longleftrightarrow> FTE_FLAG_IS_SET (xFlags (oConfig ob)) FTE_OBJ_CONFIG_FLAG_ENABLE"

text \<open>The order of the registry; a dangling pointer does not compare.\<close>

definition FTE_OBJ_comaratorID :: "(addr \<rightharpoonup> fte_object) \<Rightarrow> addr \<Rightarrow> addr \<Rightarrow> u32" where
  "FTE_OBJ_comaratorID M pObj1 pObj2 =
     (let ulID1 = obj_id (the (M pObj1)) AND (FTE_OBJ_CLASS_MASK OR FTE_OBJ_CLASS_INDEX);
          ulID2 = obj_id (the (M pObj2)) AND (FTE_OBJ_CLASS_MASK OR FTE_OBJ_CLASS_INDEX)
      in if ulID1 < ulID2 then -1 else if ulID2 < ulID1 then 1 else 0)"

definition FTE_OBJ_DESC_get :: "u32 \<Rightarrow> 's obj_desc list \<Rightarrow> 's obj_desc option" where
  "FTE_OBJ_DESC_get t ds = find (\<lambda>d. nType d = t) ds"

definition FTE_OBJ_DESC_count :: "'s obj_desc list \<Rightarrow> u32" where
  "FTE_OBJ_DESC_count ds = of_nat (length ds)"

definition FTE_OBJ_DESC_getAt :: "u32 \<Rightarrow> 's obj_desc list \<Rightarrow> 's obj_desc option" where
  "FTE_OBJ_DESC_getAt i ds = (if FTE_OBJ_DESC_count ds \<le> i then None else Some (ds ! unat i))"

definition upd_obj :: "addr \<Rightarrow> (fte_object \<Rightarrow> fte_object) \<Rightarrow> 'd sys \<Rightarrow> 'd sys option" where
  "upd_obj p f s = do { ob \<leftarrow> objs s p; Some (s\<lparr>objs := (objs s)(p \<mapsto> f ob)\<rparr>) }"

section \<open>Walking the registry\<close>

text \<open>The loop \<^verbatim>\<open>while((pObj = FTE_LIST_ITER_getNext(&xIter)) != NULL)\<close> of the searches: the
  body goes on with a new value of the local variables or leaves the loop.\<close>

partial_function (option) obj_loop :: "(addr \<Rightarrow> 'a \<Rightarrow> ('a + 'a) option) \<Rightarrow> 'a \<Rightarrow> fte_iter \<Rightarrow> 'd sys \<Rightarrow> 'a option" where
  "obj_loop step x it s = do {
     (pObj, it) \<leftarrow> FTE_LIST_ITER_getNext it s;
     if pObj = NULL then Some x
     else do {
       r \<leftarrow> step pObj x;
       case r of Inl x \<Rightarrow> obj_loop step x it s | Inr x \<Rightarrow> Some x
     }
   }"

definition obj_walk :: "'d sys obj_env \<Rightarrow> (addr \<Rightarrow> fte_object \<Rightarrow> 'a \<Rightarrow> 'a + 'a) \<Rightarrow> 'a \<Rightarrow> 'd sys \<Rightarrow> ('a \<times> 'd sys) option" where
  "obj_walk E step x s = do {
     (r, it, s) \<leftarrow> FTE_LIST_ITER_init (xObjList E) s;
     if r = FTE_RET_OK then do {
       y \<leftarrow> obj_loop (\<lambda>p x. do { ob \<leftarrow> objs s p; Some (step p ob x) }) x it s;
       Some (y, s)
     } else Some (x, s)
   }"

definition FTE_OBJ_get :: "'d sys obj_env \<Rightarrow> u32 \<Rightarrow> 'd sys \<Rightarrow> (addr \<times> 'd sys) option" where
  "FTE_OBJ_get E oid = obj_walk E (\<lambda>p ob x. if obj_id ob = oid then Inr p else Inl x) NULL"

definition FTE_OBJ_get2 :: "'d sys obj_env \<Rightarrow> u32 \<Rightarrow> u32 \<Rightarrow> 'd sys \<Rightarrow> (addr \<times> 'd sys) option" where
  "FTE_OBJ_get2 E oid nMask =
     obj_walk E (\<lambda>p ob x. if obj_id ob AND nMask = oid AND nMask then Inr p else Inl x) NULL"

text \<open>The two tests that \<^verbatim>\<open>getAt\<close>, \<^verbatim>\<open>count\<close> and the list functions share.\<close>

definition obj_matches :: "u32 \<Rightarrow> u32 \<Rightarrow> bool \<Rightarrow> fte_object \<Rightarrow> bool" where
  "obj_matches ty nMask bSystem ob \<longleftrightarrow> (bSystem \<or> obj_id ob AND FTE_OBJ_SYSTEM = 0)
     \<and> (ty = FTE_OBJ_TYPE_UNKNOWN \<or> obj_id ob AND nMask = ty AND nMask)"

definition FTE_OBJ_getAt :: "'d sys obj_env \<Rightarrow> u32 \<Rightarrow> u32 \<Rightarrow> u32 \<Rightarrow> bool \<Rightarrow> 'd sys \<Rightarrow> (addr \<times> 'd sys) option" where
  "FTE_OBJ_getAt E ty nMask n bSystem s = do {
     ((p, _), s) \<leftarrow> obj_walk E (\<lambda>p ob (x, i). if obj_matches ty nMask bSystem ob
         then if i = 0 then Inr (p, i) else Inl (x, i - 1) else Inl (x, i)) (NULL, n) s;
     Some (p, s)
   }"

definition FTE_OBJ_count :: "'d sys obj_env \<Rightarrow> u32 \<Rightarrow> u32 \<Rightarrow> bool \<Rightarrow> 'd sys \<Rightarrow> (u32 \<times> 'd sys) option" where
  "FTE_OBJ_count E ty nMask bSystem =
     obj_walk E (\<lambda>p ob n. Inl (if obj_matches ty nMask bSystem ob then n + 1 else n)) 0"

definition FTE_OBJ_getList :: "'d sys obj_env \<Rightarrow> u32 \<Rightarrow> u32 \<Rightarrow> u32 \<Rightarrow> 'd sys \<Rightarrow> (addr list \<times> 'd sys) option" where
  "FTE_OBJ_getList E ty nMask nMaxCount =
     obj_walk E (\<lambda>p ob ps. if nMaxCount \<le> of_nat (length ps) then Inr ps
       else Inl (if obj_matches ty nMask False ob then ps @ [p] else ps)) []"

definition FTE_OBJ_getIDList :: "'d sys obj_env \<Rightarrow> u32 \<Rightarrow> u32 \<Rightarrow> u32 \<Rightarrow> 'd sys \<Rightarrow> (fte_ret \<times> u32 list \<times> 'd sys) option" where
  "FTE_OBJ_getIDList E ty nMask nMaxCount s = do {
     (is, s) \<leftarrow> obj_walk E (\<lambda>p ob is. if nMaxCount \<le> of_nat (length is) then Inr is
       else Inl (if obj_matches ty nMask False ob then is @ [obj_id ob] else is)) [] s;
     Some (FTE_RET_OK, is, s)
   }"

section \<open>Creation\<close>

text \<open>The object's own list of events is a header inside the object.\<close>

definition xEventList :: "addr \<Rightarrow> addr" where "xEventList pObj = pObj + 12"

definition fte_object_zero :: fte_object where
  "fte_object_zero = \<lparr>pConfigP = NULL, pStatusP = NULL, oAction = None, oConfig = object_zero, oFlags = 0, oValues = []\<rparr>"

text \<open>A block that \<^verbatim>\<open>FTE_MEM_allocZero(sizeof(FTE_OBJECT))\<close> returns holds a cleared object.\<close>

definition FTE_MEM_allocObject :: "'d sys \<Rightarrow> addr \<times> 'd sys" where
  "FTE_MEM_allocObject s =
     (let (p, s) = FTE_MEM_alloc s in
      if p = NULL then (NULL, s)
      else (p, s\<lparr>objs := (objs s)(p \<mapsto> fte_object_zero), lists := (lists s)(xEventList p \<mapsto> list_zero)\<rparr>))"

definition FTE_MEM_freeObject :: "addr \<Rightarrow> 'd sys \<Rightarrow> 'd sys option" where
  "FTE_MEM_freeObject p s = do {
     s \<leftarrow> FTE_MEM_free p s;
     Some (s\<lparr>objs := (objs s)(p := None), lists := (lists s)(xEventList p := None)\<rparr>)
   }"

text \<open>The label \<^verbatim>\<open>error\<close>.\<close>

definition create_error :: "addr \<Rightarrow> 'd sys \<Rightarrow> (addr \<times> 'd sys) option" where
  "create_error pObj s =
     (if pObj = NULL then Some (NULL, s)
      else do {
        (_, s) \<leftarrow> FTE_LIST_final (xEventList pObj) s;
        ob \<leftarrow> objs s pObj;
        s \<leftarrow> FTE_MEM_free (pStatusP ob) s;
        s \<leftarrow> FTE_MEM_free (pConfigP ob) s;
        s \<leftarrow> FTE_MEM_freeObject pObj s;
        Some (NULL, s)
      })"

text \<open>The type's \<^verbatim>\<open>f_attach\<close> installs the action table and sets up the values.\<close>

definition FTE_OBJ_create :: "'d sys obj_env \<Rightarrow> object_config \<Rightarrow> 'd sys \<Rightarrow> (addr \<times> 'd sys) option" where
  "FTE_OBJ_create E pConfig s =
     (case FTE_OBJ_DESC_get (nID pConfig AND FTE_OBJ_TYPE_MASK) (pObjDescs E) of
        None \<Rightarrow> create_error NULL s
      | Some pDesc \<Rightarrow> do {
          let (pObj, s) = FTE_MEM_allocObject s;
          if pObj = NULL then create_error NULL s
          else do {
            (_, s) \<leftarrow> FTE_LIST_init (xEventList pObj) s;
            let (q, s) = FTE_MEM_alloc s;
            s \<leftarrow> upd_obj pObj (\<lambda>ob. ob\<lparr>pConfigP := q\<rparr>) s;
            if q = NULL then create_error pObj s
            else do {
              s \<leftarrow> upd_obj pObj (\<lambda>ob. ob\<lparr>oConfig := pConfig\<rparr>) s;
              let (q, s) = FTE_MEM_alloc s;
              s \<leftarrow> upd_obj pObj (\<lambda>ob. ob\<lparr>pStatusP := q\<rparr>) s;
              if q = NULL then create_error pObj s
              else do {
                (r, s) \<leftarrow> f_attach pDesc pObj s;
                if r \<noteq> FTE_RET_OK then create_error pObj s
                else do {
                  (r, s) \<leftarrow> FTE_LIST_pushSort (xObjList E) pObj (FTE_OBJ_comaratorID (objs s)) s;
                  if r \<noteq> FTE_RET_OK then create_error pObj s else Some (pObj, s)
                }
              }
            }
          }
        })"

section \<open>Flags, names and the configuration\<close>

definition FTE_OBJ_save :: "addr \<Rightarrow> 'd sys \<Rightarrow> (fte_ret \<times> 'd sys) option" where
  "FTE_OBJ_save pObj s = do {
     ob \<leftarrow> objs s pObj;
     Some (FTE_RET_OK, s\<lparr>cfg := snd (FTE_CFG_OBJ_save (oConfig ob) (cfg s))\<rparr>)
   }"

definition FTE_OBJ_FLAG_isSet :: "addr \<Rightarrow> u32 \<Rightarrow> 'd sys \<Rightarrow> bool option" where
  "FTE_OBJ_FLAG_isSet pObj f s = do { ob \<leftarrow> objs s pObj; Some (FTE_FLAG_IS_SET (xFlags (oConfig ob)) f) }"

definition FTE_OBJ_FLAG_set :: "addr \<Rightarrow> u32 \<Rightarrow> 'd sys \<Rightarrow> (fte_ret \<times> 'd sys) option" where
  "FTE_OBJ_FLAG_set pObj f s = do {
     s \<leftarrow> upd_obj pObj (\<lambda>ob. ob\<lparr>oConfig := (oConfig ob)\<lparr>xFlags := FTE_FLAG_SET (xFlags (oConfig ob)) f\<rparr>\<rparr>) s;
     (_, s) \<leftarrow> FTE_OBJ_save pObj s;
     Some (FTE_RET_OK, s)
   }"

definition FTE_OBJ_FLAG_clear :: "addr \<Rightarrow> u32 \<Rightarrow> 'd sys \<Rightarrow> (fte_ret \<times> 'd sys) option" where
  "FTE_OBJ_FLAG_clear pObj f s = do {
     s \<leftarrow> upd_obj pObj (\<lambda>ob. ob\<lparr>oConfig := (oConfig ob)\<lparr>xFlags := FTE_FLAG_CLR (xFlags (oConfig ob)) f\<rparr>\<rparr>) s;
     (_, s) \<leftarrow> FTE_OBJ_save pObj s;
     Some (FTE_RET_OK, s)
   }"

abbreviation MAX_OBJECT_NAME_LEN :: nat where "MAX_OBJECT_NAME_LEN \<equiv> 16"

text \<open>\<open>src\<close> is the memory the name is copied from, at least \<open>len\<close> characters.\<close>

definition FTE_OBJ_setName :: "addr \<Rightarrow> string \<Rightarrow> u32 \<Rightarrow> 'd sys \<Rightarrow> (fte_ret \<times> 'd sys) option" where
  "FTE_OBJ_setName pObj src len s =
     (if len \<le> of_nat MAX_OBJECT_NAME_LEN then do {
        guard_opt (unat len \<le> length src);
        s \<leftarrow> upd_obj pObj (\<lambda>ob. ob\<lparr>oConfig := (oConfig ob)\<lparr>pName := c_str (take (unat len) src)\<rparr>\<rparr>) s;
        (_, s) \<leftarrow> FTE_OBJ_save pObj s;
        Some (FTE_RET_OK, s)
      } else do { _ \<leftarrow> objs s pObj; Some (FTE_RET_ERROR, s) })"

definition FTE_OBJ_STATE_set :: "addr \<Rightarrow> u32 \<Rightarrow> 'd sys \<Rightarrow> 'd sys option" where
  "FTE_OBJ_STATE_set pObj f s = upd_obj pObj (\<lambda>ob. ob\<lparr>oFlags := FTE_FLAG_SET (oFlags ob) f\<rparr>) s"

definition FTE_OBJ_STATE_clear :: "addr \<Rightarrow> u32 \<Rightarrow> 'd sys \<Rightarrow> 'd sys option" where
  "FTE_OBJ_STATE_clear pObj f s = upd_obj pObj (\<lambda>ob. ob\<lparr>oFlags := FTE_FLAG_CLR (oFlags ob) f\<rparr>) s"

definition FTE_OBJ_STATE_isSet :: "addr \<Rightarrow> u32 \<Rightarrow> 'd sys \<Rightarrow> bool option" where
  "FTE_OBJ_STATE_isSet pObj f s = do { ob \<leftarrow> objs s pObj; Some (FTE_FLAG_IS_SET (oFlags ob) f) }"

definition FTE_OBJ_wasUpdated :: "addr \<Rightarrow> 'd sys \<Rightarrow> (fte_ret \<times> 'd sys) option" where
  "FTE_OBJ_wasUpdated pObj s = do { s \<leftarrow> FTE_OBJ_STATE_set pObj FTE_OBJ_STATUS_FLAG_UPDATED s; Some (FTE_RET_OK, s) }"

definition FTE_OBJ_wasChanged :: "addr \<Rightarrow> 'd sys \<Rightarrow> (fte_ret \<times> 'd sys) option" where
  "FTE_OBJ_wasChanged pObj s = do {
     s \<leftarrow> FTE_OBJ_STATE_set pObj (FTE_OBJ_STATUS_FLAG_UPDATED OR FTE_OBJ_STATUS_FLAG_CHANGED) s;
     Some (FTE_RET_OK, s)
   }"

section \<open>Values\<close>

text \<open>\<^verbatim>\<open>pObj->pAction->f\<close>: a NULL table is a fault.\<close>

definition obj_action :: "'d sys obj_env \<Rightarrow> fte_object \<Rightarrow> 'd sys obj_action option" where
  "obj_action E ob = map_option (actions E) (oAction ob)"

text \<open>\<^verbatim>\<open>pObj->pStatus->pValue[0]\<close>.\<close>

definition obj_value :: "fte_object \<Rightarrow> fte_value option" where
  "obj_value ob = (case oValues ob of [] \<Rightarrow> None | v # _ \<Rightarrow> Some v)"

definition FTE_OBJ_getValue :: "addr \<Rightarrow> 'd sys \<Rightarrow> (fte_ret \<times> fte_value) option" where
  "FTE_OBJ_getValue pObj s = do { ob \<leftarrow> objs s pObj; v \<leftarrow> obj_value ob; Some (FTE_RET_OK, v) }"

definition FTE_OBJ_setValue :: "'d sys obj_env \<Rightarrow> addr \<Rightarrow> fte_value \<Rightarrow> 'd sys \<Rightarrow> (fte_ret \<times> 'd sys) option" where
  "FTE_OBJ_setValue E pObj v s = do {
     ob \<leftarrow> objs s pObj;
     act \<leftarrow> obj_action E ob;
     case fSet act of Some f \<Rightarrow> f pObj v s | None \<Rightarrow> Some (FTE_RET_ERROR, s)
   }"

definition FTE_OBJ_setValueAt :: "'d sys obj_env \<Rightarrow> addr \<Rightarrow> u32 \<Rightarrow> fte_value \<Rightarrow> 'd sys \<Rightarrow> (fte_ret \<times> 'd sys) option" where
  "FTE_OBJ_setValueAt E pObj n v s = do {
     ob \<leftarrow> objs s pObj;
     act \<leftarrow> obj_action E ob;
     case fSetMulti act of Some f \<Rightarrow> f pObj n v s | None \<Rightarrow> Some (FTE_RET_ERROR, s)
   }"

text \<open>The value is returned in \<^verbatim>\<open>*pValue\<close>: \<open>None\<close> where it is not set.\<close>

definition FTE_OBJ_getValueAt ::
    "'d sys obj_env \<Rightarrow> addr \<Rightarrow> u32 \<Rightarrow> 'd sys \<Rightarrow> (fte_ret \<times> fte_value option \<times> 'd sys) option" where
  "FTE_OBJ_getValueAt E pObj n s = do {
     ob \<leftarrow> objs s pObj;
     act \<leftarrow> obj_action E ob;
     case fGetMulti act of
       Some f \<Rightarrow> f pObj n s
     | None \<Rightarrow> if unat n < length (oValues ob) then Some (FTE_RET_OK, Some (oValues ob ! unat n), s)
              else Some (FTE_RET_ERROR, None, s)
   }"

definition FTE_OBJ_setValueString ::
    "'d sys obj_env \<Rightarrow> 'f float_ops \<Rightarrow> addr \<Rightarrow> string \<Rightarrow> 'd sys \<Rightarrow> (fte_ret \<times> 'd sys) option" where
  "FTE_OBJ_setValueString E fl pObj pString s = do {
     ob \<leftarrow> objs s pObj;
     v \<leftarrow> obj_value ob;
     let (r, v) = FTE_VALUE_set fl pString v;
     if r = FTE_RET_OK then FTE_OBJ_setValue E pObj v s else Some (FTE_RET_ERROR, s)
   }"

definition FTE_OBJ_getValueType :: "addr \<Rightarrow> 'd sys \<Rightarrow> fte_value_type option" where
  "FTE_OBJ_getValueType pObj s = do { ob \<leftarrow> objs s pObj; v \<leftarrow> obj_value ob; Some (xType v) }"

definition FTE_OBJ_typeString :: "'d sys obj_env \<Rightarrow> addr \<Rightarrow> 'd sys \<Rightarrow> string option option" where
  "FTE_OBJ_typeString E pObj s = do {
     ob \<leftarrow> objs s pObj;
     Some (map_option dName (FTE_OBJ_DESC_get (obj_id ob AND FTE_OBJ_TYPE_MASK) (pObjDescs E)))
   }"

definition FTE_OBJ_init :: "'d sys obj_env \<Rightarrow> addr \<Rightarrow> 'd sys \<Rightarrow> (fte_ret \<times> 'd sys) option" where
  "FTE_OBJ_init E pObj s = do {
     ob \<leftarrow> objs s pObj;
     case Option.bind (obj_action E ob) fInit of
       None \<Rightarrow> Some (FTE_RET_NOT_SUPPORTED_FUNCTION, s)
     | Some f \<Rightarrow> f pObj s
   }"

definition FTE_OBJ_getInterval :: "'d sys obj_env \<Rightarrow> addr \<Rightarrow> 'd sys \<Rightarrow> (fte_ret \<times> u32 option \<times> 'd sys) option" where
  "FTE_OBJ_getInterval E pObj s = do {
     ob \<leftarrow> objs s pObj;
     case Option.bind (obj_action E ob) fGetInterval of
       None \<Rightarrow> Some (FTE_RET_NOT_SUPPORTED_FUNCTION, None, s)
     | Some f \<Rightarrow> do { (r, n, s) \<leftarrow> f pObj s; Some (r, Some n, s) }
   }"

definition FTE_OBJ_setInterval :: "'d sys obj_env \<Rightarrow> addr \<Rightarrow> u32 \<Rightarrow> 'd sys \<Rightarrow> (fte_ret \<times> 'd sys) option" where
  "FTE_OBJ_setInterval E pObj n s = do {
     ob \<leftarrow> objs s pObj;
     case Option.bind (obj_action E ob) fSetInterval of
       None \<Rightarrow> Some (FTE_RET_NOT_SUPPORTED_FUNCTION, s)
     | Some f \<Rightarrow> f pObj n s
   }"

section \<open>Children\<close>

definition FTE_OBJ_getChildCount :: "addr \<Rightarrow> 'd sys \<Rightarrow> (fte_ret \<times> u32) option" where
  "FTE_OBJ_getChildCount pObj s = do { ob \<leftarrow> objs s pObj; Some (FTE_RET_OK, of_nat (length (oValues ob))) }"

text \<open>The result of the search in the second branch goes to a local variable of the same
  name that ends with the block.\<close>

definition FTE_OBJ_getChild :: "'d sys obj_env \<Rightarrow> addr \<Rightarrow> u32 \<Rightarrow> 'd sys \<Rightarrow> (fte_ret \<times> addr option \<times> 'd sys) option" where
  "FTE_OBJ_getChild E pObj n s = do {
     ob \<leftarrow> objs s pObj;
     case Option.bind (obj_action E ob) fGetChild of
       Some f \<Rightarrow> do {
         (r, xChildID, s) \<leftarrow> f pObj n s;
         if r \<noteq> FTE_RET_OK then Some (r, None, s)
         else do {
           (pChild, s) \<leftarrow> FTE_OBJ_get E xChildID s;
           if pChild \<noteq> NULL then Some (FTE_RET_OK, Some pChild, s)
           else Some (FTE_RET_OBJECT_NOT_FOUND, None, s)
         }
       }
     | None \<Rightarrow> do {
         let ulGroupID = drop_bit 8 (obj_id ob AND 0x00FF0000);
         (_, s) \<leftarrow> FTE_OBJ_getAt E ulGroupID 0xFF00 n False s;
         Some (FTE_RET_OBJECT_NOT_FOUND, None, s)
       }
   }"

definition FTE_OBJ_attachChild :: "'d sys obj_env \<Rightarrow> addr \<Rightarrow> u32 \<Rightarrow> 'd sys \<Rightarrow> (fte_ret \<times> 'd sys) option" where
  "FTE_OBJ_attachChild E pObj xChildID s = do {
     ob \<leftarrow> objs s pObj;
     case Option.bind (obj_action E ob) fAttachChild of
       Some f \<Rightarrow> f pObj xChildID s
     | None \<Rightarrow> Some (FTE_RET_NOT_SUPPORTED_FUNCTION, s)
   }"

definition FTE_OBJ_detachChild :: "'d sys obj_env \<Rightarrow> addr \<Rightarrow> u32 \<Rightarrow> 'd sys \<Rightarrow> (fte_ret \<times> 'd sys) option" where
  "FTE_OBJ_detachChild E pObj xChildID s = do {
     ob \<leftarrow> objs s pObj;
     case Option.bind (obj_action E ob) fDetachChild of
       Some f \<Rightarrow> f pObj xChildID s
     | None \<Rightarrow> Some (FTE_RET_NOT_SUPPORTED_FUNCTION, s)
   }"

section \<open>Starting and stopping\<close>

text \<open>
  \<^verbatim>\<open>FTE_OBJ_start\<close> and \<^verbatim>\<open>FTE_OBJ_stop\<close> call themselves for the children the driver names.
  The recursion is over the call \<open>ObjCall p\<close> and the loop \<open>ObjLoop p i n\<close> over child numbers
  \<open>i\<close> to \<open>n\<close>; a driver whose objects are children of each other makes it infinite.
\<close>

datatype obj_job = ObjCall addr | ObjLoop addr nat nat

text \<open>Calling \<^verbatim>\<open>fGetChildCount\<close>, when there is one.\<close>

definition obj_child_count :: "'d sys obj_env \<Rightarrow> addr \<Rightarrow> 'd sys \<Rightarrow> (u32 \<times> 'd sys) option" where
  "obj_child_count E pObj s = do {
     ob \<leftarrow> objs s pObj;
     act \<leftarrow> obj_action E ob;
     case fGetChildCount act of Some f \<Rightarrow> f pObj s | None \<Rightarrow> Some (0, s)
   }"

text \<open>The child at position \<open>i\<close>, NULL when the driver or the registry does not know it.\<close>

definition obj_child :: "'d sys obj_env \<Rightarrow> addr \<Rightarrow> nat \<Rightarrow> 'd sys \<Rightarrow> (addr \<times> 'd sys) option" where
  "obj_child E pObj i s = do {
     ob \<leftarrow> objs s pObj;
     act \<leftarrow> obj_action E ob;
     f \<leftarrow> fGetChild act;
     (r, xChildID, s) \<leftarrow> f pObj (of_nat i) s;
     if r = FTE_RET_OK then FTE_OBJ_get E xChildID s else Some (NULL, s)
   }"

text \<open>The check of the parent, before \<^verbatim>\<open>fRun\<close>.\<close>

definition obj_parent_check :: "'d sys obj_env \<Rightarrow> fte_object \<Rightarrow> 'd sys \<Rightarrow> (fte_ret \<times> 'd sys) option" where
  "obj_parent_check E ob s =
     (if FTE_OBJ_IS_CHILD ob then do {
        (pParent, s) \<leftarrow> FTE_OBJ_get E (nDevID (oConfig ob)) s;
        if pParent = NULL then Some (FTE_RET_INVALID_OBJECT, s)
        else do {
          par \<leftarrow> objs s pParent;
          if FTE_OBJ_IS_ENABLED par then Some (FTE_RET_OK, s) else Some (FTE_RET_PARENT_IS_STOPPED, s)
        }
      } else Some (FTE_RET_OK, s))"

partial_function (option) obj_start_job :: "'d sys obj_env \<Rightarrow> obj_job \<Rightarrow> 'd sys \<Rightarrow> (fte_ret \<times> 'd sys) option" where
  "obj_start_job E job s = (case job of
     ObjCall pObj \<Rightarrow> do {
       ob \<leftarrow> objs s pObj;
       act \<leftarrow> obj_action E ob;
       (case fRun act of
          None \<Rightarrow> Some (FTE_RET_NOT_SUPPORTED_FUNCTION, s)
        | Some run \<Rightarrow> do {
            (r, s) \<leftarrow> obj_parent_check E ob s;
            if r \<noteq> FTE_RET_OK then Some (r, s)
            else do {
              (r, s) \<leftarrow> run pObj s;
              if r \<noteq> FTE_RET_OK then Some (r, s)
              else do {
                (_, s) \<leftarrow> FTE_OBJ_FLAG_set pObj FTE_OBJ_CONFIG_FLAG_ENABLE s;
                (n, s) \<leftarrow> obj_child_count E pObj s;
                (_, s) \<leftarrow> obj_start_job E (ObjLoop pObj 0 (unat n)) s;
                Some (r, s)
              }
            }
          })
     }
   | ObjLoop pObj i n \<Rightarrow>
       if i < n then do {
         (pChild, s) \<leftarrow> obj_child E pObj i s;
         (if pChild = NULL then obj_start_job E (ObjLoop pObj (Suc i) n) s
          else do {
            (_, s) \<leftarrow> obj_start_job E (ObjCall pChild) s;
            obj_start_job E (ObjLoop pObj (Suc i) n) s
          })
       } else Some (FTE_RET_OK, s))"

definition FTE_OBJ_start :: "'d sys obj_env \<Rightarrow> addr \<Rightarrow> 'd sys \<Rightarrow> (fte_ret \<times> 'd sys) option" where
  "FTE_OBJ_start E pObj s = obj_start_job E (ObjCall pObj) s"

partial_function (option) obj_stop_job :: "'d sys obj_env \<Rightarrow> obj_job \<Rightarrow> 'd sys \<Rightarrow> (fte_ret \<times> 'd sys) option" where
  "obj_stop_job E job s = (case job of
     ObjCall pObj \<Rightarrow> do {
       ob \<leftarrow> objs s pObj;
       act \<leftarrow> obj_action E ob;
       (case fStop act of
          None \<Rightarrow> Some (FTE_RET_NOT_SUPPORTED_FUNCTION, s)
        | Some stop \<Rightarrow> do {
            (r, s) \<leftarrow> stop pObj s;
            if r \<noteq> FTE_RET_OK then Some (r, s)
            else do {
              (_, s) \<leftarrow> FTE_OBJ_FLAG_clear pObj FTE_OBJ_CONFIG_FLAG_ENABLE s;
              (n, s) \<leftarrow> obj_child_count E pObj s;
              (_, s) \<leftarrow> obj_stop_job E (ObjLoop pObj 0 (unat n)) s;
              Some (r, s)
            }
          })
     }
   | ObjLoop pObj i n \<Rightarrow>
       if i < n then do {
         (pChild, s) \<leftarrow> obj_child E pObj i s;
         (if pChild = NULL then obj_stop_job E (ObjLoop pObj (Suc i) n) s
          else do {
            (_, s) \<leftarrow> obj_stop_job E (ObjCall pChild) s;
            obj_stop_job E (ObjLoop pObj (Suc i) n) s
          })
       } else Some (FTE_RET_OK, s))"

definition FTE_OBJ_stop :: "'d sys obj_env \<Rightarrow> addr \<Rightarrow> 'd sys \<Rightarrow> (fte_ret \<times> 'd sys) option" where
  "FTE_OBJ_stop E pObj s = obj_stop_job E (ObjCall pObj) s"

text \<open>\<^verbatim>\<open>FTE_OBJ_activate\<close> starts or stops the children once more and returns OK in any case.\<close>

definition FTE_OBJ_activate :: "'d sys obj_env \<Rightarrow> addr \<Rightarrow> bool \<Rightarrow> 'd sys \<Rightarrow> (fte_ret \<times> 'd sys) option" where
  "FTE_OBJ_activate E pObj enabled s = do {
     ob \<leftarrow> objs s pObj;
     s \<leftarrow> (if enabled then
             if \<not> FTE_OBJ_IS_ENABLED ob then do {
               (r, s) \<leftarrow> FTE_OBJ_start E pObj s;
               if r = FTE_RET_OK then do {
                 (n, s) \<leftarrow> obj_child_count E pObj s;
                 (_, s) \<leftarrow> obj_start_job E (ObjLoop pObj 0 (unat n)) s;
                 Some s
               } else Some s
             } else Some s
           else
             if FTE_OBJ_IS_ENABLED ob then do {
               (r, s) \<leftarrow> FTE_OBJ_stop E pObj s;
               if r = FTE_RET_OK then do {
                 (n, s) \<leftarrow> obj_child_count E pObj s;
                 (_, s) \<leftarrow> obj_stop_job E (ObjLoop pObj 0 (unat n)) s;
                 Some s
               } else Some s
             } else Some s);
     (_, s) \<leftarrow> FTE_OBJ_save pObj s;
     Some (FTE_RET_OK, s)
   }"

definition FTE_OBJ_destroy :: "'d sys obj_env \<Rightarrow> addr \<Rightarrow> 'd sys \<Rightarrow> (fte_ret \<times> 'd sys) option" where
  "FTE_OBJ_destroy E pObj s = do {
     ob \<leftarrow> objs s pObj;
     case FTE_OBJ_DESC_get (obj_id ob AND FTE_OBJ_TYPE_MASK) (pObjDescs E) of
       None \<Rightarrow> Some (FTE_RET_ERROR, s)
     | Some pDesc \<Rightarrow> do {
         (_, s) \<leftarrow> FTE_OBJ_stop E pObj s;
         (_, s) \<leftarrow> FTE_LIST_remove (xObjList E) pObj s;
         (_, s) \<leftarrow> f_detach pDesc pObj s;
         ob \<leftarrow> objs s pObj;
         s \<leftarrow> FTE_MEM_free (pStatusP ob) s;
         s \<leftarrow> FTE_MEM_free (pConfigP ob) s;
         s \<leftarrow> FTE_MEM_freeObject pObj s;
         Some (FTE_RET_OK, s)
       }
   }"

end
