(* ===== verification/FTE_ObjectReg.thy ===== *)
theory FTE_ObjectReg
  imports FTE_Object
begin

unbundle bit_operations_syntax

text \<open>
  The registry of objects of \<^verbatim>\<open>target/source/obj/fte_object.c\<close>: what the searches see is
  the list of objects in the order of their class and index, and \<^verbatim>\<open>FTE_OBJ_create\<close> inserts
  into it.
\<close>

section \<open>The searches\<close>

text \<open>The walk over the addresses in the registry.\<close>

fun walk :: "(addr \<Rightarrow> fte_object \<Rightarrow> 'a \<Rightarrow> 'a + 'a) \<Rightarrow> (addr \<rightharpoonup> fte_object) \<Rightarrow> 'a \<Rightarrow> addr list \<Rightarrow> 'a" where
  "walk step M x [] = x"
| "walk step M x (p # ps) = (case step p (the (M p)) x of Inl y \<Rightarrow> walk step M y ps | Inr y \<Rightarrow> y)"

lemma obj_loop_walk:
  assumes "list_iterate it s = Some ps" "\<forall>p \<in> set ps. objs s p \<noteq> None"
  shows "obj_loop (\<lambda>p x. do { ob \<leftarrow> objs s p; Some (step p ob x) }) x it s = Some (walk step (objs s) x ps)"
  using assms
proof (induction ps arbitrary: it x)
  case Nil
  then show ?case
    by (subst (asm) list_iterate.simps, subst obj_loop.simps) (auto simp: opt_simps split: if_split_asm)
next
  case (Cons p ps)
  then obtain it' where g: "FTE_LIST_ITER_getNext it s = Some (p, it')" "p \<noteq> NULL" "list_iterate it' s = Some ps"
    by (subst (asm) list_iterate.simps) (auto simp: opt_simps split: if_split_asm)
  obtain ob where "objs s p = Some ob" using Cons.prems(2) by auto
  then show ?case using g Cons.IH [OF g(3)] Cons.prems(2)
    by (subst obj_loop.simps) (auto split: sum.split)
qed

text \<open>The registry: the addresses in order, the order being that of class and index.\<close>

definition reg_key :: "(addr \<rightharpoonup> fte_object) \<Rightarrow> addr \<Rightarrow> u32" where
  "reg_key M p = obj_id (the (M p)) AND (FTE_OBJ_CLASS_MASK OR FTE_OBJ_CLASS_INDEX)"

definition registry :: "'d sys obj_env \<Rightarrow> 'd sys \<Rightarrow> foot \<Rightarrow> addr list \<Rightarrow> bool" where
  "registry E s F ps \<longleftrightarrow> list_abs s (xObjList E) F ps \<and> pool_ok s
     \<and> (\<forall>p \<in> set ps. objs s p \<noteq> None) \<and> set ps \<subseteq> live s - fpset F
     \<and> sorted_wrt (\<lambda>p q. reg_key (objs s) p < reg_key (objs s) q) ps"

lemma obj_walk_registry:
  assumes "registry E s F ps" "F \<noteq> None"
  shows "obj_walk E step x s = Some (walk step (objs s) x ps, s)"
proof -
  obtain it where "FTE_LIST_ITER_init (xObjList E) s = Some (FTE_RET_OK, it, s)" "list_iterate it s = Some ps"
    using iterate_abs assms unfolding registry_def by metis
  then show ?thesis using assms(1) obj_loop_walk [of it s ps step x]
    by (simp add: obj_walk_def registry_def)
qed

lemma find_unique: "p \<in> set ps \<Longrightarrow> P p \<Longrightarrow> \<forall>q \<in> set ps. q \<noteq> p \<longrightarrow> \<not> P q \<Longrightarrow> find P ps = Some p"
  by (induction ps) auto

lemma walk_find:
  "walk (\<lambda>p ob x. if P ob then Inr p else Inl x) M r ps = (case find (\<lambda>p. P (the (M p))) ps of Some p \<Rightarrow> p | None \<Rightarrow> r)"
  by (induction ps) auto

lemma walk_count:
  "walk (\<lambda>p ob n. Inl (if P ob then n + 1 else n)) M n ps = n + of_nat (length (filter (\<lambda>p. P (the (M p))) ps))" for n :: u32
  by (induction ps arbitrary: n) auto

lemma walk_nth:
  "fst (walk (\<lambda>p ob (x, i). if P ob then if i = 0 then Inr (p, i) else Inl (x, i - 1) else Inl (x, i)) M (r, n) ps)
    = (let ms = filter (\<lambda>p. P (the (M p))) ps in if unat n < length ms then ms ! unat n else r)" for n :: u32
proof (induction ps arbitrary: n)
  case (Cons p ps)
  show ?case
  proof (cases "P (the (M p)) \<and> n \<noteq> 0")
    case True
    then have "unat n = Suc (unat (n - 1))" by (simp add: unat_minus_one unat_gt_0)
    then show ?thesis using Cons [of "n - 1"] True by (simp add: Let_def)
  next
    case False
    then show ?thesis using Cons [of n] by (auto simp: Let_def)
  qed
qed simp

lemma walk_collect:
  fixes m :: u32
  assumes "length ps < 2 ^ 32" "length acc + length ps < 2 ^ 32" "length acc \<le> unat m"
  shows "walk (\<lambda>p ob ys. if m \<le> of_nat (length ys) then Inr ys else Inl (if P ob then ys @ [f p ob] else ys)) M acc ps
    = acc @ take (unat m - length acc) (map (\<lambda>p. f p (the (M p))) (filter (\<lambda>p. P (the (M p))) ps))"
  using assms
proof (induction ps arbitrary: acc)
  case (Cons p ps)
  have u: "unat (of_nat (length acc) :: u32) = length acc" using Cons.prems by (intro unat_of_nat_small) simp
  show ?case
  proof (cases "m \<le> of_nat (length acc)")
    case True
    then have "unat m - length acc = 0" using u by (simp add: word_le_nat_alt)
    then show ?thesis using True by simp
  next
    case False
    then have lt: "length acc < unat m" using u by (simp add: word_le_nat_alt)
    then have "unat m - length acc = Suc (unat m - Suc (length acc))" by simp
    then show ?thesis using False lt Cons.IH [of "acc @ [f p (the (M p))]"] Cons.IH [of acc] Cons.prems
      by auto
  qed
qed simp

definition matching :: "u32 \<Rightarrow> u32 \<Rightarrow> bool \<Rightarrow> 'd sys \<Rightarrow> addr list \<Rightarrow> addr list" where
  "matching ty nMask bSystem s ps = filter (\<lambda>p. obj_matches ty nMask bSystem (the (objs s p))) ps"

lemma registry_length: "registry E s F ps \<Longrightarrow> length ps < 2 ^ 32"
  by (cases F) (auto simp: registry_def dest: list_abs_count(2))

lemma registry_sorted: "registry E s F ps \<Longrightarrow> sorted_wrt (\<lambda>p q. reg_key (objs s) p < reg_key (objs s) q) ps"
  by (simp add: registry_def)

lemma OBJ_get_registry:
  assumes "registry E s F ps" "F \<noteq> None"
  shows "FTE_OBJ_get E oid s = Some (case find (\<lambda>p. obj_id (the (objs s p)) = oid) ps of Some p \<Rightarrow> p | None \<Rightarrow> NULL, s)"
  unfolding FTE_OBJ_get_def obj_walk_registry [OF assms] walk_find ..

lemma OBJ_getAt_registry:
  assumes "registry E s F ps" "F \<noteq> None"
  shows "FTE_OBJ_getAt E ty nMask n b s = Some (let ms = matching ty nMask b s ps in
    if unat n < length ms then ms ! unat n else NULL, s)"
  using walk_nth [of "obj_matches ty nMask b" "objs s" NULL n ps]
  unfolding FTE_OBJ_getAt_def obj_walk_registry [OF assms] matching_def by (simp add: case_prod_unfold)

lemma OBJ_count_registry:
  assumes "registry E s F ps" "F \<noteq> None"
  shows "FTE_OBJ_count E ty nMask b s = Some (of_nat (length (matching ty nMask b s ps)), s)"
  unfolding FTE_OBJ_count_def obj_walk_registry [OF assms] matching_def walk_count by simp

lemma OBJ_getList_registry:
  assumes "registry E s F ps" "F \<noteq> None"
  shows "FTE_OBJ_getList E ty nMask m s = Some (take (unat m) (matching ty nMask False s ps), s)"
  using walk_collect [of ps "[]" m "obj_matches ty nMask False" "\<lambda>p ob. p" "objs s"] registry_length [OF assms(1)]
  unfolding FTE_OBJ_getList_def obj_walk_registry [OF assms] matching_def by simp

lemma OBJ_getIDList_registry:
  assumes "registry E s F ps" "F \<noteq> None"
  shows "FTE_OBJ_getIDList E ty nMask m s
    = Some (FTE_RET_OK, take (unat m) (map (\<lambda>p. obj_id (the (objs s p))) (matching ty nMask False s ps)), s)"
  using walk_collect [of ps "[]" m "obj_matches ty nMask False" "\<lambda>p ob. obj_id ob" "objs s"] registry_length [OF assms(1)]
  unfolding FTE_OBJ_getIDList_def obj_walk_registry [OF assms] matching_def by simp

section \<open>Allocating beside a list\<close>

text \<open>\<open>grows q k s s'\<close>: \<open>k\<close> blocks were taken, and the list at \<open>q\<close> with the cells it is made of
  was not written to.\<close>

definition grows :: "addr \<Rightarrow> nat \<Rightarrow> 'z kst \<Rightarrow> 'z kst \<Rightarrow> bool" where
  "grows q k s s' \<longleftrightarrow> lists s' q = lists s q
     \<and> (\<forall>a \<in> live s. nodes s' a = nodes s a \<and> sems s' a = sems s a)
     \<and> pool s' = drop k (pool s) \<and> live s' = live s \<union> set (take k (pool s))"

lemma grows_refl: "lists s' q = lists s q \<Longrightarrow> nodes s' = nodes s \<Longrightarrow> sems s' = sems s \<Longrightarrow> pool s' = pool s
    \<Longrightarrow> live s' = live s \<Longrightarrow> grows q 0 s s'"
  by (simp add: grows_def)

lemma grows_trans: "grows q j s s1 \<Longrightarrow> grows q k s1 s2 \<Longrightarrow> grows q (j + k) s s2"
  by (auto simp: grows_def take_add add.commute)

lemma room_take: "k \<le> room s \<Longrightarrow> NULL \<notin> set (take k (pool s)) \<and> k \<le> length (pool s)"
proof -
  assume k: "k \<le> room s"
  obtain tw dw where td: "tw = takeWhile (\<lambda>a. a \<noteq> NULL) (pool s)" "pool s = tw @ dw" by (metis takeWhile_dropWhile_id)
  then have "take k (pool s) = take k (takeWhile (\<lambda>a. a \<noteq> NULL) (pool s))"
    using k by (simp add: room_def flip: td(1))
  then have "NULL \<notin> set (take k (pool s))" by (metis (mono_tags) in_set_takeD set_takeWhileD)
  moreover have "room s \<le> length (pool s)" by (simp add: room_def length_takeWhile_le)
  ultimately show ?thesis using k by simp
qed

lemma grows_pool_ok:
  assumes "grows q k s s'" "pool_ok s" "k \<le> room s"
  shows "pool_ok s'" "room s = room s' + k"
proof -
  note G = assms(1) [unfolded grows_def]
  have nn: "NULL \<notin> set (take k (pool s))" using room_take [OF assms(3)] by simp
  have "distinct (filter (\<lambda>a. a \<noteq> NULL) (take k (pool s) @ drop k (pool s)))" using assms(2) by (simp add: pool_ok_def)
  then have d: "distinct (filter (\<lambda>a. a \<noteq> NULL) (drop k (pool s)))"
    "set (filter (\<lambda>a. a \<noteq> NULL) (take k (pool s))) \<inter> set (filter (\<lambda>a. a \<noteq> NULL) (drop k (pool s))) = {}"
    unfolding filter_append distinct_append by simp_all
  have "set (take k (pool s)) \<inter> set (drop k (pool s)) \<subseteq> {NULL}" using d(2) by auto
  then show "pool_ok s'" using G d(1) assms(2) nn by (auto simp: pool_ok_def dest: in_set_dropD)
  show "room s = room s' + k" using room_drop [OF assms(3), of s'] G by simp
qed

lemma grows_list_abs:
  assumes "grows q k s s'" "list_abs s q F ps"
  shows "list_abs s' q F ps"
  by (rule list_abs_cong [OF assms(2)]) (use assms list_abs_foot [OF assms(2)] in \<open>auto simp: grows_def\<close>)

lemma alloc_grows:
  assumes "1 \<le> room s" "pool_ok s"
  obtains a where "FTE_MEM_alloc s = (a, s\<lparr>pool := tl (pool s), live := insert a (live s)\<rparr>)"
    "a = hd (pool s)" "a \<noteq> NULL" "a \<notin> live s" "grows q 1 s (s\<lparr>pool := tl (pool s), live := insert a (live s)\<rparr>)"
proof -
  obtain a pl where "pool s = a # pl" "a \<noteq> NULL" using assms(1) by (rule pool_one)
  then show thesis using assms(2) by (intro that [of a]) (auto simp: FTE_MEM_alloc_def grows_def pool_ok_def)
qed

lemma list_init_grows:
  assumes "2 \<le> room s" "pool_ok s" "p \<noteq> NULL" "p \<noteq> q" "lists s p = Some list_zero"
  obtains s' where "FTE_LIST_init p s = Some (FTE_RET_OK, s')" "grows q 2 s s'" "fte_kernel.more s' = fte_kernel.more s"
proof -
  obtain h k pl where pl: "pool s = h # k # pl" "h \<noteq> NULL" "k \<noteq> NULL" using assms(1) by (rule pool_two)
  have hk: "h \<noteq> k" "h \<notin> live s" "k \<notin> live s" using assms(2) pl by (auto simp: pool_ok_def)
  let ?s' = "s\<lparr>pool := pl, live := insert k (insert h (live s)),
      nodes := (nodes s)(h \<mapsto> \<lparr>pPrev = h, pNext = h, pItem = NULL, nReserved = 0\<rparr>),
      lists := (lists s)(p \<mapsto> \<lparr>nCount = 0, pHead = h, pLockKey = k\<rparr>), sems := (sems s)(k \<mapsto> 1)\<rparr>"
  have "FTE_LIST_init p s = Some (FTE_RET_OK, ?s')"
    using assms(3,5) pl hk
    by (simp add: FTE_LIST_init_def FTE_MEM_allocNode_def FTE_MEM_alloc_def
        FTE_SYS_LOCK_create_def set_next_def set_prev_def list_upd_def)
  moreover have "grows q 2 s ?s'" using pl hk assms(4) by (auto simp: grows_def numeral_2_eq_2)
  ultimately show thesis by (intro that [of ?s']) simp_all
qed

section \<open>Creation\<close>

text \<open>What is asked of a type's \<^verbatim>\<open>f_attach\<close>: it sets up the object it is given, with at most \<open>k\<close>
  blocks of memory, and leaves the registry, the other objects and the configuration alone.\<close>

definition attaches :: "'d sys obj_env \<Rightarrow> 'd sys obj_desc \<Rightarrow> nat \<Rightarrow> bool" where
  "attaches E d k \<longleftrightarrow> (\<forall>p s ob. objs s p = Some ob \<and> pool_ok s \<and> k \<le> room s \<longrightarrow>
     (\<exists>s' act fl vs. f_attach d p s = Some (FTE_RET_OK, s') \<and> grows (xObjList E) k s s'
        \<and> objs s' = (objs s)(p \<mapsto> ob\<lparr>oAction := act, oFlags := fl, oValues := vs\<rparr>) \<and> cfg s' = cfg s))"

text \<open>The header inside an object is not the registry's.\<close>

definition headers_apart :: "'d sys obj_env \<Rightarrow> 'd sys \<Rightarrow> bool" where
  "headers_apart E s \<longleftrightarrow> (\<forall>a \<in> set (pool s). a \<noteq> NULL \<longrightarrow> xEventList a \<noteq> NULL \<and> xEventList a \<noteq> xObjList E)"

lemma comparator_less: "sint (FTE_OBJ_comaratorID M p q) < 0 \<longleftrightarrow> reg_key M p < reg_key M q"
  by (auto simp: FTE_OBJ_comaratorID_def reg_key_def Let_def)

lemma sort_insert_strict:
  assumes "\<And>i. sint (cmp p i) < 0 \<longleftrightarrow> f p < (f i :: 'a::linorder)" "sorted_wrt (\<lambda>a b. f a < f b) xs" "\<forall>x \<in> set xs. f x \<noteq> f p"
  shows "sorted_wrt (\<lambda>a b. f a < f b) (sort_insert cmp p xs)"
  using assms(2,3)
proof (induction xs)
  case (Cons y ys)
  have set: "set (sort_insert cmp p ys) = insert p (set ys)"
    unfolding sort_insert_def by (metis Un_insert_right list.simps(15) set_append takeWhile_dropWhile_id)
  show ?case
  proof (cases "f p < f y")
    case True
    then show ?thesis using Cons.prems by (auto simp: sort_insert_def assms(1) intro: less_trans)
  next
    case False
    then have "f y < f p" using Cons.prems(2) by auto
    then show ?thesis using Cons set False by (auto simp: sort_insert_def assms(1))
  qed
qed (simp add: sort_insert_def)

lemma same_more: "fte_kernel.more s' = fte_kernel.more s \<Longrightarrow> objs s' = objs s \<and> cfg s' = cfg s \<and> dev s' = dev s"
  by (cases s, cases s') simp

text \<open>The steps before the insertion.\<close>

lemma create_prepared:
  assumes "list_abs s (xObjList E) F ps" "pool_ok s" "headers_apart E s" "attaches E d k" "5 + k \<le> room s"
    and desc: "FTE_OBJ_DESC_get (nID c AND FTE_OBJ_TYPE_MASK) (pObjDescs E) = Some d"
  obtains p s' ob where "FTE_OBJ_create E c s = do {
        (r, s) \<leftarrow> FTE_LIST_pushSort (xObjList E) p (FTE_OBJ_comaratorID (objs s')) s';
        if r \<noteq> FTE_RET_OK then create_error p s else Some (p, s)
      }"
    "p \<noteq> NULL" "p \<notin> live s" "grows (xObjList E) (5 + k) s s'" "objs s' = (objs s)(p \<mapsto> ob)" "oConfig ob = c" "cfg s' = cfg s"
    "p \<in> live s'"
proof -
  let ?q = "xObjList E"
  have r1: "1 \<le> room s" using assms(5) by simp
  obtain p where p: "FTE_MEM_alloc s = (p, s\<lparr>pool := tl (pool s), live := insert p (live s)\<rparr>)"
    "p = hd (pool s)" "p \<noteq> NULL" "p \<notin> live s" "grows ?q 1 s (s\<lparr>pool := tl (pool s), live := insert p (live s)\<rparr>)"
    using alloc_grows [OF r1 assms(2)] .
  have "pool s \<noteq> []" using r1 by (auto simp: room_def)
  then have apart: "xEventList p \<noteq> NULL" "xEventList p \<noteq> ?q"
    using assms(3) p(2,3) by (auto simp: headers_apart_def)
  define s1 where "s1 = s\<lparr>pool := tl (pool s), live := insert p (live s), objs := (objs s)(p \<mapsto> fte_object_zero),
      lists := (lists s)(xEventList p \<mapsto> list_zero)\<rparr>"
  have a1: "FTE_MEM_allocObject s = (p, s1)" using p(1,3) by (simp add: FTE_MEM_allocObject_def s1_def)
  have g1: "grows ?q 1 s s1" using p(5) apart by (simp add: grows_def s1_def)
  have ok1: "pool_ok s1" "room s = room s1 + 1" using grows_pool_ok [OF g1 assms(2) r1] by simp_all
  have "2 \<le> room s1" using ok1(2) assms(5) by simp
  moreover have "lists s1 (xEventList p) = Some list_zero" by (simp add: s1_def)
  ultimately obtain s2 where i2: "FTE_LIST_init (xEventList p) s1 = Some (FTE_RET_OK, s2)" "grows ?q 2 s1 s2"
    "fte_kernel.more s2 = fte_kernel.more s1"
    using list_init_grows [OF _ ok1(1) apart] by blast
  have m2: "objs s2 = objs s1" "cfg s2 = cfg s1" using same_more [OF i2(3)] by simp_all
  have ok2: "pool_ok s2" "room s1 = room s2 + 2" using grows_pool_ok [OF i2(2) ok1(1)] ok1(2) assms(5) by simp_all
  have r2: "1 \<le> room s2" using ok1(2) ok2(2) assms(5) by simp
  obtain a where a: "FTE_MEM_alloc s2 = (a, s2\<lparr>pool := tl (pool s2), live := insert a (live s2)\<rparr>)"
    "a \<noteq> NULL" "grows ?q 1 s2 (s2\<lparr>pool := tl (pool s2), live := insert a (live s2)\<rparr>)"
    using alloc_grows [OF r2 ok2(1)] by metis
  define s3 where "s3 = s2\<lparr>pool := tl (pool s2), live := insert a (live s2),
      objs := (objs s2)(p \<mapsto> fte_object_zero\<lparr>pConfigP := a, oConfig := c\<rparr>)\<rparr>"
  have g3: "grows ?q 1 s2 s3" using a(3) by (simp add: grows_def s3_def)
  have ok3: "pool_ok s3" "room s2 = room s3 + 1" using grows_pool_ok [OF g3 ok2(1) r2] by simp_all
  have r3: "1 \<le> room s3" using ok1(2) ok2(2) ok3(2) assms(5) by simp
  obtain b where b: "FTE_MEM_alloc s3 = (b, s3\<lparr>pool := tl (pool s3), live := insert b (live s3)\<rparr>)"
    "b \<noteq> NULL" "grows ?q 1 s3 (s3\<lparr>pool := tl (pool s3), live := insert b (live s3)\<rparr>)"
    using alloc_grows [OF r3 ok3(1)] by metis
  define s4 where "s4 = s3\<lparr>pool := tl (pool s3), live := insert b (live s3),
      objs := (objs s2)(p \<mapsto> fte_object_zero\<lparr>pConfigP := a, oConfig := c, pStatusP := b\<rparr>)\<rparr>"
  have g4: "grows ?q 1 s3 s4" using b(3) by (simp add: grows_def s4_def)
  have ok4: "pool_ok s4" "room s3 = room s4 + 1" using grows_pool_ok [OF g4 ok3(1) r3] by simp_all
  have "k \<le> room s4" using ok1(2) ok2(2) ok3(2) ok4(2) assms(5) by simp
  moreover have o4: "objs s4 p = Some (fte_object_zero\<lparr>pConfigP := a, oConfig := c, pStatusP := b\<rparr>)" by (simp add: s4_def)
  ultimately have "\<exists>s' act fl vs. f_attach d p s4 = Some (FTE_RET_OK, s') \<and> grows ?q k s4 s'
      \<and> objs s' = (objs s4)(p \<mapsto> fte_object_zero\<lparr>pConfigP := a, oConfig := c, pStatusP := b, oAction := act, oFlags := fl, oValues := vs\<rparr>)
      \<and> cfg s' = cfg s4"
    using ok4(1) assms(4) [unfolded attaches_def, THEN spec, THEN spec, THEN spec, THEN mp] by blast
  then obtain s5 act fl vs where t: "f_attach d p s4 = Some (FTE_RET_OK, s5)" "grows ?q k s4 s5"
    "objs s5 = (objs s4)(p \<mapsto> fte_object_zero\<lparr>pConfigP := a, oConfig := c, pStatusP := b, oAction := act, oFlags := fl, oValues := vs\<rparr>)"
    "cfg s5 = cfg s4" by blast
  have "grows ?q (1 + 2 + 1 + 1 + k) s s5"
    using grows_trans [OF grows_trans [OF grows_trans [OF grows_trans [OF g1 i2(2)] g3] g4] t(2)] .
  moreover have "1 + 2 + 1 + 1 + k = 5 + k" by simp
  ultimately have g: "grows ?q (5 + k) s s5" by (simp only:)
  have "p \<in> live s5" using g1 i2(2) g3 g4 t(2) by (auto simp: grows_def s1_def)
  moreover have "objs s5 = (objs s)(p \<mapsto> fte_object_zero\<lparr>pConfigP := a, oConfig := c, pStatusP := b, oAction := act, oFlags := fl, oValues := vs\<rparr>)"
    using t(3) m2(1) by (simp add: s4_def s1_def)
  moreover have "cfg s5 = cfg s" using t(4) m2(2) by (simp add: s4_def s3_def s1_def)
  moreover have "FTE_OBJ_create E c s = do {
        (r, s) \<leftarrow> FTE_LIST_pushSort (xObjList E) p (FTE_OBJ_comaratorID (objs s5)) s5;
        if r \<noteq> FTE_RET_OK then create_error p s else Some (p, s)
      }"
    using desc a1 p(3) i2(1) a(1,2) b(1,2) t(1)
    by (simp add: FTE_OBJ_create_def upd_obj_def m2 s1_def s3_def s4_def)
  moreover have "oConfig (fte_object_zero\<lparr>pConfigP := a, oConfig := c, pStatusP := b, oAction := act, oFlags := fl, oValues := vs\<rparr>) = c"
    by simp
  ultimately show thesis using p(3,4) g by (rule_tac that)
qed

text \<open>The registry afterwards.\<close>

lemma create_registry:
  assumes reg: "registry E s F ps" and ap: "headers_apart E s" and at: "attaches E d k"
    and room: "6 + k + first_use F \<le> room s"
    and d: "FTE_OBJ_DESC_get (nID c AND FTE_OBJ_TYPE_MASK) (pObjDescs E) = Some d"
    and fresh: "\<forall>q \<in> set ps. reg_key (objs s) q \<noteq> nID c AND (FTE_OBJ_CLASS_MASK OR FTE_OBJ_CLASS_INDEX)"
  obtains p s' F' ps' where "FTE_OBJ_create E c s = Some (p, s')" "p \<noteq> NULL" "p \<notin> set ps" "F' \<noteq> None"
    "registry E s' F' ps'" "set ps' = insert p (set ps)" "length ps' = Suc (length ps)"
    "\<forall>q \<in> set ps. objs s' q = objs s q" "map_option oConfig (objs s' p) = Some c" "cfg s' = cfg s"
    "pool s' = drop (6 + k + first_use F) (pool s)" "room s = room s' + (6 + k + first_use F)"
proof -
  have la: "list_abs s (xObjList E) F ps" and ok: "pool_ok s" and ob: "\<forall>p \<in> set ps. objs s p \<noteq> None"
    and lv: "set ps \<subseteq> live s - fpset F" and so: "sorted_wrt (\<lambda>p q. reg_key (objs s) p < reg_key (objs s) q) ps"
    using reg by (simp_all add: registry_def)
  have r5: "5 + k \<le> room s" using room by simp
  obtain p s5 obj where P: "FTE_OBJ_create E c s = do {
        (r, s) \<leftarrow> FTE_LIST_pushSort (xObjList E) p (FTE_OBJ_comaratorID (objs s5)) s5;
        if r \<noteq> FTE_RET_OK then create_error p s else Some (p, s)
      }"
    "p \<noteq> NULL" "p \<notin> live s" "grows (xObjList E) (5 + k) s s5" "objs s5 = (objs s)(p \<mapsto> obj)" "oConfig obj = c" "cfg s5 = cfg s" "p \<in> live s5"
    using create_prepared [OF la ok ap at r5 d] .
  have ok5: "pool_ok s5" "room s = room s5 + (5 + k)" using grows_pool_ok [OF P(4) ok r5] by simp_all
  have r1: "1 + first_use F \<le> room s5" using ok5(2) room by simp
  have la5: "list_abs s5 (xObjList E) F ps" by (rule grows_list_abs [OF P(4) la])
  let ?ps = "sort_insert (FTE_OBJ_comaratorID (objs s5)) p ps"
  have "push_ok s5 (xObjList E) F ?ps (FTE_LIST_pushSort (xObjList E) p (FTE_OBJ_comaratorID (objs s5)) s5)"
    by (rule pushSort_abs [OF la5 ok5(1) r1 P(2)])
  then obtain F' s6 where Q: "FTE_LIST_pushSort (xObjList E) p (FTE_OBJ_comaratorID (objs s5)) s5 = Some (FTE_RET_OK, s6)"
    "F' \<noteq> None" "list_abs s6 (xObjList E) F' ?ps" "pool_ok s6" "list_frame s5 s6 (xObjList E) F F'"
    "pool s6 = drop (Suc (first_use F)) (pool s5)" unfolding push_ok_def by blast
  have "fte_kernel.more s6 = fte_kernel.more s5" using Q(5) by (simp add: list_frame_def)
  then have m6: "objs s6 = objs s5" "cfg s6 = cfg s5" using same_more by auto
  have m: "mset ?ps = add_mset p (mset ps)" by (rule sort_insert_mset)
  have set: "set ?ps = insert p (set ps)" "length ?ps = Suc (length ps)"
    using arg_cong [OF m, of set_mset] arg_cong [OF m, of size] by simp_all
  have pn: "p \<notin> set ps" using lv P(3) by auto
  have key: "reg_key (objs s5) q = reg_key (objs s) q" if "q \<in> set ps" for q
    using that pn P(5) by (auto simp: reg_key_def)
  have keyp: "reg_key (objs s5) p = nID c AND (FTE_OBJ_CLASS_MASK OR FTE_OBJ_CLASS_INDEX)"
    using P(5,6) by (simp add: reg_key_def)
  have "sorted_wrt (\<lambda>p q. reg_key (objs s5) p < reg_key (objs s5) q) ps"
    using so key by (simp add: sorted_wrt_iff_nth_less)
  moreover have "\<forall>x \<in> set ps. reg_key (objs s5) x \<noteq> reg_key (objs s5) p" using key keyp fresh by simp
  ultimately have so6: "sorted_wrt (\<lambda>p q. reg_key (objs s6) p < reg_key (objs s6) q) ?ps"
    unfolding m6(1) by (intro sort_insert_strict comparator_less)
  have "fpset F \<subseteq> live s" using list_abs_foot [OF la] .
  then have lv5: "insert p (set ps) \<subseteq> live s5 - fpset F" using lv P(3,4,8) by (auto simp: grows_def)
  have fi: "fpset F \<subseteq> live s5" using list_abs_foot [OF la5] .
  have disj: "fpset F' \<inter> (live s5 - fpset F) = {}" "live s6 = (live s5 - fpset F) \<union> fpset F'"
    using Q(5) by (simp_all add: list_frame_def)
  show thesis
  proof (rule that [of p s6 F' ?ps])
    show "FTE_OBJ_create E c s = Some (p, s6)" using P(1) Q(1) by simp
    have "\<forall>q \<in> set ?ps. objs s6 q \<noteq> None" using set(1) m6(1) P(5) ob by auto
    moreover have "set ?ps \<subseteq> live s6 - fpset F'" using set(1) lv5 disj by auto
    ultimately show "registry E s6 F' ?ps" using Q(3,4) so6 by (simp add: registry_def)
    show "\<forall>q \<in> set ps. objs s6 q = objs s q" using m6(1) P(5) pn by auto
    show "map_option oConfig (objs s6 p) = Some c" using m6(1) P(5,6) by simp
    show "pool s6 = drop (6 + k + first_use F) (pool s)" using Q(6) P(4) by (simp add: grows_def ac_simps)
    then show "room s = room s6 + (6 + k + first_use F)" by (rule room_drop [OF room])
    show "cfg s6 = cfg s" using m6(2) P(7) by simp
  qed (use P(2) pn Q(2) set in auto)
qed

section \<open>A sample registry\<close>

text \<open>Two objects, one of them a child of the other, and a type whose driver sets up one value.\<close>

definition reg_attach :: "addr \<Rightarrow> 'd sys \<Rightarrow> (fte_ret \<times> 'd sys) option" where
  "reg_attach p s = do {
     s \<leftarrow> upd_obj p (\<lambda>ob. ob\<lparr>oAction := Some 0, oValues := [value_zero]\<rparr>) s;
     Some (FTE_RET_OK, s)
   }"

definition reg_desc :: "'d sys obj_desc" where
  "reg_desc = \<lparr>nType = 0x06010000, dName = ''DI'', f_attach = reg_attach, f_detach = \<lambda>p s. Some (FTE_RET_OK, s)\<rparr>"

definition reg_action :: "'s obj_action" where
  "reg_action = \<lparr>fInit = None, fRun = Some (\<lambda>p s. Some (FTE_RET_OK, s)), fStop = Some (\<lambda>p s. Some (FTE_RET_OK, s)),
     fSet = None, fSetMulti = None, fGetMulti = None, fGetInterval = None, fSetInterval = None,
     fAttachChild = None, fDetachChild = None, fGetChildCount = None, fGetChild = None\<rparr>"

definition reg_env :: "'d sys obj_env" where
  "reg_env = \<lparr>xObjList = 0x100, pObjDescs = [reg_desc], actions = \<lambda>_. reg_action\<rparr>"

definition reg_object :: "u32 \<Rightarrow> u32 \<Rightarrow> fte_object" where
  "reg_object i parent = fte_object_zero\<lparr>oConfig := object_zero\<lparr>nID := i, nDevID := parent\<rparr>, oAction := Some 0,
     oValues := [value_zero]\<rparr>"

definition reg_demo :: "unit sys" where
  "reg_demo = \<lparr>pool = [0x3000, 0x3100, 0x3200, 0x3300, 0x3400, 0x3500],
     live = {0x8, 0x10, 0x18, 0x20, 0x1000, 0x2000},
     nodes = [0x8 \<mapsto> \<lparr>pPrev = 0x18, pNext = 0x10, pItem = 0, nReserved = 0\<rparr>,
              0x10 \<mapsto> \<lparr>pPrev = 0x8, pNext = 0x18, pItem = 0x1000, nReserved = 0\<rparr>,
              0x18 \<mapsto> \<lparr>pPrev = 0x10, pNext = 0x8, pItem = 0x2000, nReserved = 0\<rparr>],
     lists = [0x100 \<mapsto> \<lparr>nCount = 2, pHead = 0x8, pLockKey = 0x20\<rparr>],
     sems = [0x20 \<mapsto> 1], unstable = False,
     objs = [0x1000 \<mapsto> reg_object 0x01810101 0x06010102, 0x2000 \<mapsto> reg_object 0x06010102 0],
     cfg = cfg_zero \<lparr>dSystem = xSystem cfg_body_zero, dShell = [], dNetwork = xNetwork cfg_body_zero,
       dObjects = [], dEvents = [], dExt = []\<rparr>, dev = ()\<rparr>"

abbreviation reg_foot :: foot where "reg_foot \<equiv> Some (0x8, [0x10, 0x18], 0x20)"

lemma reg_demo_ok: "registry reg_env reg_demo reg_foot [0x1000, 0x2000]"
  by (simp add: registry_def reg_env_def reg_demo_def pool_ok_def ring_ptrs_def reg_key_def reg_object_def)

lemma reg_env_ok: "headers_apart reg_env reg_demo" "room reg_demo = 6"
  by (simp_all add: headers_apart_def reg_env_def reg_demo_def xEventList_def room_def)

lemma reg_attaches: "attaches reg_env reg_desc 0"
  unfolding attaches_def reg_desc_def
proof (intro allI impI)
  fix p and s :: "'a sys" and ob
  assume "objs s p = Some ob \<and> pool_ok s \<and> 0 \<le> room s"
  then show "\<exists>s' act fl vs. f_attach \<lparr>nType = 0x06010000, dName = ''DI'', f_attach = reg_attach, f_detach = \<lambda>p s. Some (FTE_RET_OK, s)\<rparr> p s
        = Some (FTE_RET_OK, s') \<and> grows (xObjList reg_env) 0 s s'
      \<and> objs s' = (objs s)(p \<mapsto> ob\<lparr>oAction := act, oFlags := fl, oValues := vs\<rparr>) \<and> cfg s' = cfg s"
    by (intro exI [of _ "s\<lparr>objs := (objs s)(p \<mapsto> ob\<lparr>oAction := Some 0, oValues := [value_zero]\<rparr>)\<rparr>"]
        exI [of _ "Some 0"] exI [of _ "oFlags ob"] exI [of _ "[value_zero]"])
      (simp add: reg_attach_def upd_obj_def grows_def)
qed

lemma reg_desc_known:
  "i AND FTE_OBJ_TYPE_MASK = 0x06010000 \<Longrightarrow> FTE_OBJ_DESC_get (i AND FTE_OBJ_TYPE_MASK) (pObjDescs reg_env) = Some reg_desc"
  by (simp add: FTE_OBJ_DESC_get_def reg_env_def reg_desc_def)

lemma reg_demo_keys: "reg_key (objs reg_demo) 0x1000 = 0x01000001" "reg_key (objs reg_demo) 0x2000 = 0x06000002"
  by (simp_all add: reg_key_def reg_demo_def reg_object_def)

section \<open>Properties\<close>

text \<open>C20: The searches agree: on a registry, \<^verbatim>\<open>FTE_OBJ_count\<close> is the length, \<^verbatim>\<open>FTE_OBJ_getAt\<close>
  the enumeration and \<^verbatim>\<open>FTE_OBJ_getList\<close> and \<^verbatim>\<open>FTE_OBJ_getIDList\<close> the beginning of one list, the
  matching objects ordered by class and index, and none of them changes anything.\<close>

theorem FTE_OBJ_searches_agree:
  assumes "registry E s F ps" "F \<noteq> None"
  shows "\<exists>ms. ms = filter (\<lambda>p. obj_matches ty nMask False (the (objs s p))) ps
    \<and> sorted_wrt (\<lambda>p q. reg_key (objs s) p < reg_key (objs s) q) ms
    \<and> FTE_OBJ_count E ty nMask False s = Some (of_nat (length ms), s)
    \<and> FTE_OBJ_getAt E ty nMask n False s = Some (if unat n < length ms then ms ! unat n else NULL, s)
    \<and> FTE_OBJ_getList E ty nMask m s = Some (take (unat m) ms, s)
    \<and> FTE_OBJ_getIDList E ty nMask m s
        = Some (FTE_RET_OK, take (unat m) (map (\<lambda>p. obj_id (the (objs s p))) ms), s)"
  using OBJ_count_registry [OF assms] OBJ_getAt_registry [OF assms] OBJ_getList_registry [OF assms]
    OBJ_getIDList_registry [OF assms] registry_sorted [OF assms(1), THEN sorted_wrt_filter]
  by (simp add: matching_def Let_def)

theorem FTE_OBJ_searches_agree_witness:
  "\<exists>ms. ms = [0x2000] \<and> FTE_OBJ_count reg_env 0x06010000 FTE_OBJ_TYPE_MASK False reg_demo = Some (of_nat (length ms), reg_demo)
     \<and> FTE_OBJ_getList reg_env 0x06010000 FTE_OBJ_TYPE_MASK 5 reg_demo = Some (take (unat (5 :: u32)) ms, reg_demo)"
  using FTE_OBJ_searches_agree [OF reg_demo_ok option.discI [OF refl], where ty = "0x06010000" and nMask = FTE_OBJ_TYPE_MASK and m = "5"]
  by (simp add: obj_matches_def reg_demo_def reg_object_def)



text \<open>\<^verbatim>\<open>FTE_OBJ_getChild\<close> of an object whose driver does not enumerate its children never finds
  one: the search's result goes to a variable that hides the one tested afterwards.\<close>

lemma FTE_OBJ_getChild_never_found:
  assumes "registry E s F ps" "F \<noteq> None" "objs s pObj = Some ob" "Option.bind (obj_action E ob) fGetChild = None"
  shows "FTE_OBJ_getChild E pObj n s = Some (FTE_RET_OBJECT_NOT_FOUND, None, s)"
  using assms(3,4) OBJ_getAt_registry [OF assms(1,2)] by (simp add: FTE_OBJ_getChild_def)

lemma FTE_OBJ_getChild_never_found_witness:
  "FTE_OBJ_getChild reg_env 0x2000 0 reg_demo = Some (FTE_RET_OBJECT_NOT_FOUND, None, reg_demo)"
  by (rule FTE_OBJ_getChild_never_found [OF reg_demo_ok, where ob = "reg_object 0x06010102 0"])
    (simp_all add: reg_demo_def reg_env_def reg_action_def obj_action_def reg_object_def)

text \<open>A child is not started while its parent is stopped or unknown: the call reports it and
  neither runs the driver nor changes anything.\<close>

lemma FTE_OBJ_start_needs_parent:
  assumes "registry E s F ps" "F \<noteq> None" "objs s pObj = Some ob" "FTE_OBJ_IS_CHILD ob"
    "obj_action E ob = Some act" "fRun act = Some run"
    and "\<forall>q \<in> set ps. obj_id (the (objs s q)) = nDevID (oConfig ob) \<longrightarrow> \<not> FTE_OBJ_IS_ENABLED (the (objs s q))"
  shows "FTE_OBJ_start E pObj s = Some (if \<exists>q \<in> set ps. obj_id (the (objs s q)) = nDevID (oConfig ob)
      then FTE_RET_PARENT_IS_STOPPED else FTE_RET_INVALID_OBJECT, s)"
proof (cases "find (\<lambda>q. obj_id (the (objs s q)) = nDevID (oConfig ob)) ps")
  case None
  then have "\<not> (\<exists>q \<in> set ps. obj_id (the (objs s q)) = nDevID (oConfig ob))" by (auto simp: find_None_iff)
  then show ?thesis using assms(3-6) None OBJ_get_registry [OF assms(1,2), of "nDevID (oConfig ob)"]
    by (subst FTE_OBJ_start_def, subst obj_start_job.simps) (simp add: obj_parent_check_def)
next
  case (Some q)
  then have q: "q \<in> set ps" "obj_id (the (objs s q)) = nDevID (oConfig ob)"
    by (auto simp: find_Some_iff in_set_conv_nth)
  moreover obtain par where "objs s q = Some par" using q(1) assms(1) by (auto simp: registry_def)
  moreover have "\<not> FTE_OBJ_IS_ENABLED (the (objs s q))" using assms(7) q by auto
  moreover have "q \<noteq> NULL" using assms(1) q(1) by (auto simp: registry_def pool_ok_def)
  moreover have "\<exists>q \<in> set ps. obj_id (the (objs s q)) = nDevID (oConfig ob)" using q by blast
  ultimately show ?thesis using assms(3-6) Some OBJ_get_registry [OF assms(1,2), of "nDevID (oConfig ob)"]
    by (subst FTE_OBJ_start_def, subst obj_start_job.simps) (simp add: obj_parent_check_def)
qed

lemma FTE_OBJ_start_needs_parent_witness:
  "FTE_OBJ_start reg_env 0x1000 reg_demo = Some (FTE_RET_PARENT_IS_STOPPED, reg_demo)"
  using FTE_OBJ_start_needs_parent [OF reg_demo_ok, where pObj = "0x1000" and ob = "reg_object 0x01810101 0x06010102"]
  by (simp add: reg_demo_def reg_env_def reg_action_def obj_action_def reg_object_def FTE_OBJ_IS_CHILD_def
      FTE_OBJ_IS_ENABLED_def FTE_FLAG_IS_SET_def object_zero_def)

end
