(* ===== verification/FTE_ConfigPools.thy ===== *)
theory FTE_ConfigPools
  imports FTE_Config
begin

unbundle bit_operations_syntax

text \<open>
  The tables inside the configuration of \<^verbatim>\<open>target/source/fte_config.c\<close>: the trap servers
  as a list of addresses, and the object pool with the identifiers it gives.
\<close>

section \<open>The trap servers as a list\<close>

text \<open>The addresses in use, and what every operation keeps: the slots behind them are 0.\<close>

definition traps :: "fte_config \<Rightarrow> u32 list" where
  "traps c = take (unat (trapCount (net c))) (trapList (net c))"

definition trap_ok :: "fte_config \<Rightarrow> bool" where
  "trap_ok c \<longleftrightarrow> length (trapList (net c)) = FTE_NET_SNMP_TRAP_COUNT \<and> unat (trapCount (net c)) \<le> FTE_NET_SNMP_TRAP_COUNT
     \<and> trapList (net c) = traps c @ replicate (FTE_NET_SNMP_TRAP_COUNT - unat (trapCount (net c))) 0
     \<and> distinct (traps c) \<and> 0 \<notin> set (traps c)"

lemma trap_okD:
  assumes "trap_ok c"
  shows "length (trapList (net c)) = FTE_NET_SNMP_TRAP_COUNT" "length (traps c) = unat (trapCount (net c))"
    "length (traps c) \<le> FTE_NET_SNMP_TRAP_COUNT" "distinct (traps c)" "0 \<notin> set (traps c)"
    "trapList (net c) = traps c @ replicate (FTE_NET_SNMP_TRAP_COUNT - length (traps c)) 0"
  using assms by (auto simp: trap_ok_def traps_def min_def split: if_splits)

lemma trap_okI:
  assumes "unat (trapCount (net c)) = length xs" "trapList (net c) = xs @ replicate (FTE_NET_SNMP_TRAP_COUNT - length xs) 0"
    "length xs \<le> FTE_NET_SNMP_TRAP_COUNT" "distinct xs" "0 \<notin> set xs"
  shows "trap_ok c \<and> traps c = xs"
  using assms by (simp add: trap_ok_def traps_def)

lemma isExist_trap: "trap_ok c \<Longrightarrow> FTE_CFG_NET_TRAP_isExist x c \<longleftrightarrow> x \<in> set (traps c)"
  using trap_okD [of c] by (auto simp: FTE_CFG_NET_TRAP_isExist_def)

lemma trap_at_nth: "0 \<notin> set xs \<Longrightarrow> unat n < length xs \<Longrightarrow> trap_at n (xs @ ys) = xs ! unat n"
proof (induction xs arbitrary: n)
  case (Cons x xs)
  show ?case
  proof (cases "n = 0")
    case False
    then have "unat n = Suc (unat (n - 1))" by (simp add: unat_minus_one unat_gt_0)
    then show ?thesis using Cons False by simp
  qed (use Cons.prems in auto)
qed simp

lemma getAt_trap:
  assumes "trap_ok c"
  shows "FTE_CFG_NET_TRAP_getAt n c = (if unat n < length (traps c) then traps c ! unat n else 0)"
  using trap_okD [OF assms] trap_at_nth [of "traps c" n]
  by (simp add: FTE_CFG_NET_TRAP_getAt_def word_less_nat_alt)

lemma count_trap: "trap_ok c \<Longrightarrow> unat (FTE_CFG_NET_TRAP_count c) = length (traps c)"
  using trap_okD(2) by (simp add: FTE_CFG_NET_TRAP_count_def)

lemma addIP_trap:
  assumes "trap_ok c" "x \<noteq> 0" "FTE_CFG_NET_TRAP_addIP x c = (r, c')"
  shows "trap_ok c' \<and> traps c' = (if x \<in> set (traps c) \<or> length (traps c) = FTE_NET_SNMP_TRAP_COUNT then traps c else traps c @ [x])
    \<and> (r = FTE_RET_OK \<longleftrightarrow> x \<in> set (traps c) \<or> length (traps c) < FTE_NET_SNMP_TRAP_COUNT)"
proof -
  note D = trap_okD [OF assms(1)]
  consider (there) "x \<in> set (traps c)" | (full) "x \<notin> set (traps c)" "length (traps c) = FTE_NET_SNMP_TRAP_COUNT"
    | (room) "x \<notin> set (traps c)" "length (traps c) < FTE_NET_SNMP_TRAP_COUNT"
    using D(3) by linarith
  then show ?thesis
  proof cases
    case there
    then show ?thesis using assms isExist_trap by (simp add: FTE_CFG_NET_TRAP_addIP_def)
  next
    case full
    then show ?thesis using assms isExist_trap D(2)
      by (simp add: FTE_CFG_NET_TRAP_addIP_def word_less_nat_alt)
  next
    case room
    let ?k = "length (traps c)"
    have e: "replicate (5 - ?k) (0 :: u32) = 0 # replicate (4 - ?k) 0"
      using room(2) by (simp flip: replicate_Suc add: Suc_diff_le)
    have c': "r = FTE_RET_OK" "trapCount (net c') = trapCount (net c) + 1" "trapList (net c') = (trapList (net c))[?k := x]"
      using room assms(1,3) isExist_trap D(2)
      by (auto simp: FTE_CFG_NET_TRAP_addIP_def word_less_nat_alt)
    have "unat (trapCount (net c) + 1) = Suc ?k"
      using room(2) D(2) by (simp add: unat_plus_if')
    moreover have "trapList (net c') = (traps c @ [x]) @ replicate (5 - length (traps c @ [x])) 0"
      using D(6) e c'(3) by (simp add: list_update_append)
    ultimately have "trap_ok c' \<and> traps c' = traps c @ [x]"
      using c'(2) room D(4,5) assms(2) by (intro trap_okI) auto
    then show ?thesis using room c'(1) by simp
  qed
qed

lemma trap_find_spec:
  "distinct xs \<Longrightarrow> trap_find x i xs r = (if x \<in> set xs then Some (i + length (takeWhile (\<lambda>y. y \<noteq> x) xs)) else r)"
  by (induction xs arbitrary: i r) auto

lemma trap_shift_spec:
  "i + k < length xs \<Longrightarrow> trap_shift i k xs = take i xs @ take k (drop (Suc i) xs) @ drop (i + k) xs"
proof (induction k arbitrary: i xs)
  case (Suc k)
  have "take (Suc i) (xs[i := xs ! Suc i]) = take i xs @ [xs ! Suc i]"
    using Suc.prems by (simp add: take_Suc_conv_app_nth)
  moreover have "drop (Suc i) xs = xs ! Suc i # drop (Suc (Suc i)) xs"
    using Suc.prems by (simp add: Cons_nth_drop_Suc)
  then have "take (Suc k) (drop (Suc i) xs) = xs ! Suc i # take k (drop (Suc (Suc i)) xs)" by simp
  ultimately show ?case using Suc by simp
qed simp

lemma split_at: "x \<in> set xs \<Longrightarrow> \<exists>as bs. xs = as @ x # bs \<and> length (takeWhile (\<lambda>y. y \<noteq> x) xs) = length as \<and> x \<notin> set as"
  by (induction xs) (auto, metis append_Cons length_Cons set_ConsD)

lemma delIP_trap:
  assumes "trap_ok c" "FTE_CFG_NET_TRAP_delIP x c = (r, c')"
  shows "r = FTE_RET_OK \<and> trap_ok c' \<and> traps c' = removeAll x (traps c)"
proof (cases "x \<in> set (traps c)")
  case False
  then show ?thesis using assms trap_okD [OF assms(1)]
    by (simp add: FTE_CFG_NET_TRAP_delIP_def trap_find_spec flip: traps_def)
next
  case True
  note D = trap_okD [OF assms(1)]
  obtain as bs where xs: "traps c = as @ x # bs" "length (takeWhile (\<lambda>y. y \<noteq> x) (traps c)) = length as" "x \<notin> set as"
    using split_at [OF True] by blast
  let ?z = "replicate (5 - length (traps c)) (0 :: u32)"
  have n: "unat (trapCount (net c)) = Suc (length as + length bs)" using D(2) xs(1) by simp
  have tk: "take (Suc (length as + length bs)) (trapList (net c)) = traps c" using n by (simp add: traps_def)
  have f: "trap_find x 0 (traps c) None = Some (length as)" using True D(4) xs(2) by (simp add: trap_find_spec)
  have dr: "\<exists>y. drop (length bs) (x # bs @ z) = y # z" for z :: "u32 list"
    by (induction bs arbitrary: x) auto
  have tl: "trapList (net c) = as @ x # bs @ ?z" using D(6) xs(1) by simp
  then have "trap_shift (length as) (length bs) (trapList (net c)) = as @ bs @ drop (length as + length bs) (trapList (net c))"
    by (subst trap_shift_spec) auto
  then have sh: "(trap_shift (length as) (length bs) (trapList (net c)))[length as + length bs := 0] = (as @ bs) @ 0 # ?z"
    using tl dr [of ?z] by (auto simp: list_update_append)
  have c': "r = FTE_RET_OK" "trapCount (net c') = trapCount (net c) - 1" "trapList (net c') = (as @ bs) @ 0 # ?z"
    using assms(2) f tk n sh by (auto simp: FTE_CFG_NET_TRAP_delIP_def Let_def)
  have "0 # ?z = replicate (5 - length (as @ bs)) 0"
    using D(3) xs(1) by (simp add: replicate_Suc [symmetric] Suc_diff_Suc del: replicate_Suc)
  moreover have "unat (trapCount (net c) - 1) = length (as @ bs)"
    using n unat_minus_one [of "trapCount (net c)"] by (cases "trapCount (net c) = 0") simp_all
  moreover have "removeAll x (traps c) = as @ bs" using D(4) xs by (simp add: removeAll_id)
  ultimately show ?thesis using c' D(3-5) xs(1) trap_okI [of c' "as @ bs"] by auto
qed

text \<open>A history of changes, and what it does to the list of addresses.\<close>

datatype trap_op = TrapAdd u32 | TrapDel u32 | TrapClear

fun trap_step :: "trap_op \<Rightarrow> fte_config \<Rightarrow> fte_ret \<times> fte_config" where
  "trap_step (TrapAdd x) c = FTE_CFG_NET_TRAP_addIP x c"
| "trap_step (TrapDel x) c = FTE_CFG_NET_TRAP_delIP x c"
| "trap_step TrapClear c = FTE_CFG_NET_TRAP_clear c"

fun trap_run :: "trap_op list \<Rightarrow> fte_config \<Rightarrow> fte_ret list \<times> fte_config" where
  "trap_run [] c = ([], c)"
| "trap_run (t # ts) c = (let (r, c) = trap_step t c; (rs, c) = trap_run ts c in (r # rs, c))"

fun trap_spec :: "trap_op \<Rightarrow> u32 list \<Rightarrow> bool \<times> u32 list" where
  "trap_spec (TrapAdd x) xs =
     (if x \<in> set xs then (True, xs)
      else if length xs < FTE_NET_SNMP_TRAP_COUNT then (True, xs @ [x]) else (False, xs))"
| "trap_spec (TrapDel x) xs = (True, removeAll x xs)"
| "trap_spec TrapClear xs = (True, [])"

fun trap_spec_run :: "trap_op list \<Rightarrow> u32 list \<Rightarrow> bool list \<times> u32 list" where
  "trap_spec_run [] xs = ([], xs)"
| "trap_spec_run (t # ts) xs = (let (ok, xs) = trap_spec t xs; (oks, xs) = trap_spec_run ts xs in (ok # oks, xs))"

lemma trap_step_refines:
  assumes "trap_ok c" "t \<noteq> TrapAdd 0" "trap_step t c = (r, c')"
  shows "trap_ok c' \<and> trap_spec t (traps c) = (r = FTE_RET_OK, traps c')"
proof (cases t)
  case (TrapAdd x)
  then have "x \<noteq> 0" "FTE_CFG_NET_TRAP_addIP x c = (r, c')" using assms by auto
  from addIP_trap [OF assms(1) this] trap_okD(3) [OF assms(1)] show ?thesis using TrapAdd by auto
next
  case (TrapDel x)
  then show ?thesis using assms(3) delIP_trap [OF assms(1)] by simp
next
  case TrapClear
  then have c': "r = FTE_RET_OK" "trapCount (net c') = 0" "trapList (net c') = replicate 5 0"
    using assms(3) by (auto simp: FTE_CFG_NET_TRAP_clear_def)
  then have "trap_ok c' \<and> traps c' = []" by (intro trap_okI) simp_all
  then show ?thesis using TrapClear c'(1) by simp
qed

lemma trap_run_refines:
  assumes "trap_ok c" "TrapAdd 0 \<notin> set ts" "trap_run ts c = (rs, c')"
  shows "trap_ok c' \<and> trap_spec_run ts (traps c) = (map (\<lambda>r. r = FTE_RET_OK) rs, traps c')"
  using assms
proof (induction ts arbitrary: c rs c')
  case (Cons t ts)
  obtain r c1 where st: "trap_step t c = (r, c1)" by fastforce
  obtain rs1 c2 where ru: "trap_run ts c1 = (rs1, c2)" by fastforce
  have "trap_ok c1 \<and> trap_spec t (traps c) = (r = FTE_RET_OK, traps c1)"
    using trap_step_refines [OF Cons.prems(1) _ st] Cons.prems(2) by auto
  moreover from this have "trap_ok c2 \<and> trap_spec_run ts (traps c1) = (map (\<lambda>r. r = FTE_RET_OK) rs1, traps c2)"
    using Cons.IH [OF _ _ ru] Cons.prems(2) by auto
  ultimately show ?case using Cons.prems(3) st ru by auto
qed simp


definition trap_demo :: fte_config where
  "trap_demo = cfg_zero \<lparr>dSystem = xSystem cfg_body_zero, dShell = [], dNetwork = xNetwork cfg_body_zero,
     dObjects = [], dEvents = [], dExt = []\<rparr>"

lemma trap_demo_ok: "trap_ok trap_demo" "traps trap_demo = []"
  by (simp_all add: trap_ok_def traps_def trap_demo_def cfg_zero_def cfg_body_zero_def pool_zero_def)


section \<open>The object pool\<close>

lemma find_slot_Some:
  "find_slot P k xs = Some j \<Longrightarrow> k \<le> j \<and> j < k + length xs \<and> P (xs ! (j - k)) \<and> (\<forall>i < j - k. \<not> P (xs ! i))"
proof (induction xs arbitrary: k)
  case (Cons x xs)
  show ?case
  proof (cases "P x")
    case False
    then have h: "Suc k \<le> j \<and> j < Suc k + length xs \<and> P (xs ! (j - Suc k)) \<and> (\<forall>i < j - Suc k. \<not> P (xs ! i))"
      using Cons.IH [of "Suc k"] Cons.prems by simp
    then have "j - k = Suc (j - Suc k)" by arith
    then show ?thesis using h False by (auto simp: less_Suc_eq_0_disj)
  qed (use Cons.prems in auto)
qed simp

lemma find_slot_None: "find_slot P k xs = None \<longleftrightarrow> (\<forall>x\<in>set xs. \<not> P x)"
  by (induction xs arbitrary: k) auto

lemma find_slot_first:
  assumes "i < length xs" "P (xs ! i)" "\<forall>j < i. \<not> P (xs ! j)"
  shows "find_slot P 0 xs = Some i"
proof (cases "find_slot P 0 xs")
  case None
  then show ?thesis using assms by (auto simp: find_slot_None)
next
  case (Some j)
  have "P (xs ! j)" "\<forall>i < j. \<not> P (xs ! i)" using find_slot_Some [OF Some] by auto
  then have "j = i" using assms by (metis linorder_neqE_nat)
  then show ?thesis using Some by simp
qed

text \<open>The key by which an object is known: its class and its index in the class.\<close>

definition obj_key :: "object_config \<Rightarrow> u32" where
  "obj_key x = nID x AND 0x7F0000FF"

definition used_objects :: "fte_config \<Rightarrow> object_config list" where
  "used_objects c = filter (\<lambda>x. nID x \<noteq> 0) (objects c)"

definition class_count :: "u32 \<Rightarrow> fte_config \<Rightarrow> nat" where
  "class_count k c = length (filter (\<lambda>x. nID x AND FTE_OBJ_CLASS_MASK = k) (objects c))"

definition objects_ok :: "fte_config \<Rightarrow> bool" where
  "objects_ok c \<longleftrightarrow> pDESC c \<noteq> None \<and> length (objects c) = FTE_OBJ_MAX_COUNT
     \<and> unat (object_count c) = length (used_objects c)
     \<and> distinct (map obj_key (used_objects c))
     \<and> (\<forall>x \<in> set (used_objects c). nID x AND FTE_OBJ_CLASS_MASK \<noteq> 0
          \<and> unat (nID x AND 0xFF) \<le> class_count (nID x AND FTE_OBJ_CLASS_MASK) c)"

lemma set_object_simps [simp]:
  "objects (set_object i x c) = (objects c)[i := x]" "object_count (set_object i x c) = object_count c"
  "pDESC (set_object i x c) = pDESC c"
  "objects (set_object_count n c) = objects c" "object_count (set_object_count n c) = n"
  "pDESC (set_object_count n c) = pDESC c"
  by (simp_all add: set_object_def set_object_count_def)

lemma filter_upd_new:
  assumes "i < length xs" "\<not> P (xs ! i)" "P x"
  shows "\<exists>as bs. filter P xs = as @ bs \<and> filter P (xs[i := x]) = as @ x # bs"
proof -
  have "filter P xs = filter P (take i xs) @ filter P (drop (Suc i) xs)"
    using assms id_take_nth_drop [OF assms(1)] by (metis filter.simps(2) filter_append)
  moreover have "filter P (xs[i := x]) = filter P (take i xs) @ x # filter P (drop (Suc i) xs)"
    using assms by (simp add: upd_conv_take_nth_drop)
  ultimately show ?thesis by blast
qed

lemma filter_upd_skip:
  "i < length xs \<Longrightarrow> \<not> P (xs ! i) \<Longrightarrow> \<not> P x \<Longrightarrow> filter P (xs[i := x]) = filter P xs"
  by (induction xs arbitrary: i) (auto simp: nth_Cons split: nat.splits)

lemma length_used_le: "length (objects c) = FTE_OBJ_MAX_COUNT \<Longrightarrow> length (used_objects c) \<le> FTE_OBJ_MAX_COUNT"
  unfolding used_objects_def by (metis length_filter_le)

lemma class_count_le: "k \<noteq> 0 \<Longrightarrow> class_count k c \<le> length (used_objects c)"
proof -
  assume k: "k \<noteq> 0"
  have "filter (\<lambda>x. nID x AND FTE_OBJ_CLASS_MASK = k) (objects c)
      = filter (\<lambda>x. nID x AND FTE_OBJ_CLASS_MASK = k) (used_objects c)"
    using k unfolding used_objects_def filter_filter by (intro filter_cong) auto
  then show ?thesis unfolding class_count_def by simp
qed

text \<open>The fields of an identifier do not overlap.\<close>

lemma id_fields:
  fixes t g k :: u32
  assumes "unat g < 256" "unat k < 256"
  shows "((t AND FTE_OBJ_TYPE_MASK) OR push_bit 8 g OR k) AND FTE_OBJ_CLASS_MASK = t AND FTE_OBJ_CLASS_MASK"
    "((t AND FTE_OBJ_TYPE_MASK) OR push_bit 8 g OR k) AND 0xFF = k"
    "((t AND FTE_OBJ_TYPE_MASK) OR push_bit 8 g OR k) AND 0x7F0000FF = (t AND FTE_OBJ_CLASS_MASK) OR k"
proof -
  have small: "\<exists>b. a = take_bit 8 b" if "unat a < 256" for a :: u32
    using that by (intro exI [of _ a]) (simp add: word_unat_eq_iff unsigned_take_bit_eq take_bit_nat_eq_self)
  obtain g' k' where g: "g = take_bit 8 g'" and k: "k = take_bit 8 k'" using small assms by blast
  have m: "(FTE_OBJ_TYPE_MASK :: u32) = push_bit 16 (mask 15)" "(FTE_OBJ_CLASS_MASK :: u32) = push_bit 24 (mask 7)"
    "(0xFF :: u32) = mask 8" "(0x7F0000FF :: u32) = push_bit 24 (mask 7) OR mask 8"
    by code_simp+
  show "((t AND FTE_OBJ_TYPE_MASK) OR push_bit 8 g OR k) AND FTE_OBJ_CLASS_MASK = t AND FTE_OBJ_CLASS_MASK"
    "((t AND FTE_OBJ_TYPE_MASK) OR push_bit 8 g OR k) AND 0xFF = k"
    "((t AND FTE_OBJ_TYPE_MASK) OR push_bit 8 g OR k) AND 0x7F0000FF = (t AND FTE_OBJ_CLASS_MASK) OR k"
    unfolding m g k by (rule bit_eqI; auto simp: bit_simps)+
qed

lemma OBJ_count_class:
  assumes "pDESC c \<noteq> None" "t AND FTE_OBJ_CLASS_MASK \<noteq> 0"
  shows "FTE_CFG_OBJ_count (t AND FTE_OBJ_CLASS_MASK) FTE_OBJ_CLASS_MASK c = of_nat (class_count (t AND FTE_OBJ_CLASS_MASK) c)"
  using assms by (simp add: FTE_CFG_OBJ_count_def class_count_def)

lemma alloc_some:
  assumes "FTE_CFG_OBJ_alloc c = (Some i, c1)"
  shows "c1 = set_object_count (object_count c + 1) c" "i < length (objects c)" "nID (objects c ! i) = 0"
proof -
  have "find_slot (\<lambda>x. nID x = 0) 0 (objects c) = Some i" and c1: "c1 = set_object_count (object_count c + 1) c"
    using assms by (auto simp: FTE_CFG_OBJ_alloc_def split: if_split_asm option.splits)
  then show "c1 = set_object_count (object_count c + 1) c" "i < length (objects c)" "nID (objects c ! i) = 0"
    using find_slot_Some [of _ 0 "objects c" i] by auto
qed

lemma alloc_none:
  assumes "objects_ok c" "FTE_CFG_OBJ_alloc c = (None, c1)"
  shows "c1 = c" "length (used_objects c) = FTE_OBJ_MAX_COUNT"
proof -
  have l: "length (objects c) = FTE_OBJ_MAX_COUNT" and n: "unat (object_count c) = length (used_objects c)"
    and d: "pDESC c \<noteq> None" using assms(1) by (simp_all add: objects_ok_def)
  show "c1 = c" using assms(2) by (auto simp: FTE_CFG_OBJ_alloc_def split: if_split_asm option.splits)
  show "length (used_objects c) = FTE_OBJ_MAX_COUNT"
  proof (cases "object_count c = of_nat FTE_OBJ_MAX_COUNT")
    case True
    then show ?thesis using n by (simp add: FTE_OBJ_MAX_COUNT_def)
  next
    case False
    then have "find_slot (\<lambda>x. nID x = 0) 0 (objects c) = None"
      using assms(2) d by (auto simp: FTE_CFG_OBJ_alloc_def split: option.splits)
    then have "used_objects c = objects c" by (simp add: find_slot_None used_objects_def)
    then show ?thesis using l by simp
  qed
qed

lemma unat_Suc_small: "Suc n < 2 ^ 32 \<Longrightarrow> unat (of_nat n + 1 :: u32) = Suc n"
proof -
  assume "Suc n < 2 ^ 32"
  then have "unat (of_nat (Suc n) :: u32) = Suc n" by (intro unat_of_nat_small) simp
  then show ?thesis by (simp only: of_nat_Suc add.commute)
qed

text \<open>A slot taken and given the next index of its class.\<close>

lemma place_ok:
  assumes ok: "objects_ok c" and al: "FTE_CFG_OBJ_alloc c = (Some i, c1)"
    and cls: "t AND FTE_OBJ_CLASS_MASK \<noteq> 0" and g: "unat g < 256"
    and x: "nID x = (t AND FTE_OBJ_TYPE_MASK) OR push_bit 8 g OR (of_nat (class_count (t AND FTE_OBJ_CLASS_MASK) c) + 1)"
  shows "objects_ok (set_object i x c1)" "nID x \<noteq> 0"
proof -
  define k where "k = class_count (t AND FTE_OBJ_CLASS_MASK) c"
  note A = alloc_some [OF al]
  have l: "length (objects c) = FTE_OBJ_MAX_COUNT" and n: "unat (object_count c) = length (used_objects c)"
    and d: "pDESC c \<noteq> None" and dist: "distinct (map obj_key (used_objects c))"
    and cl: "\<And>x. x \<in> set (used_objects c) \<Longrightarrow> nID x AND FTE_OBJ_CLASS_MASK \<noteq> 0"
    and ix: "\<And>x. x \<in> set (used_objects c) \<Longrightarrow> unat (nID x AND 0xFF) \<le> class_count (nID x AND FTE_OBJ_CLASS_MASK) c"
    using ok by (simp_all add: objects_ok_def)
  have u: "length (used_objects c) \<le> FTE_OBJ_MAX_COUNT" using l by (rule length_used_le)
  have k: "k \<le> FTE_OBJ_MAX_COUNT" unfolding k_def using class_count_le [OF cls, of c] u by simp
  then have k1: "unat (of_nat k + 1 :: u32) = Suc k"
    using unat_Suc_small [of k] by (simp add: FTE_OBJ_MAX_COUNT_def)
  then have k256: "unat (of_nat k + 1 :: u32) < 256" using k by (simp add: FTE_OBJ_MAX_COUNT_def)
  note F = id_fields [OF g k256, of t, folded x [folded k_def]]
  show nz: "nID x \<noteq> 0" using F(1) cls by auto
  let ?c = "set_object i x c1"
  have objs: "objects ?c = (objects c)[i := x]" using A(1) by simp
  obtain as bs where U: "used_objects c = as @ bs" "used_objects ?c = as @ x # bs"
    using filter_upd_new [OF A(2), of "\<lambda>x. nID x \<noteq> 0" x] A(3) nz unfolding used_objects_def objs by auto
  obtain cs ds where C: "filter (\<lambda>y. nID y AND FTE_OBJ_CLASS_MASK = t AND FTE_OBJ_CLASS_MASK) (objects c) = cs @ ds"
      "filter (\<lambda>y. nID y AND FTE_OBJ_CLASS_MASK = t AND FTE_OBJ_CLASS_MASK) (objects ?c) = cs @ x # ds"
    using filter_upd_new [OF A(2), of "\<lambda>y. nID y AND FTE_OBJ_CLASS_MASK = t AND FTE_OBJ_CLASS_MASK" x]
      A(3) F(1) cls unfolding objs by auto
  have ck: "class_count (t AND FTE_OBJ_CLASS_MASK) ?c = Suc k"
    using C unfolding class_count_def k_def by simp
  have mono: "class_count m c \<le> class_count m ?c" if "m \<noteq> 0" for m
  proof (cases "m = t AND FTE_OBJ_CLASS_MASK")
    case True
    then show ?thesis using ck k_def by simp
  next
    case False
    have "filter (\<lambda>y. nID y AND FTE_OBJ_CLASS_MASK = m) (objects ?c) = filter (\<lambda>y. nID y AND FTE_OBJ_CLASS_MASK = m) (objects c)"
      unfolding objs by (rule filter_upd_skip) (use False F(1) A(2,3) that in auto)
    then show ?thesis unfolding class_count_def by simp
  qed
  have fresh: "obj_key y \<noteq> obj_key x" if y: "y \<in> set (used_objects c)" for y
  proof
    assume e: "obj_key y = obj_key x"
    have mk: "w AND FTE_OBJ_CLASS_MASK = (w AND 0x7F0000FF) AND FTE_OBJ_CLASS_MASK"
      "w AND 0xFF = (w AND 0x7F0000FF) AND 0xFF" for w :: u32 by (simp_all add: ac_simps)
    have "nID y AND FTE_OBJ_CLASS_MASK = nID x AND FTE_OBJ_CLASS_MASK" "nID y AND 0xFF = nID x AND 0xFF"
      using e mk [of "nID x"] mk [of "nID y"] unfolding obj_key_def by metis+
    then have "Suc k \<le> k" using ix [OF y] F(1,2) k1 unfolding k_def by simp
    then show False by simp
  qed
  have "obj_key x \<notin> obj_key ` set (as @ bs)" using fresh U(1) by force
  then have "distinct (map obj_key (used_objects ?c))" using dist U by auto
  moreover have "unat (object_count ?c) = length (used_objects ?c)"
  proof -
    have "length (objects ?c) = FTE_OBJ_MAX_COUNT" using l unfolding objs by (simp only: length_list_update)
    then have "length (used_objects ?c) \<le> FTE_OBJ_MAX_COUNT" by (rule length_used_le)
    then have "Suc (length (used_objects c)) \<le> FTE_OBJ_MAX_COUNT" using U by simp
    then have "unat (object_count c + 1) = Suc (length (used_objects c))"
      using n by (simp add: FTE_OBJ_MAX_COUNT_def unat_plus_if')
    then show ?thesis using U A(1) by simp
  qed
  moreover have "unat (nID y AND 0xFF) \<le> class_count (nID y AND FTE_OBJ_CLASS_MASK) ?c" if "y \<in> set (used_objects ?c)" for y
  proof (cases "y = x")
    case True
    then show ?thesis using F(1,2) k1 ck by simp
  next
    case False
    then have y: "y \<in> set (used_objects c)" using that U by auto
    show ?thesis using ix [OF y] mono [OF cl [OF y]] by simp
  qed
  moreover have "nID y AND FTE_OBJ_CLASS_MASK \<noteq> 0" if "y \<in> set (used_objects ?c)" for y
    using that cl U F(1) cls by auto
  ultimately show "objects_ok ?c" using d l A(1) objs by (simp add: objects_ok_def)
qed

lemma kept_upd:
  "nID (xs ! i) = 0 \<Longrightarrow> \<forall>j < length (xs[i := x]). nID (xs[i := x] ! j) \<noteq> 0 \<longrightarrow> ys ! j = xs[i := x] ! j
    \<Longrightarrow> \<forall>j < length xs. nID (xs ! j) \<noteq> 0 \<longrightarrow> ys ! j = xs ! j"
  by (metis length_list_update nth_list_update_neq)

lemma create_children_ok:
  assumes "objects_ok c" "unat g < 256" "\<forall>b \<in> set bs. nID b AND FTE_OBJ_CLASS_MASK \<noteq> 0"
    and "create_children parentID g room bs out c = (out', c')"
  shows "objects_ok c' \<and> (\<forall>i < length (objects c). nID (objects c ! i) \<noteq> 0 \<longrightarrow> objects c' ! i = objects c ! i)"
  using assms
proof (induction bs arbitrary: out c)
  case (Cons b bs)
  show ?case
  proof (cases "FTE_CFG_OBJ_alloc c")
    case (Pair p c1)
    show ?thesis
    proof (cases p)
      case None
      then show ?thesis using Cons Pair alloc_none(1) by auto
    next
      case (Some i)
      note A = alloc_some [OF Pair [unfolded Some]]
      define x where "x = b\<lparr>pName := object_name (pName b) (parentID AND 0xFFFF), nDevID := parentID,
        nID := (nID b AND FTE_OBJ_TYPE_MASK) OR push_bit 8 g
          OR (FTE_CFG_OBJ_count (nID b AND FTE_OBJ_CLASS_MASK) FTE_OBJ_CLASS_MASK c1 + 1)\<rparr>"
      have cls: "nID b AND FTE_OBJ_CLASS_MASK \<noteq> 0" using Cons.prems(3) by simp
      have "pDESC c1 \<noteq> None" using Cons.prems(1) A(1) by (simp add: objects_ok_def)
      then have "nID x = (nID b AND FTE_OBJ_TYPE_MASK) OR push_bit 8 g OR (of_nat (class_count (nID b AND FTE_OBJ_CLASS_MASK) c) + 1)"
        using A(1) by (simp add: x_def OBJ_count_class [OF _ cls]) (simp add: class_count_def)
      note P = place_ok [OF Cons.prems(1) Pair [unfolded Some] cls Cons.prems(2) this]
      have "create_children parentID g room bs (if length out < room then out @ [i] else out) (set_object i x c1) = (out', c')"
        using Cons.prems(4) Pair Some by (simp add: Let_def x_def)
      from Cons.IH [OF P(1) Cons.prems(2) _ this] Cons.prems(3)
      have "objects_ok c'" "\<forall>j < length ((objects c)[i := x]). nID ((objects c)[i := x] ! j) \<noteq> 0
          \<longrightarrow> objects c' ! j = (objects c)[i := x] ! j" unfolding A(1) set_object_simps by simp_all
      then show ?thesis using kept_upd [OF A(3)] by blast
    qed
  qed
qed simp

lemma objects_ok_flag [simp]: "objects_ok (c\<lparr>bObjectPoolModified := b\<rparr>) = objects_ok c"
  by (simp add: objects_ok_def used_objects_def class_count_def)

lemma FTE_CFG_OBJ_create_ok:
  assumes ok: "objects_ok c" and cls: "\<forall>x \<in> set (b # ch). nID x AND FTE_OBJ_CLASS_MASK \<noteq> 0"
    and run: "FTE_CFG_OBJ_create b ch room c = (r, p, out, c')"
  shows "objects_ok c'"
    "r = (if length (used_objects c) < FTE_OBJ_MAX_COUNT then FTE_RET_OK else FTE_RET_INSUFFICIENT_MEMORY)"
    "\<forall>i < length (objects c). nID (objects c ! i) \<noteq> 0 \<longrightarrow> objects c' ! i = objects c ! i"
proof -
  have l: "length (objects c) = FTE_OBJ_MAX_COUNT" using ok by (simp add: objects_ok_def)
  have G: "objects_ok c' \<and> r = (if length (used_objects c) < FTE_OBJ_MAX_COUNT then FTE_RET_OK else FTE_RET_INSUFFICIENT_MEMORY)
    \<and> (\<forall>i < length (objects c). nID (objects c ! i) \<noteq> 0 \<longrightarrow> objects c' ! i = objects c ! i)"
  proof (cases "FTE_CFG_OBJ_alloc c")
    case (Pair q c1)
    show ?thesis
    proof (cases q)
      case None
      then show ?thesis using run Pair ok alloc_none [OF ok, of c1] by (auto simp: FTE_CFG_OBJ_create_def)
    next
      case (Some i)
      note A = alloc_some [OF Pair [unfolded Some]]
      define k where "k = FTE_CFG_OBJ_count (nID b AND FTE_OBJ_CLASS_MASK) FTE_OBJ_CLASS_MASK c1 + 1"
      define g where "g = (if ulChild b \<noteq> 0 then k else 0)"
      define x where "x = b\<lparr>nID := (nID b AND FTE_OBJ_TYPE_MASK) OR push_bit 8 g OR k, pName := object_name (pName b) k\<rparr>"
      have cl: "nID b AND FTE_OBJ_CLASS_MASK \<noteq> 0" using cls by simp
      have "pDESC c1 \<noteq> None" using ok A(1) by (simp add: objects_ok_def)
      then have k: "k = of_nat (class_count (nID b AND FTE_OBJ_CLASS_MASK) c) + 1"
        using A(1) by (simp add: k_def OBJ_count_class [OF _ cl]) (simp add: class_count_def)
      have "class_count (nID b AND FTE_OBJ_CLASS_MASK) c \<le> FTE_OBJ_MAX_COUNT"
        using class_count_le [OF cl] length_used_le [OF l] order_trans by blast
      then have "unat k < 256" using unat_Suc_small [of "class_count (nID b AND FTE_OBJ_CLASS_MASK) c"] k
        by (simp add: FTE_OBJ_MAX_COUNT_def)
      then have g: "unat g < 256" by (simp add: g_def)
      have "nID x = (nID b AND FTE_OBJ_TYPE_MASK) OR push_bit 8 g OR (of_nat (class_count (nID b AND FTE_OBJ_CLASS_MASK) c) + 1)"
        using k by (simp add: x_def)
      note P = place_ok [OF ok Pair [unfolded Some] cl g this]
      have step: "FTE_CFG_OBJ_create b ch room c = (let (out, c2) = create_children (nID x) g room (take (unat (ulChild b)) ch)
          [] (set_object i x c1) in (FTE_RET_OK, Some i, out, c2\<lparr>bObjectPoolModified := True\<rparr>))"
        unfolding FTE_CFG_OBJ_create_def Pair Some x_def g_def k_def by (simp add: Let_def)
      obtain out2 c2 where ch: "create_children (nID x) g room (take (unat (ulChild b)) ch) [] (set_object i x c1) = (out2, c2)"
        by fastforce
      have e: "r = FTE_RET_OK" "c' = c2\<lparr>bObjectPoolModified := True\<rparr>"
        using run [unfolded step] ch by auto
      have "\<forall>y \<in> set (take (unat (ulChild b)) ch). nID y AND FTE_OBJ_CLASS_MASK \<noteq> 0"
        using cls by (auto dest: in_set_takeD)
      note Q = create_children_ok [OF P(1) g this ch]
      have "length (used_objects c) \<noteq> length (objects c)"
        using A(2,3) unfolding used_objects_def by (metis (mono_tags, lifting) length_filter_less nth_mem less_irrefl)
      then have "length (used_objects c) < FTE_OBJ_MAX_COUNT" using length_used_le [OF l] l by simp
      moreover have "\<forall>j < length (objects c). nID (objects c ! j) \<noteq> 0 \<longrightarrow> objects c2 ! j = objects c ! j"
        using Q unfolding A(1) set_object_simps by (intro kept_upd [OF A(3)]) blast
      ultimately show ?thesis using Q e by simp
    qed
  qed
  then show "objects_ok c'"
    "r = (if length (used_objects c) < FTE_OBJ_MAX_COUNT then FTE_RET_OK else FTE_RET_INSUFFICIENT_MEMORY)"
    "\<forall>i < length (objects c). nID (objects c ! i) \<noteq> 0 \<longrightarrow> objects c' ! i = objects c ! i"
    by simp_all
qed

lemma filter_index_unique:
  assumes "distinct (map f (filter P xs))" "i < length xs" "j < length xs" "P (xs ! i)" "P (xs ! j)" "f (xs ! i) = f (xs ! j)"
  shows "i = j"
  using assms
proof (induction xs arbitrary: i j)
  case (Cons x xs)
  show ?case
  proof (cases i; cases j)
    fix i' j' assume ij: "i = Suc i'" "j = Suc j'"
    have "distinct (map f (filter P xs))" using Cons.prems(1) by (simp split: if_split_asm)
    then show ?thesis using Cons.IH [of i' j'] Cons.prems ij by simp
  next
    fix j' assume "i = 0" "j = Suc j'"
    then show ?thesis using Cons.prems by (auto simp: image_iff)
  next
    fix i' assume "i = Suc i'" "j = 0"
    then show ?thesis using Cons.prems by (auto simp: image_iff)
  qed simp
qed simp

lemma object_unique:
  assumes "objects_ok c" "i < length (objects c)" "j < length (objects c)" "nID (objects c ! i) \<noteq> 0" "nID (objects c ! i) = nID (objects c ! j)"
  shows "i = j"
  using assms filter_index_unique [of obj_key "\<lambda>x. nID x \<noteq> 0" "objects c" i j]
  by (simp add: objects_ok_def used_objects_def obj_key_def)

lemma used_count: "objects_ok c \<Longrightarrow> i < length (objects c) \<Longrightarrow> nID (objects c ! i) \<noteq> 0 \<Longrightarrow> object_count c \<noteq> 0"
  by (auto simp: objects_ok_def used_objects_def filter_empty_conv)

lemma OBJ_get_used:
  assumes "objects_ok c" "i < length (objects c)" "nID (objects c ! i) \<noteq> 0"
  shows "FTE_CFG_OBJ_get (nID (objects c ! i)) c = Some i"
proof -
  have "\<forall>j < i. nID (objects c ! j) \<noteq> nID (objects c ! i)"
    using object_unique [OF assms(1,2) _ assms(3)] assms(2) by (metis less_irrefl order.strict_trans)
  then have "find_slot (\<lambda>x. nID x \<noteq> 0 \<and> nID x = nID (objects c ! i)) 0 (objects c) = Some i"
    using assms by (intro find_slot_first) auto
  then show ?thesis using assms(1) used_count [OF assms] by (simp add: FTE_CFG_OBJ_get_def objects_ok_def)
qed

text \<open>The default objects of a product, or any others, created one after another.\<close>

fun create_all :: "(object_config \<times> object_config list) list \<Rightarrow> fte_config \<Rightarrow> fte_ret list \<times> fte_config" where
  "create_all [] c = ([], c)"
| "create_all ((b, ch) # bs) c =
     (let (r, _, _, c) = FTE_CFG_OBJ_create b ch 0 c; (rs, c) = create_all bs c in (r # rs, c))"

lemma create_all_ok:
  assumes "objects_ok c" "\<forall>(b, ch) \<in> set bs. \<forall>x \<in> set (b # ch). nID x AND FTE_OBJ_CLASS_MASK \<noteq> 0"
    and "create_all bs c = (rs, c')"
  shows "objects_ok c' \<and> (\<forall>i < length (objects c). nID (objects c ! i) \<noteq> 0 \<longrightarrow> objects c' ! i = objects c ! i)"
  using assms
proof (induction bs arbitrary: c rs c')
  case (Cons a bs)
  obtain b ch where a: "a = (b, ch)" by fastforce
  obtain r p out c1 where cr: "FTE_CFG_OBJ_create b ch 0 c = (r, p, out, c1)" by (metis prod_cases4)
  obtain rs1 c2 where run: "create_all bs c1 = (rs1, c2)" by fastforce
  have cls: "\<forall>x \<in> set (b # ch). nID x AND FTE_OBJ_CLASS_MASK \<noteq> 0" using Cons.prems(2) a by auto
  note S = FTE_CFG_OBJ_create_ok [OF Cons.prems(1) cls cr]
  have "objects_ok c2 \<and> (\<forall>i < length (objects c1). nID (objects c1 ! i) \<noteq> 0 \<longrightarrow> objects c2 ! i = objects c1 ! i)"
    using Cons.IH [OF S(1) _ run] Cons.prems(2) by simp
  moreover have "c' = c2" using Cons.prems(3) a cr run by simp
  moreover have "length (objects c1) = length (objects c)" using S(1) Cons.prems(1) by (simp add: objects_ok_def)
  ultimately show ?case using S(3) by simp
qed simp


text \<open>The empty pool, and two digital inputs, one with two children.\<close>

definition pool_demo :: fte_config where
  "pool_demo = cfg_zero \<lparr>dSystem = xSystem cfg_body_zero, dShell = [], dNetwork = xNetwork cfg_body_zero,
     dObjects = [], dEvents = [], dExt = []\<rparr>"

definition di_demo :: object_config where
  "di_demo = object_zero\<lparr>nID := 0x06010000, pName := ''DI''\<rparr>"

lemma pool_demo_ok: "objects_ok pool_demo"
  by (simp add: objects_ok_def pool_demo_def cfg_zero_def object_body_zero_def pool_zero_def object_zero_def
      used_objects_def FTE_OBJ_MAX_COUNT_def)


section \<open>Freeing and creating again\<close>

lemma filter_upd_gone:
  assumes "i < length xs" "P (xs ! i)" "\<not> P x"
  shows "length (filter P (xs[i := x])) + 1 = length (filter P xs)"
proof -
  obtain as bs where "filter P ((xs[i := x])[i := xs ! i]) = as @ xs ! i # bs" "filter P (xs[i := x]) = as @ bs"
    using filter_upd_new [of i "xs[i := x]" P "xs ! i"] assms by auto
  then show ?thesis using assms(1) by simp
qed

text \<open>Identifiers are not unique once an object has been freed: the next object of the class
  is given the index of the youngest one still there, and of the two objects with that
  identifier only the one in the lower slot can be found.\<close>

lemma FTE_CFG_OBJ_free_duplicates:
  assumes "objects_ok c" "i < FTE_OBJ_MAX_COUNT" "j < FTE_OBJ_MAX_COUNT" "i \<noteq> j"
    and cls: "nID b AND FTE_OBJ_CLASS_MASK \<noteq> 0" "ulChild b = 0"
    and i: "nID (objects c ! i) AND FTE_OBJ_CLASS_MASK = nID b AND FTE_OBJ_CLASS_MASK"
    and j: "nID (objects c ! j) = (nID b AND FTE_OBJ_TYPE_MASK) OR of_nat (class_count (nID b AND FTE_OBJ_CLASS_MASK) c)"
    and free: "FTE_CFG_OBJ_free (nID (objects c ! i)) c = (r1, c1)"
    and create: "FTE_CFG_OBJ_create b [] 0 c1 = (r2, p, out, c2)"
  shows "\<exists>m. p = Some m \<and> m \<noteq> j \<and> nID (objects c2 ! m) = nID (objects c2 ! j) \<and> objects c2 ! j = objects c ! j
    \<and> FTE_CFG_OBJ_get (nID (objects c ! j)) c2 = Some (min m j)"
proof -
  have l: "length (objects c) = FTE_OBJ_MAX_COUNT" and d: "pDESC c \<noteq> None" using assms(1) by (simp_all add: objects_ok_def)
  let ?k = "nID b AND FTE_OBJ_CLASS_MASK"
  define K where "K = class_count ?k c"
  have nz: "nID (objects c ! i) \<noteq> 0" using i cls(1) by auto
  have fs: "find_slot (\<lambda>x. nID x = nID (objects c ! i)) 0 (objects c) = Some i"
    using object_unique [OF assms(1) _ _ nz] l assms(2) by (intro find_slot_first) (metis less_irrefl order.strict_trans)+
  have c1: "c1 = set_object_count (object_count c - 1) (set_object i object_zero c)"
    using free fs d used_count [OF assms(1) _ nz] l assms(2) by (simp add: FTE_CFG_OBJ_free_def)
  have o1: "objects c1 = (objects c)[i := object_zero]" using c1 by simp
  have "i \<in> {x. x < length (objects c)}" using l assms(2) by simp
  have K1: "class_count ?k c1 + 1 = K"
    unfolding K_def class_count_def o1 by (rule filter_upd_gone) (use l assms(2) i cls(1) in \<open>auto simp: object_zero_def\<close>)
  have "object_zero \<in> set (objects c1)" using o1 l assms(2) by (simp add: set_update_memI)
  then obtain m where fm: "find_slot (\<lambda>x. nID x = 0) 0 (objects c1) = Some m"
    by (cases "find_slot (\<lambda>x. nID x = 0) 0 (objects c1)") (auto simp: find_slot_None object_zero_def)
  have un: "unat (object_count c) = length (used_objects c)" using assms(1) by (simp add: objects_ok_def)
  have "object_count c1 \<noteq> of_nat FTE_OBJ_MAX_COUNT"
  proof
    assume "object_count c1 = of_nat FTE_OBJ_MAX_COUNT"
    then have "object_count c = 34" using c1 by (simp add: FTE_OBJ_MAX_COUNT_def diff_eq_eq)
    then show False using un length_used_le [OF l] by (simp add: FTE_OBJ_MAX_COUNT_def)
  qed
  then have al: "FTE_CFG_OBJ_alloc c1 = (Some m, set_object_count (object_count c1 + 1) c1)"
    using fm d c1 by (simp add: FTE_CFG_OBJ_alloc_def)
  have m: "m < length (objects c)" "nID (objects c1 ! m) = 0" using find_slot_Some [OF fm] o1 by auto
  have "unat (of_nat K :: u32) < 256"
    using class_count_le [OF cls(1), of c] length_used_le [OF l] unfolding K_def
    by (subst unat_of_nat_small) (simp_all add: FTE_OBJ_MAX_COUNT_def)
  from id_fields(1) [of 0, OF _ this, of "nID b"] have "nID (objects c ! j) AND FTE_OBJ_CLASS_MASK = ?k"
    using j by (simp add: K_def)
  then have jn: "nID (objects c ! j) \<noteq> 0" using cls(1) by auto
  then have mj: "m \<noteq> j" using m o1 assms(4) by auto
  let ?x = "b\<lparr>nID := (nID b AND FTE_OBJ_TYPE_MASK) OR of_nat K, pName := object_name (pName b) (of_nat K)\<rparr>"
  have "FTE_CFG_OBJ_count ?k FTE_OBJ_CLASS_MASK (set_object_count (object_count c1 + 1) c1) + 1 = of_nat K"
    using d c1 K1 by (subst OBJ_count_class [OF _ cls(1)]) (simp, simp add: class_count_def flip: K1)
  then have res: "p = Some m" "objects c2 = (objects c1)[m := ?x]" "object_count c2 = object_count c1 + 1" "pDESC c2 \<noteq> None"
    using create al cls(2) d c1 by (auto simp: FTE_CFG_OBJ_create_def Let_def)
  have same: "nID (objects c2 ! m) = nID (objects c ! j)" "objects c2 ! j = objects c ! j"
    using res(2) m(1) mj assms(4) o1 j by (simp_all add: K_def)
  have other: "nID (objects c2 ! q) \<noteq> nID (objects c ! j)" if "q < min m j" for q
  proof
    assume e: "nID (objects c2 ! q) = nID (objects c ! j)"
    have lt: "q < length (objects c)" "q \<noteq> m" "q \<noteq> j" using that m(1) by simp_all
    have "q \<noteq> i"
    proof
      assume "q = i"
      then have "objects c2 ! q = object_zero" using lt unfolding res(2) o1 by simp
      then show False using e jn by (simp add: object_zero_def)
    qed
    then have "objects c2 ! q = objects c ! q" using lt unfolding res(2) o1 by simp
    then have "nID (objects c ! j) = nID (objects c ! q)" using e by simp
    then show False using object_unique [OF assms(1) _ lt(1) jn] lt(3) l assms(3) by simp
  qed
  have "find_slot (\<lambda>x. nID x \<noteq> 0 \<and> nID x = nID (objects c ! j)) 0 (objects c2) = Some (min m j)"
    using other same jn m(1) l assms(3) res(2) o1 by (intro find_slot_first) (auto simp: min_def)
  moreover have "object_count c2 \<noteq> 0" using res(3) c1 used_count [OF assms(1) _ nz] l assms(2) by simp
  ultimately have "FTE_CFG_OBJ_get (nID (objects c ! j)) c2 = Some (min m j)"
    using res(4) by (simp add: FTE_CFG_OBJ_get_def)
  then show ?thesis using res(1) mj same by auto
qed

text \<open>Two inputs are created and the first is freed: the third has the second one's identifier.\<close>

definition two_inputs :: fte_config where
  "two_inputs = snd (create_all [(di_demo, []), (di_demo, [])] pool_demo)"

lemma two_inputs_ids: "map nID (take 2 (objects two_inputs)) = [0x06010001, 0x06010002]"
  "class_count 0x06000000 two_inputs = 2"
  by code_simp+

lemma two_inputs_ok: "objects_ok two_inputs"
proof -
  let ?bs = "[(di_demo, []), (di_demo, [])] :: (object_config \<times> object_config list) list"
  have "\<forall>(b, ch) \<in> set ?bs. \<forall>x \<in> set (b # ch). nID x AND FTE_OBJ_CLASS_MASK \<noteq> 0" by (simp add: di_demo_def)
  from create_all_ok [OF pool_demo_ok this] show ?thesis unfolding two_inputs_def by (metis prod.collapse)
qed

lemma FTE_CFG_OBJ_free_duplicates_witness:
  "\<exists>r1 c1 r2 p out c2. FTE_CFG_OBJ_free 0x06010001 two_inputs = (r1, c1)
     \<and> FTE_CFG_OBJ_create di_demo [] 0 c1 = (r2, p, out, c2)
     \<and> (\<exists>m. p = Some m \<and> m \<noteq> 1 \<and> nID (objects c2 ! m) = nID (objects c2 ! 1))"
proof -
  have l: "length (objects two_inputs) = FTE_OBJ_MAX_COUNT" using two_inputs_ok by (simp add: objects_ok_def)
  have m: "nID (objects two_inputs ! q) = map nID (take 2 (objects two_inputs)) ! q" if "q < 2" for q
    using that l by (simp add: FTE_OBJ_MAX_COUNT_def)
  have n: "nID (objects two_inputs ! 0) = 0x06010001" "nID (objects two_inputs ! 1) = 0x06010002"
    using m [of 0] m [of 1] unfolding two_inputs_ids(1) by simp_all
  have b: "nID di_demo = 0x06010000" "ulChild di_demo = 0" by (simp_all add: di_demo_def object_zero_def)
  obtain r1 c1 where free: "FTE_CFG_OBJ_free (nID (objects two_inputs ! 0)) two_inputs = (r1, c1)" by fastforce
  obtain r2 p out c2 where create: "FTE_CFG_OBJ_create di_demo [] 0 c1 = (r2, p, out, c2)" by (metis prod_cases4)
  have "\<exists>m. p = Some m \<and> m \<noteq> 1 \<and> nID (objects c2 ! m) = nID (objects c2 ! 1) \<and> objects c2 ! 1 = objects two_inputs ! 1
    \<and> FTE_CFG_OBJ_get (nID (objects two_inputs ! 1)) c2 = Some (min m 1)"
    by (rule FTE_CFG_OBJ_free_duplicates [OF two_inputs_ok _ _ _ _ b(2) _ _ free create])
      (simp_all add: FTE_OBJ_MAX_COUNT_def b n two_inputs_ids(2) del: One_nat_def)
  then show ?thesis using free create n(1) by auto
qed

end
