(* ===== verification/FTE_Platform.thy ===== *)
theory FTE_Platform
  imports FTE_ObjectReg FTE_ConfigPools
begin

unbundle bit_operations_syntax

text \<open>
  The part of the start-up sequence of \<^verbatim>\<open>target/source/mach/fte_common.c\<close> that brings the
  configured objects to life: \<^verbatim>\<open>FTE_PLATFORM_init\<close> creates and initialises them,
  \<^verbatim>\<open>FTE_PLATFORM_run\<close> starts those that are enabled.  The board's drivers and the events
  are set up by other parts of these functions and not modelled here.
\<close>

section \<open>Creating, initialising and starting\<close>

text \<open>The loop under \<^verbatim>\<open>/* Create Object */\<close>: the bound is read again before every turn.  A
  slot outside the array is a fault.\<close>

partial_function (option) create_objects :: "'d sys obj_env \<Rightarrow> u32 \<Rightarrow> 'd sys \<Rightarrow> 'd sys option" where
  "create_objects E i s =
     (if i < FTE_CFG_OBJ_count 0 0 (cfg s) then do {
        s \<leftarrow> (case FTE_CFG_OBJ_getAt 0 0 i (cfg s) of
               None \<Rightarrow> Some s
             | Some j \<Rightarrow> do {
                 guard_opt (j < length (objects (cfg s)));
                 (_, s) \<leftarrow> FTE_OBJ_create E (objects (cfg s) ! j) s;
                 Some s
               });
        create_objects E (i + 1) s
      } else Some s)"

text \<open>The loops over the registry at the end of \<^verbatim>\<open>FTE_PLATFORM_init\<close> and in
  \<^verbatim>\<open>FTE_PLATFORM_run\<close>, with \<open>k\<close> turns to go.\<close>

fun init_objects :: "'d sys obj_env \<Rightarrow> nat \<Rightarrow> u32 \<Rightarrow> 'd sys \<Rightarrow> 'd sys option" where
  "init_objects E 0 i s = Some s"
| "init_objects E (Suc k) i s = do {
     (pObj, s) \<leftarrow> FTE_OBJ_getAt E FTE_OBJ_TYPE_UNKNOWN 0 i False s;
     s \<leftarrow> (if pObj \<noteq> NULL then do { (_, s) \<leftarrow> FTE_OBJ_init E pObj s; Some s } else Some s);
     init_objects E k (i + 1) s
   }"

definition FTE_PLATFORM_init_objects :: "'d sys obj_env \<Rightarrow> 'd sys \<Rightarrow> 'd sys option" where
  "FTE_PLATFORM_init_objects E s = do {
     (ulCount, s) \<leftarrow> FTE_OBJ_count E FTE_OBJ_TYPE_UNKNOWN 0 False s;
     init_objects E (unat ulCount) 0 s
   }"

abbreviation FTE_OBJ_CONFIG_FLAG_SYNC :: u32 where "FTE_OBJ_CONFIG_FLAG_SYNC \<equiv> 0x200"

fun start_objects :: "'d sys obj_env \<Rightarrow> nat \<Rightarrow> u32 \<Rightarrow> 'd sys \<Rightarrow> 'd sys option" where
  "start_objects E 0 i s = Some s"
| "start_objects E (Suc k) i s = do {
     (pObj, s) \<leftarrow> FTE_OBJ_getAt E FTE_OBJ_TYPE_UNKNOWN 0 i False s;
     s \<leftarrow> (if pObj \<noteq> NULL then do {
             ob \<leftarrow> objs s pObj;
             if FTE_FLAG_IS_SET (xFlags (oConfig ob)) FTE_OBJ_CONFIG_FLAG_ENABLE
                 \<and> \<not> FTE_FLAG_IS_SET (xFlags (oConfig ob)) FTE_OBJ_CONFIG_FLAG_SYNC
             then do { (_, s) \<leftarrow> FTE_OBJ_start E pObj s; Some s } else Some s
           } else Some s);
     start_objects E k (i + 1) s
   }"

definition FTE_PLATFORM_run :: "'d sys obj_env \<Rightarrow> 'd sys \<Rightarrow> (fte_ret \<times> 'd sys) option" where
  "FTE_PLATFORM_run E s = do {
     (ulCount, s) \<leftarrow> FTE_OBJ_count E FTE_OBJ_TYPE_UNKNOWN 0 False s;
     s \<leftarrow> start_objects E (unat ulCount) 0 s;
     Some (FTE_RET_OK, s)
   }"

section \<open>Which objects the loop creates\<close>

text \<open>The loop as a recursion over the configurations it reads, when no driver changes them.\<close>

fun create_list :: "'d sys obj_env \<Rightarrow> object_config list \<Rightarrow> 'd sys \<Rightarrow> 'd sys option" where
  "create_list E [] s = Some s"
| "create_list E (c # cs) s = do {
     (_, s') \<leftarrow> FTE_OBJ_create E c s;
     guard_opt (cfg s' = cfg s);
     create_list E cs s'
   }"

abbreviation obj_config :: "'d sys \<Rightarrow> addr \<Rightarrow> object_config" where
  "obj_config s p \<equiv> oConfig (the (objs s p))"

text \<open>What the table of types and the drivers have to offer: a descriptor, whose driver
  attaches with at most \<open>k\<close> blocks, for every type that occurs, and none for the type 0
  of a cleared slot.\<close>

definition drivers_ok :: "'d sys obj_env \<Rightarrow> nat \<Rightarrow> object_config list \<Rightarrow> bool" where
  "drivers_ok E k cs \<longleftrightarrow> FTE_OBJ_DESC_get 0 (pObjDescs E) = None
     \<and> (\<forall>c \<in> set cs. nID c \<noteq> 0 \<longrightarrow>
          (\<exists>d j. FTE_OBJ_DESC_get (nID c AND FTE_OBJ_TYPE_MASK) (pObjDescs E) = Some d \<and> j \<le> k \<and> attaches E d j))"

lemma create_unknown:
  "FTE_OBJ_DESC_get (nID c AND FTE_OBJ_TYPE_MASK) (pObjDescs E) = None \<Longrightarrow> FTE_OBJ_create E c s = Some (NULL, s)"
  by (simp add: FTE_OBJ_create_def create_error_def)

lemma headers_apart_drop: "headers_apart E s \<Longrightarrow> pool s' = drop n (pool s) \<Longrightarrow> headers_apart E s'"
  by (auto simp: headers_apart_def dest: in_set_dropD)

lemma create_list_registry:
  assumes "registry E s F ps" "F \<noteq> None" "headers_apart E s" "drivers_ok E k cs"
    and "length cs * (6 + k) \<le> room s"
    and "distinct (map obj_key (filter (\<lambda>c. nID c \<noteq> 0) cs))"
    and "\<forall>c \<in> set cs. nID c \<noteq> 0 \<longrightarrow> (\<forall>q \<in> set ps. reg_key (objs s) q \<noteq> obj_key c)"
  shows "\<exists>s' F' ps'. create_list E cs s = Some s' \<and> registry E s' F' ps' \<and> F' \<noteq> None \<and> cfg s' = cfg s
    \<and> obj_config s' ` set ps' = obj_config s ` set ps \<union> {c \<in> set cs. nID c \<noteq> 0}
    \<and> length ps' = length ps + length (filter (\<lambda>c. nID c \<noteq> 0) cs)"
  using assms
proof (induction cs arbitrary: s F ps)
  case Nil
  then show ?case by (intro exI [of _ s] exI [of _ F] exI [of _ ps]) simp
next
  case (Cons c cs)
  have dk: "drivers_ok E k cs" using Cons.prems(4) by (simp add: drivers_ok_def)
  show ?case
  proof (cases "nID c = 0")
    case True
    then have "FTE_OBJ_create E c s = Some (NULL, s)"
      using Cons.prems(4) by (intro create_unknown) (simp add: drivers_ok_def)
    then have cr: "create_list E (c # cs) s = create_list E cs s" by simp
    have eq: "{x \<in> set (c # cs). nID x \<noteq> 0} = {x \<in> set cs. nID x \<noteq> 0}"
      "filter (\<lambda>x. nID x \<noteq> 0) (c # cs) = filter (\<lambda>x. nID x \<noteq> 0) cs" using True by auto
    have "length cs * (6 + k) \<le> room s" "distinct (map obj_key (filter (\<lambda>c. nID c \<noteq> 0) cs))"
      "\<forall>c \<in> set cs. nID c \<noteq> 0 \<longrightarrow> (\<forall>q \<in> set ps. reg_key (objs s) q \<noteq> obj_key c)"
      using Cons.prems(5-7) True by simp_all
    then show ?thesis unfolding cr eq by (rule Cons.IH [OF Cons.prems(1,2,3) dk])
  next
    case False
    obtain d j where d: "FTE_OBJ_DESC_get (nID c AND FTE_OBJ_TYPE_MASK) (pObjDescs E) = Some d" "j \<le> k" "attaches E d j"
      using Cons.prems(4) False by (auto simp: drivers_ok_def)
    have fu: "first_use F = 0" using Cons.prems(2) by (cases F) auto
    have room: "6 + j + first_use F \<le> room s" using Cons.prems(5) d(2) fu by simp
    have fresh: "\<forall>q \<in> set ps. reg_key (objs s) q \<noteq> nID c AND (FTE_OBJ_CLASS_MASK OR FTE_OBJ_CLASS_INDEX)"
      using Cons.prems(7) False by (simp add: obj_key_def)
    obtain p s1 F1 ps1 where P: "FTE_OBJ_create E c s = Some (p, s1)" "p \<noteq> NULL" "p \<notin> set ps" "F1 \<noteq> None"
      "registry E s1 F1 ps1" "set ps1 = insert p (set ps)" "length ps1 = Suc (length ps)"
      "\<forall>q \<in> set ps. objs s1 q = objs s q" "map_option oConfig (objs s1 p) = Some c" "cfg s1 = cfg s"
      "pool s1 = drop (6 + j + first_use F) (pool s)" "room s = room s1 + (6 + j + first_use F)"
      using create_registry [OF Cons.prems(1,3) d(3) room d(1) fresh] .
    have kp: "reg_key (objs s1) p = obj_key c" using P(9) by (auto simp: reg_key_def obj_key_def)
    have kq: "\<forall>q \<in> set ps. reg_key (objs s1) q = reg_key (objs s) q" using P(8) by (simp add: reg_key_def)
    have r1: "length cs * (6 + k) \<le> room s1" using Cons.prems(5) P(12) d(2) fu by simp
    have di: "distinct (map obj_key (filter (\<lambda>c. nID c \<noteq> 0) cs))" using Cons.prems(6) False by simp
    have fr: "\<forall>c \<in> set cs. nID c \<noteq> 0 \<longrightarrow> (\<forall>q \<in> set ps1. reg_key (objs s1) q \<noteq> obj_key c)"
      using Cons.prems(6,7) False kp kq P(6) by auto
    obtain s2 F2 ps2 where Q: "create_list E cs s1 = Some s2" "registry E s2 F2 ps2" "F2 \<noteq> None" "cfg s2 = cfg s1"
      "obj_config s2 ` set ps2 = obj_config s1 ` set ps1 \<union> {c \<in> set cs. nID c \<noteq> 0}"
      "length ps2 = length ps1 + length (filter (\<lambda>c. nID c \<noteq> 0) cs)"
      using Cons.IH [OF P(5,4) headers_apart_drop [OF Cons.prems(3) P(11)] dk r1 di fr] by blast
    have "obj_config s1 ` set ps1 = insert c (obj_config s ` set ps)"
      using P(6,8,9) by (auto simp: image_iff)
    then have "obj_config s2 ` set ps2 = obj_config s ` set ps \<union> {x \<in> set (c # cs). nID x \<noteq> 0}"
      using Q(5) False by auto
    moreover have "create_list E (c # cs) s = Some s2" using P(1,10) Q(1) by simp
    moreover have "length ps2 = length ps + length (filter (\<lambda>c. nID c \<noteq> 0) (c # cs))" using Q(6) P(7) False by simp
    ultimately show ?thesis using Q(2,3,4) P(10) by metis
  qed
qed

text \<open>The pool as start-up needs it: the keys of the used slots are different.\<close>

definition startup_ok :: "fte_config \<Rightarrow> bool" where
  "startup_ok c \<longleftrightarrow> pDESC c \<noteq> None \<and> length (objects c) = FTE_OBJ_MAX_COUNT
     \<and> unat (object_count c) \<le> FTE_OBJ_MAX_COUNT \<and> distinct (map obj_key (used_objects c))"

lemma objects_startup_ok: "objects_ok c \<Longrightarrow> startup_ok c"
  using length_used_le [of c] by (simp add: objects_ok_def startup_ok_def)

lemma create_objects_list:
  assumes "startup_ok (cfg s)" "i \<le> unat (object_count (cfg s))"
    and "create_list E (take (unat (object_count (cfg s)) - i) (drop i (objects (cfg s)))) s = Some s'"
  shows "create_objects E (of_nat i) s = Some s'"
  using assms
proof (induction "unat (object_count (cfg s)) - i" arbitrary: i s)
  case 0
  then have "unat (object_count (cfg s)) = i" by simp
  then have "object_count (cfg s) = of_nat i" by auto
  then show ?case using 0 by (subst create_objects.simps) (simp add: FTE_CFG_OBJ_count_def)
next
  case (Suc n)
  let ?c = "cfg s"
  have lt: "i < unat (object_count ?c)" using Suc.hyps(2) by simp
  have ok: "pDESC ?c \<noteq> None" "length (objects ?c) = FTE_OBJ_MAX_COUNT" "unat (object_count ?c) \<le> FTE_OBJ_MAX_COUNT"
    using Suc.prems(1) by (simp_all add: startup_ok_def)
  then have l: "i < length (objects ?c)" "i < 2 ^ 32" using lt by (simp_all add: FTE_OBJ_MAX_COUNT_def)
  then have u: "unat (of_nat i :: u32) = i" by (intro unat_of_nat_small) simp
  then have w: "(of_nat i :: u32) < object_count ?c" using lt by (simp add: word_less_nat_alt)
  have tk: "take (unat (object_count ?c) - i) (drop i (objects ?c))
      = objects ?c ! i # take (unat (object_count ?c) - Suc i) (drop (Suc i) (objects ?c))"
    using l(1) lt by (simp add: Cons_nth_drop_Suc [symmetric] Suc_diff_Suc take_Cons')
  obtain p s1 where cr: "FTE_OBJ_create E (objects ?c ! i) s = Some (p, s1)"
    "create_list E (take (unat (object_count ?c) - Suc i) (drop (Suc i) (objects ?c))) s1 = Some s'"
    and c1: "cfg s1 = ?c"
    using Suc.prems(3) unfolding tk by (auto simp: opt_simps split: if_split_asm)
  have "create_objects E (of_nat (Suc i)) s1 = Some s'"
    using Suc.hyps Suc.prems(1) cr(2) c1 lt by (intro Suc.hyps(1)) simp_all
  then show ?case using w u ok(1) l(1) cr(1)
    by (subst create_objects.simps) (simp add: FTE_CFG_OBJ_count_def FTE_CFG_OBJ_getAt_def add.commute)
qed

lemma create_objects_registry:
  assumes "registry E s F ps" "F \<noteq> None" "headers_apart E s" "startup_ok (cfg s)"
    and cs: "cs = take (unat (object_count (cfg s))) (objects (cfg s))"
    and "drivers_ok E k cs" "length cs * (6 + k) \<le> room s"
    and "\<forall>c \<in> set cs. nID c \<noteq> 0 \<longrightarrow> (\<forall>q \<in> set ps. reg_key (objs s) q \<noteq> obj_key c)"
  obtains s' F' ps' where "create_objects E 0 s = Some s'" "registry E s' F' ps'" "F' \<noteq> None" "cfg s' = cfg s"
    "obj_config s' ` set ps' = obj_config s ` set ps \<union> {c \<in> set cs. nID c \<noteq> 0}"
    "length ps' = length ps + length (filter (\<lambda>c. nID c \<noteq> 0) cs)"
proof -
  let ?n = "unat (object_count (cfg s))"
  have "used_objects (cfg s) = filter (\<lambda>c. nID c \<noteq> 0) cs @ filter (\<lambda>c. nID c \<noteq> 0) (drop ?n (objects (cfg s)))"
    unfolding used_objects_def cs filter_append [symmetric] by simp
  then have "distinct (map obj_key (filter (\<lambda>c. nID c \<noteq> 0) cs))" using assms(4) by (simp add: startup_ok_def)
  then obtain s' F' ps' where P: "create_list E cs s = Some s'" "registry E s' F' ps'" "F' \<noteq> None" "cfg s' = cfg s"
    "obj_config s' ` set ps' = obj_config s ` set ps \<union> {c \<in> set cs. nID c \<noteq> 0}"
    "length ps' = length ps + length (filter (\<lambda>c. nID c \<noteq> 0) cs)"
    using create_list_registry [OF assms(1,2,3,6,7) _ assms(8)] by blast
  have "create_objects E (of_nat 0) s = Some s'"
    using create_objects_list [OF assms(4), of 0] P(1) cs by simp
  then show thesis using P(2-6) by (intro that) simp_all
qed

lemma strict_sorted_inj: "sorted_wrt (\<lambda>p q. f p < f q) ps \<Longrightarrow> inj_on f (set ps)" for f :: "'a \<Rightarrow> 'b::linorder"
proof (induction ps)
  case (Cons p ps)
  have "f p \<noteq> f q" if "q \<in> set ps" for q using Cons.prems that less_irrefl by fastforce
  then show ?case using Cons by (auto simp: inj_on_insert)
qed simp

text \<open>Who is found in a registry.\<close>

lemma get_registered:
  assumes "registry E s F ps" "F \<noteq> None" "c \<in> obj_config s ` set ps"
  shows "\<exists>p. FTE_OBJ_get E (nID c) s = Some (p, s) \<and> p \<noteq> NULL \<and> map_option oConfig (objs s p) = Some c"
proof -
  obtain p where p: "p \<in> set ps" "obj_config s p = c" using assms(3) by blast
  then have o: "objs s p \<noteq> None" "p \<noteq> NULL" using assms(1) by (auto simp: registry_def pool_ok_def)
  have "inj_on (reg_key (objs s)) (set ps)" using registry_sorted [OF assms(1)] by (rule strict_sorted_inj)
  then have "\<forall>q \<in> set ps. q \<noteq> p \<longrightarrow> obj_id (the (objs s q)) \<noteq> nID c"
    using p inj_onD [of "reg_key (objs s)" "set ps" _ p] unfolding reg_key_def by metis
  then have "find (\<lambda>q. obj_id (the (objs s q)) = nID c) ps = Some p" using p by (intro find_unique) auto
  then show ?thesis using OBJ_get_registry [OF assms(1,2)] p(2) o by auto
qed

lemma get_unregistered:
  assumes "registry E s F ps" "F \<noteq> None" "\<forall>c \<in> obj_config s ` set ps. nID c \<noteq> oid"
  shows "FTE_OBJ_get E oid s = Some (NULL, s)"
proof -
  have "find (\<lambda>q. obj_id (the (objs s q)) = oid) ps = None" using assms(3) by (auto simp: find_None_iff)
  then show ?thesis using OBJ_get_registry [OF assms(1,2)] by simp
qed

section \<open>A sample start\<close>

text \<open>Two objects of the system in the registry, two inputs configured.\<close>

definition boot_demo :: "fte_config \<Rightarrow> unit sys" where
  "boot_demo c = reg_demo\<lparr>cfg := c,
     pool := [0x3000, 0x3100, 0x3200, 0x3300, 0x3400, 0x3500, 0x3600, 0x3700, 0x3800, 0x3900, 0x3a00, 0x3b00],
     objs := [0x1000 \<mapsto> reg_object 0x81010001 0, 0x2000 \<mapsto> reg_object 0x82010001 0]\<rparr>"

lemma boot_demo_ok: "registry reg_env (boot_demo c) reg_foot [0x1000, 0x2000]" "headers_apart reg_env (boot_demo c)"
  "room (boot_demo c) = 12" "cfg (boot_demo c) = c"
  "q \<in> set [0x1000, 0x2000] \<Longrightarrow> reg_key (objs (boot_demo c)) q \<in> {0x01000001, 0x02000001}"
  by (auto simp: registry_def reg_env_def boot_demo_def reg_demo_def pool_ok_def ring_ptrs_def reg_key_def reg_object_def
      headers_apart_def xEventList_def room_def)

lemma two_inputs_pool: "map nID (objects two_inputs) = [0x06010001, 0x06010002] @ replicate 31 0" "object_count two_inputs = 2"
  by code_simp+

lemma two_inputs_used: "c \<in> set (objects two_inputs) \<Longrightarrow> nID c \<noteq> 0 \<Longrightarrow> nID c \<in> {0x06010001, 0x06010002}"
proof -
  assume "c \<in> set (objects two_inputs)" "nID c \<noteq> 0"
  then have "nID c \<in> set (map nID (objects two_inputs))" by simp
  then show ?thesis using \<open>nID c \<noteq> 0\<close> unfolding two_inputs_pool by auto
qed

lemma two_inputs_first: "i < 2 \<Longrightarrow> nID (objects two_inputs ! i) \<noteq> 0"
proof -
  assume i: "i < 2"
  have "length (map nID (objects two_inputs)) = 33" unfolding two_inputs_pool by simp
  then have "nID (objects two_inputs ! i) = map nID (objects two_inputs) ! i" using i by simp
  then show ?thesis using i unfolding two_inputs_pool by (auto simp: less_2_cases_iff)
qed

lemma two_inputs_drivers: "drivers_ok reg_env 0 (objects two_inputs)"
  unfolding drivers_ok_def
proof (intro conjI ballI impI)
  fix c assume c: "c \<in> set (objects two_inputs)" "nID c \<noteq> 0"
  then have "nID c AND FTE_OBJ_TYPE_MASK = 0x06010000" using two_inputs_used [of c] by auto
  from reg_desc_known [OF this] show "\<exists>d j. FTE_OBJ_DESC_get (nID c AND FTE_OBJ_TYPE_MASK) (pObjDescs reg_env) = Some d
      \<and> j \<le> 0 \<and> attaches reg_env d j" using reg_attaches by blast
qed (simp add: FTE_OBJ_DESC_get_def reg_env_def reg_desc_def)

lemma two_inputs_fresh:
  "\<forall>x \<in> set (objects two_inputs). nID x \<noteq> 0 \<longrightarrow> (\<forall>q \<in> set [0x1000, 0x2000]. reg_key (objs (boot_demo c)) q \<noteq> obj_key x)"
proof (intro ballI impI)
  fix x and q :: addr assume a: "x \<in> set (objects two_inputs)" "nID x \<noteq> 0" "q \<in> set [0x1000, 0x2000]"
  then have "obj_key x \<in> {0x06000001, 0x06000002}" using two_inputs_used [OF a(1,2)] by (auto simp: obj_key_def)
  then show "reg_key (objs (boot_demo c)) q \<noteq> obj_key x" using boot_demo_ok(5) [OF a(3), of c] by auto
qed

section \<open>Properties\<close>



text \<open>An object freed in the middle of the pool costs another one at the next start-up: the
  loop visits as many slots as there are objects, counted from the first, so the last object of
  a pool without holes is still in the configuration and is not created.\<close>

lemma FTE_PLATFORM_loses_last:
  assumes "objects_ok c" "\<forall>i < unat (object_count c). nID (objects c ! i) \<noteq> 0"
    and "Suc j < unat (object_count c)" "FTE_CFG_OBJ_free (nID (objects c ! j)) c = (r, c')"
    and "registry E s F ps" "F \<noteq> None" "headers_apart E s" "cfg s = c'"
    and "drivers_ok E k (objects c)" "unat (object_count c) * (6 + k) \<le> room s"
    and "\<forall>x \<in> set (objects c). nID x \<noteq> 0 \<longrightarrow> (\<forall>q \<in> set ps. reg_key (objs s) q \<noteq> obj_key x)"
    and "x = objects c ! (unat (object_count c) - 1)"
  shows "\<exists>s' i. create_objects E 0 s = Some s' \<and> FTE_CFG_OBJ_get (nID x) (cfg s') = Some i
    \<and> objects (cfg s') ! i = x \<and> FTE_OBJ_get E (nID x) s' = Some (NULL, s')"
proof -
  let ?n = "unat (object_count c)"
  have d: "pDESC c \<noteq> None" "length (objects c) = FTE_OBJ_MAX_COUNT" "unat (object_count c) = length (used_objects c)"
    "distinct (map obj_key (used_objects c))" using assms(1) by (simp_all add: objects_ok_def)
  have n: "?n \<le> FTE_OBJ_MAX_COUNT" "object_count c \<noteq> 0" using length_used_le [OF d(2)] d(3) assms(3) by auto
  have lj: "j < length (objects c)" "nID (objects c ! j) \<noteq> 0" using assms(2,3) n d(2) by simp_all
  have "\<forall>m < j. nID (objects c ! m) \<noteq> nID (objects c ! j)"
    using object_unique [OF assms(1) _ lj(1)] lj by (metis less_irrefl order.strict_trans)
  then have "find_slot (\<lambda>y. nID y = nID (objects c ! j)) 0 (objects c) = Some j" using lj by (intro find_slot_first) auto
  then have c': "c' = set_object_count (object_count c - 1) (set_object j object_zero c)"
    using assms(4) d(1) n(2) by (simp add: FTE_CFG_OBJ_free_def)
  have n': "unat (object_count c') = ?n - 1" using c' n(2) by (simp add: unat_minus_one)
  have o': "objects c' = (objects c)[j := object_zero]" "pDESC c' = pDESC c" using c' by simp_all
  have "objects c = take j (objects c) @ objects c ! j # drop (Suc j) (objects c)" by (rule id_take_nth_drop [OF lj(1)])
  then have "used_objects c = filter (\<lambda>y. nID y \<noteq> 0) (take j (objects c) @ objects c ! j # drop (Suc j) (objects c))"
    unfolding used_objects_def by (rule arg_cong)
  moreover have "used_objects c' = filter (\<lambda>y. nID y \<noteq> 0) (take j (objects c)) @ filter (\<lambda>y. nID y \<noteq> 0) (drop (Suc j) (objects c))"
    unfolding used_objects_def o' upd_conv_take_nth_drop [OF lj(1)] by (simp add: object_zero_def)
  ultimately have "distinct (map obj_key (used_objects c'))" using d(4) lj(2) by auto
  then have st: "startup_ok (cfg s)" using d n n' o' assms(8) by (simp add: startup_ok_def)
  define cs where "cs = take (unat (object_count (cfg s))) (objects (cfg s))"
  have sub: "\<forall>y \<in> set cs. nID y \<noteq> 0 \<longrightarrow> (\<exists>i < ?n - 1. i \<noteq> j \<and> y = objects c ! i)"
  proof (intro ballI impI)
    fix y assume y: "y \<in> set cs" "nID y \<noteq> 0"
    then obtain i where i: "i < ?n - 1" "i < length (objects c)" "y = objects c' ! i"
      using n' o' assms(8) by (auto simp: cs_def in_set_conv_nth)
    then have "i \<noteq> j" using y(2) o' lj(1) by (auto simp: object_zero_def)
    then show "\<exists>i < ?n - 1. i \<noteq> j \<and> y = objects c ! i" using i o' by auto
  qed
  moreover have "objects c ! i \<in> set (objects c)" if "i < ?n - 1" for i using that n(1) d(2) by simp
  ultimately have "\<forall>y \<in> set cs. nID y \<noteq> 0 \<longrightarrow> y \<in> set (objects c)" by metis
  then have dr: "drivers_ok E k cs" and fr: "\<forall>c \<in> set cs. nID c \<noteq> 0 \<longrightarrow> (\<forall>q \<in> set ps. reg_key (objs s) q \<noteq> obj_key c)"
    using assms(9,11) by (auto simp: drivers_ok_def)
  have "length cs \<le> unat (object_count c)" using n' n(1) assms(8) by (simp add: cs_def)
  then have rm: "length cs * (6 + k) \<le> room s" using assms(10) by (rule le_trans [OF mult_le_mono1])
  obtain s' F' ps' where P: "create_objects E 0 s = Some s'" "registry E s' F' ps'" "F' \<noteq> None" "cfg s' = cfg s"
    "obj_config s' ` set ps' = obj_config s ` set ps \<union> {c \<in> set cs. nID c \<noteq> 0}"
    using create_objects_registry [OF assms(5-7) st cs_def dr rm fr] .
  let ?l = "?n - 1"
  have l: "?l < length (objects c)" "?l \<noteq> j" "nID x \<noteq> 0" using assms(2,3,12) n d(2) by auto
  have new: "nID (objects c ! i) \<noteq> nID x" if "i < ?l" for i
    using object_unique [OF assms(1) l(1), of i] that l(1,3) assms(12) by fastforce
  have "nID y \<noteq> nID x" if y: "y \<in> obj_config s ` set ps" for y
  proof
    assume "nID y = nID x"
    moreover obtain q where "q \<in> set ps" "y = obj_config s q" using y by blast
    ultimately have "q \<in> set ps" "reg_key (objs s) q = obj_key x" by (simp_all add: reg_key_def obj_key_def)
    moreover have "x \<in> set (objects c)" using l(1) assms(12) by simp
    ultimately show False using assms(11) l(3) by blast
  qed
  moreover have "nID y \<noteq> nID x" if "y \<in> set cs" "nID y \<noteq> 0" for y
    using sub [THEN bspec, THEN mp, OF that] n' new by auto
  ultimately have "\<forall>y \<in> obj_config s' ` set ps'. nID y \<noteq> nID x" unfolding P(5) by blast
  then have "FTE_OBJ_get E (nID x) s' = Some (NULL, s')" by (rule get_unregistered [OF P(2,3)])
  moreover have "find_slot (\<lambda>y. nID y \<noteq> 0 \<and> nID y = nID x) 0 (objects c') = Some ?l"
  proof (rule find_slot_first)
    show "\<forall>i < ?l. \<not> (nID (objects c' ! i) \<noteq> 0 \<and> nID (objects c' ! i) = nID x)"
    proof (intro allI impI)
      fix i assume "i < ?l"
      then show "\<not> (nID (objects c' ! i) \<noteq> 0 \<and> nID (objects c' ! i) = nID x)"
        using new [of i] lj(1) o'(1) by (cases "i = j") (simp_all add: object_zero_def)
    qed
  qed (use l o' assms(12) in simp_all)
  then have "FTE_CFG_OBJ_get (nID x) (cfg s') = Some ?l"
    using o' d(1) n' assms(3,8) P(4) by (auto simp: FTE_CFG_OBJ_get_def)
  moreover have "objects (cfg s') ! ?l = x" using o' l assms(8,12) P(4) by simp
  ultimately show ?thesis using P(1) by blast
qed

lemma FTE_PLATFORM_loses_last_witness:
  "\<exists>x r c' s' i. FTE_CFG_OBJ_free (nID (objects two_inputs ! 0)) two_inputs = (r, c') \<and> x = objects two_inputs ! (unat (object_count two_inputs) - 1)
     \<and> create_objects reg_env 0 (boot_demo c') = Some s' \<and> FTE_CFG_OBJ_get (nID x) (cfg s') = Some i
     \<and> FTE_OBJ_get reg_env (nID x) s' = Some (NULL, s')"
proof -
  obtain r c' where free: "FTE_CFG_OBJ_free (nID (objects two_inputs ! 0)) two_inputs = (r, c')" by fastforce
  have "Suc 0 < unat (object_count two_inputs)" "\<forall>i < unat (object_count two_inputs). nID (objects two_inputs ! i) \<noteq> 0"
    "unat (object_count two_inputs) * (6 + 0) \<le> room (boot_demo c')"
    using two_inputs_first by (simp_all add: two_inputs_pool(2) boot_demo_ok(3))
  from FTE_PLATFORM_loses_last [OF two_inputs_ok this(2,1) free boot_demo_ok(1) option.discI [OF refl] boot_demo_ok(2,4)
      two_inputs_drivers this(3) two_inputs_fresh refl] free show ?thesis by blast
qed

end
