(* ===== verification/FTE_ModbusGen.thy ===== *)
theory FTE_ModbusGen
  imports FTE_Modbus FTE_ObjectReg
begin

unbundle bit_operations_syntax

text \<open>
  The general slave model of \<^verbatim>\<open>target/source/protocol/modbus/fte_modbus_gen.c\<close> and the
  registers of \<^verbatim>\<open>fte_modbus_registers.c\<close>: register \<open>1000 * class + i\<close> is the value of the
  object number \<open>i\<close> of the class, and the registers below 1000 are counters and controls.

  The state is the system of the objects with the slave's own fields, the numbers
  \<^verbatim>\<open>RTCS_rand\<close> is going to return and the count of the resets asked for.  A store through a
  wild pointer does not return.
\<close>

section \<open>State\<close>

record modbus_slave =
  usResetKey :: u16
  ulRxPkt :: u32
  ulRxError :: u32
  ulTxPkt :: u32

record 'd gen_state =
  slave :: modbus_slave
  target :: "'d sys"
  rands :: "u32 list"
  resets :: nat

definition RTCS_rand :: "'d gen_state \<Rightarrow> u32 \<times> 'd gen_state" where
  "RTCS_rand g = (case rands g of [] \<Rightarrow> (0, g) | r # rs \<Rightarrow> (r, g\<lparr>rands := rs\<rparr>))"

definition FTE_SYS_reset :: "'d gen_state \<Rightarrow> 'd gen_state" where
  "FTE_SYS_reset g = g\<lparr>resets := Suc (resets g)\<rparr>"

section \<open>The sensor registers\<close>

abbreviation FTE_OBJ_CLASS_TEMPERATURE :: u32 where "FTE_OBJ_CLASS_TEMPERATURE \<equiv> 0x01000000"
abbreviation FTE_OBJ_CLASS_HUMIDITY :: u32 where "FTE_OBJ_CLASS_HUMIDITY \<equiv> 0x02000000"
abbreviation FTE_OBJ_CLASS_VOLTAGE :: u32 where "FTE_OBJ_CLASS_VOLTAGE \<equiv> 0x03000000"
abbreviation FTE_OBJ_CLASS_CURRENT :: u32 where "FTE_OBJ_CLASS_CURRENT \<equiv> 0x04000000"
abbreviation FTE_OBJ_CLASS_DI :: u32 where "FTE_OBJ_CLASS_DI \<equiv> 0x05000000"
abbreviation FTE_OBJ_CLASS_DO :: u32 where "FTE_OBJ_CLASS_DO \<equiv> 0x06000000"
abbreviation FTE_OBJ_CLASS_GAS :: u32 where "FTE_OBJ_CLASS_GAS \<equiv> 0x07000000"
abbreviation FTE_OBJ_CLASS_POWER :: u32 where "FTE_OBJ_CLASS_POWER \<equiv> 0x08000000"
abbreviation FTE_OBJ_CLASS_SRF :: u32 where "FTE_OBJ_CLASS_SRF \<equiv> 0x09000000"
abbreviation FTE_OBJ_CLASS_AI :: u32 where "FTE_OBJ_CLASS_AI \<equiv> 0x0a000000"
abbreviation FTE_OBJ_CLASS_COUNT :: u32 where "FTE_OBJ_CLASS_COUNT \<equiv> 0x0b000000"
abbreviation FTE_OBJ_CLASS_PRESSURE :: u32 where "FTE_OBJ_CLASS_PRESSURE \<equiv> 0x0c000000"
abbreviation FTE_OBJ_CLASS_DISCRETE :: u32 where "FTE_OBJ_CLASS_DISCRETE \<equiv> 0x0d000000"
abbreviation FTE_OBJ_CLASS_TEMP_CTRL :: u32 where "FTE_OBJ_CLASS_TEMP_CTRL \<equiv> 0x40000000"

text \<open>A reader: the code, the register's content and the state.\<close>

type_synonym 'd reg_result = "(fte_ret \<times> u16 \<times> 'd gen_state) option"

definition read_class_count :: "u32 \<Rightarrow> 'd sys obj_env \<Rightarrow> 'd gen_state \<Rightarrow> 'd reg_result" where
  "read_class_count cls E g = do {
     (n, s) \<leftarrow> FTE_OBJ_count E cls FTE_OBJ_CLASS_MASK False (target g);
     Some (FTE_RET_OK, ucast n, g\<lparr>target := s\<rparr>)
   }"

definition FTE_MODBUS_SLAVE_GEN_readTemperatureCount :: "'d sys obj_env \<Rightarrow> 'd gen_state \<Rightarrow> 'd reg_result" where
  "FTE_MODBUS_SLAVE_GEN_readTemperatureCount = read_class_count FTE_OBJ_CLASS_TEMPERATURE"

definition FTE_MODBUS_SLAVE_GEN_readHumidityCount :: "'d sys obj_env \<Rightarrow> 'd gen_state \<Rightarrow> 'd reg_result" where
  "FTE_MODBUS_SLAVE_GEN_readHumidityCount = read_class_count FTE_OBJ_CLASS_HUMIDITY"

definition FTE_MODBUS_SLAVE_GEN_readVoltageCount :: "'d sys obj_env \<Rightarrow> 'd gen_state \<Rightarrow> 'd reg_result" where
  "FTE_MODBUS_SLAVE_GEN_readVoltageCount = read_class_count FTE_OBJ_CLASS_VOLTAGE"

definition FTE_MODBUS_SLAVE_GEN_readCurrentCount :: "'d sys obj_env \<Rightarrow> 'd gen_state \<Rightarrow> 'd reg_result" where
  "FTE_MODBUS_SLAVE_GEN_readCurrentCount = read_class_count FTE_OBJ_CLASS_CURRENT"

definition FTE_MODBUS_SLAVE_GEN_readDICount :: "'d sys obj_env \<Rightarrow> 'd gen_state \<Rightarrow> 'd reg_result" where
  "FTE_MODBUS_SLAVE_GEN_readDICount = read_class_count FTE_OBJ_CLASS_DI"

definition FTE_MODBUS_SLAVE_GEN_readDOCount :: "'d sys obj_env \<Rightarrow> 'd gen_state \<Rightarrow> 'd reg_result" where
  "FTE_MODBUS_SLAVE_GEN_readDOCount = read_class_count FTE_OBJ_CLASS_DO"

definition FTE_MODBUS_SLAVE_GEN_readGASCount :: "'d sys obj_env \<Rightarrow> 'd gen_state \<Rightarrow> 'd reg_result" where
  "FTE_MODBUS_SLAVE_GEN_readGASCount = read_class_count FTE_OBJ_CLASS_GAS"

definition FTE_MODBUS_SLAVE_GEN_readPowerCount :: "'d sys obj_env \<Rightarrow> 'd gen_state \<Rightarrow> 'd reg_result" where
  "FTE_MODBUS_SLAVE_GEN_readPowerCount = read_class_count FTE_OBJ_CLASS_POWER"

definition FTE_MODBUS_SLAVE_GEN_readSRFCount :: "'d sys obj_env \<Rightarrow> 'd gen_state \<Rightarrow> 'd reg_result" where
  "FTE_MODBUS_SLAVE_GEN_readSRFCount = read_class_count FTE_OBJ_CLASS_SRF"

definition FTE_MODBUS_SLAVE_GEN_readAICount :: "'d sys obj_env \<Rightarrow> 'd gen_state \<Rightarrow> 'd reg_result" where
  "FTE_MODBUS_SLAVE_GEN_readAICount = read_class_count FTE_OBJ_CLASS_AI"

definition FTE_MODBUS_SLAVE_GEN_readCounterCount :: "'d sys obj_env \<Rightarrow> 'd gen_state \<Rightarrow> 'd reg_result" where
  "FTE_MODBUS_SLAVE_GEN_readCounterCount = read_class_count FTE_OBJ_CLASS_COUNT"

definition FTE_MODBUS_SLAVE_GEN_readPressureCount :: "'d sys obj_env \<Rightarrow> 'd gen_state \<Rightarrow> 'd reg_result" where
  "FTE_MODBUS_SLAVE_GEN_readPressureCount = read_class_count FTE_OBJ_CLASS_PRESSURE"

definition FTE_MODBUS_SLAVE_GEN_readDiscreteCount :: "'d sys obj_env \<Rightarrow> 'd gen_state \<Rightarrow> 'd reg_result" where
  "FTE_MODBUS_SLAVE_GEN_readDiscreteCount = read_class_count FTE_OBJ_CLASS_DISCRETE"

definition FTE_MODBUS_SLAVE_GEN_readTempCtrlCount :: "'d sys obj_env \<Rightarrow> 'd gen_state \<Rightarrow> 'd reg_result" where
  "FTE_MODBUS_SLAVE_GEN_readTempCtrlCount = read_class_count FTE_OBJ_CLASS_TEMP_CTRL"

section \<open>The system and statistics registers\<close>

definition FTE_MODBUS_SLAVE_GEN_readReset :: "'d gen_state \<Rightarrow> 'd reg_result" where
  "FTE_MODBUS_SLAVE_GEN_readReset g =
     (let (r, g) = RTCS_rand g; key = ucast (r AND 0xFFFF)
      in Some (FTE_RET_OK, key, g\<lparr>slave := (slave g)\<lparr>usResetKey := key\<rparr>\<rparr>))"

definition FTE_MODBUS_SLAVE_GEN_writeReset :: "u16 \<Rightarrow> 'd gen_state \<Rightarrow> fte_ret \<times> 'd gen_state" where
  "FTE_MODBUS_SLAVE_GEN_writeReset usValue g =
     (if usValue \<noteq> 0 \<and> usValue = usResetKey (slave g) then (FTE_RET_OK, FTE_SYS_reset g)
      else let (r, g) = RTCS_rand g
        in (FTE_RET_OK, g\<lparr>slave := (slave g)\<lparr>usResetKey := ucast (r AND 0xFFFF)\<rparr>\<rparr>))"

definition FTE_MODBUS_SLAVE_GEN_readRxCountLo :: "'d gen_state \<Rightarrow> 'd reg_result" where
  "FTE_MODBUS_SLAVE_GEN_readRxCountLo g = Some (FTE_RET_OK, ucast (ulRxPkt (slave g) mod 10000), g)"

definition FTE_MODBUS_SLAVE_GEN_writeRxCountLo :: "u16 \<Rightarrow> 'd gen_state \<Rightarrow> fte_ret \<times> 'd gen_state" where
  "FTE_MODBUS_SLAVE_GEN_writeRxCountLo usValue g =
     (if usValue \<noteq> 0 then (FTE_RET_MODBUS_INVALID_DATA, g)
      else (FTE_RET_OK, g\<lparr>slave := (slave g)\<lparr>ulRxPkt := 0\<rparr>\<rparr>))"

definition FTE_MODBUS_SLAVE_GEN_readRxCountHi :: "'d gen_state \<Rightarrow> 'd reg_result" where
  "FTE_MODBUS_SLAVE_GEN_readRxCountHi g = Some (FTE_RET_OK, ucast (ulRxPkt (slave g) div 10000), g)"

definition FTE_MODBUS_SLAVE_GEN_writeRxCountHi :: "u16 \<Rightarrow> 'd gen_state \<Rightarrow> fte_ret \<times> 'd gen_state" where
  "FTE_MODBUS_SLAVE_GEN_writeRxCountHi usValue g =
     (if usValue \<noteq> 0 then (FTE_RET_MODBUS_INVALID_DATA, g)
      else (FTE_RET_OK, g\<lparr>slave := (slave g)\<lparr>ulRxPkt := 0\<rparr>\<rparr>))"

definition FTE_MODBUS_SLAVE_GEN_readTxCountLo :: "'d gen_state \<Rightarrow> 'd reg_result" where
  "FTE_MODBUS_SLAVE_GEN_readTxCountLo g = Some (FTE_RET_OK, ucast (ulTxPkt (slave g) mod 10000), g)"

definition FTE_MODBUS_SLAVE_GEN_writeTxCountLo :: "u16 \<Rightarrow> 'd gen_state \<Rightarrow> fte_ret \<times> 'd gen_state" where
  "FTE_MODBUS_SLAVE_GEN_writeTxCountLo usValue g =
     (if usValue \<noteq> 0 then (FTE_RET_MODBUS_INVALID_DATA, g)
      else (FTE_RET_OK, g\<lparr>slave := (slave g)\<lparr>ulTxPkt := 0\<rparr>\<rparr>))"

definition FTE_MODBUS_SLAVE_GEN_readTxCountHi :: "'d gen_state \<Rightarrow> 'd reg_result" where
  "FTE_MODBUS_SLAVE_GEN_readTxCountHi g = Some (FTE_RET_OK, ucast (ulTxPkt (slave g) div 10000), g)"

definition FTE_MODBUS_SLAVE_GEN_writeTxCountHi :: "u16 \<Rightarrow> 'd gen_state \<Rightarrow> fte_ret \<times> 'd gen_state" where
  "FTE_MODBUS_SLAVE_GEN_writeTxCountHi usValue g =
     (if usValue \<noteq> 0 then (FTE_RET_MODBUS_INVALID_DATA, g)
      else (FTE_RET_OK, g\<lparr>slave := (slave g)\<lparr>ulTxPkt := 0\<rparr>\<rparr>))"

definition FTE_MODBUS_SLAVE_GEN_readErrorCountLo :: "'d gen_state \<Rightarrow> 'd reg_result" where
  "FTE_MODBUS_SLAVE_GEN_readErrorCountLo g = Some (FTE_RET_OK, ucast (ulRxError (slave g) mod 10000), g)"

definition FTE_MODBUS_SLAVE_GEN_writeErrorCountLo :: "u16 \<Rightarrow> 'd gen_state \<Rightarrow> fte_ret \<times> 'd gen_state" where
  "FTE_MODBUS_SLAVE_GEN_writeErrorCountLo usValue g =
     (if usValue \<noteq> 0 then (FTE_RET_MODBUS_INVALID_DATA, g)
      else (FTE_RET_OK, g\<lparr>slave := (slave g)\<lparr>ulRxError := 0\<rparr>\<rparr>))"

definition FTE_MODBUS_SLAVE_GEN_readErrorCountHi :: "'d gen_state \<Rightarrow> 'd reg_result" where
  "FTE_MODBUS_SLAVE_GEN_readErrorCountHi g = Some (FTE_RET_OK, ucast (ulRxError (slave g) div 10000), g)"

definition FTE_MODBUS_SLAVE_GEN_writeErrorCountHi :: "u16 \<Rightarrow> 'd gen_state \<Rightarrow> fte_ret \<times> 'd gen_state" where
  "FTE_MODBUS_SLAVE_GEN_writeErrorCountHi usValue g =
     (if usValue \<noteq> 0 then (FTE_RET_MODBUS_INVALID_DATA, g)
      else (FTE_RET_OK, g\<lparr>slave := (slave g)\<lparr>ulRxError := 0\<rparr>\<rparr>))"

section \<open>The tables\<close>

record 'g reg_cb =
  fRead :: "('g \<Rightarrow> (fte_ret \<times> u16 \<times> 'g) option) option"
  fWrite :: "(u16 \<Rightarrow> 'g \<Rightarrow> fte_ret \<times> 'g) option"

abbreviation reg_none :: "'g reg_cb" where "reg_none \<equiv> \<lparr>fRead = None, fWrite = None\<rparr>"
abbreviation reg_ro :: "('g \<Rightarrow> (fte_ret \<times> u16 \<times> 'g) option) \<Rightarrow> 'g reg_cb" where
  "reg_ro f \<equiv> \<lparr>fRead = Some f, fWrite = None\<rparr>"
abbreviation reg_rw :: "('g \<Rightarrow> (fte_ret \<times> u16 \<times> 'g) option) \<Rightarrow> (u16 \<Rightarrow> 'g \<Rightarrow> fte_ret \<times> 'g) \<Rightarrow> 'g reg_cb" where
  "reg_rw f w \<equiv> \<lparr>fRead = Some f, fWrite = Some w\<rparr>"

definition pSensorRegisters :: "'d sys obj_env \<Rightarrow> 'd gen_state reg_cb list" where
  "pSensorRegisters E = [reg_none,
     reg_ro (FTE_MODBUS_SLAVE_GEN_readTemperatureCount E),
     reg_ro (FTE_MODBUS_SLAVE_GEN_readHumidityCount E),
     reg_ro (FTE_MODBUS_SLAVE_GEN_readVoltageCount E),
     reg_ro (FTE_MODBUS_SLAVE_GEN_readCurrentCount E),
     reg_ro (FTE_MODBUS_SLAVE_GEN_readDICount E),
     reg_ro (FTE_MODBUS_SLAVE_GEN_readDOCount E),
     reg_ro (FTE_MODBUS_SLAVE_GEN_readGASCount E),
     reg_ro (FTE_MODBUS_SLAVE_GEN_readPowerCount E),
     reg_ro (FTE_MODBUS_SLAVE_GEN_readSRFCount E),
     reg_ro (FTE_MODBUS_SLAVE_GEN_readAICount E),
     reg_ro (FTE_MODBUS_SLAVE_GEN_readCounterCount E),
     reg_ro (FTE_MODBUS_SLAVE_GEN_readPressureCount E),
     reg_ro (FTE_MODBUS_SLAVE_GEN_readDiscreteCount E),
     reg_ro (FTE_MODBUS_SLAVE_GEN_readTempCtrlCount E)]"

definition pSystemRegisters :: "'d gen_state reg_cb list" where
  "pSystemRegisters = [reg_none, reg_rw FTE_MODBUS_SLAVE_GEN_readReset FTE_MODBUS_SLAVE_GEN_writeReset]"

definition pStatisticsRegisters :: "'d gen_state reg_cb list" where
  "pStatisticsRegisters = [reg_none,
     reg_rw FTE_MODBUS_SLAVE_GEN_readRxCountLo FTE_MODBUS_SLAVE_GEN_writeRxCountLo,
     reg_rw FTE_MODBUS_SLAVE_GEN_readRxCountHi FTE_MODBUS_SLAVE_GEN_writeRxCountHi,
     reg_rw FTE_MODBUS_SLAVE_GEN_readTxCountLo FTE_MODBUS_SLAVE_GEN_writeTxCountLo,
     reg_rw FTE_MODBUS_SLAVE_GEN_readTxCountHi FTE_MODBUS_SLAVE_GEN_writeTxCountHi,
     reg_rw FTE_MODBUS_SLAVE_GEN_readErrorCountLo FTE_MODBUS_SLAVE_GEN_writeErrorCountLo,
     reg_rw FTE_MODBUS_SLAVE_GEN_readErrorCountHi FTE_MODBUS_SLAVE_GEN_writeErrorCountHi]"

abbreviation FTE_MODBUS_REG_SENSOR_BASE :: nat where "FTE_MODBUS_REG_SENSOR_BASE \<equiv> 0"
abbreviation FTE_MODBUS_REG_SYSTEM_BASE :: nat where "FTE_MODBUS_REG_SYSTEM_BASE \<equiv> 100"
abbreviation FTE_MODBUS_REG_STATISTICS_BASE :: nat where "FTE_MODBUS_REG_STATISTICS_BASE \<equiv> 200"
abbreviation FTE_MODBUS_REG_RESET :: nat where "FTE_MODBUS_REG_RESET \<equiv> 1"

text \<open>The table of a group, empty for a group the switch does not know.\<close>

definition reg_table :: "'d sys obj_env \<Rightarrow> nat \<Rightarrow> 'd gen_state reg_cb list" where
  "reg_table E nGroup =
     (if nGroup = FTE_MODBUS_REG_SYSTEM_BASE then pSystemRegisters
      else if nGroup = FTE_MODBUS_REG_SENSOR_BASE then pSensorRegisters E
      else if nGroup = FTE_MODBUS_REG_STATISTICS_BASE then pStatisticsRegisters
      else [])"

definition FTE_MODBUS_REG_read :: "'d sys obj_env \<Rightarrow> u16 \<Rightarrow> 'd gen_state \<Rightarrow> 'd reg_result" where
  "FTE_MODBUS_REG_read E usReg g =
     (let nGroup = unat usReg div 100; nIndex = unat usReg mod 100; tab = reg_table E nGroup
      in if nIndex < length tab
         then case fRead (tab ! nIndex) of
                Some f \<Rightarrow> f g
              | None \<Rightarrow> Some (FTE_RET_MODBUS_INVALID_ADDRESS, 0, g)
         else Some (FTE_RET_MODBUS_INVALID_ADDRESS, 0, g))"

definition FTE_MODBUS_REG_write :: "'d sys obj_env \<Rightarrow> u16 \<Rightarrow> u16 \<Rightarrow> 'd gen_state \<Rightarrow> fte_ret \<times> 'd gen_state" where
  "FTE_MODBUS_REG_write E usReg usValue g =
     (let nGroup = unat usReg div 100; nIndex = unat usReg mod 100; tab = reg_table E nGroup
      in if nIndex < length tab
         then case fWrite (tab ! nIndex) of
                Some f \<Rightarrow> f usValue g
              | None \<Rightarrow> (FTE_RET_MODBUS_INVALID_ADDRESS, g)
         else (FTE_RET_MODBUS_INVALID_ADDRESS, g))"

section \<open>The slave model\<close>

definition FTE_MODBUS_SLAVE_GEN_readCoils :: "u16 \<Rightarrow> u16 \<Rightarrow> u8 list \<Rightarrow> 'g \<Rightarrow> (fte_ret \<times> u8 list \<times> 'g) option" where
  "FTE_MODBUS_SLAVE_GEN_readCoils usAddress usQuantity pBuff g = Some (FTE_RET_OK, pBuff, g)"

definition FTE_MODBUS_SLAVE_GEN_readDiscreteInputs :: "u16 \<Rightarrow> u16 \<Rightarrow> u8 list \<Rightarrow> 'g \<Rightarrow> (fte_ret \<times> u8 list \<times> 'g) option" where
  "FTE_MODBUS_SLAVE_GEN_readDiscreteInputs usAddress usQuantity pBuff g = Some (FTE_RET_OK, pBuff, g)"

text \<open>\<^verbatim>\<open>FTE_OBJ_getAt\<close> in the state of the slave.\<close>

definition gen_object :: "'d sys obj_env \<Rightarrow> u32 \<Rightarrow> u32 \<Rightarrow> 'd gen_state \<Rightarrow> (addr \<times> 'd gen_state) option" where
  "gen_object E ulClass ulIdx g = do {
     (p, s) \<leftarrow> FTE_OBJ_getAt E ulClass FTE_OBJ_CLASS_MASK ulIdx False (target g);
     Some (p, g\<lparr>target := s\<rparr>)
   }"

text \<open>\<^verbatim>\<open>nValue\<close> after \<^verbatim>\<open>FTE_VALUE_toINT16(pObj->pStatus->pValue, &nValue)\<close>: it was 0.\<close>

definition gen_int16 :: "fte_object \<Rightarrow> u16 option" where
  "gen_int16 ob = do {
     v \<leftarrow> obj_value ob;
     Some (case snd (FTE_VALUE_toINT16 v) of Some n \<Rightarrow> n | None \<Rightarrow> 0)
   }"

text \<open>\<^verbatim>\<open>htons(*pValue, nValue)\<close> is the macro of the network stack that stores its second
  argument at the address its first one is: the store goes to the address that the old
  content of the register makes, and the call does not return.\<close>

definition FTE_MODBUS_SLAVE_GEN_readHoldingRegister ::
    "'d sys obj_env \<Rightarrow> u16 \<Rightarrow> u16 \<Rightarrow> 'd gen_state \<Rightarrow> 'd reg_result" where
  "FTE_MODBUS_SLAVE_GEN_readHoldingRegister E usAddress usOld g =
     (let ulGroup = ucast usAddress div 1000 :: u32; ulIdx = ucast usAddress mod 1000 :: u32
      in if ulGroup = 0 then FTE_MODBUS_REG_read E (ucast ulIdx) g
         else let ulClass = push_bit 24 ulGroup
           in if ulClass = FTE_OBJ_CLASS_DO then do {
                (pObj, g) \<leftarrow> gen_object E ulClass ulIdx g;
                if pObj = NULL then Some (FTE_RET_MODBUS_INVALID_ADDRESS, usOld, g)
                else do {
                  ob \<leftarrow> objs (target g) pObj;
                  nValue \<leftarrow> gen_int16 ob;
                  None
                }
              } else Some (FTE_RET_MODBUS_INVALID_ADDRESS, usOld, g))"

text \<open>The loops take the turn \<open>i\<close> and the number \<open>k\<close> of turns to go.\<close>

fun read_holding_loop :: "'d sys obj_env \<Rightarrow> u16 \<Rightarrow> nat \<Rightarrow> nat \<Rightarrow> u16 list \<Rightarrow> 'd gen_state \<Rightarrow> (u16 list \<times> 'd gen_state) option" where
  "read_holding_loop E usAddress i 0 regs g = Some (regs, g)"
| "read_holding_loop E usAddress i (Suc k) regs g = do {
     guard_opt (i < length regs);
     (_, v, g) \<leftarrow> FTE_MODBUS_SLAVE_GEN_readHoldingRegister E (usAddress + of_nat i) (regs ! i) g;
     read_holding_loop E usAddress (Suc i) k (regs[i := v]) g
   }"

definition FTE_MODBUS_SLAVE_GEN_readHoldingRegisters ::
    "'d sys obj_env \<Rightarrow> u16 \<Rightarrow> u16 \<Rightarrow> u16 list \<Rightarrow> 'd gen_state \<Rightarrow> (fte_ret \<times> u16 list \<times> 'd gen_state) option" where
  "FTE_MODBUS_SLAVE_GEN_readHoldingRegisters E usAddress usQuantity pRegisters g = do {
     (regs, g) \<leftarrow> read_holding_loop E usAddress 0 (unat usQuantity) pRegisters g;
     Some (FTE_RET_OK, regs, g)
   }"

definition FTE_MODBUS_SLAVE_GEN_writeSingleCoil :: "u16 \<Rightarrow> u16 \<Rightarrow> 'g \<Rightarrow> fte_ret \<times> 'g" where
  "FTE_MODBUS_SLAVE_GEN_writeSingleCoil usAddress usValue g =
     (if usValue \<noteq> 0 \<and> usValue \<noteq> 0xFF00 then (FTE_RET_MODBUS_INVALID_DATA, g) else (FTE_RET_OK, g))"

definition FTE_MODBUS_SLAVE_GEN_writeSingleRegister ::
    "'d sys obj_env \<Rightarrow> time_struct \<Rightarrow> u16 \<Rightarrow> u16 \<Rightarrow> 'd gen_state \<Rightarrow> (fte_ret \<times> 'd gen_state) option" where
  "FTE_MODBUS_SLAVE_GEN_writeSingleRegister E now usAddress usValue g =
     (let ulGroup = ucast usAddress div 1000 :: u32; ulIdx = ucast usAddress mod 1000 :: u32
      in if ulGroup = 0 then Some (FTE_MODBUS_REG_write E (ucast ulIdx) usValue g)
         else let ulClass = push_bit 24 ulGroup
           in if ulClass = FTE_OBJ_CLASS_DO then do {
                (pObj, g) \<leftarrow> gen_object E ulClass ulIdx g;
                if pObj = NULL then Some (FTE_RET_MODBUS_INVALID_ADDRESS, g)
                else do {
                  ob \<leftarrow> objs (target g) pObj;
                  v \<leftarrow> obj_value ob;
                  let (xRet, xValue) = FTE_VALUE_setULONG now (ucast usValue) (snd (FTE_VALUE_copy v v));
                  if xRet \<noteq> FTE_RET_OK then Some (FTE_RET_MODBUS_INVALID_DATA, g)
                  else do {
                    (xRet, s) \<leftarrow> FTE_OBJ_setValue E pObj xValue (target g);
                    let g = g\<lparr>target := s\<rparr>;
                    if xRet \<noteq> FTE_RET_OK then Some (FTE_RET_MODBUS_INVALID_DATA, g) else Some (FTE_RET_OK, g)
                  }
                }
              } else Some (FTE_RET_MODBUS_INVALID_ADDRESS, g))"

text \<open>The coils are read from the bytes that follow in the request.\<close>

fun write_coils_loop :: "u16 \<Rightarrow> nat \<Rightarrow> nat \<Rightarrow> u8 list \<Rightarrow> 'g \<Rightarrow> (fte_ret \<times> 'g) option" where
  "write_coils_loop usAddress i 0 pValues g = Some (FTE_RET_OK, g)"
| "write_coils_loop usAddress i (Suc k) pValues g = do {
     b \<leftarrow> byte_at pValues (i div 8);
     let (xRet, g) = FTE_MODBUS_SLAVE_GEN_writeSingleCoil (usAddress + of_nat i) (if bit b (i mod 8) then 0xFF00 else 0) g;
     if xRet \<noteq> FTE_RET_OK then Some (xRet, g) else write_coils_loop usAddress (Suc i) k pValues g
   }"

definition FTE_MODBUS_SLAVE_GEN_writeMultiCoils :: "u16 \<Rightarrow> u16 \<Rightarrow> u8 list \<Rightarrow> 'g \<Rightarrow> (fte_ret \<times> 'g) option" where
  "FTE_MODBUS_SLAVE_GEN_writeMultiCoils usAddress usQuantity pValues g = write_coils_loop usAddress 0 (unat usQuantity) pValues g"

fun write_registers_loop :: "'d sys obj_env \<Rightarrow> time_struct \<Rightarrow> u16 \<Rightarrow> nat \<Rightarrow> nat \<Rightarrow> u16 list \<Rightarrow> 'd gen_state \<Rightarrow> (fte_ret \<times> 'd gen_state) option" where
  "write_registers_loop E now usAddress i 0 pValues g = Some (FTE_RET_OK, g)"
| "write_registers_loop E now usAddress i (Suc k) pValues g = do {
     guard_opt (i < length pValues);
     (xRet, g) \<leftarrow> FTE_MODBUS_SLAVE_GEN_writeSingleRegister E now (usAddress + of_nat i) (pValues ! i) g;
     if xRet \<noteq> FTE_RET_OK then Some (xRet, g) else write_registers_loop E now usAddress (Suc i) k pValues g
   }"

definition FTE_MODBUS_SLAVE_GEN_writeMultiRegisters ::
    "'d sys obj_env \<Rightarrow> time_struct \<Rightarrow> u16 \<Rightarrow> u16 \<Rightarrow> u16 list \<Rightarrow> 'd gen_state \<Rightarrow> (fte_ret \<times> 'd gen_state) option" where
  "FTE_MODBUS_SLAVE_GEN_writeMultiRegisters E now usAddress usQuantity pValues g =
     write_registers_loop E now usAddress 0 (unat usQuantity) pValues g"

definition FTE_MODBUS_SLAVE_GEN_writeReadMultiRegisters ::
    "'d sys obj_env \<Rightarrow> time_struct \<Rightarrow> u16 \<Rightarrow> u16 \<Rightarrow> u16 list \<Rightarrow> u16 \<Rightarrow> u16 \<Rightarrow> u16 list \<Rightarrow> 'd gen_state
      \<Rightarrow> (fte_ret \<times> u16 list \<times> 'd gen_state) option" where
  "FTE_MODBUS_SLAVE_GEN_writeReadMultiRegisters E now usWriteAddress usWriteQuantity pWriteValues
       usReadAddress usReadQuantity pReadValues g = do {
     (xRet, g) \<leftarrow> FTE_MODBUS_SLAVE_GEN_writeMultiRegisters E now usWriteAddress usWriteQuantity pWriteValues g;
     if xRet \<noteq> FTE_RET_OK then Some (xRet, pReadValues, g)
     else FTE_MODBUS_SLAVE_GEN_readHoldingRegisters E usReadAddress usReadQuantity pReadValues g
   }"

text \<open>The identification objects from number \<open>k\<close> on, at most three of them.\<close>

definition ident_object :: "u8 \<Rightarrow> modbus_object" where
  "ident_object n =
     (let text = map (\<lambda>c. of_char c) (if n = 0 then ''FutureTek,Inc.'' else if n = 1 then ''fte series'' else ''v1.0'')
      in \<lparr>ucID = n, ucLen = (if n = 0 then 14 else if n = 1 then 9 else 4),
          pValue = take (if n = 0 then 14 else if n = 1 then 9 else 4) text\<rparr>)"

definition FTE_MODBUS_SLAVE_GEN_readDeviceIdent :: "u8 \<Rightarrow> u8 \<Rightarrow> u8 \<Rightarrow> 'g \<Rightarrow> (fte_ret \<times> modbus_ident \<times> 'g) option" where
  "FTE_MODBUS_SLAVE_GEN_readDeviceIdent ucMEIType ucDeviceIDCode ucObjectID g =
     (if ucMEIType \<noteq> 0x0E then Some (FTE_RET_MODBUS_INVALID_DATA, ident_none, g)
      else if 3 \<le> ucObjectID then Some (FTE_RET_MODBUS_INVALID_ADDRESS, ident_none, g)
      else if ucDeviceIDCode \<noteq> 0 then Some (FTE_RET_MODBUS_INVALID_DATA, ident_none, g)
      else Some (FTE_RET_OK, \<lparr>id_values = map (\<lambda>n. ident_object (of_nat n)) [unat ucObjectID..<3],
        id_count = 3 - ucObjectID, id_conformity = 0x81, id_more = 0, id_next = 0\<rparr>, g))"

definition FTE_MODBUS_SLAVE_GEN_readInputRegister ::
    "'d sys obj_env \<Rightarrow> u16 \<Rightarrow> u16 \<Rightarrow> 'd gen_state \<Rightarrow> 'd reg_result" where
  "FTE_MODBUS_SLAVE_GEN_readInputRegister E usAddress usOld g = do {
     (pObj, g) \<leftarrow> gen_object E (push_bit 24 (ucast usAddress div 1000)) (ucast usAddress mod 1000) g;
     if pObj = NULL then Some (FTE_RET_MODBUS_INVALID_ADDRESS, usOld, g)
     else do {
       ob \<leftarrow> objs (target g) pObj;
       nValue \<leftarrow> gen_int16 ob;
       Some (FTE_RET_OK, nValue, g)
     }
   }"

fun read_input_loop :: "'d sys obj_env \<Rightarrow> u16 \<Rightarrow> nat \<Rightarrow> nat \<Rightarrow> u16 list \<Rightarrow> 'd gen_state \<Rightarrow> (fte_ret \<times> u16 list \<times> 'd gen_state) option" where
  "read_input_loop E usAddress i 0 regs g = Some (FTE_RET_OK, regs, g)"
| "read_input_loop E usAddress i (Suc k) regs g = do {
     guard_opt (i < length regs);
     (xRet, v, g) \<leftarrow> FTE_MODBUS_SLAVE_GEN_readInputRegister E (usAddress + of_nat i) (regs ! i) g;
     if xRet \<noteq> FTE_RET_OK then Some (xRet, regs[i := v], g)
     else read_input_loop E usAddress (Suc i) k (regs[i := v]) g
   }"

definition FTE_MODBUS_SLAVE_GEN_readInputRegisters ::
    "'d sys obj_env \<Rightarrow> u16 \<Rightarrow> u16 \<Rightarrow> u16 list \<Rightarrow> 'd gen_state \<Rightarrow> (fte_ret \<times> u16 list \<times> 'd gen_state) option" where
  "FTE_MODBUS_SLAVE_GEN_readInputRegisters E usAddress usQuantity pValues g = read_input_loop E usAddress 0 (unat usQuantity) pValues g"

section \<open>The table of models\<close>

text \<open>A callback that does not return, as one of the slave's total callbacks: the state
  \<open>None\<close> is that of a device that has crashed.\<close>

definition rd :: "('a \<Rightarrow> 'b \<Rightarrow> 'v \<Rightarrow> 'g \<Rightarrow> (fte_ret \<times> 'v \<times> 'g) option) \<Rightarrow> 'a \<Rightarrow> 'b \<Rightarrow> 'v \<Rightarrow> 'g option \<Rightarrow> fte_ret \<times> 'v \<times> 'g option" where
  "rd f a q buf s = (case Option.bind s (f a q buf) of None \<Rightarrow> (FTE_RET_OK, buf, None) | Some (r, buf, g) \<Rightarrow> (r, buf, Some g))"

definition wr :: "('a \<Rightarrow> 'b \<Rightarrow> 'v \<Rightarrow> 'g \<Rightarrow> (fte_ret \<times> 'g) option) \<Rightarrow> 'a \<Rightarrow> 'b \<Rightarrow> 'v \<Rightarrow> 'g option \<Rightarrow> fte_ret \<times> 'g option" where
  "wr f a q vals s = (case Option.bind s (f a q vals) of None \<Rightarrow> (FTE_RET_OK, None) | Some (r, g) \<Rightarrow> (r, Some g))"

definition pModels_0 :: "'d sys obj_env \<Rightarrow> time_struct \<Rightarrow> 'd gen_state option modbus_model" where
  "pModels_0 E now = \<lparr>
     fReadCoils = Some (rd FTE_MODBUS_SLAVE_GEN_readCoils),
     fReadDiscreteInputs = Some (rd FTE_MODBUS_SLAVE_GEN_readDiscreteInputs),
     fReadHoldingRegisters = Some (rd (FTE_MODBUS_SLAVE_GEN_readHoldingRegisters E)),
     fReadInputRegisters = Some (rd (FTE_MODBUS_SLAVE_GEN_readInputRegisters E)),
     fWriteSingleCoil = None,
     fWriteSingleRegister = Some (\<lambda>a v. wr (\<lambda>a v (_ :: unit). FTE_MODBUS_SLAVE_GEN_writeSingleRegister E now a v) a v ()),
     fWriteMultiCoils = Some (wr FTE_MODBUS_SLAVE_GEN_writeMultiCoils),
     fWriteMultiRegisters = Some (wr (FTE_MODBUS_SLAVE_GEN_writeMultiRegisters E now)),
     fReadDeviceIdent = Some (\<lambda>mei code n s. case Option.bind s (FTE_MODBUS_SLAVE_GEN_readDeviceIdent mei code n) of
       None \<Rightarrow> (FTE_RET_OK, ident_none, None) | Some (r, d, g) \<Rightarrow> (r, d, Some g))\<rparr>"

abbreviation FTE_MODBUS_SLAVE_TYPE_GENERAL :: u32 where "FTE_MODBUS_SLAVE_TYPE_GENERAL \<equiv> 0"

definition FTE_MODBUS_SLAVE_getModel ::
    "'d sys obj_env \<Rightarrow> time_struct \<Rightarrow> u32 \<Rightarrow> fte_ret \<times> 'd gen_state option modbus_model option" where
  "FTE_MODBUS_SLAVE_getModel E now ty =
     (if ty = FTE_MODBUS_SLAVE_TYPE_GENERAL then (FTE_RET_OK, Some (pModels_0 E now))
      else (FTE_RET_OBJECT_NOT_FOUND, None))"

section \<open>Reading through the registry\<close>

lemma gen_state_same [simp]: "g\<lparr>target := target g\<rparr> = g"
  by (cases g) simp

lemma gen_object_registry:
  assumes "registry E (target g) F ps" "F \<noteq> None"
  shows "gen_object E cls n g = Some (let ms = matching cls FTE_OBJ_CLASS_MASK False (target g) ps in
    if unat n < length ms then ms ! unat n else NULL, g)"
  using OBJ_getAt_registry [OF assms, of cls FTE_OBJ_CLASS_MASK n False] by (simp add: gen_object_def Let_def)

lemma matching_object:
  assumes "registry E s F ps" "p \<in> set (matching ty m b s ps)"
  shows "p \<noteq> NULL \<and> (\<exists>ob. objs s p = Some ob)"
  using assms by (auto simp: registry_def matching_def pool_ok_def)

lemma unat_div_mod_1000:
  fixes a :: u16
  shows "unat (ucast a div 1000 :: u32) = unat a div 1000" "unat (ucast a mod 1000 :: u32) = unat a mod 1000"
  by (simp_all add: unat_div unat_mod)

text \<open>The register's value for an object.\<close>

definition register_value :: "fte_object \<Rightarrow> u16" where
  "register_value ob = (case snd (FTE_VALUE_toINT16 (hd (oValues ob))) of Some n \<Rightarrow> n | None \<Rightarrow> 0)"

lemma gen_int16_value: "oValues ob \<noteq> [] \<Longrightarrow> gen_int16 ob = Some (register_value ob)"
  by (cases "oValues ob") (simp_all add: gen_int16_def register_value_def obj_value_def)

lemma readInputRegister_ok:
  assumes "registry E (target g) F ps" "F \<noteq> None"
    and ms: "ms = matching (push_bit 24 (of_nat c)) FTE_OBJ_CLASS_MASK False (target g) ps"
    and "unat a = c * 1000 + n" "n < 1000" "n < length ms" "oValues (the (objs (target g) (ms ! n))) \<noteq> []"
  shows "FTE_MODBUS_SLAVE_GEN_readInputRegister E a old g
    = Some (FTE_RET_OK, register_value (the (objs (target g) (ms ! n))), g)"
proof -
  have "unat (ucast a div 1000 :: u32) = c" using assms(4,5) by (simp add: unat_div_mod_1000)
  then have c: "(ucast a div 1000 :: u32) = of_nat c" by auto
  have n: "unat (ucast a mod 1000 :: u32) = n" using assms(4,5) by (simp add: unat_div_mod_1000)
  have "ms ! n \<in> set ms" using assms(6) by simp
  then obtain ob where "ms ! n \<noteq> NULL" "objs (target g) (ms ! n) = Some ob"
    using matching_object [OF assms(1)] ms by blast
  then show ?thesis
    using gen_object_registry [OF assms(1,2), of "of_nat c * 0x1000000" "ucast a mod 1000"] c n assms(6,7) ms
    by (simp add: FTE_MODBUS_SLAVE_GEN_readInputRegister_def gen_object_registry [OF assms(1,2)] gen_int16_value Let_def)
qed

lemma read_input_loop_ok:
  assumes "registry E (target g) F ps" "F \<noteq> None"
    and "ms = matching (push_bit 24 (of_nat c)) FTE_OBJ_CLASS_MASK False (target g) ps"
    and "unat a = c * 1000 + n" "n + q \<le> 1000" "unat a + q \<le> 65536" "n + q \<le> length ms"
    and "\<forall>p \<in> set ms. oValues (the (objs (target g) p)) \<noteq> []"
    and "i + k = q" "length regs = q"
  shows "read_input_loop E a i k regs g
    = Some (FTE_RET_OK, take i regs @ map (\<lambda>p. register_value (the (objs (target g) p))) (take k (drop (n + i) ms)), g)"
  using assms(9,10)
proof (induction k arbitrary: i regs)
  case (Suc k)
  let ?v = "register_value (the (objs (target g) (ms ! (n + i))))"
  have iq: "i < q" using Suc.prems by simp
  have "i < 65536" using iq assms(6) by simp
  then have "unat (of_nat i :: u16) = i" by (intro unat_of_nat_small) simp
  then have a: "unat (a + of_nat i) = c * 1000 + (n + i)"
    using assms(4,6) iq by (subst unat_add_lem [THEN iffD1]) simp_all
  have l: "n + i < length ms" "n + i < 1000" using assms(5,7) iq by simp_all
  then have ov: "oValues (the (objs (target g) (ms ! (n + i)))) \<noteq> []" using assms(8) by simp
  have one: "FTE_MODBUS_SLAVE_GEN_readInputRegister E (a + of_nat i) (regs ! i) g = Some (FTE_RET_OK, ?v, g)"
    by (rule readInputRegister_ok [OF assms(1-3) a l(2,1) ov])
  have "take (Suc i) (regs[i := ?v]) = take i regs @ [?v]" using iq Suc.prems by (simp add: take_Suc_conv_app_nth)
  moreover have "take (Suc k) (drop (n + i) ms) = ms ! (n + i) # take k (drop (n + Suc i) ms)"
    using l(1) by (simp add: Cons_nth_drop_Suc [symmetric])
  ultimately show ?case using Suc.IH [of "Suc i" "regs[i := ?v]"] Suc.prems one iq by simp
qed simp

lemma word_of_unat: "unat w = n \<Longrightarrow> w = of_nat n" for w :: u32
  by auto

lemma ucast_of_nat16: "ucast (of_nat k :: u32) = (of_nat k :: u16)"
  by (rule bit_word_eqI) (simp add: bit_simps)

text \<open>The addresses below 1000.\<close>

lemma low_address:
  assumes "k < 1000"
  shows "unat (of_nat k :: u16) = k" "(ucast (of_nat k :: u16) div 1000 :: u32) = 0"
    "ucast (ucast (of_nat k :: u16) mod 1000 :: u32) = (of_nat k :: u16)"
proof -
  show u: "unat (of_nat k :: u16) = k" using assms by (intro unat_of_nat_small) simp
  have "unat (ucast (of_nat k :: u16) div 1000 :: u32) = 0" unfolding unat_div_mod_1000 u using assms by simp
  then show "(ucast (of_nat k :: u16) div 1000 :: u32) = 0" by (simp only: unsigned_eq_0_iff)
  have "unat (ucast (of_nat k :: u16) mod 1000 :: u32) = k" unfolding unat_div_mod_1000 u using assms by simp
  then have "(ucast (of_nat k :: u16) mod 1000 :: u32) = of_nat k" by (rule word_of_unat)
  then show "ucast (ucast (of_nat k :: u16) mod 1000 :: u32) = (of_nat k :: u16)" using ucast_of_nat16 [of k] by simp
qed

lemma sensors_read_only: "i < length (pSensorRegisters E) \<Longrightarrow> fWrite (pSensorRegisters E ! i) = None"
proof -
  have "\<forall>cb \<in> set (pSensorRegisters E). fWrite cb = None" by (simp add: pSensorRegisters_def)
  then show "i < length (pSensorRegisters E) \<Longrightarrow> fWrite (pSensorRegisters E ! i) = None" by simp
qed

text \<open>The slave's answer to a read of sensors, whatever follows the request in the buffer.\<close>

abbreviation class_objects :: "nat \<Rightarrow> 'd sys \<Rightarrow> addr list \<Rightarrow> addr list" where
  "class_objects c s ps \<equiv> filter (\<lambda>p. obj_matches (push_bit 24 (of_nat c)) FTE_OBJ_CLASS_MASK False (the (objs s p))) ps"

definition register_values :: "'d sys \<Rightarrow> addr list \<Rightarrow> u16 list" where
  "register_values s ps = map (\<lambda>p. register_value (the (objs s p))) ps"

lemma input_registers_served:
  assumes "registry E (target g) F ps" "F \<noteq> None" "ms = class_objects c (target g) ps"
    and "\<forall>p \<in> set ms. oValues (the (objs (target g) p)) \<noteq> []"
    and "1 \<le> q" "q \<le> 125" "i + unat q \<le> length ms" "i + unat q \<le> 1000" "c * 1000 + i + unat q \<le> 65536"
    and "2 + 2 * unat q \<le> unat m" "mem (2 * unat q)"
    and vs: "vs = register_values (target g) (take (unat q) (drop i ms))"
  shows "FTE_MODBUS_SLAVE_process (pModels_0 E now) mem (4 # be16_bytes (of_nat (c * 1000 + i)) @ be16_bytes q @ rest) 5 m (Some g)
      = Some (FTE_RET_OK, Some (4 # ucast (q * 2) # concat (map be16_bytes vs)), Some g)"
    and "be16s_at (4 # ucast (q * 2) # concat (map be16_bytes vs)) 2 (unat q) = Some vs" "length vs = unat q"
proof -
  let ?a = "of_nat (c * 1000 + i) :: u16"
  have "0 < unat q" using assms(5) by (simp add: word_le_nat_alt)
  then have "c * 1000 + i < 65536" using assms(9) by simp
  then have a: "unat ?a = c * 1000 + i" by (intro unat_of_nat_small) simp
  then have aq: "unat ?a + unat q \<le> 65536" using assms(9) by simp
  have ms: "ms = matching (push_bit 24 (of_nat c)) FTE_OBJ_CLASS_MASK False (target g) ps" by (simp add: assms(3) matching_def)
  have "FTE_MODBUS_SLAVE_GEN_readInputRegisters E ?a q (replicate (unat q) 0) g = Some (FTE_RET_OK, vs, g)"
    using read_input_loop_ok [OF assms(1,2) ms a assms(8) aq assms(7,4), of 0 "unat q" "replicate (unat q) 0"]
    by (simp add: FTE_MODBUS_SLAVE_GEN_readInputRegisters_def vs register_values_def)
  then have r: "rd (FTE_MODBUS_SLAVE_GEN_readInputRegisters E) ?a q (replicate (unat q) 0) (Some g) = (FTE_RET_OK, vs, Some g)"
    by (simp add: rd_def)
  have f: "fReadInputRegisters (pModels_0 E now) = Some (rd (FTE_MODBUS_SLAVE_GEN_readInputRegisters E))"
    by (simp add: pModels_0_def)
  show l: "length vs = unat q" using assms(7) vs by (simp add: register_values_def)
  show "FTE_MODBUS_SLAVE_process (pModels_0 E now) mem (4 # be16_bytes ?a @ be16_bytes q @ rest) 5 m (Some g)
      = Some (FTE_RET_OK, Some (4 # ucast (q * 2) # concat (map be16_bytes vs)), Some g)"
    by (rule input_registers_reply(1) [where mem = mem, OF assms(5,6,10,11) f r l])
  show "be16s_at (4 # ucast (q * 2) # concat (map be16_bytes vs)) 2 (unat q) = Some vs"
    by (rule input_registers_reply(2) [where mem = mem, OF assms(5,6,10,11) f r l])
qed

section \<open>A sample slave\<close>

definition gen_demo :: "unit gen_state" where
  "gen_demo = \<lparr>slave = \<lparr>usResetKey = 0, ulRxPkt = 0, ulRxError = 0, ulTxPkt = 0\<rparr>, target = reg_demo, rands = [], resets = 0\<rparr>"

lemma gen_demo_registry: "registry reg_env (target gen_demo) reg_foot [0x1000, 0x2000]"
  using reg_demo_ok by (simp add: gen_demo_def)

lemma gen_demo_objects: "class_objects 6 (target gen_demo) [0x1000, 0x2000] = [0x2000]"
  by (simp add: obj_matches_def gen_demo_def reg_demo_def reg_object_def)

lemma gen_demo_values: "oValues (the (objs (target gen_demo) 0x2000)) \<noteq> []"
  by (simp add: gen_demo_def reg_demo_def reg_object_def)

section \<open>Properties\<close>

text \<open>C17: The sensors are served over MODBUS: a READ INPUT REGISTERS request for \<open>q\<close> registers from
  \<open>1000 * c + i\<close> on is answered with the 16-bit values of the objects \<open>i\<close> to \<open>i + q - 1\<close> of the class
  \<open>c\<close>, in the order of the registry, high byte first; nothing changes.\<close>

theorem FTE_MODBUS_input_registers_served:
  assumes "registry E (target g) F ps" "F \<noteq> None"
    and "ms = filter (\<lambda>p. obj_matches (push_bit 24 (of_nat c)) FTE_OBJ_CLASS_MASK False (the (objs (target g) p))) ps"
    and "\<forall>p \<in> set ms. oValues (the (objs (target g) p)) \<noteq> []"
    and "1 \<le> q" "q \<le> 125" "i + unat q \<le> length ms" "i + unat q \<le> 1000" "c * 1000 + i + unat q \<le> 65536"
    and "2 + 2 * unat q \<le> unat m" "mem (2 * unat q)"
  shows "\<exists>rep. FTE_MODBUS_SLAVE_process (pModels_0 E now) mem (4 # be16_bytes (of_nat (c * 1000 + i)) @ be16_bytes q) 5 m (Some g)
      = Some (FTE_RET_OK, Some rep, Some g)
    \<and> be16s_at rep 2 (unat q) = Some (map (\<lambda>p. register_value (the (objs (target g) p))) (take (unat q) (drop i ms)))
    \<and> length rep = 2 + 2 * unat q"
proof -
  define vs where "vs = register_values (target g) (take (unat q) (drop i ms))"
  have e: "map (\<lambda>p. register_value (the (objs (target g) p))) (take (unat q) (drop i ms)) = vs"
    by (simp add: vs_def register_values_def)
  show ?thesis unfolding e
    using input_registers_served(1) [where mem = mem and now = now and rest = "[]", OF assms vs_def]
      input_registers_served(2,3) [where mem = mem, OF assms vs_def]
    by (intro exI [of _ "4 # ucast (q * 2) # concat (map be16_bytes vs)"]) simp
qed

theorem FTE_MODBUS_input_registers_served_witness:
  "\<exists>rep. FTE_MODBUS_SLAVE_process (pModels_0 reg_env \<lparr>SECONDS = 0, MILLISECONDS = 0\<rparr>) (\<lambda>_. True) (4 # be16_bytes (of_nat (6 * 1000 + 0)) @ be16_bytes 1) 5 260 (Some gen_demo)
      = Some (FTE_RET_OK, Some rep, Some gen_demo)
    \<and> be16s_at rep 2 (unat (1 :: u16)) = Some (map (\<lambda>p. register_value (the (objs (target gen_demo) p))) (take (unat (1 :: u16)) (drop 0 [0x2000])))
    \<and> length rep = 2 + 2 * unat (1 :: u16)"
  by (rule FTE_MODBUS_input_registers_served [OF gen_demo_registry option.discI [OF refl] gen_demo_objects [symmetric]])
    (simp_all add: gen_demo_values)

text \<open>The registers above the sensor counts cannot be reached: the bases of the groups are
  compared with the group's number, a hundredth of them.  Every read from 15 to 999, where the
  reset and the statistics registers are, and every write below 1000 answer an invalid address.\<close>

lemma FTE_MODBUS_REG_unreachable:
  "FTE_MODBUS_SLAVE_GEN_readHoldingRegister E (of_nat (15 + n mod 985)) old g = Some (FTE_RET_MODBUS_INVALID_ADDRESS, 0, g)
   \<and> FTE_MODBUS_SLAVE_GEN_writeSingleRegister E now (of_nat (n mod 1000)) v g = Some (FTE_RET_MODBUS_INVALID_ADDRESS, g)"
proof
  let ?k = "15 + n mod 985"
  have k: "?k < 1000" by simp
  have "reg_table E (?k div 100) = (if ?k < 100 then pSensorRegisters E else [])"
    using k by (simp add: reg_table_def div_eq_0_iff)
  then have "\<not> ?k mod 100 < length (reg_table E (?k div 100))"
    by (simp add: pSensorRegisters_def)
  then show "FTE_MODBUS_SLAVE_GEN_readHoldingRegister E (of_nat ?k) old g = Some (FTE_RET_MODBUS_INVALID_ADDRESS, 0, g)"
    using low_address [OF k] by (simp add: FTE_MODBUS_SLAVE_GEN_readHoldingRegister_def FTE_MODBUS_REG_read_def Let_def)
next
  have k: "n mod 1000 < 1000" by simp
  have "reg_table E (n mod 1000 div 100) = (if n mod 1000 < 100 then pSensorRegisters E else [])"
    using k by (simp add: reg_table_def div_eq_0_iff)
  then have "FTE_MODBUS_REG_write E (of_nat (n mod 1000)) v g = (FTE_RET_MODBUS_INVALID_ADDRESS, g)"
    using low_address(1) [OF k] sensors_read_only [of "n mod 1000 mod 100" E]
    by (simp add: FTE_MODBUS_REG_write_def Let_def split: if_splits)
  then show "FTE_MODBUS_SLAVE_GEN_writeSingleRegister E now (of_nat (n mod 1000)) v g = Some (FTE_RET_MODBUS_INVALID_ADDRESS, g)"
    using low_address [OF k] by (simp add: FTE_MODBUS_SLAVE_GEN_writeSingleRegister_def Let_def)
qed

text \<open>A holding register that stands for an existing output is never read: the value is
  stored through the address that the old content of the register makes.\<close>

lemma FTE_MODBUS_holding_register_faults:
  assumes "registry E (target g) F ps" "F \<noteq> None"
    and "ms = filter (\<lambda>p. obj_matches FTE_OBJ_CLASS_DO FTE_OBJ_CLASS_MASK False (the (objs (target g) p))) ps"
    and "n < 1000" "n < length ms"
  shows "FTE_MODBUS_SLAVE_GEN_readHoldingRegister E (of_nat (6000 + n)) old g = None"
proof -
  have a: "unat (of_nat (6000 + n) :: u16) = 6000 + n" using assms(4) by (intro unat_of_nat_small) simp
  have "unat (ucast (of_nat (6000 + n) :: u16) div 1000 :: u32) = 6"
    unfolding unat_div_mod_1000 a using assms(4) by simp
  then have "(ucast (of_nat (6000 + n) :: u16) div 1000 :: u32) = of_nat 6" by (rule word_of_unat)
  moreover have "unat (ucast (of_nat (6000 + n) :: u16) mod 1000 :: u32) = n"
    unfolding unat_div_mod_1000 a using assms(4) mod_mult_self1 [of n 6 1000] by (simp add: add.commute)
  moreover have "ms ! n \<noteq> NULL"
  proof -
    have "ms = matching FTE_OBJ_CLASS_DO FTE_OBJ_CLASS_MASK False (target g) ps" by (simp add: assms(3) matching_def)
    then show ?thesis using matching_object [OF assms(1)] assms(5) nth_mem by metis
  qed
  moreover have "gen_object E FTE_OBJ_CLASS_DO i g = Some (if unat i < length ms then ms ! unat i else NULL, g)" for i
    using gen_object_registry [OF assms(1,2)] assms(3) by (simp add: matching_def Let_def)
  ultimately show ?thesis using assms(5)
    by (simp add: FTE_MODBUS_SLAVE_GEN_readHoldingRegister_def Let_def opt_simps)
qed

lemma FTE_MODBUS_holding_register_faults_witness:
  "FTE_MODBUS_SLAVE_GEN_readHoldingRegister reg_env (of_nat (6000 + 0)) 0 gen_demo = None"
  by (rule FTE_MODBUS_holding_register_faults [OF gen_demo_registry option.discI [OF refl], of "[0x2000]"])
    (simp_all add: obj_matches_def gen_demo_def reg_demo_def reg_object_def)

end
