(* ===== verification/FTE_MbTcp.thy ===== *)
theory FTE_MbTcp
  imports FTE_ModbusGen
begin

unbundle bit_operations_syntax

text \<open>
  The session of the MODBUS/TCP server, \<^verbatim>\<open>target/source/net/mbtcp/fte_mbtcp_slave.c\<close>: it takes
  frames from a socket, gives their PDU to the slave and sends the replies.

  The socket is the sequence of what the calls of \<^verbatim>\<open>recv\<close> are going to find: bytes (none, when
  nothing has arrived), or an error, and of the calls of \<^verbatim>\<open>send\<close> that fail.  A session that
  has used up the sequence is waiting.  The times kept for the shell are left out.
\<close>

section \<open>State\<close>

abbreviation FTE_MODBUS_PDU_LEN :: nat where "FTE_MODBUS_PDU_LEN \<equiv> 253"
abbreviation FTE_MBTCP_FRAME_OFFSET_PID :: nat where "FTE_MBTCP_FRAME_OFFSET_PID \<equiv> 2"
abbreviation FTE_MBTCP_FRAME_OFFSET_LEN :: nat where "FTE_MBTCP_FRAME_OFFSET_LEN \<equiv> 4"
abbreviation FTE_MBTCP_FRAME_OFFSET_UID :: nat where "FTE_MBTCP_FRAME_OFFSET_UID \<equiv> 6"
abbreviation FTE_MBTCP_FRAME_OFFSET_PDU :: nat where "FTE_MBTCP_FRAME_OFFSET_PDU \<equiv> 7"
abbreviation FTE_MBTCP_PROTOCOL_ID :: u16 where "FTE_MBTCP_PROTOCOL_ID \<equiv> 0"
abbreviation FTE_RET_SOCKET_CLOSED :: fte_ret where "FTE_RET_SOCKET_CLOSED \<equiv> 0x92"
abbreviation FTE_RET_INVALID_MSG_FRAME :: fte_ret where "FTE_RET_INVALID_MSG_FRAME \<equiv> 0x90"

datatype recv_event = RecvError | RecvData "u8 list"

text \<open>\<open>pReqPDU\<close> is the array of the task's stack that is passed to the slave: it is not cleared
  between requests.\<close>

record 'd mb_session =
  pBuff :: "u8 list"
  pReqPDU :: "u8 list"
  mbslave :: "'d gen_state"
  sent :: "u8 list list"
  send_fails :: "bool list"

text \<open>\<^verbatim>\<open>memcpy(&buf[n], bs, len)\<close>.\<close>

definition store_at :: "nat \<Rightarrow> u8 list \<Rightarrow> u8 list \<Rightarrow> u8 list" where
  "store_at n bs buf = take n buf @ bs @ drop (n + length bs) buf"

section \<open>Receiving and sending\<close>

text \<open>The checks on a frame of \<open>nRcvdLen\<close> bytes in the session's buffer.\<close>

definition check_frame :: "u8 list \<Rightarrow> nat \<Rightarrow> nat \<Rightarrow> fte_ret \<times> u8 list option" where
  "check_frame buf nRcvdLen ulBuffSize =
     (if nRcvdLen < 12 \<or> FTE_MODBUS_PDU_LEN + 12 < nRcvdLen then (FTE_RET_INVALID_MSG, None)
      else let usLen = unat (be16 (buf ! FTE_MBTCP_FRAME_OFFSET_LEN) (buf ! (FTE_MBTCP_FRAME_OFFSET_LEN + 1)))
        in if usLen + 6 \<noteq> nRcvdLen then (FTE_RET_INVALID_MSG, None)
           else let usPID = be16 (buf ! FTE_MBTCP_FRAME_OFFSET_PID) (buf ! (FTE_MBTCP_FRAME_OFFSET_PID + 1))
             in if usPID \<noteq> FTE_MBTCP_PROTOCOL_ID then (FTE_RET_INVALID_MSG, None)
                else if buf ! FTE_MBTCP_FRAME_OFFSET_UID \<noteq> 0 then (FTE_RET_MODBUS_INVALID_ADDRESS, None)
                else if ulBuffSize < usLen then (FTE_RET_INVALID_MSG, None)
                else (FTE_RET_OK, Some (take (usLen - 1) (drop FTE_MBTCP_FRAME_OFFSET_PDU buf))))"

text \<open>The loop over \<^verbatim>\<open>recv\<close>, which takes at most as many bytes as the buffer holds; with the
  PDU, the buffer and what the socket still holds.\<close>

fun receive_loop :: "nat \<Rightarrow> u8 list \<Rightarrow> recv_event list \<Rightarrow> (fte_ret \<times> u8 list option \<times> u8 list \<times> recv_event list) option" where
  "receive_loop ulBuffSize buf [] = None"
| "receive_loop ulBuffSize buf (RecvError # es) = Some (FTE_RET_SOCKET_CLOSED, None, buf, es)"
| "receive_loop ulBuffSize buf (RecvData d # es) =
     (if d = [] then receive_loop ulBuffSize buf es
      else let bs = take (length buf) d;
               es = (if length buf < length d then RecvData (drop (length buf) d) # es else es);
               buf = store_at 0 bs buf;
               (xRet, pdu) = check_frame buf (length bs) ulBuffSize
        in Some (xRet, pdu, buf, es))"

definition FTE_MBTCP_SLAVE_receiveFrame ::
    "nat \<Rightarrow> recv_event list \<Rightarrow> (fte_ret \<times> u8 list option \<times> u8 list \<times> recv_event list) option" where
  "FTE_MBTCP_SLAVE_receiveFrame ulBuffSize es = receive_loop ulBuffSize (replicate (FTE_MODBUS_PDU_LEN + 7) 0) es"

definition FTE_MBTCP_SLAVE_sendFrame :: "u8 list \<Rightarrow> 'd mb_session \<Rightarrow> fte_ret \<times> 'd mb_session" where
  "FTE_MBTCP_SLAVE_sendFrame bs s =
     (if FTE_MODBUS_PDU_LEN < length bs then (FTE_RET_INVALID_MSG_FRAME, s)
      else let buf = (pBuff s)[FTE_MBTCP_FRAME_OFFSET_UID := 0, FTE_MBTCP_FRAME_OFFSET_PID := 0, FTE_MBTCP_FRAME_OFFSET_PID + 1 := 0,
                 FTE_MBTCP_FRAME_OFFSET_LEN := of_nat ((length bs + 1) div 256), FTE_MBTCP_FRAME_OFFSET_LEN + 1 := of_nat (length bs + 1)];
               buf = store_at FTE_MBTCP_FRAME_OFFSET_PDU bs buf;
               s = s\<lparr>pBuff := buf\<rparr>
        in case send_fails s of
             True # fs \<Rightarrow> (FTE_RET_SOCKET_CLOSED, s\<lparr>send_fails := fs\<rparr>)
           | _ \<Rightarrow> (FTE_RET_OK, s\<lparr>send_fails := tl (send_fails s), sent := sent s @ [take (length bs + 7) buf]\<rparr>))"

section \<open>The session\<close>

definition count_rx :: "'d mb_session \<Rightarrow> 'd mb_session" where
  "count_rx s = s\<lparr>mbslave := (mbslave s)\<lparr>slave := (slave (mbslave s))\<lparr>ulRxPkt := ulRxPkt (slave (mbslave s)) + 1\<rparr>\<rparr>\<rparr>"

definition count_error :: "'d mb_session \<Rightarrow> 'd mb_session" where
  "count_error s = s\<lparr>mbslave := (mbslave s)\<lparr>slave := (slave (mbslave s))\<lparr>ulRxError := ulRxError (slave (mbslave s)) + 1\<rparr>\<rparr>\<rparr>"

definition count_tx :: "'d mb_session \<Rightarrow> 'd mb_session" where
  "count_tx s = s\<lparr>mbslave := (mbslave s)\<lparr>slave := (slave (mbslave s))\<lparr>ulTxPkt := ulTxPkt (slave (mbslave s)) + 1\<rparr>\<rparr>\<rparr>"

text \<open>A session waits for more, has been closed, or the device has crashed.\<close>

datatype 'd session_end = Waiting "'d mb_session" | Closed "'d mb_session" | Crashed

fun event_size :: "recv_event list \<Rightarrow> nat" where
  "event_size [] = 0"
| "event_size (RecvError # es) = Suc (event_size es)"
| "event_size (RecvData d # es) = Suc (length d + event_size es)"

lemma receive_loop_size:
  "receive_loop n buf es = Some (r, pdu, buf', es') \<Longrightarrow> buf \<noteq> [] \<Longrightarrow> event_size es' < event_size es"
proof (induction n buf es rule: receive_loop.induct)
  case (3 n buf d es)
  show ?case
  proof (cases "d = []")
    case True
    then show ?thesis using 3 by simp
  next
    case False
    then have "0 < length d" "0 < length buf" using 3(3) by simp_all
    then show ?thesis using 3(2) False by (auto simp: Let_def split: prod.splits if_split_asm)
  qed
qed auto

text \<open>The loop of the task; \<open>clock\<close> gives the time by what has not been received yet.\<close>

function FTE_MBTCP_sessionTask ::
    "'d sys obj_env \<Rightarrow> (nat \<Rightarrow> time_struct) \<Rightarrow> (nat \<Rightarrow> bool) \<Rightarrow> recv_event list \<Rightarrow> 'd mb_session \<Rightarrow> 'd session_end" where
  "FTE_MBTCP_sessionTask E clock mem es s =
     (case FTE_MBTCP_SLAVE_receiveFrame FTE_MODBUS_PDU_LEN es of
        None \<Rightarrow> Waiting s
      | Some (xRet, pdu, buf, es') \<Rightarrow>
          let s = s\<lparr>pBuff := buf\<rparr> in
          if xRet = FTE_RET_SOCKET_CLOSED then Closed s
          else let s = count_rx s in
            case pdu of
              None \<Rightarrow> FTE_MBTCP_sessionTask E clock mem es' (count_error s)
            | Some p \<Rightarrow>
                let s = s\<lparr>pReqPDU := store_at 0 p (pReqPDU s)\<rparr> in
                case FTE_MODBUS_SLAVE_process (pModels_0 E (clock (event_size es'))) mem (pReqPDU s) (of_nat (length p))
                       (of_nat FTE_MODBUS_PDU_LEN) (Some (mbslave s)) of
                  Some (xRet, resp, Some g) \<Rightarrow>
                    let s = s\<lparr>mbslave := g\<rparr> in
                    if xRet = FTE_RET_OK then
                      case resp of
                        None \<Rightarrow> Crashed
                      | Some rep \<Rightarrow>
                          let (xRet, s) = FTE_MBTCP_SLAVE_sendFrame rep s in
                          if xRet = FTE_RET_SOCKET_CLOSED then Closed s
                          else FTE_MBTCP_sessionTask E clock mem es' (count_tx s)
                    else FTE_MBTCP_sessionTask E clock mem es' s
                | _ \<Rightarrow> Crashed)"
  by pat_completeness auto
termination
  by (relation "measure (\<lambda>(E, clock, mem, es, s). event_size es)")
    (auto simp: FTE_MBTCP_SLAVE_receiveFrame_def dest: receive_loop_size)

declare FTE_MBTCP_sessionTask.simps [simp del]

section \<open>Polls\<close>

text \<open>A client that polls sensors: its transaction number, the class, the first object and
  the number of objects it asks for.\<close>

record poll =
  tid :: u16
  cls :: nat
  first :: nat
  quantity :: u16

definition poll_frame :: "poll \<Rightarrow> u8 list" where
  "poll_frame p = be16_bytes (tid p) @ [0, 0, 0, 6, 0]
     @ 4 # be16_bytes (of_nat (cls p * 1000 + first p)) @ be16_bytes (quantity p)"

text \<open>What it asks for exists and fits in one reply.\<close>

definition poll_ok :: "'d sys \<Rightarrow> addr list \<Rightarrow> poll \<Rightarrow> bool" where
  "poll_ok s ps p \<longleftrightarrow> 1 \<le> quantity p \<and> quantity p \<le> 125
     \<and> first p + unat (quantity p) \<le> length (class_objects (cls p) s ps)
     \<and> first p + unat (quantity p) \<le> 1000 \<and> cls p * 1000 + first p + unat (quantity p) \<le> 65536
     \<and> (\<forall>a \<in> set (class_objects (cls p) s ps). oValues (the (objs s a)) \<noteq> [])"

definition poll_values :: "'d sys \<Rightarrow> addr list \<Rightarrow> poll \<Rightarrow> u16 list" where
  "poll_values s ps p = register_values s (take (unat (quantity p)) (drop (first p) (class_objects (cls p) s ps)))"

definition poll_reply :: "'d sys \<Rightarrow> addr list \<Rightarrow> poll \<Rightarrow> u8 list" where
  "poll_reply s ps p = be16_bytes (tid p) @ [0, 0] @ be16_bytes (3 + 2 * quantity p) @ [0]
     @ 4 # ucast (quantity p * 2) # concat (map be16_bytes (poll_values s ps p))"

lemma be16_bytes_list: "be16_bytes w = [ucast (drop_bit 8 w), ucast w]"
  by (simp add: be16_bytes_def)

lemma poll_received:
  obtains buf where "FTE_MBTCP_SLAVE_receiveFrame FTE_MODBUS_PDU_LEN (RecvData (poll_frame p) # es)
    = Some (FTE_RET_OK, Some (4 # be16_bytes (of_nat (cls p * 1000 + first p)) @ be16_bytes (quantity p)), buf, es)"
    "length buf = 260" "take 4 buf = be16_bytes (tid p) @ [0, 0]"
proof -
  let ?buf = "store_at 0 (poll_frame p) (replicate 260 0)"
  have l: "length (poll_frame p) = 12" by (simp add: poll_frame_def)
  have b: "?buf = poll_frame p @ replicate 248 0" using l by (simp add: store_at_def)
  have "check_frame ?buf 12 FTE_MODBUS_PDU_LEN
      = (FTE_RET_OK, Some (4 # be16_bytes (of_nat (cls p * 1000 + first p)) @ be16_bytes (quantity p)))"
    unfolding b by (simp add: check_frame_def poll_frame_def be16_bytes_list be16_def Let_def)
  then have "FTE_MBTCP_SLAVE_receiveFrame FTE_MODBUS_PDU_LEN (RecvData (poll_frame p) # es)
    = Some (FTE_RET_OK, Some (4 # be16_bytes (of_nat (cls p * 1000 + first p)) @ be16_bytes (quantity p)), ?buf, es)"
    using l by (cases "poll_frame p = []") (simp_all add: FTE_MBTCP_SLAVE_receiveFrame_def)
  moreover have "length ?buf = 260" "take 4 ?buf = be16_bytes (tid p) @ [0, 0]"
    unfolding b using l by (simp_all add: poll_frame_def be16_bytes_list)
  ultimately show thesis by (rule that)
qed

lemma be16_bytes_of_nat: "n < 65536 \<Longrightarrow> be16_bytes (of_nat n) = [of_nat (n div 256), of_nat n]"
proof -
  assume n: "n < 65536"
  then have u: "unat (of_nat n :: u16) = n" by (intro unat_of_nat_small) simp
  have "(ucast (of_nat n :: u16) :: u8) = of_nat n" by (rule bit_word_eqI) (simp add: bit_simps)
  moreover have "unat (ucast (drop_bit 8 (of_nat n :: u16)) :: u8) = unat (of_nat (n div 256) :: u8)"
    using n by (simp add: unsigned_ucast_eq unsigned_drop_bit_eq u drop_bit_eq_div unsigned_of_nat take_bit_eq_mod unat_div)
  then have "(ucast (drop_bit 8 (of_nat n :: u16)) :: u8) = of_nat (n div 256)" by (simp only: unsigned_word_eqI)
  ultimately show ?thesis by (simp add: be16_bytes_def)
qed

lemma length_three: "length xs = Suc (Suc (Suc n)) \<Longrightarrow> \<exists>a b c ys. xs = a # b # c # ys \<and> length ys = n"
  by (auto simp: length_Suc_conv)

lemma frame_header:
  "(b0 # b1 # b2 # b3 # b4 # b5 # b6 # bs)[6 := 0, 2 := 0, 2 + 1 := 0, 4 := u, 4 + 1 := v] = [b0, b1, 0, 0, u, v, 0 :: u8] @ bs"
  by (simp add: eval_nat_numeral)

lemma frame_body:
  assumes "length pre = 7"
  shows "store_at 7 rep (pre @ bs) = pre @ rep @ drop (length rep) bs" "take (length rep + 7) (pre @ rep @ cs) = pre @ rep"
  using assms by (simp_all add: store_at_def)

lemma sendFrame_ok:
  assumes "length (pBuff s) = 260" "take 4 (pBuff s) = t @ [0, 0]" "length t = 2" "length rep \<le> 253" "send_fails s = []"
  obtains s' where "FTE_MBTCP_SLAVE_sendFrame rep s = (FTE_RET_OK, s')"
    "sent s' = sent s @ [t @ [0, 0] @ be16_bytes (of_nat (length rep + 1)) @ [0] @ rep]"
    "mbslave s' = mbslave s" "send_fails s' = []" "pReqPDU s' = pReqPDU s"
proof -
  obtain b0 b1 where t: "t = [b0, b1]" using assms(3) by (auto simp: length_Suc_conv numeral_2_eq_2)
  obtain c4 c5 c6 bs where b: "pBuff s = b0 # b1 # 0 # 0 # c4 # c5 # c6 # bs" "length bs = 253"
  proof -
    have "pBuff s = take 4 (pBuff s) @ drop 4 (pBuff s)" by simp
    also have "take 4 (pBuff s) = [b0, b1, 0, 0]" using assms(2) t by simp
    finally have e: "pBuff s = b0 # b1 # 0 # 0 # drop 4 (pBuff s)" by simp
    have "length (drop 4 (pBuff s)) = Suc (Suc (Suc 253))" using assms(1) by simp
    from length_three [OF this] obtain c4 c5 c6 bs where "drop 4 (pBuff s) = c4 # c5 # c6 # bs" "length bs = 253" by blast
    then show thesis using e by (intro that [of c4 c5 c6 bs]) simp_all
  qed
  let ?n = "length rep"
  have be: "be16_bytes (of_nat (?n + 1)) = [of_nat ((?n + 1) div 256), of_nat (?n + 1)]"
    using assms(4) by (intro be16_bytes_of_nat) simp
  let ?buf = "[b0, b1, 0, 0, of_nat ((?n + 1) div 256), of_nat (?n + 1), 0] @ rep @ drop ?n bs"
  let ?s = "s\<lparr>pBuff := ?buf, sent := sent s @ [[b0, b1, 0, 0, of_nat ((?n + 1) div 256), of_nat (?n + 1), 0] @ rep], send_fails := []\<rparr>"
  have "FTE_MBTCP_SLAVE_sendFrame rep s = (FTE_RET_OK, ?s)"
    unfolding FTE_MBTCP_SLAVE_sendFrame_def Let_def b(1) frame_header
    using assms(4,5) frame_body [of "[b0, b1, 0, 0, of_nat ((?n + 1) div 256), of_nat (?n + 1), 0]" rep] by simp
  then show thesis using be t by (intro that [of ?s]) simp_all
qed

lemma poll_step:
  assumes "registry E (target (mbslave s)) F ps" "F \<noteq> None" "poll_ok (target (mbslave s)) ps p" "\<forall>n \<le> 250. mem n"
    and "send_fails s = []"
  obtains s' where "FTE_MBTCP_sessionTask E clock mem (RecvData (poll_frame p) # es) s = FTE_MBTCP_sessionTask E clock mem es s'"
    "sent s' = sent s @ [poll_reply (target (mbslave s)) ps p]" "target (mbslave s') = target (mbslave s)"
    "send_fails s' = []" "ulTxPkt (slave (mbslave s')) = ulTxPkt (slave (mbslave s)) + 1"
    "ulRxPkt (slave (mbslave s')) = ulRxPkt (slave (mbslave s)) + 1" "ulRxError (slave (mbslave s')) = ulRxError (slave (mbslave s))"
proof -
  let ?s = "target (mbslave s)" and ?q = "quantity p"
  let ?pdu = "4 # be16_bytes (of_nat (cls p * 1000 + first p)) @ be16_bytes ?q"
  obtain buf where rx: "FTE_MBTCP_SLAVE_receiveFrame FTE_MODBUS_PDU_LEN (RecvData (poll_frame p) # es)
    = Some (FTE_RET_OK, Some ?pdu, buf, es)" "length buf = 260" "take 4 buf = be16_bytes (tid p) @ [0, 0]"
    by (rule poll_received)
  define s1 where "s1 = count_rx (s\<lparr>pBuff := buf\<rparr>)"
  define s2 where "s2 = s1\<lparr>pReqPDU := store_at 0 ?pdu (pReqPDU s1)\<rparr>"
  have t2: "target (mbslave s2) = ?s" by (simp add: s2_def s1_def count_rx_def)
  have ok: "1 \<le> ?q" "?q \<le> 125" "first p + unat ?q \<le> length (class_objects (cls p) ?s ps)" "first p + unat ?q \<le> 1000"
    "cls p * 1000 + first p + unat ?q \<le> 65536" "\<forall>a \<in> set (class_objects (cls p) ?s ps). oValues (the (objs ?s a)) \<noteq> []"
    using assms(3) by (simp_all add: poll_ok_def)
  have q: "unat ?q \<le> 125" using ok(2) by (simp add: word_le_nat_alt)
  then have mm: "2 + 2 * unat ?q \<le> unat (of_nat FTE_MODBUS_PDU_LEN :: u32)" "mem (2 * unat ?q)" using assms(4) by simp_all
  let ?vs = "poll_values ?s ps p" and ?rep = "4 # ucast (?q * 2) # concat (map be16_bytes (poll_values ?s ps p))"
  have lp: "length ?pdu = 5" by simp
  have "pReqPDU s2 = 4 # be16_bytes (of_nat (cls p * 1000 + first p)) @ be16_bytes ?q @ drop 5 (pReqPDU s1)"
    by (simp add: s2_def store_at_def)
  then have pr: "FTE_MODBUS_SLAVE_process (pModels_0 E (clock (event_size es))) mem (pReqPDU s2) (of_nat (length ?pdu))
      (of_nat FTE_MODBUS_PDU_LEN) (Some (mbslave s2)) = Some (FTE_RET_OK, Some ?rep, Some (mbslave s2))"
    using input_registers_served(1) [where mem = mem and g = "mbslave s2" and now = "clock (event_size es)" and rest = "drop 5 (pReqPDU s1)",
        unfolded t2, OF assms(1,2) refl ok(6,1,2,3,4,5) mm refl]
    by (simp add: poll_values_def)
  have lv: "length ?vs = unat ?q"
    using input_registers_served(3) [where mem = mem and g = "mbslave s2", unfolded t2, OF assms(1,2) refl ok(6,1,2,3,4,5) mm refl]
    by (simp add: poll_values_def)
  have lr: "length ?rep = 2 + 2 * unat ?q" by (simp add: lv)
  have b2: "pBuff s2 = buf" "send_fails s2 = []" using assms(5) by (simp_all add: s2_def s1_def count_rx_def)
  obtain s3 where s3: "FTE_MBTCP_SLAVE_sendFrame ?rep s2 = (FTE_RET_OK, s3)"
    "sent s3 = sent s2 @ [be16_bytes (tid p) @ [0, 0] @ be16_bytes (of_nat (length ?rep + 1)) @ [0] @ ?rep]"
    "mbslave s3 = mbslave s2" "send_fails s3 = []"
    by (rule sendFrame_ok [of s2 "be16_bytes (tid p)" ?rep]) (use rx b2 lr q in simp_all)
  have "(of_nat (length ?rep + 1) :: u16) = 3 + 2 * ?q" unfolding lr by simp
  then have sent: "sent s3 = sent s @ [poll_reply ?s ps p]" using s3(2) by (simp add: poll_reply_def s2_def s1_def count_rx_def)
  have "FTE_MBTCP_sessionTask E clock mem (RecvData (poll_frame p) # es) s = FTE_MBTCP_sessionTask E clock mem es (count_tx s3)"
    using rx(1) pr s3(1) by (subst FTE_MBTCP_sessionTask.simps) (simp add: s1_def s2_def Let_def)
  then show thesis using sent s3(3,4) t2 by (intro that [of "count_tx s3"]) (simp_all add: count_tx_def s2_def s1_def count_rx_def)
qed

section \<open>Which frames are accepted\<close>

lemma be16_bytes_be16 [simp]: "be16_bytes (be16 hi lo) = [hi, lo]"
proof -
  have "ucast (drop_bit 8 (be16 hi lo)) = hi"
    unfolding be16_def by (rule bit_word_eqI) (auto simp: bit_simps dest: bit_imp_le_length)
  moreover have "ucast (be16 hi lo) = lo"
    unfolding be16_def by (rule bit_word_eqI) (auto simp: bit_simps)
  ultimately show ?thesis by (simp add: be16_bytes_def)
qed

lemma check_frame_header:
  assumes "d = [t0, t1, 0, 0] @ be16_bytes w @ [0] @ pdu"
  shows "check_frame (d @ zs) n m = (if n < 12 \<or> 265 < n \<or> unat w + 6 \<noteq> n \<or> m < unat w then (FTE_RET_INVALID_MSG, None)
    else (FTE_RET_OK, Some (take (unat w - 1) (pdu @ zs))))"
proof -
  have "be16 (ucast (drop_bit 8 w)) (ucast w) = w" by simp
  moreover have "be16 0 0 = 0" by (simp add: be16_def)
  ultimately show ?thesis unfolding assms by (simp add: check_frame_def be16_bytes_list Let_def)
qed

lemma seven_bytes:
  assumes "12 \<le> length d"
  obtains a b c e f g h bs where "d = [a, b, c, e, f, g, h] @ bs"
proof -
  have "length (take 7 d) = Suc (Suc (Suc (Suc (Suc (Suc (Suc 0))))))" using assms by simp
  then obtain a b c e f g h where "take 7 d = [a, b, c, e, f, g, h]" unfolding length_Suc_conv length_0_conv by blast
  then show thesis using that [of a b c e f g h "drop 7 d"] append_take_drop_id [of 7 d] by simp
qed

section \<open>Properties\<close>


definition session_demo :: "unit mb_session" where
  "session_demo = \<lparr>pBuff = replicate 260 0, pReqPDU = replicate 253 0, mbslave = gen_demo, sent = [], send_fails = []\<rparr>"

definition polls_demo :: "poll list" where
  "polls_demo = [\<lparr>tid = 1, cls = 6, first = 0, quantity = 1\<rparr>, \<lparr>tid = 2, cls = 6, first = 0, quantity = 1\<rparr>]"

lemma gen_demo_outputs:
  "filter (\<lambda>p. obj_matches FTE_OBJ_CLASS_DO FTE_OBJ_CLASS_MASK False (the (objs (target gen_demo) p))) [0x1000, 0x2000] = [0x2000]"
  using gen_demo_objects by simp


text \<open>C18: The server accepts exactly the frames whose PDU has 5 to 252 bytes: any two bytes of
  transaction number, protocol 0, the length of unit and PDU, unit 0 and the PDU, received as
  one piece.  So the longest PDU of the protocol, 253 bytes, is refused, and so is the
  shortest request the slave knows, the four bytes that ask for the device identification.\<close>

theorem FTE_MBTCP_accepted_frames:
  "(\<exists>buf. FTE_MBTCP_SLAVE_receiveFrame FTE_MODBUS_PDU_LEN (RecvData d # es) = Some (FTE_RET_OK, Some pdu, buf, es))
   \<longleftrightarrow> (\<exists>t0 t1. d = [t0, t1, 0, 0] @ be16_bytes (of_nat (length pdu + 1)) @ [0] @ pdu \<and> 5 \<le> length pdu \<and> length pdu \<le> 252)"
  (is "?l \<longleftrightarrow> ?r")
proof
  assume ?r
  then obtain t0 t1 where d: "d = [t0, t1, 0, 0] @ be16_bytes (of_nat (length pdu + 1)) @ [0] @ pdu" "5 \<le> length pdu" "length pdu \<le> 252"
    by blast
  have l: "length d = length pdu + 7" using d(1) by simp
  then have e: "\<not> 260 < length d" "d \<noteq> []" using d(3) by auto
  have "check_frame (d @ replicate (260 - length d) 0) (length d) FTE_MODBUS_PDU_LEN = (FTE_RET_OK, Some pdu)"
  proof -
    have "unat (of_nat (length pdu + 1) :: u16) = length pdu + 1" using d(3) by (intro unat_of_nat_small) simp
    then show ?thesis unfolding check_frame_header [OF d(1)] using d(2,3) l by simp
  qed
  then show ?l using e by (simp add: FTE_MBTCP_SLAVE_receiveFrame_def store_at_def min_def)
next
  assume ?l
  then obtain buf where rx: "FTE_MBTCP_SLAVE_receiveFrame FTE_MODBUS_PDU_LEN (RecvData d # es) = Some (FTE_RET_OK, Some pdu, buf, es)"
    by blast
  have ne: "d \<noteq> []"
  proof
    assume "d = []"
    then have "receive_loop FTE_MODBUS_PDU_LEN (replicate 260 0) es = Some (FTE_RET_OK, Some pdu, buf, es)"
      using rx by (simp add: FTE_MBTCP_SLAVE_receiveFrame_def)
    from receive_loop_size [OF this] show False by simp
  qed
  have le: "length d \<le> 260" using rx ne by (auto simp: FTE_MBTCP_SLAVE_receiveFrame_def Let_def split: prod.splits if_split_asm)
  then have chk: "check_frame (d @ replicate (260 - length d) 0) (length d) FTE_MODBUS_PDU_LEN = (FTE_RET_OK, Some pdu)"
    using rx ne by (auto simp: FTE_MBTCP_SLAVE_receiveFrame_def Let_def store_at_def min_def split: prod.splits)
  then have "12 \<le> length d" by (simp add: check_frame_def split: if_split_asm)
  then obtain t0 t1 p0 p1 l0 l1 u bs where d: "d = [t0, t1, p0, p1, l0, l1, u] @ bs" by (rule seven_bytes)
  have c: "unat (be16 l0 l1) + 6 = length d" "be16 p0 p1 = 0" "u = 0" "unat (be16 l0 l1) \<le> 253"
    "pdu = take (unat (be16 l0 l1) - 1) (bs @ replicate (260 - length d) 0)"
    using chk unfolding d by (auto simp: check_frame_def Let_def split: if_split_asm)
  have lb: "length bs = unat (be16 l0 l1) - 1" using c(1) d by simp
  then have pdu: "pdu = bs" using c(5) by simp
  have "be16_bytes (be16 p0 p1) = [0, 0]" unfolding c(2) by (simp add: be16_bytes_def)
  then have p: "p0 = 0" "p1 = 0" by simp_all
  have "length bs + 1 = unat (be16 l0 l1)" using lb c(1) \<open>12 \<le> length d\<close> by simp
  then have "of_nat (length bs + 1) = be16 l0 l1" by simp
  then have "be16_bytes (of_nat (length bs + 1)) = [l0, l1]" by (simp only: be16_bytes_be16)
  then show ?r using d p c(1,3,4) lb pdu \<open>12 \<le> length d\<close> by (intro exI [of _ t0, OF exI [of _ t1]]) auto
qed

end
