(* ===== verification/FTE_Json.thy ===== *)
theory FTE_Json
  imports FTE_Kernel FTE_Value
begin

unbundle bit_operations_syntax

text \<open>
  The JSON documents of \<^verbatim>\<open>target/source/fte_json.c\<close>, in which objects and values are
  reported over MQTT, SNMP traps and HTTP: the creation of the nodes from the memory pool,
  the objects and arrays with their slots, the printing into a buffer, the computation of
  the size that buffer needs, and the release of a document.

  A document is a tree that carries the addresses of its blocks; the store is the one of
  \<^verbatim>\<open>FTE_Kernel\<close>.  The buffer is a list of characters as long as its allocation, and a write
  behind its end does not return.
\<close>

section \<open>Data\<close>

text \<open>The first address of a node is its block; strings and names have a block of their
  own.  \<^verbatim>\<open>nMaxCount\<close> is the number of slots.\<close>

datatype json =
    JSON_STRING addr addr string
  | JSON_NUMBER addr u32
  | JSON_HEX addr u32
  | JSON_FLOAT addr u32
  | JSON_PAIR addr addr string "json option"
  | JSON_OBJECT addr u32 "json option list"
  | JSON_ARRAY addr u32 "json option list"
  | JSON_TRUE addr
  | JSON_FALSE addr
  | JSON_NULL addr

section \<open>Creation\<close>

text \<open>A node without further blocks.\<close>

definition json_node :: "(addr \<Rightarrow> json) \<Rightarrow> 'z kst \<Rightarrow> (json option \<times> 'z kst) option" where
  "json_node f s = (let (a, s) = FTE_MEM_alloc s in if a = NULL then Some (None, s) else Some (Some (f a), s))"

text \<open>A node with a copy of a string.\<close>

definition json_named :: "(addr \<Rightarrow> addr \<Rightarrow> json) \<Rightarrow> 'z kst \<Rightarrow> (json option \<times> 'z kst) option" where
  "json_named f s =
     (let (a, s) = FTE_MEM_alloc s in
      if a = NULL then Some (None, s)
      else let (b, s) = FTE_MEM_alloc s in
        if b = NULL then do { s \<leftarrow> FTE_MEM_free a s; Some (None, s) }
        else Some (Some (f a b), s))"

definition FTE_JSON_VALUE_createString :: "string \<Rightarrow> 'z kst \<Rightarrow> (json option \<times> 'z kst) option" where
  "FTE_JSON_VALUE_createString str = json_named (\<lambda>a b. JSON_STRING a b str)"

definition FTE_JSON_VALUE_createNumber :: "u32 \<Rightarrow> 'z kst \<Rightarrow> (json option \<times> 'z kst) option" where
  "FTE_JSON_VALUE_createNumber n = json_node (\<lambda>a. JSON_NUMBER a n)"

definition FTE_JSON_VALUE_createHex :: "u32 \<Rightarrow> 'z kst \<Rightarrow> (json option \<times> 'z kst) option" where
  "FTE_JSON_VALUE_createHex n = json_node (\<lambda>a. JSON_HEX a n)"

definition FTE_JSON_VALUE_createFloat :: "u32 \<Rightarrow> 'z kst \<Rightarrow> (json option \<times> 'z kst) option" where
  "FTE_JSON_VALUE_createFloat n = json_node (\<lambda>a. JSON_FLOAT a n)"

definition FTE_JSON_VALUE_createValue :: "fte_value \<Rightarrow> 'z kst \<Rightarrow> (json option \<times> 'z kst) option" where
  "FTE_JSON_VALUE_createValue v s =
     (if xType v \<in> {FTE_VALUE_TYPE_BOOL, FTE_VALUE_TYPE_DIO, FTE_VALUE_TYPE_LED} then
        (if xData v \<noteq> 0 then FTE_JSON_VALUE_createNumber 1 s else FTE_JSON_VALUE_createNumber 0 s)
      else if xType v \<in> {FTE_VALUE_TYPE_ULONG, FTE_VALUE_TYPE_PPM} then FTE_JSON_VALUE_createNumber (xData v) s
      else if xType v = FTE_VALUE_TYPE_HEX32 then FTE_JSON_VALUE_createHex (xData v) s
      else if xType v \<in> {FTE_VALUE_TYPE_TEMPERATURE, FTE_VALUE_TYPE_HUMIDITY, FTE_VALUE_TYPE_VOLTAGE,
          FTE_VALUE_TYPE_CURRENT, FTE_VALUE_TYPE_PRESSURE, FTE_VALUE_TYPE_PWR_KWH, FTE_VALUE_TYPE_PWR_KW,
          FTE_VALUE_TYPE_PH} then FTE_JSON_VALUE_createFloat (xData v) s
      else Some (None, s))"

definition FTE_JSON_VALUE_createPair :: "string \<Rightarrow> json option \<Rightarrow> 'z kst \<Rightarrow> (json option \<times> 'z kst) option" where
  "FTE_JSON_VALUE_createPair str v = json_named (\<lambda>a b. JSON_PAIR a b str v)"

definition FTE_JSON_VALUE_createObject :: "nat \<Rightarrow> 'z kst \<Rightarrow> (json option \<times> 'z kst) option" where
  "FTE_JSON_VALUE_createObject n = json_node (\<lambda>a. JSON_OBJECT a 0 (replicate n None))"

definition FTE_JSON_VALUE_createArray :: "nat \<Rightarrow> 'z kst \<Rightarrow> (json option \<times> 'z kst) option" where
  "FTE_JSON_VALUE_createArray n = json_node (\<lambda>a. JSON_ARRAY a 0 (replicate n None))"

definition FTE_JSON_VALUE_createTrue :: "'z kst \<Rightarrow> (json option \<times> 'z kst) option" where
  "FTE_JSON_VALUE_createTrue = json_node JSON_TRUE"

definition FTE_JSON_VALUE_createFalse :: "'z kst \<Rightarrow> (json option \<times> 'z kst) option" where
  "FTE_JSON_VALUE_createFalse = json_node JSON_FALSE"

definition FTE_JSON_VALUE_createNull :: "'z kst \<Rightarrow> (json option \<times> 'z kst) option" where
  "FTE_JSON_VALUE_createNull = json_node JSON_NULL"

section \<open>Release\<close>

fun FTE_JSON_VALUE_destroy :: "json \<Rightarrow> 'z kst \<Rightarrow> (fte_ret \<times> 'z kst) option"
  and destroy_slots :: "json option list \<Rightarrow> 'z kst \<Rightarrow> 'z kst option" where
  "FTE_JSON_VALUE_destroy (JSON_STRING a b str) s = do {
     s \<leftarrow> FTE_MEM_free b s; s \<leftarrow> FTE_MEM_free a s; Some (FTE_RET_OK, s) }"
| "FTE_JSON_VALUE_destroy (JSON_PAIR a b str v) s = do {
     s \<leftarrow> FTE_MEM_free b s;
     s \<leftarrow> (case v of None \<Rightarrow> Some s | Some j \<Rightarrow> do { (_, s) \<leftarrow> FTE_JSON_VALUE_destroy j s; Some s });
     s \<leftarrow> FTE_MEM_free a s; Some (FTE_RET_OK, s) }"
| "FTE_JSON_VALUE_destroy (JSON_OBJECT a n ps) s = do {
     s \<leftarrow> destroy_slots ps s; s \<leftarrow> FTE_MEM_free a s; Some (FTE_RET_OK, s) }"
| "FTE_JSON_VALUE_destroy (JSON_ARRAY a n es) s = do {
     s \<leftarrow> destroy_slots es s; s \<leftarrow> FTE_MEM_free a s; Some (FTE_RET_OK, s) }"
| "FTE_JSON_VALUE_destroy (JSON_NUMBER a n) s = do { s \<leftarrow> FTE_MEM_free a s; Some (FTE_RET_OK, s) }"
| "FTE_JSON_VALUE_destroy (JSON_HEX a n) s = do { s \<leftarrow> FTE_MEM_free a s; Some (FTE_RET_OK, s) }"
| "FTE_JSON_VALUE_destroy (JSON_FLOAT a n) s = do { s \<leftarrow> FTE_MEM_free a s; Some (FTE_RET_OK, s) }"
| "FTE_JSON_VALUE_destroy (JSON_TRUE a) s = do { s \<leftarrow> FTE_MEM_free a s; Some (FTE_RET_OK, s) }"
| "FTE_JSON_VALUE_destroy (JSON_FALSE a) s = do { s \<leftarrow> FTE_MEM_free a s; Some (FTE_RET_OK, s) }"
| "FTE_JSON_VALUE_destroy (JSON_NULL a) s = do { s \<leftarrow> FTE_MEM_free a s; Some (FTE_RET_OK, s) }"
| "destroy_slots [] s = Some s"
| "destroy_slots (None # vs) s = destroy_slots vs s"
| "destroy_slots (Some j # vs) s = do { (_, s) \<leftarrow> FTE_JSON_VALUE_destroy j s; destroy_slots vs s }"

section \<open>Objects and arrays\<close>

text \<open>The search for the first free slot; the body of the \<^verbatim>\<open>for\<close> loops.\<close>

fun free_slot :: "nat \<Rightarrow> json option list \<Rightarrow> nat option" where
  "free_slot i [] = None"
| "free_slot i (None # vs) = Some i"
| "free_slot i (Some j # vs) = free_slot (Suc i) vs"

definition json_slots :: "json \<Rightarrow> (u32 \<times> json option list) option" where
  "json_slots j = (case j of JSON_OBJECT a n ps \<Rightarrow> Some (n, ps) | JSON_ARRAY a n es \<Rightarrow> Some (n, es) | _ \<Rightarrow> None)"

definition json_set_slot :: "json \<Rightarrow> nat \<Rightarrow> json \<Rightarrow> json" where
  "json_set_slot j i v = (case j of JSON_OBJECT a n ps \<Rightarrow> JSON_OBJECT a (n + 1) (ps[i := Some v])
     | JSON_ARRAY a n es \<Rightarrow> JSON_ARRAY a (n + 1) (es[i := Some v]) | _ \<Rightarrow> j)"

text \<open>The result is the code and the object as the call leaves it.\<close>

definition FTE_JSON_OBJECT_setPair :: "json \<Rightarrow> string \<Rightarrow> json option \<Rightarrow> 'z kst \<Rightarrow> (fte_ret \<times> json \<times> 'z kst) option" where
  "FTE_JSON_OBJECT_setPair obj str v s = do {
     guard_opt (v \<noteq> None);
     (n, ps) \<leftarrow> json_slots obj;
     if unat n < length ps then
       (case free_slot 0 ps of
          None \<Rightarrow> Some (FTE_RET_ERROR, obj, s)
        | Some i \<Rightarrow> do {
            (p, s) \<leftarrow> FTE_JSON_VALUE_createPair str v s;
            (case p of None \<Rightarrow> Some (FTE_RET_ERROR, obj, s)
             | Some p \<Rightarrow> Some (FTE_RET_OK, json_set_slot obj i p, s)) })
     else Some (FTE_RET_ERROR, obj, s)
   }"

text \<open>\<^verbatim>\<open>addStringPair\<close> and \<^verbatim>\<open>addNumberPair\<close> differ in the node they create.\<close>

definition json_add_pair :: "json \<Rightarrow> string \<Rightarrow> ('z kst \<Rightarrow> (json option \<times> 'z kst) option) \<Rightarrow> 'z kst
    \<Rightarrow> (fte_ret \<times> json \<times> 'z kst) option" where
  "json_add_pair obj name create s = do {
     (n, ps) \<leftarrow> json_slots obj;
     if unat n < length ps then do {
       (v, s) \<leftarrow> create s;
       (case v of None \<Rightarrow> Some (FTE_RET_ERROR, obj, s)
        | Some j \<Rightarrow>
            (case free_slot 0 ps of
               None \<Rightarrow> Some (FTE_RET_ERROR, obj, s)
             | Some i \<Rightarrow> do {
                 (p, s) \<leftarrow> FTE_JSON_VALUE_createPair name (Some j) s;
                 (case p of None \<Rightarrow> do { (_, s) \<leftarrow> FTE_JSON_VALUE_destroy j s; Some (FTE_RET_ERROR, obj, s) }
                  | Some p \<Rightarrow> Some (FTE_RET_OK, json_set_slot obj i p, s)) })) }
     else Some (FTE_RET_ERROR, obj, s)
   }"

definition FTE_JSON_OBJECT_addStringPair :: "json \<Rightarrow> string \<Rightarrow> string \<Rightarrow> 'z kst \<Rightarrow> (fte_ret \<times> json \<times> 'z kst) option" where
  "FTE_JSON_OBJECT_addStringPair obj name str = json_add_pair obj name (FTE_JSON_VALUE_createString str)"

definition FTE_JSON_OBJECT_addNumberPair :: "json \<Rightarrow> string \<Rightarrow> u32 \<Rightarrow> 'z kst \<Rightarrow> (fte_ret \<times> json \<times> 'z kst) option" where
  "FTE_JSON_OBJECT_addNumberPair obj name n = json_add_pair obj name (FTE_JSON_VALUE_createNumber n)"

definition FTE_JSON_ARRAY_setElement :: "json \<Rightarrow> json option \<Rightarrow> (fte_ret \<times> json) option" where
  "FTE_JSON_ARRAY_setElement arr v = do {
     j \<leftarrow> v;
     (n, es) \<leftarrow> json_slots arr;
     if unat n < length es then
       (case free_slot 0 es of
          None \<Rightarrow> Some (FTE_RET_ERROR, arr)
        | Some i \<Rightarrow> Some (FTE_RET_OK, json_set_slot arr i j))
     else Some (FTE_RET_ERROR, arr)
   }"

section \<open>Printing\<close>

text \<open>\<^verbatim>\<open>snprintf(&pBuff[off], n, ...)\<close> with the formatted text \<open>s\<close>: the \<^verbatim>\<open>int\<close> argument is converted to
  \<^verbatim>\<open>size_t\<close>, at most that many characters are written with their terminator, and the length
  of the whole text is returned.\<close>

definition snprintf_at :: "nat \<Rightarrow> int \<Rightarrow> string \<Rightarrow> string \<Rightarrow> (int \<times> string) option" where
  "snprintf_at off n s buf =
     (let k = unat (word_of_int n :: u32);
          t = (if k = 0 then [] else take (k - 1) s @ [CHR 0x00])
      in if off + length t \<le> length buf
         then Some (int (length s), take off buf @ t @ drop (off + length t) buf) else None)"

definition json_quote :: "string \<Rightarrow> string" where
  "json_quote s = CHR 0x22 # s @ [CHR 0x22]"

definition fmt_json_float :: "u32 \<Rightarrow> string" where
  "fmt_json_float n = (if c_rem (sint n) 100 = 0 then fmt_d (c_quot (sint n) 100)
     else fmt_d (c_quot (sint n) 100) @ ''.'' @ fmt_0d 2 (c_rem (sint n) 100))"

text \<open>\<open>off\<close> is the place of \<^verbatim>\<open>pBuff\<close> in the allocated buffer; the lengths are \<^verbatim>\<open>int\<close>.\<close>

fun FTE_JSON_VALUE_snprint :: "nat \<Rightarrow> int \<Rightarrow> json \<Rightarrow> string \<Rightarrow> (int \<times> string) option"
  and snprint_slots :: "nat \<Rightarrow> int \<Rightarrow> json option list \<Rightarrow> int \<Rightarrow> bool \<Rightarrow> string \<Rightarrow> (int \<times> string) option" where
  "FTE_JSON_VALUE_snprint off len (JSON_STRING a b str) buf = snprintf_at off len (json_quote str) buf"
| "FTE_JSON_VALUE_snprint off len (JSON_PAIR a b str v) buf = do {
     (n, buf) \<leftarrow> snprintf_at off len (json_quote str @ '':'') buf;
     j \<leftarrow> v;
     (m, buf) \<leftarrow> FTE_JSON_VALUE_snprint (off + nat n) (len - n) j buf;
     Some (n + m, buf) }"
| "FTE_JSON_VALUE_snprint off len (JSON_OBJECT a c ps) buf = do {
     (n, buf) \<leftarrow> snprintf_at off len ''{'' buf;
     (n, buf) \<leftarrow> snprint_slots off len ps n True buf;
     (m, buf) \<leftarrow> snprintf_at (off + nat n) (len - n) ''}'' buf;
     Some (n + m, buf) }"
| "FTE_JSON_VALUE_snprint off len (JSON_ARRAY a c es) buf = do {
     (n, buf) \<leftarrow> snprintf_at off len ''['' buf;
     (n, buf) \<leftarrow> snprint_slots off len es n True buf;
     (m, buf) \<leftarrow> snprintf_at (off + nat n) (len - n) '']'' buf;
     Some (n + m, buf) }"
| "FTE_JSON_VALUE_snprint off len (JSON_NUMBER a n) buf = snprintf_at off len (fmt_d (sint n)) buf"
| "FTE_JSON_VALUE_snprint off len (JSON_HEX a n) buf = snprintf_at off len (''0x'' @ fmt_0x 8 n) buf"
| "FTE_JSON_VALUE_snprint off len (JSON_FLOAT a n) buf = snprintf_at off len (fmt_json_float n) buf"
| "FTE_JSON_VALUE_snprint off len (JSON_TRUE a) buf = snprintf_at off len ''true'' buf"
| "FTE_JSON_VALUE_snprint off len (JSON_FALSE a) buf = snprintf_at off len ''false'' buf"
| "FTE_JSON_VALUE_snprint off len (JSON_NULL a) buf = snprintf_at off len ''null'' buf"
| "snprint_slots off len [] n first buf = Some (n, buf)"
| "snprint_slots off len (None # vs) n first buf = snprint_slots off len vs n first buf"
| "snprint_slots off len (Some j # vs) n first buf = do {
     (n, buf) \<leftarrow> (if first then Some (n, buf)
                 else do { (m, buf) \<leftarrow> snprintf_at (off + nat n) (len - n) '','' buf; Some (n + m, buf) });
     (m, buf) \<leftarrow> FTE_JSON_VALUE_snprint (off + nat n) (len - n) j buf;
     snprint_slots off len vs (n + m) False buf }"

text \<open>The size of the buffer; the length of a printed text is what the \<^verbatim>\<open>snprintf\<close> into the
  static buffer of 128 characters returns.\<close>

fun FTE_JSON_VALUE_buffSize :: "json \<Rightarrow> int option"
  and buffSize_slots :: "json option list \<Rightarrow> int \<Rightarrow> bool \<Rightarrow> int option" where
  "FTE_JSON_VALUE_buffSize (JSON_STRING a b str) = Some (int (length (json_quote str)) + 1)"
| "FTE_JSON_VALUE_buffSize (JSON_PAIR a b str v) = do {
     j \<leftarrow> v;
     m \<leftarrow> FTE_JSON_VALUE_buffSize j;
     Some (int (length (json_quote str @ '':'')) + m + 1) }"
| "FTE_JSON_VALUE_buffSize (JSON_OBJECT a c ps) = do { n \<leftarrow> buffSize_slots ps 1 True; Some (n + 1 + 1) }"
| "FTE_JSON_VALUE_buffSize (JSON_ARRAY a c es) = do { n \<leftarrow> buffSize_slots es 1 True; Some (n + 1 + 1) }"
| "FTE_JSON_VALUE_buffSize (JSON_NUMBER a n) = Some (int (length (fmt_d (sint n))) + 1)"
| "FTE_JSON_VALUE_buffSize (JSON_HEX a n) = Some (int (length (''0x'' @ fmt_0x 8 n)) + 1)"
| "FTE_JSON_VALUE_buffSize (JSON_FLOAT a n) = Some (int (length (fmt_json_float n)) + 1)"
| "FTE_JSON_VALUE_buffSize (JSON_TRUE a) = Some (4 + 1)"
| "FTE_JSON_VALUE_buffSize (JSON_FALSE a) = Some (5 + 1)"
| "FTE_JSON_VALUE_buffSize (JSON_NULL a) = Some (4 + 1)"
| "buffSize_slots [] n first = Some n"
| "buffSize_slots (None # vs) n first = buffSize_slots vs n first"
| "buffSize_slots (Some j # vs) n first = do {
     m \<leftarrow> FTE_JSON_VALUE_buffSize j;
     buffSize_slots vs ((if first then n else n + 1) + m) False }"

section \<open>The text of a document\<close>

text \<open>The reference: what a document says, with commas between the occupied slots.\<close>

fun json_text :: "json \<Rightarrow> string"
  and slots_text :: "bool \<Rightarrow> json option list \<Rightarrow> string" where
  "json_text (JSON_STRING a b str) = json_quote str"
| "json_text (JSON_PAIR a b str v) = json_quote str @ '':'' @ (case v of None \<Rightarrow> [] | Some j \<Rightarrow> json_text j)"
| "json_text (JSON_OBJECT a c ps) = ''{'' @ slots_text True ps @ ''}''"
| "json_text (JSON_ARRAY a c es) = ''['' @ slots_text True es @ '']''"
| "json_text (JSON_NUMBER a n) = fmt_d (sint n)"
| "json_text (JSON_HEX a n) = ''0x'' @ fmt_0x 8 n"
| "json_text (JSON_FLOAT a n) = fmt_json_float n"
| "json_text (JSON_TRUE a) = ''true''"
| "json_text (JSON_FALSE a) = ''false''"
| "json_text (JSON_NULL a) = ''null''"
| "slots_text first [] = []"
| "slots_text first (None # vs) = slots_text first vs"
| "slots_text first (Some j # vs) = (if first then [] else '','') @ json_text j @ slots_text False vs"

text \<open>No pair lacks its value (\<^verbatim>\<open>createPair\<close> accepts NULL, printing it does not return).\<close>

fun json_complete :: "json \<Rightarrow> bool"
  and slots_complete :: "json option list \<Rightarrow> bool" where
  "json_complete (JSON_PAIR a b str v) = (case v of None \<Rightarrow> False | Some j \<Rightarrow> json_complete j)"
| "json_complete (JSON_OBJECT a c ps) = slots_complete ps"
| "json_complete (JSON_ARRAY a c es) = slots_complete es"
| "json_complete _ = True"
| "slots_complete [] = True"
| "slots_complete (None # vs) = slots_complete vs"
| "slots_complete (Some j # vs) = (json_complete j \<and> slots_complete vs)"

fun json_nodes :: "json \<Rightarrow> nat"
  and slots_nodes :: "json option list \<Rightarrow> nat" where
  "json_nodes (JSON_PAIR a b str v) = Suc (case v of None \<Rightarrow> 0 | Some j \<Rightarrow> json_nodes j)"
| "json_nodes (JSON_OBJECT a c ps) = Suc (slots_nodes ps)"
| "json_nodes (JSON_ARRAY a c es) = Suc (slots_nodes es)"
| "json_nodes _ = 1"
| "slots_nodes [] = 0"
| "slots_nodes (None # vs) = slots_nodes vs"
| "slots_nodes (Some j # vs) = json_nodes j + slots_nodes vs"

lemma buffSize_text:
  "json_complete j \<Longrightarrow> FTE_JSON_VALUE_buffSize j = Some (int (length (json_text j) + json_nodes j))"
  "slots_complete vs \<Longrightarrow> buffSize_slots vs n first = Some (n + int (length (slots_text first vs) + slots_nodes vs))"
  by (induction j and vs n first rule: FTE_JSON_VALUE_buffSize_buffSize_slots.induct)
    (auto simp: opt_simps split: option.splits)

lemma buffSize_incomplete:
  "\<not> json_complete j \<Longrightarrow> FTE_JSON_VALUE_buffSize j = None"
  "\<not> slots_complete vs \<Longrightarrow> buffSize_slots vs n first = None"
  by (induction j and vs n first rule: FTE_JSON_VALUE_buffSize_buffSize_slots.induct)
    (auto split: option.splits Option.bind_splits)

lemma buffSize_SomeD:
  assumes "FTE_JSON_VALUE_buffSize j = Some n"
  shows "json_complete j" "n = int (length (json_text j) + json_nodes j)"
proof -
  show c: "json_complete j" using buffSize_incomplete(1) [of j] assms by (cases "json_complete j") simp_all
  show "n = int (length (json_text j) + json_nodes j)" using buffSize_text(1) [OF c] assms by simp
qed

lemma json_nodes_pos: "0 < json_nodes j"
  by (cases j) simp_all

section \<open>Printing writes the text\<close>

text \<open>A buffer into which \<open>t\<close> has been printed at \<open>off\<close>.\<close>

definition printed :: "nat \<Rightarrow> string \<Rightarrow> string \<Rightarrow> string" where
  "printed off t buf = take off buf @ t @ [CHR 0x00] @ drop (off + length t + 1) buf"

lemma length_printed [simp]: "off + length t < length buf \<Longrightarrow> length (printed off t buf) = length buf"
  by (simp add: printed_def)

lemma printed_more:
  assumes "off + length (t @ s) < length buf"
  shows "printed (off + length t) s (printed off t buf) = printed off (t @ s) buf"
  using assms by (simp add: printed_def ac_simps)

lemma snprintf_at_fits:
  assumes "int (length s) < n" "n < 2 ^ 31" "off + length s < length buf"
  shows "snprintf_at off n s buf = Some (int (length s), printed off s buf)"
proof -
  have n: "unat (word_of_int n :: u32) = nat n"
  proof -
    have "uint (word_of_int n :: u32) = n" using assms by (simp add: uint_word_of_int)
    then show ?thesis by (simp add: unat_eq_nat_uint)
  qed
  then have "0 < nat n" "length s \<le> nat n - 1" using assms by linarith+
  then show ?thesis using assms n by (simp add: snprintf_at_def printed_def Let_def)
qed

lemma snprintf_at_step:
  assumes "int (length (t @ s)) < n" "n < 2 ^ 31" "off + length (t @ s) < length buf"
  shows "snprintf_at (off + length t) (n - int (length t)) s (printed off t buf)
    = Some (int (length s), printed off (t @ s) buf)"
proof -
  have "snprintf_at (off + length t) (n - int (length t)) s (printed off t buf)
      = Some (int (length s), printed (off + length t) s (printed off t buf))"
    by (rule snprintf_at_fits) (use assms in auto)
  then show ?thesis using printed_more [of off t s buf] assms(3) by simp
qed

lemma nat_1_int [simp]: "nat (1 + int k) = Suc k" "nat (int k + 1) = Suc k"
  by simp_all

lemma snprint_text:
  "json_complete j \<Longrightarrow> int (length (json_text j)) < n \<Longrightarrow> n < 2 ^ 31 \<Longrightarrow> off + length (json_text j) < length buf
    \<Longrightarrow> FTE_JSON_VALUE_snprint off n j buf = Some (int (length (json_text j)), printed off (json_text j) buf)"
  "slots_complete vs \<Longrightarrow> int (length (t @ slots_text first vs)) < n \<Longrightarrow> n < 2 ^ 31
    \<Longrightarrow> off + length (t @ slots_text first vs) < length buf
    \<Longrightarrow> snprint_slots off n vs (int (length t)) first (printed off t buf)
      = Some (int (length (t @ slots_text first vs)), printed off (t @ slots_text first vs) buf)"
proof (induction j and first vs arbitrary: off n buf and off n buf t rule: json_text_slots_text.induct)
  case (2 a b str v)
  let ?q = "json_quote str @ '':''"
  obtain j where v: "v = Some j" using "2.prems" by (cases v) simp_all
  have tx: "json_text (JSON_PAIR a b str v) = ?q @ json_text j" by (simp add: v)
  have bnd: "int (length (?q @ json_text j)) < n" "n < 2 ^ 31" "off + length (?q @ json_text j) < length buf"
    using "2.prems" tx by simp_all
  have 1: "snprintf_at off n ?q buf = Some (int (length ?q), printed off ?q buf)"
    by (rule snprintf_at_fits) (use bnd in auto)
  have "FTE_JSON_VALUE_snprint (off + length ?q) (n - int (length ?q)) j (printed off ?q buf)
      = Some (int (length (json_text j)), printed (off + length ?q) (json_text j) (printed off ?q buf))"
    by (rule "2.IH" [OF v]) (use "2.prems" v bnd in auto)
  then have "FTE_JSON_VALUE_snprint (off + length ?q) (n - int (length ?q)) j (printed off ?q buf)
      = Some (int (length (json_text j)), printed off (?q @ json_text j) buf)"
    using printed_more [of off ?q "json_text j" buf] bnd(3) by simp
  then show ?case using 1 v tx by simp
next
  case (3 a c ps)
  let ?t = "''{'' @ slots_text True ps"
  have bnd: "int (length (?t @ ''}'')) < n" "n < 2 ^ 31" "off + length (?t @ ''}'') < length buf"
    using "3.prems" by simp_all
  have 1: "snprintf_at off n ''{'' buf = Some (int (length ''{''), printed off ''{'' buf)"
    by (rule snprintf_at_fits) (use bnd in auto)
  have 2: "snprint_slots off n ps (int (length ''{'')) True (printed off ''{'' buf) = Some (int (length ?t), printed off ?t buf)"
    by (rule "3.IH") (use "3.prems" bnd in auto)
  show ?case using 1 2 snprintf_at_step [OF bnd] by simp
next
  case (4 a c ps)
  let ?t = "''['' @ slots_text True ps"
  have bnd: "int (length (?t @ '']'')) < n" "n < 2 ^ 31" "off + length (?t @ '']'') < length buf"
    using "4.prems" by simp_all
  have 1: "snprintf_at off n ''['' buf = Some (int (length ''[''), printed off ''['' buf)"
    by (rule snprintf_at_fits) (use bnd in auto)
  have 2: "snprint_slots off n ps (int (length ''['')) True (printed off ''['' buf) = Some (int (length ?t), printed off ?t buf)"
    by (rule "4.IH") (use "4.prems" bnd in auto)
  show ?case using 1 2 snprintf_at_step [OF bnd] by simp
next
  case (13 first j vs)
  let ?c = "if first then [] else '',''"
  let ?t = "t @ ?c"
  have bnd: "int (length (?t @ json_text j @ slots_text False vs)) < n" "n < 2 ^ 31"
    "off + length (?t @ json_text j @ slots_text False vs) < length buf"
    using "13.prems" by simp_all
  have 1: "(if first then Some (int (length t), printed off t buf)
      else do { (m, buf) \<leftarrow> snprintf_at (off + nat (int (length t))) (n - int (length t)) '','' (printed off t buf);
           Some (int (length t) + m, buf) }) = Some (int (length ?t), printed off ?t buf)"
    using snprintf_at_step [of t "'',''" n off buf] bnd by auto
  have "FTE_JSON_VALUE_snprint (off + length ?t) (n - int (length ?t)) j (printed off ?t buf)
      = Some (int (length (json_text j)), printed (off + length ?t) (json_text j) (printed off ?t buf))"
    by (rule "13.IH"(1)) (use "13.prems" bnd in auto)
  then have 2: "FTE_JSON_VALUE_snprint (off + length ?t) (n - int (length ?t)) j (printed off ?t buf)
      = Some (int (length (json_text j)), printed off (?t @ json_text j) buf)"
    using printed_more [of off ?t "json_text j" buf] bnd by simp
  have 3: "snprint_slots off n vs (int (length (?t @ json_text j))) False (printed off (?t @ json_text j) buf)
      = Some (int (length ((?t @ json_text j) @ slots_text False vs)), printed off ((?t @ json_text j) @ slots_text False vs) buf)"
    by (rule "13.IH"(2)) (use "13.prems" bnd in auto)
  show ?case using 2 3 unfolding snprint_slots.simps(3) 1 by (cases first) (simp_all add: ac_simps)
qed (simp_all add: snprintf_at_fits)

text \<open>
  C22: a buffer of the size that \<^verbatim>\<open>FTE_JSON_VALUE_buffSize\<close> computes holds the text of the
  document with its terminator: \<^verbatim>\<open>FTE_JSON_VALUE_snprint\<close> into it returns, without an access
  outside the buffer, the length of the text, and the buffer then reads as exactly that
  text.  The size is computed exactly for the documents none of whose pairs lacks a value.
\<close>

theorem FTE_JSON_print_fits:
  assumes "FTE_JSON_VALUE_buffSize j = Some n" "n < 2 ^ 31" "length buf = nat n"
  shows "n = int (length (json_text j) + json_nodes j)
    \<and> FTE_JSON_VALUE_snprint 0 n j buf
      = Some (int (length (json_text j)), json_text j @ [CHR 0x00] @ drop (length (json_text j) + 1) buf)"
proof -
  note n = buffSize_SomeD [OF assms(1)]
  have "int (length (json_text j)) < n" "0 + length (json_text j) < length buf"
    using json_nodes_pos [of j] n(2) assms(3) by simp_all
  from snprint_text(1) [OF n(1) this(1) assms(2) this(2)] show ?thesis using n(2) by (simp add: printed_def)
qed

definition json_demo :: json where
  "json_demo = JSON_OBJECT 8 2 [Some (JSON_PAIR 16 24 ''id'' (Some (JSON_STRING 32 40 ''a1''))),
     Some (JSON_PAIR 48 56 ''t'' (Some (JSON_FLOAT 64 2150))), None]"

lemma json_demo_text: "json_text json_demo = ''{\"id\":\"a1\",\"t\":21.50}''"
  by code_simp

theorem FTE_JSON_print_fits_witness:
  "FTE_JSON_VALUE_snprint 0 26 json_demo (replicate 26 CHR ''x'')
    = Some (21, ''{\"id\":\"a1\",\"t\":21.50}'' @ [CHR 0x00] @ ''xxxx'')"
proof -
  have "FTE_JSON_VALUE_buffSize json_demo = Some 26" by code_simp
  from conjunct2 [OF FTE_JSON_print_fits [OF this, of "replicate 26 CHR ''x''"]] show ?thesis
    by (simp add: json_demo_text eval_nat_numeral)
qed

section \<open>Ownership of blocks\<close>

fun json_blocks :: "json \<Rightarrow> addr list"
  and slots_blocks :: "json option list \<Rightarrow> addr list" where
  "json_blocks (JSON_STRING a b str) = [b, a]"
| "json_blocks (JSON_PAIR a b str v) = b # (case v of None \<Rightarrow> [] | Some j \<Rightarrow> json_blocks j) @ [a]"
| "json_blocks (JSON_OBJECT a c ps) = slots_blocks ps @ [a]"
| "json_blocks (JSON_ARRAY a c es) = slots_blocks es @ [a]"
| "json_blocks (JSON_NUMBER a n) = [a]"
| "json_blocks (JSON_HEX a n) = [a]"
| "json_blocks (JSON_FLOAT a n) = [a]"
| "json_blocks (JSON_TRUE a) = [a]"
| "json_blocks (JSON_FALSE a) = [a]"
| "json_blocks (JSON_NULL a) = [a]"
| "slots_blocks [] = []"
| "slots_blocks (None # vs) = slots_blocks vs"
| "slots_blocks (Some j # vs) = json_blocks j @ slots_blocks vs"

text \<open>The step from \<open>s\<close> to \<open>s'\<close> allocated (released) exactly the blocks of \<open>B\<close>.\<close>

definition owns_new :: "'z kst \<Rightarrow> 'z kst \<Rightarrow> addr list \<Rightarrow> bool" where
  "owns_new s s' B \<longleftrightarrow> pool_ok s' \<and> distinct B \<and> set B \<inter> live s = {} \<and> live s' = live s \<union> set B"

definition released :: "'z kst \<Rightarrow> 'z kst \<Rightarrow> addr list \<Rightarrow> bool" where
  "released s s' B \<longleftrightarrow> pool_ok s' \<and> live s' = live s - set B"

lemma FTE_MEM_alloc_owns:
  assumes "pool_ok s" "FTE_MEM_alloc s = (a, s')"
  shows "owns_new s s' (if a = NULL then [] else [a])"
  using assms by (auto simp: FTE_MEM_alloc_def pool_ok_def owns_new_def split: list.splits if_splits)

lemma FTE_MEM_free_released:
  assumes "pool_ok s" "a \<in> live s"
  shows "\<exists>s'. FTE_MEM_free a s = Some s' \<and> released s s' [a]"
  using assms by (auto simp: FTE_MEM_free_def pool_ok_def released_def)

lemma released_trans: "released s s1 A \<Longrightarrow> released s1 s2 B \<Longrightarrow> released s s2 (A @ B)"
  by (auto simp: released_def)

lemma released_live: "released s s' A \<Longrightarrow> set B \<subseteq> live s \<Longrightarrow> set A \<inter> set B = {} \<Longrightarrow> set B \<subseteq> live s'"
  by (auto simp: released_def)

lemma destroy_releases:
  "pool_ok s \<Longrightarrow> distinct (json_blocks j) \<Longrightarrow> set (json_blocks j) \<subseteq> live s
    \<Longrightarrow> \<exists>s'. FTE_JSON_VALUE_destroy j s = Some (FTE_RET_OK, s') \<and> released s s' (json_blocks j)"
  "pool_ok s \<Longrightarrow> distinct (slots_blocks vs) \<Longrightarrow> set (slots_blocks vs) \<subseteq> live s
    \<Longrightarrow> \<exists>s'. destroy_slots vs s = Some s' \<and> released s s' (slots_blocks vs)"
proof (induction j and vs arbitrary: s and s rule: json_blocks_slots_blocks.induct)
  case (1 a b str)
  then obtain s1 where 1: "FTE_MEM_free b s = Some s1" "released s s1 [b]"
    using FTE_MEM_free_released [of s b] by auto
  then obtain s2 where "FTE_MEM_free a s1 = Some s2" "released s1 s2 [a]"
    using FTE_MEM_free_released [of s1 a] "1.prems" by (auto simp: released_def)
  then show ?case using 1 released_trans [of s s1 "[b]" s2 "[a]"] by simp
next
  case (2 a b str v)
  let ?B = "case v of None \<Rightarrow> [] | Some j \<Rightarrow> json_blocks j"
  obtain s1 where 1: "FTE_MEM_free b s = Some s1" "released s s1 [b]"
    using FTE_MEM_free_released [of s b] "2.prems" by auto
  have "\<exists>s2. (case v of None \<Rightarrow> Some s1 | Some j \<Rightarrow> do { (_, s) \<leftarrow> FTE_JSON_VALUE_destroy j s1; Some s }) = Some s2
    \<and> released s1 s2 ?B"
  proof (cases v)
    case None
    then show ?thesis using 1 by (simp add: released_def)
  next
    case (Some j)
    have "set (json_blocks j) \<subseteq> live s1" "pool_ok s1" "distinct (json_blocks j)"
      using "2.prems" Some released_live [OF 1(2), of "json_blocks j"] 1(2) by (auto simp: released_def)
    with "2.IH" [OF Some, of s1] Some show ?thesis by auto
  qed
  then obtain s2 where 2: "(case v of None \<Rightarrow> Some s1 | Some j \<Rightarrow> do { (_, s) \<leftarrow> FTE_JSON_VALUE_destroy j s1; Some s }) = Some s2"
    "released s1 s2 ?B" by blast
  have 12: "released s s2 (b # ?B)" using released_trans [OF 1(2) 2(2)] by simp
  have "a \<in> live s2" "pool_ok s2" using "2.prems" 12 by (auto simp: released_def)
  then obtain s3 where "FTE_MEM_free a s2 = Some s3" "released s2 s3 [a]" using FTE_MEM_free_released by blast
  then show ?case using 1 2 released_trans [OF 12] by auto
next
  case (3 a c ps)
  then obtain s1 where 1: "destroy_slots ps s = Some s1" "released s s1 (slots_blocks ps)" by auto
  then obtain s2 where "FTE_MEM_free a s1 = Some s2" "released s1 s2 [a]"
    using FTE_MEM_free_released [of s1 a] "3.prems" by (auto simp: released_def)
  then show ?case using 1 released_trans [OF 1(2)] by simp
next
  case (4 a c ps)
  then obtain s1 where 1: "destroy_slots ps s = Some s1" "released s s1 (slots_blocks ps)" by auto
  then obtain s2 where "FTE_MEM_free a s1 = Some s2" "released s1 s2 [a]"
    using FTE_MEM_free_released [of s1 a] "4.prems" by (auto simp: released_def)
  then show ?case using 1 released_trans [OF 1(2)] by simp
next
  case (13 j vs)
  obtain s1 where 1: "FTE_JSON_VALUE_destroy j s = Some (FTE_RET_OK, s1)" "released s s1 (json_blocks j)"
    using "13.IH"(1) [of s] "13.prems" by auto
  have "set (slots_blocks vs) \<subseteq> live s1" "pool_ok s1" "distinct (slots_blocks vs)"
    using "13.prems" released_live [OF 1(2), of "slots_blocks vs"] 1(2) by (auto simp: released_def)
  with "13.IH"(2) [of s1] obtain s2 where "destroy_slots vs s1 = Some s2" "released s1 s2 (slots_blocks vs)" by auto
  then show ?case using 1 released_trans [OF 1(2)] by simp
qed (auto dest: FTE_MEM_free_released simp: released_def)

lemma json_named_owns:
  assumes "pool_ok s"
  shows "\<exists>v s'. json_named f s = Some (v, s')
    \<and> (v = None \<and> owns_new s s' [] \<or> (\<exists>a b. v = Some (f a b) \<and> owns_new s s' [b, a]))"
proof -
  obtain a s1 where 1: "FTE_MEM_alloc s = (a, s1)" by fastforce
  obtain b s2 where 2: "FTE_MEM_alloc s1 = (b, s2)" by fastforce
  note o1 = FTE_MEM_alloc_owns [OF assms 1]
  show ?thesis
  proof (cases "a = NULL")
    case True
    then show ?thesis using 1 o1 by (simp add: json_named_def)
  next
    case a: False
    have p1: "pool_ok s1" using o1 by (simp add: owns_new_def)
    note o2 = FTE_MEM_alloc_owns [OF p1 2]
    show ?thesis
    proof (cases "b = NULL")
      case True
      have "pool_ok s2" "a \<in> live s2" using o1 o2 a True by (auto simp: owns_new_def)
      then obtain s3 where "FTE_MEM_free a s2 = Some s3" "released s2 s3 [a]"
        using FTE_MEM_free_released by blast
      then show ?thesis using 1 2 a True o1 o2 by (auto simp: json_named_def owns_new_def released_def)
    next
      case False
      then show ?thesis using 1 2 a o1 o2 by (auto simp: json_named_def owns_new_def)
    qed
  qed
qed

lemma json_node_owns:
  assumes "pool_ok s"
  shows "\<exists>v s'. json_node f s = Some (v, s')
    \<and> (v = None \<and> owns_new s s' [] \<or> (\<exists>a. v = Some (f a) \<and> owns_new s s' [a]))"
proof -
  obtain a s1 where 1: "FTE_MEM_alloc s = (a, s1)" by fastforce
  show ?thesis using 1 FTE_MEM_alloc_owns [OF assms 1] by (auto simp: json_node_def split: if_splits)
qed

section \<open>Building an object\<close>

text \<open>The calls with which the reports are put together, and the text each one stands for.\<close>

datatype json_cmd = AddString string string | AddNumber string u32

definition json_exec :: "json_cmd \<Rightarrow> json \<Rightarrow> 'z kst \<Rightarrow> (fte_ret \<times> json \<times> 'z kst) option" where
  "json_exec c obj s = (case c of AddString name str \<Rightarrow> FTE_JSON_OBJECT_addStringPair obj name str s
     | AddNumber name n \<Rightarrow> FTE_JSON_OBJECT_addNumberPair obj name n s)"

fun json_execs :: "json_cmd list \<Rightarrow> json \<Rightarrow> 'z kst \<Rightarrow> (fte_ret list \<times> json \<times> 'z kst) option" where
  "json_execs [] obj s = Some ([], obj, s)"
| "json_execs (c # cs) obj s = do {
     (r, obj, s) \<leftarrow> json_exec c obj s;
     (rs, obj, s) \<leftarrow> json_execs cs obj s;
     Some (r # rs, obj, s) }"

definition json_cmd_text :: "json_cmd \<Rightarrow> string" where
  "json_cmd_text c = (case c of AddString name str \<Rightarrow> json_quote name @ '':'' @ json_quote str
     | AddNumber name n \<Rightarrow> json_quote name @ '':'' @ fmt_d (sint n))"

definition accepted :: "json_cmd list \<Rightarrow> fte_ret list \<Rightarrow> json_cmd list" where
  "accepted cs rs = map fst (filter (\<lambda>(c, r). r = FTE_RET_OK) (zip cs rs))"

lemma accepted_simps [simp]:
  "accepted [] rs = []"
  "accepted (c # cs) (r # rs) = (if r = FTE_RET_OK then [c] else []) @ accepted cs rs"
  by (simp_all add: accepted_def)

fun commas :: "string list \<Rightarrow> string" where
  "commas [] = []"
| "commas [t] = t"
| "commas (t # u # ts) = t @ '','' @ commas (u # ts)"

text \<open>The objects these calls produce: the occupied slots are the first ones.\<close>

definition obj_slots :: "addr \<Rightarrow> json list \<Rightarrow> nat \<Rightarrow> json" where
  "obj_slots a js k = JSON_OBJECT a (of_nat (length js)) (map Some js @ replicate k None)"

lemma slots_blocks_append [simp]: "slots_blocks (vs @ ws) = slots_blocks vs @ slots_blocks ws"
  proof (induction vs)
  case (Cons v vs)
  then show ?case by (cases v) simp_all
qed simp

lemma slots_blocks_None [simp]: "slots_blocks (replicate k None) = []"
  by (induction k) simp_all

lemma free_slot_first: "free_slot i (map Some js @ None # vs) = Some (i + length js)"
  by (induction js arbitrary: i) simp_all

lemma slots_text_None [simp]: "slots_text b (replicate k None) = []"
  by (induction k) simp_all

lemma slots_text_filled: "slots_text b (map Some js @ replicate k None)
  = (if js \<noteq> [] \<and> \<not> b then '','' else []) @ commas (map json_text js)"
proof (induction js arbitrary: b)
  case Nil
  then show ?case by simp
next
  case (Cons j js)
  show ?case
  proof (cases js)
    case Nil
    then show ?thesis by simp
  next
    case (Cons i js2)
    then show ?thesis using Cons.IH [of False] by (simp add: Cons)
  qed
qed

lemma owns_new_trans: "owns_new s s1 A \<Longrightarrow> owns_new s1 s2 B \<Longrightarrow> owns_new s s2 (A @ B)"
  by (auto simp: owns_new_def)

lemma owns_new_set: "owns_new s s1 A \<Longrightarrow> distinct B \<Longrightarrow> set A = set B \<Longrightarrow> owns_new s s1 B"
  by (auto simp: owns_new_def)

lemma owns_new_none: "owns_new s s1 A \<Longrightarrow> pool_ok s2 \<Longrightarrow> live s2 = live s1 \<Longrightarrow> owns_new s s2 A"
  by (auto simp: owns_new_def)

text \<open>The object at \<open>a\<close> with its elements, all of whose blocks were allocated since \<open>s0\<close>.\<close>

definition obj_inv :: "'z kst \<Rightarrow> addr \<Rightarrow> json list \<Rightarrow> nat \<Rightarrow> 'z kst \<Rightarrow> bool" where
  "obj_inv s0 a js k s \<longleftrightarrow> length js + k < 2 ^ 32 \<and> list_all json_complete js
     \<and> owns_new s0 s (json_blocks (obj_slots a js k))"

lemma obj_blocks: "json_blocks (obj_slots a js k) = slots_blocks (map Some js) @ [a]"
  by (simp add: obj_slots_def)

lemma obj_inv_push:
  assumes "obj_inv s0 a js (Suc k) s" "owns_new s s' (json_blocks p)" "json_complete p"
  shows "obj_inv s0 a (js @ [p]) k s'"
proof -
  have "owns_new s0 s' (json_blocks (obj_slots a js (Suc k)) @ json_blocks p)"
    using assms(1,2) owns_new_trans by (auto simp: obj_inv_def)
  moreover from this have "distinct (json_blocks (obj_slots a (js @ [p]) k))"
    by (auto simp: owns_new_def obj_blocks)
  ultimately have "owns_new s0 s' (json_blocks (obj_slots a (js @ [p]) k))"
    by (elim owns_new_set) (auto simp: obj_blocks)
  then show ?thesis using assms by (simp add: obj_inv_def)
qed

lemma obj_inv_none: "obj_inv s0 a js k s \<Longrightarrow> owns_new s s' [] \<Longrightarrow> obj_inv s0 a js k s'"
  using owns_new_trans [of s0 s _ s' "[]"] by (simp add: obj_inv_def)

text \<open>The two additions, given what their node creation promises.\<close>

lemma json_add_pair_step:
  assumes inv: "obj_inv s0 a js k s"
    and create: "\<exists>v s1. create s = Some (v, s1) \<and> (v = None \<and> owns_new s s1 []
      \<or> (\<exists>j. v = Some j \<and> owns_new s s1 (json_blocks j) \<and> json_complete j \<and> json_text j = t))"
  shows "\<exists>r js' k' s'. json_add_pair (obj_slots a js k) name create s = Some (r, obj_slots a js' k', s')
    \<and> obj_inv s0 a js' k' s' \<and> length js' + k' = length js + k
    \<and> (r = FTE_RET_OK \<and> map json_text js' = map json_text js @ [json_quote name @ '':'' @ t]
       \<or> r = FTE_RET_ERROR \<and> js' = js \<and> k' = k)"
proof (cases k)
  case 0
  have "length js < 2 ^ 32" using inv by (simp add: obj_inv_def)
  then have "unat (of_nat (length js) :: u32) = length js" by (intro unat_of_nat_small) simp
  then show ?thesis using inv 0
    by (auto simp: json_add_pair_def json_slots_def obj_slots_def)
next
  case (Suc k2)
  have "length js < 2 ^ 32" using inv by (simp add: obj_inv_def)
  then have len: "unat (of_nat (length js) :: u32) = length js" by (intro unat_of_nat_small) simp
  have free: "free_slot 0 (map Some js @ replicate k None) = Some (length js)"
    using free_slot_first [of 0 js "replicate k2 None"] Suc by simp
  have slots: "json_slots (obj_slots a js k) = Some (of_nat (length js), map Some js @ replicate k None)"
    by (simp add: json_slots_def obj_slots_def)
  obtain v s1 where v: "create s = Some (v, s1)" "v = None \<and> owns_new s s1 []
      \<or> (\<exists>j. v = Some j \<and> owns_new s s1 (json_blocks j) \<and> json_complete j \<and> json_text j = t)" using create by blast
  from v(2) show ?thesis
  proof
    assume "v = None \<and> owns_new s s1 []"
    then show ?thesis using v(1) slots len Suc obj_inv_none [OF inv] by (auto simp: json_add_pair_def)
  next
    assume "\<exists>j. v = Some j \<and> owns_new s s1 (json_blocks j) \<and> json_complete j \<and> json_text j = t"
    then obtain j where j: "v = Some j" "owns_new s s1 (json_blocks j)" "json_complete j" "json_text j = t" by blast
    then have "pool_ok s1" by (simp add: owns_new_def)
    from json_named_owns [OF this, of "\<lambda>a b. JSON_PAIR a b name (Some j)"] obtain p s2 where
      p: "FTE_JSON_VALUE_createPair name (Some j) s1 = Some (p, s2)"
      "p = None \<and> owns_new s1 s2 [] \<or> (\<exists>x y. p = Some (JSON_PAIR x y name (Some j)) \<and> owns_new s1 s2 [y, x])"
      by (auto simp: FTE_JSON_VALUE_createPair_def)
    from p(2) show ?thesis
    proof
      assume n: "p = None \<and> owns_new s1 s2 []"
      then have o: "owns_new s s2 (json_blocks j)" using owns_new_trans [OF j(2), of s2 "[]"] by simp
      then obtain s3 where s3: "FTE_JSON_VALUE_destroy j s2 = Some (FTE_RET_OK, s3)" "released s2 s3 (json_blocks j)"
        using destroy_releases(1) [of s2 j] by (auto simp: owns_new_def)
      then have "owns_new s s3 []" using o by (auto simp: owns_new_def released_def)
      from obj_inv_none [OF inv this] have "obj_inv s0 a js k s3" .
      then show ?thesis using v(1) j(1) p(1) n s3(1) slots len free Suc by (auto simp: json_add_pair_def)
    next
      assume "\<exists>x y. p = Some (JSON_PAIR x y name (Some j)) \<and> owns_new s1 s2 [y, x]"
      then obtain x y where x: "p = Some (JSON_PAIR x y name (Some j))" "owns_new s1 s2 [y, x]" by blast
      let ?p = "JSON_PAIR x y name (Some j)"
      have o: "owns_new s s2 (json_blocks j @ [y, x])" using owns_new_trans [OF j(2) x(2)] .
      then have "distinct (json_blocks ?p)" by (auto simp: owns_new_def)
      with o have "owns_new s s2 (json_blocks ?p)" by (elim owns_new_set) auto
      then have inv2: "obj_inv s0 a (js @ [?p]) k2 s2" using obj_inv_push inv j(3) Suc by fastforce
      have "json_set_slot (obj_slots a js k) (length js) ?p = obj_slots a (js @ [?p]) k2"
        by (simp add: json_set_slot_def obj_slots_def Suc list_update_append)
      then have "json_add_pair (obj_slots a js k) name create s = Some (FTE_RET_OK, obj_slots a (js @ [?p]) k2, s2)"
        using v(1) j(1) p(1) x(1) slots len free Suc by (simp add: json_add_pair_def)
      then show ?thesis using inv2 j(4) Suc by (intro exI [of _ FTE_RET_OK] exI [of _ "js @ [?p]"] exI) auto
    qed
  qed
qed

lemma json_exec_step:
  assumes "obj_inv s0 a js k s"
  shows "\<exists>r js' k' s'. json_exec c (obj_slots a js k) s = Some (r, obj_slots a js' k', s')
    \<and> obj_inv s0 a js' k' s' \<and> length js' + k' = length js + k
    \<and> (r = FTE_RET_OK \<and> map json_text js' = map json_text js @ [json_cmd_text c]
       \<or> r = FTE_RET_ERROR \<and> js' = js \<and> k' = k)"
proof -
  have s: "pool_ok s" using assms by (simp add: obj_inv_def owns_new_def)
  show ?thesis
  proof (cases c)
    case (AddString name str)
    have "\<exists>v s1. FTE_JSON_VALUE_createString str s = Some (v, s1) \<and> (v = None \<and> owns_new s s1 []
      \<or> (\<exists>j. v = Some j \<and> owns_new s s1 (json_blocks j) \<and> json_complete j \<and> json_text j = json_quote str))"
      using json_named_owns [OF s, of "\<lambda>a b. JSON_STRING a b str"] by (auto simp: FTE_JSON_VALUE_createString_def)
    from json_add_pair_step [OF assms, where create = "FTE_JSON_VALUE_createString str", OF this] show ?thesis
      by (simp add: AddString json_exec_def FTE_JSON_OBJECT_addStringPair_def json_cmd_text_def)
  next
    case (AddNumber name n)
    have "\<exists>v s1. FTE_JSON_VALUE_createNumber n s = Some (v, s1) \<and> (v = None \<and> owns_new s s1 []
      \<or> (\<exists>j. v = Some j \<and> owns_new s s1 (json_blocks j) \<and> json_complete j \<and> json_text j = fmt_d (sint n)))"
      using json_node_owns [OF s, of "\<lambda>a. JSON_NUMBER a n"] by (auto simp: FTE_JSON_VALUE_createNumber_def)
    from json_add_pair_step [OF assms, where create = "FTE_JSON_VALUE_createNumber n", OF this] show ?thesis
      by (simp add: AddNumber json_exec_def FTE_JSON_OBJECT_addNumberPair_def json_cmd_text_def)
  qed
qed

lemma json_execs_object:
  assumes "obj_inv s0 a js k s"
  shows "\<exists>rs js' k' s'. json_execs cs (obj_slots a js k) s = Some (rs, obj_slots a js' k', s')
    \<and> obj_inv s0 a js' k' s' \<and> length js' + k' = length js + k
    \<and> map json_text js' = map json_text js @ map json_cmd_text (accepted cs rs)"
  using assms
proof (induction cs arbitrary: js k s)
  case Nil
  then show ?case by auto
next
  case (Cons c cs)
  obtain r js1 k1 s1 where 1: "json_exec c (obj_slots a js k) s = Some (r, obj_slots a js1 k1, s1)"
    "obj_inv s0 a js1 k1 s1" "length js1 + k1 = length js + k"
    "r = FTE_RET_OK \<and> map json_text js1 = map json_text js @ [json_cmd_text c] \<or> r = FTE_RET_ERROR \<and> js1 = js \<and> k1 = k"
    using json_exec_step [OF Cons.prems, of c] by blast
  obtain rs js2 k2 s2 where 2: "json_execs cs (obj_slots a js1 k1) s1 = Some (rs, obj_slots a js2 k2, s2)"
    "obj_inv s0 a js2 k2 s2" "length js2 + k2 = length js1 + k1"
    "map json_text js2 = map json_text js1 @ map json_cmd_text (accepted cs rs)"
    using Cons.IH [OF 1(2)] by blast
  have "map json_text js2 = map json_text js @ map json_cmd_text (accepted (c # cs) (r # rs))"
    using 1(4) 2(4) by auto
  then show ?case using 1(1,3) 2(1-3) by (intro exI [of _ "r # rs"] exI [of _ js2] exI [of _ k2] exI [of _ s2]) simp
qed

lemma slots_complete_filled: "list_all json_complete js \<Longrightarrow> slots_complete (map Some js @ replicate k None)"
proof (induction js)
  case Nil
  then show ?case by (induction k) simp_all
qed simp

text \<open>
  C23: whatever pairs are added to an object of \<open>n\<close> slots, and whatever allocations fail on
  the way, every addition returns, the object says exactly the accepted pairs in order (at
  most \<open>n\<close>), and its release gives back every block allocated since before its creation
  and no other.
\<close>

theorem FTE_JSON_build_destroy:
  assumes "pool_ok s" "n < 2 ^ 32" "FTE_JSON_VALUE_createObject n s = Some (Some obj, s1)"
  shows "\<exists>rs obj' s2 s3. json_execs cs obj s1 = Some (rs, obj', s2)
    \<and> json_complete obj' \<and> length (accepted cs rs) \<le> n
    \<and> json_text obj' = ''{'' @ commas (map json_cmd_text (accepted cs rs)) @ ''}''
    \<and> FTE_JSON_VALUE_destroy obj' s2 = Some (FTE_RET_OK, s3) \<and> pool_ok s3 \<and> live s3 = live s"
proof -
  obtain a where a: "obj = obj_slots a [] n" "owns_new s s1 [a]"
    using json_node_owns [OF assms(1), of "\<lambda>a. JSON_OBJECT a 0 (replicate n None)"] assms(3)
    by (auto simp: FTE_JSON_VALUE_createObject_def obj_slots_def)
  then have "obj_inv s a [] n s1" using assms(2) by (simp add: obj_inv_def obj_blocks)
  from json_execs_object [OF this, of cs] obtain rs js k s2 where
    2: "json_execs cs obj s1 = Some (rs, obj_slots a js k, s2)" "obj_inv s a js k s2" "length js + k = n"
      "map json_text js = map json_cmd_text (accepted cs rs)"
    using a(1) by auto
  have o: "owns_new s s2 (json_blocks (obj_slots a js k))" using 2(2) by (simp add: obj_inv_def)
  then obtain s3 where "FTE_JSON_VALUE_destroy (obj_slots a js k) s2 = Some (FTE_RET_OK, s3)"
    "released s2 s3 (json_blocks (obj_slots a js k))"
    using destroy_releases(1) [of s2 "obj_slots a js k"] by (auto simp: owns_new_def)
  moreover from this(2) o have "pool_ok s3 \<and> live s3 = live s" by (auto simp: owns_new_def released_def)
  moreover have "json_complete (obj_slots a js k)"
    using 2(2) slots_complete_filled by (simp add: obj_inv_def obj_slots_def)
  moreover have "json_text (obj_slots a js k) = ''{'' @ commas (map json_cmd_text (accepted cs rs)) @ ''}''"
    using 2(4) by (simp add: obj_slots_def slots_text_filled)
  moreover have "length (accepted cs rs) \<le> n" using 2(3,4) by (metis le_add1 length_map)
  ultimately show ?thesis using 2(1) by blast
qed

text \<open>A store of seven blocks with one refusal among its answers, which meets the second pair.\<close>

definition json_store :: fte_kernel where
  "json_store = \<lparr>pool = [8, 16, 24, 32, 40, 48, NULL, 56], live = {}, nodes = Map.empty, lists = Map.empty,
     sems = Map.empty, unstable = False\<rparr>"

theorem FTE_JSON_build_destroy_witness:
  "\<exists>obj s1 rs obj' s2 s3. FTE_JSON_VALUE_createObject 2 json_store = Some (Some obj, s1)
    \<and> json_execs [AddString ''id'' ''a1'', AddNumber ''n'' 7, AddNumber ''n'' 8] obj s1 = Some (rs, obj', s2)
    \<and> length (accepted [AddString ''id'' ''a1'', AddNumber ''n'' 7, AddNumber ''n'' 8] rs) \<le> 2
    \<and> FTE_JSON_VALUE_destroy obj' s2 = Some (FTE_RET_OK, s3) \<and> live s3 = live json_store"
proof -
  have ok: "pool_ok json_store" by (simp add: json_store_def pool_ok_def)
  obtain s1 where 1: "FTE_JSON_VALUE_createObject 2 json_store = Some (Some (obj_slots 8 [] 2), s1)"
    by (simp add: FTE_JSON_VALUE_createObject_def json_node_def json_store_def FTE_MEM_alloc_def obj_slots_def)
  from FTE_JSON_build_destroy [OF ok _ 1, of "[AddString ''id'' ''a1'', AddNumber ''n'' 7, AddNumber ''n'' 8]"] 1
  show ?thesis by auto
qed

text \<open>
  a negative reading that is not a whole number is printed with a second minus sign
  behind the point, which is not a JSON number.
\<close>

lemma FTE_JSON_negative_float:
  assumes "sint n < 0" "c_rem (sint n) 100 \<noteq> 0"
  shows "json_text (JSON_FLOAT a n)
    = fmt_d (- ((- sint n) div 100)) @ ''.-'' @ num_string 10 (nat ((- sint n) mod 100))"
proof -
  have q: "c_quot (sint n) 100 = - ((- sint n) div 100)" using assms(1) by (simp add: c_quot_def)
  have r: "c_rem (sint n) 100 = - ((- sint n) mod 100)"
    unfolding c_rem_def q using div_mult_mod_eq [of "- sint n" 100] by linarith
  moreover have "0 \<le> (- sint n) mod 100" by simp
  ultimately have neg: "c_rem (sint n) 100 < 0" using assms(2) by linarith
  have "zero_pad 1 (num_string 10 k) = num_string 10 k" for k
    using num_string_not_empty [of 10 k] by (cases "num_string 10 k") (simp_all add: zero_pad_def)
  then show ?thesis using assms(2) neg by (simp add: fmt_json_float_def fmt_0d_def q r)
qed

lemma FTE_JSON_negative_float_witness:
  "json_text (JSON_FLOAT 8 (- 150)) = ''-1.-50''"
proof -
  have "sint (- 150 :: u32) = - 150" by simp
  then show ?thesis using FTE_JSON_negative_float [of "- 150" 8]
    by (simp add: c_rem_def c_quot_def) code_simp
qed

end
