(* ===== verification/FTE_Log.thy ===== *)
theory FTE_Log
  imports FTE_Config FTE_Value
begin

unbundle bit_operations_syntax

text \<open>
  The journal of \<^verbatim>\<open>target/source/fte_log.c\<close>: a ring of log entries in memory, saved to two
  flash devices that are written alternately and read at start-up.  The ring is shown to
  refine a list that keeps the latest 144 entries, through a locale that states the
  interface of a bounded journal; the last part shows what a restart restores.

  As for the configuration, the compiler's layout of the pool is a parameter, and the lock
  that brackets the operations is left out: a failure to take it is only reported.
\<close>

section \<open>Data\<close>

datatype log_type = FTE_LOG_TYPE_SYSTEM | FTE_LOG_TYPE_EVENT

text \<open>The two members of the union \<^verbatim>\<open>xParam\<close> share their words: \<^verbatim>\<open>xSystem.xMsg\<close> is the first word,
  \<^verbatim>\<open>xEvent\<close> is all four.  A system entry leaves the other words as they were.\<close>

record fte_log =
  logType :: log_type
  logTime :: time_struct
  param0 :: u32
  param1 :: u32
  param2 :: u32
  param3 :: u32

record log_body =
  logCount :: u32
  logHead :: u32
  logTail :: u32
  pLogs :: "fte_log list"

text \<open>The file's static variables.\<close>

record log_state =
  logPool :: "log_body cfg_pool"
  bLogModified :: bool

text \<open>\<^verbatim>\<open>(0x1000 - sizeof(FTE_UINT32) * 6) / sizeof(FTE_LOG)\<close> with entries of 28 bytes.\<close>

definition MAX_LOG_COUNT :: nat where "MAX_LOG_COUNT = (0x1000 - 4 * 6) div 28"

definition FTE_LOG_TAG :: u32 where "FTE_LOG_TAG = 0x12345678"

definition log_entry_zero :: fte_log where
  "log_entry_zero = \<lparr>logType = FTE_LOG_TYPE_SYSTEM, logTime = \<lparr>SECONDS = 0, MILLISECONDS = 0\<rparr>,
     param0 = 0, param1 = 0, param2 = 0, param3 = 0\<rparr>"

definition log_body_zero :: log_body where
  "log_body_zero = \<lparr>logCount = 0, logHead = 0, logTail = 0, pLogs = replicate MAX_LOG_COUNT log_entry_zero\<rparr>"

section \<open>Entries\<close>

text \<open>What the three writing functions share: the position after the newest entry advances, and a
  full ring forgets its oldest entry.\<close>

definition log_advance :: "log_body \<Rightarrow> log_body" where
  "log_advance b =
     (let b = b\<lparr>logTail := (logTail b + 1) mod of_nat MAX_LOG_COUNT\<rparr>;
          b = b\<lparr>logCount := logCount b + 1\<rparr>
      in if of_nat MAX_LOG_COUNT \<le> logCount b
         then b\<lparr>logHead := (logHead b + 1) mod of_nat MAX_LOG_COUNT, logCount := of_nat MAX_LOG_COUNT - 1\<rparr>
         else b)"

text \<open>A write through \<^verbatim>\<open>xPool.pLogs[xPool.ulTail]\<close>.\<close>

definition log_write :: "(fte_log \<Rightarrow> fte_log) \<Rightarrow> log_body \<Rightarrow> log_body option" where
  "log_write f b = do {
     guard_opt (unat (logTail b) < length (pLogs b));
     Some (b\<lparr>pLogs := (pLogs b)[unat (logTail b) := f (pLogs b ! unat (logTail b))]\<rparr>)
   }"

text \<open>The time stamp is what \<^verbatim>\<open>_time_get\<close> answers.\<close>

definition FTE_LOG_addSystem :: "time_struct \<Rightarrow> u32 \<Rightarrow> log_state \<Rightarrow> (fte_ret \<times> log_state) option" where
  "FTE_LOG_addSystem now xMsg st = do {
     b \<leftarrow> log_write (\<lambda>e. e\<lparr>logType := FTE_LOG_TYPE_SYSTEM, logTime := now, param0 := xMsg\<rparr>) (body (logPool st));
     Some (FTE_RET_OK, st\<lparr>logPool := (logPool st)\<lparr>body := log_advance b\<rparr>, bLogModified := True\<rparr>)
   }"

text \<open>\<^verbatim>\<open>pValue->xType\<close> is stored as the number of the type, its place in the enumeration.\<close>

definition value_type_number :: "fte_value_type \<Rightarrow> u32" where
  "value_type_number ty = (case ty of FTE_VALUE_TYPE_ULONG \<Rightarrow> 0 | FTE_VALUE_TYPE_BOOL \<Rightarrow> 1
     | FTE_VALUE_TYPE_TEMPERATURE \<Rightarrow> 2 | FTE_VALUE_TYPE_HUMIDITY \<Rightarrow> 3 | FTE_VALUE_TYPE_PPM \<Rightarrow> 4
     | FTE_VALUE_TYPE_DIO \<Rightarrow> 5 | FTE_VALUE_TYPE_VOLTAGE \<Rightarrow> 6 | FTE_VALUE_TYPE_CURRENT \<Rightarrow> 7
     | FTE_VALUE_TYPE_PRESSURE \<Rightarrow> 8 | FTE_VALUE_TYPE_LED \<Rightarrow> 9 | FTE_VALUE_TYPE_PWR_KWH \<Rightarrow> 10
     | FTE_VALUE_TYPE_PWR_KW \<Rightarrow> 11 | FTE_VALUE_TYPE_HEX32 \<Rightarrow> 12 | FTE_VALUE_TYPE_PH \<Rightarrow> 13
     | FTE_VALUE_TYPE_MM \<Rightarrow> 14 | FTE_VALUE_TYPE_MAX \<Rightarrow> 15)"

definition FTE_LOG_addEvent :: "time_struct \<Rightarrow> u32 \<Rightarrow> u32 \<Rightarrow> fte_value \<Rightarrow> log_state \<Rightarrow> (fte_ret \<times> log_state) option" where
  "FTE_LOG_addEvent now oid lvl v st = do {
     b \<leftarrow> log_write (\<lambda>e. e\<lparr>logType := FTE_LOG_TYPE_EVENT, logTime := now, param0 := oid, param1 := lvl,
            param2 := value_type_number (xType v), param3 := xData v\<rparr>) (body (logPool st));
     Some (FTE_RET_OK, st\<lparr>logPool := (logPool st)\<lparr>body := log_advance b\<rparr>, bLogModified := True\<rparr>)
   }"

definition FTE_LOG_del :: "u32 \<Rightarrow> log_state \<Rightarrow> u32 \<times> log_state" where
  "FTE_LOG_del n st =
     (let b = body (logPool st) in
      if logCount b \<le> n
      then (logCount b, st\<lparr>logPool := (logPool st)\<lparr>body := b\<lparr>logHead := logTail b, logCount := 0\<rparr>\<rparr>\<rparr>)
      else (n, st\<lparr>logPool := (logPool st)\<lparr>body := b\<lparr>logHead := (logHead b + n) mod of_nat MAX_LOG_COUNT,
              logCount := logCount b - n\<rparr>\<rparr>\<rparr>))"

definition FTE_LOG_count :: "log_state \<Rightarrow> u32" where
  "FTE_LOG_count st = logCount (body (logPool st))"

text \<open>The pointer returned is the number of the slot; NULL is \<open>None\<close>.\<close>

definition FTE_LOG_getAt :: "u32 \<Rightarrow> log_state \<Rightarrow> nat option" where
  "FTE_LOG_getAt n st =
     (let b = body (logPool st) in
      if logCount b \<le> 0 \<or> logCount b \<le> n then None
      else Some (unat ((logHead b + n) mod of_nat MAX_LOG_COUNT)))"

definition FTE_LOG_getSystemMessageString :: "u32 \<Rightarrow> string" where
  "FTE_LOG_getSystemMessageString xMsg = (if xMsg < 1 then [''system start!''] ! unat xMsg else [])"

section \<open>Persistence\<close>

text \<open>The serial number, the tag and the checksum of an image about to be written.\<close>

definition log_stamp :: "(log_body \<Rightarrow> u8 list) \<Rightarrow> log_body cfg_pool \<Rightarrow> log_body cfg_pool" where
  "log_stamp enc p =
     (let p = p\<lparr>poolID := poolID p + 1\<rparr>; p = p\<lparr>ulTag := FTE_LOG_TAG\<rparr> in p\<lparr>ulCRC := pool_crc enc p\<rparr>)"

definition FTE_LOG_save :: "(log_body \<Rightarrow> u8 list) \<Rightarrow> log_body cfg_pool \<Rightarrow> log_state \<Rightarrow> (nat \<Rightarrow> log_body mtd) \<Rightarrow> write_outcome list
    \<Rightarrow> fte_ret \<times> log_state \<times> (nat \<Rightarrow> log_body mtd) \<times> write_outcome list \<times> save_outcome" where
  "FTE_LOG_save enc torn st D ws =
     (if \<not> bLogModified st then (FTE_RET_OK, st, D, ws, Saved)
      else
        let p = log_stamp enc (logPool st);
            nMTD = unat (poolID p AND 1)
        in case D nMTD of
             None \<Rightarrow> (FTE_RET_OK, st\<lparr>logPool := p, bLogModified := False\<rparr>, D, ws, Saved)
           | Some _ \<Rightarrow> (case ws of
               [] \<Rightarrow> (FTE_RET_OK, st\<lparr>logPool := p, bLogModified := False\<rparr>, D(nMTD := Some p), [], Saved)
             | WOk # ws \<Rightarrow> (FTE_RET_OK, st\<lparr>logPool := p, bLogModified := False\<rparr>, D(nMTD := Some p), ws, Saved)
             | WShort # ws \<Rightarrow> (FTE_RET_OK, st\<lparr>logPool := p, bLogModified := False\<rparr>, D(nMTD := Some torn), ws, Saved)
             | WCut # ws \<Rightarrow> (FTE_RET_OK, st\<lparr>logPool := p\<rparr>, D(nMTD := Some torn), ws, PowerLost)))"

definition log_pool_valid :: "(log_body \<Rightarrow> u8 list) \<Rightarrow> log_body cfg_pool \<Rightarrow> bool" where
  "log_pool_valid enc p \<longleftrightarrow> ulCRC p = pool_crc enc p \<and> ulTag p = FTE_LOG_TAG \<and> poolID p \<le> 0x7FFFFFFF"

text \<open>The body of the loading loop for one device.\<close>

definition log_load_step :: "(log_body \<Rightarrow> u8 list) \<Rightarrow> log_body mtd \<Rightarrow> log_body cfg_pool \<Rightarrow> log_body cfg_pool" where
  "log_load_step enc fp cur = (case fp of None \<Rightarrow> cur
     | Some p \<Rightarrow> if \<not> log_pool_valid enc p then cur else if poolID cur < poolID p then p else cur)"

text \<open>\<^verbatim>\<open>for(int nMTD = 0 ; nMTD < 1 ; nMTD++)\<close> has one turn.  The first two arguments are the answers
  of \<^verbatim>\<open>FTE_SYS_LOCK_init\<close> and of the allocator.\<close>

definition FTE_LOG_init :: "bool \<Rightarrow> bool \<Rightarrow> (log_body \<Rightarrow> u8 list) \<Rightarrow> log_body cfg_pool \<Rightarrow> log_state \<Rightarrow> (nat \<Rightarrow> log_body mtd) \<Rightarrow> write_outcome list
    \<Rightarrow> fte_ret \<times> log_state \<times> (nat \<Rightarrow> log_body mtd) \<times> write_outcome list \<times> save_outcome" where
  "FTE_LOG_init lock mem enc torn st D ws =
     (let st = st\<lparr>logPool := pool_zero log_body_zero\<rparr> in
      if \<not> lock then (FTE_RET_ERROR, st, D, ws, Saved)
      else if \<not> mem then (FTE_RET_ERROR, st, D, ws, Saved)
      else
        let st = st\<lparr>logPool := foldl (\<lambda>cur nMTD. log_load_step enc (D nMTD) cur) (logPool st) [0..<1]\<rparr>
        in if ulTag (logPool st) \<noteq> FTE_LOG_TAG
           then FTE_LOG_save enc torn (st\<lparr>bLogModified := True\<rparr>) D ws
           else (FTE_RET_OK, st, D, ws, Saved))"

section \<open>The interface of a bounded journal\<close>

text \<open>Commands on a journal, executed on an implementation given by its operations and on the
  list of entries it stands for, which keeps the last \<open>cap\<close> of them.\<close>

datatype 'i journal_cmd = JAppend 'i | JDelete u32 | JCount | JLook u32

datatype 'e journal_out = JRet fte_ret | JNum u32 | JEntry "'e option"

fun journal_exec :: "('i \<Rightarrow> 's \<Rightarrow> (fte_ret \<times> 's) option) \<Rightarrow> (u32 \<Rightarrow> 's \<Rightarrow> u32 \<times> 's) \<Rightarrow> ('s \<Rightarrow> u32) \<Rightarrow> (u32 \<Rightarrow> 's \<Rightarrow> 'e option)
    \<Rightarrow> 'i journal_cmd list \<Rightarrow> 's \<Rightarrow> ('e journal_out list \<times> 's) option" where
  "journal_exec add del cnt look [] s = Some ([], s)"
| "journal_exec add del cnt look (JAppend i # cs) s = do {
     (r, s) \<leftarrow> add i s;
     (outs, s) \<leftarrow> journal_exec add del cnt look cs s;
     Some (JRet r # outs, s) }"
| "journal_exec add del cnt look (JDelete n # cs) s =
     (let (k, s) = del n s in do {
        (outs, s) \<leftarrow> journal_exec add del cnt look cs s;
        Some (JNum k # outs, s) })"
| "journal_exec add del cnt look (JCount # cs) s = do {
     (outs, s') \<leftarrow> journal_exec add del cnt look cs s;
     Some (JNum (cnt s) # outs, s') }"
| "journal_exec add del cnt look (JLook n # cs) s = do {
     (outs, s') \<leftarrow> journal_exec add del cnt look cs s;
     Some (JEntry (look n s) # outs, s') }"

definition keep_last :: "nat \<Rightarrow> 'e list \<Rightarrow> 'e list" where
  "keep_last cap xs = drop (length xs - cap) xs"

fun journal_spec :: "nat \<Rightarrow> ('i \<Rightarrow> 'e) \<Rightarrow> 'i journal_cmd list \<Rightarrow> 'e list \<Rightarrow> 'e journal_out list \<times> 'e list" where
  "journal_spec cap entry [] xs = ([], xs)"
| "journal_spec cap entry (JAppend i # cs) xs =
     (let (outs, ys) = journal_spec cap entry cs (keep_last cap (xs @ [entry i])) in (JRet FTE_RET_OK # outs, ys))"
| "journal_spec cap entry (JDelete n # cs) xs =
     (let (outs, ys) = journal_spec cap entry cs (drop (unat n) xs)
      in (JNum (of_nat (min (unat n) (length xs))) # outs, ys))"
| "journal_spec cap entry (JCount # cs) xs =
     (let (outs, ys) = journal_spec cap entry cs xs in (JNum (of_nat (length xs)) # outs, ys))"
| "journal_spec cap entry (JLook n # cs) xs =
     (let (outs, ys) = journal_spec cap entry cs xs
      in (JEntry (if unat n < length xs then Some (xs ! unat n) else None) # outs, ys))"

lemma length_keep_last [simp]: "length (keep_last cap xs) = min cap (length xs)"
  by (simp add: keep_last_def)

lemma keep_last_keep_last:
  "keep_last cap (keep_last cap xs @ ys) = keep_last cap (xs @ ys)"
  by (cases "length xs \<le> cap") (auto simp: keep_last_def add.commute)

text \<open>The laws of an implementation: a state that is \<open>ok\<close> stands for the list \<open>entries\<close>.\<close>

locale bounded_journal =
  fixes cap :: nat
    and ok :: "'s \<Rightarrow> bool"
    and entries :: "'s \<Rightarrow> 'e list"
    and entry :: "'i \<Rightarrow> 'e"
    and add :: "'i \<Rightarrow> 's \<Rightarrow> (fte_ret \<times> 's) option"
    and del :: "u32 \<Rightarrow> 's \<Rightarrow> u32 \<times> 's"
    and cnt :: "'s \<Rightarrow> u32"
    and look :: "u32 \<Rightarrow> 's \<Rightarrow> 'e option"
  assumes add_law: "ok s \<Longrightarrow> \<exists>s'. add i s = Some (FTE_RET_OK, s') \<and> ok s'
      \<and> entries s' = keep_last cap (entries s @ [entry i])"
    and del_law: "ok s \<Longrightarrow> \<exists>s'. del n s = (of_nat (min (unat n) (length (entries s))), s') \<and> ok s'
      \<and> entries s' = drop (unat n) (entries s)"
    and cnt_law: "ok s \<Longrightarrow> cnt s = of_nat (length (entries s))"
    and look_law: "ok s \<Longrightarrow> look n s = (if unat n < length (entries s) then Some (entries s ! unat n) else None)"
    and bound_law: "ok s \<Longrightarrow> length (entries s) \<le> cap"
begin

lemma exec_refines:
  assumes "ok s"
  shows "\<exists>s'. journal_exec add del cnt look cs s = Some (fst (journal_spec cap entry cs (entries s)), s')
    \<and> ok s' \<and> entries s' = snd (journal_spec cap entry cs (entries s))"
  using assms
proof (induction cs arbitrary: s)
  case Nil
  then show ?case by simp
next
  case (Cons c cs)
  show ?case
  proof (cases c)
    case (JAppend i)
    obtain s1 where 1: "add i s = Some (FTE_RET_OK, s1)" "ok s1"
      "entries s1 = keep_last cap (entries s @ [entry i])"
      using add_law [OF Cons.prems] by blast
    from Cons.IH [OF 1(2)] show ?thesis using 1 JAppend by (auto simp: case_prod_unfold Let_def)
  next
    case (JDelete n)
    obtain s1 where 1: "del n s = (of_nat (min (unat n) (length (entries s))), s1)" "ok s1"
      "entries s1 = drop (unat n) (entries s)"
      using del_law [OF Cons.prems] by blast
    from Cons.IH [OF 1(2)] show ?thesis using 1 JDelete by (auto simp: case_prod_unfold Let_def)
  next
    case JCount
    then show ?thesis using Cons.IH [OF Cons.prems] cnt_law [OF Cons.prems] by (auto simp: case_prod_unfold Let_def)
  next
    case (JLook n)
    then show ?thesis using Cons.IH [OF Cons.prems] look_law [OF Cons.prems] by (auto simp: case_prod_unfold Let_def)
  qed
qed

text \<open>A run of appends leaves the last \<open>cap\<close> entries.\<close>

lemma spec_appends:
  "length xs \<le> cap \<Longrightarrow>
   snd (journal_spec cap entry (map JAppend is) xs) = keep_last cap (xs @ map entry is)"
proof (induction "is" arbitrary: xs)
  case Nil
  then show ?case by (simp add: keep_last_def)
next
  case (Cons i "is")
  have "snd (journal_spec cap entry (map JAppend is) (keep_last cap (xs @ [entry i])))
      = keep_last cap (keep_last cap (xs @ [entry i]) @ map entry is)"
    by (rule Cons.IH) simp
  then show ?case by (simp add: case_prod_unfold Let_def keep_last_keep_last)
qed

lemma appends_keep_last:
  assumes "ok s"
  shows "\<exists>outs s'. journal_exec add del cnt look (map JAppend is) s = Some (outs, s') \<and> ok s'
    \<and> entries s' = keep_last cap (entries s @ map entry is)"
  using exec_refines [OF assms, of "map JAppend is"] spec_appends [OF bound_law [OF assms], of "is"] by auto

end

section \<open>The ring\<close>

definition ring_items :: "nat \<Rightarrow> nat \<Rightarrow> nat \<Rightarrow> 'a list \<Rightarrow> 'a list" where
  "ring_items m h c ps = map (\<lambda>i. ps ! ((h + i) mod m)) [0..<c]"

lemma length_ring_items [simp]: "length (ring_items m h c ps) = c"
  by (simp add: ring_items_def)

lemma ring_items_nth: "i < c \<Longrightarrow> ring_items m h c ps ! i = ps ! ((h + i) mod m)"
  by (simp add: ring_items_def)

lemma ring_items_drop: "ring_items m ((h + k) mod m) (c - k) ps = drop k (ring_items m h c ps)"
  by (rule nth_equalityI) (auto simp: ring_items_nth mod_simps ac_simps)

lemma mod_apart:
  assumes "i < c" "c < (m :: nat)"
  shows "(h + i) mod m \<noteq> (h + c) mod m"
proof
  assume "(h + i) mod m = (h + c) mod m"
  then have "m dvd (h + c) - (h + i)" using assms by (metis add_le_cancel_left less_imp_le mod_eq_dvd_iff_nat)
  then have "m dvd c - i" by simp
  then show False using assms by (auto dest: dvd_imp_le)
qed

lemma ring_items_write:
  assumes "c < m" "length ps = m"
  shows "ring_items m h (Suc c) (ps[(h + c) mod m := x]) = ring_items m h c ps @ [x]"
  using assms mod_apart [of _ c m h, symmetric] by (auto simp: ring_items_def)

section \<open>The journal of the code\<close>

text \<open>What an entry says, whichever words of the union are left over.\<close>

datatype log_entry = LogSystem time_struct u32 | LogEvent time_struct u32 u32 u32 u32

definition log_view :: "fte_log \<Rightarrow> log_entry" where
  "log_view e = (case logType e of
       FTE_LOG_TYPE_SYSTEM \<Rightarrow> LogSystem (logTime e) (param0 e)
     | FTE_LOG_TYPE_EVENT \<Rightarrow> LogEvent (logTime e) (param0 e) (param1 e) (param2 e) (param3 e))"

datatype log_item = SystemItem time_struct u32 | EventItem time_struct u32 u32 fte_value

definition log_entry :: "log_item \<Rightarrow> log_entry" where
  "log_entry i = (case i of SystemItem t m \<Rightarrow> LogSystem t m
     | EventItem t oid lvl v \<Rightarrow> LogEvent t oid lvl (value_type_number (xType v)) (xData v))"

definition log_append :: "log_item \<Rightarrow> log_state \<Rightarrow> (fte_ret \<times> log_state) option" where
  "log_append i st = (case i of SystemItem t m \<Rightarrow> FTE_LOG_addSystem t m st
     | EventItem t oid lvl v \<Rightarrow> FTE_LOG_addEvent t oid lvl v st)"

text \<open>What the caller of \<^verbatim>\<open>FTE_LOG_getAt\<close> reads through the pointer.\<close>

definition log_look :: "u32 \<Rightarrow> log_state \<Rightarrow> log_entry option" where
  "log_look n st = map_option (\<lambda>i. log_view (pLogs (body (logPool st)) ! i)) (FTE_LOG_getAt n st)"

definition log_body_ok :: "log_body \<Rightarrow> bool" where
  "log_body_ok b \<longleftrightarrow> length (pLogs b) = MAX_LOG_COUNT \<and> unat (logHead b) < MAX_LOG_COUNT
     \<and> unat (logCount b) < MAX_LOG_COUNT
     \<and> unat (logTail b) = (unat (logHead b) + unat (logCount b)) mod MAX_LOG_COUNT"

definition log_ok :: "log_state \<Rightarrow> bool" where
  "log_ok st \<longleftrightarrow> log_body_ok (body (logPool st))"

definition log_contents :: "log_body \<Rightarrow> log_entry list" where
  "log_contents b = map log_view (ring_items MAX_LOG_COUNT (unat (logHead b)) (unat (logCount b)) (pLogs b))"

definition log_entries :: "log_state \<Rightarrow> log_entry list" where
  "log_entries st = log_contents (body (logPool st))"

lemma MAX_LOG_COUNT_val: "MAX_LOG_COUNT = 145"
  by (simp add: MAX_LOG_COUNT_def)

lemma unat_add_mod_max:
  assumes "unat a < 145" "unat b \<le> 145"
  shows "unat ((a + b) mod of_nat MAX_LOG_COUNT :: u32) = (unat a + unat b) mod MAX_LOG_COUNT"
  using assms by (simp add: MAX_LOG_COUNT_val unat_mod unat_word_ariths)

lemma log_advance_ok:
  assumes b: "length (pLogs b) = MAX_LOG_COUNT" "unat (logHead b) < MAX_LOG_COUNT" "unat (logCount b) < MAX_LOG_COUNT"
    "unat (logTail b) = (unat (logHead b) + unat (logCount b)) mod MAX_LOG_COUNT"
    and ps: "map log_view (ring_items MAX_LOG_COUNT (unat (logHead b)) (Suc (unat (logCount b))) (pLogs b)) = xs @ [x]"
  shows "log_body_ok (log_advance b) \<and> log_contents (log_advance b) = keep_last (MAX_LOG_COUNT - 1) (xs @ [x])"
proof -
  have t: "unat ((logTail b + 1) mod of_nat MAX_LOG_COUNT) = Suc (unat (logHead b) + unat (logCount b)) mod MAX_LOG_COUNT"
    using unat_add_mod_max [of "logTail b" 1] b(4) by (simp add: MAX_LOG_COUNT_val mod_simps)
  have c: "unat (logCount b + 1) = Suc (unat (logCount b))"
    using b(3) by (simp add: MAX_LOG_COUNT_val unat_word_ariths)
  have len: "length (xs @ [x]) = Suc (unat (logCount b))" using arg_cong [OF ps, of length] by simp
  show ?thesis
  proof (cases "of_nat MAX_LOG_COUNT \<le> logCount b + 1")
    case True
    then have n: "unat (logCount b) = 144" using c b(3) by (simp add: MAX_LOG_COUNT_val word_le_nat_alt)
    have h: "unat ((logHead b + 1) mod of_nat MAX_LOG_COUNT) = Suc (unat (logHead b)) mod MAX_LOG_COUNT"
      using unat_add_mod_max [of "logHead b" 1] b(2) by (simp add: MAX_LOG_COUNT_val)
    have "log_body_ok (log_advance b)"
      using b n t h True by (simp add: log_advance_def log_body_ok_def MAX_LOG_COUNT_val mod_simps)
    moreover have "log_contents (log_advance b)
        = map log_view (ring_items MAX_LOG_COUNT ((unat (logHead b) + 1) mod MAX_LOG_COUNT) (Suc (unat (logCount b)) - 1) (pLogs b))"
      using True h n by (simp add: log_advance_def log_contents_def MAX_LOG_COUNT_val)
    then have "log_contents (log_advance b) = drop 1 (xs @ [x])"
      unfolding ring_items_drop drop_map [symmetric] ps .
    ultimately show ?thesis using len n by (simp add: keep_last_def MAX_LOG_COUNT_val)
  next
    case False
    then have n: "Suc (unat (logCount b)) < 145" using c by (simp add: MAX_LOG_COUNT_val word_le_nat_alt)
    have "log_body_ok (log_advance b)"
      using b n t c False by (simp add: log_advance_def log_body_ok_def MAX_LOG_COUNT_val)
    moreover have "log_contents (log_advance b) = xs @ [x]"
      using False c ps by (simp add: log_advance_def log_contents_def)
    ultimately show ?thesis using len n by (simp add: keep_last_def MAX_LOG_COUNT_val)
  qed
qed

lemma log_write_advance:
  assumes "log_body_ok b" "log_view (f (pLogs b ! unat (logTail b))) = x"
  shows "\<exists>b'. log_write f b = Some b' \<and> log_body_ok (log_advance b')
    \<and> log_contents (log_advance b') = keep_last (MAX_LOG_COUNT - 1) (log_contents b @ [x])"
proof -
  let ?t = "(unat (logHead b) + unat (logCount b)) mod MAX_LOG_COUNT"
  let ?b = "b\<lparr>pLogs := (pLogs b)[?t := f (pLogs b ! ?t)]\<rparr>"
  have b: "length (pLogs b) = MAX_LOG_COUNT" "unat (logHead b) < MAX_LOG_COUNT" "unat (logCount b) < MAX_LOG_COUNT"
    "unat (logTail b) = ?t" using assms(1) by (simp_all add: log_body_ok_def)
  have "log_write f b = Some ?b"
    using b by (simp add: log_write_def MAX_LOG_COUNT_val)
  moreover have "map log_view (ring_items MAX_LOG_COUNT (unat (logHead ?b)) (Suc (unat (logCount ?b))) (pLogs ?b)) = log_contents b @ [x]"
    using ring_items_write [OF b(3,1)] assms(2) b(4) by (simp add: log_contents_def)
  from log_advance_ok [OF _ _ _ _ this] have "log_body_ok (log_advance ?b)
    \<and> log_contents (log_advance ?b) = keep_last (MAX_LOG_COUNT - 1) (log_contents b @ [x])"
    using b by simp
  ultimately show ?thesis by blast
qed

lemma log_append_law:
  assumes "log_ok st"
  shows "\<exists>st'. log_append i st = Some (FTE_RET_OK, st') \<and> log_ok st'
    \<and> log_entries st' = keep_last (MAX_LOG_COUNT - 1) (log_entries st @ [log_entry i])"
proof (cases i)
  case (SystemItem t m)
  let ?f = "\<lambda>e. e\<lparr>logType := FTE_LOG_TYPE_SYSTEM, logTime := t, param0 := m\<rparr>"
  obtain b' where "log_write ?f (body (logPool st)) = Some b'" "log_body_ok (log_advance b')"
    "log_contents (log_advance b') = keep_last (MAX_LOG_COUNT - 1) (log_contents (body (logPool st)) @ [log_entry i])"
    using log_write_advance [OF assms [unfolded log_ok_def], of ?f] SystemItem by (auto simp: log_view_def log_entry_def)
  then show ?thesis using SystemItem by (simp add: log_append_def FTE_LOG_addSystem_def log_ok_def log_entries_def)
next
  case (EventItem t oid lvl v)
  let ?f = "\<lambda>e. e\<lparr>logType := FTE_LOG_TYPE_EVENT, logTime := t, param0 := oid, param1 := lvl,
            param2 := value_type_number (xType v), param3 := xData v\<rparr>"
  obtain b' where "log_write ?f (body (logPool st)) = Some b'" "log_body_ok (log_advance b')"
    "log_contents (log_advance b') = keep_last (MAX_LOG_COUNT - 1) (log_contents (body (logPool st)) @ [log_entry i])"
    using log_write_advance [OF assms [unfolded log_ok_def], of ?f] EventItem by (auto simp: log_view_def log_entry_def)
  then show ?thesis using EventItem by (simp add: log_append_def FTE_LOG_addEvent_def log_ok_def log_entries_def)
qed

lemma log_del_law:
  assumes "log_ok st"
  shows "\<exists>st'. FTE_LOG_del n st = (of_nat (min (unat n) (length (log_entries st))), st') \<and> log_ok st'
    \<and> log_entries st' = drop (unat n) (log_entries st)"
proof -
  let ?b = "body (logPool st)"
  have b: "length (pLogs ?b) = 145" "unat (logHead ?b) < 145" "unat (logCount ?b) < 145"
    "unat (logTail ?b) = (unat (logHead ?b) + unat (logCount ?b)) mod 145"
    using assms by (simp_all add: log_ok_def log_body_ok_def MAX_LOG_COUNT_val)
  have len: "length (log_entries st) = unat (logCount ?b)"
    by (simp add: log_entries_def log_contents_def)
  show ?thesis
  proof (cases "logCount ?b \<le> n")
    case True
    then have "unat (logCount ?b) \<le> unat n" by (simp add: word_le_nat_alt)
    then show ?thesis using True b len
      by (simp add: FTE_LOG_del_def log_ok_def log_body_ok_def MAX_LOG_COUNT_val log_entries_def log_contents_def ring_items_def Let_def)
  next
    case False
    then have n: "unat n < unat (logCount ?b)" by (simp add: word_le_nat_alt)
    have h: "unat ((logHead ?b + n) mod 145) = (unat (logHead ?b) + unat n) mod 145"
      using unat_add_mod_max [of "logHead ?b" n] b n by (simp add: MAX_LOG_COUNT_val)
    have c: "unat (logCount ?b - n) = unat (logCount ?b) - unat n" using n by (intro unat_sub) (simp add: word_le_nat_alt)
    have "log_contents (?b\<lparr>logHead := (logHead ?b + n) mod 145, logCount := logCount ?b - n\<rparr>)
        = map log_view (ring_items 145 ((unat (logHead ?b) + unat n) mod 145) (unat (logCount ?b) - unat n) (pLogs ?b))"
      by (simp add: log_contents_def h c MAX_LOG_COUNT_val)
    also have "\<dots> = drop (unat n) (log_contents ?b)"
      unfolding ring_items_drop by (simp add: log_contents_def drop_map MAX_LOG_COUNT_val)
    finally have e: "log_contents (?b\<lparr>logHead := (logHead ?b + n) mod 145, logCount := logCount ?b - n\<rparr>)
        = drop (unat n) (log_contents ?b)" .
    have "(unat (logHead ?b) + unat (logCount ?b)) mod 145
        = ((unat (logHead ?b) + unat n) mod 145 + (unat (logCount ?b) - unat n)) mod 145"
      using n mod_add_left_eq [of "unat (logHead ?b) + unat n" 145 "unat (logCount ?b) - unat n"] by simp
    moreover have "unat (logCount ?b) - unat n < 145" using b(3) by simp
    ultimately show ?thesis using False b n h c e len
      by (simp add: FTE_LOG_del_def log_ok_def log_body_ok_def MAX_LOG_COUNT_val log_entries_def mod_simps Let_def)
  qed
qed

lemma log_look_law:
  assumes "log_ok st"
  shows "log_look n st = (if unat n < length (log_entries st) then Some (log_entries st ! unat n) else None)"
proof -
  let ?b = "body (logPool st)"
  have b: "unat (logHead ?b) < 145" "unat (logCount ?b) < 145"
    using assms by (simp_all add: log_ok_def log_body_ok_def MAX_LOG_COUNT_val)
  have len: "length (log_entries st) = unat (logCount ?b)" by (simp add: log_entries_def log_contents_def)
  show ?thesis
  proof (cases "logCount ?b \<le> n")
    case True
    then show ?thesis using len by (simp add: log_look_def FTE_LOG_getAt_def word_le_nat_alt)
  next
    case False
    then have n: "unat n < unat (logCount ?b)" by (simp add: word_le_nat_alt)
    have h: "unat ((logHead ?b + n) mod of_nat MAX_LOG_COUNT) = (unat (logHead ?b) + unat n) mod MAX_LOG_COUNT"
      using b n by (intro unat_add_mod_max) auto
    have "\<not> logCount ?b \<le> 0" using n by (auto simp: word_le_nat_alt)
    then show ?thesis using False n len h
      by (simp add: log_look_def FTE_LOG_getAt_def log_entries_def log_contents_def ring_items_nth)
  qed
qed

interpretation fte_log: bounded_journal "MAX_LOG_COUNT - 1" log_ok log_entries log_entry log_append FTE_LOG_del
    FTE_LOG_count log_look
proof unfold_locales
  fix st i n assume ok: "log_ok st"
  show "\<exists>s'. log_append i st = Some (FTE_RET_OK, s') \<and> log_ok s'
      \<and> log_entries s' = keep_last (MAX_LOG_COUNT - 1) (log_entries st @ [log_entry i])"
    using ok by (rule log_append_law)
  show "\<exists>s'. FTE_LOG_del n st = (of_nat (min (unat n) (length (log_entries st))), s') \<and> log_ok s'
      \<and> log_entries s' = drop (unat n) (log_entries st)"
    using ok by (rule log_del_law)
  show "FTE_LOG_count st = of_nat (length (log_entries st))"
    by (simp add: FTE_LOG_count_def log_entries_def log_contents_def)
  show "log_look n st = (if unat n < length (log_entries st) then Some (log_entries st ! unat n) else None)"
    using ok by (rule log_look_law)
  show "length (log_entries st) \<le> MAX_LOG_COUNT - 1"
    using ok by (simp add: log_entries_def log_contents_def log_ok_def log_body_ok_def MAX_LOG_COUNT_val)
qed

text \<open>
  C24: whatever sequence of additions, deletions and readings is made on a well-formed
  journal, every call returns, and answers as on a list that keeps the latest 144 entries
  (one less than the ring has places); the journal stays well formed and stands for that
  list.
\<close>

theorem FTE_LOG_refines_journal:
  assumes "log_ok st"
  shows "\<exists>st'. journal_exec log_append FTE_LOG_del FTE_LOG_count log_look cs st
      = Some (fst (journal_spec 144 log_entry cs (log_entries st)), st')
    \<and> log_ok st' \<and> log_entries st' = snd (journal_spec 144 log_entry cs (log_entries st))"
  using fte_log.exec_refines [OF assms] by (simp add: MAX_LOG_COUNT_val)

definition log_demo :: log_state where
  "log_demo = \<lparr>logPool = pool_zero log_body_zero, bLogModified = False\<rparr>"

lemma log_demo_ok: "log_ok log_demo" "log_entries log_demo = []"
  by (simp_all add: log_ok_def log_body_ok_def log_demo_def pool_zero_def log_body_zero_def
      MAX_LOG_COUNT_val log_entries_def log_contents_def ring_items_def)

theorem FTE_LOG_refines_journal_witness:
  "\<exists>st'. journal_exec log_append FTE_LOG_del FTE_LOG_count log_look
      [JAppend (SystemItem \<lparr>SECONDS = 5, MILLISECONDS = 0\<rparr> 0),
       JAppend (EventItem \<lparr>SECONDS = 6, MILLISECONDS = 0\<rparr> 0x10 2 value_zero), JDelete 1, JLook 0, JCount] log_demo
    = Some ([JRet FTE_RET_OK, JRet FTE_RET_OK, JNum 1, JEntry (Some (LogEvent \<lparr>SECONDS = 6, MILLISECONDS = 0\<rparr> 0x10 2 0 0)), JNum 1], st')"
  using FTE_LOG_refines_journal [OF log_demo_ok(1), of
      "[JAppend (SystemItem \<lparr>SECONDS = 5, MILLISECONDS = 0\<rparr> 0),
       JAppend (EventItem \<lparr>SECONDS = 6, MILLISECONDS = 0\<rparr> 0x10 2 value_zero), JDelete 1, JLook 0, JCount]"]
  by (auto simp: log_demo_ok(2) keep_last_def log_entry_def value_zero_def value_type_number_def)

section \<open>What a restart restores\<close>

lemma log_stamp_simps [simp]:
  "poolID (log_stamp enc p) = poolID p + 1" "body (log_stamp enc p) = body p"
  "ulTag (log_stamp enc p) = FTE_LOG_TAG"
  by (simp_all add: log_stamp_def Let_def)

lemma log_stamp_valid: "poolID p < 0x7FFFFFFF \<Longrightarrow> log_pool_valid enc (log_stamp enc p)"
  by (auto simp: log_stamp_def Let_def log_pool_valid_def pool_crc_def word_le_nat_alt word_less_nat_alt unat_word_ariths)

lemma parity_word: "unat ((n :: u32) + 1 AND 1) = (if even n then 1 else 0)"
proof (cases "even n")
  case True
  then have "(n + 1) mod 2 = 1" using odd_iff_mod_2_eq_one [of "n + 1"] by simp
  then show ?thesis using True by (simp add: and_one_eq)
next
  case False
  then have "(n + 1) mod 2 = 0" using even_iff_mod_2_eq_zero [of "n + 1"] by simp
  then show ?thesis using False by (simp add: and_one_eq)
qed

lemma FTE_LOG_save_device:
  assumes "bLogModified st" "D (if even (poolID (logPool st)) then 1 else 0) \<noteq> None"
  shows "FTE_LOG_save enc torn st D [] = (FTE_RET_OK, st\<lparr>logPool := log_stamp enc (logPool st), bLogModified := False\<rparr>,
    D((if even (poolID (logPool st)) then 1 else 0) := Some (log_stamp enc (logPool st))), [], Saved)"
  using assms by (auto simp: FTE_LOG_save_def Let_def parity_word split: option.split)

text \<open>
  a save whose serial number becomes even goes to the first device, and the next
  start-up then works with exactly the journal that was saved, writing nothing.
\<close>

lemma FTE_LOG_save_restart:
  assumes "bLogModified st" "D 0 \<noteq> None" "odd (poolID (logPool st))" "poolID (logPool st) < 0x7FFFFFFF"
  shows "\<exists>st1 D1. FTE_LOG_save enc torn st D [] = (FTE_RET_OK, st1, D1, [], Saved)
    \<and> FTE_LOG_init True True enc torn st0 D1 ws = (FTE_RET_OK, st0\<lparr>logPool := logPool st1\<rparr>, D1, ws, Saved)
    \<and> log_entries (st0\<lparr>logPool := logPool st1\<rparr>) = log_entries st"
proof -
  let ?p = "log_stamp enc (logPool st)"
  have "unat (poolID (logPool st) + 1) = unat (poolID (logPool st)) + 1"
    using assms(4) by (simp add: word_less_nat_alt unat_word_ariths)
  then have "0 < poolID ?p" by (simp add: word_less_nat_alt)
  then have "log_load_step enc (Some ?p) (pool_zero log_body_zero) = ?p"
    using log_stamp_valid [OF assms(4), of enc] by (simp add: log_load_step_def pool_zero_def)
  then show ?thesis
    using assms by (simp add: FTE_LOG_save_device FTE_LOG_init_def Let_def log_entries_def)
qed

text \<open>
  a save whose serial number becomes odd goes to the second device, which the loop
  of \<^verbatim>\<open>FTE_LOG_init\<close> (one turn for two devices) never reads: it reports OK and the
  start-up after it finds the journal it would have found without it.
\<close>

lemma FTE_LOG_restart_ignores_save:
  assumes "bLogModified st" "D 1 \<noteq> None" "even (poolID (logPool st))"
  shows "\<exists>st1 D1. FTE_LOG_save enc torn st D [] = (FTE_RET_OK, st1, D1, [], Saved)
    \<and> D1 1 = Some (logPool st1) \<and> body (logPool st1) = body (logPool st)
    \<and> log_entries (fst (snd (FTE_LOG_init True True enc torn st0 D1 ws)))
      = log_entries (fst (snd (FTE_LOG_init True True enc torn st0 D ws)))"
proof -
  let ?p = "log_stamp enc (logPool st)"
  have init: "log_entries (fst (snd (FTE_LOG_init True True enc torn st0 E ws)))
      = log_contents (body (log_load_step enc (E 0) (pool_zero log_body_zero)))" for E
    by (auto simp: FTE_LOG_init_def Let_def FTE_LOG_save_def log_entries_def
        split: option.split list.split write_outcome.split)
  show ?thesis using assms by (simp add: FTE_LOG_save_device init)
qed

definition log_demo_odd :: log_state where
  "log_demo_odd = \<lparr>logPool = (pool_zero log_body_zero)\<lparr>poolID := 1\<rparr>, bLogModified = True\<rparr>"

lemma FTE_LOG_save_restart_witness:
  "\<exists>st1 D1. FTE_LOG_save (\<lambda>_. []) (pool_zero log_body_zero) log_demo_odd (\<lambda>_. Some (pool_zero log_body_zero)) []
      = (FTE_RET_OK, st1, D1, [], Saved)
    \<and> FTE_LOG_init True True (\<lambda>_. []) (pool_zero log_body_zero) log_demo D1 []
      = (FTE_RET_OK, log_demo\<lparr>logPool := logPool st1\<rparr>, D1, [], Saved)"
  using FTE_LOG_save_restart [of log_demo_odd "\<lambda>_. Some (pool_zero log_body_zero)" "\<lambda>_. []"
      "pool_zero log_body_zero" log_demo "[]"]
  by (auto simp: log_demo_odd_def pool_zero_def)

lemma FTE_LOG_restart_ignores_save_witness:
  "\<exists>st1 D1. FTE_LOG_save (\<lambda>_. []) (pool_zero log_body_zero) (log_demo\<lparr>bLogModified := True\<rparr>) (\<lambda>_. Some (pool_zero log_body_zero)) []
      = (FTE_RET_OK, st1, D1, [], Saved)
    \<and> D1 1 = Some (logPool st1)
    \<and> log_entries (fst (snd (FTE_LOG_init True True (\<lambda>_. []) (pool_zero log_body_zero) log_demo D1 [])))
      = log_entries (fst (snd (FTE_LOG_init True True (\<lambda>_. []) (pool_zero log_body_zero) log_demo
          (\<lambda>_. Some (pool_zero log_body_zero)) [])))"
  using FTE_LOG_restart_ignores_save [of "log_demo\<lparr>bLogModified := True\<rparr>" "\<lambda>_. Some (pool_zero log_body_zero)" "\<lambda>_. []"
      "pool_zero log_body_zero" log_demo "[]"]
  by (auto simp: log_demo_def pool_zero_def)

end
