(* ===== verification/FTE_Event.thy ===== *)
theory FTE_Event
  imports FTE_ObjectReg FTE_Log
begin

unbundle bit_operations_syntax

text \<open>
  The events of \<^verbatim>\<open>target/source/obj/fte_event.c\<close>: conditions on the value of an object that
  are checked when it changes, and reported to the log, to SNMP and to MQTT by a task.
  The first part is the code: the list of events, the attachment of objects, the check of
  a condition with its hysteresis and hold time, the processing of an event, the schedule
  of the task.  The second part shows the thresholds to be a Schmitt trigger, through a
  locale that states what is needed of them, where the arithmetic of the code allows it,
  and what happens where it does not.

  The state extends that of the objects: events by address, the lock of the list and the
  journal.  The reports to SNMP and MQTT, the tick arithmetic of the RTOS and the clock
  are parameters.  An event's configuration is kept with it.
\<close>

section \<open>Data\<close>

datatype event_condition =
    FTE_EVENT_CONDITION_NONE | FTE_EVENT_CONDITION_ABOVE | FTE_EVENT_CONDITION_BELOW
  | FTE_EVENT_CONDITION_INSIDE | FTE_EVENT_CONDITION_OUTSIDE | FTE_EVENT_CONDITION_INTERVAL
  | FTE_EVENT_CONDITION_TIME | FTE_EVENT_CONDITION_CHANGED

abbreviation FTE_EVENT_TYPE_ENABLE :: u32 where "FTE_EVENT_TYPE_ENABLE \<equiv> 1"
abbreviation FTE_EVENT_TYPE_LOG :: u32 where "FTE_EVENT_TYPE_LOG \<equiv> 0x10"
abbreviation FTE_EVENT_TYPE_SNMP_TRAP :: u32 where "FTE_EVENT_TYPE_SNMP_TRAP \<equiv> 0x20"
abbreviation FTE_EVENT_TYPE_MQTT_PUB :: u32 where "FTE_EVENT_TYPE_MQTT_PUB \<equiv> 0x40"

text \<open>The signed fields are kept as words and read with \<open>sint\<close>.\<close>

record event_cfg =
  evEPID :: u32
  evType :: u32
  evLevel :: u32
  xCondition :: event_condition
  limValue :: u32
  limThreshold :: u32
  rngUpper :: u32
  rngLower :: u32
  rngThreshold :: u32
  ulInterval :: u32
  ulHoldTime :: u16

record fte_event =
  eConfig :: event_cfg
  eObj :: addr
  bOccurred :: bool
  bEvChanged :: bool
  eTime :: time_struct

text \<open>What \<^verbatim>\<open>fte_event.c\<close> and \<^verbatim>\<open>fte_log.c\<close> add to the system's state.\<close>

record 'x event_state =
  events :: "addr \<rightharpoonup> fte_event"
  pListLockKey :: addr
  evLog :: log_state
  evMore :: 'x

type_synonym 'x esys = "'x event_state sys"

text \<open>\<^verbatim>\<open>_eventList\<close> is the address of the list's header; the last fields are the RTOS and the
  reporting functions.\<close>

record 'x event_env =
  evObjs :: "'x esys obj_env"
  eventList :: addr
  time_diff_ms :: "time_struct \<Rightarrow> time_struct \<Rightarrow> u32 \<times> bool"
  sendAlert :: "u32 \<Rightarrow> bool \<Rightarrow> 'x esys \<Rightarrow> 'x esys option"
  publishEPValue :: "u32 \<Rightarrow> 'x esys \<Rightarrow> 'x esys option"

definition fte_event_zero :: "event_cfg \<Rightarrow> fte_event" where
  "fte_event_zero c = \<lparr>eConfig = c, eObj = NULL, bOccurred = False, bEvChanged = False,
     eTime = \<lparr>SECONDS = 0, MILLISECONDS = 0\<rparr>\<rparr>"

text \<open>The event's own list of objects is a header inside the event.\<close>

definition xObjectList :: "addr \<Rightarrow> addr" where "xObjectList pEvent = pEvent + 24"

definition get_event :: "addr \<Rightarrow> 'x esys \<Rightarrow> fte_event option" where
  "get_event p s = events (dev s) p"

definition upd_event :: "addr \<Rightarrow> (fte_event \<Rightarrow> fte_event) \<Rightarrow> 'x esys \<Rightarrow> 'x esys option" where
  "upd_event p f s = do {
     e \<leftarrow> events (dev s) p;
     Some (s\<lparr>dev := (dev s)\<lparr>events := (events (dev s))(p \<mapsto> f e)\<rparr>\<rparr>)
   }"

section \<open>The list of events\<close>

text \<open>\<^verbatim>\<open>FTE_TASK_create\<close>, which only starts \<^verbatim>\<open>FTE_EVENT_task\<close>, is left out.\<close>

definition FTE_EVENT_init :: "'x event_env \<Rightarrow> 'x esys \<Rightarrow> (fte_ret \<times> 'x esys) option" where
  "FTE_EVENT_init E s = do {
     (_, s) \<leftarrow> FTE_LIST_init (eventList E) s;
     let (r, key, s) = FTE_SYS_LOCK_create s;
     Some (FTE_RET_OK, if r = FTE_RET_OK then s\<lparr>dev := (dev s)\<lparr>pListLockKey := key\<rparr>\<rparr> else s)
   }"

definition FTE_EVENT_final :: "'x esys \<Rightarrow> (fte_ret \<times> 'x esys) option" where
  "FTE_EVENT_final s = do { s \<leftarrow> FTE_SYS_LOCK_destroy (pListLockKey (dev s)) s; Some (FTE_RET_OK, s) }"

definition FTE_MEM_allocEvent :: "event_cfg \<Rightarrow> 'x esys \<Rightarrow> addr \<times> 'x esys" where
  "FTE_MEM_allocEvent c s =
     (let (p, s) = FTE_MEM_alloc s in
      if p = NULL then (NULL, s)
      else (p, s\<lparr>dev := (dev s)\<lparr>events := (events (dev s))(p \<mapsto> fte_event_zero c)\<rparr>,
              lists := (lists s)(xObjectList p \<mapsto> list_zero)\<rparr>))"

definition FTE_EVENT_create :: "'x event_env \<Rightarrow> event_cfg \<Rightarrow> 'x esys \<Rightarrow> (fte_ret \<times> addr option \<times> 'x esys) option" where
  "FTE_EVENT_create E c s =
     (let (pEvent, s) = FTE_MEM_allocEvent c s in
      if pEvent = NULL then Some (FTE_RET_ERROR, None, s)
      else do {
        (_, s) \<leftarrow> FTE_LIST_init (xObjectList pEvent) s;
        s \<leftarrow> FTE_SYS_LOCK_enable (pListLockKey (dev s)) s;
        (_, s) \<leftarrow> FTE_LIST_pushBack (eventList E) pEvent s;
        s \<leftarrow> FTE_SYS_LOCK_disable (pListLockKey (dev s)) s;
        Some (FTE_RET_OK, Some pEvent, s)
      })"

definition FTE_EVENT_destroy :: "'x event_env \<Rightarrow> addr \<Rightarrow> 'x esys \<Rightarrow> (fte_ret \<times> 'x esys) option" where
  "FTE_EVENT_destroy E pEvent s = do {
     s \<leftarrow> FTE_SYS_LOCK_enable (pListLockKey (dev s)) s;
     (_, s) \<leftarrow> FTE_LIST_remove (eventList E) pEvent s;
     s \<leftarrow> FTE_SYS_LOCK_disable (pListLockKey (dev s)) s;
     (_, s) \<leftarrow> FTE_LIST_final (xObjectList pEvent) s;
     s \<leftarrow> FTE_MEM_free pEvent s;
     Some (FTE_RET_OK, s\<lparr>dev := (dev s)\<lparr>events := (events (dev s))(pEvent := None)\<rparr>,
        lists := (lists s)(xObjectList pEvent := None)\<rparr>)
   }"

definition FTE_EVENT_count :: "'x event_env \<Rightarrow> 'x esys \<Rightarrow> (fte_ret \<times> u32) option" where
  "FTE_EVENT_count E s = do { n \<leftarrow> FTE_LIST_count (eventList E) s; Some (FTE_RET_OK, n) }"

definition FTE_EVENT_getAt :: "'x event_env \<Rightarrow> u32 \<Rightarrow> 'x esys \<Rightarrow> (fte_ret \<times> addr option \<times> 'x esys) option" where
  "FTE_EVENT_getAt E i s = do {
     (p, s) \<leftarrow> FTE_LIST_getAt (eventList E) i s;
     if p = NULL then Some (FTE_RET_EXCEEDS_THE_RANGE, None, s) else Some (FTE_RET_OK, Some p, s)
   }"

text \<open>A loop \<^verbatim>\<open>for(i = 0 ; i < FTE_LIST_count(pList) ; i++)\<close> whose body looks at the \<open>i\<close>-th item.\<close>

partial_function (option) list_for :: "addr \<Rightarrow> (addr \<Rightarrow> 'a \<Rightarrow> 'x esys \<Rightarrow> ('a \<times> 'x esys) option) \<Rightarrow> u32 \<Rightarrow> 'a \<Rightarrow> 'x esys
    \<Rightarrow> ('a \<times> 'x esys) option" where
  "list_for pList step i x s = do {
     n \<leftarrow> FTE_LIST_count pList s;
     if n \<le> i then Some (x, s)
     else do {
       (p, s) \<leftarrow> FTE_LIST_getAt pList i s;
       (x, s) \<leftarrow> step p x s;
       list_for pList step (i + 1) x s
     }
   }"

definition FTE_EVENT_getList :: "'x event_env \<Rightarrow> u32 \<Rightarrow> u32 \<Rightarrow> 'x esys \<Rightarrow> (fte_ret \<times> addr list \<times> 'x esys) option" where
  "FTE_EVENT_getList E xEPID ulMaxCount s = do {
     (ps, s) \<leftarrow> list_for (eventList E) (\<lambda>p ps s.
        if p \<noteq> NULL then do {
          e \<leftarrow> get_event p s;
          Some (if evEPID (eConfig e) = xEPID \<and> length ps < unat ulMaxCount then ps @ [p] else ps, s)
        } else Some (ps, s)) 0 [] s;
     Some (FTE_RET_OK, ps, s)
   }"

definition FTE_EVENT_attachObject :: "addr \<Rightarrow> addr \<Rightarrow> 'x esys \<Rightarrow> (fte_ret \<times> 'x esys) option" where
  "FTE_EVENT_attachObject pEvent pObj s = do {
     (_, s) \<leftarrow> FTE_LIST_pushBack (xObjectList pEvent) pObj s; Some (FTE_RET_OK, s) }"

definition FTE_EVENT_detachObject :: "addr \<Rightarrow> addr \<Rightarrow> 'x esys \<Rightarrow> (fte_ret \<times> 'x esys) option" where
  "FTE_EVENT_detachObject pEvent pObj s = do {
     (_, s) \<leftarrow> FTE_LIST_remove (xObjectList pEvent) pObj s; Some (FTE_RET_OK, s) }"

definition FTE_OBJ_EVENT_attach :: "addr \<Rightarrow> addr \<Rightarrow> 'x esys \<Rightarrow> (fte_ret \<times> 'x esys) option" where
  "FTE_OBJ_EVENT_attach pObj pEvent s = do {
     guard_opt (pObj \<noteq> NULL);
     (_, s) \<leftarrow> FTE_LIST_pushBack (xEventList pObj) pEvent s;
     (_, s) \<leftarrow> FTE_EVENT_attachObject pEvent pObj s;
     Some (FTE_RET_OK, s)
   }"

definition FTE_OBJ_EVENT_detach :: "addr \<Rightarrow> addr \<Rightarrow> 'x esys \<Rightarrow> (fte_ret \<times> 'x esys) option" where
  "FTE_OBJ_EVENT_detach pObj pEvent s = do {
     guard_opt (pObj \<noteq> NULL \<and> pEvent \<noteq> NULL);
     (_, s) \<leftarrow> FTE_EVENT_detachObject pEvent pObj s;
     (_, s) \<leftarrow> FTE_LIST_remove (xEventList pObj) pEvent s;
     Some (FTE_RET_OK, s)
   }"

section \<open>Conditions\<close>

text \<open>The second result is \<^verbatim>\<open>*bResult\<close>, \<open>None\<close> where it is left alone.\<close>

definition FTE_EVENT_isSatisfied :: "event_cfg \<Rightarrow> u32 \<Rightarrow> fte_ret \<times> bool option" where
  "FTE_EVENT_isSatisfied c v = (case xCondition c of
       FTE_EVENT_CONDITION_ABOVE \<Rightarrow> (FTE_RET_OK, Some (sint v \<le> sint (limValue c)))
     | FTE_EVENT_CONDITION_BELOW \<Rightarrow> (FTE_RET_OK, Some (sint (limValue c) \<le> sint v))
     | FTE_EVENT_CONDITION_INSIDE \<Rightarrow> (FTE_RET_OK, Some (sint v \<le> sint (rngUpper c) \<and> sint (rngLower c) \<le> sint v))
     | FTE_EVENT_CONDITION_OUTSIDE \<Rightarrow> (FTE_RET_OK, Some (sint (rngUpper c) < sint v \<and> sint v < sint (rngLower c)))
     | _ \<Rightarrow> (MQX_INVALID_PARAMETER, None))"

text \<open>The \<^verbatim>\<open>switch\<close> of \<^verbatim>\<open>FTE_EVENT_check\<close>: whether the state is to change.  The comparisons with a
  threshold are of \<^verbatim>\<open>FTE_INT32\<close> with \<^verbatim>\<open>FTE_UINT32\<close>, hence unsigned and modulo \<open>2 ^ 32\<close>; those
  without are signed.  \<open>None\<close> is the default case.\<close>

definition event_trigger :: "event_cfg \<Rightarrow> bool \<Rightarrow> bool \<Rightarrow> u32 \<Rightarrow> bool option" where
  "event_trigger c occurred changed v = (case xCondition c of
       FTE_EVENT_CONDITION_ABOVE \<Rightarrow> Some (if occurred then v < limValue c - limThreshold c
          else sint (limValue c) \<le> sint v)
     | FTE_EVENT_CONDITION_BELOW \<Rightarrow> Some (if occurred then limValue c + limThreshold c < v
          else sint v \<le> sint (limValue c))
     | FTE_EVENT_CONDITION_INSIDE \<Rightarrow> Some (if occurred
          then rngUpper c + rngThreshold c < v \<or> v < rngLower c - rngThreshold c
          else sint v \<le> sint (rngUpper c) \<and> sint (rngLower c) \<le> sint v)
     | FTE_EVENT_CONDITION_OUTSIDE \<Rightarrow> Some (if occurred
          then v < rngUpper c - rngThreshold c \<and> rngLower c + rngThreshold c < v
          else sint (rngUpper c) \<le> sint v \<or> sint v \<le> sint (rngLower c))
     | FTE_EVENT_CONDITION_CHANGED \<Rightarrow> Some changed
     | _ \<Rightarrow> None)"

definition FTE_TIME_diffMilliseconds :: "'x event_env \<Rightarrow> time_struct \<Rightarrow> time_struct \<Rightarrow> fte_ret \<times> u32" where
  "FTE_TIME_diffMilliseconds E t1 t2 =
     (let (n, overflow) = time_diff_ms E t1 t2 in
      (FTE_RET_OK, if overflow then fst (time_diff_ms E t2 t1) else n))"

section \<open>Checking an event\<close>

text \<open>\<^verbatim>\<open>pObj->pStatus->pValue->bChanged = FALSE\<close>.\<close>

definition clear_changed :: "addr \<Rightarrow> 'x esys \<Rightarrow> 'x esys option" where
  "clear_changed pObj s = upd_obj pObj (\<lambda>ob. ob\<lparr>oValues :=
     (case oValues ob of [] \<Rightarrow> [] | v # vs \<Rightarrow> v\<lparr>bChanged := False\<rparr> # vs)\<rparr>) s"

definition event_check_object :: "'x event_env \<Rightarrow> time_struct \<Rightarrow> addr \<Rightarrow> addr \<Rightarrow> 'x esys \<Rightarrow> (fte_ret \<times> 'x esys) option" where
  "event_check_object E now pEvent pObj s = do {
     e \<leftarrow> get_event pEvent s;
     (r, v) \<leftarrow> FTE_OBJ_getValue pObj s;
     if r \<noteq> FTE_RET_OK then Some (FTE_RET_ERROR, s)
     else
       let nDiffTime = snd (FTE_TIME_diffMilliseconds E now (eTime e)) in
       if bOccurred e \<and> sint nDiffTime \<le> int (unat (ulHoldTime (eConfig e))) then Some (FTE_RET_OK, s)
       else (case event_trigger (eConfig e) (bOccurred e) (bChanged v) (xData v) of
           None \<Rightarrow> Some (MQX_INVALID_PARAMETER, s)
         | Some False \<Rightarrow> Some (FTE_RET_OK, s)
         | Some True \<Rightarrow> do {
             s \<leftarrow> (if xCondition (eConfig e) = FTE_EVENT_CONDITION_CHANGED then clear_changed pObj s else Some s);
             s \<leftarrow> upd_event pEvent (\<lambda>e. e\<lparr>eTime := snd (FTE_VALUE_getTimeStamp v), bEvChanged := True,
                     bOccurred := \<not> bOccurred e\<rparr>) s;
             Some (FTE_RET_OK, s) })
   }"

definition FTE_EVENT_check :: "'x event_env \<Rightarrow> time_struct \<Rightarrow> addr \<Rightarrow> addr \<Rightarrow> 'x esys \<Rightarrow> (fte_ret \<times> 'x esys) option" where
  "FTE_EVENT_check E now pEvent pObj s = do {
     e \<leftarrow> get_event pEvent s;
     if \<not> FTE_FLAG_IS_SET (evType (eConfig e)) FTE_EVENT_TYPE_ENABLE
        \<or> xCondition (eConfig e) = FTE_EVENT_CONDITION_INTERVAL \<or> xCondition (eConfig e) = FTE_EVENT_CONDITION_TIME
     then Some (FTE_RET_OK, s)
     else if pObj \<noteq> NULL then event_check_object E now pEvent pObj s
     else if eObj e \<noteq> NULL then event_check_object E now pEvent (eObj e) s
     else do {
       (pObj, s) \<leftarrow> FTE_OBJ_get (evObjs E) (evEPID (eConfig e)) s;
       if pObj = NULL then Some (MQX_INVALID_HANDLE, s) else event_check_object E now pEvent pObj s
     }
   }"

section \<open>Processing an event\<close>

text \<open>The postponement of an interval report by the other events of the same object.\<close>

definition interval_postpone :: "'x event_env \<Rightarrow> addr \<Rightarrow> 'x esys \<Rightarrow> 'x esys option" where
  "interval_postpone E pEvent s = do {
     (_, s) \<leftarrow> list_for (eventList E) (\<lambda>p2 x s. do {
        e \<leftarrow> get_event pEvent s;
        e2 \<leftarrow> get_event p2 s;
        if FTE_FLAG_IS_SET (evType (eConfig e2)) FTE_EVENT_TYPE_ENABLE \<and> evEPID (eConfig e) = evEPID (eConfig e2)
           \<and> xCondition (eConfig e2) \<noteq> FTE_EVENT_CONDITION_INTERVAL
           \<and> SECONDS (eTime e) < SECONDS (eTime e2) + ulInterval (eConfig e)
        then do {
          s \<leftarrow> upd_event pEvent (\<lambda>e. e\<lparr>eTime := (eTime e)\<lparr>SECONDS := SECONDS (eTime e2) + ulInterval (eConfig e)\<rparr>\<rparr>) s;
          Some ((), s) }
        else Some ((), s) }) 0 () s;
     Some s
   }"

definition event_interval :: "'x event_env \<Rightarrow> addr \<Rightarrow> time_struct \<Rightarrow> 'x esys \<Rightarrow> 'x esys option" where
  "event_interval E pEvent pTime s = do {
     e \<leftarrow> get_event pEvent s;
     if SECONDS (eTime e) = 0 then
       upd_event pEvent (\<lambda>e. e\<lparr>eTime := (eTime e)\<lparr>SECONDS := SECONDS pTime + ulInterval (eConfig e)\<rparr>\<rparr>) s
     else if SECONDS (eTime e) < SECONDS pTime then do {
       s \<leftarrow> interval_postpone E pEvent s;
       e \<leftarrow> get_event pEvent s;
       if SECONDS (eTime e) < SECONDS pTime then
         upd_event pEvent (\<lambda>e. e\<lparr>bEvChanged := True,
           eTime := (eTime e)\<lparr>SECONDS := SECONDS (eTime e) + ulInterval (eConfig e)\<rparr>\<rparr>) s
       else Some s }
     else Some s
   }"

text \<open>The reports on one object.  \<^verbatim>\<open>FTE_LOG_addEvent\<close> takes its own time.\<close>

definition event_report :: "'x event_env \<Rightarrow> time_struct \<Rightarrow> addr \<Rightarrow> addr \<Rightarrow> 'x esys \<Rightarrow> 'x esys option" where
  "event_report E now pEvent pObj s = do {
     e \<leftarrow> get_event pEvent s;
     ob \<leftarrow> objs s pObj;
     s \<leftarrow> (if FTE_FLAG_IS_SET (evType (eConfig e)) FTE_EVENT_TYPE_LOG then do {
            v \<leftarrow> obj_value ob;
            (_, l) \<leftarrow> FTE_LOG_addEvent now (obj_id ob) (evLevel (eConfig e)) v (evLog (dev s));
            Some (s\<lparr>dev := (dev s)\<lparr>evLog := l\<rparr>\<rparr>) }
          else Some s);
     s \<leftarrow> (if FTE_FLAG_IS_SET (evType (eConfig e)) FTE_EVENT_TYPE_SNMP_TRAP
          then sendAlert E (obj_id ob) (bOccurred e) s else Some s);
     if FTE_FLAG_IS_SET (evType (eConfig e)) FTE_EVENT_TYPE_MQTT_PUB
     then publishEPValue E (obj_id ob) s else Some s
   }"

definition FTE_EVENT_proc :: "'x event_env \<Rightarrow> time_struct \<Rightarrow> addr \<Rightarrow> time_struct \<Rightarrow> 'x esys \<Rightarrow> (fte_ret \<times> 'x esys) option" where
  "FTE_EVENT_proc E now pEvent pTime s = do {
     e \<leftarrow> get_event pEvent s;
     if \<not> FTE_FLAG_IS_SET (evType (eConfig e)) FTE_EVENT_TYPE_ENABLE then Some (FTE_RET_OK, s)
     else do {
       s \<leftarrow> (if xCondition (eConfig e) = FTE_EVENT_CONDITION_INTERVAL then event_interval E pEvent pTime s else Some s);
       e \<leftarrow> get_event pEvent s;
       s \<leftarrow> (if bEvChanged e then do {
              (_, s) \<leftarrow> list_for (xObjectList pEvent) (\<lambda>pObj x s. do {
                  s \<leftarrow> event_report E now pEvent pObj s; Some ((), s) }) 0 () s;
              upd_event pEvent (\<lambda>e. e\<lparr>bEvChanged := False\<rparr>) s }
            else Some s);
       Some (FTE_RET_OK, s)
     }
   }"

section \<open>The task\<close>

text \<open>One turn of \<^verbatim>\<open>FTE_EVENT_task\<close>: the events are processed at the first clock reading, and
  the task sleeps until the next tenth of a second of its schedule as seen at the second.\<close>

partial_function (option) event_walk :: "(addr \<Rightarrow> 'x esys \<Rightarrow> (fte_ret \<times> 'x esys) option) \<Rightarrow> fte_iter \<Rightarrow> 'x esys \<Rightarrow> 'x esys option" where
  "event_walk step it s = do {
     (p, it) \<leftarrow> FTE_LIST_ITER_getNext it s;
     if p = NULL then Some s
     else do { (_, s) \<leftarrow> step p s; event_walk step it s }
   }"

definition clock_ms :: "time_struct \<Rightarrow> u32" where
  "clock_ms t = SECONDS t * 1000 + MILLISECONDS t"

definition event_task_turn :: "'x event_env \<Rightarrow> time_struct \<Rightarrow> time_struct \<Rightarrow> time_struct \<Rightarrow> u32 \<Rightarrow> 'x esys
    \<Rightarrow> (u32 \<times> u32 \<times> 'x esys) option" where
  "event_task_turn E now logged later ulNextTime s = do {
     (r, it, s) \<leftarrow> FTE_LIST_ITER_init (eventList E) s;
     s \<leftarrow> event_walk (\<lambda>p. FTE_EVENT_proc E logged p now) it s;
     let ulNextTime = ulNextTime + 100;
     let ulTime = clock_ms later;
     Some (ulNextTime - ulTime, ulNextTime, s)
   }"

section \<open>Texts\<close>

definition FTE_EVENT_CONDITION_string :: "event_condition \<Rightarrow> string" where
  "FTE_EVENT_CONDITION_string c = (case c of
       FTE_EVENT_CONDITION_ABOVE \<Rightarrow> ''>'' | FTE_EVENT_CONDITION_BELOW \<Rightarrow> ''<''
     | FTE_EVENT_CONDITION_INSIDE \<Rightarrow> ''<>'' | FTE_EVENT_CONDITION_OUTSIDE \<Rightarrow> ''><''
     | FTE_EVENT_CONDITION_INTERVAL \<Rightarrow> ''~~'' | FTE_EVENT_CONDITION_CHANGED \<Rightarrow> ''XX''
     | FTE_EVENT_CONDITION_TIME \<Rightarrow> ''!!'' | _ \<Rightarrow> ''??'')"

text \<open>The cases of the two functions below have no \<^verbatim>\<open>break\<close>: each case prints its own word and
  those of all cases after it into the same buffer.\<close>

definition snprint_all :: "u32 \<Rightarrow> string list \<Rightarrow> string option" where
  "snprint_all n ws = foldl (\<lambda>b w. case c_snprintf n w of None \<Rightarrow> b | Some t \<Rightarrow> Some t) None ws"

definition FTE_EVENT_condition_string :: "event_condition \<Rightarrow> u32 \<Rightarrow> string option" where
  "FTE_EVENT_condition_string c nBuffLen = (case c of
       FTE_EVENT_CONDITION_NONE \<Rightarrow> snprint_all nBuffLen [''none'', ''above'', ''below'', ''inside'', ''outside'', ''interval'', ''time'']
     | FTE_EVENT_CONDITION_ABOVE \<Rightarrow> snprint_all nBuffLen [''above'', ''below'', ''inside'', ''outside'', ''interval'', ''time'']
     | FTE_EVENT_CONDITION_BELOW \<Rightarrow> snprint_all nBuffLen [''below'', ''inside'', ''outside'', ''interval'', ''time'']
     | FTE_EVENT_CONDITION_INSIDE \<Rightarrow> snprint_all nBuffLen [''inside'', ''outside'', ''interval'', ''time'']
     | FTE_EVENT_CONDITION_OUTSIDE \<Rightarrow> snprint_all nBuffLen [''outside'', ''interval'', ''time'']
     | FTE_EVENT_CONDITION_INTERVAL \<Rightarrow> snprint_all nBuffLen [''interval'', ''time'']
     | FTE_EVENT_CONDITION_TIME \<Rightarrow> snprint_all nBuffLen [''time'']
     | FTE_EVENT_CONDITION_CHANGED \<Rightarrow> None)"

definition FTE_EVENT_level_string :: "u32 \<Rightarrow> u32 \<Rightarrow> string option" where
  "FTE_EVENT_level_string xLevel nBuffLen =
     (if xLevel = 0 then snprint_all nBuffLen [''information'', ''warning'', ''critical'']
      else if xLevel = 1 then snprint_all nBuffLen [''warning'', ''critical'']
      else if xLevel = 3 then snprint_all nBuffLen [''critical''] else None)"

section \<open>Thresholds with hysteresis\<close>

text \<open>
  What a check with two thresholds promises: in the cases where the code's arithmetic is
  the intended one (\<open>safe\<close>), the state changes to occurred when a reading satisfies \<open>on\<close>, and
  back when one satisfies \<open>off\<close>, and the two exclude each other.
\<close>

locale schmitt =
  fixes safe :: "'c \<Rightarrow> 'v \<Rightarrow> bool"
    and on :: "'c \<Rightarrow> 'v \<Rightarrow> bool"
    and off :: "'c \<Rightarrow> 'v \<Rightarrow> bool"
    and trig :: "'c \<Rightarrow> bool \<Rightarrow> 'v \<Rightarrow> bool"
  assumes disjoint: "safe c v \<Longrightarrow> on c v \<Longrightarrow> \<not> off c v"
    and trig_law: "safe c v \<Longrightarrow> trig c occ v = (if occ then off c v else on c v)"
begin

lemma toggle: "safe c v \<Longrightarrow> (if trig c occ v then \<not> occ else occ) = (on c v \<or> occ \<and> \<not> off c v)"
  using disjoint by (auto simp: trig_law)

text \<open>The state after any readings is decided by the last one outside the dead band.\<close>

lemma last_extreme:
  assumes "list_all (safe c) vs"
  shows "foldl (\<lambda>occ v. if trig c occ v then \<not> occ else occ) occ vs
    = (case rev (filter (\<lambda>v. on c v \<or> off c v) vs) of [] \<Rightarrow> occ | v # _ \<Rightarrow> on c v)"
  using assms
proof (induction vs rule: rev_induct)
  case Nil
  then show ?case by simp
next
  case (snoc v vs)
  then have "safe c v" by simp
  then show ?case using snoc toggle [OF \<open>safe c v\<close>] disjoint by (auto split: list.splits)
qed

end

definition event_on :: "event_cfg \<Rightarrow> u32 \<Rightarrow> bool" where
  "event_on c v = (case xCondition c of
       FTE_EVENT_CONDITION_ABOVE \<Rightarrow> sint (limValue c) \<le> sint v
     | FTE_EVENT_CONDITION_BELOW \<Rightarrow> sint v \<le> sint (limValue c)
     | FTE_EVENT_CONDITION_INSIDE \<Rightarrow> sint (rngLower c) \<le> sint v \<and> sint v \<le> sint (rngUpper c)
     | FTE_EVENT_CONDITION_OUTSIDE \<Rightarrow> sint v \<le> sint (rngLower c) \<or> sint (rngUpper c) \<le> sint v
     | _ \<Rightarrow> False)"

definition event_off :: "event_cfg \<Rightarrow> u32 \<Rightarrow> bool" where
  "event_off c v = (case xCondition c of
       FTE_EVENT_CONDITION_ABOVE \<Rightarrow> sint v < sint (limValue c) - uint (limThreshold c)
     | FTE_EVENT_CONDITION_BELOW \<Rightarrow> sint (limValue c) + uint (limThreshold c) < sint v
     | FTE_EVENT_CONDITION_INSIDE \<Rightarrow> sint v < sint (rngLower c) - uint (rngThreshold c)
         \<or> sint (rngUpper c) + uint (rngThreshold c) < sint v
     | FTE_EVENT_CONDITION_OUTSIDE \<Rightarrow> sint (rngLower c) + uint (rngThreshold c) < sint v
         \<and> sint v < sint (rngUpper c) - uint (rngThreshold c)
     | _ \<Rightarrow> False)"

text \<open>No quantity is negative and none leaves 32 bits.\<close>

definition event_safe :: "event_cfg \<Rightarrow> u32 \<Rightarrow> bool" where
  "event_safe c v \<longleftrightarrow> 0 \<le> sint v \<and> (case xCondition c of
       FTE_EVENT_CONDITION_ABOVE \<Rightarrow> uint (limThreshold c) \<le> sint (limValue c)
     | FTE_EVENT_CONDITION_BELOW \<Rightarrow> 0 \<le> sint (limValue c) \<and> sint (limValue c) + uint (limThreshold c) < 2 ^ 32
     | FTE_EVENT_CONDITION_INSIDE \<Rightarrow> uint (rngThreshold c) \<le> sint (rngLower c) \<and> 0 \<le> sint (rngUpper c)
         \<and> sint (rngUpper c) + uint (rngThreshold c) < 2 ^ 32
     | FTE_EVENT_CONDITION_OUTSIDE \<Rightarrow> uint (rngThreshold c) \<le> sint (rngUpper c) \<and> 0 \<le> sint (rngLower c)
         \<and> sint (rngLower c) + uint (rngThreshold c) < 2 ^ 32
     | _ \<Rightarrow> False)"

definition event_threshold :: "event_cfg \<Rightarrow> bool \<Rightarrow> u32 \<Rightarrow> bool" where
  "event_threshold c occ v = (event_trigger c occ False v = Some True)"

lemma sint_nonneg: "0 \<le> sint (w :: u32) \<Longrightarrow> uint w = sint w"
proof -
  assume a: "0 \<le> sint w"
  have "sint w < 2 ^ 31" using sint_lt [of w] by simp
  then have "take_bit 32 (sint w) = sint w" using a by (intro take_bit_int_eq_self) simp_all
  then show ?thesis by (simp add: uint_sint)
qed

lemma word_less_diff:
  fixes v l t :: u32
  assumes "0 \<le> sint v" "uint t \<le> sint l"
  shows "v < l - t \<longleftrightarrow> sint v < sint l - uint t"
proof -
  have l: "uint l = sint l" using assms(2) uint_ge_0 [of t] by (intro sint_nonneg) linarith
  have "uint (l - t) = uint l - uint t" by (rule iffD1 [OF uint_sub_lem]) (use assms(2) l in simp)
  then show ?thesis using l sint_nonneg [OF assms(1)] by (simp add: word_less_def)
qed

lemma word_sum_less:
  fixes v l t :: u32
  assumes "0 \<le> sint v" "0 \<le> sint l" "sint l + uint t < 2 ^ 32"
  shows "l + t < v \<longleftrightarrow> sint l + uint t < sint v"
proof -
  have l: "uint l = sint l" using assms(2) by (rule sint_nonneg)
  have "uint (l + t) = uint l + uint t" by (rule iffD1 [OF uint_add_lem]) (use assms(3) l in simp)
  then show ?thesis using l sint_nonneg [OF assms(1)] by (simp add: word_less_def)
qed

lemma event_threshold_law:
  assumes "event_safe c v"
  shows "event_threshold c occ v = (if occ then event_off c v else event_on c v)"
  using assms by (cases "xCondition c")
    (auto simp: event_safe_def event_threshold_def event_trigger_def event_on_def event_off_def
      word_less_diff word_sum_less)

interpretation event_schmitt: schmitt event_safe event_on event_off event_threshold
proof unfold_locales
  fix c v occ
  assume "event_safe c v"
  then show "event_threshold c occ v = (if occ then event_off c v else event_on c v)" by (rule event_threshold_law)
  define a b where ab: "a = uint (limThreshold c)" "b = uint (rngThreshold c)"
  then have "0 \<le> a" "0 \<le> b" by simp_all
  then show "event_on c v \<Longrightarrow> \<not> event_off c v"
    by (cases "xCondition c") (auto simp: event_on_def event_off_def simp flip: ab)
qed

section \<open>Checks over a sequence of readings\<close>

text \<open>The driver stores a new value in the object before the event is checked.\<close>

definition put_value :: "addr \<Rightarrow> fte_value \<Rightarrow> 'x esys \<Rightarrow> 'x esys option" where
  "put_value pObj v s = upd_obj pObj (\<lambda>ob. ob\<lparr>oValues := v # tl (oValues ob)\<rparr>) s"

fun event_run :: "'x event_env \<Rightarrow> addr \<Rightarrow> addr \<Rightarrow> (time_struct \<times> fte_value) list \<Rightarrow> 'x esys \<Rightarrow> 'x esys option" where
  "event_run E pEvent pObj [] s = Some s"
| "event_run E pEvent pObj ((now, v) # rs) s = do {
     s \<leftarrow> put_value pObj v s;
     (r, s) \<leftarrow> FTE_EVENT_check E now pEvent pObj s;
     guard_opt (r = FTE_RET_OK);
     event_run E pEvent pObj rs s }"

text \<open>The specification: a state with the time of the last change; in the hold time after an
  occurrence nothing changes.\<close>

definition event_spec :: "event_cfg \<Rightarrow> (time_struct \<Rightarrow> time_struct \<Rightarrow> int) \<Rightarrow> bool \<times> time_struct \<Rightarrow> time_struct \<times> fte_value
    \<Rightarrow> bool \<times> time_struct" where
  "event_spec c diff st r =
     (let (occ, t) = st; (now, v) = r in
      if occ \<and> diff now t \<le> int (unat (ulHoldTime c)) then (occ, t)
      else if event_on c (xData v) \<and> \<not> occ then (True, xTimeStamp v)
      else if event_off c (xData v) \<and> occ then (False, xTimeStamp v)
      else (occ, t))"

abbreviation event_diff :: "'x event_env \<Rightarrow> time_struct \<Rightarrow> time_struct \<Rightarrow> int" where
  "event_diff E now t \<equiv> sint (snd (FTE_TIME_diffMilliseconds E now t))"

definition event_ready :: "addr \<Rightarrow> addr \<Rightarrow> event_cfg \<Rightarrow> 'x esys \<Rightarrow> bool" where
  "event_ready pEvent pObj c s \<longleftrightarrow> pObj \<noteq> NULL \<and> FTE_FLAG_IS_SET (evType c) FTE_EVENT_TYPE_ENABLE
     \<and> (\<exists>ob. objs s pObj = Some ob) \<and> (\<exists>e. get_event pEvent s = Some e \<and> eConfig e = c)"

definition event_state_of :: "addr \<Rightarrow> 'x esys \<Rightarrow> bool \<times> time_struct" where
  "event_state_of pEvent s = (let e = the (get_event pEvent s) in (bOccurred e, eTime e))"

text \<open>What the check comes to for an enabled event and an object at hand.\<close>

lemma FTE_EVENT_check_object:
  assumes "get_event pe s = Some e" "FTE_FLAG_IS_SET (evType (eConfig e)) FTE_EVENT_TYPE_ENABLE"
    "xCondition (eConfig e) \<notin> {FTE_EVENT_CONDITION_INTERVAL, FTE_EVENT_CONDITION_TIME, FTE_EVENT_CONDITION_CHANGED}"
    "po \<noteq> NULL" "objs s po = Some ob" "oValues ob = v # vs"
    "event_trigger (eConfig e) (bOccurred e) (bChanged v) (xData v) = Some b"
    "\<not> (bOccurred e \<and> event_diff E now (eTime e) \<le> int (unat (ulHoldTime (eConfig e))))"
  shows "FTE_EVENT_check E now pe po s = (if b
    then do { s \<leftarrow> upd_event pe (\<lambda>e. e\<lparr>eTime := xTimeStamp v, bEvChanged := True, bOccurred := \<not> bOccurred e\<rparr>) s; Some (FTE_RET_OK, s) }
    else Some (FTE_RET_OK, s))"
  using assms
  by (cases b) (auto simp: FTE_EVENT_check_def event_check_object_def FTE_OBJ_getValue_def obj_value_def FTE_VALUE_getTimeStamp_def)

lemma event_trigger_plain:
  assumes "event_safe c v"
  shows "event_trigger c occ ch v = Some (event_threshold c occ v)"
    "xCondition c \<notin> {FTE_EVENT_CONDITION_INTERVAL, FTE_EVENT_CONDITION_TIME, FTE_EVENT_CONDITION_CHANGED}"
  using assms by (cases "xCondition c"; simp add: event_safe_def event_threshold_def event_trigger_def)+

lemma get_event_upd [simp]:
  "get_event p s = Some e \<Longrightarrow> upd_event p f s = Some (s\<lparr>dev := (dev s)\<lparr>events := (events (dev s))(p \<mapsto> f e)\<rparr>\<rparr>)"
  by (simp add: upd_event_def get_event_def)

lemma event_check_step:
  assumes ready: "event_ready pe po c s" and safe: "event_safe c (xData v)"
  shows "\<exists>s1 s2. put_value po v s = Some s1 \<and> FTE_EVENT_check E now pe po s1 = Some (FTE_RET_OK, s2)
    \<and> event_ready pe po c s2
    \<and> event_state_of pe s2 = event_spec c (event_diff E) (event_state_of pe s) (now, v)"
proof -
  obtain e ob where e: "get_event pe s = Some e" "eConfig e = c" "objs s po = Some ob" "po \<noteq> NULL"
    "FTE_FLAG_IS_SET (evType c) FTE_EVENT_TYPE_ENABLE"
    using ready by (auto simp: event_ready_def)
  define ob1 where "ob1 = ob\<lparr>oValues := v # tl (oValues ob)\<rparr>"
  define s1 where "s1 = s\<lparr>objs := (objs s)(po \<mapsto> ob1)\<rparr>"
  have put: "put_value po v s = Some s1" using e(3) by (simp add: put_value_def upd_obj_def s1_def ob1_def)
  have s1: "get_event pe s1 = Some e" "objs s1 po = Some ob1" "oValues ob1 = v # tl (oValues ob)"
    using e(1) by (simp_all add: s1_def ob1_def get_event_def)
  note tr = event_trigger_plain(1) [OF safe] and plain = event_trigger_plain(2) [OF safe]
  show ?thesis
  proof (cases "bOccurred e \<and> event_diff E now (eTime e) \<le> int (unat (ulHoldTime c))")
    case True
    then have "FTE_EVENT_check E now pe po s1 = Some (FTE_RET_OK, s1)"
      using e s1 plain by (simp add: FTE_EVENT_check_def event_check_object_def FTE_OBJ_getValue_def obj_value_def)
    moreover have "event_state_of pe s1 = event_spec c (event_diff E) (event_state_of pe s) (now, v)"
      using True e(1) s1(1) by (simp add: event_state_of_def event_spec_def)
    ultimately show ?thesis using put e s1 by (auto simp: event_ready_def)
  next
    case False
    have tr': "event_trigger (eConfig e) (bOccurred e) (bChanged v) (xData v) = Some (event_threshold c (bOccurred e) (xData v))"
      using tr e(2) by simp
    have chk: "FTE_EVENT_check E now pe po s1 = (if event_threshold c (bOccurred e) (xData v)
      then do { s \<leftarrow> upd_event pe (\<lambda>e. e\<lparr>eTime := xTimeStamp v, bEvChanged := True, bOccurred := \<not> bOccurred e\<rparr>) s1; Some (FTE_RET_OK, s) }
      else Some (FTE_RET_OK, s1))"
      by (rule FTE_EVENT_check_object [OF s1(1) _ _ e(4) s1(2,3) tr']) (use e False plain in auto)
    show ?thesis
    proof (cases "event_threshold c (bOccurred e) (xData v)")
      case t: True
      define e2 where "e2 = e\<lparr>eTime := xTimeStamp v, bEvChanged := True, bOccurred := \<not> bOccurred e\<rparr>"
      define s2 where "s2 = s1\<lparr>dev := (dev s1)\<lparr>events := (events (dev s1))(pe \<mapsto> e2)\<rparr>\<rparr>"
      have "FTE_EVENT_check E now pe po s1 = Some (FTE_RET_OK, s2)"
        using chk t s1(1) by (simp add: s2_def e2_def)
      moreover have e2: "get_event pe s2 = Some e2" "eConfig e2 = c" "objs s2 po = Some ob1"
        using e(2) s1(2) by (simp_all add: s2_def e2_def get_event_def)
      then have "event_ready pe po c s2" using e(4,5) by (simp add: event_ready_def)
      moreover have "event_state_of pe s2 = (\<not> bOccurred e, xTimeStamp v)"
        using e2(1) by (simp add: event_state_of_def e2_def)
      moreover have "event_spec c (event_diff E) (event_state_of pe s) (now, v) = (\<not> bOccurred e, xTimeStamp v)"
      proof -
        have "if bOccurred e then event_off c (xData v) else event_on c (xData v)"
          using event_threshold_law [OF safe] t by simp
        then show ?thesis using e(1) False by (cases "bOccurred e") (simp_all add: event_state_of_def event_spec_def)
      qed
      ultimately show ?thesis using put by auto
    next
      case t: False
      have "FTE_EVENT_check E now pe po s1 = Some (FTE_RET_OK, s1)" using chk t by simp
      moreover have "event_ready pe po c s1" using e s1 by (auto simp: event_ready_def)
      moreover have "event_state_of pe s1 = (bOccurred e, eTime e)" using s1(1) by (simp add: event_state_of_def)
      moreover have "event_spec c (event_diff E) (event_state_of pe s) (now, v) = (bOccurred e, eTime e)"
      proof -
        have "\<not> (if bOccurred e then event_off c (xData v) else event_on c (xData v))"
          using event_threshold_law [OF safe] t by simp
        then show ?thesis using e(1) False by (cases "bOccurred e") (simp_all add: event_state_of_def event_spec_def)
      qed
      ultimately show ?thesis using put by auto
    qed
  qed
qed

text \<open>
  C21: for an enabled threshold event whose quantities are not negative, every sequence of
  readings is checked with OK, and the event's state and time stamp follow the
  specification: a Schmitt trigger with two thresholds that is blocked for the hold time
  after an occurrence.
\<close>

theorem FTE_EVENT_check_refines:
  assumes "event_ready pe po c s" "list_all (\<lambda>(now, v). event_safe c (xData v)) rs"
  shows "\<exists>s'. event_run E pe po rs s = Some s' \<and> event_ready pe po c s'
    \<and> event_state_of pe s' = foldl (event_spec c (event_diff E)) (event_state_of pe s) rs"
  using assms
proof (induction rs arbitrary: s)
  case Nil
  then show ?case by simp
next
  case (Cons r rs)
  obtain now v where r: "r = (now, v)" by (cases r)
  then have "event_safe c (xData v)" using Cons.prems(2) by simp
  from event_check_step [OF Cons.prems(1) this, of E now] obtain s1 s2 where
    1: "put_value po v s = Some s1" "FTE_EVENT_check E now pe po s1 = Some (FTE_RET_OK, s2)" "event_ready pe po c s2"
      "event_state_of pe s2 = event_spec c (event_diff E) (event_state_of pe s) r" unfolding r by blast
  have "list_all (\<lambda>(now, v). event_safe c (xData v)) rs" using Cons.prems(2) by simp
  from Cons.IH [OF 1(3) this] show ?case using 1 r by simp
qed

text \<open>Without a hold time the state is decided by the last reading outside the dead band.\<close>

lemma event_spec_last_extreme:
  assumes "\<And>now t. int (unat (ulHoldTime c)) < diff now t" "list_all (\<lambda>(now, v). event_safe c (xData v)) rs"
  shows "fst (foldl (event_spec c diff) st rs)
    = (case rev (filter (\<lambda>v. event_on c v \<or> event_off c v) (map (xData \<circ> snd) rs)) of
         [] \<Rightarrow> fst st | v # _ \<Rightarrow> event_on c v)"
proof -
  have step: "fst (event_spec c diff st r) = (if event_threshold c (fst st) (xData (snd r)) then \<not> fst st else fst st)"
    if "event_safe c (xData (snd r))" for st r
    using assms(1) [of "fst r" "snd st"] event_threshold_law [OF that, of "fst st"]
    by (cases st; cases r; cases "fst st") (simp_all add: event_spec_def)
  have "fst (foldl (event_spec c diff) st rs)
      = foldl (\<lambda>occ v. if event_threshold c occ v then \<not> occ else occ) (fst st) (map (xData \<circ> snd) rs)"
    using assms(2)
  proof (induction rs arbitrary: st)
    case (Cons r rs)
    have "event_safe c (xData (snd r))" using Cons.prems by (cases r) simp
    from step [OF this, of st] show ?case using Cons.IH [of "event_spec c diff st r"] Cons.prems by simp
  qed simp
  also have "\<dots> = (case rev (filter (\<lambda>v. event_on c v \<or> event_off c v) (map (xData \<circ> snd) rs)) of
         [] \<Rightarrow> fst st | v # _ \<Rightarrow> event_on c v)"
    by (rule event_schmitt.last_extreme) (use assms(2) in \<open>auto simp: list_all_iff\<close>)
  finally show ?thesis .
qed

section \<open>Where the arithmetic leaves the intended range\<close>

text \<open>
  An enabled event ABOVE a negative limit, on a reading that is not negative, changes
  its state in either direction at every check outside the hold time: the limit less the
  threshold is compared as an unsigned number, so that the reading is both above the limit
  and below the release threshold.
\<close>

lemma FTE_EVENT_check_negative_limit:
  assumes "get_event pe s = Some e" "FTE_FLAG_IS_SET (evType (eConfig e)) FTE_EVENT_TYPE_ENABLE"
    "xCondition (eConfig e) = FTE_EVENT_CONDITION_ABOVE" "sint (limValue (eConfig e)) < 0"
    "uint (limThreshold (eConfig e)) \<le> sint (limValue (eConfig e)) + 2 ^ 31"
    "po \<noteq> NULL" "objs s po = Some ob" "oValues ob = v # vs" "0 \<le> sint (xData v)"
    "\<not> (bOccurred e \<and> event_diff E now (eTime e) \<le> int (unat (ulHoldTime (eConfig e))))"
  shows "\<exists>s'. FTE_EVENT_check E now pe po s = Some (FTE_RET_OK, s')
    \<and> get_event pe s' = Some (e\<lparr>eTime := xTimeStamp v, bEvChanged := True, bOccurred := \<not> bOccurred e\<rparr>)"
proof -
  let ?l = "limValue (eConfig e)" and ?t = "limThreshold (eConfig e)"
  have l: "uint ?l = sint ?l + 2 ^ 32"
  proof -
    have "- (2 ^ 31) \<le> sint ?l" using sint_ge [of ?l] by simp
    then have "take_bit 32 (sint ?l + 2 ^ 32) = sint ?l + 2 ^ 32" using assms(4) by (intro take_bit_int_eq_self) simp_all
    moreover have "take_bit 32 (sint ?l + 2 ^ 32) = take_bit 32 (sint ?l)" by (simp add: take_bit_eq_mod)
    ultimately show ?thesis by (simp add: uint_sint)
  qed
  have "uint (?l - ?t) = uint ?l - uint ?t" by (rule iffD1 [OF uint_sub_lem]) (use assms(5) l in simp)
  moreover have "uint (xData v) = sint (xData v)" "sint (xData v) < 2 ^ 31"
    using sint_nonneg [OF assms(9)] sint_lt [of "xData v"] by simp_all
  ultimately have "xData v < ?l - ?t" using l assms(5) by (simp add: word_less_def)
  then have "event_trigger (eConfig e) (bOccurred e) (bChanged v) (xData v) = Some True"
    using assms(3,4,9) by (simp add: event_trigger_def)
  from FTE_EVENT_check_object [OF assms(1,2) _ assms(6-8) this assms(10)] assms(1,3) show ?thesis
    by (simp add: get_event_def)
qed

text \<open>The two functions disagree on what the conditions mean: above its limit a value does not
  satisfy ABOVE, and no value satisfies OUTSIDE of a range that is not empty.\<close>

lemma FTE_EVENT_isSatisfied_reversed:
  "xCondition c = FTE_EVENT_CONDITION_ABOVE \<Longrightarrow> sint (limValue c) < sint v
    \<Longrightarrow> FTE_EVENT_isSatisfied c v = (FTE_RET_OK, Some False) \<and> event_trigger c False ch v = Some True"
  "xCondition c = FTE_EVENT_CONDITION_OUTSIDE \<Longrightarrow> sint (rngLower c) \<le> sint (rngUpper c)
    \<Longrightarrow> FTE_EVENT_isSatisfied c v = (FTE_RET_OK, Some False)"
  by (auto simp: FTE_EVENT_isSatisfied_def event_trigger_def)

lemma condition_string_time:
  "c \<noteq> FTE_EVENT_CONDITION_CHANGED \<Longrightarrow> FTE_EVENT_condition_string c n = c_snprintf n ''time''"
  by (cases c) (auto simp: FTE_EVENT_condition_string_def snprint_all_def c_snprintf_def)

text \<open>
  When a turn of the event task ends later than its schedule, by a slow report or
  because the clock was set forward, the task does not catch up: it sleeps for
  \<open>2 ^ 32\<close> milliseconds less the delay, some 49 days.
\<close>

lemma FTE_EVENT_task_stalls:
  assumes "event_task_turn E now logged later ulNextTime s = Some (delay, ulNextTime', s')"
    "clock_ms later = ulNextTime + 100 + d" "d \<noteq> 0"
  shows "unat delay = 2 ^ 32 - unat d \<and> ulNextTime' = ulNextTime + 100"
proof -
  have "delay = - d" "ulNextTime' = ulNextTime + 100"
    using assms(1,2) by (auto simp: event_task_turn_def opt_simps Let_def split: prod.splits)
  moreover have "unat (- d) = 2 ^ 32 - unat d"
  proof -
    have "uint d \<noteq> 0" using assms(3) by (simp add: uint_0_iff)
    then have "0 < uint d" using order.not_eq_order_implies_strict [OF _ uint_ge_0] by metis
    moreover have "uint d < 2 ^ 32" using uint_lt2p [of d] by simp
    ultimately have "uint (- d) = 2 ^ 32 - uint d" by (simp add: uint_word_ariths zmod_zminus1_eq_if)
    then have "int (unat (- d)) = 4294967296 - int (unat d)" by simp
    then have "unat (- d) = 4294967296 - unat d" by linarith
    then show ?thesis by simp
  qed
  ultimately show ?thesis by simp
qed

section \<open>The list of an object's events\<close>

text \<open>A loop that only reads.\<close>

lemma list_for_reads:
  assumes abs: "list_abs s L F xs"
    and step: "\<And>p x. p \<in> set xs \<Longrightarrow> step p x s = Some (g p x, s)"
  shows "unat i \<le> length xs \<Longrightarrow> list_for L step i x s = Some (foldl (\<lambda>x p. g p x) x (drop (unat i) xs), s)"
proof (induction "length xs - unat i" arbitrary: i x)
  case 0
  have "length xs = unat (of_nat (length xs) :: u32)"
  proof (cases F)
    case (Some f)
    obtain h as k where "f = (h, as, k)" by (cases f)
    then have "list_abs s L (Some (h, as, k)) xs" using abs Some by simp
    from list_abs_count(3) [OF this] show ?thesis by simp
  qed (use abs in simp)
  then have "(of_nat (length xs) :: u32) \<le> i" using 0 by (simp add: word_le_nat_alt)
  then show ?case using 0 count_abs [OF abs] by (subst list_for.simps) simp
next
  case (Suc n)
  then have i: "unat i < length xs" by simp
  then have F: "F \<noteq> None" using abs by (cases F) auto
  obtain h as k where f: "F = Some (h, as, k)" using F by auto
  have abs': "list_abs s L (Some (h, as, k)) xs" using abs f by simp
  note len = list_abs_count(2,3) [OF abs']
  have lt: "\<not> (of_nat (length xs) :: u32) \<le> i" using i len by (simp add: word_le_nat_alt)
  have i1: "unat (i + 1) = Suc (unat i)"
    using i len(1) by (simp add: unat_word_ariths)
  have get: "FTE_LIST_getAt L i s = Some (xs ! unat i, s)" using getAt_abs [OF abs F] i by simp
  have st: "step (xs ! unat i) x s = Some (g (xs ! unat i) x, s)" using step i by simp
  have "list_for L step (i + 1) (g (xs ! unat i) x) s
      = Some (foldl (\<lambda>x p. g p x) (g (xs ! unat i) x) (drop (unat (i + 1)) xs), s)"
    by (rule Suc.hyps(1)) (use Suc.hyps(2) i i1 in auto)
  then show ?case using lt get st count_abs [OF abs] i i1
    by (subst list_for.simps) (simp add: Cons_nth_drop_Suc [OF i, symmetric])
qed

lemma foldl_take_filter:
  "foldl (\<lambda>ps p. if P p \<and> length ps < n then ps @ [p] else ps) qs xs = qs @ take (n - length qs) (filter P xs)"
  by (induction xs arbitrary: qs) (auto simp: take_Cons' split: if_splits)

text \<open>
  \<^verbatim>\<open>FTE_EVENT_getList\<close> returns the first \<open>ulMax\<close> events of the object in the order of
  their creation, and changes nothing.
\<close>

lemma FTE_EVENT_getList_first:
  assumes "list_abs s (eventList E) F xs" "\<forall>p \<in> set xs. get_event p s = Some (ev p)"
  shows "FTE_EVENT_getList E oid ulMax s
    = Some (FTE_RET_OK, take (unat ulMax) (filter (\<lambda>p. evEPID (eConfig (ev p)) = oid) xs), s)"
proof -
  have nn: "p \<noteq> NULL" if "p \<in> set xs" for p using that list_abs_no_null [OF assms(1)] by auto
  have "list_for (eventList E) (\<lambda>p ps s.
        if p \<noteq> NULL then do {
          e \<leftarrow> get_event p s;
          Some (if evEPID (eConfig e) = oid \<and> length ps < unat ulMax then ps @ [p] else ps, s)
        } else Some (ps, s)) 0 [] s
      = Some (foldl (\<lambda>ps p. if evEPID (eConfig (ev p)) = oid \<and> length ps < unat ulMax then ps @ [p] else ps) [] (drop (unat (0 :: u32)) xs), s)"
    by (rule list_for_reads [OF assms(1), where g = "\<lambda>p ps. if evEPID (eConfig (ev p)) = oid \<and> length ps < unat ulMax then ps @ [p] else ps"])
      (use assms(2) nn in auto)
  then show ?thesis by (simp add: FTE_EVENT_getList_def foldl_take_filter)
qed

section \<open>Examples\<close>

text \<open>An alarm above 30.00 with a threshold of 2.00 and a hold time of one second, an interval
  report on another object, and an alarm above -10.00.\<close>

definition event_demo_cfg :: event_cfg where
  "event_demo_cfg = \<lparr>evEPID = 0x10001, evType = FTE_EVENT_TYPE_ENABLE, evLevel = 2,
     xCondition = FTE_EVENT_CONDITION_ABOVE, limValue = 3000, limThreshold = 200, rngUpper = 0, rngLower = 0,
     rngThreshold = 0, ulInterval = 0, ulHoldTime = 1000\<rparr>"

definition event_demo :: "event_cfg \<Rightarrow> unit esys" where
  "event_demo c = \<lparr>pool = [], live = {0x8, 0x10, 0x18, 0x20},
     nodes = [0x8 \<mapsto> \<lparr>pPrev = 0x18, pNext = 0x10, pItem = 0, nReserved = 0\<rparr>,
              0x10 \<mapsto> \<lparr>pPrev = 0x8, pNext = 0x18, pItem = 0x1000, nReserved = 0\<rparr>,
              0x18 \<mapsto> \<lparr>pPrev = 0x10, pNext = 0x8, pItem = 0x2000, nReserved = 0\<rparr>],
     lists = [0x100 \<mapsto> \<lparr>nCount = 2, pHead = 0x8, pLockKey = 0x20\<rparr>],
     sems = [0x20 \<mapsto> 1], unstable = False,
     objs = [0x3000 \<mapsto> fte_object_zero\<lparr>oValues := [value_zero\<lparr>xData := 2500\<rparr>]\<rparr>], cfg = cfg reg_demo,
     dev = \<lparr>events = [0x1000 \<mapsto> fte_event_zero c, 0x2000 \<mapsto> fte_event_zero (event_demo_cfg\<lparr>evEPID := 0x10002\<rparr>)],
       pListLockKey = NULL, evLog = log_demo, evMore = ()\<rparr>\<rparr>"

definition event_demo_env :: "unit event_env" where
  "event_demo_env = \<lparr>evObjs = reg_env, eventList = 0x100,
     time_diff_ms = (\<lambda>t1 t2. (clock_ms t1 - clock_ms t2, SECONDS t1 < SECONDS t2)),
     sendAlert = (\<lambda>_ _ s. Some s), publishEPValue = (\<lambda>_ s. Some s)\<rparr>"

abbreviation at_second :: "u32 \<Rightarrow> time_struct" where "at_second n \<equiv> \<lparr>SECONDS = n, MILLISECONDS = 0\<rparr>"

definition event_demo_reading :: "u32 \<Rightarrow> u32 \<Rightarrow> time_struct \<times> fte_value" where
  "event_demo_reading n w = (at_second n, value_zero\<lparr>xData := w, xTimeStamp := at_second n\<rparr>)"

lemma event_demo_ready:
  "FTE_FLAG_IS_SET (evType c) FTE_EVENT_TYPE_ENABLE \<Longrightarrow> event_ready 0x1000 0x3000 c (event_demo c)"
  "event_state_of 0x1000 (event_demo c) = (False, at_second 0)"
  by (simp_all add: event_ready_def event_demo_def get_event_def fte_event_zero_def event_state_of_def)

lemma event_demo_safe: "event_safe event_demo_cfg v = (0 \<le> sint v)"
  by (simp add: event_safe_def event_demo_cfg_def)

text \<open>Above the limit, back into the dead band, below it within the hold time and after it.\<close>

theorem FTE_EVENT_check_refines_witness:
  "\<exists>s'. event_run event_demo_env 0x1000 0x3000
      [event_demo_reading 10 3100, event_demo_reading 20 2900, event_demo_reading 30 2700] (event_demo event_demo_cfg) = Some s'
    \<and> event_state_of 0x1000 s' = (False, at_second 30)"
proof -
  have "FTE_FLAG_IS_SET (evType event_demo_cfg) FTE_EVENT_TYPE_ENABLE"
    by (simp add: event_demo_cfg_def FTE_FLAG_IS_SET_def)
  note ready = event_demo_ready(1) [OF this]
  let ?rs = "[event_demo_reading 10 3100, event_demo_reading 20 2900, event_demo_reading 30 2700]"
  have "list_all (\<lambda>(now, v). event_safe event_demo_cfg (xData v)) ?rs"
    by (simp add: event_demo_reading_def event_demo_safe)
  from FTE_EVENT_check_refines [OF ready this, of event_demo_env] obtain s' where
    "event_run event_demo_env 0x1000 0x3000 ?rs (event_demo event_demo_cfg) = Some s'"
    "event_state_of 0x1000 s' = foldl (event_spec event_demo_cfg (event_diff event_demo_env)) (False, at_second 0) ?rs"
    unfolding event_demo_ready(2) by blast
  moreover have "foldl (event_spec event_demo_cfg (event_diff event_demo_env)) (False, at_second 0) ?rs = (False, at_second 30)"
    by code_simp
  ultimately show ?thesis by simp
qed

lemma FTE_EVENT_check_negative_limit_witness:
  "\<exists>s'. FTE_EVENT_check event_demo_env (at_second 10) 0x1000 0x3000 (event_demo (event_demo_cfg\<lparr>limValue := - 1000\<rparr>))
      = Some (FTE_RET_OK, s')
    \<and> event_state_of 0x1000 s' = (True, at_second 0)"
proof -
  let ?s = "event_demo (event_demo_cfg\<lparr>limValue := - 1000\<rparr>)"
  have "get_event 0x1000 ?s = Some (fte_event_zero (event_demo_cfg\<lparr>limValue := - 1000\<rparr>))"
    "objs ?s 0x3000 = Some (fte_object_zero\<lparr>oValues := [value_zero\<lparr>xData := 2500\<rparr>]\<rparr>)"
    by (simp_all add: event_demo_def get_event_def)
  from FTE_EVENT_check_negative_limit [OF this(1) _ _ _ _ _ this(2), of "value_zero\<lparr>xData := 2500\<rparr>" "[]" event_demo_env "at_second 10"]
  show ?thesis
    by (auto simp: fte_event_zero_def event_demo_cfg_def FTE_FLAG_IS_SET_def event_state_of_def value_zero_def)
qed

lemma FTE_EVENT_getList_first_witness:
  "FTE_EVENT_getList event_demo_env 0x10002 4 (event_demo event_demo_cfg)
    = Some (FTE_RET_OK, [0x2000], event_demo event_demo_cfg)"
proof -
  let ?s = "event_demo event_demo_cfg"
  have abs: "list_abs ?s (eventList event_demo_env) (Some (0x8, [0x10, 0x18], 0x20)) [0x1000, 0x2000]"
    by (simp add: event_demo_def event_demo_env_def ring_ptrs_def)
  have evs: "\<forall>p \<in> set [0x1000, 0x2000]. get_event p ?s
      = Some (fte_event_zero (if p = 0x1000 then event_demo_cfg else event_demo_cfg\<lparr>evEPID := 0x10002\<rparr>))"
    by (simp add: event_demo_def get_event_def)
  from FTE_EVENT_getList_first [OF abs evs, of "0x10002" 4] show ?thesis
    by (simp add: fte_event_zero_def event_demo_cfg_def)
qed

lemma FTE_EVENT_task_stalls_witness:
  "\<exists>delay s'. event_task_turn event_demo_env (at_second 10) (at_second 10) (at_second 11) 10000
      (event_demo (event_demo_cfg\<lparr>evType := 0\<rparr>)) = Some (delay, 10100, s') \<and> unat delay = 2 ^ 32 - 900"
proof -
  let ?s = "event_demo (event_demo_cfg\<lparr>evType := 0\<rparr>)"
  let ?step = "\<lambda>p. FTE_EVENT_proc event_demo_env (at_second 10) p (at_second 10)"
  have step: "?step 0x1000 ?s = Some (FTE_RET_OK, ?s)" "?step 0x2000 ?s = Some (FTE_RET_OK, ?s)"
    by (simp_all add: FTE_EVENT_proc_def get_event_def event_demo_def fte_event_zero_def event_demo_cfg_def FTE_FLAG_IS_SET_def)
  let ?it = "\<lambda>n. \<lparr>itList = 0x100, itNode = n\<rparr>"
  have "FTE_LIST_ITER_init (eventList event_demo_env) ?s = Some (FTE_RET_OK, ?it 0x8, ?s)"
    by (simp add: FTE_LIST_ITER_init_def list_ensure_init_def FTE_LIST_isInitialized_def event_demo_def event_demo_env_def)
  moreover have "FTE_LIST_ITER_getNext (?it 0x8) ?s = Some (0x1000, ?it 0x10)"
    "FTE_LIST_ITER_getNext (?it 0x10) ?s = Some (0x2000, ?it 0x18)"
    "FTE_LIST_ITER_getNext (?it 0x18) ?s = Some (NULL, ?it 0x18)"
    by (simp_all add: FTE_LIST_ITER_getNext_def event_demo_def)
  then have "event_walk ?step (?it 0x8) ?s = Some ?s"
    using step by (simp add: event_walk.simps [of _ "?it 0x8"] event_walk.simps [of _ "?it 0x10"] event_walk.simps [of _ "?it 0x18"])
  ultimately obtain delay where "event_task_turn event_demo_env (at_second 10) (at_second 10) (at_second 11) 10000 ?s
      = Some (delay, 10100, ?s)"
    by (simp add: event_task_turn_def)
  moreover from FTE_EVENT_task_stalls [OF this, of 900] have "unat delay = 2 ^ 32 - 900" by (simp add: clock_ms_def)
  ultimately show ?thesis by blast
qed

end
