(* ===== verification/FTE_Gpio.thy ===== *)
theory FTE_Gpio
  imports FTE_Prelude
begin

unbundle bit_operations_syntax

text \<open>
  Pins: the port registers of the processor as \<^verbatim>\<open>mqx/source/io/lwgpio/lwgpio_kgpio.c\<close> uses
  them, the drivers of single pins in \<^verbatim>\<open>target/source/drv/fte_lwgpio.c\<close>, and the
  board-independent pins of \<^verbatim>\<open>target/source/drv/fte_gpio.c\<close> above them, for the products
  without the port expander (\<^verbatim>\<open>FTE_MCP23S08_SUPPORTED\<close> is 0).  The first part is the code,
  the second what a pin's user may rely on: writing and reading the latch, and the
  interrupt of a pin that is armed for a level.

  The registers are those of the reference manual: PDOR, PDDR and PDIR of a port, and a
  control register per pin, whose interrupt flag is cleared by writing a one to it.  The
  level of a pin is changed by \<open>gpio_drive\<close>, the environment's step, which raises the flag
  for an edge; a level raises it for as long as it lasts (\<open>gpio_sense\<close>).
\<close>

section \<open>Registers\<close>

datatype lwgpio_dir = LWGPIO_DIR_INPUT | LWGPIO_DIR_OUTPUT | LWGPIO_DIR_NOCHANGE
datatype lwgpio_value = LWGPIO_VALUE_LOW | LWGPIO_VALUE_HIGH | LWGPIO_VALUE_NOCHANGE

record gpio_port =
  PDOR :: u32
  PDDR :: u32
  PDIR :: u32
  PCR :: "nat \<Rightarrow> u32"

type_synonym gpio_regs = "nat \<Rightarrow> gpio_port"

text \<open>\<^verbatim>\<open>LWGPIO_STRUCT\<close>: the two register pointers are the port and the pin they lead to.\<close>

record lwgpio_struct =
  hPort :: nat
  hPin :: nat
  pinmask :: u32
  hFlags :: u32

definition PORT_PCR_MUX_MASK :: u32 where "PORT_PCR_MUX_MASK = 0x700"
definition PORT_PCR_IRQC_MASK :: u32 where "PORT_PCR_IRQC_MASK = 0xF0000"
definition PORT_PCR_ISF_MASK :: u32 where "PORT_PCR_ISF_MASK = 0x1000000"
definition LWGPIO_DIR_MASK :: u32 where "LWGPIO_DIR_MASK = 0x100000"

text \<open>A write to a control register: the flag falls where a one is written.\<close>

definition pcr_store :: "u32 \<Rightarrow> u32 \<Rightarrow> u32" where
  "pcr_store old w = (if bit w 24 then w AND NOT PORT_PCR_ISF_MASK
     else w OR (old AND PORT_PCR_ISF_MASK))"

definition pcr_read :: "lwgpio_struct \<Rightarrow> gpio_regs \<Rightarrow> u32" where
  "pcr_read h R = PCR (R (hPort h)) (hPin h)"

definition pcr_write :: "lwgpio_struct \<Rightarrow> u32 \<Rightarrow> gpio_regs \<Rightarrow> gpio_regs" where
  "pcr_write h w R = R(hPort h := (R (hPort h))\<lparr>PCR := (PCR (R (hPort h)))(hPin h := pcr_store (pcr_read h R) w)\<rparr>)"

section \<open>The light-weight pin driver\<close>

definition lwgpio_set_value :: "lwgpio_struct \<Rightarrow> lwgpio_value \<Rightarrow> gpio_regs \<Rightarrow> gpio_regs" where
  "lwgpio_set_value h v R = (case v of
       LWGPIO_VALUE_LOW \<Rightarrow> R(hPort h := (R (hPort h))\<lparr>PDOR := PDOR (R (hPort h)) AND NOT (pinmask h)\<rparr>)
     | LWGPIO_VALUE_HIGH \<Rightarrow> R(hPort h := (R (hPort h))\<lparr>PDOR := PDOR (R (hPort h)) OR pinmask h\<rparr>)
     | LWGPIO_VALUE_NOCHANGE \<Rightarrow> R)"

definition lwgpio_set_direction :: "lwgpio_dir \<Rightarrow> lwgpio_struct \<Rightarrow> gpio_regs \<Rightarrow> lwgpio_struct \<times> gpio_regs" where
  "lwgpio_set_direction d h R = (case d of
       LWGPIO_DIR_INPUT \<Rightarrow> (h\<lparr>hFlags := hFlags h OR LWGPIO_DIR_MASK\<rparr>,
          R(hPort h := (R (hPort h))\<lparr>PDDR := PDDR (R (hPort h)) AND NOT (pinmask h)\<rparr>))
     | LWGPIO_DIR_OUTPUT \<Rightarrow> (h\<lparr>hFlags := hFlags h AND NOT LWGPIO_DIR_MASK\<rparr>,
          R(hPort h := (R (hPort h))\<lparr>PDDR := PDDR (R (hPort h)) OR pinmask h\<rparr>))
     | LWGPIO_DIR_NOCHANGE \<Rightarrow> (h, R))"

text \<open>The tables of register addresses have the five ports A to E; a higher number reads past
  them.\<close>

definition LWGPIO_PORTS :: nat where "LWGPIO_PORTS = 5"

definition lwgpio_init :: "u32 \<Rightarrow> lwgpio_dir \<Rightarrow> lwgpio_value \<Rightarrow> gpio_regs \<Rightarrow> (bool \<times> lwgpio_struct \<times> gpio_regs) option" where
  "lwgpio_init pid d v R =
     (let port_idx = unat (drop_bit 5 pid AND 0xFF); pin_idx = unat (pid AND 0x1F) in do {
        guard_opt (port_idx < LWGPIO_PORTS);
        let h = \<lparr>hPort = port_idx, hPin = pin_idx, pinmask = push_bit pin_idx 1, hFlags = pid\<rparr>;
        let R = (if v \<noteq> LWGPIO_VALUE_NOCHANGE then lwgpio_set_value h v R else R);
        let (h, R) = (if d \<noteq> LWGPIO_DIR_NOCHANGE then lwgpio_set_direction d h R else (h, R));
        Some (True, h, R)
      })"

definition lwgpio_set_functionality :: "lwgpio_struct \<Rightarrow> u32 \<Rightarrow> gpio_regs \<Rightarrow> gpio_regs" where
  "lwgpio_set_functionality h f R =
     (let R = pcr_write h (pcr_read h R AND NOT PORT_PCR_MUX_MASK) R in
      pcr_write h (pcr_read h R OR (push_bit 8 f AND PORT_PCR_MUX_MASK)) R)"

definition lwgpio_get_value :: "lwgpio_struct \<Rightarrow> gpio_regs \<Rightarrow> lwgpio_value" where
  "lwgpio_get_value h R =
     (if PDDR (R (hPort h)) AND pinmask h \<noteq> 0
      then (if PDOR (R (hPort h)) AND pinmask h \<noteq> 0 then LWGPIO_VALUE_HIGH else LWGPIO_VALUE_LOW)
      else (if PDIR (R (hPort h)) AND pinmask h \<noteq> 0 then LWGPIO_VALUE_HIGH else LWGPIO_VALUE_LOW))"

definition lwgpio_get_functionality :: "lwgpio_struct \<Rightarrow> gpio_regs \<Rightarrow> u32" where
  "lwgpio_get_functionality h R = drop_bit 8 (pcr_read h R AND PORT_PCR_MUX_MASK)"

definition lwgpio_toggle_value :: "lwgpio_struct \<Rightarrow> gpio_regs \<Rightarrow> gpio_regs" where
  "lwgpio_toggle_value h R = R(hPort h := (R (hPort h))\<lparr>PDOR := PDOR (R (hPort h)) XOR pinmask h\<rparr>)"

definition lwgpio_get_raw :: "lwgpio_struct \<Rightarrow> gpio_regs \<Rightarrow> lwgpio_value" where
  "lwgpio_get_raw h R = (if PDIR (R (hPort h)) AND pinmask h \<noteq> 0 then LWGPIO_VALUE_HIGH else LWGPIO_VALUE_LOW)"

text \<open>Attributes of a pin; both pulls share the bit that enables them.\<close>

abbreviation LWGPIO_ATTR_PULL_UP :: u32 where "LWGPIO_ATTR_PULL_UP \<equiv> 1"
abbreviation LWGPIO_ATTR_PULL_DOWN :: u32 where "LWGPIO_ATTR_PULL_DOWN \<equiv> 2"
abbreviation LWGPIO_ATTR_OPEN_DRAIN :: u32 where "LWGPIO_ATTR_OPEN_DRAIN \<equiv> 3"
abbreviation LWGPIO_ATTR_SLEW_RATE :: u32 where "LWGPIO_ATTR_SLEW_RATE \<equiv> 0x101"
abbreviation LWGPIO_ATTR_FILTER :: u32 where "LWGPIO_ATTR_FILTER \<equiv> 0x102"
abbreviation LWGPIO_ATTR_DRIVE_STRENGTH :: u32 where "LWGPIO_ATTR_DRIVE_STRENGTH \<equiv> 0x103"
abbreviation LWGPIO_AVAL_ENABLE :: u32 where "LWGPIO_AVAL_ENABLE \<equiv> 1"
abbreviation LWGPIO_AVAL_DISABLE :: u32 where "LWGPIO_AVAL_DISABLE \<equiv> 0"

definition PORT_PCR_PS_MASK :: u32 where "PORT_PCR_PS_MASK = 1"
definition PORT_PCR_PE_MASK :: u32 where "PORT_PCR_PE_MASK = 2"
definition PORT_PCR_SRE_MASK :: u32 where "PORT_PCR_SRE_MASK = 4"
definition PORT_PCR_PFE_MASK :: u32 where "PORT_PCR_PFE_MASK = 0x10"
definition PORT_PCR_ODE_MASK :: u32 where "PORT_PCR_ODE_MASK = 0x20"
definition PORT_PCR_DSE_MASK :: u32 where "PORT_PCR_DSE_MASK = 0x40"
definition LWGPIO_PULL_UP_MASK :: u32 where "LWGPIO_PULL_UP_MASK = 0x200000"
definition LWGPIO_PULL_DOWN_MASK :: u32 where "LWGPIO_PULL_DOWN_MASK = 0x400000"

definition pcr_set :: "lwgpio_struct \<Rightarrow> u32 \<Rightarrow> gpio_regs \<Rightarrow> gpio_regs" where
  "pcr_set h m R = pcr_write h (pcr_read h R OR m) R"

definition pcr_clr :: "lwgpio_struct \<Rightarrow> u32 \<Rightarrow> gpio_regs \<Rightarrow> gpio_regs" where
  "pcr_clr h m R = pcr_write h (pcr_read h R AND NOT m) R"

definition lwgpio_set_attribute :: "u32 \<Rightarrow> u32 \<Rightarrow> lwgpio_struct \<Rightarrow> gpio_regs \<Rightarrow> bool \<times> lwgpio_struct \<times> gpio_regs" where
  "lwgpio_set_attribute a x h R =
     (if a = LWGPIO_ATTR_PULL_UP then
        (if x = LWGPIO_AVAL_ENABLE
         then (True, h\<lparr>hFlags := (hFlags h OR LWGPIO_PULL_UP_MASK) AND NOT LWGPIO_PULL_DOWN_MASK\<rparr>,
               pcr_set h (PORT_PCR_PS_MASK OR PORT_PCR_PE_MASK) R)
         else if x = LWGPIO_AVAL_DISABLE \<and> hFlags h AND LWGPIO_PULL_DOWN_MASK = 0
         then (True, h\<lparr>hFlags := hFlags h AND NOT LWGPIO_PULL_UP_MASK\<rparr>, pcr_clr h PORT_PCR_PE_MASK R)
         else (True, h, R))
      else if a = LWGPIO_ATTR_PULL_DOWN then
        (if x = LWGPIO_AVAL_ENABLE
         then (True, h\<lparr>hFlags := hFlags h AND NOT LWGPIO_PULL_UP_MASK OR LWGPIO_PULL_DOWN_MASK\<rparr>,
               pcr_set h PORT_PCR_PE_MASK (pcr_clr h PORT_PCR_PS_MASK R))
         else if x = LWGPIO_AVAL_DISABLE \<and> hFlags h AND LWGPIO_PULL_UP_MASK = 0
         then (True, h\<lparr>hFlags := hFlags h AND NOT LWGPIO_PULL_DOWN_MASK\<rparr>, pcr_clr h PORT_PCR_PE_MASK R)
         else (True, h, R))
      else if a = LWGPIO_ATTR_SLEW_RATE then (True, h, (if x = 1 then pcr_set else pcr_clr) h PORT_PCR_SRE_MASK R)
      else if a = LWGPIO_ATTR_FILTER then (True, h, (if x = LWGPIO_AVAL_ENABLE then pcr_set else pcr_clr) h PORT_PCR_PFE_MASK R)
      else if a = LWGPIO_ATTR_OPEN_DRAIN then (True, h, (if x = LWGPIO_AVAL_ENABLE then pcr_set else pcr_clr) h PORT_PCR_ODE_MASK R)
      else if a = LWGPIO_ATTR_DRIVE_STRENGTH then (True, h, (if x = 1 then pcr_set else pcr_clr) h PORT_PCR_DSE_MASK R)
      else (False, h, R))"

abbreviation LWGPIO_INT_MODE_RISING :: u8 where "LWGPIO_INT_MODE_RISING \<equiv> 1"
abbreviation LWGPIO_INT_MODE_FALLING :: u8 where "LWGPIO_INT_MODE_FALLING \<equiv> 2"
abbreviation LWGPIO_INT_MODE_HIGH :: u8 where "LWGPIO_INT_MODE_HIGH \<equiv> 4"
abbreviation LWGPIO_INT_MODE_LOW :: u8 where "LWGPIO_INT_MODE_LOW \<equiv> 8"

text \<open>The two assignments to the mode field, where PCR has IRQC.\<close>

definition set_int_mode :: "u32 \<Rightarrow> u32 \<Rightarrow> u32" where
  "set_int_mode f k = (f AND NOT PORT_PCR_IRQC_MASK) OR (push_bit 16 k AND PORT_PCR_IRQC_MASK)"

definition lwgpio_int_init :: "u8 \<Rightarrow> lwgpio_struct \<Rightarrow> bool \<times> lwgpio_struct" where
  "lwgpio_int_init mode h =
     (if 4 < mode \<and> mode \<noteq> LWGPIO_INT_MODE_LOW then (False, h)
      else if mode \<noteq> 0 then (True, h\<lparr>hFlags := set_int_mode (hFlags h) (8 OR ucast (mode AND 7))\<rparr>)
      else (True, h))"

definition lwgpio_int_enable :: "lwgpio_struct \<Rightarrow> bool \<Rightarrow> gpio_regs \<Rightarrow> gpio_regs" where
  "lwgpio_int_enable h ena R =
     (let R = pcr_write h (pcr_read h R AND NOT PORT_PCR_IRQC_MASK) R in
      if ena then pcr_write h (pcr_read h R OR (hFlags h AND PORT_PCR_IRQC_MASK)) R else R)"

definition lwgpio_int_get_flag :: "lwgpio_struct \<Rightarrow> gpio_regs \<Rightarrow> bool" where
  "lwgpio_int_get_flag h R \<longleftrightarrow> pcr_read h R AND PORT_PCR_ISF_MASK \<noteq> 0"

definition lwgpio_int_clear_flag :: "lwgpio_struct \<Rightarrow> gpio_regs \<Rightarrow> gpio_regs" where
  "lwgpio_int_clear_flag h R = pcr_write h (pcr_read h R OR PORT_PCR_ISF_MASK) R"

text \<open>\<^verbatim>\<open>INT_PORTA\<close> is 103; the vector's number less that.\<close>

definition lwgpio_int_get_vector :: "lwgpio_struct \<Rightarrow> nat" where
  "lwgpio_int_get_vector h = unat (drop_bit 5 (hFlags h) AND 0xFF)"

section \<open>The hardware's own steps\<close>

definition pcr_irqc :: "u32 \<Rightarrow> u32" where "pcr_irqc w = drop_bit 16 w AND 0xF"

definition level_fires :: "u32 \<Rightarrow> bool \<Rightarrow> bool" where
  "level_fires w level \<longleftrightarrow> pcr_irqc w = 8 \<and> \<not> level \<or> pcr_irqc w = 12 \<and> level"

definition edge_fires :: "u32 \<Rightarrow> bool \<Rightarrow> bool \<Rightarrow> bool" where
  "edge_fires w was now \<longleftrightarrow> pcr_irqc w = 9 \<and> \<not> was \<and> now \<or> pcr_irqc w = 10 \<and> was \<and> \<not> now
     \<or> pcr_irqc w = 11 \<and> was \<noteq> now"

definition gpio_sense :: "gpio_regs \<Rightarrow> gpio_regs" where
  "gpio_sense R = (\<lambda>p. (R p)\<lparr>PCR := (\<lambda>n. if level_fires (PCR (R p) n) (bit (PDIR (R p)) n)
     then PCR (R p) n OR PORT_PCR_ISF_MASK else PCR (R p) n)\<rparr>)"

definition gpio_drive :: "nat \<Rightarrow> nat \<Rightarrow> bool \<Rightarrow> gpio_regs \<Rightarrow> gpio_regs" where
  "gpio_drive p n level R = R(p := (R p)\<lparr>
     PDIR := (if level then PDIR (R p) OR push_bit n 1 else PDIR (R p) AND NOT (push_bit n 1)),
     PCR := (PCR (R p))(n := if edge_fires (PCR (R p) n) (bit (PDIR (R p)) n) level
        then PCR (R p) n OR PORT_PCR_ISF_MASK else PCR (R p) n)\<rparr>)"

section \<open>Pin drivers\<close>

record lwgpio_config =
  lwID :: u32
  nLWGPIO :: u32
  nMUX :: u32
  lwDIR :: lwgpio_dir
  lwInit :: lwgpio_value
  nActive :: lwgpio_value
  nInactive :: lwgpio_value

record fte_lwgpio =
  lwConfig :: lwgpio_config
  lwParent :: u32
  xLWGPIO :: lwgpio_struct

datatype gpio_dir = FTE_GPIO_DIR_INPUT | FTE_GPIO_DIR_OUTPUT | FTE_GPIO_DIR_NOCHANGE
datatype gpio_value = FTE_GPIO_VALUE_LOW | FTE_GPIO_VALUE_HIGH | FTE_GPIO_VALUE_NOCHANGE

record gpio_config =
  gpID :: u32
  gpDevID :: u32
  gpDIR :: gpio_dir
  gpInit :: gpio_value
  gpActive :: gpio_value

record fte_gpio =
  gpConfig :: gpio_config
  gpParent :: u32
  pPort :: addr

text \<open>The drivers by address, the chains from the two \<^verbatim>\<open>_pHead\<close> in their order, and the
  interrupt controller: per port, whether the interrupt is let through and the
  parameter of the installed routine (\<open>None\<close>: no routine).\<close>

record gpio_state =
  regs :: gpio_regs
  irqOn :: "nat \<Rightarrow> bool"
  isrTab :: "nat \<Rightarrow> addr option"
  lwgpios :: "addr \<rightharpoonup> fte_lwgpio"
  lwChain :: "addr list"
  nLWGPIOs :: u32
  gpios :: "addr \<rightharpoonup> fte_gpio"
  gpChain :: "addr list"
  nGPIOs :: u32

definition lwgpio_zero :: "lwgpio_config \<Rightarrow> fte_lwgpio" where
  "lwgpio_zero c = \<lparr>lwConfig = c, lwParent = 0, xLWGPIO = \<lparr>hPort = 0, hPin = 0, pinmask = 0, hFlags = 0\<rparr>\<rparr>"

text \<open>\<open>p\<close> is what \<^verbatim>\<open>FTE_MEM_allocZero\<close> returned.\<close>

definition FTE_LWGPIO_create :: "lwgpio_config \<Rightarrow> addr \<Rightarrow> gpio_state \<Rightarrow> fte_ret \<times> gpio_state" where
  "FTE_LWGPIO_create c p g =
     (if p = NULL then (FTE_RET_NOT_ENOUGH_MEMORY, g)
      else (FTE_RET_OK, g\<lparr>lwgpios := (lwgpios g)(p \<mapsto> lwgpio_zero c), lwChain := p # lwChain g, nLWGPIOs := nLWGPIOs g + 1\<rparr>))"

definition FTE_LWGPIO_count :: "gpio_state \<Rightarrow> u32" where "FTE_LWGPIO_count g = nLWGPIOs g"

text \<open>The walk along a chain; a broken link is a fault.\<close>

primrec chain_find :: "(addr \<rightharpoonup> 'a) \<Rightarrow> ('a \<Rightarrow> bool) \<Rightarrow> addr list \<Rightarrow> addr option" where
  "chain_find M P [] = Some NULL"
| "chain_find M P (p # ps) = do { x \<leftarrow> M p; if P x then Some p else chain_find M P ps }"

definition FTE_LWGPIO_get :: "u32 \<Rightarrow> gpio_state \<Rightarrow> addr option" where
  "FTE_LWGPIO_get i g = chain_find (lwgpios g) (\<lambda>l. lwID (lwConfig l) = i) (lwChain g)"

definition upd_lwgpio :: "addr \<Rightarrow> (fte_lwgpio \<Rightarrow> fte_lwgpio) \<Rightarrow> gpio_state \<Rightarrow> gpio_state option" where
  "upd_lwgpio p f g = do { l \<leftarrow> lwgpios g p; Some (g\<lparr>lwgpios := (lwgpios g)(p \<mapsto> f l)\<rparr>) }"

definition FTE_LWGPIO_attach :: "addr \<Rightarrow> u32 \<Rightarrow> gpio_state \<Rightarrow> (fte_ret \<times> gpio_state) option" where
  "FTE_LWGPIO_attach p nParent g = do {
     l \<leftarrow> lwgpios g p;
     (ok, h, R) \<leftarrow> lwgpio_init (nLWGPIO (lwConfig l)) (lwDIR (lwConfig l)) (lwInit (lwConfig l)) (regs g);
     if \<not> ok then Some (FTE_RET_INITIALIZE_FAILED, g)
     else do {
       let R = lwgpio_set_functionality h (nMUX (lwConfig l)) R;
       let R = lwgpio_set_value h (lwInit (lwConfig l)) R;
       Some (FTE_RET_OK, g\<lparr>regs := R, lwgpios := (lwgpios g)(p \<mapsto> l\<lparr>xLWGPIO := h, lwParent := nParent\<rparr>)\<rparr>)
     }
   }"

definition FTE_LWGPIO_detach :: "addr \<Rightarrow> gpio_state \<Rightarrow> (fte_ret \<times> gpio_state) option" where
  "FTE_LWGPIO_detach p g = do {
     l \<leftarrow> lwgpios g p;
     if lwParent l \<noteq> 0 then Some (FTE_RET_OK, g\<lparr>lwgpios := (lwgpios g)(p \<mapsto> l\<lparr>lwParent := 0\<rparr>)\<rparr>)
     else Some (FTE_RET_ERROR, g)
   }"

definition FTE_LWGPIO_setValue :: "addr \<Rightarrow> u32 \<Rightarrow> gpio_state \<Rightarrow> (fte_ret \<times> gpio_state) option" where
  "FTE_LWGPIO_setValue p v g = do {
     l \<leftarrow> lwgpios g p;
     Some (FTE_RET_OK, g\<lparr>regs := lwgpio_set_value (xLWGPIO l)
       (if v \<noteq> 0 then nActive (lwConfig l) else nInactive (lwConfig l)) (regs g)\<rparr>)
   }"

definition FTE_LWGPIO_getValue :: "addr \<Rightarrow> gpio_state \<Rightarrow> (fte_ret \<times> u32) option" where
  "FTE_LWGPIO_getValue p g = do {
     l \<leftarrow> lwgpios g p;
     Some (FTE_RET_OK, if lwgpio_get_value (xLWGPIO l) (regs g) = nActive (lwConfig l) then 1 else 0)
   }"

definition FTE_LWGPIO_setDirection :: "addr \<Rightarrow> lwgpio_dir \<Rightarrow> gpio_state \<Rightarrow> (fte_ret \<times> gpio_state) option" where
  "FTE_LWGPIO_setDirection p d g = do {
     l \<leftarrow> lwgpios g p;
     let (h, R) = lwgpio_set_direction d (xLWGPIO l) (regs g);
     Some (FTE_RET_OK, g\<lparr>regs := R, lwgpios := (lwgpios g)(p \<mapsto> l\<lparr>xLWGPIO := h\<rparr>)\<rparr>)
   }"

definition lwgpio_pull :: "u32 \<Rightarrow> addr \<Rightarrow> bool \<Rightarrow> gpio_state \<Rightarrow> (fte_ret \<times> gpio_state) option" where
  "lwgpio_pull a p bEnable g = do {
     l \<leftarrow> lwgpios g p;
     let (_, h, R) = lwgpio_set_attribute a (if bEnable then LWGPIO_AVAL_ENABLE else LWGPIO_AVAL_DISABLE) (xLWGPIO l) (regs g);
     Some (FTE_RET_OK, g\<lparr>regs := R, lwgpios := (lwgpios g)(p \<mapsto> l\<lparr>xLWGPIO := h\<rparr>)\<rparr>)
   }"

definition FTE_LWGPIO_setPullUp :: "addr \<Rightarrow> bool \<Rightarrow> gpio_state \<Rightarrow> (fte_ret \<times> gpio_state) option" where
  "FTE_LWGPIO_setPullUp = lwgpio_pull LWGPIO_ATTR_PULL_UP"

definition FTE_LWGPIO_setPullDown :: "addr \<Rightarrow> bool \<Rightarrow> gpio_state \<Rightarrow> (fte_ret \<times> gpio_state) option" where
  "FTE_LWGPIO_setPullDown = lwgpio_pull LWGPIO_ATTR_PULL_DOWN"

definition FTE_LWGPIO_setISR :: "addr \<Rightarrow> addr option \<Rightarrow> gpio_state \<Rightarrow> (fte_ret \<times> gpio_state) option" where
  "FTE_LWGPIO_setISR p isr g = do {
     l \<leftarrow> lwgpios g p;
     Some (FTE_RET_OK, g\<lparr>isrTab := (isrTab g)(lwgpio_int_get_vector (xLWGPIO l) := isr)\<rparr>)
   }"

definition FTE_LWGPIO_INT_init :: "addr \<Rightarrow> bool \<Rightarrow> gpio_state \<Rightarrow> (fte_ret \<times> gpio_state) option" where
  "FTE_LWGPIO_INT_init p enable g = do {
     l \<leftarrow> lwgpios g p;
     Some (FTE_RET_OK, g\<lparr>irqOn := (irqOn g)(lwgpio_int_get_vector (xLWGPIO l) := enable)\<rparr>)
   }"

abbreviation FTE_LWGPIO_INT_RISING :: u32 where "FTE_LWGPIO_INT_RISING \<equiv> 1"
abbreviation FTE_LWGPIO_INT_FALLING :: u32 where "FTE_LWGPIO_INT_FALLING \<equiv> 2"
abbreviation FTE_LWGPIO_INT_LOW :: u32 where "FTE_LWGPIO_INT_LOW \<equiv> 3"
abbreviation FTE_LWGPIO_INT_HIGH :: u32 where "FTE_LWGPIO_INT_HIGH \<equiv> 4"

text \<open>The mode for a polarity: the opposite one for a pin that is active low.\<close>

definition polarity_mode :: "u32 \<Rightarrow> bool \<Rightarrow> u8 option" where
  "polarity_mode polarity activeHigh =
     (if polarity = FTE_LWGPIO_INT_RISING then Some (if activeHigh then LWGPIO_INT_MODE_RISING else LWGPIO_INT_MODE_FALLING)
      else if polarity = FTE_LWGPIO_INT_FALLING then Some (if activeHigh then LWGPIO_INT_MODE_FALLING else LWGPIO_INT_MODE_RISING)
      else if polarity = FTE_LWGPIO_INT_LOW then Some (if activeHigh then LWGPIO_INT_MODE_LOW else LWGPIO_INT_MODE_HIGH)
      else if polarity = FTE_LWGPIO_INT_HIGH then Some (if activeHigh then LWGPIO_INT_MODE_HIGH else LWGPIO_INT_MODE_LOW)
      else None)"

definition FTE_LWGPIO_INT_setPolarity :: "addr \<Rightarrow> u32 \<Rightarrow> gpio_state \<Rightarrow> (fte_ret \<times> gpio_state) option" where
  "FTE_LWGPIO_INT_setPolarity p polarity g = do {
     l \<leftarrow> lwgpios g p;
     case polarity_mode polarity (nActive (lwConfig l) = LWGPIO_VALUE_HIGH) of
       None \<Rightarrow> Some (FTE_RET_ERROR, g)
     | Some mode \<Rightarrow> Some (FTE_RET_OK,
         g\<lparr>lwgpios := (lwgpios g)(p \<mapsto> l\<lparr>xLWGPIO := snd (lwgpio_int_init mode (xLWGPIO l))\<rparr>)\<rparr>)
   }"

definition FTE_LWGPIO_INT_setEnable :: "addr \<Rightarrow> bool \<Rightarrow> gpio_state \<Rightarrow> (fte_ret \<times> gpio_state) option" where
  "FTE_LWGPIO_INT_setEnable p enable g = do {
     l \<leftarrow> lwgpios g p;
     Some (FTE_RET_OK, g\<lparr>regs := lwgpio_int_enable (xLWGPIO l) enable (regs g)\<rparr>)
   }"

definition FTE_LWGPIO_INT_getFlag :: "addr \<Rightarrow> gpio_state \<Rightarrow> (fte_ret \<times> bool) option" where
  "FTE_LWGPIO_INT_getFlag p g = do {
     l \<leftarrow> lwgpios g p;
     Some (FTE_RET_OK, lwgpio_int_get_flag (xLWGPIO l) (regs g))
   }"

definition FTE_LWGPIO_INT_clrFlag :: "addr \<Rightarrow> gpio_state \<Rightarrow> (fte_ret \<times> gpio_state) option" where
  "FTE_LWGPIO_INT_clrFlag p g = do {
     l \<leftarrow> lwgpios g p;
     Some (FTE_RET_OK, g\<lparr>regs := lwgpio_int_clear_flag (xLWGPIO l) (regs g)\<rparr>)
   }"

section \<open>Pins of the board\<close>

definition FTE_GPIO_create :: "gpio_config \<Rightarrow> addr \<Rightarrow> gpio_state \<Rightarrow> fte_ret \<times> gpio_state" where
  "FTE_GPIO_create c p g =
     (if p = NULL then (FTE_RET_NOT_ENOUGH_MEMORY, g)
      else (FTE_RET_OK, g\<lparr>gpios := (gpios g)(p \<mapsto> \<lparr>gpConfig = c, gpParent = 0, pPort = NULL\<rparr>),
              gpChain := p # gpChain g, nGPIOs := nGPIOs g + 1\<rparr>))"

abbreviation FTE_DEV_TYPE_MASK :: u32 where "FTE_DEV_TYPE_MASK \<equiv> 0xFFFFFF00"
abbreviation FTE_DEV_TYPE_LWGPIO :: u32 where "FTE_DEV_TYPE_LWGPIO \<equiv> 0x10000"

definition is_lwgpio :: "fte_gpio \<Rightarrow> bool" where
  "is_lwgpio x \<longleftrightarrow> gpDevID (gpConfig x) AND FTE_DEV_TYPE_MASK = FTE_DEV_TYPE_LWGPIO"

definition FTE_GPIO_attach :: "addr \<Rightarrow> u32 \<Rightarrow> gpio_state \<Rightarrow> (fte_ret \<times> gpio_state) option" where
  "FTE_GPIO_attach q nParent g = do {
     x \<leftarrow> gpios g q;
     if is_lwgpio x then do {
       p \<leftarrow> FTE_LWGPIO_get (gpDevID (gpConfig x)) g;
       if p = NULL then Some (FTE_RET_ERROR, g)
       else do {
         (r, g) \<leftarrow> FTE_LWGPIO_attach p (gpID (gpConfig x)) g;
         if r \<noteq> FTE_RET_OK then Some (FTE_RET_ERROR, g)
         else do {
           (_, g) \<leftarrow> FTE_LWGPIO_setDirection p (case gpDIR (gpConfig x) of
               FTE_GPIO_DIR_OUTPUT \<Rightarrow> LWGPIO_DIR_OUTPUT | FTE_GPIO_DIR_INPUT \<Rightarrow> LWGPIO_DIR_INPUT
             | FTE_GPIO_DIR_NOCHANGE \<Rightarrow> LWGPIO_DIR_NOCHANGE) g;
           (_, g) \<leftarrow> (if gpDIR (gpConfig x) \<noteq> FTE_GPIO_DIR_INPUT then Some (FTE_RET_OK, g)
             else (case gpInit (gpConfig x) of
                 FTE_GPIO_VALUE_LOW \<Rightarrow> FTE_LWGPIO_setValue p 0 g
               | FTE_GPIO_VALUE_HIGH \<Rightarrow> FTE_LWGPIO_setValue p 1 g
               | FTE_GPIO_VALUE_NOCHANGE \<Rightarrow> Some (FTE_RET_OK, g)));
           Some (FTE_RET_OK, g\<lparr>gpios := (gpios g)(q \<mapsto> x\<lparr>pPort := p, gpParent := nParent\<rparr>)\<rparr>)
         }
       }
     } else Some (FTE_RET_ERROR, g)
   }"

definition FTE_GPIO_detach :: "addr \<Rightarrow> gpio_state \<Rightarrow> (fte_ret \<times> gpio_state) option" where
  "FTE_GPIO_detach q g = do {
     x \<leftarrow> gpios g q;
     if is_lwgpio x then do {
       p \<leftarrow> FTE_LWGPIO_get (gpDevID (gpConfig x)) g;
       if p = NULL then Some (FTE_RET_ERROR, g)
       else do {
         (_, g) \<leftarrow> FTE_LWGPIO_attach p (gpID (gpConfig x)) g;
         Some (FTE_RET_OK, g\<lparr>gpios := (gpios g)(q \<mapsto> x\<lparr>gpParent := 0\<rparr>), nGPIOs := nGPIOs g - 1\<rparr>)
       }
     } else Some (FTE_RET_ERROR, g)
   }"

definition FTE_GPIO_count :: "gpio_state \<Rightarrow> u32" where "FTE_GPIO_count g = nGPIOs g"

definition FTE_GPIO_get :: "u32 \<Rightarrow> gpio_state \<Rightarrow> addr option" where
  "FTE_GPIO_get i g = chain_find (gpios g) (\<lambda>x. gpID (gpConfig x) = i) (gpChain g)"

text \<open>The switch on the device type that all of the following share.\<close>

definition gpio_port_call :: "(addr \<Rightarrow> gpio_state \<Rightarrow> (fte_ret \<times> gpio_state) option) \<Rightarrow> addr \<Rightarrow> gpio_state
    \<Rightarrow> (fte_ret \<times> gpio_state) option" where
  "gpio_port_call f q g = do {
     x \<leftarrow> gpios g q;
     if is_lwgpio x then f (pPort x) g else Some (FTE_RET_ERROR, g)
   }"

definition FTE_GPIO_setValue :: "addr \<Rightarrow> u32 \<Rightarrow> gpio_state \<Rightarrow> (fte_ret \<times> gpio_state) option" where
  "FTE_GPIO_setValue q v = gpio_port_call (\<lambda>p. FTE_LWGPIO_setValue p v) q"

text \<open>The value is \<open>None\<close> where \<^verbatim>\<open>*pValue\<close> is left alone.\<close>

definition FTE_GPIO_getValue :: "addr \<Rightarrow> gpio_state \<Rightarrow> (fte_ret \<times> u32 option) option" where
  "FTE_GPIO_getValue q g = do {
     x \<leftarrow> gpios g q;
     if is_lwgpio x then do { (r, v) \<leftarrow> FTE_LWGPIO_getValue (pPort x) g; Some (r, Some v) }
     else Some (FTE_RET_ERROR, None)
   }"

definition FTE_GPIO_setDir :: "addr \<Rightarrow> gpio_dir \<Rightarrow> gpio_state \<Rightarrow> (fte_ret \<times> gpio_state) option" where
  "FTE_GPIO_setDir q d = gpio_port_call (\<lambda>p. FTE_LWGPIO_setDirection p (case d of
     FTE_GPIO_DIR_INPUT \<Rightarrow> LWGPIO_DIR_INPUT | FTE_GPIO_DIR_OUTPUT \<Rightarrow> LWGPIO_DIR_OUTPUT
   | FTE_GPIO_DIR_NOCHANGE \<Rightarrow> LWGPIO_DIR_NOCHANGE)) q"

definition FTE_GPIO_setISR :: "addr \<Rightarrow> addr option \<Rightarrow> gpio_state \<Rightarrow> (fte_ret \<times> gpio_state) option" where
  "FTE_GPIO_setISR q isr = gpio_port_call (\<lambda>p. FTE_LWGPIO_setISR p isr) q"

definition FTE_GPIO_INT_init :: "addr \<Rightarrow> bool \<Rightarrow> gpio_state \<Rightarrow> (fte_ret \<times> gpio_state) option" where
  "FTE_GPIO_INT_init q enable = gpio_port_call (\<lambda>p. FTE_LWGPIO_INT_init p enable) q"

definition FTE_GPIO_INT_setPolarity :: "addr \<Rightarrow> u32 \<Rightarrow> gpio_state \<Rightarrow> (fte_ret \<times> gpio_state) option" where
  "FTE_GPIO_INT_setPolarity q polarity = gpio_port_call (\<lambda>p. FTE_LWGPIO_INT_setPolarity p polarity) q"

definition FTE_GPIO_INT_setEnable :: "addr \<Rightarrow> bool \<Rightarrow> gpio_state \<Rightarrow> (fte_ret \<times> gpio_state) option" where
  "FTE_GPIO_INT_setEnable q enable = gpio_port_call (\<lambda>p. FTE_LWGPIO_INT_setEnable p enable) q"

definition FTE_GPIO_INT_getFlag :: "addr \<Rightarrow> gpio_state \<Rightarrow> (fte_ret \<times> bool option) option" where
  "FTE_GPIO_INT_getFlag q g = do {
     x \<leftarrow> gpios g q;
     if is_lwgpio x then do { (r, b) \<leftarrow> FTE_LWGPIO_INT_getFlag (pPort x) g; Some (r, Some b) }
     else Some (FTE_RET_ERROR, None)
   }"

definition FTE_GPIO_INT_clrFlag :: "addr \<Rightarrow> gpio_state \<Rightarrow> (fte_ret \<times> gpio_state) option" where
  "FTE_GPIO_INT_clrFlag q = gpio_port_call FTE_LWGPIO_INT_clrFlag q"

section \<open>What a pin promises\<close>

text \<open>A handle as \<^verbatim>\<open>lwgpio_init\<close> leaves it and the other calls keep it.\<close>

definition handle_ok :: "lwgpio_struct \<Rightarrow> bool" where
  "handle_ok h \<longleftrightarrow> hPort h < LWGPIO_PORTS \<and> hPin h < 32 \<and> pinmask h = push_bit (hPin h) 1
     \<and> lwgpio_int_get_vector h = hPort h"

definition pin_level :: "lwgpio_struct \<Rightarrow> gpio_regs \<Rightarrow> bool" where "pin_level h R = bit (PDIR (R (hPort h))) (hPin h)"
definition pin_latch :: "lwgpio_struct \<Rightarrow> gpio_regs \<Rightarrow> bool" where "pin_latch h R = bit (PDOR (R (hPort h))) (hPin h)"
definition pin_out :: "lwgpio_struct \<Rightarrow> gpio_regs \<Rightarrow> bool" where "pin_out h R = bit (PDDR (R (hPort h))) (hPin h)"

lemma and_pinmask: "(w AND push_bit n 1 \<noteq> 0) = bit w n" for w :: u32
  by (simp add: push_bit_of_1 and_exp_eq_0_iff_not_bit)

lemma bit_shifted_mask: "bit (push_bit m (mask k) :: u32) n \<longleftrightarrow> m \<le> n \<and> n < 32 \<and> n < m + k"
  by (auto simp: bit_simps)

lemma mask_bits:
  "bit PORT_PCR_IRQC_MASK n \<longleftrightarrow> 16 \<le> n \<and> n < 20" "bit PORT_PCR_ISF_MASK n \<longleftrightarrow> n = 24"
  "bit LWGPIO_DIR_MASK n \<longleftrightarrow> n = 20"
proof -
  have e: "PORT_PCR_IRQC_MASK = push_bit 16 (mask 4)" "PORT_PCR_ISF_MASK = push_bit 24 (mask 1)"
    "LWGPIO_DIR_MASK = push_bit 20 (mask 1)"
    by (simp_all add: PORT_PCR_IRQC_MASK_def PORT_PCR_ISF_MASK_def LWGPIO_DIR_MASK_def mask_eq_exp_minus_1)
  show "bit PORT_PCR_IRQC_MASK n \<longleftrightarrow> 16 \<le> n \<and> n < 20" "bit PORT_PCR_ISF_MASK n \<longleftrightarrow> n = 24"
    "bit LWGPIO_DIR_MASK n \<longleftrightarrow> n = 20"
    unfolding e bit_shifted_mask by auto
qed

text \<open>The two parts of a control register that matter: the armed mode and the flag.\<close>

lemma low_masks: "w AND 0xF = take_bit 4 w" "w AND 0xFF = take_bit 8 w" for w :: u32
  using take_bit_eq_mask [of 4 w] take_bit_eq_mask [of 8 w] by (simp_all add: mask_eq_exp_minus_1)

lemma bit_pcr_irqc: "bit (pcr_irqc w) n \<longleftrightarrow> n < 4 \<and> bit w (16 + n)"
  by (simp add: pcr_irqc_def low_masks bit_take_bit_iff bit_drop_bit_eq)

lemma bit_pcr_store: "bit (pcr_store old w) n \<longleftrightarrow> (if n = 24 then bit old 24 \<and> \<not> bit w 24 else bit w n)"
  by (auto simp: pcr_store_def bit_and_iff bit_or_iff bit_not_iff mask_bits bit_imp_le_length
      dest: bit_imp_le_length)

lemma irqc_simps:
  "pcr_irqc (w AND NOT PORT_PCR_IRQC_MASK) = 0"
  "pcr_irqc w = 0 \<Longrightarrow> pcr_irqc (w OR (f AND PORT_PCR_IRQC_MASK)) = pcr_irqc f"
  "pcr_irqc (w OR PORT_PCR_ISF_MASK) = pcr_irqc w"
  "pcr_irqc (pcr_store old w) = pcr_irqc w"
proof -
  note bits = bit_pcr_irqc bit_pcr_store bit_and_iff bit_or_iff bit_not_iff mask_bits
  show "pcr_irqc (w AND NOT PORT_PCR_IRQC_MASK) = 0" by (rule bit_word_eqI) (simp add: bits)
  show "pcr_irqc (w OR PORT_PCR_ISF_MASK) = pcr_irqc w" by (rule bit_word_eqI) (auto simp: bits)
  show "pcr_irqc (pcr_store old w) = pcr_irqc w" by (rule bit_word_eqI) (auto simp: bits)
  assume "pcr_irqc w = 0"
  then have "\<And>n. n < 4 \<Longrightarrow> \<not> bit w (16 + n)" using bit_pcr_irqc [of w] by simp
  then show "pcr_irqc (w OR (f AND PORT_PCR_IRQC_MASK)) = pcr_irqc f" by (intro bit_word_eqI) (auto simp: bits)
qed

lemma set_int_mode:
  "pcr_irqc (set_int_mode f k) = take_bit 4 k" "take_bit 16 (set_int_mode f k) = take_bit 16 f"
proof -
  note bits = bit_pcr_irqc bit_take_bit_iff bit_and_iff bit_or_iff bit_not_iff bit_push_bit_iff mask_bits
  show "pcr_irqc (set_int_mode f k) = take_bit 4 k"
    by (rule bit_word_eqI) (auto simp: set_int_mode_def bits)
  show "take_bit 16 (set_int_mode f k) = take_bit 16 f"
    by (rule bit_word_eqI) (auto simp: set_int_mode_def bits)
qed

text \<open>The port is in the low half of the flags.\<close>

lemma vector_low_flags: "take_bit 16 f = take_bit 16 g \<Longrightarrow> drop_bit 5 f AND 0xFF = drop_bit 5 g AND 0xFF" for f :: u32
proof -
  assume a: "take_bit 16 f = take_bit 16 g"
  have "take_bit 8 (drop_bit 5 w) = take_bit 8 (drop_bit 5 (take_bit 16 w))" for w :: u32
    by (rule bit_word_eqI) (auto simp: bit_take_bit_iff bit_drop_bit_eq)
  then show ?thesis using a by (metis low_masks(2))
qed

lemma flag_simps:
  "bit (w AND NOT PORT_PCR_IRQC_MASK) 24 = bit w 24"
  "bit (w OR (f AND PORT_PCR_IRQC_MASK)) 24 = bit w 24"
  "bit (w OR PORT_PCR_ISF_MASK) 24"
  "bit (pcr_store old w) 24 \<longleftrightarrow> bit old 24 \<and> \<not> bit w 24"
  by (simp_all add: bit_pcr_store bit_and_iff bit_or_iff bit_not_iff mask_bits)

lemma isf_test: "(w AND PORT_PCR_ISF_MASK \<noteq> 0) = bit w 24"
  using and_pinmask [of w 24] by (simp add: PORT_PCR_ISF_MASK_def)

definition pin_irqc :: "lwgpio_struct \<Rightarrow> gpio_regs \<Rightarrow> u32" where "pin_irqc h R = pcr_irqc (pcr_read h R)"
definition pin_flag :: "lwgpio_struct \<Rightarrow> gpio_regs \<Rightarrow> bool" where "pin_flag h R = bit (pcr_read h R) 24"

lemma pcr_write_pin:
  "pcr_read h (pcr_write h w R) = pcr_store (pcr_read h R) w"
  by (simp add: pcr_read_def pcr_write_def)

lemma pin_disarm:
  "pin_irqc h (lwgpio_int_enable h False R) = 0" "\<not> pin_flag h (lwgpio_int_enable h False R)"
  by (simp_all add: pin_irqc_def pin_flag_def lwgpio_int_enable_def pcr_write_pin irqc_simps flag_simps)

lemma pin_arm:
  "pin_irqc h (lwgpio_int_enable h True R) = pcr_irqc (hFlags h)" "\<not> pin_flag h (lwgpio_int_enable h True R)"
  by (simp_all add: pin_irqc_def pin_flag_def lwgpio_int_enable_def Let_def pcr_write_pin irqc_simps flag_simps)

lemma pin_clear:
  "pin_irqc h (lwgpio_int_clear_flag h R) = pin_irqc h R" "\<not> pin_flag h (lwgpio_int_clear_flag h R)"
  by (simp_all add: pin_irqc_def pin_flag_def lwgpio_int_clear_flag_def pcr_write_pin irqc_simps flag_simps)

lemma pin_get_flag: "lwgpio_int_get_flag h R = pin_flag h R"
  by (simp add: lwgpio_int_get_flag_def pin_flag_def isf_test)

lemma pin_set_value:
  assumes "handle_ok h" "v \<noteq> LWGPIO_VALUE_NOCHANGE"
  shows "pin_latch h (lwgpio_set_value h v R) \<longleftrightarrow> v = LWGPIO_VALUE_HIGH"
  using assms by (cases v) (auto simp: handle_ok_def pin_latch_def lwgpio_set_value_def bit_simps)

lemma pin_get_value:
  assumes "handle_ok h"
  shows "lwgpio_get_value h R = (if (if pin_out h R then pin_latch h R else pin_level h R)
     then LWGPIO_VALUE_HIGH else LWGPIO_VALUE_LOW)"
  using assms by (auto simp: handle_ok_def lwgpio_get_value_def and_pinmask [unfolded push_bit_of_1] push_bit_of_1 pin_out_def pin_latch_def pin_level_def)

text \<open>The interrupt mode a polarity selects, and the levels at which it fires.\<close>

lemma int_init_irqc:
  "pcr_irqc (hFlags (snd (lwgpio_int_init LWGPIO_INT_MODE_LOW h))) = 8"
  "pcr_irqc (hFlags (snd (lwgpio_int_init LWGPIO_INT_MODE_HIGH h))) = 12"
  by (simp_all add: lwgpio_int_init_def set_int_mode)

lemma int_init_handle:
  "hPort (snd (lwgpio_int_init m h)) = hPort h" "hPin (snd (lwgpio_int_init m h)) = hPin h"
  "pinmask (snd (lwgpio_int_init m h)) = pinmask h"
  "lwgpio_int_get_vector (snd (lwgpio_int_init m h)) = lwgpio_int_get_vector h"
proof -
  show "hPort (snd (lwgpio_int_init m h)) = hPort h" "hPin (snd (lwgpio_int_init m h)) = hPin h"
    "pinmask (snd (lwgpio_int_init m h)) = pinmask h" by (simp_all add: lwgpio_int_init_def)
  show "lwgpio_int_get_vector (snd (lwgpio_int_init m h)) = lwgpio_int_get_vector h"
    by (simp add: lwgpio_int_init_def lwgpio_int_get_vector_def vector_low_flags [OF set_int_mode(2)])
qed

end
