(* ===== verification/FTE_Dio.thy ===== *)
theory FTE_Dio
  imports FTE_Gpio FTE_Event
begin

unbundle bit_operations_syntax

text \<open>
  Digital inputs and outputs as objects: \<^verbatim>\<open>target/source/obj/fte_di.c\<close> with
  \<^verbatim>\<open>FTE_DIO_REMOVE_GLITCH\<close> as it is set there, \<^verbatim>\<open>obj/fte_do.c\<close>, the indicator lamps of
  \<^verbatim>\<open>obj/fte_led.c\<close> that both drive, and the turns of the two tasks that drive the inputs,
  \<^verbatim>\<open>task/fte_task_timer.c\<close> and \<^verbatim>\<open>task/fte_task_object_management.c\<close>.

  An input is handled in three places.  The interrupt routine notes the level in the
  preset value and disarms the pin; the timer task arms it again, for the level opposite
  to the preset value, when the preset value is 200 ms old; the management task copies the
  preset value to the object's value once the delay and hold times have passed.

  The state extends that of the events: the pins, what a driver keeps in the status block
  of an object (by the address of the block), the lamps' timer, the clock.
\<close>

section \<open>State\<close>

record 'x dio_state =
  gpio :: gpio_state
  stGPIO :: "addr \<Rightarrow> addr"
  stPreset :: "addr \<Rightarrow> fte_value"
  stLed :: "addr \<Rightarrow> fte_value"
  hTimer :: u32
  ledTimers :: "u32 list"
  timerIDs :: "u32 list"
  clock :: time_struct
  dioMore :: 'x

type_synonym 'x dsys = "'x dio_state esys"

text \<open>\<open>diList\<close>, \<open>doList\<close> and \<open>ledList\<close> are the addresses of the three \<^verbatim>\<open>_xObjList\<close>;
  \<open>stackRet\<close> is what an uninitialised \<^verbatim>\<open>xRet\<close> holds.\<close>

record 'x dio_env =
  dioEv :: "'x dio_state event_env"
  diList :: addr
  doList :: addr
  ledList :: addr
  diAction :: nat
  doAction :: nat
  ledAction :: nat
  stackRet :: fte_ret

abbreviation dio :: "'x dsys \<Rightarrow> 'x dio_state" where "dio s \<equiv> evMore (dev s)"

definition upd_dio :: "('x dio_state \<Rightarrow> 'x dio_state) \<Rightarrow> 'x dsys \<Rightarrow> 'x dsys" where
  "upd_dio f s = s\<lparr>dev := (dev s)\<lparr>evMore := f (dio s)\<rparr>\<rparr>"

text \<open>A call of the pin layer.\<close>

definition gpio_do :: "(gpio_state \<Rightarrow> (fte_ret \<times> gpio_state) option) \<Rightarrow> 'x dsys \<Rightarrow> (fte_ret \<times> 'x dsys) option" where
  "gpio_do f s = do { (r, g) \<leftarrow> f (gpio (dio s)); Some (r, upd_dio (gpio_update (\<lambda>_. g)) s) }"

text \<open>\<^verbatim>\<open>((FTE_DI_STATUS_PTR)pObj->pStatus)->pGPIO\<close>.\<close>

definition pGPIO :: "fte_object \<Rightarrow> 'x dsys \<Rightarrow> addr" where "pGPIO ob s = stGPIO (dio s) (pStatusP ob)"
definition xPresetValue :: "fte_object \<Rightarrow> 'x dsys \<Rightarrow> fte_value" where "xPresetValue ob s = stPreset (dio s) (pStatusP ob)"

definition upd_preset :: "addr \<Rightarrow> fte_value \<Rightarrow> 'x dsys \<Rightarrow> 'x dsys option" where
  "upd_preset pObj v s = do {
     ob \<leftarrow> objs s pObj;
     Some (upd_dio (stPreset_update (\<lambda>m. m(pStatusP ob := v))) s)
   }"

text \<open>\<^verbatim>\<open>pObj->pStatus->pValue\<close> is written.\<close>

definition upd_value :: "addr \<Rightarrow> fte_value \<Rightarrow> 'x dsys \<Rightarrow> 'x dsys option" where
  "upd_value pObj v s = do {
     ob \<leftarrow> objs s pObj;
     guard_opt (oValues ob \<noteq> []);
     upd_obj pObj (\<lambda>ob. ob\<lparr>oValues := (oValues ob)[0 := v]\<rparr>) s
   }"

section \<open>Configurations\<close>

text \<open>The words behind the common part of a configuration, little-endian: \<^verbatim>\<open>nGPIO\<close> comes
  first, where the generic configuration has \<open>nDevID\<close>.\<close>

definition le32 :: "u8 list \<Rightarrow> u32" where "le32 bs = foldr (\<lambda>b w. ucast b OR push_bit 8 w) bs 0"

definition cfg_word :: "nat \<Rightarrow> object_config \<Rightarrow> u32" where
  "cfg_word k c = le32 (take 4 (drop (4 * k) (obj_rest c)))"

abbreviation cfg_nGPIO :: "object_config \<Rightarrow> u32" where "cfg_nGPIO c \<equiv> nDevID c"
definition cfg_nLED :: "object_config \<Rightarrow> u32" where "cfg_nLED c = cfg_word 0 c"
definition cfg_ulDelay :: "object_config \<Rightarrow> u32" where "cfg_ulDelay c = cfg_word 1 c"
definition cfg_ulHold :: "object_config \<Rightarrow> u32" where "cfg_ulHold c = cfg_word 2 c"

text \<open>A lamp's \<^verbatim>\<open>nInit\<close> follows its \<^verbatim>\<open>nGPIO\<close>.\<close>

definition cfg_nInit :: "object_config \<Rightarrow> u32" where "cfg_nInit c = cfg_word 0 c"

abbreviation FTE_OBJ_CONFIG_FLAG_REVERSE :: u32 where "FTE_OBJ_CONFIG_FLAG_REVERSE \<equiv> 0x100"
abbreviation FTE_DI_CONFIG_FLAG_POLARITY_HI :: u32 where "FTE_DI_CONFIG_FLAG_POLARITY_HI \<equiv> 0x10000"
abbreviation FTE_DO_CONFIG_INIT_ON :: u32 where "FTE_DO_CONFIG_INIT_ON \<equiv> 0x10000"
abbreviation FTE_OBJ_STATUS_FLAG_VALID :: u32 where "FTE_OBJ_STATUS_FLAG_VALID \<equiv> 1"

definition obj_flag :: "fte_object \<Rightarrow> u32 \<Rightarrow> bool" where "obj_flag ob f = FTE_FLAG_IS_SET (xFlags (oConfig ob)) f"

definition bool32 :: "bool \<Rightarrow> u32" where "bool32 b = (if b then 1 else 0)"

section \<open>Walking a list of objects\<close>

text \<open>The loop over one of the lists of objects or events, with a step that changes the state.\<close>

partial_function (option) dio_loop :: "(addr \<Rightarrow> 'x dsys \<Rightarrow> 'x dsys option) \<Rightarrow> fte_iter \<Rightarrow> 'x dsys \<Rightarrow> 'x dsys option" where
  "dio_loop step it s = do {
     (pObj, it) \<leftarrow> FTE_LIST_ITER_getNext it s;
     if pObj = NULL then Some s
     else do { s \<leftarrow> step pObj s; dio_loop step it s }
   }"

definition dio_walk :: "addr \<Rightarrow> (addr \<Rightarrow> 'x dsys \<Rightarrow> 'x dsys option) \<Rightarrow> 'x dsys \<Rightarrow> 'x dsys option" where
  "dio_walk lst step s = do {
     (r, it, s) \<leftarrow> FTE_LIST_ITER_init lst s;
     if r = FTE_RET_OK then dio_loop step it s else Some s
   }"

text \<open>The three searches by identifier are the registry's loop over another list.\<close>

definition dio_get :: "'x dio_env \<Rightarrow> addr \<Rightarrow> u32 \<Rightarrow> 'x dsys \<Rightarrow> (addr \<times> 'x dsys) option" where
  "dio_get E lst oid = FTE_OBJ_get ((evObjs (dioEv E))\<lparr>xObjList := lst\<rparr>) oid"

section \<open>Lamps\<close>

abbreviation FTE_LED_STATE_OFF :: u32 where "FTE_LED_STATE_OFF \<equiv> 0"
abbreviation FTE_LED_STATE_ON :: u32 where "FTE_LED_STATE_ON \<equiv> 1"
abbreviation FTE_LED_STATE_BLINK :: u32 where "FTE_LED_STATE_BLINK \<equiv> 2"

definition FTE_LED_get :: "'x dio_env \<Rightarrow> u32 \<Rightarrow> 'x dsys \<Rightarrow> (addr \<times> 'x dsys) option" where
  "FTE_LED_get E oid = dio_get E (ledList E) oid"

definition FTE_LED_count :: "'x dio_env \<Rightarrow> 'x dsys \<Rightarrow> u32 option" where
  "FTE_LED_count E s = FTE_LIST_count (ledList E) s"

text \<open>\<^verbatim>\<open>_timer_cancel(_hTimer)\<close>, and \<^verbatim>\<open>FTE_OBJ_runLoop\<close>, whose answers are taken from a supply (0: no
  timer).\<close>

definition led_cancel :: "'x dsys \<Rightarrow> 'x dsys" where
  "led_cancel s = (if hTimer (dio s) \<noteq> 0
     then upd_dio (\<lambda>d. d\<lparr>ledTimers := removeAll (hTimer d) (ledTimers d), hTimer := 0\<rparr>) s else s)"

definition FTE_OBJ_runLoop :: "'x dsys \<Rightarrow> fte_ret \<times> 'x dsys" where
  "FTE_OBJ_runLoop s = (case timerIDs (dio s) of
     [] \<Rightarrow> (FTE_RET_ERROR, s)
   | t # ts \<Rightarrow> if t = 0 then (FTE_RET_ERROR, upd_dio (timerIDs_update (\<lambda>_. ts)) s)
      else (FTE_RET_OK, upd_dio (\<lambda>d. d\<lparr>timerIDs := ts, ledTimers := t # ledTimers d, hTimer := t\<rparr>) s))"

text \<open>The \<^verbatim>\<open>switch\<close>: the code for the return value, and whether the label \<^verbatim>\<open>error\<close> is taken.\<close>

definition led_switch :: "'x dio_env \<Rightarrow> addr \<Rightarrow> u32 \<Rightarrow> 'x dsys \<Rightarrow> (fte_ret \<times> bool \<times> 'x dsys) option" where
  "led_switch E q x s =
     (if x = FTE_LED_STATE_OFF \<or> x = FTE_LED_STATE_ON then do {
        (r, s) \<leftarrow> gpio_do (FTE_GPIO_setValue q x) s;
        if r \<noteq> FTE_RET_OK then Some (r, True, s) else Some (r, False, led_cancel s)
      } else if x = FTE_LED_STATE_BLINK then
        (if hTimer (dio s) = 0 then do {
           (_, s) \<leftarrow> gpio_do (FTE_GPIO_setValue q 1) s;
           let (r, s) = FTE_OBJ_runLoop s;
           Some (r, r \<noteq> FTE_RET_OK, s)
         } else Some (FTE_RET_OK, False, s))
      else Some (stackRet E, True, s))"

definition FTE_LED_setValue_obj :: "'x dio_env \<Rightarrow> addr \<Rightarrow> fte_value \<Rightarrow> 'x dsys \<Rightarrow> (fte_ret \<times> 'x dsys) option" where
  "FTE_LED_setValue_obj E pObj v s = do {
     guard_opt (pObj \<noteq> NULL);
     ob \<leftarrow> objs s pObj;
     (r, err, s) \<leftarrow> led_switch E (pGPIO ob s) (xData v) s;
     if err then do {
       s \<leftarrow> upd_obj pObj (\<lambda>ob. ob\<lparr>oFlags := oFlags ob AND NOT FTE_OBJ_STATUS_FLAG_VALID\<rparr>) s;
       Some (r, s)
     } else Some (FTE_RET_OK, upd_dio (\<lambda>d. d\<lparr>stLed := (stLed d)(pStatusP ob :=
          snd (FTE_VALUE_setULONG (clock d) (xData v) (stLed d (pStatusP ob))))\<rparr>) s)
   }"

definition FTE_LED_setValue :: "'x dio_env \<Rightarrow> u32 \<Rightarrow> u32 \<Rightarrow> 'x dsys \<Rightarrow> (fte_ret \<times> 'x dsys) option" where
  "FTE_LED_setValue E oid bState s = do {
     (pObj, s) \<leftarrow> FTE_LED_get E oid s;
     if pObj = NULL then Some (FTE_RET_ERROR, s)
     else FTE_LED_setValue_obj E pObj (snd (FTE_VALUE_initDIO bState)) s
   }"

definition FTE_LED_isActive :: "'x dio_env \<Rightarrow> u32 \<Rightarrow> 'x dsys \<Rightarrow> bool option" where
  "FTE_LED_isActive E oid s = do {
     (pObj, s) \<leftarrow> FTE_LED_get E oid s;
     if pObj = NULL then Some False
     else do { ob \<leftarrow> objs s pObj; Some (xData (stLed (dio s) (pStatusP ob)) \<noteq> FTE_LED_STATE_OFF) }
   }"

definition FTE_LED_init :: "'x dio_env \<Rightarrow> addr \<Rightarrow> 'x dsys \<Rightarrow> (fte_ret \<times> 'x dsys) option" where
  "FTE_LED_init E pObj s = do {
     ob \<leftarrow> objs s pObj;
     (_, s) \<leftarrow> FTE_LED_setValue_obj E pObj (snd (FTE_VALUE_initLED (cfg_nInit (oConfig ob)))) s;
     Some (FTE_RET_OK, s)
   }"

text \<open>The start and stop of a lamp do nothing.\<close>

definition FTE_LED_run :: "addr \<Rightarrow> 'x dsys \<Rightarrow> (fte_ret \<times> 'x dsys) option" where
  "FTE_LED_run pObj s = Some (FTE_RET_OK, s)"

definition FTE_LED_stop :: "addr \<Rightarrow> 'x dsys \<Rightarrow> (fte_ret \<times> 'x dsys) option" where
  "FTE_LED_stop pObj s = Some (FTE_RET_OK, s)"

definition FTE_LED_action :: "'x dio_env \<Rightarrow> 'x dsys obj_action" where
  "FTE_LED_action E = \<lparr>fInit = Some (FTE_LED_init E), fRun = Some FTE_LED_run, fStop = Some FTE_LED_stop,
     fSet = Some (FTE_LED_setValue_obj E), fSetMulti = None, fGetMulti = None, fGetInterval = None, fSetInterval = None,
     fAttachChild = None, fDetachChild = None, fGetChildCount = None, fGetChild = None\<rparr>"

text \<open>A lamp's value is not counted in its status, so it is kept beside the object.\<close>

definition led_attach_error :: "addr \<Rightarrow> 'x dsys \<Rightarrow> (fte_ret \<times> 'x dsys) option" where
  "led_attach_error pValue s = do { s \<leftarrow> FTE_MEM_free pValue s; Some (FTE_RET_ERROR, s) }"

definition FTE_LED_attach :: "'x dio_env \<Rightarrow> addr \<Rightarrow> 'x dsys \<Rightarrow> (fte_ret \<times> 'x dsys) option" where
  "FTE_LED_attach E pObj s = do {
     ob \<leftarrow> objs s pObj;
     let (pValue, s) = FTE_MEM_alloc s;
     case FTE_VALUE_createDIO (pValue \<noteq> NULL) of
       None \<Rightarrow> Some (FTE_RET_ERROR, s)
     | Some v \<Rightarrow> do {
         q \<leftarrow> FTE_GPIO_get (cfg_nGPIO (oConfig ob)) (gpio (dio s));
         let s = upd_dio (\<lambda>d. d\<lparr>stLed := (stLed d)(pStatusP ob := v), stGPIO := (stGPIO d)(pStatusP ob := q)\<rparr>) s;
         if q = NULL then led_attach_error pValue s
         else do {
           (r, s) \<leftarrow> gpio_do (FTE_GPIO_attach q (nID (oConfig ob))) s;
           if r \<noteq> FTE_RET_OK then led_attach_error pValue s
           else do {
             s \<leftarrow> upd_obj pObj (\<lambda>ob. ob\<lparr>oAction := Some (ledAction E)\<rparr>) s;
             (r, s) \<leftarrow> FTE_LED_init E pObj s;
             if r \<noteq> FTE_RET_OK then do {
               (_, s) \<leftarrow> gpio_do (FTE_GPIO_detach q) s;
               led_attach_error pValue s
             } else do { (_, s) \<leftarrow> FTE_LIST_pushBack (ledList E) pObj s; Some (FTE_RET_OK, s) }
           }
         }
       }
   }"

definition FTE_LED_detach :: "'x dio_env \<Rightarrow> addr \<Rightarrow> 'x dsys \<Rightarrow> (fte_ret \<times> 'x dsys) option" where
  "FTE_LED_detach E pObj s = do {
     found \<leftarrow> FTE_LIST_isExist (ledList E) pObj s;
     if \<not> found then Some (FTE_RET_ERROR, s)
     else do {
       (_, s) \<leftarrow> FTE_LIST_remove (ledList E) pObj s;
       ob \<leftarrow> objs s pObj;
       s \<leftarrow> FTE_MEM_free (pStatusP ob) s;
       s \<leftarrow> upd_obj pObj (\<lambda>ob. ob\<lparr>oAction := None, pStatusP := NULL\<rparr>) s;
       Some (FTE_RET_OK, s)
     }
   }"

text \<open>The periodic timer: every blinking lamp is toggled.\<close>

definition FTE_LED_timerDone :: "'x dio_env \<Rightarrow> 'x dsys \<Rightarrow> 'x dsys option" where
  "FTE_LED_timerDone E = dio_walk (ledList E) (\<lambda>pObj s. do {
     ob \<leftarrow> objs s pObj;
     if xData (stLed (dio s) (pStatusP ob)) = FTE_LED_STATE_BLINK then do {
       (_, v) \<leftarrow> FTE_GPIO_getValue (pGPIO ob s) (gpio (dio s));
       v \<leftarrow> v;
       (_, s) \<leftarrow> gpio_do (FTE_GPIO_setValue (pGPIO ob s) (bool32 (v = 0))) s;
       Some s
     } else Some s
   })"

section \<open>Digital outputs\<close>

definition do_lamp :: "'x dio_env \<Rightarrow> object_config \<Rightarrow> u32 \<Rightarrow> 'x dsys \<Rightarrow> 'x dsys option" where
  "do_lamp E c x s = (if cfg_nLED c \<noteq> 0 then do { (_, s) \<leftarrow> FTE_LED_setValue E (cfg_nLED c) x s; Some s } else Some s)"

definition do_set_value :: "'x dio_env \<Rightarrow> addr \<Rightarrow> fte_value \<Rightarrow> 'x dsys \<Rightarrow> (fte_ret \<times> 'x dsys) option" where
  "do_set_value E pObj v s = do {
     ob \<leftarrow> objs s pObj;
     cur \<leftarrow> obj_value ob;
     if FTE_VALUE_isValid cur \<and> xData cur = xData v then Some (FTE_RET_OK, s)
     else do {
       (r, s) \<leftarrow> gpio_do (FTE_GPIO_setValue (pGPIO ob s) (xData v)) s;
       if r \<noteq> FTE_RET_OK then Some (FTE_RET_ERROR, s)
       else do {
         s \<leftarrow> upd_value pObj (snd (FTE_VALUE_setDIO (clock (dio s)) (xData v) cur)) s;
         s \<leftarrow> do_lamp E (oConfig ob) (xData v) s;
         (_, s) \<leftarrow> FTE_OBJ_wasUpdated pObj s;
         Some (FTE_RET_OK, s)
       }
     }
   }"

definition FTE_DO_init :: "'x dio_env \<Rightarrow> addr \<Rightarrow> 'x dsys \<Rightarrow> (fte_ret \<times> 'x dsys) option" where
  "FTE_DO_init E pObj s = do {
     ob \<leftarrow> objs s pObj;
     cur \<leftarrow> obj_value ob;
     let v = snd (FTE_VALUE_setDIO (clock (dio s)) (bool32 (obj_flag ob FTE_DO_CONFIG_INIT_ON)) cur);
     (_, s) \<leftarrow> do_set_value E pObj v s;
     Some (FTE_RET_OK, s)
   }"

definition FTE_DO_getObject :: "'x dio_env \<Rightarrow> u32 \<Rightarrow> 'x dsys \<Rightarrow> (addr \<times> 'x dsys) option" where
  "FTE_DO_getObject E oid = dio_get E (doList E) oid"

definition FTE_DO_count :: "'x dio_env \<Rightarrow> 'x dsys \<Rightarrow> u32 option" where
  "FTE_DO_count E s = FTE_LIST_count (doList E) s"

text \<open>For an unknown object the code returned is \<^verbatim>\<open>FALSE\<close>, which is \<^verbatim>\<open>FTE_RET_OK\<close>.\<close>

definition FTD_DO_getValue :: "'x dio_env \<Rightarrow> u32 \<Rightarrow> 'x dsys \<Rightarrow> (fte_ret \<times> u32 option \<times> 'x dsys) option" where
  "FTD_DO_getValue E oid s = do {
     (pObj, s) \<leftarrow> FTE_DO_getObject E oid s;
     if pObj = NULL then Some (0, None, s)
     else do { ob \<leftarrow> objs s pObj; v \<leftarrow> obj_value ob; Some (FTE_RET_OK, Some (snd (FTE_VALUE_getDIO v)), s) }
   }"

definition FTE_DO_setValue :: "'x dio_env \<Rightarrow> u32 \<Rightarrow> u32 \<Rightarrow> 'x dsys \<Rightarrow> (fte_ret \<times> 'x dsys) option" where
  "FTE_DO_setValue E oid bValue s = do {
     (pObj, s) \<leftarrow> FTE_DO_getObject E oid s;
     if pObj = NULL then Some (FTE_RET_ERROR, s)
     else do {
       ob \<leftarrow> objs s pObj;
       cur \<leftarrow> obj_value ob;
       (_, s) \<leftarrow> do_set_value E pObj (snd (FTE_VALUE_setDIO (clock (dio s)) bValue cur)) s;
       Some (FTE_RET_OK, s)
     }
   }"

text \<open>\<^verbatim>\<open>FTE_CFG_OBJ_save\<close> and \<^verbatim>\<open>FTE_OBJ_save\<close> are the same call for an object.\<close>

definition do_init_flag :: "addr \<Rightarrow> bool \<Rightarrow> 'x dsys \<Rightarrow> (fte_ret \<times> 'x dsys) option" where
  "do_init_flag pObj b s = do {
     (_, s) \<leftarrow> (if b then FTE_OBJ_FLAG_set pObj FTE_DO_CONFIG_INIT_ON s else FTE_OBJ_FLAG_clear pObj FTE_DO_CONFIG_INIT_ON s);
     (_, s) \<leftarrow> FTE_OBJ_save pObj s;
     Some (FTE_RET_OK, s)
   }"

definition FTE_DO_setPermanent :: "'x dio_env \<Rightarrow> u32 \<Rightarrow> 'x dsys \<Rightarrow> (fte_ret \<times> 'x dsys) option" where
  "FTE_DO_setPermanent E oid s = do {
     (pObj, s) \<leftarrow> FTE_DO_getObject E oid s;
     if pObj = NULL then Some (FTE_RET_ERROR, s)
     else do { ob \<leftarrow> objs s pObj; v \<leftarrow> obj_value ob; do_init_flag pObj (xData v \<noteq> 0) s }
   }"

definition FTE_DO_getInitState :: "addr \<Rightarrow> 'x dsys \<Rightarrow> (fte_ret \<times> u32) option" where
  "FTE_DO_getInitState pObj s = do { ob \<leftarrow> objs s pObj; Some (FTE_RET_OK, bool32 (obj_flag ob FTE_DO_CONFIG_INIT_ON)) }"

definition FTE_DO_setInitState :: "addr \<Rightarrow> u32 \<Rightarrow> 'x dsys \<Rightarrow> (fte_ret \<times> 'x dsys) option" where
  "FTE_DO_setInitState pObj nState s = do_init_flag pObj (nState \<noteq> 0) s"

definition FTE_DO_action :: "'x dio_env \<Rightarrow> 'x dsys obj_action" where
  "FTE_DO_action E = \<lparr>fInit = Some (FTE_DO_init E), fRun = None, fStop = None, fSet = Some (do_set_value E),
     fSetMulti = None, fGetMulti = None, fGetInterval = None, fSetInterval = None, fAttachChild = None,
     fDetachChild = None, fGetChildCount = None, fGetChild = None\<rparr>"

text \<open>What the two attachments share: the value, the pin.  The first result is false where the
  label \<^verbatim>\<open>error\<close> is taken, the second the value to be released there.  The status block comes
  cleared from \<^verbatim>\<open>FTE_OBJ_create\<close>, hence the cleared preset value.\<close>

definition dio_attach_pin :: "addr \<Rightarrow> 'x dsys \<Rightarrow> (bool \<times> addr \<times> 'x dsys) option" where
  "dio_attach_pin pObj s = do {
     ob \<leftarrow> objs s pObj;
     let (pValue, s) = FTE_MEM_alloc s;
     case FTE_VALUE_createDIO (pValue \<noteq> NULL) of
       None \<Rightarrow> Some (False, NULL, s)
     | Some v \<Rightarrow> do {
         s \<leftarrow> upd_obj pObj (\<lambda>ob. ob\<lparr>oValues := [v]\<rparr>) s;
         q \<leftarrow> FTE_GPIO_get (cfg_nGPIO (oConfig ob)) (gpio (dio s));
         let s = upd_dio (\<lambda>d. d\<lparr>stGPIO := (stGPIO d)(pStatusP ob := q), stPreset := (stPreset d)(pStatusP ob := value_zero)\<rparr>) s;
         if q = NULL then Some (False, pValue, s)
         else do {
           (r, s) \<leftarrow> gpio_do (FTE_GPIO_attach q (nID (oConfig ob))) s;
           Some (r = FTE_RET_OK, pValue, s)
         }
       }
   }"

definition dio_attach_error :: "addr \<Rightarrow> addr \<Rightarrow> 'x dsys \<Rightarrow> (fte_ret \<times> 'x dsys) option" where
  "dio_attach_error pObj pValue s = do {
     s \<leftarrow> FTE_MEM_free pValue s;
     s \<leftarrow> upd_obj pObj (\<lambda>ob. ob\<lparr>oValues := []\<rparr>) s;
     Some (FTE_RET_ERROR, s)
   }"

definition FTE_DO_attach :: "'x dio_env \<Rightarrow> addr \<Rightarrow> 'x dsys \<Rightarrow> (fte_ret \<times> 'x dsys) option" where
  "FTE_DO_attach E pObj s = do {
     (ok, pValue, s) \<leftarrow> dio_attach_pin pObj s;
     if \<not> ok then dio_attach_error pObj pValue s
     else do {
       s \<leftarrow> upd_obj pObj (\<lambda>ob. ob\<lparr>oAction := Some (doAction E)\<rparr>) s;
       (r, s) \<leftarrow> FTE_DO_init E pObj s;
       if r \<noteq> FTE_RET_OK then do {
         ob \<leftarrow> objs s pObj;
         (_, s) \<leftarrow> gpio_do (FTE_GPIO_detach (pGPIO ob s)) s;
         dio_attach_error pObj pValue s
       } else do { (_, s) \<leftarrow> FTE_LIST_pushBack (doList E) pObj s; Some (FTE_RET_OK, s) }
     }
   }"

definition dio_detach :: "addr \<Rightarrow> addr \<Rightarrow> 'x dsys \<Rightarrow> (fte_ret \<times> 'x dsys) option" where
  "dio_detach lst pObj s = do {
     found \<leftarrow> FTE_LIST_isExist lst pObj s;
     if \<not> found then Some (FTE_RET_ERROR, s)
     else do {
       (_, s) \<leftarrow> FTE_LIST_remove lst pObj s;
       s \<leftarrow> upd_obj pObj (\<lambda>ob. ob\<lparr>oAction := None\<rparr>) s;
       Some (FTE_RET_OK, s)
     }
   }"

definition FTE_DO_detach :: "'x dio_env \<Rightarrow> addr \<Rightarrow> 'x dsys \<Rightarrow> (fte_ret \<times> 'x dsys) option" where
  "FTE_DO_detach E pObj = dio_detach (doList E) pObj"

section \<open>Digital inputs\<close>

text \<open>The level of the pin as the object sees it.\<close>

definition di_read :: "fte_object \<Rightarrow> 'x dsys \<Rightarrow> (fte_ret \<times> u32 option) option" where
  "di_read ob s = do {
     (r, v) \<leftarrow> FTE_GPIO_getValue (pGPIO ob s) (gpio (dio s));
     Some (r, map_option (\<lambda>v. if obj_flag ob FTE_OBJ_CONFIG_FLAG_REVERSE then bool32 (v = 0) else v) v)
   }"

definition FTE_DI_init :: "'x dio_env \<Rightarrow> addr \<Rightarrow> 'x dsys \<Rightarrow> (fte_ret \<times> 'x dsys) option" where
  "FTE_DI_init E pObj s = do {
     ob \<leftarrow> objs s pObj;
     (r, v) \<leftarrow> di_read ob s;
     if r \<noteq> FTE_RET_OK then Some (FTE_RET_ERROR, s)
     else do {
       v \<leftarrow> v;
       cur \<leftarrow> obj_value ob;
       s \<leftarrow> upd_value pObj (snd (FTE_VALUE_setDIO (clock (dio s)) v cur)) s;
       s \<leftarrow> upd_preset pObj (snd (FTE_VALUE_setDIO (clock (dio s)) v (xPresetValue ob s))) s;
       s \<leftarrow> do_lamp E (oConfig ob) v s;
       Some (FTE_RET_OK, s)
     }
   }"

text \<open>The interrupt routine's part for one object.\<close>

definition di_isr_object :: "addr \<Rightarrow> 'x dsys \<Rightarrow> 'x dsys option" where
  "di_isr_object pObj s = do {
     ob \<leftarrow> objs s pObj;
     if obj_flag ob FTE_OBJ_CONFIG_FLAG_ENABLE then do {
       (_, bFlag) \<leftarrow> FTE_GPIO_INT_getFlag (pGPIO ob s) (gpio (dio s));
       if bFlag = Some True then do {
         (_, v) \<leftarrow> di_read ob s;
         v \<leftarrow> v;
         s \<leftarrow> upd_preset pObj (snd (FTE_VALUE_setDIO (clock (dio s)) v (xPresetValue ob s))) s;
         (_, s) \<leftarrow> gpio_do (FTE_GPIO_INT_setEnable (pGPIO ob s) False) s;
         (_, s) \<leftarrow> gpio_do (FTE_GPIO_INT_clrFlag (pGPIO ob s)) s;
         Some s
       } else Some s
     } else Some s
   }"

definition FTE_DI_ISR :: "'x dio_env \<Rightarrow> addr \<Rightarrow> 'x dsys \<Rightarrow> 'x dsys option" where
  "FTE_DI_ISR E pParams s = (if pParams \<noteq> NULL then di_isr_object pParams s
     else dio_walk (diList E) di_isr_object s)"

definition di_diff :: "'x dio_env \<Rightarrow> time_struct \<Rightarrow> time_struct \<Rightarrow> u32" where
  "di_diff E t1 t2 = snd (FTE_TIME_diffMilliseconds (dioEv E) t1 t2)"

definition di_unlock_object :: "'x dio_env \<Rightarrow> addr \<Rightarrow> 'x dsys \<Rightarrow> (fte_ret \<times> 'x dsys) option" where
  "di_unlock_object E pObj s = do {
     ob \<leftarrow> objs s pObj;
     let nDiffTime = di_diff E (clock (dio s)) (xTimeStamp (xPresetValue ob s));
     if sint nDiffTime < 200 then Some (0, s)
     else do {
       let polarity = (if (xData (xPresetValue ob s) = 1) = obj_flag ob FTE_OBJ_CONFIG_FLAG_REVERSE
          then FTE_LWGPIO_INT_HIGH else FTE_LWGPIO_INT_LOW);
       (_, s) \<leftarrow> gpio_do (FTE_GPIO_INT_setPolarity (pGPIO ob s) polarity) s;
       gpio_do (FTE_GPIO_INT_setEnable (pGPIO ob s) True) s
     }
   }"

definition FTE_DI_INT_unlock :: "'x dio_env \<Rightarrow> addr \<Rightarrow> 'x dsys \<Rightarrow> (fte_ret \<times> 'x dsys) option" where
  "FTE_DI_INT_unlock E pObj s =
     (if pObj \<noteq> NULL then di_unlock_object E pObj s
      else do {
        s \<leftarrow> dio_walk (diList E) (\<lambda>p s. map_option snd (di_unlock_object E p s)) s;
        Some (FTE_RET_OK, s)
      })"

definition di_lock_object :: "addr \<Rightarrow> 'x dsys \<Rightarrow> (fte_ret \<times> 'x dsys) option" where
  "di_lock_object pObj s = do { ob \<leftarrow> objs s pObj; gpio_do (FTE_GPIO_INT_setEnable (pGPIO ob s) False) s }"

definition FTE_DI_INT_lock :: "'x dio_env \<Rightarrow> addr \<Rightarrow> 'x dsys \<Rightarrow> (fte_ret \<times> 'x dsys) option" where
  "FTE_DI_INT_lock E pObj s =
     (if pObj \<noteq> NULL then di_lock_object pObj s
      else do { s \<leftarrow> dio_walk (diList E) (\<lambda>p s. map_option snd (di_lock_object p s)) s; Some (FTE_RET_OK, s) })"

text \<open>Whether the preset value may be taken over; the comparisons with the configured times are
  unsigned.\<close>

definition di_due :: "'x dio_env \<Rightarrow> object_config \<Rightarrow> time_struct \<Rightarrow> fte_value \<Rightarrow> fte_value \<Rightarrow> bool" where
  "di_due E c now preset cur \<longleftrightarrow>
     (let nDelayTime = di_diff E (xTimeStamp preset) now; nHoldTime = di_diff E (xTimeStamp cur) now in
      (nHoldTime = 0 \<or> cfg_ulHold c \<le> nHoldTime) \<and> (cfg_ulDelay c = 0 \<or> cfg_ulDelay c \<le> nDelayTime))"

definition di_update_object :: "'x dio_env \<Rightarrow> addr \<Rightarrow> 'x dsys \<Rightarrow> 'x dsys option" where
  "di_update_object E pObj s = do {
     ob \<leftarrow> objs s pObj;
     cur \<leftarrow> obj_value ob;
     let preset = xPresetValue ob s;
     if xData cur \<noteq> xData preset then
       (if di_due E (oConfig ob) (clock (dio s)) preset cur then do {
          s \<leftarrow> upd_value pObj (snd (FTE_VALUE_copy cur preset)) s;
          s \<leftarrow> do_lamp E (oConfig ob) (xData preset) s;
          (_, s) \<leftarrow> FTE_OBJ_wasChanged pObj s;
          Some s
        } else Some s)
     else if bChanged preset then upd_value pObj (cur\<lparr>xTimeStamp := xTimeStamp preset\<rparr>) s
     else Some s
   }"

definition FTE_DI_update :: "'x dio_env \<Rightarrow> 'x dsys \<Rightarrow> (fte_ret \<times> 'x dsys) option" where
  "FTE_DI_update E s = do { s \<leftarrow> dio_walk (diList E) (di_update_object E) s; Some (FTE_RET_OK, s) }"

definition FTE_DI_run :: "'x dio_env \<Rightarrow> addr \<Rightarrow> 'x dsys \<Rightarrow> (fte_ret \<times> 'x dsys) option" where
  "FTE_DI_run E pObj s = do {
     ob \<leftarrow> objs s pObj;
     (_, s) \<leftarrow> gpio_do (FTE_GPIO_setISR (pGPIO ob s) (Some pObj)) s;
     (_, s) \<leftarrow> gpio_do (FTE_GPIO_INT_init (pGPIO ob s) True) s;
     (_, s) \<leftarrow> FTE_DI_INT_unlock E pObj s;
     Some (FTE_RET_OK, s)
   }"

definition FTE_DI_stop :: "addr \<Rightarrow> 'x dsys \<Rightarrow> (fte_ret \<times> 'x dsys) option" where
  "FTE_DI_stop pObj s = do {
     ob \<leftarrow> objs s pObj;
     (_, s) \<leftarrow> gpio_do (FTE_GPIO_INT_init (pGPIO ob s) False) s;
     (_, s) \<leftarrow> gpio_do (FTE_GPIO_setISR (pGPIO ob s) None) s;
     Some (FTE_RET_OK, s)
   }"

definition FTE_DI_setPolarity :: "addr \<Rightarrow> bool \<Rightarrow> 'x dsys \<Rightarrow> (fte_ret \<times> 'x dsys) option" where
  "FTE_DI_setPolarity pObj bActiveHI s = do {
     (_, s) \<leftarrow> (if bActiveHI then FTE_OBJ_FLAG_set pObj FTE_DI_CONFIG_FLAG_POLARITY_HI s
        else FTE_OBJ_FLAG_clear pObj FTE_DI_CONFIG_FLAG_POLARITY_HI s);
     Some (FTE_RET_OK, s)
   }"

definition FTE_DI_action :: "'x dio_env \<Rightarrow> 'x dsys obj_action" where
  "FTE_DI_action E = \<lparr>fInit = Some (FTE_DI_init E), fRun = Some (FTE_DI_run E), fStop = Some FTE_DI_stop, fSet = None,
     fSetMulti = None, fGetMulti = None, fGetInterval = None, fSetInterval = None, fAttachChild = None,
     fDetachChild = None, fGetChildCount = None, fGetChild = None\<rparr>"

definition FTE_DI_attach :: "'x dio_env \<Rightarrow> addr \<Rightarrow> 'x dsys \<Rightarrow> (fte_ret \<times> 'x dsys) option" where
  "FTE_DI_attach E pObj s = do {
     s \<leftarrow> upd_obj pObj (\<lambda>ob. ob\<lparr>oAction := Some (diAction E)\<rparr>) s;
     (ok, pValue, s) \<leftarrow> dio_attach_pin pObj s;
     if \<not> ok then dio_attach_error pObj pValue s
     else do {
       (r, s) \<leftarrow> FTE_DI_init E pObj s;
       if r \<noteq> FTE_RET_OK then do {
         ob \<leftarrow> objs s pObj;
         (_, s) \<leftarrow> gpio_do (FTE_GPIO_detach (pGPIO ob s)) s;
         dio_attach_error pObj pValue s
       } else do { (_, s) \<leftarrow> FTE_LIST_pushBack (diList E) pObj s; Some (FTE_RET_OK, s) }
     }
   }"

definition FTE_DI_detach :: "'x dio_env \<Rightarrow> addr \<Rightarrow> 'x dsys \<Rightarrow> (fte_ret \<times> 'x dsys) option" where
  "FTE_DI_detach E pObj = dio_detach (diList E) pObj"

definition di_get_object :: "'x dio_env \<Rightarrow> u32 \<Rightarrow> 'x dsys \<Rightarrow> (addr \<times> 'x dsys) option" where
  "di_get_object E oid = dio_get E (diList E) oid"

definition FTE_DI_count :: "'x dio_env \<Rightarrow> 'x dsys \<Rightarrow> u32 option" where
  "FTE_DI_count E s = FTE_LIST_count (diList E) s"

definition FTE_DI_getValue :: "'x dio_env \<Rightarrow> u32 \<Rightarrow> 'x dsys \<Rightarrow> (fte_ret \<times> u32 option \<times> 'x dsys) option" where
  "FTE_DI_getValue E oid s = do {
     (pObj, s) \<leftarrow> di_get_object E oid s;
     if pObj = NULL then Some (FTE_RET_ERROR, None, s)
     else do { ob \<leftarrow> objs s pObj; v \<leftarrow> obj_value ob; Some (FTE_RET_OK, Some (xData v), s) }
   }"

definition FTE_DI_isActive :: "'x dio_env \<Rightarrow> u32 \<Rightarrow> 'x dsys \<Rightarrow> (u32 \<times> 'x dsys) option" where
  "FTE_DI_isActive E oid s = do {
     (pObj, s) \<leftarrow> di_get_object E oid s;
     if pObj = NULL then Some (0, s)
     else do { ob \<leftarrow> objs s pObj; v \<leftarrow> obj_value ob; Some (xData v, s) }
   }"

section \<open>The tasks\<close>

text \<open>A turn of \<^verbatim>\<open>FTE_TASK_timer\<close>, for the products without a factory reset button, and of
  \<^verbatim>\<open>FTE_TASK_objectManagement\<close> up to the check for objects that hang.\<close>

definition timer_turn :: "'x dio_env \<Rightarrow> 'x dsys \<Rightarrow> 'x dsys option" where
  "timer_turn E s = map_option snd (FTE_DI_INT_unlock E NULL s)"

definition mgmt_object :: "'x dio_env \<Rightarrow> addr \<Rightarrow> 'x dsys \<Rightarrow> 'x dsys option" where
  "mgmt_object E pObj s = do {
     b \<leftarrow> FTE_OBJ_STATE_isSet pObj FTE_OBJ_STATUS_FLAG_CHANGED s;
     if b then do {
       s \<leftarrow> dio_walk (xEventList pObj) (\<lambda>pEvent s.
         map_option snd (FTE_EVENT_check (dioEv E) (clock (dio s)) pEvent pObj s)) s;
       FTE_OBJ_STATE_clear pObj FTE_OBJ_STATUS_FLAG_CHANGED s
     } else Some s
   }"

text \<open>The loop over the positions \<open>i\<close> up to \<open>i + n\<close>.\<close>

primrec mgmt_loop :: "'x dio_env \<Rightarrow> nat \<Rightarrow> u32 \<Rightarrow> 'x dsys \<Rightarrow> 'x dsys option" where
  "mgmt_loop E 0 i s = Some s"
| "mgmt_loop E (Suc n) i s = do {
     (pObj, s) \<leftarrow> FTE_OBJ_getAt (evObjs (dioEv E)) 0 0 i False s;
     s \<leftarrow> mgmt_object E pObj s;
     mgmt_loop E n (i + 1) s
   }"

definition mgmt_turn :: "'x dio_env \<Rightarrow> 'x dsys \<Rightarrow> 'x dsys option" where
  "mgmt_turn E s = do {
     (ulObjCount, s) \<leftarrow> FTE_OBJ_count (evObjs (dioEv E)) 0 0 False s;
     (_, s) \<leftarrow> FTE_DI_update E s;
     mgmt_loop E (unat ulObjCount) 0 s
   }"

text \<open>The interrupt of a port, when one of its pins has its flag set.\<close>

definition port_pending :: "nat \<Rightarrow> 'x dsys \<Rightarrow> bool" where
  "port_pending pt s \<longleftrightarrow> irqOn (gpio (dio s)) pt \<and> (\<exists>n<32. bit (PCR (regs (gpio (dio s)) pt) n) 24)"

definition port_interrupt :: "'x dio_env \<Rightarrow> nat \<Rightarrow> 'x dsys \<Rightarrow> 'x dsys option" where
  "port_interrupt E pt s = (case isrTab (gpio (dio s)) pt of None \<Rightarrow> None | Some pParams \<Rightarrow> FTE_DI_ISR E pParams s)"

end
