(* ===== verification/FTE_DioProps.thy ===== *)
theory FTE_DioProps
  imports FTE_Dio
begin

unbundle bit_operations_syntax

text \<open>
  What the digital inputs and outputs do.  An object on its pin is seen through a view:
  the object, its preset value, its pin driver and the state of its pin.  On a board whose
  objects share neither status block, driver nor pin, every operation changes the view of
  its own object the way a small machine does, and leaves the others alone; the walks over
  the lists come to steps of all the machines.  The inputs' machines are then a step
  relation with an invariant, and the outputs a table of values.
\<close>

section \<open>Views\<close>

record io_view =
  vObj :: fte_object
  vPreset :: fte_value
  vLw :: addr
  vLwgpio :: fte_lwgpio
  vPCR :: u32
  vLevel :: bool
  vLatch :: bool
  vOut :: bool

definition view :: "'x dsys \<Rightarrow> addr \<Rightarrow> io_view option" where
  "view s p = do {
     ob \<leftarrow> objs s p;
     x \<leftarrow> gpios (gpio (dio s)) (pGPIO ob s);
     guard_opt (is_lwgpio x);
     l \<leftarrow> lwgpios (gpio (dio s)) (pPort x);
     let R = regs (gpio (dio s));
     let h = xLWGPIO l;
     Some \<lparr>vObj = ob, vPreset = xPresetValue ob s, vLw = pPort x, vLwgpio = l, vPCR = pcr_read h R,
       vLevel = pin_level h R, vLatch = pin_latch h R, vOut = pin_out h R\<rparr>
   }"

abbreviation vHandle :: "io_view \<Rightarrow> lwgpio_struct" where "vHandle v \<equiv> xLWGPIO (vLwgpio v)"
abbreviation vPin :: "io_view \<Rightarrow> nat \<times> nat" where "vPin v \<equiv> (hPort (vHandle v), hPin (vHandle v))"
abbreviation vConfig :: "io_view \<Rightarrow> object_config" where "vConfig v \<equiv> oConfig (vObj v)"

definition opposite :: "lwgpio_value \<Rightarrow> lwgpio_value \<Rightarrow> bool" where
  "opposite a b \<longleftrightarrow> a = LWGPIO_VALUE_HIGH \<and> b = LWGPIO_VALUE_LOW \<or> a = LWGPIO_VALUE_LOW \<and> b = LWGPIO_VALUE_HIGH"

definition io_ok :: "io_view \<Rightarrow> bool" where
  "io_ok v \<longleftrightarrow> handle_ok (vHandle v) \<and> opposite (nActive (lwConfig (vLwgpio v))) (nInactive (lwConfig (vLwgpio v)))
     \<and> oValues (vObj v) \<noteq> []"

definition apart :: "io_view \<Rightarrow> io_view \<Rightarrow> bool" where
  "apart v w \<longleftrightarrow> pStatusP (vObj v) \<noteq> pStatusP (vObj w) \<and> vLw v \<noteq> vLw w \<and> vPin v \<noteq> vPin w"

text \<open>What no operation changes about an object.\<close>

definition same_id :: "io_view \<Rightarrow> io_view \<Rightarrow> bool" where
  "same_id v w \<longleftrightarrow> pStatusP (vObj w) = pStatusP (vObj v) \<and> vLw w = vLw v \<and> vPin w = vPin v
     \<and> pinmask (vHandle w) = pinmask (vHandle v) \<and> lwgpio_int_get_vector (vHandle w) = lwgpio_int_get_vector (vHandle v)
     \<and> lwConfig (vLwgpio w) = lwConfig (vLwgpio v) \<and> length (oValues (vObj w)) = length (oValues (vObj v))
     \<and> nID (vConfig w) = nID (vConfig v) \<and> obj_rest (vConfig w) = obj_rest (vConfig v)
     \<and> oAction (vObj w) = oAction (vObj v)"

lemma same_id_refl [simp]: "same_id v v" by (simp add: same_id_def)
lemma same_id_trans: "same_id u v \<Longrightarrow> same_id v w \<Longrightarrow> same_id u w" by (simp add: same_id_def)
lemma same_id_ok: "same_id v w \<Longrightarrow> io_ok v \<Longrightarrow> io_ok w"
  by (auto simp: same_id_def io_ok_def handle_ok_def simp flip: length_greater_0_conv)
lemma same_id_apart: "same_id v v' \<Longrightarrow> same_id w w' \<Longrightarrow> apart v w \<Longrightarrow> apart v' w'"
  by (simp add: same_id_def apart_def)

definition board :: "addr set \<Rightarrow> 'x dsys \<Rightarrow> bool" where
  "board B s \<longleftrightarrow> (\<forall>p\<in>B. \<exists>v. view s p = Some v \<and> io_ok v)
     \<and> (\<forall>p\<in>B. \<forall>q\<in>B. p \<noteq> q \<longrightarrow> apart (the (view s p)) (the (view s q)))"

lemma board_view: "board B s \<Longrightarrow> p \<in> B \<Longrightarrow> \<exists>v. view s p = Some v \<and> io_ok v"
  by (simp add: board_def)

lemma board_apart: "board B s \<Longrightarrow> p \<in> B \<Longrightarrow> q \<in> B \<Longrightarrow> p \<noteq> q \<Longrightarrow> view s p = Some v \<Longrightarrow> view s q = Some w \<Longrightarrow> apart v w"
  unfolding board_def by fastforce

lemma view_obj: "view s p = Some v \<Longrightarrow> objs s p = Some (vObj v)"
  by (auto simp: view_def opt_simps Let_def)

text \<open>A step that may change the objects of \<open>A\<close> only, and of the rest neither lists nor clock.\<close>

definition kern :: "'x dsys \<Rightarrow> (addr \<rightharpoonup> fte_node) \<times> (addr \<rightharpoonup> fte_list)" where "kern s = (nodes s, lists s)"

definition keeps :: "addr set \<Rightarrow> addr set \<Rightarrow> 'x dsys \<Rightarrow> 'x dsys \<Rightarrow> bool" where
  "keeps B A s s' \<longleftrightarrow> kern s' = kern s \<and> clock (dio s') = clock (dio s)
     \<and> irqOn (gpio (dio s')) = irqOn (gpio (dio s)) \<and> isrTab (gpio (dio s')) = isrTab (gpio (dio s))
     \<and> (\<forall>q\<in>B. if q \<in> A then \<forall>v. view s q = Some v \<longrightarrow> (\<exists>v'. view s' q = Some v' \<and> same_id v v') else view s' q = view s q)"

lemma keeps_refl: "keeps B A s s"
  by (auto simp: keeps_def)

lemma keeps_trans:
  assumes "keeps B A s s1" "keeps B A s1 s2"
  shows "keeps B A s s2"
  using assms unfolding keeps_def by (auto split: if_splits) (meson same_id_trans)

lemma keeps_mono: "keeps B A s s' \<Longrightarrow> A \<subseteq> A' \<Longrightarrow> keeps B A' s s'"
  unfolding keeps_def by (auto split: if_splits)

lemma keeps_same_id:
  assumes "keeps B A s s'" "q \<in> B" "view s q = Some v"
  shows "\<exists>v'. view s' q = Some v' \<and> same_id v v'"
  using assms unfolding keeps_def by (cases "q \<in> A") auto

lemma keeps_other: "keeps B A s s' \<Longrightarrow> q \<in> B \<Longrightarrow> q \<notin> A \<Longrightarrow> view s' q = view s q"
  unfolding keeps_def by auto

lemma keeps_board:
  assumes k: "keeps B A s s'" and b: "board B s"
  shows "board B s'"
  unfolding board_def
proof (intro conjI ballI impI)
  fix p assume p: "p \<in> B"
  then obtain v v' where "view s p = Some v" "io_ok v" "view s' p = Some v'" "same_id v v'"
    using board_view [OF b p] keeps_same_id [OF k p] by blast
  then show "\<exists>v. view s' p = Some v \<and> io_ok v" using same_id_ok by blast
  fix q assume q: "q \<in> B" "p \<noteq> q"
  obtain w w' where "view s q = Some w" "view s' q = Some w'" "same_id w w'"
    using board_view [OF b q(1)] keeps_same_id [OF k q(1)] by blast
  then show "apart (the (view s' p)) (the (view s' q))"
    using same_id_apart [of v v' w w'] board_apart [OF b p q] \<open>view s p = Some v\<close> \<open>view s' p = Some v'\<close> \<open>same_id v v'\<close>
    by simp
qed

section \<open>The elementary changes\<close>

lemma upd_dio_simps [simp]:
  "objs (upd_dio f s) = objs s" "nodes (upd_dio f s) = nodes s" "lists (upd_dio f s) = lists s"
  "cfg (upd_dio f s) = cfg s" "dio (upd_dio f s) = f (dio s)" "sems (upd_dio f s) = sems s"
  "pool (upd_dio f s) = pool s" "live (upd_dio f s) = live s" "unstable (upd_dio f s) = unstable s"
  "events (dev (upd_dio f s)) = events (dev s)"
  by (simp_all add: upd_dio_def)

lemma kern_upd [simp]: "kern (upd_dio f s) = kern s" "kern (s\<lparr>objs := M\<rparr>) = kern s" "kern (s\<lparr>cfg := c\<rparr>) = kern s"
  by (simp_all add: kern_def)

lemma view_some:
  "view s p = Some v \<longleftrightarrow> (objs s p = Some (vObj v)
     \<and> (\<exists>x. gpios (gpio (dio s)) (stGPIO (dio s) (pStatusP (vObj v))) = Some x \<and> is_lwgpio x \<and> pPort x = vLw v)
     \<and> lwgpios (gpio (dio s)) (vLw v) = Some (vLwgpio v)
     \<and> vPreset v = stPreset (dio s) (pStatusP (vObj v)) \<and> vPCR v = pcr_read (vHandle v) (regs (gpio (dio s)))
     \<and> vLevel v = pin_level (vHandle v) (regs (gpio (dio s))) \<and> vLatch v = pin_latch (vHandle v) (regs (gpio (dio s)))
     \<and> vOut v = pin_out (vHandle v) (regs (gpio (dio s))))"
  by (cases v) (auto simp: view_def opt_simps Let_def pGPIO_def xPresetValue_def)

text \<open>A view only depends on its own parts of the state.\<close>

definition pin_same :: "lwgpio_struct \<Rightarrow> gpio_regs \<Rightarrow> gpio_regs \<Rightarrow> bool" where
  "pin_same h R R' \<longleftrightarrow> pcr_read h R' = pcr_read h R \<and> pin_level h R' = pin_level h R
     \<and> pin_latch h R' = pin_latch h R \<and> pin_out h R' = pin_out h R"

lemma view_cong:
  assumes "view s q = Some w" "objs s' q = objs s q"
    "stGPIO (dio s') (pStatusP (vObj w)) = stGPIO (dio s) (pStatusP (vObj w))"
    "stPreset (dio s') (pStatusP (vObj w)) = stPreset (dio s) (pStatusP (vObj w))"
    "gpios (gpio (dio s')) = gpios (gpio (dio s))" "lwgpios (gpio (dio s')) (vLw w) = lwgpios (gpio (dio s)) (vLw w)"
    "pin_same (vHandle w) (regs (gpio (dio s))) (regs (gpio (dio s')))"
  shows "view s' q = view s q"
proof -
  have "view s' q = Some w"
    using assms by (simp add: view_some [of s q w] view_some [of s' q w] pin_same_def)
  then show ?thesis using assms(1) by simp
qed

lemma pin_same_refl [simp]: "pin_same h R R" by (simp add: pin_same_def)

lemma keepsI:
  assumes "board B s" "p \<in> B" "view s p = Some v" "kern s' = kern s" "clock (dio s') = clock (dio s)"
    "irqOn (gpio (dio s')) = irqOn (gpio (dio s))" "isrTab (gpio (dio s')) = isrTab (gpio (dio s))"
    "view s' p = Some v'" "same_id v v'"
    "\<And>q w. q \<in> B \<Longrightarrow> q \<noteq> p \<Longrightarrow> view s q = Some w \<Longrightarrow> apart v w \<Longrightarrow> view s' q = view s q"
  shows "keeps B {p} s s'"
  unfolding keeps_def
proof (intro conjI ballI)
  fix q assume q: "q \<in> B"
  show "if q \<in> {p} then \<forall>v. view s q = Some v \<longrightarrow> (\<exists>v'. view s' q = Some v' \<and> same_id v v') else view s' q = view s q"
  proof (cases "q = p")
    case False
    then show ?thesis using assms(10) [of q] board_view [OF assms(1) q] board_apart [OF assms(1,2) q _ assms(3)] q by auto
  qed (use assms(3,8,9) in auto)
qed (use assms in auto)

lemma upd_obj_step:
  assumes "board B s" "p \<in> B" "view s p = Some v" "same_id v (v\<lparr>vObj := f (vObj v)\<rparr>)"
  obtains s' where "upd_obj p f s = Some s'" "s' = s\<lparr>objs := (objs s)(p \<mapsto> f (vObj v))\<rparr>"
    "view s' p = Some (v\<lparr>vObj := f (vObj v)\<rparr>)" "keeps B {p} s s'"
proof -
  define s' where "s' = s\<lparr>objs := (objs s)(p \<mapsto> f (vObj v))\<rparr>"
  have 1: "upd_obj p f s = Some s'" using view_obj [OF assms(3)] by (simp add: upd_obj_def s'_def)
  have st: "pStatusP (f (vObj v)) = pStatusP (vObj v)" using assms(4) by (simp add: same_id_def)
  have 2: "view s' p = Some (v\<lparr>vObj := f (vObj v)\<rparr>)"
    using assms(3) by (simp add: view_some s'_def st)
  have "keeps B {p} s s'"
    by (rule keepsI [OF assms(1-3) _ _ _ _ 2 assms(4)]) (simp_all add: s'_def view_cong)
  with 1 2 show thesis by (rule that [OF _ s'_def])
qed

lemma upd_preset_step:
  assumes "board B s" "p \<in> B" "view s p = Some v"
  obtains s' where "upd_preset p x s = Some s'" "view s' p = Some (v\<lparr>vPreset := x\<rparr>)" "keeps B {p} s s'"
    "objs s' = objs s"
proof -
  define s' where "s' = upd_dio (stPreset_update (\<lambda>m. m(pStatusP (vObj v) := x))) s"
  have 1: "upd_preset p x s = Some s'" using view_obj [OF assms(3)] by (simp add: upd_preset_def s'_def)
  have 2: "view s' p = Some (v\<lparr>vPreset := x\<rparr>)"
    using assms(3) by (simp add: view_some s'_def)
  have "keeps B {p} s s'"
  proof (rule keepsI [OF assms(1-3) _ _ _ _ 2])
    fix q w assume q: "q \<in> B" "q \<noteq> p" "view s q = Some w" "apart v w"
    show "view s' q = view s q"
      by (intro view_cong [OF q(3)]) (use q(4) in \<open>auto simp: s'_def apart_def\<close>)
  qed (simp_all add: s'_def same_id_def)
  with 1 2 show thesis by (rule that) (simp add: s'_def)
qed

text \<open>A call of the pin layer that keeps to the object's own pin.\<close>

lemma gpio_do_step:
  assumes b: "board B s" "p \<in> B" "view s p = Some v"
    and f: "f (gpio (dio s)) = Some (r, g')" "gpios g' = gpios (gpio (dio s))" "irqOn g' = irqOn (gpio (dio s))"
    "isrTab g' = isrTab (gpio (dio s))" "lwgpios g' = (lwgpios (gpio (dio s)))(vLw v \<mapsto> l')"
    and pins: "\<And>h. (hPort h, hPin h) \<noteq> vPin v \<Longrightarrow> pin_same h (regs (gpio (dio s))) (regs g')"
    and v': "v' = v\<lparr>vLwgpio := l', vPCR := pcr_read (xLWGPIO l') (regs g'), vLevel := pin_level (xLWGPIO l') (regs g'),
      vLatch := pin_latch (xLWGPIO l') (regs g'), vOut := pin_out (xLWGPIO l') (regs g')\<rparr>" "same_id v v'"
  obtains s' where "gpio_do f s = Some (r, s')" "view s' p = Some v'" "keeps B {p} s s'" "objs s' = objs s"
proof -
  define s' where "s' = upd_dio (gpio_update (\<lambda>_. g')) s"
  have 1: "gpio_do f s = Some (r, s')" using f(1) by (simp add: gpio_do_def s'_def)
  have 2: "view s' p = Some v'"
    using b(3) f by (simp add: view_some s'_def v'(1))
  have "keeps B {p} s s'"
  proof (rule keepsI [OF b _ _ _ _ 2 v'(2)])
    fix q w assume q: "q \<in> B" "q \<noteq> p" "view s q = Some w" "apart v w"
    then have "pin_same (vHandle w) (regs (gpio (dio s))) (regs g')" "vLw w \<noteq> vLw v"
      using pins [of "vHandle w"] by (auto simp: apart_def)
    then show "view s' q = view s q"
      by (intro view_cong [OF q(3)]) (simp_all add: s'_def f)
  qed (simp_all add: s'_def f)
  with 1 2 show thesis by (rule that) (simp add: s'_def)
qed

text \<open>The calls on the pin.\<close>

lemma pcr_write_same:
  "(hPort k, hPin k) \<noteq> (hPort h, hPin h) \<Longrightarrow> pin_same k R (pcr_write h w R)"
  "pin_level k (pcr_write h w R) = pin_level k R" "pin_latch k (pcr_write h w R) = pin_latch k R"
  "pin_out k (pcr_write h w R) = pin_out k R"
  by (auto simp: pin_same_def pcr_write_def pcr_read_def pin_level_def pin_latch_def pin_out_def)

lemma bit_one_pin:
  "bit (w AND NOT (push_bit n 1)) m \<longleftrightarrow> bit w m \<and> m \<noteq> n"
  "n < 32 \<Longrightarrow> bit (w OR push_bit n 1) m \<longleftrightarrow> bit w m \<or> m = n" for w :: u32
proof -
  have 1: "bit (2 ^ n :: u32) m \<longleftrightarrow> n = m \<and> m < 32" for m by (auto simp: bit_exp_iff)
  show "bit (w AND NOT (push_bit n 1)) m \<longleftrightarrow> bit w m \<and> m \<noteq> n"
    using bit_imp_le_length [of w m] by (auto simp: bit_and_iff bit_not_iff 1 push_bit_of_1)
  show "n < 32 \<Longrightarrow> bit (w OR push_bit n 1) m \<longleftrightarrow> bit w m \<or> m = n"
    by (auto simp: bit_or_iff 1 push_bit_of_1)
qed

lemma set_value_pdor:
  assumes "handle_ok h"
  shows "lwgpio_set_value h x R = R(hPort h := (R (hPort h))\<lparr>PDOR := PDOR (lwgpio_set_value h x R (hPort h))\<rparr>)"
    "bit (PDOR (lwgpio_set_value h x R (hPort h))) m = (if m = hPin h \<and> x \<noteq> LWGPIO_VALUE_NOCHANGE
       then x = LWGPIO_VALUE_HIGH else bit (PDOR (R (hPort h))) m)"
proof -
  show "lwgpio_set_value h x R = R(hPort h := (R (hPort h))\<lparr>PDOR := PDOR (lwgpio_set_value h x R (hPort h))\<rparr>)"
    by (cases "R (hPort h)"; cases x) (auto simp: lwgpio_set_value_def fun_eq_iff)
  show "bit (PDOR (lwgpio_set_value h x R (hPort h))) m = (if m = hPin h \<and> x \<noteq> LWGPIO_VALUE_NOCHANGE
       then x = LWGPIO_VALUE_HIGH else bit (PDOR (R (hPort h))) m)"
    using assms by (cases x) (simp_all add: lwgpio_set_value_def handle_ok_def bit_one_pin [unfolded push_bit_of_1])
qed

lemma set_value_same:
  assumes "handle_ok h"
  shows "(hPort k, hPin k) \<noteq> (hPort h, hPin h) \<Longrightarrow> pin_same k R (lwgpio_set_value h x R)"
    "pcr_read k (lwgpio_set_value h x R) = pcr_read k R" "pin_level k (lwgpio_set_value h x R) = pin_level k R"
    "pin_out k (lwgpio_set_value h x R) = pin_out k R"
proof -
  show 1: "pcr_read k (lwgpio_set_value h x R) = pcr_read k R" "pin_level k (lwgpio_set_value h x R) = pin_level k R"
    "pin_out k (lwgpio_set_value h x R) = pin_out k R"
    by (subst set_value_pdor(1) [OF assms], simp add: pcr_read_def pin_level_def pin_out_def)+
  assume ne: "(hPort k, hPin k) \<noteq> (hPort h, hPin h)"
  have "pin_latch k (lwgpio_set_value h x R) = pin_latch k R"
  proof (cases "hPort k = hPort h")
    case True
    then show ?thesis using ne set_value_pdor(2) [OF assms, of x R "hPin k"] by (simp add: pin_latch_def)
  next
    case False
    then show ?thesis by (subst set_value_pdor(1) [OF assms]) (simp add: pin_latch_def)
  qed
  with 1 show "pin_same k R (lwgpio_set_value h x R)" by (simp add: pin_same_def)
qed

definition pcr_enable :: "u32 \<Rightarrow> bool \<Rightarrow> u32 \<Rightarrow> u32" where
  "pcr_enable f b c = (let c = pcr_store c (c AND NOT PORT_PCR_IRQC_MASK) in
     if b then pcr_store c (c OR (f AND PORT_PCR_IRQC_MASK)) else c)"

definition pcr_clear :: "u32 \<Rightarrow> u32" where "pcr_clear c = pcr_store c (c OR PORT_PCR_ISF_MASK)"

lemma pcr_enable_facts:
  "pcr_irqc (pcr_enable f b c) = (if b then pcr_irqc f else 0)" "\<not> bit (pcr_enable f b c) 24"
  "pcr_irqc (pcr_clear c) = pcr_irqc c" "\<not> bit (pcr_clear c) 24"
  by (simp_all add: pcr_enable_def pcr_clear_def Let_def irqc_simps flag_simps)

lemma read_enable: "pcr_read h (lwgpio_int_enable h b R) = pcr_enable (hFlags h) b (pcr_read h R)"
  by (simp add: lwgpio_int_enable_def pcr_enable_def Let_def pcr_write_pin)

lemma enable_same:
  "(hPort k, hPin k) \<noteq> (hPort h, hPin h) \<Longrightarrow> pin_same k R (lwgpio_int_enable h b R)"
  "pin_level k (lwgpio_int_enable h b R) = pin_level k R" "pin_latch k (lwgpio_int_enable h b R) = pin_latch k R"
  "pin_out k (lwgpio_int_enable h b R) = pin_out k R"
  using pcr_write_same(1) by (auto simp: lwgpio_int_enable_def Let_def pcr_write_same(2-) pin_same_def)

lemma view_gpio:
  assumes "view s p = Some v"
  obtains x where "gpios (gpio (dio s)) (pGPIO (vObj v) s) = Some x" "is_lwgpio x" "pPort x = vLw v"
    "lwgpios (gpio (dio s)) (vLw v) = Some (vLwgpio v)"
  using assms by (auto simp: view_some pGPIO_def)

text \<open>A call that writes to the registers of the pin only.\<close>

lemma gpio_regs_step:
  assumes b: "board B s" "p \<in> B" "view s p = Some v"
    and f: "f (gpio (dio s)) = Some (r, (gpio (dio s))\<lparr>regs := R'\<rparr>)"
    and pins: "\<And>h. (hPort h, hPin h) \<noteq> vPin v \<Longrightarrow> pin_same h (regs (gpio (dio s))) R'"
    and own: "pcr_read (vHandle v) R' = c" "pin_level (vHandle v) R' = vLevel v" "pin_latch (vHandle v) R' = la"
      "pin_out (vHandle v) R' = vOut v"
  obtains s' where "gpio_do f s = Some (r, s')" "view s' p = Some (v\<lparr>vPCR := c, vLatch := la\<rparr>)"
    "keeps B {p} s s'" "objs s' = objs s"
proof -
  obtain x where x: "lwgpios (gpio (dio s)) (vLw v) = Some (vLwgpio v)" by (rule view_gpio [OF b(3)])
  have up: "lwgpios ((gpio (dio s))\<lparr>regs := R'\<rparr>) = (lwgpios (gpio (dio s)))(vLw v \<mapsto> vLwgpio v)" using x by auto
  have eq: "v\<lparr>vPCR := c, vLatch := la\<rparr> = v\<lparr>vLwgpio := vLwgpio v,
      vPCR := pcr_read (vHandle v) (regs ((gpio (dio s))\<lparr>regs := R'\<rparr>)),
      vLevel := pin_level (vHandle v) (regs ((gpio (dio s))\<lparr>regs := R'\<rparr>)),
      vLatch := pin_latch (vHandle v) (regs ((gpio (dio s))\<lparr>regs := R'\<rparr>)),
      vOut := pin_out (vHandle v) (regs ((gpio (dio s))\<lparr>regs := R'\<rparr>))\<rparr>"
    by (simp add: own)
  have id: "same_id v (v\<lparr>vPCR := c, vLatch := la\<rparr>)" by (simp add: same_id_def)
  show thesis
    by (rule gpio_do_step [where f = f, OF b f _ _ _ up _ eq id]) (use pins that in auto)
qed

lemma setEnable_step:
  assumes b: "board B s" "p \<in> B" "view s p = Some v"
  obtains s' where "gpio_do (FTE_GPIO_INT_setEnable (pGPIO (vObj v) s) b) s = Some (FTE_RET_OK, s')"
    "view s' p = Some (v\<lparr>vPCR := pcr_enable (hFlags (vHandle v)) b (vPCR v)\<rparr>)" "keeps B {p} s s'" "objs s' = objs s"
proof -
  obtain x where x: "gpios (gpio (dio s)) (pGPIO (vObj v) s) = Some x" "is_lwgpio x" "pPort x = vLw v"
    "lwgpios (gpio (dio s)) (vLw v) = Some (vLwgpio v)" by (rule view_gpio [OF b(3)])
  have f: "FTE_GPIO_INT_setEnable (pGPIO (vObj v) s) b (gpio (dio s))
      = Some (FTE_RET_OK, (gpio (dio s))\<lparr>regs := lwgpio_int_enable (vHandle v) b (regs (gpio (dio s)))\<rparr>)"
    using x by (simp add: FTE_GPIO_INT_setEnable_def gpio_port_call_def FTE_LWGPIO_INT_setEnable_def)
  show thesis
    by (rule gpio_regs_step [where f = "FTE_GPIO_INT_setEnable (pGPIO (vObj v) s) b" and la = "vLatch v"
          and c = "pcr_enable (hFlags (vHandle v)) b (vPCR v)", OF b f])
      (use b(3) that in \<open>auto simp: enable_same read_enable view_some\<close>)
qed

lemma clrFlag_step:
  assumes b: "board B s" "p \<in> B" "view s p = Some v"
  obtains s' where "gpio_do (FTE_GPIO_INT_clrFlag (pGPIO (vObj v) s)) s = Some (FTE_RET_OK, s')"
    "view s' p = Some (v\<lparr>vPCR := pcr_clear (vPCR v)\<rparr>)" "keeps B {p} s s'" "objs s' = objs s"
proof -
  obtain x where x: "gpios (gpio (dio s)) (pGPIO (vObj v) s) = Some x" "is_lwgpio x" "pPort x = vLw v"
    "lwgpios (gpio (dio s)) (vLw v) = Some (vLwgpio v)" by (rule view_gpio [OF b(3)])
  have f: "FTE_GPIO_INT_clrFlag (pGPIO (vObj v) s) (gpio (dio s))
      = Some (FTE_RET_OK, (gpio (dio s))\<lparr>regs := lwgpio_int_clear_flag (vHandle v) (regs (gpio (dio s)))\<rparr>)"
    using x by (simp add: FTE_GPIO_INT_clrFlag_def gpio_port_call_def FTE_LWGPIO_INT_clrFlag_def)
  show thesis
    by (rule gpio_regs_step [where f = "FTE_GPIO_INT_clrFlag (pGPIO (vObj v) s)" and la = "vLatch v"
          and c = "pcr_clear (vPCR v)", OF b f])
      (use b(3) that in \<open>auto simp: lwgpio_int_clear_flag_def pcr_write_same pcr_write_pin pcr_clear_def view_some\<close>)
qed

lemma setPolarity_step:
  assumes b: "board B s" "p \<in> B" "view s p = Some v"
    and m: "polarity_mode pol (nActive (lwConfig (vLwgpio v)) = LWGPIO_VALUE_HIGH) = Some m"
  obtains s' where "gpio_do (FTE_GPIO_INT_setPolarity (pGPIO (vObj v) s) pol) s = Some (FTE_RET_OK, s')"
    "view s' p = Some (v\<lparr>vLwgpio := (vLwgpio v)\<lparr>xLWGPIO := snd (lwgpio_int_init m (vHandle v))\<rparr>\<rparr>)"
    "keeps B {p} s s'" "objs s' = objs s"
proof -
  obtain x where x: "gpios (gpio (dio s)) (pGPIO (vObj v) s) = Some x" "is_lwgpio x" "pPort x = vLw v"
    "lwgpios (gpio (dio s)) (vLw v) = Some (vLwgpio v)" by (rule view_gpio [OF b(3)])
  let ?l = "(vLwgpio v)\<lparr>xLWGPIO := snd (lwgpio_int_init m (vHandle v))\<rparr>"
  have f: "FTE_GPIO_INT_setPolarity (pGPIO (vObj v) s) pol (gpio (dio s))
      = Some (FTE_RET_OK, (gpio (dio s))\<lparr>lwgpios := (lwgpios (gpio (dio s)))(vLw v \<mapsto> ?l)\<rparr>)"
    using x m by (simp add: FTE_GPIO_INT_setPolarity_def gpio_port_call_def FTE_LWGPIO_INT_setPolarity_def)
  show thesis
    by (rule gpio_do_step [where f = "FTE_GPIO_INT_setPolarity (pGPIO (vObj v) s) pol" and l' = ?l
          and v' = "v\<lparr>vLwgpio := ?l\<rparr>", OF b f])
      (use b(3) that in \<open>auto simp: view_some same_id_def int_init_handle pcr_read_def pin_level_def pin_latch_def pin_out_def\<close>)
qed

lemma setValue_step:
  assumes b: "board B s" "p \<in> B" "view s p = Some v" and ok: "io_ok v"
  obtains s' where "gpio_do (FTE_GPIO_setValue (pGPIO (vObj v) s) x) s = Some (FTE_RET_OK, s')"
    "view s' p = Some (v\<lparr>vLatch := (x \<noteq> 0) = (nActive (lwConfig (vLwgpio v)) = LWGPIO_VALUE_HIGH)\<rparr>)"
    "keeps B {p} s s'" "objs s' = objs s"
proof -
  obtain y where y: "gpios (gpio (dio s)) (pGPIO (vObj v) s) = Some y" "is_lwgpio y" "pPort y = vLw v"
    "lwgpios (gpio (dio s)) (vLw v) = Some (vLwgpio v)" by (rule view_gpio [OF b(3)])
  let ?c = "lwConfig (vLwgpio v)"
  let ?x = "if x \<noteq> 0 then nActive ?c else nInactive ?c"
  have h: "handle_ok (vHandle v)" and op: "opposite (nActive ?c) (nInactive ?c)" using ok by (auto simp: io_ok_def)
  have f: "FTE_GPIO_setValue (pGPIO (vObj v) s) x (gpio (dio s))
      = Some (FTE_RET_OK, (gpio (dio s))\<lparr>regs := lwgpio_set_value (vHandle v) ?x (regs (gpio (dio s)))\<rparr>)"
    using y by (simp add: FTE_GPIO_setValue_def gpio_port_call_def FTE_LWGPIO_setValue_def)
  have latch: "pin_latch (vHandle v) (lwgpio_set_value (vHandle v) ?x (regs (gpio (dio s))))
      = ((x \<noteq> 0) = (nActive ?c = LWGPIO_VALUE_HIGH))"
    using pin_set_value [OF h, of ?x] op by (auto simp: opposite_def)
  show thesis
    by (rule gpio_regs_step [where f = "FTE_GPIO_setValue (pGPIO (vObj v) s) x" and c = "vPCR v"
          and la = "(x \<noteq> 0) = (nActive ?c = LWGPIO_VALUE_HIGH)", OF b f])
      (use b(3) that latch in \<open>auto simp: set_value_same [OF h] view_some\<close>)
qed

text \<open>What the pin reads, as its user sees it.\<close>

definition active :: "io_view \<Rightarrow> bool" where
  "active v = ((if vOut v then vLatch v else vLevel v) = (nActive (lwConfig (vLwgpio v)) = LWGPIO_VALUE_HIGH))"

definition reading :: "io_view \<Rightarrow> u32" where
  "reading v = bool32 (active v \<noteq> obj_flag (vObj v) FTE_OBJ_CONFIG_FLAG_REVERSE)"

lemma getValue_view:
  assumes "view s p = Some v" "io_ok v"
  shows "FTE_GPIO_getValue (pGPIO (vObj v) s) (gpio (dio s)) = Some (FTE_RET_OK, Some (bool32 (active v)))"
    "di_read (vObj v) s = Some (FTE_RET_OK, Some (reading v))"
    "FTE_GPIO_INT_getFlag (pGPIO (vObj v) s) (gpio (dio s)) = Some (FTE_RET_OK, Some (bit (vPCR v) 24))"
proof -
  obtain x where x: "gpios (gpio (dio s)) (pGPIO (vObj v) s) = Some x" "is_lwgpio x" "pPort x = vLw v"
    "lwgpios (gpio (dio s)) (vLw v) = Some (vLwgpio v)" by (rule view_gpio [OF assms(1)])
  have h: "handle_ok (vHandle v)" "opposite (nActive (lwConfig (vLwgpio v))) (nInactive (lwConfig (vLwgpio v)))"
    using assms(2) by (auto simp: io_ok_def)
  show 1: "FTE_GPIO_getValue (pGPIO (vObj v) s) (gpio (dio s)) = Some (FTE_RET_OK, Some (bool32 (active v)))"
    using x h(2) assms(1)
    by (auto simp: FTE_GPIO_getValue_def FTE_LWGPIO_getValue_def pin_get_value [OF h(1)] active_def bool32_def opposite_def view_some)
  show "di_read (vObj v) s = Some (FTE_RET_OK, Some (reading v))"
    by (simp add: di_read_def 1 reading_def bool32_def)
  show "FTE_GPIO_INT_getFlag (pGPIO (vObj v) s) (gpio (dio s)) = Some (FTE_RET_OK, Some (bit (vPCR v) 24))"
    using x assms(1) by (simp add: FTE_GPIO_INT_getFlag_def FTE_LWGPIO_INT_getFlag_def pin_get_flag pin_flag_def view_some)
qed

section \<open>The walks\<close>

text \<open>A list that has been used holds the items \<open>ps\<close>.\<close>

definition items :: "'x dsys \<Rightarrow> addr \<Rightarrow> addr list \<Rightarrow> bool" where
  "items s lst ps \<longleftrightarrow> lst \<noteq> NULL \<and> (\<exists>l. lists s lst = Some l \<and> pHead l \<noteq> NULL
     \<and> list_iterate \<lparr>itList = lst, itNode = pHead l\<rparr> s = Some ps)"

lemma list_abs_items:
  assumes "list_abs s lst F ps" "F \<noteq> None"
  shows "items s lst ps"
proof -
  obtain h as k where F: "F = Some (h, as, k)" using assms(2) by (cases F) auto
  have abs: "list_abs s lst (Some (h, as, k)) ps" using assms F by simp
  note H = list_abs_header [OF abs]
  have "ring (nodes s) h ([] @ as)" using H(6) by simp
  from list_iterate_ring [OF this H(2) _ H(7) list_abs_no_null [OF abs]]
  show ?thesis using H by (simp add: items_def)
qed

lemma items_init:
  assumes "items s lst ps"
  obtains it where "FTE_LIST_ITER_init lst s = Some (FTE_RET_OK, it, s)" "list_iterate it s = Some ps"
  using assms by (auto simp: items_def FTE_LIST_ITER_init_def list_ensure_init_def FTE_LIST_isInitialized_def)

lemma getNext_kern: "kern s' = kern s \<Longrightarrow> FTE_LIST_ITER_getNext it s' = FTE_LIST_ITER_getNext it s"
proof -
  assume "kern s' = kern s"
  then have "nodes s' = nodes s" "lists s' = lists s" by (simp_all add: kern_def)
  then show ?thesis by (simp only: FTE_LIST_ITER_getNext_def)
qed

lemma iterate_Cons:
  assumes "list_iterate it s = Some (p # ps)"
  obtains it' where "FTE_LIST_ITER_getNext it s = Some (p, it')" "p \<noteq> NULL" "list_iterate it' s = Some ps"
  using assms by (subst (asm) list_iterate.simps) (auto simp: opt_simps split: if_split_asm)

lemma iterate_Nil:
  assumes "list_iterate it s = Some []"
  obtains it' where "FTE_LIST_ITER_getNext it s = Some (NULL, it')"
  using assms by (subst (asm) list_iterate.simps) (auto simp: opt_simps split: if_split_asm)

lemma iterate_kern: "list_iterate it s = Some ps \<Longrightarrow> kern s' = kern s \<Longrightarrow> list_iterate it s' = Some ps"
proof (induction ps arbitrary: it)
  case Nil
  then show ?case using getNext_kern [OF Nil.prems(2), of it] iterate_Nil [OF Nil.prems(1)]
    by (subst list_iterate.simps) fastforce
next
  case (Cons p ps)
  obtain it' where it: "FTE_LIST_ITER_getNext it s = Some (p, it')" "p \<noteq> NULL" "list_iterate it' s = Some ps"
    by (rule iterate_Cons [OF Cons.prems(1)])
  then show ?case using Cons.IH [OF it(3) Cons.prems(2)] getNext_kern [OF Cons.prems(2), of it]
    by (subst list_iterate.simps) simp
qed

lemma items_kern: "items s lst ps \<Longrightarrow> kern s' = kern s \<Longrightarrow> items s' lst ps"
  unfolding items_def using iterate_kern by (fastforce simp: kern_def)

text \<open>A walk comes to the steps for the items in turn.\<close>

primrec steps :: "('a \<Rightarrow> 's \<Rightarrow> 's option) \<Rightarrow> 'a list \<Rightarrow> 's \<Rightarrow> 's option" where
  "steps f [] s = Some s"
| "steps f (p # ps) s = do { s \<leftarrow> f p s; steps f ps s }"

lemma dio_loop_steps:
  assumes "list_iterate it s = Some ps"
    "\<And>p s1 s2. p \<in> set ps \<Longrightarrow> I s1 \<Longrightarrow> step p s1 = Some s2 \<Longrightarrow> I s2 \<and> kern s2 = kern s1"
    "kern s1 = kern s" "I s1"
  shows "dio_loop step it s1 = steps step ps s1"
  using assms
proof (induction ps arbitrary: it s1)
  case Nil
  obtain it' where "FTE_LIST_ITER_getNext it s = Some (NULL, it')" by (rule iterate_Nil [OF Nil.prems(1)])
  then show ?case using getNext_kern [OF Nil.prems(3), of it] by (subst dio_loop.simps) simp
next
  case (Cons p ps)
  obtain it' where it: "FTE_LIST_ITER_getNext it s = Some (p, it')" "p \<noteq> NULL" "list_iterate it' s = Some ps"
    by (rule iterate_Cons [OF Cons.prems(1)])
  have "dio_loop step it' s2 = steps step ps s2" if "step p s1 = Some s2" for s2
  proof (rule Cons.IH [OF it(3)])
    show "kern s2 = kern s" "I s2" using Cons.prems(2) [OF _ Cons.prems(4) that] Cons.prems(3) by simp_all
    show "I t2 \<and> kern t2 = kern t1" if "q \<in> set ps" "I t1" "step q t1 = Some t2" for q t1 t2
      by (rule Cons.prems(2) [OF _ that(2,3)]) (use that(1) in simp)
  qed
  then show ?case using it getNext_kern [OF Cons.prems(3), of it]
    by (subst dio_loop.simps) (cases "step p s1"; simp)
qed

lemma dio_walk_steps:
  assumes "items s lst ps" "I s"
    "\<And>p s1 s2. p \<in> set ps \<Longrightarrow> I s1 \<Longrightarrow> step p s1 = Some s2 \<Longrightarrow> I s2 \<and> kern s2 = kern s1"
  shows "dio_walk lst step s = steps step ps s"
proof -
  obtain it where it: "FTE_LIST_ITER_init lst s = Some (FTE_RET_OK, it, s)" "list_iterate it s = Some ps"
    by (rule items_init [OF assms(1)])
  show ?thesis using dio_loop_steps [OF it(2) assms(3) _ assms(2)] it(1) by (simp add: dio_walk_def)
qed

lemma dio_get_items:
  assumes "items s lst ps" "\<forall>p\<in>set ps. objs s p \<noteq> None"
  shows "dio_get E lst oid s = Some (case find (\<lambda>p. obj_id (the (objs s p)) = oid) ps of Some p \<Rightarrow> p | None \<Rightarrow> NULL, s)"
proof -
  obtain it where "FTE_LIST_ITER_init lst s = Some (FTE_RET_OK, it, s)" "list_iterate it s = Some ps"
    by (rule items_init [OF assms(1)])
  then show ?thesis
    using obj_loop_walk [of it s ps "\<lambda>p ob x. if obj_id ob = oid then Inr p else Inl x" NULL] assms(2)
    by (simp add: dio_get_def FTE_OBJ_get_def obj_walk_def walk_find)
qed

section \<open>Lamps\<close>

lemma board_objs: "board B s \<Longrightarrow> set ps \<subseteq> B \<Longrightarrow> \<forall>p\<in>set ps. objs s p \<noteq> None"
  using board_view view_obj by fastforce

lemma items_no_null: "items s lst ps \<Longrightarrow> NULL \<notin> set ps"
proof -
  have "list_iterate it s = Some ps \<Longrightarrow> NULL \<notin> set ps" for it
  proof (induction ps arbitrary: it)
    case (Cons p ps)
    then show ?case by (metis iterate_Cons set_ConsD)
  qed simp
  then show "items s lst ps \<Longrightarrow> NULL \<notin> set ps" by (auto simp: items_def)
qed

lemma upd_dio_keeps:
  assumes "gpio (f (dio s)) = gpio (dio s)" "stGPIO (f (dio s)) = stGPIO (dio s)"
    "stPreset (f (dio s)) = stPreset (dio s)" "clock (f (dio s)) = clock (dio s)"
  shows "keeps B A s (upd_dio f s)"
proof -
  have "view (upd_dio f s) q = view s q" for q
    using assms by (simp add: view_def pGPIO_def xPresetValue_def)
  then show ?thesis using assms by (auto simp: keeps_def)
qed

definition dio_room :: "'x dio_env \<Rightarrow> addr set \<Rightarrow> addr list \<Rightarrow> 'x dsys \<Rightarrow> bool" where
  "dio_room E B leds s \<longleftrightarrow> board B s \<and> items s (ledList E) leds \<and> set leds \<subseteq> B"

lemma dio_room_keeps: "dio_room E B leds s \<Longrightarrow> keeps B A s s' \<Longrightarrow> dio_room E B leds s'"
  unfolding dio_room_def using keeps_board items_kern by (metis keeps_def)

lemma led_switch_step:
  assumes b: "board B s" "p \<in> B" "view s p = Some v"
  obtains r err s' where "led_switch E (pGPIO (vObj v) s) x s = Some (r, err, s')" "keeps B {p} s s'"
    "objs s' = objs s" "cfg s' = cfg s"
proof -
  have io: "io_ok v" using board_view [OF b(1,2)] b(3) by simp
  have cfg: "cfg s' = cfg s" if "gpio_do f s = Some (r, s')" for f r s'
    using that by (auto simp: gpio_do_def opt_simps)
  consider "x = FTE_LED_STATE_OFF \<or> x = FTE_LED_STATE_ON" | "x = FTE_LED_STATE_BLINK" "hTimer (dio s) = 0"
    | "x \<noteq> FTE_LED_STATE_OFF" "x \<noteq> FTE_LED_STATE_ON" "x = FTE_LED_STATE_BLINK \<Longrightarrow> hTimer (dio s) \<noteq> 0" by blast
  then show thesis
  proof cases
    case 1
    obtain s1 where s1: "gpio_do (FTE_GPIO_setValue (pGPIO (vObj v) s) x) s = Some (FTE_RET_OK, s1)" "keeps B {p} s s1"
      "objs s1 = objs s" by (rule setValue_step [OF b io])
    have "keeps B {p} s1 (led_cancel s1)" by (auto simp: led_cancel_def intro: upd_dio_keeps keeps_refl)
    then show thesis
      by (intro that [of FTE_RET_OK False "led_cancel s1"])
        (use 1 s1 cfg [OF s1(1)] keeps_trans in \<open>auto simp: led_switch_def led_cancel_def\<close>)
  next
    case 2
    obtain s1 where s1: "gpio_do (FTE_GPIO_setValue (pGPIO (vObj v) s) 1) s = Some (FTE_RET_OK, s1)" "keeps B {p} s s1"
      "objs s1 = objs s" by (rule setValue_step [OF b io])
    obtain r s2 where s2: "FTE_OBJ_runLoop s1 = (r, s2)" by force
    then have "keeps B {p} s1 s2" "objs s2 = objs s1" "cfg s2 = cfg s1"
      by (auto simp: FTE_OBJ_runLoop_def split: list.splits if_splits intro: upd_dio_keeps keeps_refl)
    then show thesis
      by (intro that [of r "r \<noteq> FTE_RET_OK" s2])
        (use 2 s1 s2 cfg [OF s1(1)] keeps_trans in \<open>auto simp: led_switch_def\<close>)
  next
    case 3
    show thesis
      by (rule that [of "if x = FTE_LED_STATE_BLINK then FTE_RET_OK else stackRet E" "x \<noteq> FTE_LED_STATE_BLINK" s])
        (use 3 in \<open>auto simp: led_switch_def keeps_refl\<close>)
  qed
qed

lemma led_set_step:
  assumes "board B s" "p \<in> B" "p \<noteq> NULL"
  obtains r s' where "FTE_LED_setValue_obj E p x s = Some (r, s')" "keeps B {p} s s'" "cfg s' = cfg s"
proof -
  obtain v where v: "view s p = Some v" "io_ok v" using board_view [OF assms(1,2)] by blast
  obtain r err s1 where 1: "led_switch E (pGPIO (vObj v) s) (xData x) s = Some (r, err, s1)" "keeps B {p} s s1"
    "objs s1 = objs s" "cfg s1 = cfg s" by (rule led_switch_step [OF assms(1,2) v(1)])
  have b1: "board B s1" using keeps_board [OF 1(2) assms(1)] .
  obtain v1 where v1: "view s1 p = Some v1" "same_id v v1" using keeps_same_id [OF 1(2) assms(2) v(1)] by blast
  obtain s2 where 2: "upd_obj p (\<lambda>ob. ob\<lparr>oFlags := oFlags ob AND NOT FTE_OBJ_STATUS_FLAG_VALID\<rparr>) s1 = Some s2"
    "s2 = s1\<lparr>objs := (objs s1)(p \<mapsto> (vObj v1)\<lparr>oFlags := oFlags (vObj v1) AND NOT FTE_OBJ_STATUS_FLAG_VALID\<rparr>)\<rparr>"
    "keeps B {p} s1 s2"
    by (rule upd_obj_step [OF b1 assms(2) v1(1), where f = "\<lambda>ob. ob\<lparr>oFlags := oFlags ob AND NOT FTE_OBJ_STATUS_FLAG_VALID\<rparr>"])
      (auto simp: same_id_def)
  define s3 where "s3 = upd_dio (\<lambda>d. d\<lparr>stLed := (stLed d)(pStatusP (vObj v) :=
          snd (FTE_VALUE_setULONG (clock d) (xData x) (stLed d (pStatusP (vObj v)))))\<rparr>) s1"
  have 3: "keeps B {p} s1 s3" unfolding s3_def by (rule upd_dio_keeps) simp_all
  have set: "FTE_LED_setValue_obj E p x s = (if err then Some (r, s2) else Some (FTE_RET_OK, s3))"
    using assms(3) view_obj [OF v(1)] 1(1) 2(1) by (simp add: FTE_LED_setValue_obj_def s3_def)
  show thesis
  proof (cases err)
    case True
    then show thesis using that [of r s2] set keeps_trans [OF 1(2) 2(3)] 1(4) 2(2) by simp
  next
    case False
    then show thesis using that [of FTE_RET_OK s3] set keeps_trans [OF 1(2) 3] 1(4) by (simp add: s3_def)
  qed
qed

lemma do_lamp_step:
  assumes "dio_room E B leds s"
  obtains s' where "do_lamp E c x s = Some s'" "keeps B (set leds) s s'" "cfg s' = cfg s"
proof (cases "cfg_nLED c = 0")
  case True
  then show thesis using that [of s] by (simp add: do_lamp_def keeps_refl)
next
  case False
  have r: "board B s" "items s (ledList E) leds" "set leds \<subseteq> B" using assms by (auto simp: dio_room_def)
  note get = dio_get_items [OF r(2) board_objs [OF r(1,3)], of E "cfg_nLED c"]
  show thesis
  proof (cases "find (\<lambda>p. obj_id (the (objs s p)) = cfg_nLED c) leds")
    case None
    then show thesis
      using that [of s] False get by (simp add: do_lamp_def FTE_LED_setValue_def FTE_LED_get_def keeps_refl)
  next
    case (Some p)
    then have p: "p \<in> set leds" by (auto simp: find_Some_iff)
    then have "p \<noteq> NULL" "p \<in> B" using items_no_null [OF r(2)] r(3) by auto
    then obtain r' s' where "FTE_LED_setValue_obj E p (snd (FTE_VALUE_initDIO x)) s = Some (r', s')" "keeps B {p} s s'"
      "cfg s' = cfg s" using led_set_step [OF r(1), of p E "snd (FTE_VALUE_initDIO x)"] by blast
    then show thesis
      using that [of s'] False get Some p keeps_mono [of B "{p}" s s' "set leds"] \<open>p \<noteq> NULL\<close>
      by (simp add: do_lamp_def FTE_LED_setValue_def FTE_LED_get_def)
  qed
qed

section \<open>An input as a machine\<close>

definition vValue :: "io_view \<Rightarrow> fte_value" where "vValue v = hd (oValues (vObj v))"

definition di_isr :: "time_struct \<Rightarrow> io_view \<Rightarrow> io_view" where
  "di_isr now v = (if obj_flag (vObj v) FTE_OBJ_CONFIG_FLAG_ENABLE \<and> bit (vPCR v) 24
     then v\<lparr>vPreset := snd (FTE_VALUE_setDIO now (reading v) (vPreset v)),
            vPCR := pcr_clear (pcr_enable (hFlags (vHandle v)) False (vPCR v))\<rparr>
     else v)"

text \<open>The mode that fires at the levels where the pin does not read as the preset value.\<close>

definition di_mode :: "io_view \<Rightarrow> u8" where
  "di_mode v = (if ((xData (vPreset v) = 1) = obj_flag (vObj v) FTE_OBJ_CONFIG_FLAG_REVERSE)
       = (nActive (lwConfig (vLwgpio v)) = LWGPIO_VALUE_HIGH) then LWGPIO_INT_MODE_HIGH else LWGPIO_INT_MODE_LOW)"

definition di_arm :: "io_view \<Rightarrow> io_view" where
  "di_arm v = (let h = snd (lwgpio_int_init (di_mode v) (vHandle v)) in
     v\<lparr>vLwgpio := (vLwgpio v)\<lparr>xLWGPIO := h\<rparr>, vPCR := pcr_enable (hFlags h) True (vPCR v)\<rparr>)"

definition di_unlock :: "'x dio_env \<Rightarrow> time_struct \<Rightarrow> io_view \<Rightarrow> io_view" where
  "di_unlock E now v = (if sint (di_diff E now (xTimeStamp (vPreset v))) < 200 then v else di_arm v)"

definition di_update :: "'x dio_env \<Rightarrow> time_struct \<Rightarrow> io_view \<Rightarrow> io_view" where
  "di_update E now v =
     (if xData (vValue v) \<noteq> xData (vPreset v) then
        (if di_due E (vConfig v) now (vPreset v) (vValue v)
         then v\<lparr>vObj := (vObj v)\<lparr>oValues := (oValues (vObj v))[0 := vPreset v],
            oFlags := FTE_FLAG_SET (oFlags (vObj v)) (FTE_OBJ_STATUS_FLAG_UPDATED OR FTE_OBJ_STATUS_FLAG_CHANGED)\<rparr>\<rparr>
         else v)
      else if bChanged (vPreset v)
      then v\<lparr>vObj := (vObj v)\<lparr>oValues := (oValues (vObj v))[0 := (vValue v)\<lparr>xTimeStamp := xTimeStamp (vPreset v)\<rparr>]\<rparr>\<rparr>
      else v)"

lemma obj_value_view: "io_ok v \<Longrightarrow> obj_value (vObj v) = Some (vValue v)"
  by (cases "oValues (vObj v)") (auto simp: io_ok_def obj_value_def vValue_def)

lemma gpio_do_stGPIO: "gpio_do f s = Some (r, s') \<Longrightarrow> stGPIO (dio s') = stGPIO (dio s)"
  by (auto simp: gpio_do_def opt_simps)

lemma upd_preset_stGPIO: "upd_preset p x s = Some s' \<Longrightarrow> stGPIO (dio s') = stGPIO (dio s)"
  by (auto simp: upd_preset_def opt_simps)

lemma di_isr_step:
  assumes b: "board B s" "p \<in> B" "view s p = Some v"
  obtains s' where "di_isr_object p s = Some s'" "view s' p = Some (di_isr (clock (dio s)) v)" "keeps B {p} s s'"
proof (cases "obj_flag (vObj v) FTE_OBJ_CONFIG_FLAG_ENABLE \<and> bit (vPCR v) 24")
  case False
  have io: "io_ok v" using board_view [OF b(1,2)] b(3) by simp
  show thesis
    by (rule that [of s]) (use False view_obj [OF b(3)] getValue_view(3) [OF b(3) io] b(3) in
        \<open>auto simp: di_isr_object_def di_isr_def keeps_refl\<close>)
next
  case True
  have io: "io_ok v" using board_view [OF b(1,2)] b(3) by simp
  let ?x = "snd (FTE_VALUE_setDIO (clock (dio s)) (reading v) (vPreset v))"
  obtain s1 where 1: "upd_preset p ?x s = Some s1" "view s1 p = Some (v\<lparr>vPreset := ?x\<rparr>)" "keeps B {p} s s1"
    by (rule upd_preset_step [OF b, of ?x])
  let ?v1 = "v\<lparr>vPreset := ?x\<rparr>"
  have b1: "board B s1" using keeps_board [OF 1(3) b(1)] .
  obtain s2 where 2: "gpio_do (FTE_GPIO_INT_setEnable (pGPIO (vObj ?v1) s1) False) s1 = Some (FTE_RET_OK, s2)"
    "view s2 p = Some (?v1\<lparr>vPCR := pcr_enable (hFlags (vHandle ?v1)) False (vPCR ?v1)\<rparr>)" "keeps B {p} s1 s2"
    by (rule setEnable_step [OF b1 b(2) 1(2)])
  let ?v2 = "?v1\<lparr>vPCR := pcr_enable (hFlags (vHandle ?v1)) False (vPCR ?v1)\<rparr>"
  have b2: "board B s2" using keeps_board [OF 2(3) b1] .
  obtain s3 where 3: "gpio_do (FTE_GPIO_INT_clrFlag (pGPIO (vObj ?v2) s2)) s2 = Some (FTE_RET_OK, s3)"
    "view s3 p = Some (?v2\<lparr>vPCR := pcr_clear (vPCR ?v2)\<rparr>)" "keeps B {p} s2 s3"
    by (rule clrFlag_step [OF b2 b(2) 2(2)])
  have st: "stGPIO (dio s2) = stGPIO (dio s1)" "stGPIO (dio s1) = stGPIO (dio s)"
    using gpio_do_stGPIO [OF 2(1)] upd_preset_stGPIO [OF 1(1)] by auto
  have pre: "xPresetValue (vObj v) s = vPreset v" using b(3) by (simp add: view_some xPresetValue_def)
  show thesis
  proof (rule that [of s3])
    show "di_isr_object p s = Some s3"
      using True view_obj [OF b(3)] getValue_view [OF b(3) io] 1(1) 2(1) 3(1) pre
      by (simp add: di_isr_object_def pGPIO_def st)
    show "view s3 p = Some (di_isr (clock (dio s)) v)" using 3(2) True by (simp add: di_isr_def)
    show "keeps B {p} s s3" using keeps_trans [OF keeps_trans [OF 1(3) 2(3)] 3(3)] .
  qed
qed

lemma di_unlock_step:
  assumes b: "board B s" "p \<in> B" "view s p = Some v"
  obtains s' where "di_unlock_object E p s = Some (FTE_RET_OK, s')" "view s' p = Some (di_unlock E (clock (dio s)) v)"
    "keeps B {p} s s'"
proof (cases "sint (di_diff E (clock (dio s)) (xTimeStamp (vPreset v))) < 200")
  case True
  have pre: "xPresetValue (vObj v) s = vPreset v" using b(3) by (simp add: view_some xPresetValue_def)
  show thesis
    by (rule that [of s]) (use True view_obj [OF b(3)] b(3) pre in \<open>auto simp: di_unlock_object_def di_unlock_def keeps_refl\<close>)
next
  case False
  have pre: "xPresetValue (vObj v) s = vPreset v" using b(3) by (simp add: view_some xPresetValue_def)
  let ?pol = "if (xData (vPreset v) = 1) = obj_flag (vObj v) FTE_OBJ_CONFIG_FLAG_REVERSE
     then FTE_LWGPIO_INT_HIGH else FTE_LWGPIO_INT_LOW"
  have m: "polarity_mode ?pol (nActive (lwConfig (vLwgpio v)) = LWGPIO_VALUE_HIGH) = Some (di_mode v)"
    by (auto simp: polarity_mode_def di_mode_def)
  obtain s1 where 1: "gpio_do (FTE_GPIO_INT_setPolarity (pGPIO (vObj v) s) ?pol) s = Some (FTE_RET_OK, s1)"
    "view s1 p = Some (v\<lparr>vLwgpio := (vLwgpio v)\<lparr>xLWGPIO := snd (lwgpio_int_init (di_mode v) (vHandle v))\<rparr>\<rparr>)"
    "keeps B {p} s s1"
    by (rule setPolarity_step [OF b m])
  let ?v1 = "v\<lparr>vLwgpio := (vLwgpio v)\<lparr>xLWGPIO := snd (lwgpio_int_init (di_mode v) (vHandle v))\<rparr>\<rparr>"
  have b1: "board B s1" using keeps_board [OF 1(3) b(1)] .
  obtain s2 where 2: "gpio_do (FTE_GPIO_INT_setEnable (pGPIO (vObj ?v1) s1) True) s1 = Some (FTE_RET_OK, s2)"
    "view s2 p = Some (?v1\<lparr>vPCR := pcr_enable (hFlags (vHandle ?v1)) True (vPCR ?v1)\<rparr>)" "keeps B {p} s1 s2"
    by (rule setEnable_step [OF b1 b(2) 1(2)])
  have st: "stGPIO (dio s1) = stGPIO (dio s)" using gpio_do_stGPIO [OF 1(1)] .
  show thesis
  proof (rule that [of s2])
    show "di_unlock_object E p s = Some (FTE_RET_OK, s2)"
      using False view_obj [OF b(3)] 1(1) 2(1) pre st by (simp add: di_unlock_object_def pGPIO_def Let_def)
    show "view s2 p = Some (di_unlock E (clock (dio s)) v)" using 2(2) False by (simp add: di_unlock_def di_arm_def Let_def)
    show "keeps B {p} s s2" using keeps_trans [OF 1(3) 2(3)] .
  qed
qed

lemma upd_value_step:
  assumes "board B s" "p \<in> B" "view s p = Some v"
  obtains s' where "upd_value p x s = Some s'" "keeps B {p} s s'"
    "view s' p = Some (v\<lparr>vObj := (vObj v)\<lparr>oValues := (oValues (vObj v))[0 := x]\<rparr>\<rparr>)" "cfg s' = cfg s"
proof -
  have io: "io_ok v" using board_view [OF assms(1,2)] assms(3) by simp
  obtain s' where s': "upd_obj p (\<lambda>ob. ob\<lparr>oValues := (oValues ob)[0 := x]\<rparr>) s = Some s'"
    "s' = s\<lparr>objs := (objs s)(p \<mapsto> (vObj v)\<lparr>oValues := (oValues (vObj v))[0 := x]\<rparr>)\<rparr>"
    "view s' p = Some (v\<lparr>vObj := (vObj v)\<lparr>oValues := (oValues (vObj v))[0 := x]\<rparr>\<rparr>)" "keeps B {p} s s'"
    by (rule upd_obj_step [OF assms, where f = "\<lambda>ob. ob\<lparr>oValues := (oValues ob)[0 := x]\<rparr>"]) (auto simp: same_id_def)
  show thesis
    by (rule that [of s']) (use s' io view_obj [OF assms(3)] in \<open>auto simp: upd_value_def io_ok_def\<close>)
qed

lemma upd_flags_step:
  assumes "board B s" "p \<in> B" "view s p = Some v"
  obtains s' where "FTE_OBJ_STATE_set p f s = Some s'" "keeps B {p} s s'" "cfg s' = cfg s"
    "view s' p = Some (v\<lparr>vObj := (vObj v)\<lparr>oFlags := FTE_FLAG_SET (oFlags (vObj v)) f\<rparr>\<rparr>)"
proof -
  obtain s' where s': "upd_obj p (\<lambda>ob. ob\<lparr>oFlags := FTE_FLAG_SET (oFlags ob) f\<rparr>) s = Some s'"
    "s' = s\<lparr>objs := (objs s)(p \<mapsto> (vObj v)\<lparr>oFlags := FTE_FLAG_SET (oFlags (vObj v)) f\<rparr>)\<rparr>"
    "view s' p = Some (v\<lparr>vObj := (vObj v)\<lparr>oFlags := FTE_FLAG_SET (oFlags (vObj v)) f\<rparr>\<rparr>)" "keeps B {p} s s'"
    by (rule upd_obj_step [OF assms, where f = "\<lambda>ob. ob\<lparr>oFlags := FTE_FLAG_SET (oFlags ob) f\<rparr>"]) (auto simp: same_id_def)
  show thesis by (rule that [of s']) (use s' in \<open>auto simp: FTE_OBJ_STATE_set_def\<close>)
qed

lemma keeps_lists: "keeps B A s s' \<Longrightarrow> keeps B (A \<union> A') s s'" "keeps B A' s s' \<Longrightarrow> keeps B (A \<union> A') s s'"
  using keeps_mono by blast+

lemma di_update_step:
  assumes r: "dio_room E B leds s" and p: "p \<in> B" "p \<notin> set leds" "view s p = Some v"
  obtains s' where "di_update_object E p s = Some s'" "view s' p = Some (di_update E (clock (dio s)) v)"
    "keeps B ({p} \<union> set leds) s s'"
proof -
  have b: "board B s" using r by (simp add: dio_room_def)
  have io: "io_ok v" using board_view [OF b p(1)] p(3) by simp
  have pre: "xPresetValue (vObj v) s = vPreset v" using p(3) by (simp add: view_some xPresetValue_def)
  note start = view_obj [OF p(3)] obj_value_view [OF io] pre
  consider "xData (vValue v) \<noteq> xData (vPreset v)" "di_due E (vConfig v) (clock (dio s)) (vPreset v) (vValue v)"
    | "xData (vValue v) = xData (vPreset v)" "bChanged (vPreset v)"
    | "\<not> (xData (vValue v) \<noteq> xData (vPreset v) \<and> di_due E (vConfig v) (clock (dio s)) (vPreset v) (vValue v))"
      "\<not> (xData (vValue v) = xData (vPreset v) \<and> bChanged (vPreset v))" by blast
  then show thesis
  proof cases
    case 1
    let ?v1 = "v\<lparr>vObj := (vObj v)\<lparr>oValues := (oValues (vObj v))[0 := vPreset v]\<rparr>\<rparr>"
    let ?fl = "FTE_OBJ_STATUS_FLAG_UPDATED OR FTE_OBJ_STATUS_FLAG_CHANGED"
    obtain s1 where s1: "upd_value p (vPreset v) s = Some s1" "keeps B {p} s s1" "view s1 p = Some ?v1"
      by (rule upd_value_step [OF b p(1,3), where x = "vPreset v"])
    obtain s2 where s2: "do_lamp E (vConfig v) (xData (vPreset v)) s1 = Some s2" "keeps B (set leds) s1 s2"
      by (rule do_lamp_step [OF dio_room_keeps [OF r s1(2)], where c = "vConfig v" and x = "xData (vPreset v)"])
    have b2: "board B s2" using keeps_board [OF s2(2) keeps_board [OF s1(2) b]] .
    have v2: "view s2 p = Some ?v1" using keeps_other [OF s2(2) p(1,2)] s1(3) by simp
    obtain s3 where s3: "FTE_OBJ_STATE_set p ?fl s2 = Some s3" "keeps B {p} s2 s3"
      "view s3 p = Some (?v1\<lparr>vObj := (vObj ?v1)\<lparr>oFlags := FTE_FLAG_SET (oFlags (vObj ?v1)) ?fl\<rparr>\<rparr>)"
      by (rule upd_flags_step [OF b2 p(1) v2, where f = ?fl])
    show thesis
    proof (rule that [of s3])
      show "di_update_object E p s = Some s3"
        using 1 start s1(1) s2(1) s3(1)
        by (simp add: di_update_object_def FTE_VALUE_copy_def FTE_OBJ_wasChanged_def)
      show "view s3 p = Some (di_update E (clock (dio s)) v)" using s3(3) 1 by (simp add: di_update_def)
      show "keeps B ({p} \<union> set leds) s s3"
        using keeps_trans [OF keeps_trans [OF keeps_lists(1) [OF s1(2)] keeps_lists(2) [OF s2(2)]] keeps_lists(1) [OF s3(2)]] .
    qed
  next
    case 2
    obtain s1 where s1: "upd_value p ((vValue v)\<lparr>xTimeStamp := xTimeStamp (vPreset v)\<rparr>) s = Some s1" "keeps B {p} s s1"
      "view s1 p = Some (v\<lparr>vObj := (vObj v)\<lparr>oValues := (oValues (vObj v))[0 := (vValue v)\<lparr>xTimeStamp := xTimeStamp (vPreset v)\<rparr>]\<rparr>\<rparr>)"
      by (rule upd_value_step [OF b p(1,3), where x = "(vValue v)\<lparr>xTimeStamp := xTimeStamp (vPreset v)\<rparr>"])
    show thesis
      by (rule that [of s1]) (use 2 start s1 keeps_lists(1) [OF s1(2), of "set leds"] in \<open>auto simp: di_update_object_def di_update_def\<close>)
  next
    case 3
    show thesis
      by (rule that [of s]) (use 3 start p(3) in \<open>auto simp: di_update_object_def di_update_def keeps_refl Let_def\<close>)
  qed
qed

text \<open>The inputs \<open>dis\<close> and the lamps \<open>leds\<close> of a board, each list used at least once.\<close>

definition di_room :: "'x dio_env \<Rightarrow> addr set \<Rightarrow> addr list \<Rightarrow> addr list \<Rightarrow> 'x dsys \<Rightarrow> bool" where
  "di_room E B leds dis s \<longleftrightarrow> dio_room E B leds s \<and> items s (diList E) dis \<and> distinct dis \<and> set dis \<subseteq> B
     \<and> set dis \<inter> set leds = {}"

lemma di_room_keeps: "di_room E B leds dis s \<Longrightarrow> keeps B A s s' \<Longrightarrow> di_room E B leds dis s'"
  unfolding di_room_def using dio_room_keeps items_kern by (metis keeps_def)

text \<open>What one input's step does to its machine; \<open>leds\<close> may change, too.\<close>

definition machine_step :: "addr set \<Rightarrow> addr list \<Rightarrow> (io_view \<Rightarrow> io_view) \<Rightarrow> addr \<Rightarrow> 'x dsys \<Rightarrow> 'x dsys option \<Rightarrow> bool" where
  "machine_step B leds g p s r \<longleftrightarrow> (\<exists>s'. r = Some s' \<and> view s' p = map_option g (view s p) \<and> keeps B ({p} \<union> set leds) s s')"

definition machine_steps :: "'x dio_env \<Rightarrow> addr set \<Rightarrow> addr list \<Rightarrow> time_struct \<Rightarrow> (io_view \<Rightarrow> io_view)
    \<Rightarrow> (addr \<Rightarrow> 'x dsys \<Rightarrow> 'x dsys option) \<Rightarrow> addr set \<Rightarrow> bool" where
  "machine_steps E B leds now g f A \<longleftrightarrow> (\<forall>p\<in>A. \<forall>s. dio_room E B leds s \<longrightarrow> clock (dio s) = now \<longrightarrow> machine_step B leds g p s (f p s))"

lemma machine_stepsD:
  assumes "machine_steps E B leds now g f A" "p \<in> A" "dio_room E B leds s" "clock (dio s) = now"
  obtains s' where "f p s = Some s'" "view s' p = map_option g (view s p)" "keeps B ({p} \<union> set leds) s s'"
  using assms unfolding machine_steps_def machine_step_def by blast

lemma machine_steps_room:
  assumes "machine_steps E B leds now g f A" "p \<in> A" "dio_room E B leds s \<and> clock (dio s) = now" "f p s = Some s'"
  shows "(dio_room E B leds s' \<and> clock (dio s') = now) \<and> kern s' = kern s"
proof -
  have k: "keeps B ({p} \<union> set leds) s s'"
    using machine_stepsD [OF assms(1,2)] assms(3,4) by (metis option.sel)
  then show ?thesis using assms(3) dio_room_keeps [OF _ k] by (simp add: keeps_def)
qed

text \<open>Walking over the inputs steps every one of their machines.\<close>

lemma steps_views:
  assumes "machine_steps E B leds now g f A" "set ps \<subseteq> A" "distinct ps" "set ps \<subseteq> B" "set ps \<inter> set leds = {}"
    "dio_room E B leds s" "clock (dio s) = now"
  shows "\<exists>s'. steps f ps s = Some s' \<and> keeps B (set ps \<union> set leds) s s'
    \<and> (\<forall>p\<in>set ps. view s' p = map_option g (view s p))"
  using assms(2-)
proof (induction ps arbitrary: s)
  case Nil
  then show ?case using keeps_refl by auto
next
  case (Cons p ps)
  have p: "p \<in> A" "p \<in> B" "p \<notin> set leds" "p \<notin> set ps" using Cons.prems(1-4) by auto
  obtain s1 where s1: "f p s = Some s1" "view s1 p = map_option g (view s p)" "keeps B ({p} \<union> set leds) s s1"
    by (rule machine_stepsD [OF assms(1) p(1) Cons.prems(5,6)])
  have r1: "dio_room E B leds s1" "clock (dio s1) = now"
    using machine_steps_room [OF assms(1) p(1) _ s1(1)] Cons.prems(5,6) by simp_all
  have "set ps \<subseteq> A" "distinct ps" "set ps \<subseteq> B" "set ps \<inter> set leds = {}" using Cons.prems(1-4) by auto
  from Cons.IH [OF this r1] obtain s' where s': "steps f ps s1 = Some s'" "keeps B (set ps \<union> set leds) s1 s'"
    "\<forall>q\<in>set ps. view s' q = map_option g (view s1 q)" by blast
  have "view s' p = map_option g (view s p)" using keeps_other [OF s'(2) p(2)] p s1(2) by simp
  moreover have "view s' q = map_option g (view s q)" if "q \<in> set ps" for q
  proof -
    have "q \<in> B" "q \<notin> {p} \<union> set leds" using Cons.prems(1-4) that by auto
    then show ?thesis using s'(3) keeps_other [OF s1(3)] that by simp
  qed
  moreover have "keeps B (set (p # ps) \<union> set leds) s s'"
    by (rule keeps_trans [OF keeps_mono [OF s1(3)] keeps_mono [OF s'(2)]]) auto
  moreover have "steps f (p # ps) s = Some s'" using s1(1) s'(1) by simp
  ultimately show ?case by (intro exI [of _ s']) simp
qed

lemma walk_views:
  assumes r: "di_room E B leds dis s" and one: "machine_steps E B leds (clock (dio s)) g f (set dis)"
  obtains s' where "dio_walk (diList E) f s = Some s'" "keeps B (set dis \<union> set leds) s s'"
    "\<forall>p\<in>set dis. view s' p = map_option g (view s p)"
proof -
  have r: "dio_room E B leds s" "items s (diList E) dis" "distinct dis" "set dis \<subseteq> B" "set dis \<inter> set leds = {}"
    using r by (auto simp: di_room_def)
  have "dio_walk (diList E) f s = steps f dis s"
    by (rule dio_walk_steps [OF r(2), where I = "\<lambda>s1. dio_room E B leds s1 \<and> clock (dio s1) = clock (dio s)"])
      (use r(1) machine_steps_room [OF one] in \<open>blast+\<close>)
  then show thesis using that steps_views [OF one subset_refl r(3,4,5,1) refl] by metis
qed

lemma di_update_walk:
  assumes "di_room E B leds dis s"
  obtains s' where "FTE_DI_update E s = Some (FTE_RET_OK, s')" "keeps B (set dis \<union> set leds) s s'"
    "\<forall>p\<in>set dis. view s' p = map_option (di_update E (clock (dio s))) (view s p)"
proof -
  have one: "machine_steps E B leds (clock (dio s)) (di_update E (clock (dio s))) (di_update_object E) (set dis)"
    unfolding machine_steps_def
  proof (intro ballI allI impI)
    fix p s1 assume p: "p \<in> set dis" "dio_room E B leds s1" "clock (dio s1) = clock (dio s)"
    have q: "p \<in> B" "p \<notin> set leds" using assms p(1) by (auto simp: di_room_def)
    obtain v where v: "view s1 p = Some v" using board_view p(2) q(1) unfolding dio_room_def by blast
    obtain s2 where "di_update_object E p s1 = Some s2" "view s2 p = Some (di_update E (clock (dio s1)) v)"
      "keeps B ({p} \<union> set leds) s1 s2" by (rule di_update_step [OF p(2) q v])
    then show "machine_step B leds (di_update E (clock (dio s))) p s1 (di_update_object E p s1)"
      using p(3) v by (simp add: machine_step_def)
  qed
  show thesis by (rule walk_views [OF assms one], rule that) (simp_all add: FTE_DI_update_def)
qed

lemma timer_turn_walk:
  assumes "di_room E B leds dis s"
  obtains s' where "timer_turn E s = Some s'" "keeps B (set dis \<union> set leds) s s'"
    "\<forall>p\<in>set dis. view s' p = map_option (di_unlock E (clock (dio s))) (view s p)"
proof -
  have one: "machine_steps E B leds (clock (dio s)) (di_unlock E (clock (dio s)))
      (\<lambda>p s. map_option snd (di_unlock_object E p s)) (set dis)"
    unfolding machine_steps_def
  proof (intro ballI allI impI)
    fix p s1 assume p: "p \<in> set dis" "dio_room E B leds s1" "clock (dio s1) = clock (dio s)"
    have q: "p \<in> B" using assms p(1) by (auto simp: di_room_def)
    have b: "board B s1" using p(2) by (simp add: dio_room_def)
    obtain v where v: "view s1 p = Some v" using board_view [OF b q] by blast
    obtain s2 where s2: "di_unlock_object E p s1 = Some (FTE_RET_OK, s2)" "view s2 p = Some (di_unlock E (clock (dio s1)) v)"
      "keeps B {p} s1 s2" by (rule di_unlock_step [OF b q v])
    then show "machine_step B leds (di_unlock E (clock (dio s))) p s1 (map_option snd (di_unlock_object E p s1))"
      using keeps_lists(1) [OF s2(3), of "set leds"] v p(3) by (simp add: machine_step_def)
  qed
  show thesis by (rule walk_views [OF assms one], rule that) (simp_all add: timer_turn_def FTE_DI_INT_unlock_def)
qed

end
