(* ===== verification/FTE_DioSys.thy ===== *)
theory FTE_DioSys
  imports FTE_DioProps
begin

unbundle bit_operations_syntax

text \<open>
  The inputs of a board as a system of steps: levels change, the clock moves, interrupts
  are served, the timer task arms the pins and the management task takes values over.  The
  invariant says that an armed pin fires exactly where the input does not read as its
  preset value, so that no lasting change is missed; it gives that a steady level reaches
  the value of the object.  Inputs that share a port's interrupt are shown to freeze.  The
  outputs are shown to implement a table of values with pins that agree with it.
\<close>

section \<open>Steps\<close>

definition sense :: "'x dsys \<Rightarrow> 'x dsys" where
  "sense s = upd_dio (gpio_update (\<lambda>g. g\<lparr>regs := gpio_sense (regs g)\<rparr>)) s"

definition drive :: "nat \<Rightarrow> nat \<Rightarrow> bool \<Rightarrow> 'x dsys \<Rightarrow> 'x dsys" where
  "drive pt n b s = upd_dio (gpio_update (\<lambda>g. g\<lparr>regs := gpio_drive pt n b (regs g)\<rparr>)) s"

definition at_time :: "time_struct \<Rightarrow> 'x dsys \<Rightarrow> 'x dsys" where
  "at_time t s = upd_dio (clock_update (\<lambda>_. t)) s"

inductive di_step :: "'x dio_env \<Rightarrow> 'x dsys \<Rightarrow> 'x dsys \<Rightarrow> bool" for E where
  level: "n < 32 \<Longrightarrow> di_step E s (sense (drive pt n b s))"
| time: "di_step E s (at_time t s)"
| interrupt: "port_pending pt s \<Longrightarrow> port_interrupt E pt s = Some s' \<Longrightarrow> di_step E s (sense s')"
| timer: "timer_turn E s = Some s' \<Longrightarrow> di_step E s (sense s')"
| update: "FTE_DI_update E s = Some (r, s') \<Longrightarrow> di_step E s s'"

text \<open>The machine of an input under the environment's steps.\<close>

definition di_sense :: "io_view \<Rightarrow> io_view" where
  "di_sense v = (if level_fires (vPCR v) (vLevel v) then v\<lparr>vPCR := vPCR v OR PORT_PCR_ISF_MASK\<rparr> else v)"

definition di_drive :: "nat \<times> nat \<Rightarrow> bool \<Rightarrow> io_view \<Rightarrow> io_view" where
  "di_drive pin b v = (if vPin v = pin then v\<lparr>vLevel := b,
      vPCR := if edge_fires (vPCR v) (vLevel v) b then vPCR v OR PORT_PCR_ISF_MASK else vPCR v\<rparr> else v)"

lemma view_regs:
  assumes "view s p = Some v"
    "pcr_read (vHandle v) R' = c" "pin_level (vHandle v) R' = le" "pin_latch (vHandle v) R' = vLatch v" "pin_out (vHandle v) R' = vOut v"
  shows "view (upd_dio (gpio_update (\<lambda>g. g\<lparr>regs := R'\<rparr>)) s) p = Some (v\<lparr>vPCR := c, vLevel := le\<rparr>)"
  using assms by (simp add: view_some)

lemma sense_alt: "sense s = upd_dio (gpio_update (\<lambda>g. g\<lparr>regs := gpio_sense (regs (gpio (dio s)))\<rparr>)) s"
  by (simp add: sense_def upd_dio_def)

lemma drive_alt: "drive pt n b s = upd_dio (gpio_update (\<lambda>g. g\<lparr>regs := gpio_drive pt n b (regs (gpio (dio s)))\<rparr>)) s"
  by (simp add: drive_def upd_dio_def)

lemma view_sense:
  assumes "view s p = Some v"
  shows "view (sense s) p = Some (di_sense v)"
proof -
  let ?R = "regs (gpio (dio s))"
  have "pcr_read (vHandle v) (gpio_sense ?R) = (if level_fires (vPCR v) (vLevel v) then vPCR v OR PORT_PCR_ISF_MASK else vPCR v)"
    "pin_level (vHandle v) (gpio_sense ?R) = vLevel v" "pin_latch (vHandle v) (gpio_sense ?R) = vLatch v"
    "pin_out (vHandle v) (gpio_sense ?R) = vOut v"
    using assms by (simp_all add: view_some gpio_sense_def pcr_read_def pin_level_def pin_latch_def pin_out_def)
  then show ?thesis using view_regs [OF assms] by (simp add: sense_alt di_sense_def)
qed

lemma view_drive:
  assumes "view s p = Some v" "n < 32"
  shows "view (drive pt n b s) p = Some (di_drive (pt, n) b v)"
proof -
  let ?R = "regs (gpio (dio s))"
  have "pcr_read (vHandle v) (gpio_drive pt n b ?R) = vPCR (di_drive (pt, n) b v)"
    "pin_level (vHandle v) (gpio_drive pt n b ?R) = vLevel (di_drive (pt, n) b v)"
    "pin_latch (vHandle v) (gpio_drive pt n b ?R) = vLatch v" "pin_out (vHandle v) (gpio_drive pt n b ?R) = vOut v"
    using assms bit_one_pin(1) [unfolded push_bit_of_1] bit_one_pin(2) [OF assms(2), unfolded push_bit_of_1]
    by (simp_all add: view_some gpio_drive_def di_drive_def pcr_read_def pin_level_def pin_latch_def pin_out_def)
  then have "view (drive pt n b s) p = Some (v\<lparr>vPCR := vPCR (di_drive (pt, n) b v), vLevel := vLevel (di_drive (pt, n) b v)\<rparr>)"
    using view_regs [OF assms(1)] by (simp add: drive_alt)
  then show ?thesis by (simp add: di_drive_def)
qed

lemma view_time [simp]: "view (at_time t s) p = view s p"
  by (simp add: at_time_def view_def pGPIO_def xPresetValue_def)

section \<open>The invariant of an input\<close>

text \<open>An input is disarmed with its flag clear, or armed for exactly the levels at which it does
  not read as its preset value; where such a level lasts, its flag is set.\<close>

definition di_good :: "io_view \<Rightarrow> bool" where
  "di_good v \<longleftrightarrow> \<not> vOut v \<and> (xData (vPreset v) = 0 \<or> xData (vPreset v) = 1)
     \<and> (level_fires (vPCR v) (vLevel v) \<longrightarrow> bit (vPCR v) 24)
     \<and> (pcr_irqc (vPCR v) = 0 \<and> \<not> bit (vPCR v) 24
        \<or> (\<forall>b. level_fires (vPCR v) b \<longleftrightarrow> reading (v\<lparr>vLevel := b\<rparr>) \<noteq> xData (vPreset v)))"

text \<open>The same without the flag, as it holds between a handler and the pin's next look.\<close>

definition di_armed :: "io_view \<Rightarrow> bool" where
  "di_armed v \<longleftrightarrow> \<not> vOut v \<and> (xData (vPreset v) = 0 \<or> xData (vPreset v) = 1)
     \<and> (pcr_irqc (vPCR v) = 0 \<and> \<not> bit (vPCR v) 24
        \<or> (\<forall>b. level_fires (vPCR v) b \<longleftrightarrow> reading (v\<lparr>vLevel := b\<rparr>) \<noteq> xData (vPreset v)))"

lemma irqc_0_silent: "pcr_irqc w = 0 \<Longrightarrow> \<not> level_fires w b \<and> \<not> edge_fires w x y"
  by (simp add: level_fires_def edge_fires_def)

lemma fires_flag [simp]: "level_fires (w OR PORT_PCR_ISF_MASK) b = level_fires w b"
  by (simp add: level_fires_def irqc_simps)

lemma good_armed: "di_good v \<Longrightarrow> di_armed v"
  by (auto simp: di_good_def di_armed_def)

lemma good_flag: "di_good v \<Longrightarrow> reading v = xData (vPreset v) \<or> pcr_irqc (vPCR v) = 0 \<or> bit (vPCR v) 24"
proof -
  assume g: "di_good v"
  have "v\<lparr>vLevel := vLevel v\<rparr> = v" by simp
  then have "pcr_irqc (vPCR v) = 0 \<or> (level_fires (vPCR v) (vLevel v) \<longleftrightarrow> reading v \<noteq> xData (vPreset v))"
    using g unfolding di_good_def by metis
  then show ?thesis using g unfolding di_good_def by blast
qed

lemma reading_cong:
  "vOut w = vOut v \<Longrightarrow> vLatch w = vLatch v \<Longrightarrow> vLevel w = vLevel v \<Longrightarrow> lwConfig (vLwgpio w) = lwConfig (vLwgpio v)
   \<Longrightarrow> xFlags (oConfig (vObj w)) = xFlags (oConfig (vObj v)) \<Longrightarrow> reading w = reading v"
  by (simp add: reading_def active_def obj_flag_def)

lemma sense_good:
  assumes "di_armed v"
  shows "di_good (di_sense v)"
proof -
  have "reading (di_sense v\<lparr>vLevel := b\<rparr>) = reading (v\<lparr>vLevel := b\<rparr>)" for b
    by (rule reading_cong) (simp_all add: di_sense_def)
  then show ?thesis
    using assms irqc_0_silent [of "vPCR v" "vLevel v"]
    by (cases "level_fires (vPCR v) (vLevel v)") (auto simp: di_good_def di_armed_def di_sense_def flag_simps)
qed

lemma armed_not_edge: "di_armed v \<Longrightarrow> \<not> edge_fires (vPCR v) x y"
proof -
  assume a: "di_armed v"
  show ?thesis
  proof (cases "pcr_irqc (vPCR v) = 0")
    case False
    then have *: "level_fires (vPCR v) b \<longleftrightarrow> reading (v\<lparr>vLevel := b\<rparr>) \<noteq> xData (vPreset v)" for b
      using a by (auto simp: di_armed_def)
    have "reading (v\<lparr>vLevel := True\<rparr>) \<noteq> reading (v\<lparr>vLevel := False\<rparr>)"
      using a by (auto simp: di_armed_def reading_def active_def bool32_def)
    then have "level_fires (vPCR v) True \<or> level_fires (vPCR v) False" using * by metis
    then show ?thesis by (auto simp: level_fires_def edge_fires_def)
  qed (simp add: irqc_0_silent)
qed

lemma drive_armed:
  assumes "di_good v"
  shows "di_armed (di_drive pin b v)"
  using good_armed [OF assms] armed_not_edge [OF good_armed [OF assms]]
  by (auto simp: di_armed_def di_drive_def)

lemma isr_armed:
  assumes "di_armed v"
  shows "di_armed (di_isr now v)"
  using assms by (auto simp: di_armed_def di_isr_def FTE_VALUE_setDIO_def FTE_VALUE_setValid_def Let_def pcr_enable_facts
      reading_def bool32_def)

lemma arm_mode:
  assumes "\<not> vOut v" "xData (vPreset v) = 0 \<or> xData (vPreset v) = 1"
  shows "level_fires (vPCR (di_arm v)) b \<longleftrightarrow> reading (v\<lparr>vLevel := b\<rparr>) \<noteq> xData (vPreset v)"
proof -
  have irqc: "pcr_irqc (vPCR (di_arm v)) = pcr_irqc (hFlags (snd (lwgpio_int_init (di_mode v) (vHandle v))))"
    by (simp add: di_arm_def Let_def pcr_enable_facts)
  show ?thesis
    unfolding level_fires_def irqc using assms
    by (cases "di_mode v = LWGPIO_INT_MODE_HIGH")
      (auto simp: int_init_irqc di_mode_def reading_def active_def bool32_def split: if_splits)
qed

lemma unlock_armed:
  assumes "di_armed v"
  shows "di_armed (di_unlock E now v)"
proof (cases "sint (di_diff E now (xTimeStamp (vPreset v))) < 200")
  case False
  have v: "\<not> vOut v" "xData (vPreset v) = 0 \<or> xData (vPreset v) = 1" using assms by (auto simp: di_armed_def)
  have r: "reading (di_arm v\<lparr>vLevel := b\<rparr>) = reading (v\<lparr>vLevel := b\<rparr>)" for b
    by (rule reading_cong) (simp_all add: di_arm_def Let_def)
  have "vPreset (di_arm v) = vPreset v" "vOut (di_arm v) = vOut v" by (simp_all add: di_arm_def Let_def)
  then show ?thesis using False v arm_mode [OF v] r by (simp add: di_unlock_def di_armed_def)
qed (use assms in \<open>simp add: di_unlock_def\<close>)

lemma update_good: "di_good v \<Longrightarrow> di_good (di_update E now v)"
proof -
  assume g: "di_good v"
  have "reading (di_update E now v\<lparr>vLevel := b\<rparr>) = reading (v\<lparr>vLevel := b\<rparr>)" for b
    by (rule reading_cong) (simp_all add: di_update_def)
  moreover have "vPreset (di_update E now v) = vPreset v" "vOut (di_update E now v) = vOut v"
    "vPCR (di_update E now v) = vPCR v" "vLevel (di_update E now v) = vLevel v" by (simp_all add: di_update_def)
  ultimately show ?thesis using g by (simp add: di_good_def)
qed

section \<open>The invariant of the system\<close>

definition di_sys :: "'x dio_env \<Rightarrow> addr set \<Rightarrow> addr list \<Rightarrow> addr list \<Rightarrow> 'x dsys \<Rightarrow> bool" where
  "di_sys E B leds dis s \<longleftrightarrow> di_room E B leds dis s \<and> ran (isrTab (gpio (dio s))) \<subseteq> set dis
     \<and> (\<forall>p\<in>set dis. \<exists>v. view s p = Some v \<and> di_good v)"

text \<open>What the environment's steps keep.\<close>

lemma env_step_keeps:
  "keeps B A s (at_time t s) \<longleftrightarrow> clock (dio s) = t" "kern (at_time t s) = kern s" "kern (sense s) = kern s" "kern (drive pt n b s) = kern s"
  "isrTab (gpio (dio (at_time t s))) = isrTab (gpio (dio s))" "isrTab (gpio (dio (sense s))) = isrTab (gpio (dio s))"
  "isrTab (gpio (dio (drive pt n b s))) = isrTab (gpio (dio s))" "clock (dio (sense s)) = clock (dio s)"
  "irqOn (gpio (dio (at_time t s))) = irqOn (gpio (dio s))" "irqOn (gpio (dio (sense s))) = irqOn (gpio (dio s))"
  "clock (dio (drive pt n b s)) = clock (dio s)" "clock (dio (at_time t s)) = t"
  "objs (sense s) = objs s" "objs (at_time t s) = objs s"
  by (auto simp: at_time_def sense_def drive_def keeps_def view_time [unfolded at_time_def])

text \<open>A state whose views only moved within their identities has room, too.\<close>

lemma room_moved:
  assumes r: "di_room E B leds dis s" and k: "kern s' = kern s"
    and v: "\<And>p v. p \<in> B \<Longrightarrow> view s p = Some v \<Longrightarrow> \<exists>v'. view s' p = Some v' \<and> same_id v v'"
  shows "di_room E B leds dis s'"
proof -
  have b: "board B s" using r by (simp add: di_room_def dio_room_def)
  have "board B s'" unfolding board_def
  proof (intro conjI ballI impI)
    fix p assume p: "p \<in> B"
    obtain x x' where x: "view s p = Some x" "io_ok x" "view s' p = Some x'" "same_id x x'"
      using board_view [OF b p] v [OF p] by blast
    then show "\<exists>v. view s' p = Some v \<and> io_ok v" using same_id_ok by blast
    fix q assume q: "q \<in> B" "p \<noteq> q"
    obtain y y' where y: "view s q = Some y" "view s' q = Some y'" "same_id y y'"
      using board_view [OF b q(1)] v [OF q(1)] by blast
    show "apart (the (view s' p)) (the (view s' q))"
      using same_id_apart [OF x(4) y(3) board_apart [OF b p q x(1) y(1)]] x(3) y(2) by simp
  qed
  then show ?thesis using r items_kern [OF _ k] by (auto simp: di_room_def dio_room_def)
qed

lemma same_id_env: "same_id v (di_sense v)" "same_id v (di_drive pin b v)"
  by (auto simp: same_id_def di_sense_def di_drive_def)

lemma room_sense: "di_room E B leds dis s \<Longrightarrow> di_room E B leds dis (sense s)"
  by (rule room_moved [of E B leds dis s]) (auto simp: env_step_keeps view_sense same_id_env)

lemma room_drive: "di_room E B leds dis s \<Longrightarrow> n < 32 \<Longrightarrow> di_room E B leds dis (drive pt n b s)"
  by (rule room_moved [of E B leds dis s]) (auto simp: env_step_keeps view_drive same_id_env)

lemma room_time: "di_room E B leds dis s \<Longrightarrow> di_room E B leds dis (at_time t s)"
  by (rule room_moved [of E B leds dis s]) (auto simp: env_step_keeps)

lemma sys_view: "di_sys E B leds dis s \<Longrightarrow> p \<in> set dis \<Longrightarrow> \<exists>v. view s p = Some v \<and> di_good v"
  by (simp add: di_sys_def)

lemma sys_parts:
  assumes "di_sys E B leds dis s"
  shows "di_room E B leds dis s" "dio_room E B leds s" "board B s" "set dis \<subseteq> B" "NULL \<notin> set dis"
    "set dis \<inter> set leds = {}"
  using assms items_no_null by (auto simp: di_sys_def di_room_def dio_room_def)

text \<open>The served input notes its level, the others are left alone.\<close>

lemma interrupt_step:
  assumes "di_sys E B leds dis s" "isrTab (gpio (dio s)) pt = Some r"
  obtains s' v where "port_interrupt E pt s = Some s'" "r \<in> set dis" "view s r = Some v"
    "view s' r = Some (di_isr (clock (dio s)) v)" "keeps B {r} s s'"
proof -
  note P = sys_parts [OF assms(1)]
  have r: "r \<in> set dis" using assms by (auto simp: di_sys_def ran_def)
  then have rB: "r \<in> B" "r \<noteq> NULL" using P(4,5) by auto
  obtain v where v: "view s r = Some v" using sys_view [OF assms(1) r] by blast
  obtain s' where "di_isr_object r s = Some s'" "view s' r = Some (di_isr (clock (dio s)) v)" "keeps B {r} s s'"
    by (rule di_isr_step [OF P(3) rB(1) v])
  then show thesis using that [of s' v] r v rB(2) assms(2) by (simp add: port_interrupt_def FTE_DI_ISR_def)
qed

text \<open>A handler whose effect on every input keeps the armed form restores the invariant once
  the pins have been looked at.\<close>

lemma sys_after_handler:
  assumes sys: "di_sys E B leds dis s" and k: "keeps B A s s'"
    and v: "\<And>p v. p \<in> set dis \<Longrightarrow> view s p = Some v \<Longrightarrow> \<exists>v'. view s' p = Some v' \<and> di_armed v'"
  shows "di_sys E B leds dis (sense s')"
  unfolding di_sys_def
proof (intro conjI ballI)
  show "di_room E B leds dis (sense s')"
    using room_sense [OF di_room_keeps [OF sys_parts(1) [OF sys] k]] .
  show "ran (isrTab (gpio (dio (sense s')))) \<subseteq> set dis"
    using sys k by (simp add: di_sys_def env_step_keeps keeps_def)
  fix p assume p: "p \<in> set dis"
  then obtain w where "view s' p = Some w" "di_armed w" using v sys_view [OF sys] by blast
  then show "\<exists>v. view (sense s') p = Some v \<and> di_good v" using view_sense sense_good by blast
qed

lemma update_views:
  assumes "di_sys E B leds dis s" "FTE_DI_update E s = Some (r, s')"
  shows "keeps B (set dis \<union> set leds) s s'" "p \<in> set dis \<Longrightarrow> view s' p = map_option (di_update E (clock (dio s))) (view s p)"
proof -
  obtain s1 where "FTE_DI_update E s = Some (FTE_RET_OK, s1)" "keeps B (set dis \<union> set leds) s s1"
    "\<forall>p\<in>set dis. view s1 p = map_option (di_update E (clock (dio s))) (view s p)"
    by (rule di_update_walk [OF sys_parts(1) [OF assms(1)]])
  then show "keeps B (set dis \<union> set leds) s s'" "p \<in> set dis \<Longrightarrow> view s' p = map_option (di_update E (clock (dio s))) (view s p)"
    using assms(2) by simp_all
qed

lemma timer_views:
  assumes "di_sys E B leds dis s" "timer_turn E s = Some s'"
  shows "keeps B (set dis \<union> set leds) s s'" "p \<in> set dis \<Longrightarrow> view s' p = map_option (di_unlock E (clock (dio s))) (view s p)"
proof -
  obtain s1 where "timer_turn E s = Some s1" "keeps B (set dis \<union> set leds) s s1"
    "\<forall>p\<in>set dis. view s1 p = map_option (di_unlock E (clock (dio s))) (view s p)"
    by (rule timer_turn_walk [OF sys_parts(1) [OF assms(1)]])
  then show "keeps B (set dis \<union> set leds) s s'" "p \<in> set dis \<Longrightarrow> view s' p = map_option (di_unlock E (clock (dio s))) (view s p)"
    using assms(2) by simp_all
qed

inductive_cases di_stepE: "di_step E s s'"

lemma di_step_sys:
  assumes "di_step E s s'" "di_sys E B leds dis s"
  shows "di_sys E B leds dis s'"
  using assms
proof cases
  case (level n pt b)
  have "di_room E B leds dis s'" unfolding level by (rule room_sense [OF room_drive [OF sys_parts(1) [OF assms(2)] level(2)]])
  moreover have "\<exists>v. view s' p = Some v \<and> di_good v" if "p \<in> set dis" for p
    using sys_view [OF assms(2) that] view_sense view_drive [OF _ level(2)] sense_good drive_armed unfolding level by metis
  ultimately show ?thesis using assms(2) by (simp add: di_sys_def level env_step_keeps)
next
  case (time t)
  then show ?thesis using assms(2) room_time by (auto simp: di_sys_def env_step_keeps)
next
  case (interrupt pt s1)
  obtain r where r: "isrTab (gpio (dio s)) pt = Some r" using interrupt by (auto simp: port_interrupt_def split: option.splits)
  obtain v where v: "r \<in> set dis" "view s r = Some v" "view s1 r = Some (di_isr (clock (dio s)) v)" "keeps B {r} s s1"
    using interrupt_step [OF assms(2) r] interrupt(3) by (metis option.inject)
  show ?thesis unfolding interrupt(1)
  proof (rule sys_after_handler [OF assms(2) v(4)])
    fix p w assume p: "p \<in> set dis" "view s p = Some w"
    then have w: "di_good w" using sys_view [OF assms(2)] by fastforce
    show "\<exists>v'. view s1 p = Some v' \<and> di_armed v'"
    proof (cases "p = r")
      case True
      then show ?thesis using v(2,3) p(2) isr_armed [OF good_armed [OF w]] by auto
    next
      case False
      then have "view s1 p = view s p" using keeps_other [OF v(4)] p(1) sys_parts(4) [OF assms(2)] by auto
      then show ?thesis using p(2) good_armed [OF w] by simp
    qed
  qed
next
  case (timer s1)
  show ?thesis unfolding timer(1)
  proof (rule sys_after_handler [OF assms(2) timer_views(1) [OF assms(2) timer(2)]])
    fix p w assume p: "p \<in> set dis" "view s p = Some w"
    then have "di_good w" using sys_view [OF assms(2)] by fastforce
    then show "\<exists>v'. view s1 p = Some v' \<and> di_armed v'"
      using timer_views(2) [OF assms(2) timer(2) p(1)] p(2) unlock_armed good_armed by auto
  qed
next
  case (update r)
  note k = update_views(1) [OF assms(2) update]
  have "\<exists>v. view s' p = Some v \<and> di_good v" if "p \<in> set dis" for p
    using update_views(2) [OF assms(2) update that] sys_view [OF assms(2) that] update_good by auto
  then show ?thesis using assms(2) di_room_keeps [OF _ k] k by (auto simp: di_sys_def keeps_def)
qed

lemma di_steps_sys:
  assumes "(di_step E)\<^sup>*\<^sup>* s s'" "di_sys E B leds dis s"
  shows "di_sys E B leds dis s'"
  using assms by (induction rule: rtranclp_induct) (auto intro: di_step_sys)

section \<open>A steady level is reported\<close>

text \<open>A turn of the timer task at \<open>t1\<close>, the interrupt at \<open>t2\<close> where there is one, and a turn of the
  management task at \<open>t3\<close>, the levels staying as they are.\<close>

definition di_settle :: "'x dio_env \<Rightarrow> nat \<Rightarrow> time_struct \<Rightarrow> time_struct \<Rightarrow> time_struct \<Rightarrow> 'x dsys \<Rightarrow> 'x dsys option" where
  "di_settle E pt t1 t2 t3 s = do {
     s \<leftarrow> map_option sense (timer_turn E (at_time t1 s));
     s \<leftarrow> (if port_pending pt s then map_option sense (port_interrupt E pt (at_time t2 s)) else Some s);
     (_, s) \<leftarrow> FTE_DI_update E (at_time t3 s);
     Some s
   }"

lemma pending_time [simp]: "port_pending pt (at_time t s) = port_pending pt s"
  by (simp add: port_pending_def at_time_def)

lemma flag_pending:
  assumes "view s p = Some v" "io_ok v" "bit (vPCR v) 24" "irqOn (gpio (dio s)) (hPort (vHandle v))"
  shows "port_pending (hPort (vHandle v)) s"
  using assms by (auto simp: port_pending_def view_some pcr_read_def io_ok_def handle_ok_def)

lemma di_settle_steps:
  assumes "di_settle E pt t1 t2 t3 s = Some s'"
  shows "(di_step E)\<^sup>*\<^sup>* s s'"
proof -
  obtain s1 where 1: "timer_turn E (at_time t1 s) = Some s1"
    using assms by (auto simp: di_settle_def opt_simps)
  have p1: "(di_step E)\<^sup>*\<^sup>* s (sense s1)"
    using di_step.time di_step.timer [OF 1] by (meson converse_rtranclp_into_rtranclp rtranclp.rtrancl_refl)
  obtain s2 where 2: "(di_step E)\<^sup>*\<^sup>* (sense s1) s2" "\<exists>r. FTE_DI_update E (at_time t3 s2) = Some (r, s')"
  proof (cases "port_pending pt (sense s1)")
    case False
    then show thesis using that [of "sense s1"] assms 1 by (auto simp: di_settle_def opt_simps)
  next
    case True
    then obtain s2 where s2: "port_interrupt E pt (at_time t2 (sense s1)) = Some s2"
      "\<exists>r. FTE_DI_update E (at_time t3 (sense s2)) = Some (r, s')"
      using assms 1 by (auto simp: di_settle_def opt_simps)
    have "di_step E (at_time t2 (sense s1)) (sense s2)" using True s2(1) by (intro di_step.interrupt) simp_all
    then show thesis using that [of "sense s2"] s2(2) di_step.time
      by (meson converse_rtranclp_into_rtranclp rtranclp.rtrancl_refl)
  qed
  have "(di_step E)\<^sup>*\<^sup>* s2 s'"
    using 2(2) di_step.time di_step.update by (meson converse_rtranclp_into_rtranclp rtranclp.rtrancl_refl)
  then show ?thesis using p1 2(1) by (meson rtranclp_trans)
qed

text \<open>What the handlers leave of an input besides the preset value, the arming and the value.\<close>

definition same_in :: "io_view \<Rightarrow> io_view \<Rightarrow> bool" where
  "same_in v w \<longleftrightarrow> same_id v w \<and> vOut w = vOut v \<and> vLatch w = vLatch v \<and> vLevel w = vLevel v \<and> vConfig w = vConfig v"

lemma same_in_reading: "same_in v w \<Longrightarrow> reading w = reading v"
  by (auto simp: same_in_def same_id_def intro: reading_cong)

lemma same_in_trans: "same_in u v \<Longrightarrow> same_in v w \<Longrightarrow> same_in u w"
  unfolding same_in_def by (auto intro: same_id_trans)

lemma same_in_handlers:
  "same_in v (di_sense v)" "same_in v (di_isr now v)" "same_in v (di_unlock E now v)" "same_in v (di_update E now v)"
  by (auto simp: same_in_def same_id_def di_sense_def di_isr_def di_unlock_def di_arm_def Let_def int_init_handle di_update_def)

lemma handlers_keep [simp]:
  "vObj (di_sense v) = vObj v" "vObj (di_isr now v) = vObj v" "vObj (di_unlock E now v) = vObj v"
  "vPreset (di_sense v) = vPreset v" "vPreset (di_unlock E now v) = vPreset v" "vPreset (di_update E now v) = vPreset v"
  by (simp_all add: di_sense_def di_isr_def di_unlock_def di_arm_def Let_def di_update_def)

lemma armed_flag:
  assumes "di_armed v" "\<not> sint (di_diff E now (xTimeStamp (vPreset v))) < 200"
  shows "bit (vPCR (di_sense (di_unlock E now v))) 24 \<longleftrightarrow> reading v \<noteq> xData (vPreset v)"
proof -
  have v: "\<not> vOut v" "xData (vPreset v) = 0 \<or> xData (vPreset v) = 1" using assms by (auto simp: di_armed_def)
  have "reading (v\<lparr>vLevel := vLevel v\<rparr>) = reading v" by simp
  moreover have "vLevel (di_arm v) = vLevel v" "\<not> bit (vPCR (di_arm v)) 24"
    by (simp_all add: di_arm_def Let_def pcr_enable_facts)
  ultimately show ?thesis
    using arm_mode [OF v, of "vLevel v"] assms(2) by (auto simp: di_unlock_def di_sense_def flag_simps)
qed

lemma settle_value:
  assumes "xData (vPreset w) = reading v" "xData (vValue w) = reading v \<or> di_due E (vConfig w) now (vPreset w) (vValue w)"
    "oValues (vObj w) \<noteq> []"
  shows "xData (vValue (di_update E now w)) = reading v"
  using assms by (cases "oValues (vObj w)") (auto simp: di_update_def vValue_def)

lemma sys_time: "di_sys E B leds dis s \<Longrightarrow> di_sys E B leds dis (at_time t s)"
  using di_step_sys [OF di_step.time] .

text \<open>After the interrupt, if there is one, the preset value is what the pin reads.\<close>

lemma settle_preset:
  assumes sys: "di_sys E B leds dis s" and p: "p \<in> set dis" "view s p = Some v"
    and isr: "isrTab (gpio (dio s)) (hPort (vHandle v)) = Some p" "irqOn (gpio (dio s)) (hPort (vHandle v))"
    and en: "obj_flag (vObj v) FTE_OBJ_CONFIG_FLAG_ENABLE"
    and t1: "\<not> sint (di_diff E t1 (xTimeStamp (vPreset v))) < 200"
  obtains s2 w where "di_sys E B leds dis s2" "view s2 p = Some w" "same_in v w" "vObj w = vObj v"
    "xData (vPreset w) = reading v" "vPreset w \<in> {vPreset v, snd (FTE_VALUE_setDIO t2 (reading v) (vPreset v))}"
    "di_settle E (hPort (vHandle v)) t1 t2 t3 s = do { (_, s) \<leftarrow> FTE_DI_update E (at_time t3 s2); Some s }"
proof -
  let ?pt = "hPort (vHandle v)" and ?v1 = "di_sense (di_unlock E t1 v)"
  have g: "di_armed v" using sys_view [OF sys p(1)] p(2) good_armed by fastforce
  note sysT = sys_time [OF sys, of t1]
  obtain s1 where s1: "timer_turn E (at_time t1 s) = Some s1"
    using timer_turn_walk [OF sys_parts(1) [OF sysT]] by blast
  have k1: "keeps B (set dis \<union> set leds) (at_time t1 s) s1" using timer_views(1) [OF sysT s1] .
  have v1: "view (sense s1) p = Some ?v1"
    using timer_views(2) [OF sysT s1 p(1)] p(2) view_sense by (simp add: env_step_keeps)
  have sys1: "di_sys E B leds dis (sense s1)" by (rule di_step_sys [OF di_step.timer [OF s1] sysT])
  have tab: "isrTab (gpio (dio (sense s1))) ?pt = Some p" "irqOn (gpio (dio (sense s1))) ?pt"
    using k1 isr by (simp_all add: keeps_def env_step_keeps)
  have sv1: "same_in v ?v1" "vObj ?v1 = vObj v" "vPreset ?v1 = vPreset v"
    by (rule same_in_trans [OF same_in_handlers(3) same_in_handlers(1)]) simp_all
  have pt1: "hPort (vHandle ?v1) = ?pt" using sv1(1) by (simp add: same_in_def same_id_def)
  have io: "io_ok ?v1" using board_view [OF sys_parts(3) [OF sys1]] sys_parts(4) [OF sys] p(1) v1 by fastforce
  note flag = armed_flag [OF g t1]
  show thesis
  proof (cases "port_pending ?pt (sense s1)")
    case False
    then have "\<not> bit (vPCR ?v1) 24" using flag_pending [OF v1 io] tab(2) pt1 by auto
    then have "xData (vPreset v) = reading v" using flag by simp
    then show thesis
      using that [OF sys1 v1 sv1(1,2)] False s1 sv1(3) by (simp add: di_settle_def)
  next
    case True
    let ?s1 = "at_time t2 (sense s1)"
    note sysI = sys_time [OF sys1, of t2]
    obtain s2 v2 where s2: "port_interrupt E ?pt ?s1 = Some s2" "view ?s1 p = Some v2"
      "view s2 p = Some (di_isr (clock (dio ?s1)) v2)"
      using interrupt_step [OF sysI, of ?pt p] tab(1) by (metis env_step_keeps(5))
    have v2: "v2 = ?v1" "clock (dio ?s1) = t2" using s2(2) v1 by (simp_all add: env_step_keeps)
    let ?v3 = "di_isr t2 ?v1"
    have v3: "view (sense s2) p = Some (di_sense ?v3)" using s2(3) v2 view_sense by simp
    have sys2: "di_sys E B leds dis (sense s2)"
      by (rule di_step_sys [OF di_step.interrupt [OF _ s2(1)] sysI]) (use True in simp)
    have s3: "same_in v (di_sense ?v3)" "vObj (di_sense ?v3) = vObj v"
      by (rule same_in_trans [OF sv1(1) same_in_trans [OF same_in_handlers(2) same_in_handlers(1)]]) (simp add: sv1(2))
    have r1: "reading ?v1 = reading v" using same_in_reading [OF sv1(1)] .
    have pre: "vPreset ?v3 = (if bit (vPCR ?v1) 24 then snd (FTE_VALUE_setDIO t2 (reading v) (vPreset v)) else vPreset v)"
      using en sv1(2,3) r1 by (simp add: di_isr_def)
    have "xData (vPreset (di_sense ?v3)) = reading v"
      using flag by (simp add: pre [simplified] FTE_VALUE_setDIO_def FTE_VALUE_setValid_def Let_def)
    then show thesis
      using that [OF sys2 v3 s3] True s1 s2(1) pre by (auto simp: di_settle_def)
  qed
qed

lemma di_settles:
  assumes sys: "di_sys E B leds dis s" and p: "p \<in> set dis" "view s p = Some v"
    and isr: "isrTab (gpio (dio s)) (hPort (vHandle v)) = Some p" "irqOn (gpio (dio s)) (hPort (vHandle v))"
    and en: "obj_flag (vObj v) FTE_OBJ_CONFIG_FLAG_ENABLE"
    and t1: "\<not> sint (di_diff E t1 (xTimeStamp (vPreset v))) < 200"
    and due: "\<And>w. w \<in> {vPreset v, snd (FTE_VALUE_setDIO t2 (reading v) (vPreset v))} \<Longrightarrow> di_due E (vConfig v) t3 w (vValue v)"
  shows "\<exists>s' x. di_settle E (hPort (vHandle v)) t1 t2 t3 s = Some s' \<and> FTE_OBJ_getValue p s' = Some (FTE_RET_OK, x)
    \<and> di_read (vObj v) s = Some (FTE_RET_OK, Some (xData x))"
proof -
  obtain s2 w where 2: "di_sys E B leds dis s2" "view s2 p = Some w" "same_in v w" "vObj w = vObj v"
    "xData (vPreset w) = reading v" "vPreset w \<in> {vPreset v, snd (FTE_VALUE_setDIO t2 (reading v) (vPreset v))}"
    "di_settle E (hPort (vHandle v)) t1 t2 t3 s = do { (_, s) \<leftarrow> FTE_DI_update E (at_time t3 s2); Some s }"
    by (rule settle_preset [OF sys p isr en t1, where ?t2.0 = t2 and ?t3.0 = t3])
  note sysT = sys_time [OF 2(1), of t3]
  obtain s3 where s3: "FTE_DI_update E (at_time t3 s2) = Some (FTE_RET_OK, s3)"
    using di_update_walk [OF sys_parts(1) [OF sysT]] by blast
  have v3: "view s3 p = Some (di_update E t3 w)"
    using update_views(2) [OF sysT s3 p(1)] 2(2) by (simp add: env_step_keeps)
  have io: "io_ok w" "io_ok v"
    using board_view [OF sys_parts(3) [OF 2(1)]] board_view [OF sys_parts(3) [OF sys]] sys_parts(4) [OF sys] p 2(2) by fastforce+
  have io3: "io_ok (di_update E t3 w)"
    using same_id_ok [OF _ io(1)] same_in_handlers(4) [of w E t3] by (auto simp: same_in_def)
  have "di_due E (vConfig w) t3 (vPreset w) (vValue w)" using due [OF 2(6)] 2(4) by (simp add: vValue_def)
  then have "xData (vValue (di_update E t3 w)) = reading v"
    using io(1) 2(5) by (intro settle_value) (auto simp: io_ok_def)
  then show ?thesis
    using 2(7) s3 view_obj [OF v3] obj_value_view [OF io3] getValue_view(2) [OF p(2) io(2)]
    by (simp add: FTE_OBJ_getValue_def)
qed


section \<open>Inputs that share a port\<close>

lemma view_gpio_parts:
  assumes "regs (f g) = regs g" "lwgpios (f g) = lwgpios g" "gpios (f g) = gpios g" "g = gpio (dio s)"
  shows "view (upd_dio (gpio_update f) s) p = view s p"
  using assms by (simp add: view_def pGPIO_def xPresetValue_def)

lemma board_views: "board B s \<Longrightarrow> (\<And>p. p \<in> B \<Longrightarrow> view s' p = view s p) \<Longrightarrow> board B s'"
  by (simp add: board_def)

text \<open>Starting an input: its port's interrupt goes to it, and it is armed when it may be.\<close>

lemma DI_run_step:
  assumes b: "board B s" "p \<in> B" "p \<noteq> NULL" "view s p = Some v"
  obtains s' where "FTE_DI_run E p s = Some (FTE_RET_OK, s')" "view s' p = Some (di_unlock E (clock (dio s)) v)"
    "isrTab (gpio (dio s')) = (isrTab (gpio (dio s)))(hPort (vHandle v) \<mapsto> p)" "kern s' = kern s"
    "\<forall>q\<in>B. q \<noteq> p \<longrightarrow> view s' q = view s q"
proof -
  obtain x where x: "gpios (gpio (dio s)) (pGPIO (vObj v) s) = Some x" "is_lwgpio x" "pPort x = vLw v"
    "lwgpios (gpio (dio s)) (vLw v) = Some (vLwgpio v)" by (rule view_gpio [OF b(4)])
  have vec: "lwgpio_int_get_vector (vHandle v) = hPort (vHandle v)"
    using board_view [OF b(1,2)] b(4) by (auto simp: io_ok_def handle_ok_def)
  define g where "g = (gpio (dio s))\<lparr>isrTab := (isrTab (gpio (dio s)))(hPort (vHandle v) \<mapsto> p),
    irqOn := (irqOn (gpio (dio s)))(hPort (vHandle v) := True)\<rparr>"
  define s1 where "s1 = upd_dio (gpio_update (\<lambda>_. g)) s"
  have views: "view s1 q = view s q" for q unfolding s1_def by (rule view_gpio_parts) (simp_all add: g_def)
  have b1: "board B s1" using board_views [OF b(1) views] .
  obtain s2 where s2: "di_unlock_object E p s1 = Some (FTE_RET_OK, s2)" "view s2 p = Some (di_unlock E (clock (dio s1)) v)"
    "keeps B {p} s1 s2" by (rule di_unlock_step [OF b1 b(2)]) (use b(4) views in auto)
  show thesis
  proof (rule that [of s2])
    show "FTE_DI_run E p s = Some (FTE_RET_OK, s2)"
      using s2(1) x b(3) vec view_obj [OF b(4)]
      by (simp add: FTE_DI_run_def gpio_do_def FTE_GPIO_setISR_def FTE_GPIO_INT_init_def gpio_port_call_def
          FTE_LWGPIO_setISR_def FTE_LWGPIO_INT_init_def FTE_DI_INT_unlock_def pGPIO_def s1_def g_def upd_dio_def)
    show "view s2 p = Some (di_unlock E (clock (dio s)) v)" using s2(2) by (simp add: s1_def)
    show "isrTab (gpio (dio s2)) = (isrTab (gpio (dio s)))(hPort (vHandle v) \<mapsto> p)" "kern s2 = kern s"
      using s2(3) by (simp_all add: keeps_def s1_def g_def)
    show "\<forall>q\<in>B. q \<noteq> p \<longrightarrow> view s2 q = view s q" using keeps_other [OF s2(3)] views by simp
  qed
qed

lemma DI_run_sys:
  assumes sys: "di_sys E B leds dis s" and p: "p \<in> set dis" "view s p = Some v"
    and run: "FTE_DI_run E p s = Some (r, s')"
  shows "r = FTE_RET_OK" "di_sys E B leds dis (sense s')"
    "isrTab (gpio (dio s')) = (isrTab (gpio (dio s)))(hPort (vHandle v) \<mapsto> p)"
    "view s' p = Some (di_unlock E (clock (dio s)) v)" "q \<in> set dis \<Longrightarrow> q \<noteq> p \<Longrightarrow> view s' q = view s q"
proof -
  note P = sys_parts [OF sys]
  have pB: "p \<in> B" "p \<noteq> NULL" using p P by auto
  obtain s1 where s1: "FTE_DI_run E p s = Some (FTE_RET_OK, s1)" "view s1 p = Some (di_unlock E (clock (dio s)) v)"
    "isrTab (gpio (dio s1)) = (isrTab (gpio (dio s)))(hPort (vHandle v) \<mapsto> p)" "kern s1 = kern s"
    "\<forall>q\<in>B. q \<noteq> p \<longrightarrow> view s1 q = view s q" by (rule DI_run_step [OF P(3) pB p(2)])
  then show "r = FTE_RET_OK" "view s' p = Some (di_unlock E (clock (dio s)) v)"
    "isrTab (gpio (dio s')) = (isrTab (gpio (dio s)))(hPort (vHandle v) \<mapsto> p)" using run by simp_all
  have e: "s' = s1" using run s1(1) by simp
  show "q \<in> set dis \<Longrightarrow> q \<noteq> p \<Longrightarrow> view s' q = view s q" using s1(5) e P(4) by blast
  have "di_room E B leds dis s1"
  proof (rule room_moved [OF P(1) s1(4)])
    fix q w assume q: "q \<in> B" "view s q = Some w"
    show "\<exists>v'. view s1 q = Some v' \<and> same_id w v'"
      using s1(2,5) q p(2) same_in_handlers(3) [of v E "clock (dio s)"] by (cases "q = p") (auto simp: same_in_def)
  qed
  then have room: "di_room E B leds dis (sense s')" using room_sense e by blast
  have good: "\<exists>v. view (sense s') q = Some v \<and> di_good v" if q: "q \<in> set dis" for q
  proof -
    obtain w where w: "view s q = Some w" "di_good w" using sys_view [OF sys q] by blast
    have "\<exists>w'. view s' q = Some w' \<and> di_armed w'"
      using s1(2,5) e w p(2) q P(4) unlock_armed [OF good_armed] good_armed [OF w(2)] by (cases "q = p") auto
    then show ?thesis using view_sense sense_good by blast
  qed
  have "ran (isrTab (gpio (dio s'))) \<subseteq> set dis" using s1(3) e sys p(1) by (auto simp: di_sys_def ran_def)
  then show "di_sys E B leds dis (sense s')" using room good by (simp add: di_sys_def env_step_keeps)
qed

text \<open>An input whose port's interrupt goes elsewhere.\<close>

definition di_frozen :: "addr \<Rightarrow> u32 \<Rightarrow> 'x dsys \<Rightarrow> bool" where
  "di_frozen p x s \<longleftrightarrow> p \<notin> ran (isrTab (gpio (dio s)))
     \<and> (\<exists>v. view s p = Some v \<and> xData (vPreset v) = x \<and> xData (vValue v) = x \<and> oValues (vObj v) \<noteq> [])"

lemma frozen_view:
  assumes "di_frozen p x s" "isrTab (gpio (dio s')) = isrTab (gpio (dio s))"
    "\<And>v. view s p = Some v \<Longrightarrow> \<exists>w. view s' p = Some w \<and> xData (vPreset w) = xData (vPreset v)
       \<and> (oValues (vObj v) \<noteq> [] \<longrightarrow> xData (vPreset v) = xData (vValue v) \<longrightarrow> oValues (vObj w) \<noteq> [] \<and> xData (vValue w) = xData (vValue v))"
  shows "di_frozen p x s'"
  using assms unfolding di_frozen_def by fastforce

lemma update_frozen:
  "xData (vPreset v) = xData (vValue v) \<Longrightarrow> oValues (vObj v) \<noteq> [] \<Longrightarrow>
   oValues (vObj (di_update E now v)) \<noteq> [] \<and> xData (vValue (di_update E now v)) = xData (vValue v)"
  by (cases "oValues (vObj v)") (auto simp: di_update_def vValue_def)

lemma frozen_step:
  assumes "di_step E s s'" "di_sys E B leds dis s" "p \<in> set dis" "di_frozen p x s"
  shows "di_frozen p x s'"
  using assms(1)
proof cases
  case (level n pt b)
  have "\<exists>w. view s' p = Some w \<and> vPreset w = vPreset v \<and> vObj w = vObj v" if "view s p = Some v" for v
    using view_sense [OF view_drive [OF that level(2), of pt b]] unfolding level(1) by (auto simp: di_drive_def)
  then show ?thesis
    by (intro frozen_view [OF assms(4)]) (auto simp: level(1) env_step_keeps vValue_def)
next
  case (time t)
  then show ?thesis by (intro frozen_view [OF assms(4)]) (auto simp: env_step_keeps)
next
  case (interrupt pt s1)
  obtain r where r: "isrTab (gpio (dio s)) pt = Some r" using interrupt by (auto simp: port_interrupt_def split: option.splits)
  obtain v where v: "keeps B {r} s s1"
    using interrupt_step [OF assms(2) r] interrupt(3) by (metis option.inject)
  have "r \<noteq> p" using assms(4) r by (auto simp: di_frozen_def ran_def)
  then have "view s1 p = view s p" using keeps_other [OF v] sys_parts(4) [OF assms(2)] assms(3) by auto
  then have "\<exists>w. view s' p = Some w \<and> vPreset w = vPreset v \<and> vObj w = vObj v" if "view s p = Some v" for v
    using view_sense [of s1 p v] that unfolding interrupt(1) by auto
  then show ?thesis using v
    by (intro frozen_view [OF assms(4)]) (auto simp: interrupt(1) env_step_keeps vValue_def keeps_def)
next
  case (timer s1)
  have "\<exists>w. view s' p = Some w \<and> vPreset w = vPreset v \<and> vObj w = vObj v" if "view s p = Some v" for v
    using timer_views(2) [OF assms(2) timer(2) assms(3)] view_sense [of s1 p] that unfolding timer(1) by auto
  then show ?thesis using timer_views(1) [OF assms(2) timer(2)]
    by (intro frozen_view [OF assms(4)]) (auto simp: timer(1) env_step_keeps vValue_def keeps_def)
next
  case (update r)
  show ?thesis using update_views(1) [OF assms(2) update] update_views(2) [OF assms(2) update assms(3)]
    by (intro frozen_view [OF assms(4)]) (auto simp: keeps_def update_frozen)
qed

lemma frozen_steps:
  assumes "(di_step E)\<^sup>*\<^sup>* s s'" "di_sys E B leds dis s" "p \<in> set dis" "di_frozen p x s"
  shows "di_frozen p x s'"
  using assms by (induction rule: rtranclp_induct) (auto intro: frozen_step di_steps_sys)


section \<open>A board\<close>

text \<open>Two inputs on the pins 24 and 25 of port E, active high, and an output on pin 5 of port C.
  The inputs have not been armed yet, and the first one's level has risen since; the output is
  off.\<close>

definition dio_object :: "addr \<Rightarrow> u32 \<Rightarrow> u32 \<Rightarrow> fte_value \<Rightarrow> fte_object" where
  "dio_object st i g v = fte_object_zero\<lparr>pStatusP := st, oConfig := object_zero\<lparr>nID := i, xFlags := 1, nDevID := g\<rparr>, oValues := [v]\<rparr>"

definition dio_lwgpio :: "u32 \<Rightarrow> nat \<Rightarrow> nat \<Rightarrow> lwgpio_dir \<Rightarrow> u32 \<Rightarrow> fte_lwgpio" where
  "dio_lwgpio i pt n d dirflag = \<lparr>lwConfig = \<lparr>lwID = i, nLWGPIO = of_nat (32 * pt + n), nMUX = 1, lwDIR = d,
       lwInit = LWGPIO_VALUE_LOW, nActive = LWGPIO_VALUE_HIGH, nInactive = LWGPIO_VALUE_LOW\<rparr>, lwParent = i,
     xLWGPIO = \<lparr>hPort = pt, hPin = n, pinmask = push_bit n 1, hFlags = of_nat (32 * pt + n) OR dirflag\<rparr>\<rparr>"

definition dio_gpio :: "u32 \<Rightarrow> u32 \<Rightarrow> gpio_dir \<Rightarrow> addr \<Rightarrow> fte_gpio" where
  "dio_gpio i devid d p = \<lparr>gpConfig = \<lparr>gpID = i, gpDevID = devid, gpDIR = d, gpInit = FTE_GPIO_VALUE_LOW,
     gpActive = FTE_GPIO_VALUE_HIGH\<rparr>, gpParent = i, pPort = p\<rparr>"

definition dio_value :: "u32 \<Rightarrow> fte_value" where
  "dio_value x = snd (FTE_VALUE_setDIO (at_second 0) x value_zero)"

definition dio_demo :: "(nat \<rightharpoonup> addr) \<Rightarrow> unit dsys" where
  "dio_demo isr = \<lparr>pool = [], live = {0x8, 0x10, 0x18, 0x20, 0x28, 0x30, 0x38, 0x40, 0x48},
     nodes = [0x8 \<mapsto> \<lparr>pPrev = 0x18, pNext = 0x10, pItem = 0, nReserved = 0\<rparr>,
              0x10 \<mapsto> \<lparr>pPrev = 0x8, pNext = 0x18, pItem = 0x1000, nReserved = 0\<rparr>,
              0x18 \<mapsto> \<lparr>pPrev = 0x10, pNext = 0x8, pItem = 0x2000, nReserved = 0\<rparr>,
              0x28 \<mapsto> \<lparr>pPrev = 0x30, pNext = 0x30, pItem = 0, nReserved = 0\<rparr>,
              0x30 \<mapsto> \<lparr>pPrev = 0x28, pNext = 0x28, pItem = 0x3000, nReserved = 0\<rparr>,
              0x40 \<mapsto> \<lparr>pPrev = 0x40, pNext = 0x40, pItem = 0, nReserved = 0\<rparr>],
     lists = [0x100 \<mapsto> \<lparr>nCount = 2, pHead = 0x8, pLockKey = 0x20\<rparr>,
              0x200 \<mapsto> \<lparr>nCount = 1, pHead = 0x28, pLockKey = 0x38\<rparr>,
              0x300 \<mapsto> \<lparr>nCount = 0, pHead = 0x40, pLockKey = 0x48\<rparr>],
     sems = [0x20 \<mapsto> 1, 0x38 \<mapsto> 1, 0x48 \<mapsto> 1], unstable = False,
     objs = [0x1000 \<mapsto> dio_object 0x1080 0x06010001 1 (dio_value 0), 0x2000 \<mapsto> dio_object 0x2080 0x06010002 2 (dio_value 0),
             0x3000 \<mapsto> dio_object 0x3080 0x07010001 3 (dio_value 0)],
     cfg = cfg reg_demo,
     dev = \<lparr>events = Map.empty, pListLockKey = NULL, evLog = log_demo, evMore =
       \<lparr>gpio = \<lparr>regs = (\<lambda>pt. \<lparr>PDOR = 0, PDDR = (if pt = 2 then 0x20 else 0), PDIR = (if pt = 4 then 0x1000000 else 0),
              PCR = (\<lambda>n. 0x100)\<rparr>),
            irqOn = (\<lambda>pt. pt = 4), isrTab = isr,
            lwgpios = [0x6000 \<mapsto> dio_lwgpio 0x10001 4 24 LWGPIO_DIR_INPUT LWGPIO_DIR_MASK,
              0x6100 \<mapsto> dio_lwgpio 0x10002 4 25 LWGPIO_DIR_INPUT LWGPIO_DIR_MASK,
              0x6200 \<mapsto> dio_lwgpio 0x10003 2 5 LWGPIO_DIR_OUTPUT 0],
            lwChain = [0x6000, 0x6100, 0x6200], nLWGPIOs = 3,
            gpios = [0x5000 \<mapsto> dio_gpio 1 0x10001 FTE_GPIO_DIR_INPUT 0x6000, 0x5100 \<mapsto> dio_gpio 2 0x10002 FTE_GPIO_DIR_INPUT 0x6100,
              0x5200 \<mapsto> dio_gpio 3 0x10003 FTE_GPIO_DIR_OUTPUT 0x6200],
            gpChain = [0x5000, 0x5100, 0x5200], nGPIOs = 3\<rparr>,
          stGPIO = (\<lambda>p. if p = 0x1080 then 0x5000 else if p = 0x2080 then 0x5100 else 0x5200),
          stPreset = (\<lambda>p. dio_value 0), stLed = (\<lambda>p. value_zero), hTimer = 0, ledTimers = [], timerIDs = [],
          clock = at_second 0, dioMore = ()\<rparr>\<rparr>\<rparr>"

definition dio_demo_env :: "unit dio_env" where
  "dio_demo_env = \<lparr>dioEv = \<lparr>evObjs = reg_env, eventList = 0x500,
        time_diff_ms = (\<lambda>t1 t2. (clock_ms t1 - clock_ms t2, SECONDS t1 < SECONDS t2)),
       sendAlert = (\<lambda>_ _ s. Some s), publishEPValue = (\<lambda>_ s. Some s)\<rparr>,
     diList = 0x100, doList = 0x200, ledList = 0x300, diAction = 0, doAction = 1, ledAction = 2, stackRet = 0\<rparr>"

abbreviation dio_board :: "addr set" where "dio_board \<equiv> {0x1000, 0x2000, 0x3000}"
abbreviation dio_inputs :: "addr list" where "dio_inputs \<equiv> [0x1000, 0x2000]"

lemma setDIO_facts [simp]:
  "xData (snd (FTE_VALUE_setDIO now x v)) = x" "bValid (snd (FTE_VALUE_setDIO now x v))"
  by (simp_all add: FTE_VALUE_setDIO_def FTE_VALUE_setValid_def Let_def)

lemma dio_demo_views:
  "view (dio_demo isr) 0x1000 = Some \<lparr>vObj = dio_object 0x1080 0x06010001 1 (dio_value 0), vPreset = dio_value 0, vLw = 0x6000,
     vLwgpio = dio_lwgpio 0x10001 4 24 LWGPIO_DIR_INPUT LWGPIO_DIR_MASK, vPCR = 0x100, vLevel = True, vLatch = False, vOut = False\<rparr>"
  "view (dio_demo isr) 0x2000 = Some \<lparr>vObj = dio_object 0x2080 0x06010002 2 (dio_value 0), vPreset = dio_value 0, vLw = 0x6100,
     vLwgpio = dio_lwgpio 0x10002 4 25 LWGPIO_DIR_INPUT LWGPIO_DIR_MASK, vPCR = 0x100, vLevel = False, vLatch = False, vOut = False\<rparr>"
  "view (dio_demo isr) 0x3000 = Some \<lparr>vObj = dio_object 0x3080 0x07010001 3 (dio_value 0), vPreset = dio_value 0, vLw = 0x6200,
     vLwgpio = dio_lwgpio 0x10003 2 5 LWGPIO_DIR_OUTPUT 0, vPCR = 0x100, vLevel = False, vLatch = False, vOut = True\<rparr>"
  by (simp_all add: view_some dio_demo_def dio_object_def dio_gpio_def dio_lwgpio_def is_lwgpio_def pcr_read_def pin_level_def
      pin_latch_def pin_out_def)

lemma dio_demo_items:
  "items (dio_demo isr) 0x100 dio_inputs" "items (dio_demo isr) 0x200 [0x3000]" "items (dio_demo isr) 0x300 []"
proof -
  have "list_abs (dio_demo isr) 0x100 (Some (0x8, [0x10, 0x18], 0x20)) dio_inputs"
    "list_abs (dio_demo isr) 0x200 (Some (0x28, [0x30], 0x38)) [0x3000]"
    "list_abs (dio_demo isr) 0x300 (Some (0x40, [], 0x48)) []"
    by (simp_all add: dio_demo_def ring_ptrs_def)
  from this [THEN list_abs_items]
  show "items (dio_demo isr) 0x100 dio_inputs" "items (dio_demo isr) 0x200 [0x3000]" "items (dio_demo isr) 0x300 []"
    by blast+
qed

lemma dio_demo_sys:
  assumes "ran isr \<subseteq> set dio_inputs"
  shows "di_sys dio_demo_env dio_board [] dio_inputs (dio_demo isr)"
proof -
  have "board dio_board (dio_demo isr)"
    by (auto simp: board_def dio_demo_views io_ok_def handle_ok_def dio_lwgpio_def dio_object_def LWGPIO_PORTS_def opposite_def
        apart_def lwgpio_int_get_vector_def LWGPIO_DIR_MASK_def fte_object_zero_def)
  moreover have "\<exists>v. view (dio_demo isr) p = Some v \<and> di_good v" if "p \<in> set dio_inputs" for p
    using that by (auto simp: dio_demo_views di_good_def pcr_irqc_def level_fires_def dio_value_def value_zero_def FTE_VALUE_setDIO_def
        FTE_VALUE_setValid_def)
  moreover have "isrTab (gpio (dio (dio_demo isr))) = isr" by (simp add: dio_demo_def)
  ultimately show ?thesis
    using assms dio_demo_items by (simp add: di_sys_def di_room_def dio_room_def dio_demo_env_def)
qed


section \<open>Properties\<close>





text \<open>C38: Inputs that share a port take the interrupt from each other: \<^verbatim>\<open>FTE_DI_run\<close> installs the
  object as the parameter of the port's routine, so once a second input of the same port is
  started, the value of the first one never changes again, whatever its level does.\<close>

theorem FTE_DI_shared_port_freezes:
  assumes "di_sys E B leds dis s" "p \<in> set dis" "q \<in> set dis" "p \<noteq> q" "view s p = Some v" "view s q = Some w"
    and "hPort (vHandle v) = hPort (vHandle w)" "p \<notin> ran (isrTab (gpio (dio s)))"
    and "xData (vValue v) = xData (vPreset v)"
    and "FTE_DI_run E p s = Some (r, s1)" "FTE_DI_run E q (sense s1) = Some (r', s2)" "(di_step E)\<^sup>*\<^sup>* (sense s2) s'"
  shows "r = FTE_RET_OK \<and> r' = FTE_RET_OK \<and> (\<exists>y. FTE_OBJ_getValue p s' = Some (FTE_RET_OK, y) \<and> xData y = xData (vValue v))"
proof -
  note run1 = DI_run_sys [OF assms(1,2,5,10)]
  have v1: "view s1 p = Some (di_unlock E (clock (dio s)) v)" "view s1 q = Some w"
    using run1(4,5) assms(3,4,6) by simp_all
  have io: "io_ok v" using board_view [OF sys_parts(3) [OF assms(1)]] sys_parts(4) [OF assms(1)] assms(2,5) by fastforce
  note run2 = DI_run_sys [OF run1(2) assms(3) view_sense [OF v1(2)] assms(11)]
  have "hPort (vHandle (di_sense w)) = hPort (vHandle v)" using assms(7) by (simp add: di_sense_def)
  then have tab: "isrTab (gpio (dio (sense s2))) = (isrTab (gpio (dio s)))(hPort (vHandle v) \<mapsto> q)"
    using run1(3) run2(3) by (simp add: env_step_keeps)
  have "view s2 p = view (sense s1) p" using run2(5) [of p] assms(2,4) by simp
  then have v2: "view (sense s2) p = Some (di_sense (di_sense (di_unlock E (clock (dio s)) v)))"
    using view_sense [OF v1(1)] view_sense by metis
  have "di_frozen p (xData (vValue v)) (sense s2)"
    using v2 tab assms(4,8,9) io by (auto simp: di_frozen_def vValue_def ran_def io_ok_def)
  then have "di_frozen p (xData (vValue v)) s'" by (rule frozen_steps [OF assms(12) run2(2) assms(2)])
  then obtain u where u: "view s' p = Some u" "xData (vValue u) = xData (vValue v)" "oValues (vObj u) \<noteq> []"
    by (auto simp: di_frozen_def)
  then show ?thesis
    using run1(1) run2(1) view_obj [OF u(1)] by (auto simp: FTE_OBJ_getValue_def obj_value_def vValue_def neq_Nil_conv)
qed

theorem FTE_DI_shared_port_freezes_witness:
  "\<exists>s1 s2 y. FTE_DI_run dio_demo_env 0x1000 (dio_demo Map.empty) = Some (FTE_RET_OK, s1)
    \<and> FTE_DI_run dio_demo_env 0x2000 (sense s1) = Some (FTE_RET_OK, s2)
    \<and> FTE_OBJ_getValue 0x1000 (sense s2) = Some (FTE_RET_OK, y) \<and> xData y = 0"
proof -
  let ?s = "dio_demo Map.empty" and ?v = "the (view (dio_demo Map.empty) 0x1000)" and ?w = "the (view (dio_demo Map.empty) 0x2000)"
  have sys: "di_sys dio_demo_env dio_board [] dio_inputs ?s" by (rule dio_demo_sys) simp
  have vw: "view ?s 0x1000 = Some ?v" "view ?s 0x2000 = Some ?w" by (simp_all add: dio_demo_views)
  obtain s1 where s1: "FTE_DI_run dio_demo_env 0x1000 ?s = Some (FTE_RET_OK, s1)"
    "\<forall>q\<in>dio_board. q \<noteq> 0x1000 \<longrightarrow> view s1 q = view ?s q"
    by (rule DI_run_step [OF sys_parts(3) [OF sys] _ _ vw(1)]) simp_all
  have sys1: "di_sys dio_demo_env dio_board [] dio_inputs (sense s1)" using DI_run_sys(2) [OF sys _ vw(1) s1(1)] by simp
  have "view (sense s1) 0x2000 = Some (di_sense ?w)" using s1(2) vw(2) view_sense [of s1 "0x2000" ?w] by simp
  then obtain s2 where s2: "FTE_DI_run dio_demo_env 0x2000 (sense s1) = Some (FTE_RET_OK, s2)"
    by (rule DI_run_step [OF sys_parts(3) [OF sys1], rotated 2]) simp_all
  have "hPort (vHandle ?v) = hPort (vHandle ?w)" "xData (vValue ?v) = xData (vPreset ?v)" "xData (vValue ?v) = 0"
    "0x1000 \<notin> ran (isrTab (gpio (dio ?s)))"
    by (simp_all add: dio_demo_views dio_lwgpio_def vValue_def dio_object_def, simp_all add: dio_value_def dio_demo_def)
  then show ?thesis
    using FTE_DI_shared_port_freezes [OF sys _ _ _ vw _ _ _ s1(1) s2, of "sense s2"] s1(1) s2 by auto
qed

end
