(* ===== verification/FTE_DioOut.thy ===== *)
theory FTE_DioOut
  imports FTE_DioSys
begin

unbundle bit_operations_syntax

text \<open>
  The digital outputs as a table.  A history of calls of \<^verbatim>\<open>FTE_DO_setValue\<close>,
  \<^verbatim>\<open>FTD_DO_getValue\<close> and \<^verbatim>\<open>FTE_DO_setPermanent\<close>, between turns of the two tasks that handle
  the inputs, answers what a table from identifiers to a value and its value at start-up
  answers, and the latch of each output's pin agrees with the table throughout.
\<close>

section \<open>Calls and their specification\<close>

datatype do_request = DoSet u32 u32 | DoGet u32 | DoKeep u32 | DiTimer time_struct | DiManage time_struct

fun do_call :: "'x dio_env \<Rightarrow> do_request \<Rightarrow> 'x dsys \<Rightarrow> ((fte_ret \<times> u32 option) \<times> 'x dsys) option" where
  "do_call E (DoSet i x) s = do { (r, s) \<leftarrow> FTE_DO_setValue E i x s; Some ((r, None), s) }"
| "do_call E (DoGet i) s = do { (r, x, s) \<leftarrow> FTD_DO_getValue E i s; Some ((r, x), s) }"
| "do_call E (DoKeep i) s = do { (r, s) \<leftarrow> FTE_DO_setPermanent E i s; Some ((r, None), s) }"
| "do_call E (DiTimer t) s = do { s \<leftarrow> timer_turn E (at_time t s); Some ((FTE_RET_OK, None), s) }"
| "do_call E (DiManage t) s = do { (r, s) \<leftarrow> FTE_DI_update E (at_time t s); Some ((r, None), s) }"

fun do_calls :: "'x dio_env \<Rightarrow> do_request list \<Rightarrow> 'x dsys \<Rightarrow> ((fte_ret \<times> u32 option) list \<times> 'x dsys) option" where
  "do_calls E [] s = Some ([], s)"
| "do_calls E (c # cs) s = do { (r, s) \<leftarrow> do_call E c s; (rs, s) \<leftarrow> do_calls E cs s; Some (r # rs, s) }"

text \<open>An entry is the value and whether it is on at start-up.\<close>

type_synonym do_tab = "u32 \<rightharpoonup> u32 \<times> bool"

fun do_spec :: "do_request \<Rightarrow> do_tab \<Rightarrow> (fte_ret \<times> u32 option) \<times> do_tab" where
  "do_spec (DoSet i x) T = (case T i of None \<Rightarrow> ((FTE_RET_ERROR, None), T)
     | Some (_, b) \<Rightarrow> ((FTE_RET_OK, None), T(i \<mapsto> (x, b))))"
| "do_spec (DoGet i) T = ((FTE_RET_OK, map_option fst (T i)), T)"
| "do_spec (DoKeep i) T = (case T i of None \<Rightarrow> ((FTE_RET_ERROR, None), T)
     | Some (x, _) \<Rightarrow> ((FTE_RET_OK, None), T(i \<mapsto> (x, x \<noteq> 0))))"
| "do_spec (DiTimer t) T = ((FTE_RET_OK, None), T)"
| "do_spec (DiManage t) T = ((FTE_RET_OK, None), T)"

fun do_specs :: "do_request list \<Rightarrow> do_tab \<Rightarrow> (fte_ret \<times> u32 option) list \<times> do_tab" where
  "do_specs [] T = ([], T)"
| "do_specs (c # cs) T = (let (r, T) = do_spec c T; (rs, T) = do_specs cs T in (r # rs, T))"

text \<open>The table of the outputs \<open>dos\<close>.\<close>

definition do_row :: "fte_object \<Rightarrow> u32 \<times> bool" where
  "do_row ob = (xData (hd (oValues ob)), obj_flag ob FTE_DO_CONFIG_INIT_ON)"

definition do_find :: "'x dsys \<Rightarrow> addr list \<Rightarrow> u32 \<Rightarrow> addr option" where
  "do_find s dos i = find (\<lambda>p. obj_id (the (objs s p)) = i) dos"

definition do_table :: "'x dsys \<Rightarrow> addr list \<Rightarrow> do_tab" where
  "do_table s dos i = map_option (\<lambda>p. do_row (the (objs s p))) (do_find s dos i)"

definition do_good :: "io_view \<Rightarrow> bool" where
  "do_good v \<longleftrightarrow> vOut v \<and> FTE_VALUE_isValid (vValue v)
     \<and> vLatch v = ((xData (vValue v) \<noteq> 0) = (nActive (lwConfig (vLwgpio v)) = LWGPIO_VALUE_HIGH))"

definition do_sys :: "'x dio_env \<Rightarrow> addr set \<Rightarrow> addr list \<Rightarrow> addr list \<Rightarrow> addr list \<Rightarrow> 'x dsys \<Rightarrow> bool" where
  "do_sys E B leds dis dos s \<longleftrightarrow> di_room E B leds dis s \<and> items s (doList E) dos \<and> set dos \<subseteq> B
     \<and> set dos \<inter> (set leds \<union> set dis) = {} \<and> (\<forall>p\<in>set dos. \<exists>v. view s p = Some v \<and> do_good v)"

section \<open>The machine of an output\<close>

definition do_put :: "time_struct \<Rightarrow> u32 \<Rightarrow> io_view \<Rightarrow> io_view" where
  "do_put now x v = (if FTE_VALUE_isValid (vValue v) \<and> xData (vValue v) = x then v
     else v\<lparr>vLatch := (x \<noteq> 0) = (nActive (lwConfig (vLwgpio v)) = LWGPIO_VALUE_HIGH),
       vObj := (vObj v)\<lparr>oValues := (oValues (vObj v))[0 := snd (FTE_VALUE_setDIO now x (vValue v))],
         oFlags := FTE_FLAG_SET (oFlags (vObj v)) FTE_OBJ_STATUS_FLAG_UPDATED\<rparr>\<rparr>)"

lemma do_put_good:
  assumes "do_good v" "io_ok v"
  shows "do_good (do_put now x v)" "do_row (vObj (do_put now x v)) = (x, snd (do_row (vObj v)))"
proof -
  obtain a as where "oValues (vObj v) = a # as" using assms(2) by (auto simp: io_ok_def neq_Nil_conv)
  then show "do_good (do_put now x v)" "do_row (vObj (do_put now x v)) = (x, snd (do_row (vObj v)))"
    using assms(1) by (auto simp: do_good_def do_put_def vValue_def FTE_VALUE_isValid_def do_row_def obj_flag_def)
qed

lemma do_put_step:
  assumes r: "dio_room E B leds s" and p: "p \<in> B" "p \<notin> set leds" "view s p = Some v"
  obtains s' where "do_set_value E p x s = Some (FTE_RET_OK, s')" "view s' p = Some (do_put (clock (dio s)) (xData x) v)"
    "keeps B ({p} \<union> set leds) s s'"
proof -
  have b: "board B s" using r by (simp add: dio_room_def)
  have io: "io_ok v" using board_view [OF b p(1)] p(3) by simp
  note start = view_obj [OF p(3)] obj_value_view [OF io]
  show thesis
  proof (cases "FTE_VALUE_isValid (vValue v) \<and> xData (vValue v) = xData x")
    case True
    then show thesis
      by (intro that [of s]) (use start p(3) in \<open>simp_all add: do_set_value_def do_put_def keeps_refl\<close>)
  next
    case False
    let ?n = "snd (FTE_VALUE_setDIO (clock (dio s)) (xData x) (vValue v))"
    let ?v1 = "v\<lparr>vLatch := (xData x \<noteq> 0) = (nActive (lwConfig (vLwgpio v)) = LWGPIO_VALUE_HIGH)\<rparr>"
    obtain s1 where s1: "gpio_do (FTE_GPIO_setValue (pGPIO (vObj v) s) (xData x)) s = Some (FTE_RET_OK, s1)"
      "view s1 p = Some ?v1" "keeps B {p} s s1"
      using setValue_step [OF b p(1,3) io, where x = "xData x"] by blast
    have b1: "board B s1" and c1: "clock (dio s1) = clock (dio s)"
      using keeps_board [OF s1(3) b] s1(3) by (simp_all add: keeps_def)
    let ?v2 = "?v1\<lparr>vObj := (vObj ?v1)\<lparr>oValues := (oValues (vObj ?v1))[0 := ?n]\<rparr>\<rparr>"
    obtain s2 where s2: "upd_value p ?n s1 = Some s2" "keeps B {p} s1 s2" "view s2 p = Some ?v2"
      by (rule upd_value_step [OF b1 p(1) s1(2), where x = ?n])
    obtain s3 where s3: "do_lamp E (vConfig v) (xData x) s2 = Some s3" "keeps B (set leds) s2 s3"
      by (rule do_lamp_step [OF dio_room_keeps [OF dio_room_keeps [OF r s1(3)] s2(2)], where c = "vConfig v" and x = "xData x"])
    have b3: "board B s3" using keeps_board [OF s3(2) keeps_board [OF s2(2) b1]] .
    have v3: "view s3 p = Some ?v2" using keeps_other [OF s3(2) p(1,2)] s2(3) by simp
    obtain s4 where s4: "FTE_OBJ_STATE_set p FTE_OBJ_STATUS_FLAG_UPDATED s3 = Some s4" "keeps B {p} s3 s4"
      "view s4 p = Some (?v2\<lparr>vObj := (vObj ?v2)\<lparr>oFlags := FTE_FLAG_SET (oFlags (vObj ?v2)) FTE_OBJ_STATUS_FLAG_UPDATED\<rparr>\<rparr>)"
      by (rule upd_flags_step [OF b3 p(1) v3, where f = FTE_OBJ_STATUS_FLAG_UPDATED])
    show thesis
    proof (rule that [of s4])
      show "do_set_value E p x s = Some (FTE_RET_OK, s4)"
        using False start s1(1) s2(1) s3(1) s4(1) c1 by (auto simp: do_set_value_def FTE_OBJ_wasUpdated_def)
      show "view s4 p = Some (do_put (clock (dio s)) (xData x) v)" using s4(3) False by (auto simp: do_put_def)
      show "keeps B ({p} \<union> set leds) s s4"
        using keeps_trans [OF keeps_trans [OF keeps_trans [OF keeps_lists(1) [OF s1(3)] keeps_lists(1) [OF s2(2)]]
              keeps_lists(2) [OF s3(2)]] keeps_lists(1) [OF s4(2)]] .
    qed
  qed
qed


section \<open>The table under a step\<close>

lemma keeps_items: "keeps B A s s' \<Longrightarrow> items s lst ps \<Longrightarrow> items s' lst ps"
  unfolding keeps_def by (blast intro: items_kern)

lemma do_sysD:
  assumes "do_sys E B leds dis dos s"
  shows "di_room E B leds dis s" "dio_room E B leds s" "board B s" "items s (doList E) dos" "set dos \<subseteq> B"
    "set dos \<inter> (set leds \<union> set dis) = {}" "NULL \<notin> set dos"
    "p \<in> set dos \<Longrightarrow> \<exists>v. view s p = Some v \<and> do_good v \<and> io_ok v"
proof -
  show "di_room E B leds dis s" "dio_room E B leds s" and b: "board B s"
    and "items s (doList E) dos" "set dos \<subseteq> B" "set dos \<inter> (set leds \<union> set dis) = {}"
    using assms by (auto simp: do_sys_def di_room_def dio_room_def)
  show "NULL \<notin> set dos" using assms items_no_null by (auto simp: do_sys_def)
  assume p: "p \<in> set dos"
  then obtain v where "view s p = Some v" "do_good v" using assms unfolding do_sys_def by blast
  moreover have "p \<in> B" using assms p unfolding do_sys_def by blast
  ultimately show "\<exists>v. view s p = Some v \<and> do_good v \<and> io_ok v" using board_view [OF b] by fastforce
qed

lemma find_cong_set: "(\<And>x. x \<in> set xs \<Longrightarrow> P x = Q x) \<Longrightarrow> find P xs = find Q xs"
  by (induction xs) auto

lemma do_find_in: "do_find s dos i = Some p \<Longrightarrow> p \<in> set dos \<and> obj_id (the (objs s p)) = i"
  unfolding do_find_def by (auto simp: find_Some_iff)

lemma do_find_keeps:
  assumes "keeps B A s s'" "board B s" "set dos \<subseteq> B"
  shows "do_find s' dos i = do_find s dos i"
  unfolding do_find_def
proof (rule find_cong_set)
  fix p assume "p \<in> set dos"
  then obtain v v' where "view s p = Some v" "view s' p = Some v'" "same_id v v'"
    using board_view [OF assms(2), of p] keeps_same_id [OF assms(1)] assms(3) by blast
  then show "(obj_id (the (objs s' p)) = i) = (obj_id (the (objs s p)) = i)"
    by (simp add: view_obj same_id_def)
qed

lemma do_other_step:
  assumes "do_sys E B leds dis dos s" "keeps B A s s'" "A \<inter> set dos = {}"
  shows "do_sys E B leds dis dos s'" "do_table s' dos = do_table s dos"
proof -
  note D = do_sysD [OF assms(1)]
  have same: "view s' p = view s p" if "p \<in> set dos" for p
    using keeps_other [OF assms(2)] D(5) that assms(3) by blast
  have "items s' (doList E) dos" using keeps_items [OF assms(2) D(4)] .
  then show "do_sys E B leds dis dos s'"
    using assms(1) di_room_keeps [OF D(1) assms(2)] same by (simp add: do_sys_def)
  show "do_table s' dos = do_table s dos"
  proof
    fix i
    have "the (objs s' p) = the (objs s p)" if "do_find s dos i = Some p" for p
    proof -
      have "p \<in> set dos" using do_find_in [OF that] ..
      then obtain v where "view s p = Some v" using D(8) by blast
      then show ?thesis using same [OF \<open>p \<in> set dos\<close>] view_obj [of s p v] view_obj [of s' p v] by simp
    qed
    then show "do_table s' dos i = do_table s dos i"
      by (cases "do_find s dos i") (simp_all add: do_table_def do_find_keeps [OF assms(2) D(3,5)])
  qed
qed

lemma do_own_step:
  assumes sys: "do_sys E B leds dis dos s" and k: "keeps B ({p} \<union> set leds) s s'"
    and p: "do_find s dos i = Some p" "view s' p = Some w" "do_good w"
  shows "do_sys E B leds dis dos s'" "do_table s' dos = (do_table s dos)(i \<mapsto> do_row (vObj w))"
proof -
  note D = do_sysD [OF sys]
  have pd: "p \<in> set dos" "obj_id (the (objs s p)) = i" using do_find_in [OF p(1)] by simp_all
  have same: "view s' q = view s q" if "q \<in> set dos" "q \<noteq> p" for q
    using keeps_other [OF k] D(5,6) that by blast
  have "items s' (doList E) dos" using keeps_items [OF k D(4)] .
  moreover have "\<exists>v. view s' q = Some v \<and> do_good v" if "q \<in> set dos" for q
    using p(2,3) same [OF that] D(8) [OF that] by (cases "q = p") auto
  ultimately show "do_sys E B leds dis dos s'"
    using sys di_room_keeps [OF D(1) k] by (simp add: do_sys_def)
  show "do_table s' dos = (do_table s dos)(i \<mapsto> do_row (vObj w))"
  proof
    fix j
    have "the (objs s' q) = the (objs s q)" if "do_find s dos j = Some q" "j \<noteq> i" for q
    proof -
      have q: "q \<in> set dos" "q \<noteq> p" using do_find_in [OF that(1)] that(2) pd(2) by auto
      then obtain v where "view s q = Some v" using D(8) by blast
      then show ?thesis using same [OF q] view_obj [of s q v] view_obj [of s' q v] by simp
    qed
    then show "do_table s' dos j = ((do_table s dos)(i \<mapsto> do_row (vObj w))) j"
      using view_obj [OF p(2)] p(1)
      by (cases "do_find s dos j") (auto simp: do_table_def do_find_keeps [OF k D(3,5)])
  qed
qed

lemma do_getObject:
  assumes "do_sys E B leds dis dos s"
  shows "FTE_DO_getObject E i s = Some (case do_find s dos i of None \<Rightarrow> NULL | Some p \<Rightarrow> p, s)"
  using dio_get_items [OF do_sysD(4) [OF assms] board_objs [OF do_sysD(3,5) [OF assms]]]
  by (auto simp: FTE_DO_getObject_def do_find_def split: option.splits)

text \<open>What a search leaves: nothing, or an output with its view.\<close>

lemma do_cases:
  assumes "do_sys E B leds dis dos s"
  obtains (none) "do_find s dos i = None" "do_table s dos i = None" "FTE_DO_getObject E i s = Some (NULL, s)"
  | (found) p v where "do_find s dos i = Some p" "do_table s dos i = Some (do_row (vObj v))"
      "FTE_DO_getObject E i s = Some (p, s)" "p \<noteq> NULL" "p \<in> B" "p \<notin> set leds" "view s p = Some v"
      "do_good v" "io_ok v" "objs s p = Some (vObj v)" "obj_value (vObj v) = Some (vValue v)"
proof (cases "do_find s dos i")
  case None
  then show thesis using none do_getObject [OF assms] by (simp add: do_table_def)
next
  case (Some p)
  note D = do_sysD [OF assms]
  have p: "p \<in> set dos" using do_find_in [OF Some] ..
  then obtain v where v: "view s p = Some v" "do_good v" "io_ok v" using D(8) by blast
  show thesis
    using found [OF Some _ _ _ _ _ v view_obj [OF v(1)] obj_value_view [OF v(3)]] do_getObject [OF assms, of i] Some
      view_obj [OF v(1)] p D(5,6,7) by (auto simp: do_table_def)
qed


lemma view_cfg [simp]: "view (s\<lparr>cfg := c\<rparr>) p = view s p"
  by (simp add: view_def pGPIO_def xPresetValue_def)

lemma keeps_cfg: "keeps B A s s' \<Longrightarrow> keeps B A s (s'\<lparr>cfg := c\<rparr>)"
  by (simp add: keeps_def)

definition do_flagged :: "bool \<Rightarrow> io_view \<Rightarrow> io_view" where
  "do_flagged b v = v\<lparr>vObj := (vObj v)\<lparr>oConfig := (vConfig v)\<lparr>xFlags :=
     if b then FTE_FLAG_SET (xFlags (vConfig v)) FTE_DO_CONFIG_INIT_ON else FTE_FLAG_CLR (xFlags (vConfig v)) FTE_DO_CONFIG_INIT_ON\<rparr>\<rparr>\<rparr>"

lemma do_flag_step:
  assumes "board B s" "p \<in> B" "view s p = Some v"
  obtains s' where "do_init_flag p b s = Some (FTE_RET_OK, s')" "view s' p = Some (do_flagged b v)" "keeps B {p} s s'"
proof -
  let ?f = "\<lambda>ob. ob\<lparr>oConfig := (oConfig ob)\<lparr>xFlags := if b then FTE_FLAG_SET (xFlags (oConfig ob)) FTE_DO_CONFIG_INIT_ON
    else FTE_FLAG_CLR (xFlags (oConfig ob)) FTE_DO_CONFIG_INIT_ON\<rparr>\<rparr>"
  obtain s1 where s1: "upd_obj p ?f s = Some s1" "view s1 p = Some (v\<lparr>vObj := ?f (vObj v)\<rparr>)" "keeps B {p} s s1"
    by (rule upd_obj_step [OF assms, where f = ?f]) (auto simp: same_id_def)
  have o1: "objs s1 p = Some (?f (vObj v))" using view_obj [OF s1(2)] by simp
  let ?c = "vConfig (do_flagged b v)"
  have 1: "do_init_flag p b s = Some (FTE_RET_OK, s1\<lparr>cfg := snd (FTE_CFG_OBJ_save ?c (snd (FTE_CFG_OBJ_save ?c (cfg s1))))\<rparr>)"
    using s1(1) o1 by (cases b) (simp_all add: do_init_flag_def FTE_OBJ_FLAG_set_def FTE_OBJ_FLAG_clear_def FTE_OBJ_save_def do_flagged_def)
  show thesis
    by (rule that [OF 1]) (use s1(2) keeps_cfg [OF s1(3)] in \<open>simp_all add: do_flagged_def\<close>)
qed

lemma flag_set_clr: "FTE_FLAG_IS_SET (FTE_FLAG_SET x f) f" "FTE_FLAG_IS_SET (FTE_FLAG_CLR x f) f \<longleftrightarrow> f = 0"
proof -
  have "(x OR f) AND f = f" "(x AND NOT f) AND f = 0" by (auto simp: bit_eq_iff bit_simps)
  then show "FTE_FLAG_IS_SET (FTE_FLAG_SET x f) f" "FTE_FLAG_IS_SET (FTE_FLAG_CLR x f) f \<longleftrightarrow> f = 0"
    by (auto simp: FTE_FLAG_IS_SET_def FTE_FLAG_SET_def FTE_FLAG_CLR_def)
qed

lemma do_flagged_good:
  "do_good (do_flagged b v) = do_good v" "do_row (vObj (do_flagged b v)) = (fst (do_row (vObj v)), b)"
  by (cases b; simp add: do_good_def do_flagged_def vValue_def do_row_def obj_flag_def flag_set_clr)+

text \<open>The turns of the tasks do not touch the outputs.\<close>

lemma do_turn_step:
  assumes "do_sys E B leds dis dos s" "keeps B (set dis \<union> set leds) (at_time t s) s'"
  shows "do_sys E B leds dis dos s'" "do_table s' dos = do_table s dos"
proof -
  have "do_sys E B leds dis dos (at_time t s)"
    using assms(1) room_time [of E B leds dis s t] items_kern [of s _ _ "at_time t s"] by (simp add: do_sys_def env_step_keeps)
  moreover have "(set dis \<union> set leds) \<inter> set dos = {}" using do_sysD(6) [OF assms(1)] by blast
  ultimately have "do_sys E B leds dis dos s'" "do_table s' dos = do_table (at_time t s) dos"
    using do_other_step assms(2) by blast+
  moreover have "do_table (at_time t s) dos = do_table s dos"
    by (rule ext) (simp add: do_table_def do_find_def env_step_keeps)
  ultimately show "do_sys E B leds dis dos s'" "do_table s' dos = do_table s dos" by simp_all
qed


lemma do_call_refines:
  assumes sys: "do_sys E B leds dis dos s"
  shows "\<exists>r s'. do_call E c s = Some (r, s') \<and> do_sys E B leds dis dos s' \<and> do_spec c (do_table s dos) = (r, do_table s' dos)"
proof (cases c)
  case (DoSet i x)
  show ?thesis using sys
  proof (cases rule: do_cases [where i = i])
    case none
    then show ?thesis using sys by (auto simp: DoSet FTE_DO_setValue_def)
  next
    case (found p v)
    let ?x = "snd (FTE_VALUE_setDIO (clock (dio s)) x (vValue v))"
    obtain s' where s': "do_set_value E p ?x s = Some (FTE_RET_OK, s')" "view s' p = Some (do_put (clock (dio s)) x v)"
      "keeps B ({p} \<union> set leds) s s'"
      using do_put_step [OF do_sysD(2) [OF sys] found(5-7), where x = ?x] by auto
    note own = do_own_step [OF sys s'(3) found(1) s'(2) do_put_good(1) [OF found(8,9)]]
    have "do_call E c s = Some ((FTE_RET_OK, None), s')" using found s'(1) by (simp add: DoSet FTE_DO_setValue_def)
    then show ?thesis using own found(2) do_put_good(2) [OF found(8,9)] by (auto simp: DoSet split: prod.splits)
  qed
next
  case (DoGet i)
  show ?thesis using sys
  proof (cases rule: do_cases [where i = i])
    case none
    then show ?thesis using sys by (auto simp: DoGet FTD_DO_getValue_def)
  next
    case (found p v)
    then have "do_call E c s = Some ((FTE_RET_OK, Some (xData (vValue v))), s)"
      by (simp add: DoGet FTD_DO_getValue_def FTE_VALUE_getDIO_def)
    then show ?thesis using sys found(2) by (simp add: DoGet do_row_def vValue_def)
  qed
next
  case (DoKeep i)
  show ?thesis using sys
  proof (cases rule: do_cases [where i = i])
    case none
    then show ?thesis using sys by (auto simp: DoKeep FTE_DO_setPermanent_def)
  next
    case (found p v)
    let ?b = "xData (vValue v) \<noteq> 0"
    obtain s' where s': "do_init_flag p ?b s = Some (FTE_RET_OK, s')" "view s' p = Some (do_flagged ?b v)" "keeps B {p} s s'"
      by (rule do_flag_step [OF do_sysD(3) [OF sys] found(5,7)])
    have g: "do_good (do_flagged ?b v)" using found(8) do_flagged_good(1) by simp
    note own = do_own_step [OF sys keeps_lists(1) [OF s'(3)] found(1) s'(2) g]
    have "do_call E c s = Some ((FTE_RET_OK, None), s')" using found s'(1) by (simp add: DoKeep FTE_DO_setPermanent_def)
    then show ?thesis using own found(2) do_flagged_good(2) [of ?b v] by (simp add: DoKeep do_row_def vValue_def)
  qed
next
  case (DiTimer t)
  obtain s' where s': "timer_turn E (at_time t s) = Some s'" "keeps B (set dis \<union> set leds) (at_time t s) s'"
    by (rule timer_turn_walk [OF room_time [OF do_sysD(1) [OF sys]]])
  show ?thesis using do_turn_step [OF sys s'(2)] s'(1) by (simp add: DiTimer)
next
  case (DiManage t)
  obtain s' where s': "FTE_DI_update E (at_time t s) = Some (FTE_RET_OK, s')" "keeps B (set dis \<union> set leds) (at_time t s) s'"
    by (rule di_update_walk [OF room_time [OF do_sysD(1) [OF sys]]])
  show ?thesis using do_turn_step [OF sys s'(2)] s'(1) by (simp add: DiManage)
qed

section \<open>Properties\<close>

text \<open>C9: The digital outputs implement a table: whatever history of setting, reading and making
  permanent, in between turns of the timer and management tasks, the answers are those of a
  table from identifiers to values, the objects hold what the table holds, and every output's
  value is valid and agrees with the latch of its pin.\<close>

theorem FTE_DO_refines_table:
  assumes "do_sys E B leds dis dos s"
  shows "\<exists>rs s'. do_calls E cs s = Some (rs, s') \<and> do_specs cs (do_table s dos) = (rs, do_table s' dos)
    \<and> do_sys E B leds dis dos s'"
  using assms
proof (induction cs arbitrary: s)
  case (Cons c cs)
  obtain r s1 where 1: "do_call E c s = Some (r, s1)" "do_sys E B leds dis dos s1"
    "do_spec c (do_table s dos) = (r, do_table s1 dos)"
    using do_call_refines [OF Cons.prems] by blast
  obtain rs s2 where "do_calls E cs s1 = Some (rs, s2)" "do_specs cs (do_table s1 dos) = (rs, do_table s2 dos)"
    "do_sys E B leds dis dos s2"
    using Cons.IH [OF 1(2)] by blast
  with 1 show ?case by simp
qed simp

theorem FTE_DO_refines_table_witness:
  "\<exists>rs s'. do_calls dio_demo_env [DoSet 0x07010001 1, DiTimer (at_second 1), DoKeep 0x07010001, DoGet 0x07010001, DoSet 5 1] (dio_demo Map.empty)
      = Some (rs, s')
    \<and> rs = [(FTE_RET_OK, None), (FTE_RET_OK, None), (FTE_RET_OK, None), (FTE_RET_OK, Some 1), (FTE_RET_ERROR, None)]
    \<and> do_table s' [0x3000] 0x07010001 = Some (1, True)"
proof -
  let ?s = "dio_demo Map.empty"
  let ?cs = "[DoSet 0x07010001 1, DiTimer (at_second 1), DoKeep 0x07010001, DoGet 0x07010001, DoSet 5 1]"
  have "di_sys dio_demo_env dio_board [] dio_inputs ?s" by (rule dio_demo_sys) simp
  then have "di_room dio_demo_env dio_board [] dio_inputs ?s" by (simp add: di_sys_def)
  moreover have "do_good (the (view ?s 0x3000))"
    by (simp add: dio_demo_views do_good_def vValue_def dio_object_def dio_lwgpio_def FTE_VALUE_isValid_def dio_value_def)
  ultimately have sys: "do_sys dio_demo_env dio_board [] dio_inputs [0x3000] ?s"
    using dio_demo_items(2) by (simp add: do_sys_def dio_demo_views dio_demo_env_def)
  have o: "objs ?s 0x3000 = Some (dio_object 0x3080 0x07010001 3 (dio_value 0))" by (simp add: dio_demo_def)
  have T: "do_table ?s [0x3000] i = (if i = 0x07010001 then Some (0, False) else None)" for i
    by (simp add: do_table_def do_find_def o)
      (simp add: dio_object_def do_row_def dio_value_def obj_flag_def FTE_FLAG_IS_SET_def)
  obtain rs s' where run: "do_calls dio_demo_env ?cs ?s = Some (rs, s')" "do_specs ?cs (do_table ?s [0x3000]) = (rs, do_table s' [0x3000])"
    using FTE_DO_refines_table [OF sys] by blast
  have "fst (do_specs ?cs (do_table ?s [0x3000])) = [(FTE_RET_OK, None), (FTE_RET_OK, None), (FTE_RET_OK, None),
      (FTE_RET_OK, Some 1), (FTE_RET_ERROR, None)]"
    "snd (do_specs ?cs (do_table ?s [0x3000])) 0x07010001 = Some (1, True)"
    by (simp_all add: T)
  then show ?thesis unfolding run(2) using run(1) by (intro exI [of _ rs] exI [of _ s']) simp
qed

end
