(* ===== verification/FTE_OneWire.thy ===== *)
theory FTE_OneWire
  imports FTE_Dio FTE_CString
begin

unbundle bit_operations_syntax

text \<open>
  The 1-Wire buses of \<^verbatim>\<open>target/source/drv/fte_1wire.c\<close>: slots on a single pin, the
  bytes above them, and the search for the codes of the devices on the bus.  The pin is one
  of \<open>FTE_Gpio\<close>.  What hangs on the bus is a parameter: \<open>ow_line\<close> says how its state \<open>'b\<close>
  follows the level that the pin puts on the line, how it evolves with time (in
  microseconds) and what level the line has.

  The state of the driver sits in the \<open>dioMore\<close> of the pins' state, with the nesting level
  of \<^verbatim>\<open>_int_disable\<close>, which MQX counts per task.
\<close>

section \<open>State\<close>

record 'b ow_line =
  lineDrive :: "bool \<Rightarrow> 'b \<Rightarrow> 'b"
  lineWait :: "nat \<Rightarrow> 'b \<Rightarrow> 'b"
  lineLevel :: "'b \<Rightarrow> bool"

record ow_config =
  owID :: u32
  xGPIO :: u32
  nMaxDevices :: u32
  owFlags :: u32

type_synonym rom = "u8 list"

text \<open>\<open>pROMMem\<close> is the address of the table whose contents \<open>pROMCodes\<close> is.\<close>

record fte_1wire =
  owConfig :: ow_config
  owParent :: u32
  pROMMem :: addr
  pROMCodes :: "rom list"
  nROMCodes :: u32
  pLWGPIO :: addr

record 'b ow_state =
  owBus :: 'b
  owIrq :: nat
  ows :: "addr \<rightharpoonup> fte_1wire"
  owChain :: "addr list"
  n1Wires :: u32
  n1WireRecoveryTimerID :: u32

type_synonym ('b, 'y) owsys = "('b, 'y) ow_state_scheme dsys"

abbreviation ow :: "('b, 'y) owsys \<Rightarrow> ('b, 'y) ow_state_scheme" where "ow s \<equiv> dioMore (dio s)"

definition upd_ow :: "(('b, 'y) ow_state_scheme \<Rightarrow> ('b, 'y) ow_state_scheme) \<Rightarrow> ('b, 'y) owsys \<Rightarrow> ('b, 'y) owsys" where
  "upd_ow f s = upd_dio (dioMore_update f) s"

definition upd_1wire :: "addr \<Rightarrow> (fte_1wire \<Rightarrow> fte_1wire) \<Rightarrow> ('b, 'y) owsys \<Rightarrow> ('b, 'y) owsys option" where
  "upd_1wire p f s = do { w \<leftarrow> ows (ow s) p; Some (upd_ow (\<lambda>d. d\<lparr>ows := (ows d)(p \<mapsto> f w)\<rparr>) s) }"

abbreviation FTE_1WIRE_ROM_CODE_SIZE :: nat where "FTE_1WIRE_ROM_CODE_SIZE \<equiv> 8"
abbreviation FTE_1WIRE_TIME_SLOT :: nat where "FTE_1WIRE_TIME_SLOT \<equiv> 200"
abbreviation FTE_DEV_TYPE_ROOT :: u32 where "FTE_DEV_TYPE_ROOT \<equiv> 0xFFFFFF00"
abbreviation FTE_DEV_FLAG_SYSTEM_DEVICE :: u32 where "FTE_DEV_FLAG_SYSTEM_DEVICE \<equiv> 1"

text \<open>The loop \<^verbatim>\<open>for(i = ...; n times; i++)\<close>.\<close>

primrec for_loop :: "(nat \<Rightarrow> 's \<Rightarrow> 's option) \<Rightarrow> nat \<Rightarrow> nat \<Rightarrow> 's \<Rightarrow> 's option" where
  "for_loop f i 0 s = Some s"
| "for_loop f i (Suc n) s = do { s \<leftarrow> f i s; for_loop f (Suc i) n s }"

section \<open>Locks and interrupts\<close>

text \<open>A lock inside a bus: a semaphore at an address of the bus.\<close>

definition xLock :: "addr \<Rightarrow> addr" where "xLock p = p + 20"

definition FTE_SYS_LOCK_init :: "addr \<Rightarrow> u32 \<Rightarrow> 'z kst \<Rightarrow> fte_ret \<times> 'z kst" where
  "FTE_SYS_LOCK_init key n s = (FTE_RET_OK, s\<lparr>sems := (sems s)(key \<mapsto> unat n)\<rparr>)"

definition FTE_SYS_LOCK_final :: "addr \<Rightarrow> 'z kst \<Rightarrow> fte_ret \<times> 'z kst" where
  "FTE_SYS_LOCK_final key s = (FTE_RET_OK, s\<lparr>sems := (sems s)(key := None)\<rparr>)"

definition FTE_1WIRE_lock :: "addr \<Rightarrow> ('b, 'y) owsys \<Rightarrow> (fte_ret \<times> ('b, 'y) owsys) option" where
  "FTE_1WIRE_lock p s = do { s \<leftarrow> FTE_SYS_LOCK_enable (xLock p) s; Some (FTE_RET_OK, s) }"

definition FTE_1WIRE_unlock :: "addr \<Rightarrow> ('b, 'y) owsys \<Rightarrow> (fte_ret \<times> ('b, 'y) owsys) option" where
  "FTE_1WIRE_unlock p s = do { s \<leftarrow> FTE_SYS_LOCK_disable (xLock p) s; Some (FTE_RET_OK, s) }"

definition int_disable :: "('b, 'y) owsys \<Rightarrow> ('b, 'y) owsys" where "int_disable = upd_ow (owIrq_update Suc)"
definition int_enable :: "('b, 'y) owsys \<Rightarrow> ('b, 'y) owsys" where "int_enable = upd_ow (owIrq_update (\<lambda>n. n - 1))"

section \<open>The line\<close>

definition udelay :: "'b ow_line \<Rightarrow> nat \<Rightarrow> ('b, 'y) owsys \<Rightarrow> ('b, 'y) owsys" where
  "udelay L n = upd_ow (owBus_update (lineWait L n))"

abbreviation time_delay :: "'b ow_line \<Rightarrow> nat \<Rightarrow> ('b, 'y) owsys \<Rightarrow> ('b, 'y) owsys" where
  "time_delay L ms \<equiv> udelay L (1000 * ms)"

text \<open>A call of the pin driver; the line is low while the pin is an output whose latch is low.\<close>

definition ow_pin :: "'b ow_line \<Rightarrow> addr \<Rightarrow> (addr \<Rightarrow> gpio_state \<Rightarrow> (fte_ret \<times> gpio_state) option) \<Rightarrow> ('b, 'y) owsys \<Rightarrow> ('b, 'y) owsys option" where
  "ow_pin L p f s = do {
     w \<leftarrow> ows (ow s) p;
     (_, s) \<leftarrow> gpio_do (f (pLWGPIO w)) s;
     l \<leftarrow> lwgpios (gpio (dio s)) (pLWGPIO w);
     let R = regs (gpio (dio s));
     Some (upd_ow (owBus_update (lineDrive L (pin_out (xLWGPIO l) R \<and> \<not> pin_latch (xLWGPIO l) R))) s)
   }"

abbreviation ow_dir :: "'b ow_line \<Rightarrow> addr \<Rightarrow> lwgpio_dir \<Rightarrow> ('b, 'y) owsys \<Rightarrow> ('b, 'y) owsys option" where
  "ow_dir L p d \<equiv> ow_pin L p (\<lambda>q. FTE_LWGPIO_setDirection q d)"

text \<open>\<^verbatim>\<open>FTE_LWGPIO_getValue\<close>, the line's level being at the pin.\<close>

definition ow_value :: "'b ow_line \<Rightarrow> addr \<Rightarrow> ('b, 'y) owsys \<Rightarrow> (bool \<times> ('b, 'y) owsys) option" where
  "ow_value L p s = do {
     w \<leftarrow> ows (ow s) p;
     l \<leftarrow> lwgpios (gpio (dio s)) (pLWGPIO w);
     let s = upd_dio (gpio_update (\<lambda>g. g\<lparr>regs := gpio_drive (hPort (xLWGPIO l)) (hPin (xLWGPIO l))
       (lineLevel L (owBus (ow s))) (regs g)\<rparr>)) s;
     (_, v) \<leftarrow> FTE_LWGPIO_getValue (pLWGPIO w) (gpio (dio s));
     Some (v \<noteq> 0, s)
   }"

definition FTE_1WIRE_reset :: "'b ow_line \<Rightarrow> addr \<Rightarrow> ('b, 'y) owsys \<Rightarrow> (fte_ret \<times> ('b, 'y) owsys) option" where
  "FTE_1WIRE_reset L p s = do {
     s \<leftarrow> ow_pin L p (\<lambda>q. FTE_LWGPIO_setValue q 0) s;
     s \<leftarrow> ow_dir L p LWGPIO_DIR_OUTPUT s;
     let s = udelay L 1000 s;
     s \<leftarrow> ow_dir L p LWGPIO_DIR_INPUT s;
     Some (FTE_RET_OK, time_delay L 1 s)
   }"

text \<open>The reading of a bit up to the sample.\<close>

definition ow_sample :: "'b ow_line \<Rightarrow> addr \<Rightarrow> ('b, 'y) owsys \<Rightarrow> (bool \<times> ('b, 'y) owsys) option" where
  "ow_sample L p s = do {
     let s = int_disable s;
     s \<leftarrow> ow_dir L p LWGPIO_DIR_OUTPUT s;
     let s = udelay L 2 s;
     s \<leftarrow> ow_dir L p LWGPIO_DIR_INPUT s;
     let s = udelay L 5 s;
     ow_value L p s
   }"

section \<open>Bytes\<close>

text \<open>A bit of the byte \<open>i\<close> that is read, and a bit that is written.\<close>

definition ow_read_slot :: "'b ow_line \<Rightarrow> addr \<Rightarrow> nat \<Rightarrow> nat \<Rightarrow> u8 list \<times> ('b, 'y) owsys \<Rightarrow> (u8 list \<times> ('b, 'y) owsys) option" where
  "ow_read_slot L p i j x = (let (buf, s) = x in do {
     (b, s) \<leftarrow> ow_sample L p s;
     let s = int_enable (udelay L (FTE_1WIRE_TIME_SLOT - 7) s);
     Some (if b then buf[i := buf ! i OR push_bit j 1] else buf, s)
   })"

definition FTE_1WIRE_read :: "'b ow_line \<Rightarrow> addr \<Rightarrow> nat \<Rightarrow> ('b, 'y) owsys \<Rightarrow> (fte_ret \<times> u8 list \<times> ('b, 'y) owsys) option" where
  "FTE_1WIRE_read L p n s = do {
     (buf, s) \<leftarrow> for_loop (\<lambda>i. for_loop (ow_read_slot L p i) 0 8) 0 n (replicate n 0, s);
     Some (FTE_RET_OK, buf, s)
   }"

definition ow_send_bit :: "'b ow_line \<Rightarrow> addr \<Rightarrow> bool \<Rightarrow> ('b, 'y) owsys \<Rightarrow> ('b, 'y) owsys option" where
  "ow_send_bit L p b s = do {
     let s = int_disable s;
     s \<leftarrow> ow_dir L p LWGPIO_DIR_OUTPUT s;
     let s = udelay L 5 s;
     s \<leftarrow> (if \<not> b then ow_dir L p LWGPIO_DIR_INPUT (udelay L (FTE_1WIRE_TIME_SLOT - 20) s)
       else map_option (udelay L (FTE_1WIRE_TIME_SLOT - 20)) (ow_dir L p LWGPIO_DIR_INPUT s));
     Some (udelay L 15 (int_enable s))
   }"

definition FTE_1WIRE_write :: "'b ow_line \<Rightarrow> addr \<Rightarrow> u8 list \<Rightarrow> ('b, 'y) owsys \<Rightarrow> (fte_ret \<times> ('b, 'y) owsys) option" where
  "FTE_1WIRE_write L p buf s = do {
     s \<leftarrow> for_loop (\<lambda>i. for_loop (\<lambda>j. ow_send_bit L p (bit (buf ! i) j)) 0 8) 0 (length buf) s;
     Some (FTE_RET_OK, time_delay L 1 s)
   }"

text \<open>The two loops of \<^verbatim>\<open>FTE_1WIRE_writeBits\<close> end a bit differently: after the bits of whole
  bytes the interrupts are enabled, after the others they are disabled once more.\<close>

definition ow_write_bit :: "'b ow_line \<Rightarrow> addr \<Rightarrow> bool \<Rightarrow> ('b, 'y) owsys \<Rightarrow> ('b, 'y) owsys option" where
  "ow_write_bit L p b s = do {
     let s = int_disable s;
     s \<leftarrow> ow_dir L p LWGPIO_DIR_OUTPUT s;
     let s = udelay L 2 s;
     (if \<not> b then ow_dir L p LWGPIO_DIR_INPUT (udelay L 100 s)
      else map_option (udelay L 100) (ow_dir L p LWGPIO_DIR_INPUT s))
   }"

definition FTE_1WIRE_writeBits :: "'b ow_line \<Rightarrow> addr \<Rightarrow> u8 list \<Rightarrow> nat \<Rightarrow> ('b, 'y) owsys \<Rightarrow> (fte_ret \<times> ('b, 'y) owsys) option" where
  "FTE_1WIRE_writeBits L p dat bit_len s = do {
     guard_opt (bit_len \<le> 8 * length dat);
     s \<leftarrow> for_loop (\<lambda>i. for_loop (\<lambda>j s. do {
         s \<leftarrow> ow_write_bit L p (bit (dat ! i) j) s;
         Some (udelay L (FTE_1WIRE_TIME_SLOT - 100) (int_enable s))
       }) 0 8) 0 (bit_len div 8) s;
     s \<leftarrow> for_loop (\<lambda>j s. do {
         s \<leftarrow> ow_write_bit L p (bit (dat ! (bit_len div 8)) j) s;
         Some (udelay L (FTE_1WIRE_TIME_SLOT - 100) (int_disable s))
       }) 0 (bit_len mod 8) s;
     Some (FTE_RET_OK, s)
   }"

definition FTE_1WIRE_writeByte :: "'b ow_line \<Rightarrow> addr \<Rightarrow> u8 \<Rightarrow> ('b, 'y) owsys \<Rightarrow> (fte_ret \<times> ('b, 'y) owsys) option" where
  "FTE_1WIRE_writeByte L p b s = FTE_1WIRE_writeBits L p [b] 8 s"

text \<open>\<open>n\<close> bits into a byte.  The code returned is \<^verbatim>\<open>FTE_RET_ERROR\<close> always.\<close>

definition ow_read_bits :: "'b ow_line \<Rightarrow> addr \<Rightarrow> nat \<Rightarrow> ('b, 'y) owsys \<Rightarrow> (u8 \<times> ('b, 'y) owsys) option" where
  "ow_read_bits L p n s = for_loop (\<lambda>j (nBuff, s). do {
     (b, s) \<leftarrow> ow_sample L p s;
     let s = udelay L (FTE_1WIRE_TIME_SLOT - 7) (int_enable s);
     Some (if b then nBuff OR push_bit j 1 else nBuff, s)
   }) 0 n (0, s)"

definition FTE_1WIRE_readBits :: "'b ow_line \<Rightarrow> addr \<Rightarrow> nat \<Rightarrow> ('b, 'y) owsys \<Rightarrow> (fte_ret \<times> u8 list \<times> ('b, 'y) owsys) option" where
  "FTE_1WIRE_readBits L p bit_len s = do {
     (dat, s) \<leftarrow> for_loop (\<lambda>i (dat, s). do { (b, s) \<leftarrow> ow_read_bits L p 8 s; Some (dat @ [b], s) })
       0 (bit_len div 8) ([], s);
     (b, s) \<leftarrow> ow_read_bits L p (bit_len mod 8) s;
     Some (FTE_RET_ERROR, dat @ [b], s)
   }"

section \<open>The search\<close>

definition GET_BIT_AT :: "rom \<Rightarrow> nat \<Rightarrow> bool" where "GET_BIT_AT v n = bit (v ! (n div 8)) (n mod 8)"
definition SET_BIT_AT :: "rom \<Rightarrow> nat \<Rightarrow> rom" where "SET_BIT_AT v n = v[n div 8 := v ! (n div 8) OR push_bit (n mod 8) 1]"
definition CLR_BIT_AT :: "rom \<Rightarrow> nat \<Rightarrow> rom" where "CLR_BIT_AT v n = v[n div 8 := v ! (n div 8) AND NOT (push_bit (n mod 8) 1)]"

record ow_search =
  sROM :: rom
  pComPos :: "u8 list"
  nComPos :: u8
  bFound :: bool

text \<open>The rest of the byte, and the bytes behind.\<close>

definition clear_after :: "nat \<Rightarrow> rom \<Rightarrow> rom" where
  "clear_after i v = foldl (\<lambda>v j. v[j := 0]) (foldl CLR_BIT_AT v [i + 1..<(i div 8 + 1) * 8]) [i div 8 + 1..<8]"

definition top_pos :: "ow_search \<Rightarrow> nat" where "top_pos x = unat (pComPos x ! (unat (nComPos x) - 1))"

text \<open>The \<^verbatim>\<open>switch\<close>; whether the label \<^verbatim>\<open>finished\<close> is taken comes first.  The stack has room for 64
  positions.\<close>

definition search_switch :: "nat \<Rightarrow> u8 \<Rightarrow> ow_search \<Rightarrow> (bool \<times> ow_search) option" where
  "search_switch i d x =
     (if d = 0 then
        (if \<not> GET_BIT_AT (sROM x) i then
           (if nComPos x = 0 \<or> top_pos x < i then do {
              guard_opt (unat (nComPos x) < length (pComPos x));
              Some (False, x\<lparr>pComPos := (pComPos x)[unat (nComPos x) := of_nat i], nComPos := nComPos x + 1, bFound := True\<rparr>)
            } else if top_pos x = i then
              Some (False, x\<lparr>sROM := clear_after i (SET_BIT_AT (sROM x) i), nComPos := nComPos x - 1, bFound := True\<rparr>)
            else Some (False, x\<lparr>bFound := True\<rparr>))
         else Some (False, x))
      else if d = 1 then
        Some (False, if \<not> GET_BIT_AT (sROM x) i then x\<lparr>sROM := SET_BIT_AT (sROM x) i, bFound := True\<rparr> else x)
      else if d = 2 then
        Some (False, if GET_BIT_AT (sROM x) i then x\<lparr>sROM := CLR_BIT_AT (sROM x) i, bFound := True\<rparr> else x)
      else Some (True, x))"

text \<open>The loop over the bits from \<open>i\<close>, \<open>n\<close> of them.\<close>

primrec search_bits :: "'b ow_line \<Rightarrow> addr \<Rightarrow> nat \<Rightarrow> nat \<Rightarrow> ow_search \<times> ('b, 'y) owsys \<Rightarrow> (bool \<times> ow_search \<times> ('b, 'y) owsys) option" where
  "search_bits L p i 0 xs = Some (False, xs)"
| "search_bits L p i (Suc n) xs = do {
     let (x, s) = xs;
     (_, dat, s) \<leftarrow> FTE_1WIRE_readBits L p 2 s;
     (fin, x) \<leftarrow> search_switch i (hd dat) x;
     if fin then Some (True, x, s)
     else do {
       (_, s) \<leftarrow> FTE_1WIRE_writeBits L p [of_bool (GET_BIT_AT (sROM x) i)] 1 s;
       search_bits L p (Suc i) n (x, s)
     }
   }"

partial_function (option) search_loop :: "'b ow_line \<Rightarrow> addr \<Rightarrow> u32 \<Rightarrow> ow_search \<Rightarrow> rom list \<Rightarrow> ('b, 'y) owsys \<Rightarrow> (rom list \<times> ('b, 'y) owsys) option" where
  "search_loop L p nMaxCount x out s = do {
     (_, s) \<leftarrow> FTE_1WIRE_reset L p s;
     (_, s) \<leftarrow> FTE_1WIRE_writeByte L p 0xF0 s;
     (fin, x, s) \<leftarrow> search_bits L p 0 64 (x\<lparr>bFound := False\<rparr>, s);
     if fin then Some (out, s)
     else if bFound x \<and> foldl (AND) 0xFF (sROM x) \<noteq> 0xFF \<and> foldl (OR) 0 (sROM x) \<noteq> 0
     then search_loop L p nMaxCount x (if length out < unat nMaxCount then out @ [sROM x] else out) (time_delay L 10 s)
     else Some (out, s)
   }"

definition search_zero :: ow_search where
  "search_zero = \<lparr>sROM = replicate 8 0, pComPos = replicate 64 0, nComPos = 0, bFound = False\<rparr>"

text \<open>The codes are what the loop writes to \<^verbatim>\<open>pROMCodes\<close>; the count returned is their number.\<close>

definition FTE_1WIRE_search :: "'b ow_line \<Rightarrow> addr \<Rightarrow> u32 \<Rightarrow> ('b, 'y) owsys \<Rightarrow> (rom list \<times> ('b, 'y) owsys) option" where
  "FTE_1WIRE_search L p nMaxCount s = do {
     (_, s) \<leftarrow> FTE_1WIRE_lock p s;
     (out, s) \<leftarrow> search_loop L p nMaxCount search_zero [] s;
     (_, s) \<leftarrow> FTE_1WIRE_unlock p s;
     Some (out, s)
   }"

section \<open>Buses\<close>

definition FTE_1WIRE_discovery :: "'b ow_line \<Rightarrow> addr \<Rightarrow> ('b, 'y) owsys \<Rightarrow> (fte_ret \<times> ('b, 'y) owsys) option" where
  "FTE_1WIRE_discovery L p s = do {
     guard_opt (p \<noteq> NULL);
     w \<leftarrow> ows (ow s) p;
     let m = nMaxDevices (owConfig w);
     (out, s) \<leftarrow> FTE_1WIRE_search L p m s;
     s \<leftarrow> upd_1wire p (\<lambda>w. w\<lparr>pROMCodes := out @ replicate (unat m - length out) (replicate 8 0),
       nROMCodes := of_nat (length out)\<rparr>) s;
     Some (FTE_RET_OK, s)
   }"

definition FTE_1WIRE_attach :: "'b ow_line \<Rightarrow> addr \<Rightarrow> u32 \<Rightarrow> ('b, 'y) owsys \<Rightarrow> (fte_ret \<times> ('b, 'y) owsys) option" where
  "FTE_1WIRE_attach L p nParent s = do {
     w \<leftarrow> ows (ow s) p;
     q \<leftarrow> FTE_LWGPIO_get (xGPIO (owConfig w)) (gpio (dio s));
     s \<leftarrow> upd_1wire p (\<lambda>w. w\<lparr>pLWGPIO := q\<rparr>) s;
     if q = NULL then Some (FTE_RET_INVALID_OBJECT, s)
     else do {
       (r, s) \<leftarrow> gpio_do (FTE_LWGPIO_attach q (owID (owConfig w))) s;
       if r \<noteq> FTE_RET_OK then Some (FTE_RET_ERROR, s)
       else do {
         s \<leftarrow> ow_pin L p (\<lambda>q. FTE_LWGPIO_setValue q 0) s;
         s \<leftarrow> upd_1wire p (\<lambda>w. w\<lparr>owParent := nParent\<rparr>) s;
         (_, s) \<leftarrow> FTE_1WIRE_discovery L p s;
         Some (FTE_RET_OK, s)
       }
     }
   }"

definition FTE_1WIRE_detach :: "addr \<Rightarrow> ('b, 'y) owsys \<Rightarrow> (fte_ret \<times> ('b, 'y) owsys) option" where
  "FTE_1WIRE_detach p s = do {
     w \<leftarrow> ows (ow s) p;
     (_, s) \<leftarrow> gpio_do (FTE_LWGPIO_detach (pLWGPIO w)) s;
     s \<leftarrow> upd_1wire p (\<lambda>w. w\<lparr>pLWGPIO := NULL, owParent := 0\<rparr>) s;
     Some (FTE_RET_OK, s)
   }"

text \<open>\<open>ow_create_error\<close> is the code behind the label \<^verbatim>\<open>error\<close> for a bus that has been allocated.\<close>

definition ow_create_error :: "addr \<Rightarrow> addr \<Rightarrow> ('b, 'y) owsys \<Rightarrow> ('b, 'y) owsys option" where
  "ow_create_error p q s = do {
     let (_, s) = FTE_SYS_LOCK_final (xLock p) s;
     s \<leftarrow> FTE_MEM_free q s;
     s \<leftarrow> FTE_MEM_free p s;
     Some (upd_ow (\<lambda>d. d\<lparr>ows := (ows d)(p := None)\<rparr>) s)
   }"

definition FTE_1WIRE_create :: "'b ow_line \<Rightarrow> ow_config \<Rightarrow> ('b, 'y) owsys \<Rightarrow> (fte_ret \<times> ('b, 'y) owsys) option" where
  "FTE_1WIRE_create L c s = do {
     let (p, s) = FTE_MEM_alloc s;
     if p = NULL then Some (FTE_RET_NOT_ENOUGH_MEMORY, s)
     else do {
       let (q, s) = FTE_MEM_alloc s;
       if q = NULL then do { s \<leftarrow> ow_create_error p NULL s; Some (FTE_RET_NOT_ENOUGH_MEMORY, s) }
       else do {
         let s = upd_ow (\<lambda>d. d\<lparr>ows := (ows d)(p \<mapsto> \<lparr>owConfig = c, owParent = 0, pROMMem = q,
           pROMCodes = replicate (unat (nMaxDevices c)) (replicate 8 0), nROMCodes = 0, pLWGPIO = NULL\<rparr>)\<rparr>) s;
         let (_, s) = FTE_SYS_LOCK_init (xLock p) 1 s;
         (r, s) \<leftarrow> (if owFlags c AND FTE_DEV_FLAG_SYSTEM_DEVICE \<noteq> 0 then FTE_1WIRE_attach L p FTE_DEV_TYPE_ROOT s
           else Some (FTE_RET_OK, s));
         if r \<noteq> FTE_RET_OK then do { s \<leftarrow> ow_create_error p q s; Some (r, s) }
         else Some (FTE_RET_OK, upd_ow (\<lambda>d. d\<lparr>owChain := p # owChain d, n1Wires := n1Wires d + 1\<rparr>) s)
       }
     }
   }"

definition FTE_1WIRE_get :: "u32 \<Rightarrow> ('b, 'y) owsys \<Rightarrow> (fte_ret \<times> addr option) option" where
  "FTE_1WIRE_get i s = do {
     p \<leftarrow> chain_find (ows (ow s)) (\<lambda>w. owID (owConfig w) = i) (owChain (ow s));
     Some (if p = NULL then (FTE_RET_OBJECT_NOT_FOUND, None) else (FTE_RET_OK, Some p))
   }"

definition FTE_1WIRE_count :: "('b, 'y) owsys \<Rightarrow> u32" where "FTE_1WIRE_count s = n1Wires (ow s)"

definition FTE_1WIRE_getFirst :: "('b, 'y) owsys \<Rightarrow> addr" where
  "FTE_1WIRE_getFirst s = (case owChain (ow s) of [] \<Rightarrow> NULL | p # _ \<Rightarrow> p)"

text \<open>The link of a bus is its successor in the chain.\<close>

definition FTE_1WIRE_getNext :: "addr \<Rightarrow> ('b, 'y) owsys \<Rightarrow> addr" where
  "FTE_1WIRE_getNext p s = (case dropWhile (\<lambda>q. q \<noteq> p) (owChain (ow s)) of _ # q # _ \<Rightarrow> q | _ \<Rightarrow> NULL)"

definition FTE_1WIRE_DEV_count :: "addr \<Rightarrow> ('b, 'y) owsys \<Rightarrow> (fte_ret \<times> u32) option" where
  "FTE_1WIRE_DEV_count p s = do { w \<leftarrow> ows (ow s) p; Some (FTE_RET_OK, nROMCodes w) }"

definition FTE_1WIRE_DEV_getROMCode :: "addr \<Rightarrow> u32 \<Rightarrow> ('b, 'y) owsys \<Rightarrow> (fte_ret \<times> rom) option" where
  "FTE_1WIRE_DEV_getROMCode p nIdx s = do {
     w \<leftarrow> ows (ow s) p;
     guard_opt (unat nIdx < length (pROMCodes w));
     Some (FTE_RET_OK, pROMCodes w ! unat nIdx)
   }"

definition FTE_1WIRE_DEV_appendROMCode :: "addr \<Rightarrow> rom \<Rightarrow> ('b, 'y) owsys \<Rightarrow> (fte_ret \<times> ('b, 'y) owsys) option" where
  "FTE_1WIRE_DEV_appendROMCode p c s = do {
     w \<leftarrow> ows (ow s) p;
     if nMaxDevices (owConfig w) \<le> nROMCodes w then Some (FTE_RET_ERROR, s)
     else do {
       s \<leftarrow> upd_1wire p (\<lambda>w. w\<lparr>pROMCodes := (pROMCodes w)[unat (nROMCodes w) := c], nROMCodes := nROMCodes w + 1\<rparr>) s;
       Some (FTE_RET_OK, s)
     }
   }"

text \<open>\<^verbatim>\<open>strncpy\<close> does not terminate a name that fills the buffer.\<close>

definition FTE_1WIRE_getFamilyName :: "u32 \<Rightarrow> u32 \<Rightarrow> fte_ret \<times> string option" where
  "FTE_1WIRE_getFamilyName ulCode ulLen =
     (if ulCode = 0x28 then (FTE_RET_OK, Some (take (unat ulLen) ''18B20''))
      else (FTE_RET_OBJECT_NOT_FOUND, c_snprintf ulLen (''unknown('' @ fmt_0x 2 ulCode @ '')'')))"

text \<open>The recovery timer: \<open>t\<close> is the timer that MQX started.  Its handler passes a null bus.\<close>

definition FTE_1WIRE_autoRecoveryStart :: "u32 \<Rightarrow> ('b, 'y) owsys \<Rightarrow> fte_ret \<times> ('b, 'y) owsys" where
  "FTE_1WIRE_autoRecoveryStart t s = (FTE_RET_OK, upd_ow (n1WireRecoveryTimerID_update (\<lambda>_. t)) s)"

definition FTE_1WIRE_autoRecoveryRun :: "'b ow_line \<Rightarrow> u32 \<Rightarrow> ('b, 'y) owsys \<Rightarrow> ('b, 'y) owsys option" where
  "FTE_1WIRE_autoRecoveryRun L t s =
     (if n1WireRecoveryTimerID (ow s) \<noteq> t then Some s
      else do { (_, s) \<leftarrow> FTE_1WIRE_discovery L NULL s; Some s })"

end
