(* ===== verification/FTE_Ds18b20.thy ===== *)
theory FTE_Ds18b20
  imports FTE_OneWire FTE_Stat FTE_Crc
begin

unbundle bit_operations_syntax

text \<open>
  Thermometers on a 1-Wire bus: \<^verbatim>\<open>target/source/obj/fte_ds18b20.c\<close>, over the buses of
  \<open>FTE_OneWire\<close>.  A measurement is started over the bus, and a timer's handler reads the
  device's memory 800 ms later, checks it, and sets the object's value.
\<close>

section \<open>State\<close>

text \<open>Per status block: the two timers, the bus and the statistics.  \<open>dsRunning\<close> are the timers of
  MQX that run; a start takes its answer from the supply \<open>timerIDs\<close> (0: no timer).\<close>

record 'b ds_state = "'b ow_state" +
  hRepeatTimer :: "addr \<Rightarrow> u32"
  hConvertTimer :: "addr \<Rightarrow> u32"
  p1Wire :: "addr \<Rightarrow> addr"
  xStatistics :: "addr \<Rightarrow> obj_stat"
  dsRunning :: "u32 list"

type_synonym 'b dssys = "'b ds_state dsys"

text \<open>\<open>dsList\<close> is the address of the driver's own \<^verbatim>\<open>_xObjList\<close>, \<open>dsAction\<close> the number of its table.\<close>

record 'b ds_env =
  dsObjs :: "'b dssys obj_env"
  dsLine :: "'b ow_line"
  dsList :: addr
  dsAction :: nat

abbreviation FTE_OBJ_TYPE_DS18B20 :: u32 where "FTE_OBJ_TYPE_DS18B20 \<equiv> 0x01020000"
abbreviation FTE_OBJ_CLASS_TEMPERATURE :: u32 where "FTE_OBJ_CLASS_TEMPERATURE \<equiv> 0x01000000"
abbreviation FTE_DS18B20_INITIAL_VALUE :: int where "FTE_DS18B20_INITIAL_VALUE \<equiv> 8500"
abbreviation FTE_DS18B20_MAX_VALUE :: int where "FTE_DS18B20_MAX_VALUE \<equiv> 12500"
abbreviation FTE_DS18B20_MIN_VALUE :: int where "FTE_DS18B20_MIN_VALUE \<equiv> -5500"

definition MAKE_ID :: "u32 \<Rightarrow> u32 \<Rightarrow> u32" where "MAKE_ID t n = (t AND FTE_OBJ_TYPE_MASK) OR (n AND 0xFFFF)"

text \<open>Behind the common part of the configuration: \<^verbatim>\<open>nBUSID\<close>, \<^verbatim>\<open>pROMCode\<close>, \<^verbatim>\<open>nInterval\<close>.\<close>

abbreviation cfg_nBUSID :: "object_config \<Rightarrow> u32" where "cfg_nBUSID c \<equiv> nDevID c"
definition cfg_pROMCode :: "object_config \<Rightarrow> rom" where "cfg_pROMCode c = take 8 (obj_rest c)"
definition cfg_nInterval :: "object_config \<Rightarrow> u32" where "cfg_nInterval c = cfg_word 2 c"

definition set_pROMCode :: "rom \<Rightarrow> object_config \<Rightarrow> object_config" where
  "set_pROMCode r c = c\<lparr>obj_rest := take 8 r @ drop 8 (obj_rest c)\<rparr>"

definition set_nInterval :: "u32 \<Rightarrow> object_config \<Rightarrow> object_config" where
  "set_nInterval n c = c\<lparr>obj_rest := take 8 (obj_rest c) @ map (\<lambda>k. ucast (drop_bit (8 * k) n)) [0..<4] @ drop 12 (obj_rest c)\<rparr>"

definition upd_ds :: "('b ds_state \<Rightarrow> 'b ds_state) \<Rightarrow> 'b dssys \<Rightarrow> 'b dssys" where "upd_ds = upd_ow"

definition timer_start :: "'b dssys \<Rightarrow> u32 \<times> 'b dssys" where
  "timer_start s = (case timerIDs (dio s) of
     [] \<Rightarrow> (0, s)
   | t # ts \<Rightarrow> (t, upd_ds (\<lambda>d. if t = 0 then d else d\<lparr>dsRunning := t # dsRunning d\<rparr>) (upd_dio (timerIDs_update (\<lambda>_. ts)) s)))"

definition timer_cancel :: "u32 \<Rightarrow> 'b dssys \<Rightarrow> 'b dssys" where
  "timer_cancel t = upd_ds (\<lambda>d. d\<lparr>dsRunning := removeAll t (dsRunning d)\<rparr>)"

section \<open>The checksum and the reading\<close>

definition ds_crc_bit :: "u8 \<times> u8 \<Rightarrow> u8 \<times> u8" where
  "ds_crc_bit x = (let (nSeed, nData) = x in
     (if (nSeed XOR nData) AND 1 = 0 then drop_bit 1 nSeed else drop_bit 1 (nSeed XOR 0x18) OR 0x80, drop_bit 1 nData))"

definition ds_crc_byte :: "u8 \<Rightarrow> u8 \<Rightarrow> u8" where "ds_crc_byte nSeed d = fst ((ds_crc_bit ^^ 8) (nSeed, d))"

definition FTE_DS18B20_crc :: "u8 list \<Rightarrow> u8 \<Rightarrow> u8" where "FTE_DS18B20_crc ds nSeed = foldl ds_crc_byte nSeed ds"

text \<open>What becomes of the nine bytes read: \<open>None\<close> is \<^verbatim>\<open>FTE_RET_ERROR\<close>.  The division is that of C.\<close>

definition ds_raw :: "u8 list \<Rightarrow> int" where
  "ds_raw v = sint (ucast (v ! 0) OR push_bit 8 (ucast (v ! 1)) :: 16 word)"

definition ds_decode :: "u8 list \<Rightarrow> int option" where
  "ds_decode v = (if v ! 7 = 0xFF \<or> FTE_DS18B20_crc v 0 \<noteq> 0 then None
     else let nValue = c_quot (ds_raw v * 625) 100 in
       Some (if FTE_DS18B20_MAX_VALUE \<le> nValue then FTE_DS18B20_MAX_VALUE
             else if nValue \<le> FTE_DS18B20_MIN_VALUE then FTE_DS18B20_MIN_VALUE else nValue))"

definition ds_bus :: "addr \<Rightarrow> 'b dssys \<Rightarrow> (object_config \<times> addr) option" where
  "ds_bus pObj s = do { ob \<leftarrow> objs s pObj; Some (oConfig ob, p1Wire (ow s) (pStatusP ob)) }"

definition DS18B20_start_convert :: "'b ow_line \<Rightarrow> addr \<Rightarrow> 'b dssys \<Rightarrow> (fte_ret \<times> 'b dssys) option" where
  "DS18B20_start_convert L pObj s = do {
     (c, p) \<leftarrow> ds_bus pObj s;
     (_, s) \<leftarrow> FTE_1WIRE_lock p s;
     (_, s) \<leftarrow> FTE_1WIRE_reset L p s;
     (_, s) \<leftarrow> FTE_1WIRE_writeByte L p 0x55 s;
     (_, s) \<leftarrow> FTE_1WIRE_write L p (cfg_pROMCode c) s;
     (_, s) \<leftarrow> FTE_1WIRE_writeByte L p 0x44 s;
     (_, s) \<leftarrow> FTE_1WIRE_unlock p s;
     Some (FTE_RET_OK, s)
   }"

definition DS18B20_get_temperature :: "'b ow_line \<Rightarrow> addr \<Rightarrow> 'b dssys \<Rightarrow> (int option \<times> 'b dssys) option" where
  "DS18B20_get_temperature L pObj s = do {
     (c, p) \<leftarrow> ds_bus pObj s;
     (_, s) \<leftarrow> FTE_1WIRE_lock p s;
     (_, s) \<leftarrow> FTE_1WIRE_reset L p s;
     (_, s) \<leftarrow> FTE_1WIRE_writeByte L p 0x55 s;
     (_, s) \<leftarrow> FTE_1WIRE_write L p (cfg_pROMCode c) s;
     (_, s) \<leftarrow> FTE_1WIRE_writeByte L p 0xBE s;
     (_, v, s) \<leftarrow> FTE_1WIRE_read L p 9 s;
     (_, s) \<leftarrow> FTE_1WIRE_unlock p s;
     Some (ds_decode v, s)
   }"

section \<open>Handlers\<close>

definition upd_stat :: "addr \<Rightarrow> bool \<Rightarrow> 'b dssys \<Rightarrow> 'b dssys" where
  "upd_stat q ok s =
     (if ok then upd_ds (\<lambda>d. d\<lparr>xStatistics := (xStatistics d)(q := snd (FT_OBJ_STAT_incSucceed (xStatistics d q)))\<rparr>) s
      else let (_, bad, st) = FT_OBJ_STAT_incFailed (cfg s) (xStatistics (ow s) q);
               s = upd_ds (\<lambda>d. d\<lparr>xStatistics := (xStatistics d)(q := st)\<rparr>) s
           in if bad then s\<lparr>unstable := True\<rparr> else s)"

text \<open>The handler of the conversion timer.\<close>

definition DS18B20_done :: "'b ow_line \<Rightarrow> addr \<Rightarrow> 'b dssys \<Rightarrow> 'b dssys option" where
  "DS18B20_done L pObj s = do {
     ob \<leftarrow> objs s pObj;
     let q = pStatusP ob;
     let s = upd_ds (\<lambda>d. d\<lparr>hConvertTimer := (hConvertTimer d)(q := 0)\<rparr>) s;
     (t, s) \<leftarrow> DS18B20_get_temperature L pObj s;
     ob \<leftarrow> objs s pObj;
     v \<leftarrow> obj_value ob;
     case t of
       Some t \<Rightarrow>
         if t = FTE_DS18B20_INITIAL_VALUE then do {
           s \<leftarrow> upd_value pObj (snd (FTE_VALUE_setValid False v)) s;
           Some (upd_stat q False s)
         } else do {
           s \<leftarrow> upd_value pObj (snd (FTE_VALUE_setTemperature (clock (dio s)) (word_of_int t) v)) s;
           Some (upd_stat q True s)
         }
     | None \<Rightarrow> do {
         s \<leftarrow> upd_value pObj (snd (FTE_VALUE_setValid False v)) s;
         Some (upd_stat q False s)
       }
   }"

definition start_and_wait :: "'b ow_line \<Rightarrow> addr \<Rightarrow> 'b dssys \<Rightarrow> 'b dssys option" where
  "start_and_wait L pObj s = do {
     ob \<leftarrow> objs s pObj;
     (_, s) \<leftarrow> DS18B20_start_convert L pObj s;
     let (t, s) = timer_start s;
     Some (upd_ds (\<lambda>d. d\<lparr>hConvertTimer := (hConvertTimer d)(pStatusP ob := t)\<rparr>) s)
   }"

definition DS18B20_restart_convert :: "'b ow_line \<Rightarrow> addr \<Rightarrow> 'b dssys \<Rightarrow> 'b dssys option" where
  "DS18B20_restart_convert L pObj s = do {
     ob \<leftarrow> objs s pObj;
     if FTE_OBJ_IS_ENABLED ob then start_and_wait L pObj s
     else Some (upd_ds (\<lambda>d. d\<lparr>hRepeatTimer := (hRepeatTimer d)(pStatusP ob := 0)\<rparr>)
            (timer_cancel (hRepeatTimer (ow s) (pStatusP ob)) s))
   }"

section \<open>Callbacks of the object\<close>

definition FTE_DS18B20_isValid :: "fte_object \<Rightarrow> bool" where
  "FTE_DS18B20_isValid ob \<longleftrightarrow> foldl (OR) 0 (cfg_pROMCode (oConfig ob)) \<noteq> 0"

definition DS18B20_init :: "addr \<Rightarrow> 'b dssys \<Rightarrow> (fte_ret \<times> 'b dssys) option" where
  "DS18B20_init pObj s = Some (FTE_RET_OK, s)"

definition DS18B20_run :: "'b ow_line \<Rightarrow> addr \<Rightarrow> 'b dssys \<Rightarrow> (fte_ret \<times> 'b dssys) option" where
  "DS18B20_run L pObj s = do {
     ob \<leftarrow> objs s pObj;
     if \<not> FTE_DS18B20_isValid ob then Some (FTE_RET_ERROR, s)
     else do {
       let (t, s) = timer_start s;
       let s = upd_ds (\<lambda>d. d\<lparr>hRepeatTimer := (hRepeatTimer d)(pStatusP ob := t)\<rparr>) s;
       s \<leftarrow> start_and_wait L pObj s;
       Some (FTE_RET_OK, s)
     }
   }"

definition DS18B20_stop :: "addr \<Rightarrow> 'b dssys \<Rightarrow> (fte_ret \<times> 'b dssys) option" where
  "DS18B20_stop pObj s = do {
     ob \<leftarrow> objs s pObj;
     let q = pStatusP ob;
     let s = (if hRepeatTimer (ow s) q \<noteq> 0
       then upd_ds (\<lambda>d. d\<lparr>hRepeatTimer := (hRepeatTimer d)(q := 0)\<rparr>) (timer_cancel (hRepeatTimer (ow s) q) s) else s);
     let s = (if hConvertTimer (ow s) q \<noteq> 0
       then upd_ds (\<lambda>d. d\<lparr>hConvertTimer := (hConvertTimer d)(q := 0)\<rparr>) (timer_cancel (hConvertTimer (ow s) q) s) else s);
     Some (FTE_RET_OK, s)
   }"

definition DS18B20_get_sn :: "fte_object \<Rightarrow> u32 \<Rightarrow> fte_ret \<times> string option" where
  "DS18B20_get_sn ob nLen = (FTE_RET_OK, c_snprintf nLen (concat (map (\<lambda>b. fmt_0x 2 (ucast b)) (cfg_pROMCode (oConfig ob)))))"

definition DS18B20_get_update_interval :: "addr \<Rightarrow> 'b dssys \<Rightarrow> (fte_ret \<times> u32 \<times> 'b dssys) option" where
  "DS18B20_get_update_interval pObj s = do { ob \<leftarrow> objs s pObj; Some (FTE_RET_OK, cfg_nInterval (oConfig ob), s) }"

definition DS18B20_set_update_interval :: "addr \<Rightarrow> u32 \<Rightarrow> 'b dssys \<Rightarrow> (fte_ret \<times> 'b dssys) option" where
  "DS18B20_set_update_interval pObj nInterval s = do {
     s \<leftarrow> upd_obj pObj (\<lambda>ob. ob\<lparr>oConfig := set_nInterval nInterval (oConfig ob)\<rparr>) s;
     (_, s) \<leftarrow> FTE_OBJ_save pObj s;
     Some (FTE_RET_OK, s)
   }"

definition DS18B20_statistic :: "addr \<Rightarrow> 'b dssys \<Rightarrow> (fte_ret \<times> obj_stat) option" where
  "DS18B20_statistic pObj s = do { ob \<leftarrow> objs s pObj; Some (FTE_RET_OK, xStatistics (ow s) (pStatusP ob)) }"

definition DS18B20_action :: "'b ow_line \<Rightarrow> 'b dssys obj_action" where
  "DS18B20_action L = \<lparr>fInit = Some DS18B20_init, fRun = Some (DS18B20_run L), fStop = Some DS18B20_stop, fSet = None,
     fSetMulti = None, fGetMulti = None, fGetInterval = Some DS18B20_get_update_interval,
     fSetInterval = Some DS18B20_set_update_interval, fAttachChild = None, fDetachChild = None, fGetChildCount = None, fGetChild = None\<rparr>"

section \<open>Objects\<close>

text \<open>The status block comes cleared from \<^verbatim>\<open>FTE_OBJ_create\<close>.\<close>

definition FTE_DS18B20_attach :: "'b ds_env \<Rightarrow> addr \<Rightarrow> 'b dssys \<Rightarrow> (fte_ret \<times> 'b dssys) option" where
  "FTE_DS18B20_attach E pObj s = do {
     ob \<leftarrow> objs s pObj;
     let q = pStatusP ob;
     let s = upd_ds (\<lambda>d. d\<lparr>hRepeatTimer := (hRepeatTimer d)(q := 0), hConvertTimer := (hConvertTimer d)(q := 0),
       p1Wire := (p1Wire d)(q := NULL), xStatistics := (xStatistics d)(q := stat_zero)\<rparr>) s;
     let (pValue, s) = FTE_MEM_alloc s;
     case FTE_VALUE_createTemperature (pValue \<noteq> NULL) of
       None \<Rightarrow> Some (FTE_RET_ERROR, s)
     | Some v \<Rightarrow> do {
         s \<leftarrow> upd_obj pObj (\<lambda>ob. ob\<lparr>oValues := [v]\<rparr>) s;
         (r, w) \<leftarrow> FTE_1WIRE_get (cfg_nBUSID (oConfig ob)) s;
         case w of
           None \<Rightarrow> dio_attach_error pObj pValue s
         | Some w \<Rightarrow> do {
             let s = upd_ds (\<lambda>d. d\<lparr>p1Wire := (p1Wire d)(q := w)\<rparr>) s;
             s \<leftarrow> upd_obj pObj (\<lambda>ob. ob\<lparr>oAction := Some (dsAction E)\<rparr>) s;
             (_, s) \<leftarrow> DS18B20_init pObj s;
             (_, s) \<leftarrow> FTE_LIST_pushBack (dsList E) pObj s;
             Some (FTE_RET_OK, s)
           }
       }
   }"

text \<open>The object stays in the driver's list.\<close>

definition FTE_DS18B20_detach :: "'b ds_env \<Rightarrow> addr \<Rightarrow> 'b dssys \<Rightarrow> (fte_ret \<times> 'b dssys) option" where
  "FTE_DS18B20_detach E pObj s = do {
     found \<leftarrow> FTE_LIST_isExist (dsList E) pObj s;
     if \<not> found then Some (FTE_RET_ERROR, s)
     else do {
       (_, s) \<leftarrow> DS18B20_stop pObj s;
       s \<leftarrow> upd_obj pObj (\<lambda>ob. ob\<lparr>oAction := None\<rparr>) s;
       Some (FTE_RET_OK, s)
     }
   }"

definition FTE_DS18B20_setROMCode :: "addr \<Rightarrow> rom \<Rightarrow> 'b dssys \<Rightarrow> (fte_ret \<times> 'b dssys) option" where
  "FTE_DS18B20_setROMCode pObj r s = do {
     s \<leftarrow> upd_obj pObj (\<lambda>ob. ob\<lparr>oConfig := set_pROMCode r (oConfig ob)\<rparr>) s;
     (_, s) \<leftarrow> FTE_OBJ_save pObj s;
     Some (FTE_RET_OK, s)
   }"

definition ds_walk :: "'b ds_env \<Rightarrow> (addr \<Rightarrow> fte_object \<Rightarrow> 'a \<Rightarrow> 'a + 'a) \<Rightarrow> 'a \<Rightarrow> 'b dssys \<Rightarrow> ('a \<times> 'b dssys) option" where
  "ds_walk E = obj_walk ((dsObjs E)\<lparr>xObjList := dsList E\<rparr>)"

definition FTE_DS18B20_isExistROMCode :: "'b ds_env \<Rightarrow> rom \<Rightarrow> 'b dssys \<Rightarrow> (bool \<times> 'b dssys) option" where
  "FTE_DS18B20_isExistROMCode E r = ds_walk E (\<lambda>_ ob x. if cfg_pROMCode (oConfig ob) = take 8 r then Inr True else Inl x) False"

text \<open>The marks of \<^verbatim>\<open>nIDs\<close>; an identifier with index 0 marks the byte before the array.\<close>

definition ds_mark :: "fte_object \<Rightarrow> bool list option \<Rightarrow> bool list option" where
  "ds_mark ob ids = (case ids of None \<Rightarrow> None
     | Some ids \<Rightarrow> if obj_id ob AND 0xFF = 0 then None else Some (ids[unat (obj_id ob AND 0xFF) - 1 := True]))"

text \<open>The identifier is set only when an index is free; it is made from the number of objects.  The
  slot keeps its children, and the pool is not marked as modified.\<close>

definition FTE_DS18B20_create :: "'b ds_env \<Rightarrow> u32 \<Rightarrow> rom \<Rightarrow> 'b dssys \<Rightarrow> (addr \<times> 'b dssys) option" where
  "FTE_DS18B20_create E nBUSID r s = do {
     (ids, s) \<leftarrow> ds_walk E (\<lambda>_ ob ids. Inl (ds_mark ob ids)) (Some (replicate 255 False)) s;
     ids \<leftarrow> ids;
     guard_opt (False \<in> set ids);
     let nOID = MAKE_ID FTE_OBJ_TYPE_DS18B20 (FTE_CFG_OBJ_count FTE_OBJ_CLASS_TEMPERATURE FTE_OBJ_CLASS_MASK (cfg s) + 1);
     let (i, c) = FTE_CFG_OBJ_alloc (cfg s);
     let s = s\<lparr>cfg := c\<rparr>;
     case i of
       None \<Rightarrow> Some (NULL, s)
     | Some i \<Rightarrow> do {
         let x = set_pROMCode r (set_nInterval 10000 ((objects (cfg s) ! i)\<lparr>nDevID := nBUSID, nID := nOID, xFlags := 3,
           pName := take 16 (''DS18B20-'' @ fmt_d (sint nOID))\<rparr>));
         let s = s\<lparr>cfg := set_object i x (cfg s)\<rparr>;
         (pObj, s) \<leftarrow> FTE_OBJ_create (dsObjs E) x s;
         if pObj = NULL then Some (NULL, s\<lparr>cfg := snd (FTE_CFG_OBJ_free nOID (cfg s))\<rparr>)
         else Some (pObj, s)
       }
   }"

definition FTE_DS18B20_destroy :: "'b ds_env \<Rightarrow> addr \<Rightarrow> 'b dssys \<Rightarrow> (fte_ret \<times> 'b dssys) option" where
  "FTE_DS18B20_destroy E pObj s = do {
     ob \<leftarrow> objs s pObj;
     let s = s\<lparr>cfg := snd (FTE_CFG_OBJ_free (obj_id ob) (cfg s))\<rparr>;
     (_, s) \<leftarrow> FTE_OBJ_destroy (dsObjs E) pObj s;
     Some (FTE_RET_OK, s)
   }"

section \<open>Discovery\<close>

text \<open>\<^verbatim>\<open>FTE_OBJ_1WIRE_discovery\<close> of \<^verbatim>\<open>obj/fte_object.c\<close>: every bus is searched, and the thermometers found
  for the first time become objects.  The tests of the two callbacks end in a semicolon: both
  are called in any case.  The second result of a device's step is whether the loop goes on.\<close>

definition disc_call :: "(addr \<Rightarrow> 'b dssys \<Rightarrow> (fte_ret \<times> 'b dssys) option) option \<Rightarrow> addr \<Rightarrow> 'b dssys \<Rightarrow> 'b dssys option" where
  "disc_call f pObj s = do { f \<leftarrow> f; (_, s) \<leftarrow> f pObj s; Some s }"

definition disc_device :: "'b ds_env \<Rightarrow> bool \<Rightarrow> addr \<Rightarrow> u32 \<Rightarrow> nat \<Rightarrow> u32 \<Rightarrow> 'b dssys \<Rightarrow> (bool \<times> u32 \<times> 'b dssys) option" where
  "disc_device E bSave p nBUSID nIndex ulCount s = do {
     (_, r) \<leftarrow> FTE_1WIRE_DEV_getROMCode p (of_nat nIndex) s;
     if snd (FTE_1WIRE_getFamilyName (ucast (r ! 0)) 31) \<noteq> Some ''18B20'' then Some (True, ulCount, s)
     else do {
       (known, s) \<leftarrow> FTE_DS18B20_isExistROMCode E r s;
       if known then Some (True, ulCount, s)
       else do {
         (pObj, s) \<leftarrow> FTE_DS18B20_create E nBUSID r s;
         if pObj = NULL then Some (False, ulCount, s)
         else do {
           ob \<leftarrow> objs s pObj;
           a \<leftarrow> oAction ob;
           s \<leftarrow> disc_call (fInit (actions (dsObjs E) a)) pObj s;
           s \<leftarrow> disc_call (fRun (actions (dsObjs E) a)) pObj s;
           ob \<leftarrow> objs s pObj;
           let s = (if bSave then s\<lparr>cfg := snd (FTE_CFG_OBJ_save (oConfig ob) (cfg s))\<rparr> else s);
           Some (True, ulCount + 1, s)
         }
       }
     }
   }"

primrec disc_devices :: "'b ds_env \<Rightarrow> bool \<Rightarrow> addr \<Rightarrow> u32 \<Rightarrow> nat \<Rightarrow> nat \<Rightarrow> u32 \<Rightarrow> 'b dssys \<Rightarrow> (u32 \<times> 'b dssys) option" where
  "disc_devices E bSave p nBUSID i 0 ulCount s = Some (ulCount, s)"
| "disc_devices E bSave p nBUSID i (Suc n) ulCount s = do {
     (go, ulCount, s) \<leftarrow> disc_device E bSave p nBUSID i ulCount s;
     if go then disc_devices E bSave p nBUSID (Suc i) n ulCount s else Some (ulCount, s)
   }"

fun disc_buses :: "'b ds_env \<Rightarrow> bool \<Rightarrow> addr list \<Rightarrow> u32 \<Rightarrow> 'b dssys \<Rightarrow> (u32 \<times> 'b dssys) option" where
  "disc_buses E bSave [] ulCount s = Some (ulCount, s)"
| "disc_buses E bSave (p # ps) ulCount s = do {
     (_, s) \<leftarrow> FTE_1WIRE_discovery (dsLine E) p s;
     w \<leftarrow> ows (ow s) p;
     (_, n) \<leftarrow> FTE_1WIRE_DEV_count p s;
     (ulCount, s) \<leftarrow> disc_devices E bSave p (owID (owConfig w)) 0 (unat n) ulCount s;
     disc_buses E bSave ps ulCount s
   }"

definition FTE_OBJ_1WIRE_discovery :: "'b ds_env \<Rightarrow> bool \<Rightarrow> cfg_env \<Rightarrow> cfg_flash \<Rightarrow> write_outcome list \<Rightarrow> 'b dssys
    \<Rightarrow> (fte_ret \<times> u32 \<times> cfg_flash \<times> 'b dssys) option" where
  "FTE_OBJ_1WIRE_discovery E bSave C F ws s = do {
     (n, s) \<leftarrow> disc_buses E bSave (owChain (ow s)) 0 s;
     if bSave then do {
       (_, _, c, F) \<leftarrow> FTE_CFG_save C True (cfg s) F ws;
       Some (FTE_RET_OK, n, F, s\<lparr>cfg := c\<rparr>)
     } else Some (FTE_RET_OK, n, F, s)
   }"

end
