(* ===== verification/FTE_OneWireSearch.thy ===== *)
theory FTE_OneWireSearch
  imports FTE_OneWire "HOL-Library.List_Lexorder"
begin

unbundle bit_operations_syntax

text \<open>
  The search of \<^verbatim>\<open>fte_1wire.c\<close> as an enumeration.  A pass over the 64 bits is looked at
  apart from the line: what the devices that take part answer is whether all of them have
  the bit, and whether none has.  The first pass ends at the least code in the order of the
  bits, every further one at the next code, and the last one finds nothing.
\<close>

section \<open>Codes as lists of bits\<close>

abbreviation rom_bit :: "rom \<Rightarrow> nat \<Rightarrow> bool" where "rom_bit \<equiv> GET_BIT_AT"

definition rom_key :: "rom \<Rightarrow> bool list" where "rom_key c = map (rom_bit c) [0..<64]"

definition rom_code :: "rom \<Rightarrow> bool" where
  "rom_code c \<longleftrightarrow> length c = FTE_1WIRE_ROM_CODE_SIZE \<and> c \<noteq> replicate 8 0 \<and> c \<noteq> replicate 8 0xFF"

lemma nth_byte_bit: "length c = 8 \<Longrightarrow> b < 8 \<Longrightarrow> j < 8 \<Longrightarrow> bit (c ! b) j = rom_bit c (8 * b + j)"
  by (simp add: GET_BIT_AT_def)

lemma rom_bits_eq:
  assumes "length c = 8" "length d = 8" "\<And>i. i < 64 \<Longrightarrow> rom_bit c i = rom_bit d i"
  shows "c = d"
proof (rule nth_equalityI)
  show "length c = length d" using assms by simp
  fix b assume b: "b < length c"
  show "c ! b = d ! b"
  proof (rule bit_word_eqI)
    fix j assume "j < LENGTH(8)"
    then show "bit (c ! b) j = bit (d ! b) j"
      using assms(3) [of "8 * b + j"] nth_byte_bit [of c b j] nth_byte_bit [of d b j] b assms(1,2) by simp
  qed
qed

lemma bit_one_byte: "bit (2 ^ n :: u8) m \<longleftrightarrow> m = n \<and> n < 8"
  by (auto simp: bit_exp_iff)

lemma bit_place: "j = i \<longleftrightarrow> j div 8 = i div 8 \<and> j mod 8 = i mod 8" for i j :: nat
  by (metis div_mult_mod_eq)

lemma set_bit_at:
  assumes "length v = 8" "i < 64"
  shows "length (SET_BIT_AT v i) = 8" "j < 64 \<Longrightarrow> rom_bit (SET_BIT_AT v i) j = (j = i \<or> rom_bit v j)"
proof -
  show "length (SET_BIT_AT v i) = 8" using assms by (simp add: SET_BIT_AT_def)
  assume "j < 64"
  then show "rom_bit (SET_BIT_AT v i) j = (j = i \<or> rom_bit v j)"
    using assms bit_place [of j i]
    by (cases "j div 8 = i div 8") (auto simp: SET_BIT_AT_def GET_BIT_AT_def bit_or_iff push_bit_of_1 bit_one_byte)
qed

lemma clr_bit_at:
  assumes "length v = 8" "i < 64"
  shows "length (CLR_BIT_AT v i) = 8" "j < 64 \<Longrightarrow> rom_bit (CLR_BIT_AT v i) j = (j \<noteq> i \<and> rom_bit v j)"
proof -
  show "length (CLR_BIT_AT v i) = 8" using assms by (simp add: CLR_BIT_AT_def)
  assume j: "j < 64"
  have "bit (v ! (j div 8)) (j mod 8) \<Longrightarrow> j mod 8 < 8" by simp
  then show "rom_bit (CLR_BIT_AT v i) j = (j \<noteq> i \<and> rom_bit v j)"
    using assms j bit_place [of j i]
    by (cases "j div 8 = i div 8") (auto simp: CLR_BIT_AT_def GET_BIT_AT_def bit_and_iff bit_not_iff push_bit_of_1 bit_one_byte)
qed

lemma clr_bits:
  assumes "length v = 8" "\<forall>j\<in>set js. j < 64"
  shows "length (foldl CLR_BIT_AT v js) = 8" "k < 64 \<Longrightarrow> rom_bit (foldl CLR_BIT_AT v js) k = (k \<notin> set js \<and> rom_bit v k)"
proof -
  have "length (foldl CLR_BIT_AT v js) = 8 \<and> (\<forall>k<64. rom_bit (foldl CLR_BIT_AT v js) k = (k \<notin> set js \<and> rom_bit v k))"
    using assms
  proof (induction js arbitrary: v)
    case (Cons j js)
    then show ?case using clr_bit_at [of v j] by auto
  qed simp
  then show "length (foldl CLR_BIT_AT v js) = 8" "k < 64 \<Longrightarrow> rom_bit (foldl CLR_BIT_AT v js) k = (k \<notin> set js \<and> rom_bit v k)"
    by auto
qed

lemma zero_bytes:
  assumes "length v = 8"
  shows "length (foldl (\<lambda>v j. v[j := 0]) v js) = 8"
    "k < 64 \<Longrightarrow> rom_bit (foldl (\<lambda>v j. v[j := 0]) v js) k = (k div 8 \<notin> set js \<and> rom_bit v k)"
proof -
  have "length (foldl (\<lambda>v j. v[j := 0]) v js) = 8
    \<and> (\<forall>k<64. rom_bit (foldl (\<lambda>v j. v[j := 0]) v js) k = (k div 8 \<notin> set js \<and> rom_bit v k))"
    using assms
  proof (induction js arbitrary: v)
    case (Cons j js)
    have "rom_bit (v[j := 0]) k = (k div 8 \<noteq> j \<and> rom_bit v k)" if "k < 64" for k
    proof -
      have "k div 8 < 8" using that by simp
      then show ?thesis using Cons.prems by (cases "k div 8 = j") (auto simp: GET_BIT_AT_def)
    qed
    then show ?case using Cons.IH [of "v[j := 0]"] Cons.prems by auto
  qed simp
  then show "length (foldl (\<lambda>v j. v[j := 0]) v js) = 8"
    "k < 64 \<Longrightarrow> rom_bit (foldl (\<lambda>v j. v[j := 0]) v js) k = (k div 8 \<notin> set js \<and> rom_bit v k)" by auto
qed

lemma clear_after_bits:
  assumes "length v = 8" "i < 64"
  shows "length (clear_after i v) = 8" "k < 64 \<Longrightarrow> rom_bit (clear_after i v) k = (k \<le> i \<and> rom_bit v k)"
proof -
  have "(i div 8 + 1) * 8 \<le> 64" using assms(2) by simp
  moreover have "\<forall>j\<in>set [i + 1..<(i div 8 + 1) * 8]. j < (i div 8 + 1) * 8" by simp
  ultimately have b: "\<forall>j\<in>set [i + 1..<(i div 8 + 1) * 8]. j < 64" by (meson less_le_trans)
  note c = clr_bits [OF assms(1) b]
  show "length (clear_after i v) = 8" unfolding clear_after_def by (rule zero_bytes(1) [OF c(1)])
  assume k: "k < 64"
  have "k \<le> i \<longleftrightarrow> k div 8 \<notin> set [i div 8 + 1..<8] \<and> k \<notin> set [i + 1..<(i div 8 + 1) * 8]"
    using k assms(2) by auto
  then show "rom_bit (clear_after i v) k = (k \<le> i \<and> rom_bit v k)"
    unfolding clear_after_def zero_bytes(2) [OF c(1) k] c(2) [OF k] by blast
qed

section \<open>The order of the codes\<close>

lemma rom_key_inj: "length c = 8 \<Longrightarrow> length d = 8 \<Longrightarrow> rom_key c = rom_key d \<Longrightarrow> c = d"
  by (rule rom_bits_eq) (auto simp: rom_key_def)

definition agree :: "rom \<Rightarrow> nat \<Rightarrow> rom \<Rightarrow> bool" where
  "agree q i c \<longleftrightarrow> (\<forall>k<i. rom_bit c k = rom_bit q k)"

lemma agree_take: "i \<le> 64 \<Longrightarrow> agree q i c \<longleftrightarrow> take i (rom_key c) = take i (rom_key q)"
  by (auto simp: agree_def rom_key_def take_map)

lemma agree_full: "length c = 8 \<Longrightarrow> length q = 8 \<Longrightarrow> agree q 64 c \<Longrightarrow> c = q"
  by (rule rom_bits_eq) (auto simp: agree_def)

lemma key_less:
  "rom_key c < rom_key d \<longleftrightarrow> (\<exists>i<64. agree c i d \<and> \<not> rom_bit c i \<and> rom_bit d i)"
proof -
  have "rom_key c < rom_key d \<longleftrightarrow> (\<exists>i. i < length (rom_key c) \<and> i < length (rom_key d)
      \<and> take i (rom_key c) = take i (rom_key d) \<and> rom_key c ! i < rom_key d ! i)"
    by (simp add: list_less_def lexord_take_index_conv rom_key_def)
  also have "\<dots> \<longleftrightarrow> (\<exists>i<64. agree c i d \<and> \<not> rom_bit c i \<and> rom_bit d i)"
  proof (rule ex_cong1)
    fix i
    show "i < length (rom_key c) \<and> i < length (rom_key d) \<and> take i (rom_key c) = take i (rom_key d) \<and> rom_key c ! i < rom_key d ! i
      \<longleftrightarrow> i < 64 \<and> agree c i d \<and> \<not> rom_bit c i \<and> rom_bit d i"
      using agree_take [of i c d] by (cases "i < 64") (auto simp: rom_key_def)
  qed
  finally show ?thesis .
qed


section \<open>A pass\<close>

text \<open>What is read when all devices that take part have the bit, or none has.\<close>

definition answer :: "bool \<Rightarrow> bool \<Rightarrow> u8" where
  "answer a z = (let w = (if a then 0 OR push_bit 0 1 else 0) in if z then w OR push_bit 1 1 else w)"

lemma answer_simps: "answer False False = 0" "answer True False = 1" "answer False True = 2"
  by (simp_all add: answer_def)

primrec pass_bits :: "nat \<Rightarrow> nat \<Rightarrow> rom list \<Rightarrow> ow_search \<Rightarrow> (bool \<times> ow_search) option" where
  "pass_bits i 0 P x = Some (False, x)"
| "pass_bits i (Suc n) P x = do {
     (fin, x) \<leftarrow> search_switch i (answer (\<forall>c\<in>set P. rom_bit c i) (\<forall>c\<in>set P. \<not> rom_bit c i)) x;
     if fin then Some (True, x)
     else pass_bits (Suc i) n (filter (\<lambda>c. rom_bit c i = rom_bit (sROM x) i) P) x
   }"

definition part :: "rom list \<Rightarrow> rom \<Rightarrow> nat \<Rightarrow> rom list" where "part cs q i = filter (agree q i) cs"

lemma part_0 [simp]: "part cs q 0 = cs"
  by (simp add: part_def agree_def)

lemma agree_Suc: "agree q (Suc i) c \<longleftrightarrow> agree q i c \<and> rom_bit c i = rom_bit q i"
  by (auto simp: agree_def less_Suc_eq)

lemma part_step: "agree q i q' \<Longrightarrow> filter (\<lambda>c. rom_bit c i = rom_bit q' i) (part cs q i) = part cs q' (Suc i)"
  unfolding part_def filter_filter by (rule filter_cong) (auto simp: agree_def less_Suc_eq)

lemma part_cong: "agree q i q' \<Longrightarrow> part cs q' i = part cs q i"
  unfolding part_def by (rule filter_cong) (auto simp: agree_def)

lemma pass_step:
  assumes "search_switch i (answer (\<forall>c\<in>set (part cs (sROM x) i). rom_bit c i) (\<forall>c\<in>set (part cs (sROM x) i). \<not> rom_bit c i)) x
      = Some (False, y)" "agree (sROM x) i (sROM y)"
  shows "pass_bits i (Suc n) (part cs (sROM x) i) x = pass_bits (Suc i) n (part cs (sROM y) (Suc i)) y"
  unfolding pass_bits.simps assms(1) by (simp add: part_step [OF assms(2)])

text \<open>The positions where the search may still turn to one.\<close>

definition is_open :: "rom list \<Rightarrow> rom \<Rightarrow> nat \<Rightarrow> bool" where
  "is_open cs q k \<longleftrightarrow> \<not> rom_bit q k \<and> (\<exists>c\<in>set (part cs q k). rom_bit c k)"

definition opens :: "rom list \<Rightarrow> rom \<Rightarrow> nat \<Rightarrow> nat list" where "opens cs q i = filter (is_open cs q) [0..<i]"

lemma opens_Suc: "opens cs q (Suc i) = opens cs q i @ (if is_open cs q i then [i] else [])"
  by (simp add: opens_def)

lemma opens_cong: "agree q i q' \<Longrightarrow> opens cs q' i = opens cs q i"
  unfolding opens_def
proof (rule filter_cong)
  fix k assume a: "agree q i q'" and "k \<in> set [0..<i]"
  then have "agree q k q'" "rom_bit q' k = rom_bit q k" by (auto simp: agree_def)
  then show "is_open cs q' k = is_open cs q k" using part_cong [of q k q'] by (simp add: is_open_def)
qed simp

definition stack :: "ow_search \<Rightarrow> nat list" where
  "stack x = map unat (take (unat (nComPos x)) (pComPos x))"

definition wf_search :: "ow_search \<Rightarrow> bool" where
  "wf_search x \<longleftrightarrow> length (sROM x) = 8 \<and> length (pComPos x) = 64 \<and> unat (nComPos x) \<le> 64"

lemma length_stack: "wf_search x \<Longrightarrow> length (stack x) = unat (nComPos x)"
  by (simp add: stack_def wf_search_def)

lemma stack_Nil: "wf_search x \<Longrightarrow> nComPos x = 0 \<longleftrightarrow> stack x = []"
  using length_stack [of x] by (metis length_0_conv unat_eq_zero)

lemma stack_top:
  assumes "wf_search x" "stack x = ts @ [t]"
  shows "nComPos x \<noteq> 0" "top_pos x = t" "stack (x\<lparr>sROM := r, nComPos := nComPos x - 1, bFound := b\<rparr>) = ts"
    "wf_search (x\<lparr>nComPos := nComPos x - 1\<rparr>)"
proof -
  have n: "unat (nComPos x) = Suc (length ts)" using length_stack [OF assms(1)] assms(2) by simp
  show ne: "nComPos x \<noteq> 0" using stack_Nil [OF assms(1)] assms(2) by simp
  have pos: "length ts < length (pComPos x)" using n assms(1) by (simp add: wf_search_def)
  have "t = stack x ! length ts" using assms(2) by simp
  also have "\<dots> = unat (pComPos x ! length ts)" using n pos by (simp add: stack_def)
  finally show "top_pos x = t" by (simp add: top_pos_def n)
  have m: "unat (nComPos x - 1) = length ts" using n ne by (simp add: unat_minus_one)
  have "take (length ts) (stack x) = ts" using assms(2) by simp
  then show "stack (x\<lparr>sROM := r, nComPos := nComPos x - 1, bFound := b\<rparr>) = ts"
    using m n by (simp add: stack_def take_map [symmetric] min_def)
  show "wf_search (x\<lparr>nComPos := nComPos x - 1\<rparr>)" using assms(1) m pos by (simp add: wf_search_def)
qed

lemma stack_push:
  assumes "wf_search x" "unat (nComPos x) < 64" "i < 64"
  shows "stack (x\<lparr>pComPos := (pComPos x)[unat (nComPos x) := of_nat i], nComPos := nComPos x + 1, bFound := b\<rparr>) = stack x @ [i]"
    "wf_search (x\<lparr>pComPos := (pComPos x)[unat (nComPos x) := of_nat i], nComPos := nComPos x + 1, bFound := b\<rparr>)"
proof -
  have n: "unat (nComPos x + 1) = Suc (unat (nComPos x))" using assms(2) by (simp add: unat_word_ariths)
  have "unat (of_nat i :: u8) = i" using assms(3) by (simp add: unat_of_nat)
  then show "stack (x\<lparr>pComPos := (pComPos x)[unat (nComPos x) := of_nat i], nComPos := nComPos x + 1, bFound := b\<rparr>) = stack x @ [i]"
    using assms n by (simp add: stack_def wf_search_def take_Suc_conv_app_nth)
  show "wf_search (x\<lparr>pComPos := (pComPos x)[unat (nComPos x) := of_nat i], nComPos := nComPos x + 1, bFound := b\<rparr>)"
    using assms n by (simp add: wf_search_def)
qed

section \<open>Going down to the least code that is left\<close>

lemma opens_bound: "k \<in> set (opens cs q i) \<Longrightarrow> k < i"
  by (auto simp: opens_def)

lemma length_opens: "length (opens cs q i) \<le> i"
  unfolding opens_def by (metis length_filter_le length_upt diff_zero)

definition descending :: "rom list \<Rightarrow> nat \<Rightarrow> ow_search \<Rightarrow> bool" where
  "descending cs i x \<longleftrightarrow> wf_search x \<and> part cs (sROM x) i \<noteq> [] \<and> stack x = opens cs (sROM x) i
     \<and> (\<forall>k. i \<le> k \<and> k < 64 \<longrightarrow> \<not> rom_bit (sROM x) k) \<and> (bFound x \<or> (\<forall>k<i. \<not> rom_bit (sROM x) k))"

text \<open>The bit that a step leaves in the code.\<close>

lemma descending_next:
  assumes "wf_search y" "agree (sROM x) i (sROM y)" "\<exists>c\<in>set (part cs (sROM x) i). rom_bit c i = rom_bit (sROM y) i"
    "stack y = opens cs (sROM y) (Suc i)" "\<And>k. Suc i \<le> k \<Longrightarrow> k < 64 \<Longrightarrow> \<not> rom_bit (sROM y) k"
    "bFound y \<or> (\<forall>k<Suc i. \<not> rom_bit (sROM y) k)"
  shows "descending cs (Suc i) y"
proof -
  obtain c where "c \<in> set (part cs (sROM x) i)" "rom_bit c i = rom_bit (sROM y) i" using assms(3) by blast
  then have "c \<in> set (part cs (sROM y) (Suc i))" by (simp flip: part_step [OF assms(2), of cs])
  then have "part cs (sROM y) (Suc i) \<noteq> []" by auto
  then show ?thesis using assms(1,4-6) by (simp add: descending_def)
qed

lemma descend_step:
  assumes d: "descending cs i x" and i: "i < 64"
  defines "P \<equiv> part cs (sROM x) i"
  obtains y where "search_switch i (answer (\<forall>c\<in>set P. rom_bit c i) (\<forall>c\<in>set P. \<not> rom_bit c i)) x = Some (False, y)"
    "descending cs (Suc i) y" "agree (sROM x) i (sROM y)" "\<forall>c\<in>set P. rom_bit (sROM y) i \<longrightarrow> rom_bit c i"
proof -
  have wf: "wf_search x" and ne: "P \<noteq> []" and st: "stack x = opens cs (sROM x) i"
    and z: "\<And>k. i \<le> k \<Longrightarrow> k < 64 \<Longrightarrow> \<not> rom_bit (sROM x) k"
    and f: "bFound x \<or> (\<forall>k<i. \<not> rom_bit (sROM x) k)" using d by (auto simp: descending_def P_def)
  have zi: "\<not> rom_bit (sROM x) i" using z i by simp
  have self: "agree (sROM x) i (sROM x)" by (simp add: agree_def)
  have len: "length (sROM x) = 8" using wf by (simp add: wf_search_def)
  have op: "is_open cs (sROM x) i = (\<exists>c\<in>set P. rom_bit c i)" using zi by (simp add: is_open_def P_def)
  consider "\<forall>c\<in>set P. rom_bit c i" | "\<forall>c\<in>set P. \<not> rom_bit c i"
    | "\<not> (\<forall>c\<in>set P. rom_bit c i)" "\<not> (\<forall>c\<in>set P. \<not> rom_bit c i)" by blast
  then show ?thesis
  proof cases
    case 1
    have n0: "(\<forall>c\<in>set P. \<not> rom_bit c i) = False" using 1 ne by (cases P) auto
    let ?y = "x\<lparr>sROM := SET_BIT_AT (sROM x) i, bFound := True\<rparr>"
    have a: "agree (sROM x) i (sROM ?y)" using set_bit_at(2) [OF len i] i by (auto simp: agree_def)
    have nop: "\<not> is_open cs (SET_BIT_AT (sROM x) i) i" using set_bit_at(2) [OF len i i] by (simp add: is_open_def)
    have "descending cs (Suc i) ?y"
    proof (rule descending_next [OF _ a])
      show "wf_search ?y" using wf set_bit_at(1) [OF len i] by (simp add: wf_search_def)
      show "\<exists>c\<in>set (part cs (sROM x) i). rom_bit c i = rom_bit (sROM ?y) i"
        using 1 ne set_bit_at(2) [OF len i i] by (cases P) (auto simp: P_def)
      show "stack ?y = opens cs (sROM ?y) (Suc i)"
        using st opens_cong [OF a] nop by (simp add: stack_def opens_Suc)
      show "\<not> rom_bit (sROM ?y) k" if "Suc i \<le> k" "k < 64" for k
        using set_bit_at(2) [OF len i that(2)] z that by simp
    qed simp
    moreover have "search_switch i (answer (\<forall>c\<in>set P. rom_bit c i) (\<forall>c\<in>set P. \<not> rom_bit c i)) x = Some (False, ?y)"
      using 1 zi unfolding n0 by (simp add: answer_simps search_switch_def)
    ultimately show ?thesis using that a 1 by blast
  next
    case 2
    have n0: "(\<forall>c\<in>set P. rom_bit c i) = False" using 2 ne by (cases P) auto
    have nop: "\<not> is_open cs (sROM x) i" using 2 op by simp
    have "descending cs (Suc i) x"
    proof (rule descending_next [OF wf self])
      show "\<exists>c\<in>set (part cs (sROM x) i). rom_bit c i = rom_bit (sROM x) i"
        using 2 ne zi by (cases P) (auto simp: P_def)
      show "stack x = opens cs (sROM x) (Suc i)" using st nop by (simp add: opens_Suc)
      show "bFound x \<or> (\<forall>k<Suc i. \<not> rom_bit (sROM x) k)" using f zi less_Suc_eq by auto
    qed (use z in simp)
    moreover have "search_switch i (answer (\<forall>c\<in>set P. rom_bit c i) (\<forall>c\<in>set P. \<not> rom_bit c i)) x = Some (False, x)"
      using 2 zi unfolding n0 by (simp add: answer_simps search_switch_def)
    ultimately show ?thesis using that self 2 zi by blast
  next
    case 3
    let ?y = "x\<lparr>pComPos := (pComPos x)[unat (nComPos x) := of_nat i], nComPos := nComPos x + 1, bFound := True\<rparr>"
    have room: "unat (nComPos x) < 64" using length_stack [OF wf] length_opens [of cs "sROM x" i] st i by simp
    have top: "nComPos x = 0 \<or> top_pos x < i"
    proof (cases "stack x" rule: rev_exhaust)
      case Nil
      then show ?thesis using stack_Nil [OF wf] by simp
    next
      case (snoc ts t)
      then show ?thesis using stack_top(2) [OF wf snoc] opens_bound [of t cs "sROM x" i] st by simp
    qed
    have isop: "is_open cs (sROM x) i" using 3 op by simp
    have "descending cs (Suc i) ?y"
    proof (rule descending_next)
      show "wf_search ?y" by (rule stack_push(2) [OF wf room i])
      show "\<exists>c\<in>set (part cs (sROM x) i). rom_bit c i = rom_bit (sROM ?y) i" using 3 zi by (auto simp: P_def)
      show "stack ?y = opens cs (sROM ?y) (Suc i)" using stack_push(1) [OF wf room i] st isop by (simp add: opens_Suc)
    qed (use z self in simp_all)
    moreover have "search_switch i (answer (\<forall>c\<in>set P. rom_bit c i) (\<forall>c\<in>set P. \<not> rom_bit c i)) x = Some (False, ?y)"
    proof -
      have a: "(\<forall>c\<in>set P. rom_bit c i) = False" "(\<forall>c\<in>set P. \<not> rom_bit c i) = False" using 3 by auto
      show ?thesis unfolding a using zi top room wf unfolding wf_search_def
        by (simp add: answer_simps search_switch_def)
    qed
    ultimately show ?thesis using that [of ?y] self zi by simp
  qed
qed

lemma key_less_bit: "agree c i d \<Longrightarrow> i < 64 \<Longrightarrow> \<not> rom_bit c i \<Longrightarrow> rom_bit d i \<Longrightarrow> rom_key c < rom_key d"
  using key_less by blast

lemma part_mem: "c \<in> set (part cs q i) \<longleftrightarrow> c \<in> set cs \<and> agree q i c"
  by (auto simp: part_def)

lemma descend:
  assumes "descending cs i x" "i + n = 64" "\<forall>c\<in>set cs. length c = 8"
  shows "\<exists>y. pass_bits i n (part cs (sROM x) i) x = Some (False, y) \<and> wf_search y
    \<and> sROM y \<in> set (part cs (sROM x) i) \<and> (\<forall>c\<in>set (part cs (sROM x) i). rom_key (sROM y) \<le> rom_key c)
    \<and> stack y = opens cs (sROM y) 64 \<and> (bFound y \<or> sROM y = replicate 8 0)"
  using assms(1,2)
proof (induction n arbitrary: i x)
  case 0
  then have i: "i = 64" and wf: "wf_search x" by (auto simp: descending_def)
  then have len: "length (sROM x) = 8" by (simp add: wf_search_def)
  have eq: "c = sROM x" if "c \<in> set (part cs (sROM x) i)" for c
    using that assms(3) len agree_full [of c "sROM x"] i by (simp add: part_mem)
  have mem: "sROM x \<in> set (part cs (sROM x) i)"
    using 0 eq by (cases "part cs (sROM x) i") (auto simp: descending_def)
  have "sROM x = replicate 8 0" if "\<forall>k<64. \<not> rom_bit (sROM x) k"
    by (rule rom_bits_eq [OF len]) (use that in \<open>auto simp: GET_BIT_AT_def\<close>)
  then have "bFound x \<or> sROM x = replicate 8 0" using 0 i by (auto simp: descending_def)
  moreover have "stack x = opens cs (sROM x) 64" using 0 i by (simp add: descending_def)
  ultimately show ?case using wf mem eq by auto
next
  case (Suc n)
  let ?P = "part cs (sROM x) i"
  have i: "i < 64" using Suc.prems(2) by simp
  obtain y where y: "search_switch i (answer (\<forall>c\<in>set ?P. rom_bit c i) (\<forall>c\<in>set ?P. \<not> rom_bit c i)) x = Some (False, y)"
    and d: "descending cs (Suc i) y" and a: "agree (sROM x) i (sROM y)"
    and b: "\<forall>c\<in>set ?P. rom_bit (sROM y) i \<longrightarrow> rom_bit c i"
    by (rule descend_step [OF Suc.prems(1) i])
  let ?Q = "part cs (sROM y) (Suc i)"
  obtain z where z: "pass_bits (Suc i) n ?Q y = Some (False, z)" "wf_search z" "sROM z \<in> set ?Q"
    "\<forall>c\<in>set ?Q. rom_key (sROM z) \<le> rom_key c" "stack z = opens cs (sROM z) 64" "bFound z \<or> sROM z = replicate 8 0"
    using Suc.IH [OF d] Suc.prems(2) by auto
  have run: "pass_bits i (Suc n) ?P x = Some (False, z)" unfolding pass_step [OF y a] by (rule z(1))
  have ag: "agree (sROM y) (Suc i) (sROM z)" using z(3) by (simp add: part_mem)
  then have mem: "sROM z \<in> set ?P" using z(3) a by (auto simp: part_mem agree_def)
  have least: "rom_key (sROM z) \<le> rom_key c" if c: "c \<in> set ?P" for c
  proof (cases "rom_bit c i = rom_bit (sROM y) i")
    case True
    then have "c \<in> set ?Q" using c a by (auto simp: part_mem agree_def less_Suc_eq)
    then show ?thesis using z(4) by blast
  next
    case False
    then have "\<not> rom_bit (sROM z) i" "rom_bit c i" using b c ag by (auto simp: agree_def)
    moreover have "agree (sROM z) i c" using c ag a by (auto simp: part_mem agree_def)
    ultimately show ?thesis using key_less_bit i less_imp_le by blast
  qed
  show ?case using run z(2,5,6) mem least by blast
qed

section \<open>Turning at the last open position\<close>

lemma answer_cases:
  assumes "r \<in> set P"
  obtains "rom_bit r i" "answer (\<forall>c\<in>set P. rom_bit c i) (\<forall>c\<in>set P. \<not> rom_bit c i) = 1" "\<forall>c\<in>set P. rom_bit c i"
  | "\<not> rom_bit r i" "answer (\<forall>c\<in>set P. rom_bit c i) (\<forall>c\<in>set P. \<not> rom_bit c i) = 2" "\<forall>c\<in>set P. \<not> rom_bit c i"
  | "answer (\<forall>c\<in>set P. rom_bit c i) (\<forall>c\<in>set P. \<not> rom_bit c i) = 0" "\<exists>c\<in>set P. rom_bit c i" "\<exists>c\<in>set P. \<not> rom_bit c i"
proof -
  consider "\<forall>c\<in>set P. rom_bit c i" | "\<forall>c\<in>set P. \<not> rom_bit c i"
    | "\<exists>c\<in>set P. rom_bit c i" "\<exists>c\<in>set P. \<not> rom_bit c i" by blast
  then show ?thesis
  proof cases
    case 1
    then have e: "(\<forall>c\<in>set P. rom_bit c i) = True" "(\<forall>c\<in>set P. \<not> rom_bit c i) = False" using assms by auto
    have "answer (\<forall>c\<in>set P. rom_bit c i) (\<forall>c\<in>set P. \<not> rom_bit c i) = 1" unfolding e by (rule answer_simps)
    then show ?thesis using that(1) 1 assms by blast
  next
    case 2
    then have e: "(\<forall>c\<in>set P. rom_bit c i) = False" "(\<forall>c\<in>set P. \<not> rom_bit c i) = True" using assms by auto
    have "answer (\<forall>c\<in>set P. rom_bit c i) (\<forall>c\<in>set P. \<not> rom_bit c i) = 2" unfolding e by (rule answer_simps)
    then show ?thesis using that(2) 2 assms by blast
  next
    case 3
    then have e: "(\<forall>c\<in>set P. rom_bit c i) = False" "(\<forall>c\<in>set P. \<not> rom_bit c i) = False" by auto
    have "answer (\<forall>c\<in>set P. rom_bit c i) (\<forall>c\<in>set P. \<not> rom_bit c i) = 0" unfolding e by (rule answer_simps)
    then show ?thesis using that(3) 3 by blast
  qed
qed

lemma agree_refl [simp]: "agree r i r"
  by (simp add: agree_def)

text \<open>Above the top of the stack, the pass follows the code of the pass before.\<close>

lemma follow_step:
  assumes "wf_search x" "sROM x \<in> set cs" "is_open cs (sROM x) i \<longrightarrow> (\<exists>ts t. stack x = ts @ [t] \<and> i < t)"
  defines "P \<equiv> part cs (sROM x) i"
  shows "search_switch i (answer (\<forall>c\<in>set P. rom_bit c i) (\<forall>c\<in>set P. \<not> rom_bit c i)) x
    = Some (False, x\<lparr>bFound := bFound x \<or> is_open cs (sROM x) i\<rparr>)"
proof -
  have r: "sROM x \<in> set P" using assms(2) by (simp add: P_def part_mem)
  have op: "is_open cs (sROM x) i = (\<not> rom_bit (sROM x) i \<and> (\<exists>c\<in>set P. rom_bit c i))" by (simp add: is_open_def P_def)
  show ?thesis
  proof (cases rule: answer_cases [OF r, of i])
    case 1
    then show ?thesis by (simp add: op search_switch_def)
  next
    case 2
    then show ?thesis by (simp add: op search_switch_def)
  next
    case 3
    show ?thesis
    proof (cases "rom_bit (sROM x) i")
      case True
      then show ?thesis unfolding 3(1) by (simp add: op search_switch_def)
    next
      case False
      then have o: "is_open cs (sROM x) i" using 3(2) op by blast
      obtain ts t where st: "stack x = ts @ [t]" "i < t" using assms(3) o by blast
      have "nComPos x \<noteq> 0" "top_pos x = t" using stack_top [OF assms(1) st(1)] by auto
      then show ?thesis unfolding 3(1) using False st(2) o by (simp add: search_switch_def)
    qed
  qed
qed

text \<open>At the top of the stack it turns to one.\<close>

definition turned :: "nat \<Rightarrow> ow_search \<Rightarrow> ow_search" where
  "turned t x = x\<lparr>sROM := clear_after t (SET_BIT_AT (sROM x) t), nComPos := nComPos x - 1, bFound := True\<rparr>"

lemma turned_bit:
  assumes "length (sROM x) = 8" "t < 64" "k < 64"
  shows "rom_bit (sROM (turned t x)) k = (k = t \<or> k < t \<and> rom_bit (sROM x) k)"
  using clear_after_bits(2) [OF set_bit_at(1) [OF assms(1,2)] assms(2,3)] set_bit_at(2) [OF assms]
  by (auto simp: turned_def)

lemma turn_step:
  assumes "wf_search x" "sROM x \<in> set cs" "stack x = ts @ [t]" "is_open cs (sROM x) t"
  defines "P \<equiv> part cs (sROM x) t"
  shows "search_switch t (answer (\<forall>c\<in>set P. rom_bit c t) (\<forall>c\<in>set P. \<not> rom_bit c t)) x = Some (False, turned t x)"
proof -
  have r: "sROM x \<in> set P" using assms(2) by (simp add: P_def part_mem)
  have op: "\<not> rom_bit (sROM x) t" "\<exists>c\<in>set P. rom_bit c t" using assms(4) by (auto simp: is_open_def P_def)
  have top: "nComPos x \<noteq> 0" "top_pos x = t" using stack_top [OF assms(1,3)] by auto
  show ?thesis
  proof (cases rule: answer_cases [OF r, of t])
    case 3
    show ?thesis unfolding 3(1) using op top by (simp add: search_switch_def turned_def)
  qed (use op in blast)+
qed

lemma turned_descending:
  assumes "wf_search x" "sROM x \<in> set cs" "stack x = opens cs (sROM x) 64" "stack x = ts @ [t]"
  shows "t < 64" "is_open cs (sROM x) t" "descending cs (Suc t) (turned t x)" "agree (sROM x) t (sROM (turned t x))"
    "ts = opens cs (sROM x) t"
proof -
  have "t \<in> set (stack x)" using assms(4) by simp
  then have "t \<in> set (opens cs (sROM x) 64)" unfolding assms(3) .
  then show t: "t < 64" "is_open cs (sROM x) t" by (auto simp: opens_def)
  have len: "length (sROM x) = 8" using assms(1) by (simp add: wf_search_def)
  note b = turned_bit [OF len t(1)]
  show a: "agree (sROM x) t (sROM (turned t x))" using b t(1) by (auto simp: agree_def)
  have split: "opens cs (sROM x) 64 = opens cs (sROM x) t @ t # filter (is_open cs (sROM x)) [Suc t..<64]"
    using t upt_add_eq_append [of 0 t "64 - t"] upt_conv_Cons [of t 64] by (simp add: opens_def)
  have "sorted_wrt (<) (opens cs (sROM x) 64)" unfolding opens_def by (intro sorted_wrt_filter) simp
  then have "filter (is_open cs (sROM x)) [Suc t..<64] = []"
    using split assms(3,4) by (cases "filter (is_open cs (sROM x)) [Suc t..<64]" rule: rev_cases) (auto simp: sorted_wrt_append)
  then show ts: "ts = opens cs (sROM x) t" using split assms(3,4) by simp
  have nop: "\<not> is_open cs (sROM (turned t x)) t" using b t(1) by (simp add: is_open_def)
  show "descending cs (Suc t) (turned t x)"
  proof (rule descending_next [OF _ a])
    have "length (sROM (turned t x)) = 8"
      using clear_after_bits(1) [OF set_bit_at(1) [OF len t(1)] t(1)] by (simp add: turned_def)
    then show "wf_search (turned t x)" using stack_top(4) [OF assms(1,4)] by (simp add: wf_search_def turned_def)
    show "\<exists>c\<in>set (part cs (sROM x) t). rom_bit c t = rom_bit (sROM (turned t x)) t"
      using t b [OF t(1)] by (auto simp: is_open_def)
    have "stack (turned t x) = ts" using stack_top(3) [OF assms(1,4)] by (simp add: turned_def)
    then show "stack (turned t x) = opens cs (sROM (turned t x)) (Suc t)"
      using ts nop opens_cong [OF a, of cs] by (simp add: opens_Suc)
    show "\<not> rom_bit (sROM (turned t x)) k" if "Suc t \<le> k" "k < 64" for k using b [OF that(2)] that by simp
    show "bFound (turned t x) \<or> (\<forall>k<Suc t. \<not> rom_bit (sROM (turned t x)) k)" by (simp add: turned_def)
  qed
qed

lemma pass_to_turn:
  assumes "wf_search x" "sROM x \<in> set cs" "stack x = opens cs (sROM x) 64" "stack x = ts @ [t]" "i + m = t" "t + Suc n = 64"
  shows "pass_bits i (m + Suc n) (part cs (sROM x) i) x
    = pass_bits (Suc t) n (part cs (sROM (turned t x)) (Suc t)) (turned t x)"
  using assms(1-5)
proof (induction m arbitrary: i x)
  case 0
  then have i: "i = t" by simp
  note d = turned_descending [OF 0(1-4)]
  show ?case unfolding i using pass_step [OF turn_step [OF 0(1,2,4) d(2)] d(4), of n] by simp
next
  case (Suc m)
  let ?P = "part cs (sROM x) i" and ?x = "x\<lparr>bFound := bFound x \<or> is_open cs (sROM x) i\<rparr>"
  have "\<exists>ts t. stack x = ts @ [t] \<and> i < t" using Suc.prems(4,5) by auto
  then have sw: "search_switch i (answer (\<forall>c\<in>set ?P. rom_bit c i) (\<forall>c\<in>set ?P. \<not> rom_bit c i)) x = Some (False, ?x)"
    using follow_step [OF Suc.prems(1,2), of i] by blast
  have st: "stack ?x = stack x" by (simp add: stack_def)
  have tr: "turned t ?x = turned t x" by (simp add: turned_def)
  have "pass_bits (Suc i) (m + Suc n) (part cs (sROM ?x) (Suc i)) ?x
      = pass_bits (Suc t) n (part cs (sROM (turned t ?x)) (Suc t)) (turned t ?x)"
  proof (rule Suc.IH)
    show "wf_search ?x" using Suc.prems(1) by (simp add: wf_search_def)
    show "stack ?x = opens cs (sROM ?x) 64" "stack ?x = ts @ [t]" using Suc.prems(3,4) unfolding st by simp_all
  qed (use Suc.prems in simp_all)
  then show ?case using pass_step [OF sw, of "m + Suc n"] unfolding tr by simp
qed

lemma pass_last:
  assumes "wf_search x" "sROM x \<in> set cs" "opens cs (sROM x) 64 = []" "i + n = 64"
  shows "pass_bits i n (part cs (sROM x) i) x = Some (False, x)"
  using assms(4)
proof (induction n arbitrary: i)
  case (Suc n)
  have no: "\<not> is_open cs (sROM x) i" using assms(3) Suc.prems by (auto simp: opens_def filter_empty_conv)
  then have "search_switch i (answer (\<forall>c\<in>set (part cs (sROM x) i). rom_bit c i) (\<forall>c\<in>set (part cs (sROM x) i). \<not> rom_bit c i)) x
      = Some (False, x)" using follow_step [OF assms(1,2), of i] by simp
  then show ?case using pass_step [of i cs x x n] Suc.IH [of "Suc i"] Suc.prems by simp
qed simp

section \<open>One pass gives the next code\<close>

lemma greater_open:
  assumes "sROM x \<in> set cs" "c \<in> set cs" "rom_key (sROM x) < rom_key c"
  obtains k where "k \<in> set (opens cs (sROM x) 64)" "agree (sROM x) k c" "\<not> rom_bit (sROM x) k" "rom_bit c k"
proof -
  obtain k where k: "k < 64" "agree (sROM x) k c" "\<not> rom_bit (sROM x) k" "rom_bit c k" using assms(3) key_less by blast
  then have "is_open cs (sROM x) k" using assms(2) by (auto simp: is_open_def part_mem)
  then show ?thesis using that k by (simp add: opens_def)
qed

definition settled :: "rom list \<Rightarrow> ow_search \<Rightarrow> bool" where
  "settled cs x \<longleftrightarrow> wf_search x \<and> sROM x \<in> set cs \<and> stack x = opens cs (sROM x) 64"

lemma pass_first:
  assumes "cs \<noteq> []" "\<forall>c\<in>set cs. rom_code c"
  obtains z where "pass_bits 0 64 cs search_zero = Some (False, z)" "settled cs z" "bFound z"
    "\<forall>c\<in>set cs. rom_key (sROM z) \<le> rom_key c"
proof -
  have "descending cs 0 search_zero"
    using assms(1) by (auto simp: descending_def search_zero_def wf_search_def stack_def opens_def GET_BIT_AT_def)
  from descend [OF this, of 64] obtain z where z: "pass_bits 0 64 cs search_zero = Some (False, z)" "wf_search z"
    "sROM z \<in> set cs" "\<forall>c\<in>set cs. rom_key (sROM z) \<le> rom_key c" "stack z = opens cs (sROM z) 64"
    "bFound z \<or> sROM z = replicate 8 0" using assms(2) by (auto simp: rom_code_def)
  have "bFound z" using z(3,6) assms(2) by (auto simp: rom_code_def)
  then show ?thesis using that [of z] z by (simp add: settled_def)
qed

lemma pass_next:
  assumes "settled cs x" "\<forall>c\<in>set cs. rom_code c" "c \<in> set cs" "rom_key (sROM x) < rom_key c"
  obtains z where "pass_bits 0 64 cs x = Some (False, z)" "settled cs z" "bFound z" "rom_key (sROM x) < rom_key (sROM z)"
    "\<forall>c\<in>set cs. rom_key (sROM x) < rom_key c \<longrightarrow> rom_key (sROM z) \<le> rom_key c"
proof -
  have wf: "wf_search x" and r: "sROM x \<in> set cs" and st: "stack x = opens cs (sROM x) 64"
    using assms(1) by (auto simp: settled_def)
  have "stack x \<noteq> []" using greater_open [OF r assms(3,4)] st by force
  then obtain ts t where ts: "stack x = ts @ [t]" by (cases "stack x" rule: rev_cases) auto
  note d = turned_descending [OF wf r st ts]
  obtain n where n: "t + Suc n = 64" using d(1) less_iff_Suc_add [of t 64] by auto
  let ?Q = "part cs (sROM (turned t x)) (Suc t)"
  obtain z where z: "pass_bits (Suc t) n ?Q (turned t x) = Some (False, z)" "wf_search z" "sROM z \<in> set ?Q"
    "\<forall>c\<in>set ?Q. rom_key (sROM z) \<le> rom_key c" "stack z = opens cs (sROM z) 64" "bFound z \<or> sROM z = replicate 8 0"
    using descend [OF d(3), of n] n assms(2) by (auto simp: rom_code_def)
  have "pass_bits 0 (t + Suc n) (part cs (sROM x) 0) x = Some (False, z)"
    unfolding pass_to_turn [OF wf r st ts add_0 n] by (rule z(1))
  then have run: "pass_bits 0 64 cs x = Some (False, z)" unfolding n part_0 .
  have mem: "sROM z \<in> set cs" using z(3) by (simp add: part_mem)
  have ag: "agree (sROM x) t (sROM z)" using z(3) d(4) by (auto simp: part_mem agree_def)
  have bt: "rom_bit (sROM z) t" "\<not> rom_bit (sROM x) t"
    using z(3) turned_bit [of x t t] d(1,2) wf by (auto simp: part_mem agree_def is_open_def wf_search_def)
  have less: "rom_key (sROM x) < rom_key (sROM z)" by (rule key_less_bit [OF ag d(1) bt(2,1)])
  have least: "rom_key (sROM z) \<le> rom_key c" if c: "c \<in> set cs" "rom_key (sROM x) < rom_key c" for c
  proof (rule greater_open [OF r c])
    fix k assume k: "k \<in> set (opens cs (sROM x) 64)" "agree (sROM x) k c" "\<not> rom_bit (sROM x) k" "rom_bit c k"
    then have "k \<in> set (ts @ [t])" using st ts by simp
    then have "k \<le> t" using d(5) opens_bound [of k cs "sROM x" t] by auto
    show ?thesis
    proof (cases "k = t")
      case True
      have "c \<in> set ?Q" using c(1) k(2,4) d(1,4) True turned_bit [of x t t] wf
        by (auto simp: part_mem agree_def less_Suc_eq wf_search_def)
      then show ?thesis using z(4) by blast
    next
      case False
      then have "\<not> rom_bit (sROM z) k" "agree (sROM z) k c" using \<open>k \<le> t\<close> ag k(2,3) by (auto simp: agree_def)
      then show ?thesis using key_less_bit [of "sROM z" k c] k(4) \<open>k \<le> t\<close> d(1) by (simp add: less_imp_le)
    qed
  qed
  have "bFound z" using z(6) mem assms(2) by (auto simp: rom_code_def)
  then show ?thesis using that [OF run] z(2,5) mem less least by (auto simp: settled_def)
qed

lemma pass_end:
  assumes "settled cs x" "\<forall>c\<in>set cs. rom_key c \<le> rom_key (sROM x)" "\<forall>c\<in>set cs. length c = 8"
  shows "pass_bits 0 64 cs x = Some (False, x)"
proof -
  have wf: "wf_search x" and r: "sROM x \<in> set cs" using assms(1) by (auto simp: settled_def)
  have "\<not> is_open cs (sROM x) k" if "k < 64" for k
  proof
    assume o: "is_open cs (sROM x) k"
    then obtain c where "c \<in> set cs" "agree (sROM x) k c" "rom_bit c k" by (auto simp: is_open_def part_mem)
    then show False using key_less_bit [of "sROM x" k c] that o assms(2) by (auto simp: is_open_def)
  qed
  then have "opens cs (sROM x) 64 = []" by (simp add: opens_def filter_empty_conv)
  then show ?thesis using pass_last [OF wf r, of 0 64] by simp
qed

section \<open>The passes enumerate the codes\<close>

text \<open>What the search is to find: each code once, in the order of the bits.\<close>

definition codes_found :: "rom list \<Rightarrow> rom list" where "codes_found cs = sort_key rom_key (remdups cs)"

definition codes_after :: "rom list \<Rightarrow> rom \<Rightarrow> rom list" where
  "codes_after cs q = filter (\<lambda>c. rom_key q < rom_key c) (codes_found cs)"

lemma set_codes_found [simp]: "set (codes_found cs) = set cs"
  by (simp add: codes_found_def)

lemma codes_found_sorted:
  assumes "\<forall>c\<in>set cs. length c = 8"
  shows "sorted_wrt (\<lambda>c d. rom_key c < rom_key d) (codes_found cs)"
proof -
  have "inj_on rom_key (set (codes_found cs))" using assms rom_key_inj by (auto intro!: inj_onI)
  moreover have "distinct (codes_found cs)" by (simp add: codes_found_def)
  ultimately have "distinct (map rom_key (codes_found cs))" by (simp add: distinct_map)
  moreover have "sorted (map rom_key (codes_found cs))" by (simp add: codes_found_def)
  ultimately have "sorted_wrt (<) (map rom_key (codes_found cs))" by (simp only: strict_sorted_iff)
  then show ?thesis by (simp only: sorted_wrt_map)
qed

lemma sorted_after:
  fixes f :: "'a \<Rightarrow> 'k::linorder"
  assumes "sorted_wrt (\<lambda>c d. f c < f d) ks" "z \<in> set ks" "P z" "\<forall>c\<in>set ks. P c \<longrightarrow> f z \<le> f c" "\<And>c. f z < f c \<Longrightarrow> P c"
  shows "filter P ks = z # filter (\<lambda>c. f z < f c) ks"
proof -
  obtain as bs where ks: "ks = as @ z # bs" using assms(2) split_list by metis
  have a: "f a < f z" if "a \<in> set as" for a using assms(1) that by (simp add: ks sorted_wrt_append)
  have b: "f z < f b" if "b \<in> set bs" for b using assms(1) that by (simp add: ks sorted_wrt_append)
  have "filter P as = []" "filter (\<lambda>c. f z < f c) as = []" "filter P bs = bs" "filter (\<lambda>c. f z < f c) bs = bs"
    using a b assms(4,5) by (force simp: filter_empty_conv filter_id_conv ks)+
  then show ?thesis using assms(3) by (simp add: ks)
qed

lemma codes_first:
  assumes "\<forall>c\<in>set cs. length c = 8" "z \<in> set cs" "\<forall>c\<in>set cs. rom_key z \<le> rom_key c"
  shows "codes_found cs = z # codes_after cs z"
  using sorted_after [OF codes_found_sorted [OF assms(1)], of z "\<lambda>_. True"] assms(2,3) by (simp add: codes_after_def)

lemma codes_next:
  assumes "\<forall>c\<in>set cs. length c = 8" "z \<in> set cs" "rom_key q < rom_key z"
    "\<forall>c\<in>set cs. rom_key q < rom_key c \<longrightarrow> rom_key z \<le> rom_key c"
  shows "codes_after cs q = z # codes_after cs z"
  unfolding codes_after_def
  by (rule sorted_after [OF codes_found_sorted [OF assms(1)]]) (use assms(2-4) in auto)

lemma codes_last: "codes_after cs q = [] \<longleftrightarrow> (\<forall>c\<in>set cs. rom_key c \<le> rom_key q)"
  by (auto simp: codes_after_def filter_empty_conv not_less)

text \<open>The test that ends the loop.\<close>

lemma and_all: "foldl (AND) a c = -1 \<longleftrightarrow> a = -1 \<and> (\<forall>b\<in>set c. b = -1)" for a :: "'a::len word"
  by (induction c arbitrary: a) (auto simp: and_eq_minus_1_iff)

lemma or_all: "foldl (OR) a c = 0 \<longleftrightarrow> a = 0 \<and> (\<forall>b\<in>set c. b = 0)" for a :: "'a::len word"
  by (induction c arbitrary: a) (auto simp: or_eq_0_iff)

lemma rom_code_test: "rom_code c \<Longrightarrow> foldl (AND) 0xFF c \<noteq> 0xFF \<and> foldl (OR) 0 c \<noteq> 0"
proof -
  assume r: "rom_code c"
  have m: "(0xFF :: u8) = -1" by simp
  have "c = replicate 8 b" if "\<forall>x\<in>set c. x = b" for b
    using r that replicate_length_same [of c b] by (simp add: rom_code_def)
  then show ?thesis using r and_all [of "-1" c] or_all [of 0 c] unfolding rom_code_def m by blast
qed

end
