(* ===== verification/FTE_OneWireBus.thy ===== *)
theory FTE_OneWireBus
  imports FTE_OneWireSearch
begin

unbundle bit_operations_syntax

text \<open>
  The search on a bus.  The first part follows the pin through the slots, for any line; the
  second states what the devices on a bus do in the slots that the search uses (locale
  \<open>ow_slaves\<close>) and shows that the search then finds every one of them; the third extends the
  laws to devices that are addressed one by one and measure (locale \<open>ow_thermo\<close>).
\<close>

section \<open>The pin in a slot\<close>

text \<open>A state of the bus \<open>p\<close> that has come from \<open>s0\<close>: \<open>R\<close> are the registers of the ports, \<open>l\<close> is
  the driver of the pin, \<open>b\<close> what is on the line, \<open>n\<close> the nesting level.\<close>

definition ow_put :: "addr \<Rightarrow> gpio_regs \<Rightarrow> fte_lwgpio \<Rightarrow> 'b \<Rightarrow> nat \<Rightarrow> ('b, 'y) owsys \<Rightarrow> ('b, 'y) owsys" where
  "ow_put q R l b n = upd_dio (\<lambda>d. d\<lparr>gpio := (gpio d)\<lparr>regs := R, lwgpios := (lwgpios (gpio d))(q \<mapsto> l)\<rparr>,
     dioMore := (dioMore d)\<lparr>owBus := b, owIrq := n\<rparr>\<rparr>)"

definition open_drain :: "fte_lwgpio \<Rightarrow> gpio_regs \<Rightarrow> bool" where
  "open_drain l R \<longleftrightarrow> handle_ok (xLWGPIO l) \<and> \<not> pin_latch (xLWGPIO l) R
     \<and> nActive (lwConfig l) = LWGPIO_VALUE_HIGH \<and> nInactive (lwConfig l) = LWGPIO_VALUE_LOW"

definition ow_at :: "addr \<Rightarrow> ('b, 'y) owsys \<Rightarrow> bool \<Rightarrow> 'b \<Rightarrow> nat \<Rightarrow> ('b, 'y) owsys \<Rightarrow> bool" where
  "ow_at p s0 out b n s \<longleftrightarrow> (\<exists>w R l. ows (ow s0) p = Some w \<and> s = ow_put (pLWGPIO w) R l b n s0
     \<and> open_drain l R \<and> pin_out (xLWGPIO l) R = out)"

lemma ow_put_simps [simp]:
  "gpio (dio (ow_put q R l b n s)) = (gpio (dio s))\<lparr>regs := R, lwgpios := (lwgpios (gpio (dio s)))(q \<mapsto> l)\<rparr>"
  "ow (ow_put q R l b n s) = (ow s)\<lparr>owBus := b, owIrq := n\<rparr>"
  by (simp_all add: ow_put_def upd_dio_def)

lemma ow_put_upd:
  "upd_dio (gpio_update (\<lambda>g. g\<lparr>regs := h (regs g)\<rparr>)) (ow_put q R l b n s) = ow_put q (h R) l b n s"
  "upd_dio (gpio_update (\<lambda>_. (gpio (dio s))\<lparr>regs := R', lwgpios := (lwgpios (gpio (dio s)))(q \<mapsto> l')\<rparr>)) (ow_put q R l b n s)
    = ow_put q R' l' b n s"
  "upd_ow (owBus_update f) (ow_put q R l b n s) = ow_put q R l (f b) n s"
  "upd_ow (owIrq_update g) (ow_put q R l b n s) = ow_put q R l b (g n) s"
  by (simp_all add: ow_put_def upd_dio_def upd_ow_def)

lemma ow_atI:
  "ows (ow s0) p = Some w \<Longrightarrow> open_drain l R \<Longrightarrow> pin_out (xLWGPIO l) R = out \<Longrightarrow> ow_at p s0 out b n (ow_put (pLWGPIO w) R l b n s0)"
  unfolding ow_at_def by blast

lemma ow_atE:
  assumes "ow_at p s0 out b n s"
  obtains w R l where "ows (ow s0) p = Some w" "s = ow_put (pLWGPIO w) R l b n s0" "open_drain l R" "pin_out (xLWGPIO l) R = out"
  using assms unfolding ow_at_def by blast

lemma at_delay: "ow_at p s0 out b n s \<Longrightarrow> ow_at p s0 out (lineWait L k b) n (udelay L k s)"
  by (elim ow_atE) (simp add: udelay_def ow_put_upd ow_atI)

lemma at_disable: "ow_at p s0 out b n s \<Longrightarrow> ow_at p s0 out b (Suc n) (int_disable s)"
  by (elim ow_atE) (simp add: int_disable_def ow_put_upd ow_atI)

lemma at_enable: "ow_at p s0 out b n s \<Longrightarrow> ow_at p s0 out b (n - 1) (int_enable s)"
  by (elim ow_atE) (simp add: int_enable_def ow_put_upd ow_atI)

lemma dir_flags:
  "take_bit 16 (f OR LWGPIO_DIR_MASK) = take_bit 16 f" "take_bit 16 (f AND NOT LWGPIO_DIR_MASK) = take_bit 16 f" for f :: u32
  by (rule bit_word_eqI, auto simp: bit_take_bit_iff bit_or_iff bit_and_iff bit_not_iff mask_bits)+

lemma direction_drain:
  assumes "open_drain l R" "lwgpio_set_direction d (xLWGPIO l) R = (h, R')" "d \<noteq> LWGPIO_DIR_NOCHANGE"
  shows "open_drain (l\<lparr>xLWGPIO := h\<rparr>) R'" "pin_out h R' \<longleftrightarrow> d = LWGPIO_DIR_OUTPUT" "\<not> pin_latch h R'"
proof -
  have "lwgpio_int_get_vector h = lwgpio_int_get_vector (xLWGPIO l)"
    using assms(2,3) vector_low_flags [OF dir_flags(1)] vector_low_flags [OF dir_flags(2)]
    by (cases d) (auto simp: lwgpio_set_direction_def lwgpio_int_get_vector_def)
  moreover have h: "hPort h = hPort (xLWGPIO l)" "hPin h = hPin (xLWGPIO l)" "pinmask h = pinmask (xLWGPIO l)"
    using assms(2) by (auto simp: lwgpio_set_direction_def split: lwgpio_dir.splits)
  ultimately have ok: "handle_ok h" using assms(1) by (simp add: open_drain_def handle_ok_def)
  show nl: "\<not> pin_latch h R'"
    using assms h by (auto simp: open_drain_def pin_latch_def lwgpio_set_direction_def split: lwgpio_dir.splits)
  show "open_drain (l\<lparr>xLWGPIO := h\<rparr>) R'" using assms(1) ok nl by (simp add: open_drain_def)
  show "pin_out h R' \<longleftrightarrow> d = LWGPIO_DIR_OUTPUT"
    using assms h by (cases d)
      (auto simp: open_drain_def handle_ok_def pin_out_def lwgpio_set_direction_def bit_and_iff bit_or_iff bit_not_iff bit_exp_iff)
qed

lemma at_dir:
  assumes "ow_at p s0 out b n s" "d \<noteq> LWGPIO_DIR_NOCHANGE"
  shows "\<exists>s'. ow_dir L p d s = Some s' \<and> ow_at p s0 (d = LWGPIO_DIR_OUTPUT) (lineDrive L (d = LWGPIO_DIR_OUTPUT) b) n s'"
proof -
  obtain w R l where w: "ows (ow s0) p = Some w" and s: "s = ow_put (pLWGPIO w) R l b n s0" and od: "open_drain l R"
    using assms(1) by (auto simp: ow_at_def)
  obtain h R' where hR: "lwgpio_set_direction d (xLWGPIO l) R = (h, R')" by fastforce
  note f = direction_drain [OF od hR assms(2)]
  have "ow_dir L p d s = Some (ow_put (pLWGPIO w) R' (l\<lparr>xLWGPIO := h\<rparr>) (lineDrive L (d = LWGPIO_DIR_OUTPUT) b) n s0)"
    using w f by (simp add: s ow_pin_def gpio_do_def FTE_LWGPIO_setDirection_def hR ow_put_upd Let_def)
  then show ?thesis using ow_atI [OF w f(1)] f(2) by simp
qed

lemma at_low:
  assumes "ow_at p s0 False b n s"
  shows "\<exists>s'. ow_pin L p (\<lambda>q. FTE_LWGPIO_setValue q 0) s = Some s' \<and> ow_at p s0 False (lineDrive L False b) n s'"
proof -
  obtain w R l where w: "ows (ow s0) p = Some w" and s: "s = ow_put (pLWGPIO w) R l b n s0" and od: "open_drain l R"
    and out: "\<not> pin_out (xLWGPIO l) R" using assms by (auto simp: ow_at_def)
  let ?R = "lwgpio_set_value (xLWGPIO l) LWGPIO_VALUE_LOW R"
  have "\<not> pin_latch (xLWGPIO l) ?R" using od pin_set_value [of "xLWGPIO l" LWGPIO_VALUE_LOW R] by (simp add: open_drain_def)
  moreover have o: "\<not> pin_out (xLWGPIO l) ?R" using out by (auto simp: pin_out_def lwgpio_set_value_def)
  ultimately have od': "open_drain l ?R" using od by (simp add: open_drain_def)
  have "ow_pin L p (\<lambda>q. FTE_LWGPIO_setValue q 0) s = Some (ow_put (pLWGPIO w) ?R l (lineDrive L False b) n s0)"
    using w od o by (simp add: s ow_pin_def gpio_do_def FTE_LWGPIO_setValue_def open_drain_def ow_put_upd Let_def)
      (simp add: ow_put_def upd_dio_def upd_ow_def)
  then show ?thesis using ow_atI [OF w od'] o by simp
qed

lemma at_value:
  assumes "ow_at p s0 False b n s"
  shows "\<exists>s'. ow_value L p s = Some (lineLevel L b, s') \<and> ow_at p s0 False b n s'"
proof -
  obtain w R l where w: "ows (ow s0) p = Some w" and s: "s = ow_put (pLWGPIO w) R l b n s0" and od: "open_drain l R"
    and out: "\<not> pin_out (xLWGPIO l) R" using assms by (auto simp: ow_at_def)
  let ?h = "xLWGPIO l" let ?R = "gpio_drive (hPort ?h) (hPin ?h) (lineLevel L b) R"
  have pin: "hPin ?h < 32" using od by (simp add: open_drain_def handle_ok_def)
  have same: "pin_latch ?h ?R = pin_latch ?h R" "pin_out ?h ?R = pin_out ?h R"
    by (simp_all add: pin_latch_def pin_out_def gpio_drive_def)
  have lev: "pin_level ?h ?R = lineLevel L b"
    using pin by (simp add: pin_level_def gpio_drive_def bit_or_iff bit_and_iff bit_not_iff bit_exp_iff)
  have od': "open_drain l ?R" using od same by (simp add: open_drain_def)
  have "ow_value L p s = Some (lineLevel L b, ow_put (pLWGPIO w) ?R l b n s0)"
    using w od out same lev pin_get_value [of ?h ?R]
    by (simp add: s ow_value_def FTE_LWGPIO_getValue_def open_drain_def ow_put_upd Let_def)
  then show ?thesis using ow_atI [OF w od'] same(2) out by simp
qed

section \<open>Slots\<close>

definition line_reset :: "'b ow_line \<Rightarrow> 'b \<Rightarrow> 'b" where
  "line_reset L b = lineWait L 1000 (lineDrive L False (lineWait L 1000 (lineDrive L True (lineDrive L False b))))"

definition line_write :: "'b ow_line \<Rightarrow> bool \<Rightarrow> 'b \<Rightarrow> 'b" where
  "line_write L v b = lineWait L 100 (
     if v then lineWait L 100 (lineDrive L False (lineWait L 2 (lineDrive L True b)))
     else lineDrive L False (lineWait L 100 (lineWait L 2 (lineDrive L True b))))"

definition line_sample :: "'b ow_line \<Rightarrow> 'b \<Rightarrow> 'b" where
  "line_sample L b = lineWait L 5 (lineDrive L False (lineWait L 2 (lineDrive L True b)))"

definition line_read :: "'b ow_line \<Rightarrow> 'b \<Rightarrow> 'b" where "line_read L b = lineWait L 193 (line_sample L b)"

abbreviation ow_idle :: "addr \<Rightarrow> ('b, 'y) owsys \<Rightarrow> 'b \<Rightarrow> nat \<Rightarrow> ('b, 'y) owsys \<Rightarrow> bool" where "ow_idle p s0 \<equiv> ow_at p s0 False"

lemmas at_out = at_dir [where d = LWGPIO_DIR_OUTPUT, simplified]
lemmas at_in = at_dir [where d = LWGPIO_DIR_INPUT, simplified]

lemma idle_reset:
  assumes "ow_idle p s0 b n s"
  shows "\<exists>s'. FTE_1WIRE_reset L p s = Some (FTE_RET_OK, s') \<and> ow_idle p s0 (line_reset L b) n s'"
proof -
  obtain s1 where s1: "ow_pin L p (\<lambda>q. FTE_LWGPIO_setValue q 0) s = Some s1" "ow_idle p s0 (lineDrive L False b) n s1"
    using at_low [OF assms] by blast
  obtain s2 where s2: "ow_dir L p LWGPIO_DIR_OUTPUT s1 = Some s2"
    "ow_at p s0 True (lineDrive L True (lineDrive L False b)) n s2" using at_out [OF s1(2)] by blast
  obtain s3 where s3: "ow_dir L p LWGPIO_DIR_INPUT (udelay L 1000 s2) = Some s3"
    "ow_idle p s0 (lineDrive L False (lineWait L 1000 (lineDrive L True (lineDrive L False b)))) n s3"
    using at_in [OF at_delay [OF s2(2)]] by blast
  show ?thesis using s1(1) s2(1) s3(1) at_delay [OF s3(2)] by (simp add: FTE_1WIRE_reset_def line_reset_def)
qed

lemma idle_write_bit:
  assumes "ow_idle p s0 b n s"
  shows "\<exists>s'. ow_write_bit L p v s = Some s' \<and> ow_idle p s0 (line_write L v b) (Suc n) (udelay L 100 s')"
proof -
  obtain s1 where s1: "ow_dir L p LWGPIO_DIR_OUTPUT (int_disable s) = Some s1" "ow_at p s0 True (lineDrive L True b) (Suc n) s1"
    using at_out [OF at_disable [OF assms]] by blast
  obtain s2 where s2: "ow_dir L p LWGPIO_DIR_INPUT (udelay L 2 s1) = Some s2"
    "ow_idle p s0 (lineDrive L False (lineWait L 2 (lineDrive L True b))) (Suc n) s2"
    using at_in [OF at_delay [OF s1(2)]] by blast
  obtain s3 where s3: "ow_dir L p LWGPIO_DIR_INPUT (udelay L 100 (udelay L 2 s1)) = Some s3"
    "ow_idle p s0 (lineDrive L False (lineWait L 100 (lineWait L 2 (lineDrive L True b)))) (Suc n) s3"
    using at_in [OF at_delay [OF at_delay [OF s1(2)]]] by blast
  show ?thesis
  proof (cases v)
    case True
    then show ?thesis using s1(1) s2(1) at_delay [OF at_delay [OF s2(2)]] by (simp add: ow_write_bit_def line_write_def)
  next
    case False
    then show ?thesis using s1(1) s3(1) at_delay [OF s3(2)] by (simp add: ow_write_bit_def line_write_def)
  qed
qed

lemma idle_sample:
  assumes "ow_idle p s0 b n s"
  shows "\<exists>s'. ow_sample L p s = Some (lineLevel L (line_sample L b), s')
    \<and> ow_idle p s0 (line_read L b) n (udelay L 193 (int_enable s'))"
proof -
  obtain s1 where s1: "ow_dir L p LWGPIO_DIR_OUTPUT (int_disable s) = Some s1" "ow_at p s0 True (lineDrive L True b) (Suc n) s1"
    using at_out [OF at_disable [OF assms]] by blast
  obtain s2 where s2: "ow_dir L p LWGPIO_DIR_INPUT (udelay L 2 s1) = Some s2"
    "ow_idle p s0 (lineDrive L False (lineWait L 2 (lineDrive L True b))) (Suc n) s2"
    using at_in [OF at_delay [OF s1(2)]] by blast
  obtain s3 where s3: "ow_value L p (udelay L 5 s2) = Some (lineLevel L (line_sample L b), s3)" "ow_idle p s0 (line_sample L b) (Suc n) s3"
    using at_value [OF at_delay [OF s2(2), where L = L and k = 5]] by (auto simp: line_sample_def)
  show ?thesis using s1(1) s2(1) s3(1) at_delay [OF at_enable [OF s3(2)], where L = L and k = 193]
    by (simp add: ow_sample_def line_read_def)
qed

lemma idle_read_two:
  assumes "ow_idle p s0 b n s"
  shows "\<exists>s'. FTE_1WIRE_readBits L p 2 s = Some (FTE_RET_ERROR,
      [answer (lineLevel L (line_sample L b)) (lineLevel L (line_sample L (line_read L b)))], s')
    \<and> ow_idle p s0 (line_read L (line_read L b)) n s'"
proof -
  obtain s1 where s1: "ow_sample L p s = Some (lineLevel L (line_sample L b), s1)"
    "ow_idle p s0 (line_read L b) n (udelay L 193 (int_enable s1))" using idle_sample [OF assms] by blast
  obtain s2 where s2: "ow_sample L p (udelay L 193 (int_enable s1)) = Some (lineLevel L (line_sample L (line_read L b)), s2)"
    "ow_idle p s0 (line_read L (line_read L b)) n (udelay L 193 (int_enable s2))" using idle_sample [OF s1(2)] by blast
  show ?thesis using s1(1) s2 by (simp add: FTE_1WIRE_readBits_def ow_read_bits_def numeral_2_eq_2 answer_def Let_def)
qed

text \<open>A bit that is written alone leaves the nesting level two higher.\<close>

lemma idle_write_one:
  assumes "ow_idle p s0 b n s"
  shows "\<exists>s'. FTE_1WIRE_writeBits L p [of_bool v] 1 s = Some (FTE_RET_OK, s') \<and> ow_idle p s0 (line_write L v b) (n + 2) s'"
proof -
  obtain s1 where s1: "ow_write_bit L p v s = Some s1" "ow_idle p s0 (line_write L v b) (Suc n) (udelay L 100 s1)"
    using idle_write_bit [OF assms] by blast
  have "udelay L 100 (int_disable s1) = int_disable (udelay L 100 s1)"
    by (simp add: udelay_def int_disable_def upd_ow_def upd_dio_def)
  then show ?thesis using s1(1) at_disable [OF s1(2)] by (cases v) (simp_all add: FTE_1WIRE_writeBits_def guard_opt_def)
qed

lemma for_loop_rule:
  assumes "\<And>i s. a \<le> i \<Longrightarrow> i < a + n \<Longrightarrow> I i s \<Longrightarrow> \<exists>s'. f i s = Some s' \<and> I (Suc i) s'" "I a s"
  shows "\<exists>s'. for_loop f a n s = Some s' \<and> I (a + n) s'"
  using assms
proof (induction n arbitrary: a s)
  case (Suc n)
  obtain s1 where "f a s = Some s1" "I (Suc a) s1" using Suc.prems(1) [of a s] Suc.prems(2) by auto
  moreover obtain s2 where "for_loop f (Suc a) n s1 = Some s2" "I (Suc a + n) s2"
    using Suc.IH [of "Suc a" s1] Suc.prems(1) calculation(2) by auto
  ultimately show ?case by simp
qed simp

text \<open>Bytes: \<open>Q k\<close> is what holds on the line after \<open>k\<close> slots.\<close>

lemma delay_irq:
  "udelay L k (int_enable s) = int_enable (udelay L k s)" "udelay L k (int_disable s) = int_disable (udelay L k s)"
  by (simp_all add: udelay_def int_enable_def int_disable_def upd_ow_def upd_dio_def)

lemma idle_write_byte:
  assumes "ow_idle p s0 b n s" "Q 0 b" "\<And>j b. j < 8 \<Longrightarrow> Q j b \<Longrightarrow> Q (Suc j) (line_write L (bit v j) b)"
  shows "\<exists>b' s'. FTE_1WIRE_writeByte L p v s = Some (FTE_RET_OK, s') \<and> ow_idle p s0 b' n s' \<and> Q 8 b'"
proof -
  let ?I = "\<lambda>j s. \<exists>b. ow_idle p s0 b n s \<and> Q j b"
  let ?f = "\<lambda>j s. do { s \<leftarrow> ow_write_bit L p (bit v j) s; Some (udelay L 100 (int_enable s)) }"
  have "\<exists>s'. for_loop ?f 0 8 s = Some s' \<and> ?I (0 + 8) s'"
  proof (rule for_loop_rule)
    fix j s assume "j < 0 + 8" "?I j s"
    then obtain b where j: "j < 8" and b: "ow_idle p s0 b n s" "Q j b" by auto
    obtain s1 where s1: "ow_write_bit L p (bit v j) s = Some s1" "ow_idle p s0 (line_write L (bit v j) b) (Suc n) (udelay L 100 s1)"
      using idle_write_bit [OF b(1)] by blast
    have "ow_idle p s0 (line_write L (bit v j) b) n (udelay L 100 (int_enable s1))" using at_enable [OF s1(2)] by (simp add: delay_irq)
    then show "\<exists>s'. ?f j s = Some s' \<and> ?I (Suc j) s'" using s1(1) assms(3) [OF j b(2)] by auto
  qed (use assms(1,2) in auto)
  then show ?thesis by (auto simp: FTE_1WIRE_writeByte_def FTE_1WIRE_writeBits_def guard_opt_def)
qed

definition line_send :: "'b ow_line \<Rightarrow> bool \<Rightarrow> 'b \<Rightarrow> 'b" where
  "line_send L v b = lineWait L 15 (
     if v then lineWait L 180 (lineDrive L False (lineWait L 5 (lineDrive L True b)))
     else lineDrive L False (lineWait L 180 (lineWait L 5 (lineDrive L True b))))"

lemma idle_send_bit:
  assumes "ow_idle p s0 b n s"
  shows "\<exists>s'. ow_send_bit L p v s = Some s' \<and> ow_idle p s0 (line_send L v b) n s'"
proof -
  obtain s1 where s1: "ow_dir L p LWGPIO_DIR_OUTPUT (int_disable s) = Some s1" "ow_at p s0 True (lineDrive L True b) (Suc n) s1"
    using at_out [OF at_disable [OF assms]] by blast
  show ?thesis
  proof (cases v)
    case True
    obtain s2 where s2: "ow_dir L p LWGPIO_DIR_INPUT (udelay L 5 s1) = Some s2"
      "ow_idle p s0 (lineDrive L False (lineWait L 5 (lineDrive L True b))) (Suc n) s2" using at_in [OF at_delay [OF s1(2)]] by blast
    then show ?thesis using s1(1) True at_delay [OF at_enable [OF at_delay [OF s2(2), of L 180]], of L 15]
      by (simp add: ow_send_bit_def line_send_def)
  next
    case False
    obtain s3 where s3: "ow_dir L p LWGPIO_DIR_INPUT (udelay L 180 (udelay L 5 s1)) = Some s3"
      "ow_idle p s0 (lineDrive L False (lineWait L 180 (lineWait L 5 (lineDrive L True b)))) (Suc n) s3"
      using at_in [OF at_delay [OF at_delay [OF s1(2)]]] by blast
    then show ?thesis using s1(1) False at_delay [OF at_enable [OF s3(2)], of L 15] by (simp add: ow_send_bit_def line_send_def)
  qed
qed

lemma byte_place:
  fixes i j :: nat
  assumes "j < 8"
  shows "(8 * i + j) div 8 = i" "(8 * i + j) mod 8 = j" "i < m \<Longrightarrow> 8 * i + j < 8 * m"
  using assms by auto

lemma idle_write:
  assumes "ow_idle p s0 b n s" "Q 0 b"
    "\<And>k b. k < 8 * length buf \<Longrightarrow> Q k b \<Longrightarrow> Q (Suc k) (line_send L (bit (buf ! (k div 8)) (k mod 8)) b)"
    "\<And>b. Q (8 * length buf) b \<Longrightarrow> Q (8 * length buf) (lineWait L 1000 b)"
  shows "\<exists>b' s'. FTE_1WIRE_write L p buf s = Some (FTE_RET_OK, s') \<and> ow_idle p s0 b' n s' \<and> Q (8 * length buf) b'"
proof -
  let ?I = "\<lambda>k s. \<exists>b. ow_idle p s0 b n s \<and> Q k b"
  let ?f = "\<lambda>i. for_loop (\<lambda>j. ow_send_bit L p (bit (buf ! i) j)) 0 8"
  have "\<exists>s'. for_loop ?f 0 (length buf) s = Some s' \<and> ?I (8 * (0 + length buf)) s'"
  proof (rule for_loop_rule)
    fix i s assume i: "i < 0 + length buf" and I: "?I (8 * i) s"
    have "\<exists>s'. ?f i s = Some s' \<and> ?I (8 * i + (0 + 8)) s'"
    proof (rule for_loop_rule)
      fix j s assume "j < 0 + 8" "?I (8 * i + j) s"
      then obtain b where j: "j < 8" and b: "ow_idle p s0 b n s" "Q (8 * i + j) b" by auto
      have "8 * i + j < 8 * length buf" using byte_place(3) [OF j] i by simp
      then have q: "Q (Suc (8 * i + j)) (line_send L (bit (buf ! i) j) b)" using assms(3) b(2) byte_place(1,2) [OF j] by metis
      obtain s1 where "ow_send_bit L p (bit (buf ! i) j) s = Some s1" "ow_idle p s0 (line_send L (bit (buf ! i) j) b) n s1"
        using idle_send_bit [OF b(1)] by blast
      then show "\<exists>s'. ow_send_bit L p (bit (buf ! i) j) s = Some s' \<and> ?I (8 * i + Suc j) s'" using q by auto
    qed (use I in simp)
    then show "\<exists>s'. ?f i s = Some s' \<and> ?I (8 * Suc i) s'" by (simp add: algebra_simps)
  qed (use assms(1,2) in auto)
  then obtain s1 b1 where s1: "for_loop ?f 0 (length buf) s = Some s1" "ow_idle p s0 b1 n s1" "Q (8 * length buf) b1" by auto
  then show ?thesis unfolding FTE_1WIRE_write_def using at_delay [OF s1(2), of L 1000] assms(4) by auto
qed

lemma take_bit_step: "take_bit (Suc j) w = (if bit w j then take_bit j w OR push_bit j 1 else take_bit j w)" for w :: u8
  by (rule bit_word_eqI) (auto simp: bit_take_bit_iff bit_or_iff bit_push_bit_iff less_Suc_eq bit_1_iff simp del: push_bit_of_1)

text \<open>\<open>m\<close> is what is read; the bytes behind the current one are still zero.\<close>

definition read_so_far :: "u8 list \<Rightarrow> nat \<Rightarrow> nat \<Rightarrow> u8 list \<Rightarrow> bool" where
  "read_so_far m i j buf \<longleftrightarrow> length buf = length m \<and> (\<forall>k<length m. buf ! k = (if k < i then m ! k else if k = i then take_bit j (m ! k) else 0))"

lemma read_so_far_step:
  assumes "read_so_far m i j buf" "i < length m"
  shows "read_so_far m i (Suc j) (if bit (m ! i) j then buf[i := buf ! i OR push_bit j 1] else buf)"
  using assms take_bit_step [of j "m ! i"] by (auto simp: read_so_far_def nth_list_update)

lemma idle_read:
  assumes "ow_idle p s0 b n s" "Q 0 b"
    "\<And>k b. k < 8 * length m \<Longrightarrow> Q k b \<Longrightarrow> lineLevel L (line_sample L b) = bit (m ! (k div 8)) (k mod 8) \<and> Q (Suc k) (line_read L b)"
  shows "\<exists>b' s'. FTE_1WIRE_read L p (length m) s = Some (FTE_RET_OK, m, s') \<and> ow_idle p s0 b' n s' \<and> Q (8 * length m) b'"
proof -
  let ?I = "\<lambda>k s. \<exists>b. ow_idle p s0 b n s \<and> Q k b"
  have "\<exists>x. for_loop (\<lambda>i. for_loop (ow_read_slot L p i) 0 8) 0 (length m) (replicate (length m) 0, s) = Some x
    \<and> read_so_far m (0 + length m) 0 (fst x) \<and> ?I (8 * (0 + length m)) (snd x)"
  proof (rule for_loop_rule)
    fix i x assume i: "i < 0 + length m" and I: "read_so_far m i 0 (fst x) \<and> ?I (8 * i) (snd x)"
    have "\<exists>y. for_loop (ow_read_slot L p i) 0 8 x = Some y \<and> read_so_far m i (0 + 8) (fst y) \<and> ?I (8 * i + (0 + 8)) (snd y)"
    proof (rule for_loop_rule)
      fix j x assume "j < 0 + 8" "read_so_far m i j (fst x) \<and> ?I (8 * i + j) (snd x)"
      then obtain b where j: "j < 8" and r: "read_so_far m i j (fst x)" and b: "ow_idle p s0 b n (snd x)" "Q (8 * i + j) b" by auto
      have "8 * i + j < 8 * length m" using byte_place(3) [OF j] i by simp
      then have q: "lineLevel L (line_sample L b) = bit (m ! i) j" "Q (Suc (8 * i + j)) (line_read L b)"
        using assms(3) [OF _ b(2)] byte_place(1,2) [OF j] by auto
      obtain s1 where s1: "ow_sample L p (snd x) = Some (bit (m ! i) j, s1)" "ow_idle p s0 (line_read L b) n (udelay L 193 (int_enable s1))"
        using idle_sample [OF b(1), of L] q(1) by auto
      show "\<exists>y. ow_read_slot L p i j x = Some y \<and> read_so_far m i (Suc j) (fst y) \<and> ?I (8 * i + Suc j) (snd y)"
        using s1 q(2) read_so_far_step [OF r] i by (auto simp: ow_read_slot_def case_prod_beta delay_irq)
    qed (use I in simp)
    moreover have "read_so_far m (Suc i) 0 buf" if "read_so_far m i 8 buf" for buf
    proof -
      have "take_bit 8 w = w" for w :: u8 by (rule bit_word_eqI) (simp add: bit_take_bit_iff)
      then show ?thesis using that by (auto simp: read_so_far_def less_Suc_eq)
    qed
    ultimately show "\<exists>y. for_loop (ow_read_slot L p i) 0 8 x = Some y \<and> read_so_far m (Suc i) 0 (fst y) \<and> ?I (8 * Suc i) (snd y)"
      by (auto simp: algebra_simps)
  qed (use assms(1,2) in \<open>auto simp: read_so_far_def\<close>)
  then obtain buf s1 b1 where s1: "for_loop (\<lambda>i. for_loop (ow_read_slot L p i) 0 8) 0 (length m) (replicate (length m) 0, s) = Some (buf, s1)"
    "read_so_far m (length m) 0 buf" "ow_idle p s0 b1 n s1" "Q (8 * length m) b1" by auto
  have "buf = m" using s1(2) by (auto simp: read_so_far_def intro: nth_equalityI)
  then show ?thesis unfolding FTE_1WIRE_read_def using s1 by auto
qed

section \<open>Devices on the bus\<close>

text \<open>Where the devices are; \<open>P\<close> are those that take part.  The first four phases are the search.\<close>

datatype ow_phase = OwCommand "bool list" | OwFirst nat "rom list" | OwSecond nat "rom list" | OwDir nat "rom list"
  | OwMatch "bool list" | OwSelected "rom list" "bool list" | OwPad "rom list" nat | OwConvert "rom list" | OwDone

definition byte_bits :: "u8 \<Rightarrow> bool list" where "byte_bits v = map (bit v) [0..<8]"

definition after_command :: "rom list \<Rightarrow> bool list \<Rightarrow> ow_phase" where
  "after_command cs bs = (if length bs < 8 then OwCommand bs
     else if bs = byte_bits 0xF0 then OwFirst 0 cs else if bs = byte_bits 0x55 then OwMatch [] else OwDone)"

definition after_dir :: "nat \<Rightarrow> rom list \<Rightarrow> bool \<Rightarrow> ow_phase" where
  "after_dir i P v = (if Suc i < 64 then OwFirst (Suc i) (filter (\<lambda>c. rom_bit c i = v) P) else OwDone)"

definition after_match :: "rom list \<Rightarrow> bool list \<Rightarrow> ow_phase" where
  "after_match cs bs = (if length bs < 64 then OwMatch bs else OwSelected (filter (\<lambda>c. rom_key c = bs) cs) [])"

definition after_function :: "rom list \<Rightarrow> bool list \<Rightarrow> ow_phase" where
  "after_function P bs = (if length bs < 8 then OwSelected P bs
     else if bs = byte_bits 0xBE then OwPad P 0 else if bs = byte_bits 0x44 then OwConvert P else OwDone)"

lemma byte_bits_inj: "byte_bits v = byte_bits w \<longleftrightarrow> v = w"
  by (auto simp: byte_bits_def intro: bit_word_eqI)

lemma after_byte:
  "after_command cs (byte_bits v) = (if v = 0xF0 then OwFirst 0 cs else if v = 0x55 then OwMatch [] else OwDone)"
  "after_function P (byte_bits v) = (if v = 0xBE then OwPad P 0 else if v = 0x44 then OwConvert P else OwDone)"
  by (simp_all add: after_command_def after_function_def byte_bits_inj) (simp_all add: byte_bits_def)

lemma pass_none: "pass_bits i (Suc n) [] x = Some (True, x)"
  by (simp add: search_switch_def answer_def)

text \<open>The laws are the search of the devices: the line is high in a reading slot unless a device
  pulls it, first for a bit that is zero, then for one that is one; a device whose bit is
  not the one written leaves.\<close>

locale ow_slaves =
  fixes L :: "'b ow_line" and cs :: "rom list" and Ph :: "ow_phase \<Rightarrow> 'b \<Rightarrow> bool"
  assumes bus_reset: "Ph (OwCommand []) (line_reset L b)"
    and bus_command: "Ph (OwCommand bs) b \<Longrightarrow> Ph (after_command cs (bs @ [v])) (line_write L v b)"
    and bus_first: "Ph (OwFirst i P) b \<Longrightarrow> lineLevel L (line_sample L b) = (\<forall>c\<in>set P. rom_bit c i)"
    and bus_first_next: "Ph (OwFirst i P) b \<Longrightarrow> Ph (OwSecond i P) (line_read L b)"
    and bus_second: "Ph (OwSecond i P) b \<Longrightarrow> lineLevel L (line_sample L b) = (\<forall>c\<in>set P. \<not> rom_bit c i)"
    and bus_second_next: "Ph (OwSecond i P) b \<Longrightarrow> Ph (OwDir i P) (line_read L b)"
    and bus_dir: "Ph (OwDir i P) b \<Longrightarrow> Ph (after_dir i P v) (line_write L v b)"
begin

lemma command_byte:
  assumes "ow_idle p s0 b n s" "Ph (OwCommand []) b"
  shows "\<exists>b' s'. FTE_1WIRE_writeByte L p v s = Some (FTE_RET_OK, s') \<and> ow_idle p s0 b' n s' \<and> Ph (after_command cs (byte_bits v)) b'"
  unfolding byte_bits_def
proof (rule idle_write_byte [OF assms(1)])
  show "Ph (after_command cs (map (bit v) [0..<0])) b" using assms(2) by (simp add: after_command_def)
  fix j b assume "j < 8" "Ph (after_command cs (map (bit v) [0..<j])) b"
  then show "Ph (after_command cs (map (bit v) [0..<Suc j])) (line_write L (bit v j) b)"
    using bus_command [of "map (bit v) [0..<j]" b "bit v j"] by (simp add: after_command_def)
qed

lemma search_command:
  assumes "ow_idle p s0 b n s" "Ph (OwCommand []) b"
  shows "\<exists>b' s'. FTE_1WIRE_writeByte L p 0xF0 s = Some (FTE_RET_OK, s') \<and> ow_idle p s0 b' n s' \<and> Ph (OwFirst 0 cs) b'"
  using command_byte [OF assms, of "0xF0"] by (simp add: after_byte)

lemma search_bits_pass:
  assumes "ow_idle p s0 b n s" "Ph (OwFirst i P) b" "i + k = 64" "pass_bits i k P x = Some (fin, y)" "i < 64"
  shows "\<exists>b' n' s'. search_bits L p i k (x, s) = Some (fin, y, s') \<and> ow_idle p s0 b' n' s' \<and> (\<not> fin \<longrightarrow> n' = n + 2 * k)"
  using assms
proof (induction k arbitrary: b n s i P x)
  case (Suc k)
  let ?d = "answer (\<forall>c\<in>set P. rom_bit c i) (\<forall>c\<in>set P. \<not> rom_bit c i)"
  obtain s1 where s1: "FTE_1WIRE_readBits L p 2 s = Some (FTE_RET_ERROR, [?d], s1)" "ow_idle p s0 (line_read L (line_read L b)) n s1"
    using idle_read_two [OF Suc.prems(1), of L] bus_first [OF Suc.prems(2)] bus_second [OF bus_first_next [OF Suc.prems(2)]] by auto
  have dir: "Ph (OwDir i P) (line_read L (line_read L b))" by (intro bus_second_next bus_first_next Suc.prems(2))
  obtain fin1 x1 where x1: "search_switch i ?d x = Some (fin1, x1)" using Suc.prems(4) by (cases "search_switch i ?d x") auto
  show ?case
  proof (cases fin1)
    case True
    then show ?thesis using Suc.prems(4) x1 s1 by auto
  next
    case False
    let ?v = "GET_BIT_AT (sROM x1) i" and ?P = "filter (\<lambda>c. rom_bit c i = rom_bit (sROM x1) i) P"
    obtain s2 where s2: "FTE_1WIRE_writeBits L p [of_bool ?v] 1 s1 = Some (FTE_RET_OK, s2)"
      "ow_idle p s0 (line_write L ?v (line_read L (line_read L b))) (n + 2) s2" using idle_write_one [OF s1(2)] by blast
    note ph = bus_dir [OF dir, of ?v]
    have step: "search_bits L p i (Suc k) (x, s) = search_bits L p (Suc i) k (x1, s2)" using x1 s1(1) s2(1) False by simp
    have pass: "pass_bits (Suc i) k ?P x1 = Some (fin, y)" using Suc.prems(4) x1 False by simp
    show ?thesis
    proof (cases "k = 0")
      case True
      then show ?thesis using pass s2(2) unfolding step by auto
    next
      case k: False
      then have i: "Suc i < 64" using Suc.prems(3) by simp
      have "Ph (OwFirst (Suc i) ?P) (line_write L ?v (line_read L (line_read L b)))"
        using ph i by (simp add: after_dir_def)
      from Suc.IH [OF s2(2) this _ pass i] Suc.prems(3) show ?thesis unfolding step by auto
    qed
  qed
qed simp


text \<open>One turn of the loop.\<close>

lemma search_pass:
  assumes "ow_idle p s0 b n s" "pass_bits 0 64 cs (x\<lparr>bFound := False\<rparr>) = Some (False, y)"
  shows "\<exists>b' s'. ow_idle p s0 b' (n + 128) s' \<and> search_loop L p m x out s
    = (if bFound y \<and> foldl (AND) 0xFF (sROM y) \<noteq> 0xFF \<and> foldl (OR) 0 (sROM y) \<noteq> 0
       then search_loop L p m y (if length out < unat m then out @ [sROM y] else out) s' else Some (out, s'))"
proof -
  obtain s1 where s1: "FTE_1WIRE_reset L p s = Some (FTE_RET_OK, s1)" "ow_idle p s0 (line_reset L b) n s1"
    using idle_reset [OF assms(1)] by blast
  obtain b2 s2 where s2: "FTE_1WIRE_writeByte L p 0xF0 s1 = Some (FTE_RET_OK, s2)" "ow_idle p s0 b2 n s2" "Ph (OwFirst 0 cs) b2"
    using search_command [OF s1(2) bus_reset] by blast
  obtain b3 s3 where s3: "search_bits L p 0 64 (x\<lparr>bFound := False\<rparr>, s2) = Some (False, y, s3)" "ow_idle p s0 b3 (n + 128) s3"
    using search_bits_pass [OF s2(2,3) _ assms(2)] by auto
  let ?go = "bFound y \<and> foldl (AND) 0xFF (sROM y) \<noteq> 0xFF \<and> foldl (OR) 0 (sROM y) \<noteq> 0"
  show ?thesis
  proof (cases ?go)
    case True
    then have "search_loop L p m x out s
        = search_loop L p m y (if length out < unat m then out @ [sROM y] else out) (time_delay L 10 s3)"
      by (subst search_loop.simps) (simp add: s1(1) s2(1) s3(1))
    then show ?thesis using True at_delay [OF s3(2), where L = L and k = "1000 * 10"] by auto
  next
    case False
    then have "search_loop L p m x out s = Some (out, s3)"
      by (subst search_loop.simps) (use False in \<open>auto simp: s1(1) s2(1) s3(1)\<close>)
    then show ?thesis using False s3(2) by auto
  qed
qed

lemma settled_found: "settled cs (x\<lparr>bFound := v\<rparr>) = settled cs x"
  by (simp add: settled_def wf_search_def stack_def)

lemma search_rest:
  assumes "\<forall>c\<in>set cs. rom_code c" "settled cs x" "ow_idle p s0 b n s" "length out \<le> unat m" "codes_after cs (sROM x) = qs"
  shows "\<exists>b' s'. search_loop L p m x out s = Some (take (unat m) (out @ qs), s') \<and> ow_idle p s0 b' (n + 128 * Suc (length qs)) s'"
  using assms(2-)
proof (induction qs arbitrary: x b n s out)
  case Nil
  let ?x = "x\<lparr>bFound := False\<rparr>"
  have "pass_bits 0 64 cs ?x = Some (False, ?x)"
    by (rule pass_end) (use Nil assms(1) codes_last [of cs "sROM x"] in \<open>auto simp: settled_found rom_code_def\<close>)
  from search_pass [OF Nil(2) this, of m out] Nil(3) show ?case by auto
next
  case (Cons z qs)
  let ?x = "x\<lparr>bFound := False\<rparr>"
  have len: "\<forall>c\<in>set cs. length c = 8" using assms(1) by (auto simp: rom_code_def)
  have "z \<in> set (codes_after cs (sROM x))" using Cons.prems(4) by simp
  then have "z \<in> set cs" "rom_key (sROM ?x) < rom_key z" by (auto simp: codes_after_def)
  then obtain y where y: "pass_bits 0 64 cs ?x = Some (False, y)" "settled cs y" "bFound y" "rom_key (sROM ?x) < rom_key (sROM y)"
    "\<forall>c\<in>set cs. rom_key (sROM ?x) < rom_key c \<longrightarrow> rom_key (sROM y) \<le> rom_key c"
    using pass_next [of cs ?x z] Cons.prems(1) assms(1) settled_found by blast
  have ymem: "sROM y \<in> set cs" using y(2) by (simp add: settled_def)
  have after: "sROM y = z" "codes_after cs (sROM y) = qs"
    using codes_next [OF len ymem, of "sROM x"] y(4,5) Cons.prems(4) by auto
  have go: "bFound y \<and> foldl (AND) 0xFF (sROM y) \<noteq> 0xFF \<and> foldl (OR) 0 (sROM y) \<noteq> 0"
    using y(3) rom_code_test ymem assms(1) by blast
  let ?out = "if length out < unat m then out @ [sROM y] else out"
  obtain b1 s1 where s1: "ow_idle p s0 b1 (n + 128) s1" "search_loop L p m x out s = search_loop L p m y ?out s1"
    using search_pass [OF Cons.prems(2) y(1), of m out] go by auto
  have "length ?out \<le> unat m" using Cons.prems(3) by simp
  from Cons.IH [OF y(2) s1(1) this after(2)] obtain b2 s2 where
    s2: "search_loop L p m y ?out s1 = Some (take (unat m) (?out @ qs), s2)" "ow_idle p s0 b2 (n + 128 + 128 * Suc (length qs)) s2" by blast
  have "take (unat m) (?out @ qs) = take (unat m) (out @ z # qs)" using Cons.prems(3) after(1) by (cases "length out < unat m") auto
  moreover have "n + 128 + 128 * Suc (length qs) = n + 128 * Suc (length (z # qs))" by simp
  ultimately show ?case using s1(2) s2 by metis
qed

lemma search_codes:
  assumes "\<forall>c\<in>set cs. rom_code c" "cs \<noteq> []" "ow_idle p s0 b n s"
  shows "\<exists>b' s'. search_loop L p m search_zero [] s = Some (take (unat m) (codes_found cs), s')
    \<and> ow_idle p s0 b' (n + 128 * Suc (length (codes_found cs))) s'"
proof -
  have z: "search_zero\<lparr>bFound := False\<rparr> = search_zero" by (simp add: search_zero_def)
  obtain y where y: "pass_bits 0 64 cs search_zero = Some (False, y)" "settled cs y" "bFound y"
    "\<forall>c\<in>set cs. rom_key (sROM y) \<le> rom_key c" by (rule pass_first [OF assms(2,1)])
  have len: "\<forall>c\<in>set cs. length c = 8" using assms(1) by (auto simp: rom_code_def)
  have ymem: "sROM y \<in> set cs" using y(2) by (simp add: settled_def)
  have first: "codes_found cs = sROM y # codes_after cs (sROM y)" by (rule codes_first [OF len ymem y(4)])
  have go: "bFound y \<and> foldl (AND) 0xFF (sROM y) \<noteq> 0xFF \<and> foldl (OR) 0 (sROM y) \<noteq> 0"
    using y(3) rom_code_test ymem assms(1) by blast
  let ?out = "if 0 < unat m then [sROM y] else []"
  obtain b1 s1 where s1: "ow_idle p s0 b1 (n + 128) s1" "search_loop L p m search_zero [] s = search_loop L p m y ?out s1"
    using search_pass [OF assms(3), of search_zero y m "[]"] y(1) z go by auto
  have "length ?out \<le> unat m" by simp
  from search_rest [OF assms(1) y(2) s1(1) this refl] obtain b2 s2 where
    s2: "search_loop L p m y ?out s1 = Some (take (unat m) (?out @ codes_after cs (sROM y)), s2)"
    "ow_idle p s0 b2 (n + 128 + 128 * Suc (length (codes_after cs (sROM y)))) s2" by blast
  have "take (unat m) (?out @ codes_after cs (sROM y)) = take (unat m) (codes_found cs)" using first by (cases "unat m") auto
  moreover have "n + 128 + 128 * Suc (length (codes_after cs (sROM y))) = n + 128 * Suc (length (codes_found cs))" using first by simp
  ultimately show ?thesis using s1(2) s2 by metis
qed

text \<open>No device answers: both readings are high, and the search ends at the first bit.\<close>

lemma search_none:
  assumes "cs = []" "ow_idle p s0 b n s"
  shows "\<exists>b' n' s'. search_loop L p m search_zero [] s = Some ([], s') \<and> ow_idle p s0 b' n' s'"
proof -
  obtain s1 where s1: "FTE_1WIRE_reset L p s = Some (FTE_RET_OK, s1)" "ow_idle p s0 (line_reset L b) n s1"
    using idle_reset [OF assms(2)] by blast
  obtain b2 s2 where s2: "FTE_1WIRE_writeByte L p 0xF0 s1 = Some (FTE_RET_OK, s2)" "ow_idle p s0 b2 n s2" "Ph (OwFirst 0 cs) b2"
    using search_command [OF s1(2) bus_reset] by blast
  have z: "search_zero\<lparr>bFound := False\<rparr> = search_zero" by (simp add: search_zero_def)
  have "pass_bits 0 64 cs search_zero = Some (True, search_zero)" using pass_none [of 0 63 search_zero] assms(1) by simp
  from search_bits_pass [OF s2(2,3) _ this] obtain b3 n3 s3 where
    s3: "search_bits L p 0 64 (search_zero, s2) = Some (True, search_zero, s3)" "ow_idle p s0 b3 n3 s3" by auto
  have "search_loop L p m search_zero [] s = Some ([], s3)"
    by (subst search_loop.simps) (simp add: s1(1) s2(1) z s3(1))
  then show ?thesis using s3(2) by blast
qed

end

section \<open>The search\<close>

text \<open>A bus that is attached and at rest.\<close>

definition ow_rest :: "addr \<Rightarrow> ('b, 'y) owsys \<Rightarrow> bool" where
  "ow_rest p s \<longleftrightarrow> xLock p \<noteq> NULL
     \<and> (case sems s (xLock p) of None \<Rightarrow> False | Some k \<Rightarrow> 0 < k)
     \<and> (case ows (ow s) p of None \<Rightarrow> False | Some w \<Rightarrow>
          case lwgpios (gpio (dio s)) (pLWGPIO w) of None \<Rightarrow> False | Some l \<Rightarrow>
            open_drain l (regs (gpio (dio s))) \<and> \<not> pin_out (xLWGPIO l) (regs (gpio (dio s))))"

lemma ow_rest_idle:
  assumes "ow_rest p s"
  shows "ow_idle p s (owBus (ow s)) (owIrq (ow s)) s"
proof -
  obtain w l where w: "ows (ow s) p = Some w" "lwgpios (gpio (dio s)) (pLWGPIO w) = Some l"
    "open_drain l (regs (gpio (dio s)))" "pin_out (xLWGPIO l) (regs (gpio (dio s))) = False"
    using assms by (auto simp: ow_rest_def split: option.splits)
  have "(lwgpios (gpio (dio s)))(pLWGPIO w \<mapsto> l) = lwgpios (gpio (dio s))" using w(2) by auto
  then have "ow_put (pLWGPIO w) (regs (gpio (dio s))) l (owBus (ow s)) (owIrq (ow s)) s = s" by (simp add: ow_put_def upd_dio_def)
  then show ?thesis using ow_atI [OF w(1,3,4), of "owBus (ow s)" "owIrq (ow s)"] by simp
qed

lemma ow_put_sems:
  "ow_put q R l b n (s\<lparr>sems := X\<rparr>) = (ow_put q R l b n s)\<lparr>sems := X\<rparr>" "sems (ow_put q R l b n s) = sems s"
  by (simp_all add: ow_put_def upd_dio_def)

lemma at_sems: "ow_at p s0 out b n s \<Longrightarrow> ow_at p (s0\<lparr>sems := X\<rparr>) out b n (s\<lparr>sems := X\<rparr>)"
  by (elim ow_atE) (auto simp: ow_put_sems(1) [symmetric] intro!: ow_atI)

lemma at_sems_eq: "ow_at p s0 out b n s \<Longrightarrow> sems s = sems s0"
  by (elim ow_atE) (simp add: ow_put_sems)

text \<open>Between taking the lock and giving it back.\<close>

lemma ow_locked:
  fixes s :: "('b, 'y) owsys"
  assumes "ow_rest p s"
  obtains s0 where "FTE_1WIRE_lock p s = Some (FTE_RET_OK, s0)" "ow_idle p s0 (owBus (ow s)) (owIrq (ow s)) s0"
    "objs s0 = objs s" "ow s0 = ow s"
    "\<And>b n s'. ow_idle p s0 b n s' \<Longrightarrow> \<exists>s''. FTE_1WIRE_unlock p s' = Some (FTE_RET_OK, s'') \<and> ow_idle p s b n s''"
proof -
  obtain k where k: "sems s (xLock p) = Some (Suc k)" "xLock p \<noteq> NULL"
    using assms(1) gr0_implies_Suc by (auto simp: ow_rest_def split: option.splits)
  let ?X = "(sems s)(xLock p \<mapsto> k)"
  show ?thesis
  proof (rule that [of "s\<lparr>sems := ?X\<rparr>"])
    show "FTE_1WIRE_lock p s = Some (FTE_RET_OK, s\<lparr>sems := ?X\<rparr>)"
      using k by (simp add: FTE_1WIRE_lock_def FTE_SYS_LOCK_enable_def guard_opt_def)
    show "ow_idle p (s\<lparr>sems := ?X\<rparr>) (owBus (ow s)) (owIrq (ow s)) (s\<lparr>sems := ?X\<rparr>)"
      by (rule at_sems [OF ow_rest_idle [OF assms]])
    fix b n s' assume at: "ow_idle p (s\<lparr>sems := ?X\<rparr>) b n s'"
    have "sems s' = ?X" using at_sems_eq [OF at] by simp
    moreover from this have "(sems s')(xLock p \<mapsto> Suc k) = sems s" using k(1) by auto
    ultimately have "FTE_1WIRE_unlock p s' = Some (FTE_RET_OK, s'\<lparr>sems := sems s\<rparr>)"
      using k by (simp add: FTE_1WIRE_unlock_def FTE_SYS_LOCK_disable_def guard_opt_def)
    moreover have "ow_idle p s b n (s'\<lparr>sems := sems s\<rparr>)" using at_sems [OF at, of "sems s"] by simp
    ultimately show "\<exists>s''. FTE_1WIRE_unlock p s' = Some (FTE_RET_OK, s'') \<and> ow_idle p s b n s''" by blast
  qed simp_all
qed

lemma search_locked:
  fixes s :: "('b, 'y) owsys"
  assumes "ow_rest p s"
    "\<And>(s0 :: ('b, 'y) owsys) s1. ow_idle p s0 (owBus (ow s)) (owIrq (ow s)) s1 \<Longrightarrow>
       \<exists>b' n' s'. search_loop L p m search_zero [] s1 = Some (out, s') \<and> ow_idle p s0 b' n' s' \<and> Q n'"
  shows "\<exists>b' n' s'. FTE_1WIRE_search L p m s = Some (out, s') \<and> ow_idle p s b' n' s' \<and> Q n'"
proof (rule ow_locked [OF assms(1)])
  fix s0 assume s0: "FTE_1WIRE_lock p s = Some (FTE_RET_OK, s0)" "ow_idle p s0 (owBus (ow s)) (owIrq (ow s)) s0"
    and unlock: "\<And>b n s'. ow_idle p s0 b n s' \<Longrightarrow> \<exists>s''. FTE_1WIRE_unlock p s' = Some (FTE_RET_OK, s'') \<and> ow_idle p s b n s''"
  obtain b' n' s' where s': "search_loop L p m search_zero [] s0 = Some (out, s')" "ow_idle p s0 b' n' s'" "Q n'"
    using assms(2) [OF s0(2)] by blast
  obtain s'' where "FTE_1WIRE_unlock p s' = Some (FTE_RET_OK, s'')" "ow_idle p s b' n' s''" using unlock [OF s'(2)] by blast
  then show ?thesis using s0(1) s'(1,3) by (intro exI [of _ b'] exI [of _ n'] exI [of _ s'']) (simp add: FTE_1WIRE_search_def)
qed

section \<open>What a bus promises\<close>

lemma codes_found_length: "length (codes_found cs) = length (remdups cs)"
  by (simp add: codes_found_def)

lemma search_result:
  assumes "ow_slaves L cs Ph" "\<forall>c\<in>set cs. rom_code c" "ow_rest p s"
  shows "\<exists>b n s'. FTE_1WIRE_search L p m s = Some (take (unat m) (codes_found cs), s') \<and> ow_idle p s b n s'
    \<and> (cs \<noteq> [] \<longrightarrow> n = owIrq (ow s) + 128 * Suc (length (remdups cs)))"
proof (rule search_locked [OF assms(3)])
  fix s0 s1 assume idle: "ow_idle p s0 (owBus (ow s)) (owIrq (ow s)) s1"
  show "\<exists>b n s'. search_loop L p m search_zero [] s1 = Some (take (unat m) (codes_found cs), s') \<and> ow_idle p s0 b n s'
    \<and> (cs \<noteq> [] \<longrightarrow> n = owIrq (ow s) + 128 * Suc (length (remdups cs)))"
  proof (cases "cs = []")
    case True
    then have "take (unat m) (codes_found cs) = []" by (simp add: codes_found_def)
    then show ?thesis using ow_slaves.search_none [OF assms(1) True idle, of m] True by metis
  next
    case False
    then show ?thesis using ow_slaves.search_codes [OF assms(1,2) False idle, of m] codes_found_length [of cs] by metis
  qed
qed

text \<open>C11: On a bus whose devices answer as the laws of \<open>ow_slaves\<close> say, however many they are,
  \<^verbatim>\<open>FTE_1WIRE_search\<close> returns, and it returns the code of each device exactly once, in the
  order of their bits, up to the maximum it was given; the lock is given back, the pin is an
  input again, and nothing else of the system has changed but the nesting level of the
  interrupts.\<close>

theorem FTE_1WIRE_search_finds_all:
  assumes "ow_slaves L cs Ph" "\<forall>c\<in>set cs. rom_code c" "ow_rest p s"
  shows "\<exists>b n s'. FTE_1WIRE_search L p m s = Some (take (unat m) (sort_key rom_key (remdups cs)), s') \<and> ow_at p s False b n s'"
  using search_result [OF assms, of m] unfolding codes_found_def by blast

text \<open>C39: \<^verbatim>\<open>FTE_1WIRE_search\<close> does not let the interrupts through again on a bus that has a
  device: \<^verbatim>\<open>FTE_1WIRE_writeBits\<close> disables them once more after each bit that it writes alone, so
  that the nesting level has grown by 128 for each device and 128 more.\<close>

theorem FTE_1WIRE_search_masks_interrupts:
  assumes "ow_slaves L cs Ph" "\<forall>c\<in>set cs. rom_code c" "ow_rest p s" "cs \<noteq> []"
  shows "\<exists>out s'. FTE_1WIRE_search L p m s = Some (out, s')
    \<and> owIrq (ow s') = owIrq (ow s) + 128 * (length (remdups cs) + 1)"
proof -
  obtain b n s' where s': "FTE_1WIRE_search L p m s = Some (take (unat m) (codes_found cs), s')" "ow_idle p s b n s'"
    "n = owIrq (ow s) + 128 * Suc (length (remdups cs))" using search_result [OF assms(1-3), of m] assms(4) by blast
  have "owIrq (ow s') = n" using s'(2) by (elim ow_atE) simp
  then show ?thesis using s'(1,3) by auto
qed

text \<open>The table of a bus after a discovery.\<close>

lemma discovery_table:
  assumes "ow_slaves L cs Ph" "\<forall>c\<in>set cs. rom_code c" "ow_rest p s" "p \<noteq> NULL" "ows (ow s) p = Some w"
  defines "m \<equiv> unat (nMaxDevices (owConfig w))"
  shows "\<exists>s'. FTE_1WIRE_discovery L p s = Some (FTE_RET_OK, s')
    \<and> ows (ow s') p = Some (w\<lparr>pROMCodes := take m (codes_found cs) @ replicate (m - length (codes_found cs)) (replicate 8 0),
        nROMCodes := of_nat (min m (length (codes_found cs)))\<rparr>)"
proof -
  obtain b n s' where s': "FTE_1WIRE_search L p (nMaxDevices (owConfig w)) s = Some (take m (codes_found cs), s')" "ow_idle p s b n s'"
    using search_result [OF assms(1-3)] unfolding m_def by blast
  have "ows (ow s') p = Some w" using s'(2) assms(5) by (elim ow_atE) simp
  then show ?thesis using s'(1) assms(4,5)
    by (simp add: FTE_1WIRE_discovery_def guard_opt_def upd_1wire_def upd_ow_def upd_dio_def Let_def m_def min.commute)
qed

section \<open>Devices that measure\<close>

text \<open>A device that is selected by its code takes a function: to measure, which takes it 750 ms, or
  to send its memory of nine bytes.  \<open>Pd c m\<close>: the memory of the device with the code \<open>c\<close> is \<open>m\<close>,
  and it does not measure.  A low of 185 microseconds, longer than the data sheet has it, is
  taken to be a zero.\<close>

locale ow_thermo = ow_slaves L cs Ph for L :: "'b ow_line" and cs :: "rom list" and Ph :: "ow_phase \<Rightarrow> 'b \<Rightarrow> bool" +
  fixes Pd :: "rom \<Rightarrow> u8 list \<Rightarrow> 'b \<Rightarrow> bool" and fresh :: "rom \<Rightarrow> u8 list"
  assumes bus_match: "Ph (OwMatch bs) b \<Longrightarrow> Ph (after_match cs (bs @ [v])) (line_send L v b)"
    and bus_wait: "Ph ph b \<Longrightarrow> Ph ph (lineWait L k b)"
    and bus_function: "Ph (OwSelected P bs) b \<Longrightarrow> Ph (after_function P (bs @ [v])) (line_write L v b)"
    and bus_pad: "Ph (OwPad P k) b \<Longrightarrow> k < 72 \<Longrightarrow> (\<forall>c\<in>set P. Pd c (m c) b) \<Longrightarrow>
      lineLevel L (line_sample L b) = (\<forall>c\<in>set P. bit (m c ! (k div 8)) (k mod 8))"
    and bus_pad_next: "Ph (OwPad P k) b \<Longrightarrow> Ph (OwPad P (Suc k)) (line_read L b)"
    and bus_convert: "Ph (OwConvert P) b \<Longrightarrow> c \<in> set P \<Longrightarrow> 750000 \<le> k \<Longrightarrow> Pd c (fresh c) (lineWait L k b)"
    and pad_reset: "Pd c u b \<Longrightarrow> Pd c u (line_reset L b)"
    and pad_wait: "Pd c u b \<Longrightarrow> Pd c u (lineWait L k b)"
    and pad_send: "Pd c u b \<Longrightarrow> Ph (OwMatch bs) b \<Longrightarrow> Pd c u (line_send L v b)"
    and pad_read: "Pd c u b \<Longrightarrow> Ph (OwPad P k) b \<Longrightarrow> Pd c u (line_read L b)"
    and pad_command: "Pd c u b \<Longrightarrow> Ph (OwCommand bs) b \<Longrightarrow> Pd c u (line_write L v b)"
    and pad_function: "Pd c u b \<Longrightarrow> Ph (OwSelected P bs) b \<Longrightarrow> bs @ [v] \<noteq> byte_bits 0x44 \<Longrightarrow> Pd c u (line_write L v b)"
begin

definition keeps :: "'b \<Rightarrow> 'b \<Rightarrow> bool" where "keeps b b' \<longleftrightarrow> (\<forall>c u. Pd c u b \<longrightarrow> Pd c u b')"

lemma pads_trans: "keeps a b \<Longrightarrow> keeps b c \<Longrightarrow> keeps a c"
  by (simp add: keeps_def)

lemma command_keeps:
  assumes "ow_idle p s0 b n s" "Ph (OwCommand []) b"
  shows "\<exists>b' s'. FTE_1WIRE_writeByte L p v s = Some (FTE_RET_OK, s') \<and> ow_idle p s0 b' n s'
    \<and> Ph (after_command cs (byte_bits v)) b' \<and> keeps b b'"
  unfolding byte_bits_def
proof (rule idle_write_byte [OF assms(1), where Q = "\<lambda>j b'. Ph (after_command cs (map (bit v) [0..<j])) b' \<and> keeps b b'"])
  show "Ph (after_command cs (map (bit v) [0..<0])) b \<and> keeps b b" using assms(2) by (simp add: after_command_def keeps_def)
  fix j b' assume "j < 8" "Ph (after_command cs (map (bit v) [0..<j])) b' \<and> keeps b b'"
  then show "Ph (after_command cs (map (bit v) [0..<Suc j])) (line_write L (bit v j) b') \<and> keeps b (line_write L (bit v j) b')"
    using bus_command [of "map (bit v) [0..<j]" b' "bit v j"] pad_command [of _ _ b' "map (bit v) [0..<j]"]
    by (simp add: after_command_def keeps_def)
qed

lemma match_keeps:
  assumes "ow_idle p s0 b n s" "Ph (OwMatch []) b" "length c = 8"
  shows "\<exists>b' s'. FTE_1WIRE_write L p c s = Some (FTE_RET_OK, s') \<and> ow_idle p s0 b' n s'
    \<and> Ph (OwSelected (filter (\<lambda>d. rom_key d = rom_key c) cs) []) b' \<and> keeps b b'"
proof -
  let ?Q = "\<lambda>k b'. Ph (after_match cs (take k (rom_key c))) b' \<and> keeps b b'"
  have len: "length (rom_key c) = 64" by (simp add: rom_key_def)
  have "\<exists>b' s'. FTE_1WIRE_write L p c s = Some (FTE_RET_OK, s') \<and> ow_idle p s0 b' n s' \<and> ?Q (8 * length c) b'"
  proof (rule idle_write [OF assms(1), where Q = ?Q])
    show "?Q 0 b" using assms(2) by (simp add: after_match_def keeps_def)
    show "?Q (8 * length c) (lineWait L 1000 b')" if "?Q (8 * length c) b'" for b'
      using that bus_wait pad_wait by (auto simp: keeps_def)
    fix k b' assume k: "k < 8 * length c" and q: "?Q k b'"
    have bit: "bit (c ! (k div 8)) (k mod 8) = rom_key c ! k" using k assms(3) by (simp add: rom_key_def GET_BIT_AT_def)
    have "after_match cs (take k (rom_key c)) = OwMatch (take k (rom_key c))" using k assms(3) len by (simp add: after_match_def)
    then have m: "Ph (OwMatch (take k (rom_key c))) b'" using q by simp
    have "take (Suc k) (rom_key c) = take k (rom_key c) @ [rom_key c ! k]" using k assms(3) len by (simp add: take_Suc_conv_app_nth)
    then show "?Q (Suc k) (line_send L (bit (c ! (k div 8)) (k mod 8)) b')"
      using bus_match [OF m] pad_send [OF _ m] q unfolding bit keeps_def by auto
  qed
  moreover have "after_match cs (take (8 * length c) (rom_key c)) = OwSelected (filter (\<lambda>d. rom_key d = rom_key c) cs) []"
    using assms(3) len by (simp add: after_match_def)
  ultimately show ?thesis by simp
qed

lemma function_byte:
  assumes "ow_idle p s0 b n s" "Ph (OwSelected P []) b"
  shows "\<exists>b' s'. FTE_1WIRE_writeByte L p v s = Some (FTE_RET_OK, s') \<and> ow_idle p s0 b' n s'
    \<and> Ph (after_function P (byte_bits v)) b' \<and> (v \<noteq> 0x44 \<longrightarrow> keeps b b')"
  unfolding byte_bits_def
proof (rule idle_write_byte [OF assms(1), where Q = "\<lambda>j b'. Ph (after_function P (map (bit v) [0..<j])) b' \<and> (v \<noteq> 0x44 \<longrightarrow> keeps b b')"])
  show "Ph (after_function P (map (bit v) [0..<0])) b \<and> (v \<noteq> 0x44 \<longrightarrow> keeps b b)" using assms(2) by (simp add: after_function_def keeps_def)
  fix j b' assume j: "j < 8" and q: "Ph (after_function P (map (bit v) [0..<j])) b' \<and> (v \<noteq> 0x44 \<longrightarrow> keeps b b')"
  then have s: "Ph (OwSelected P (map (bit v) [0..<j])) b'" by (simp add: after_function_def)
  have e: "map (bit v) [0..<j] @ [bit v j] = map (bit v) [0..<Suc j]" by simp
  have ne: "map (bit v) [0..<j] @ [bit v j] \<noteq> byte_bits 0x44" if "v \<noteq> 0x44"
    unfolding e
  proof
    assume eq: "map (bit v) [0..<Suc j] = byte_bits 0x44"
    then have "length (map (bit v) [0..<Suc j]) = 8" by (simp add: byte_bits_def)
    then have "Suc j = 8" by simp
    then have "byte_bits v = map (bit v) [0..<Suc j]" by (simp only: byte_bits_def)
    then show False using eq byte_bits_inj that by metis
  qed
  have "v \<noteq> 0x44 \<longrightarrow> keeps b (line_write L (bit v j) b')"
    using q pad_function [OF _ s ne] by (auto simp: keeps_def simp del: upt_Suc)
  moreover have "Ph (after_function P (map (bit v) [0..<Suc j])) (line_write L (bit v j) b')" using bus_function [OF s, of "bit v j"] unfolding e .
  ultimately show "Ph (after_function P (map (bit v) [0..<Suc j])) (line_write L (bit v j) b') \<and> (v \<noteq> 0x44 \<longrightarrow> keeps b (line_write L (bit v j) b'))"
    by blast
qed

text \<open>One device is selected.\<close>

lemma select_device:
  assumes "ow_idle p s0 b n s" "length c = 8"
  obtains b' s1 s2 s3 where "FTE_1WIRE_reset L p s = Some (FTE_RET_OK, s1)" "FTE_1WIRE_writeByte L p 0x55 s1 = Some (FTE_RET_OK, s2)"
    "FTE_1WIRE_write L p c s2 = Some (FTE_RET_OK, s3)" "ow_idle p s0 b' n s3"
    "Ph (OwSelected (filter (\<lambda>d. rom_key d = rom_key c) cs) []) b'" "keeps b b'"
proof -
  obtain s1 where s1: "FTE_1WIRE_reset L p s = Some (FTE_RET_OK, s1)" "ow_idle p s0 (line_reset L b) n s1"
    using idle_reset [OF assms(1)] by blast
  have k1: "keeps b (line_reset L b)" using pad_reset by (simp add: keeps_def)
  obtain b2 s2 where s2: "FTE_1WIRE_writeByte L p 0x55 s1 = Some (FTE_RET_OK, s2)" "ow_idle p s0 b2 n s2" "Ph (OwMatch []) b2"
    "keeps (line_reset L b) b2" using command_keeps [OF s1(2) bus_reset, of "0x55"] by (auto simp: after_byte)
  obtain b3 s3 where "FTE_1WIRE_write L p c s2 = Some (FTE_RET_OK, s3)" "ow_idle p s0 b3 n s3"
    "Ph (OwSelected (filter (\<lambda>d. rom_key d = rom_key c) cs) []) b3" "keeps b2 b3" using match_keeps [OF s2(2,3) assms(2)] by blast
  then show ?thesis using that s1(1) s2(1) k1 s2(4) pads_trans by blast
qed

text \<open>Its memory is read; without such a device the line stays high.\<close>

lemma read_device:
  assumes "ow_idle p s0 b n s" "Ph (OwPad P 0) b" "\<forall>c\<in>set P. c = d \<and> Pd d m b" "length m = 9"
  shows "\<exists>b' s'. FTE_1WIRE_read L p 9 s = Some (FTE_RET_OK, if P = [] then replicate 9 0xFF else m, s') \<and> ow_idle p s0 b' n s'"
proof -
  let ?m = "if P = [] then replicate 9 0xFF else m :: u8 list"
  let ?Q = "\<lambda>k b'. Ph (OwPad P k) b' \<and> keeps b b'"
  have len: "length ?m = 9" using assms(4) by simp
  have "\<exists>b' s'. FTE_1WIRE_read L p (length ?m) s = Some (FTE_RET_OK, ?m, s') \<and> ow_idle p s0 b' n s' \<and> ?Q (8 * length ?m) b'"
  proof (rule idle_read [OF assms(1), where Q = ?Q])
    show "?Q 0 b" using assms(2) by (simp add: keeps_def)
    fix k b' assume k: "k < 8 * length ?m" and q: "?Q k b'"
    have pads: "\<forall>c\<in>set P. Pd c m b'" using q assms(3) by (auto simp: keeps_def)
    have ones: "bit (replicate 9 (0xFF :: u8) ! (k div 8)) (k mod 8)"
    proof -
      have "(0xFF :: u8) = -1" by simp
      then have "bit (0xFF :: u8) (k mod 8)" by (simp only: bit_minus_1_iff) simp
      then show ?thesis using k len by (simp del: bit_numeral_iff bit_0_eq)
    qed
    have "k < 72" using k len by simp
    then have lev: "lineLevel L (line_sample L b') = (\<forall>c\<in>set P. bit (m ! (k div 8)) (k mod 8))"
      using bus_pad [of P k b' "\<lambda>_. m"] q pads by blast
    have "lineLevel L (line_sample L b') = bit (?m ! (k div 8)) (k mod 8)"
      unfolding lev using ones by (cases P) auto
    moreover have "?Q (Suc k) (line_read L b')" using q bus_pad_next pad_read by (auto simp: keeps_def)
    ultimately show "lineLevel L (line_sample L b') = bit (?m ! (k div 8)) (k mod 8) \<and> ?Q (Suc k) (line_read L b')" by blast
  qed
  then show ?thesis unfolding len by blast
qed

end

end
