(* ===== verification/FTE_OneWireTimed.thy ===== *)
theory FTE_OneWireTimed
  imports FTE_OneWireBus FTE_DioSys
begin

unbundle bit_operations_syntax

text \<open>
  A bus of thermometers that measure the time since the line fell.  Both locales of
  \<open>FTE_OneWireBus\<close> are interpreted on it, for any list of codes, and the theorems about the
  search are applied to a board with three of them.
\<close>

section \<open>A bus with a clock\<close>

text \<open>Each device follows the slots on its own: a low of 480 microseconds is a reset, a slot that is
  high again within 15 writes a one, and a device pulls the line for 30.  The line is high
  when nothing pulls it.  \<open>tdConv\<close> is the time a device still measures; then \<open>fr c\<close> is in its
  memory.\<close>

datatype dev_phase = DevCommand "bool list" | DevFirst nat | DevSecond nat | DevDir nat
  | DevMatch "bool list" | DevSelected "bool list" | DevPad nat | DevConvert | DevDone

record tb_device =
  tdPhase :: dev_phase
  tdPad :: "u8 list"
  tdConv :: "nat option"

record timed_bus =
  tbDev :: "nat \<Rightarrow> tb_device"
  tbLow :: bool
  tbTime :: nat
  tbPull :: bool

definition dev_pulls :: "rom \<Rightarrow> tb_device \<Rightarrow> bool" where
  "dev_pulls c d = (case tdPhase d of
       DevFirst i \<Rightarrow> \<not> rom_bit c i
     | DevSecond i \<Rightarrow> rom_bit c i
     | DevPad k \<Rightarrow> k < 72 \<and> \<not> bit (tdPad d ! (k div 8)) (k mod 8)
     | _ \<Rightarrow> False)"

definition dev_next :: "bool \<Rightarrow> rom \<Rightarrow> dev_phase \<Rightarrow> dev_phase" where
  "dev_next v c d = (case d of
       DevCommand bs \<Rightarrow> (let bs = bs @ [v] in if length bs < 8 then DevCommand bs
         else if bs = byte_bits 0xF0 then DevFirst 0 else if bs = byte_bits 0x55 then DevMatch [] else DevDone)
     | DevFirst i \<Rightarrow> DevSecond i
     | DevSecond i \<Rightarrow> DevDir i
     | DevDir i \<Rightarrow> if rom_bit c i = v \<and> Suc i < 64 then DevFirst (Suc i) else DevDone
     | DevMatch bs \<Rightarrow> (let bs = bs @ [v] in if length bs < 64 then DevMatch bs
         else if rom_key c = bs then DevSelected [] else DevDone)
     | DevSelected bs \<Rightarrow> (let bs = bs @ [v] in if length bs < 8 then DevSelected bs
         else if bs = byte_bits 0xBE then DevPad 0 else if bs = byte_bits 0x44 then DevConvert else DevDone)
     | DevPad k \<Rightarrow> DevPad (Suc k)
     | _ \<Rightarrow> DevDone)"

definition dev_slot :: "bool \<Rightarrow> rom \<Rightarrow> tb_device \<Rightarrow> tb_device" where
  "dev_slot v c d = (let ph = dev_next v c (tdPhase d) in
     d\<lparr>tdPhase := ph, tdConv := if ph = DevConvert then Some 750000 else tdConv d\<rparr>)"

definition dev_wait :: "nat \<Rightarrow> u8 list \<Rightarrow> tb_device \<Rightarrow> tb_device" where
  "dev_wait n u d = (case tdConv d of None \<Rightarrow> d
     | Some r \<Rightarrow> if r \<le> n then d\<lparr>tdPad := u, tdConv := None\<rparr> else d\<lparr>tdConv := Some (r - n)\<rparr>)"

definition timed_drive :: "rom list \<Rightarrow> bool \<Rightarrow> timed_bus \<Rightarrow> timed_bus" where
  "timed_drive cs low b =
     (if low = tbLow b then b
      else if low then b\<lparr>tbLow := True, tbTime := 0, tbPull := (\<exists>k<length cs. dev_pulls (cs ! k) (tbDev b k))\<rparr>
      else b\<lparr>tbLow := False, tbDev := (\<lambda>k. if 480 \<le> tbTime b then (tbDev b k)\<lparr>tdPhase := DevCommand []\<rparr>
        else dev_slot (tbTime b < 15) (cs ! k) (tbDev b k))\<rparr>)"

definition timed_line :: "(rom \<Rightarrow> u8 list) \<Rightarrow> rom list \<Rightarrow> timed_bus ow_line" where
  "timed_line fr cs = \<lparr>lineDrive = timed_drive cs,
     lineWait = \<lambda>n b. b\<lparr>tbTime := tbTime b + n, tbDev := (\<lambda>k. dev_wait n (fr (cs ! k)) (tbDev b k))\<rparr>,
     lineLevel = \<lambda>b. \<not> tbLow b \<and> \<not> (tbPull b \<and> tbTime b < 30)\<rparr>"

text \<open>The phase of the bus is that of the devices that take part.\<close>

definition dev_at :: "ow_phase \<Rightarrow> rom \<Rightarrow> dev_phase" where
  "dev_at ph c = (case ph of
       OwCommand bs \<Rightarrow> DevCommand bs
     | OwFirst i P \<Rightarrow> if c \<in> set P then DevFirst i else DevDone
     | OwSecond i P \<Rightarrow> if c \<in> set P then DevSecond i else DevDone
     | OwDir i P \<Rightarrow> if c \<in> set P then DevDir i else DevDone
     | OwMatch bs \<Rightarrow> DevMatch bs
     | OwSelected P bs \<Rightarrow> if c \<in> set P then DevSelected bs else DevDone
     | OwPad P k \<Rightarrow> if c \<in> set P then DevPad k else DevDone
     | OwConvert P \<Rightarrow> if c \<in> set P then DevConvert else DevDone
     | OwDone \<Rightarrow> DevDone)"

definition members :: "rom list \<Rightarrow> ow_phase \<Rightarrow> rom list" where
  "members cs ph = (case ph of OwFirst i P \<Rightarrow> P | OwSecond i P \<Rightarrow> P | OwDir i P \<Rightarrow> P
     | OwSelected P bs \<Rightarrow> P | OwPad P k \<Rightarrow> P | OwConvert P \<Rightarrow> P | _ \<Rightarrow> cs)"

text \<open>A device that was told to measure has at most 750 ms to go.\<close>

definition conv_ok :: "u8 list \<Rightarrow> tb_device \<Rightarrow> bool" where
  "conv_ok u d \<longleftrightarrow> (tdPhase d = DevConvert \<longrightarrow> (case tdConv d of None \<Rightarrow> tdPad d = u | Some r \<Rightarrow> r \<le> 750000))"

definition timed_at :: "(rom \<Rightarrow> u8 list) \<Rightarrow> rom list \<Rightarrow> ow_phase \<Rightarrow> timed_bus \<Rightarrow> bool" where
  "timed_at fr cs ph b \<longleftrightarrow> \<not> tbLow b \<and> set (members cs ph) \<subseteq> set cs
     \<and> (\<forall>k<length cs. tdPhase (tbDev b k) = dev_at ph (cs ! k) \<and> conv_ok (fr (cs ! k)) (tbDev b k))"

definition timed_pad :: "rom list \<Rightarrow> rom \<Rightarrow> u8 list \<Rightarrow> timed_bus \<Rightarrow> bool" where
  "timed_pad cs c u b \<longleftrightarrow> \<not> tbLow b \<and> (\<forall>k<length cs. cs ! k = c \<longrightarrow> tdPad (tbDev b k) = u \<and> tdConv (tbDev b k) = None)"

text \<open>What the waits of a slot leave of a device.\<close>

lemma dev_wait_phase [simp]: "tdPhase (dev_wait n u d) = tdPhase d"
  by (simp add: dev_wait_def split: option.split)

lemma dev_slot_phase [simp]: "tdPhase (dev_slot v c d) = dev_next v c (tdPhase d)"
  by (simp add: dev_slot_def Let_def)

lemma dev_wait_quiet [simp]: "tdConv d = None \<Longrightarrow> dev_wait n u d = d"
  by (simp add: dev_wait_def)

lemma conv_wait: "conv_ok u d \<Longrightarrow> conv_ok u (dev_wait n u d)"
  by (auto simp: conv_ok_def dev_wait_def split: option.splits)

lemma conv_slot: "conv_ok u (dev_slot v c d)"
  by (auto simp: conv_ok_def dev_slot_def Let_def)

text \<open>A slot, as the devices see it: the waits around it, and the bit.\<close>

definition slot_device :: "u8 list \<Rightarrow> bool \<Rightarrow> rom \<Rightarrow> tb_device \<Rightarrow> tb_device \<Rightarrow> bool" where
  "slot_device u v c d d' \<longleftrightarrow> (\<exists>k m. d' = dev_wait m u (dev_slot v c (dev_wait k u d)))"

lemma dev_wait_wait: "dev_wait m u (dev_wait n u d) = dev_wait (n + m) u d"
  by (auto simp: dev_wait_def split: option.splits)

lemma timed_slots:
  assumes "\<not> tbLow b"
  shows "slot_device (fr (cs ! k)) v (cs ! k) (tbDev b k) (tbDev (line_write (timed_line fr cs) v b) k)"
    "slot_device (fr (cs ! k)) v (cs ! k) (tbDev b k) (tbDev (line_send (timed_line fr cs) v b) k)"
    "slot_device (fr (cs ! k)) True (cs ! k) (tbDev b k) (tbDev (line_read (timed_line fr cs) b) k)"
    "\<not> tbLow (line_write (timed_line fr cs) v b)" "\<not> tbLow (line_send (timed_line fr cs) v b)" "\<not> tbLow (line_read (timed_line fr cs) b)"
    "lineLevel (timed_line fr cs) (line_sample (timed_line fr cs) b) \<longleftrightarrow> \<not> (\<exists>k<length cs. dev_pulls (cs ! k) (tbDev b k))"
  using assms
  by (auto simp: line_write_def line_send_def line_read_def line_sample_def timed_line_def timed_drive_def dev_wait_wait
      slot_device_def)

lemma slot_facts:
  assumes "slot_device u v c d d'"
  shows "tdPhase d' = dev_next v c (tdPhase d)" "conv_ok u d'"
    "tdConv d = None \<Longrightarrow> dev_next v c (tdPhase d) \<noteq> DevConvert \<Longrightarrow> tdPad d' = tdPad d \<and> tdConv d' = None"
proof -
  obtain k m where d': "d' = dev_wait m u (dev_slot v c (dev_wait k u d))" using assms by (auto simp: slot_device_def)
  show "tdPhase d' = dev_next v c (tdPhase d)" by (simp add: d')
  show "conv_ok u d'" by (simp add: d' conv_wait conv_slot)
  show "tdPad d' = tdPad d \<and> tdConv d' = None" if "tdConv d = None" "dev_next v c (tdPhase d) \<noteq> DevConvert"
    using that by (simp add: d' dev_slot_def Let_def)
qed

lemma timed_slot:
  assumes "timed_at fr cs ph b" "\<And>k. slot_device (fr (cs ! k)) v (cs ! k) (tbDev b k) (tbDev b' k)" "\<not> tbLow b'"
    "set (members cs ph') \<subseteq> set cs" "\<And>c. c \<in> set cs \<Longrightarrow> dev_next v c (dev_at ph c) = dev_at ph' c"
  shows "timed_at fr cs ph' b'"
  using assms slot_facts(1,2) [OF assms(2)] by (simp add: timed_at_def)

lemma pad_slot:
  assumes "timed_pad cs c u b" "timed_at fr cs ph b" "\<And>k. slot_device (fr (cs ! k)) v (cs ! k) (tbDev b k) (tbDev b' k)" "\<not> tbLow b'"
    "c \<in> set cs \<Longrightarrow> dev_next v c (dev_at ph c) \<noteq> DevConvert"
  shows "timed_pad cs c u b'"
  unfolding timed_pad_def
proof (intro conjI allI impI assms(4))
  fix k assume k: "k < length cs" "cs ! k = c"
  then have "tdPhase (tbDev b k) = dev_at ph c" "tdPad (tbDev b k) = u" "tdConv (tbDev b k) = None" "c \<in> set cs"
    using assms(1,2) by (auto simp: timed_at_def timed_pad_def)
  then show "tdPad (tbDev b' k) = u" "tdConv (tbDev b' k) = None"
    using slot_facts(3) [OF assms(3) [of k]] assms(5) k(2) by simp_all
qed

lemma timed_reset: "timed_at fr cs (OwCommand []) (line_reset (timed_line fr cs) b)"
  by (simp add: timed_at_def line_reset_def timed_line_def timed_drive_def dev_at_def members_def conv_ok_def)

lemma timed_pulled:
  assumes "timed_at fr cs ph b"
  shows "lineLevel (timed_line fr cs) (line_sample (timed_line fr cs) b) \<longleftrightarrow> \<not> (\<exists>k<length cs. dev_pulls (cs ! k) (tbDev b k))"
  using assms timed_slots(7) by (simp add: timed_at_def)

lemma members_nth: "set P \<subseteq> set cs \<Longrightarrow> (\<exists>k<length cs. cs ! k \<in> set P \<and> Q (cs ! k)) \<longleftrightarrow> (\<exists>c\<in>set P. Q c)"
  by (metis in_set_conv_nth subsetD)

lemma timed_level:
  assumes "timed_at fr cs ph b" "members cs ph = P"
    "\<And>k. k < length cs \<Longrightarrow> dev_pulls (cs ! k) (tbDev b k) = (cs ! k \<in> set P \<and> \<not> G (cs ! k))"
  shows "lineLevel (timed_line fr cs) (line_sample (timed_line fr cs) b) = (\<forall>c\<in>set P. G c)"
proof -
  have "set P \<subseteq> set cs" using assms(1,2) by (simp add: timed_at_def)
  from members_nth [OF this, of "\<lambda>c. \<not> G c"] show ?thesis unfolding timed_pulled [OF assms(1)] using assms(3) by auto
qed

lemma timed_devices: "timed_at fr cs ph b \<Longrightarrow> k < length cs \<Longrightarrow> tdPhase (tbDev b k) = dev_at ph (cs ! k)"
  by (simp add: timed_at_def)

lemma timed_members: "timed_at fr cs ph b \<Longrightarrow> set (members cs ph) \<subseteq> set cs"
  by (simp add: timed_at_def)

interpretation tb: ow_slaves "timed_line fr cs" cs "timed_at fr cs" for fr cs
proof
  fix b bs v i P
  show "timed_at fr cs (OwCommand []) (line_reset (timed_line fr cs) b)" by (rule timed_reset)
  show "timed_at fr cs (after_command cs (bs @ [v])) (line_write (timed_line fr cs) v b)" if a: "timed_at fr cs (OwCommand bs) b"
    by (rule timed_slot [OF a timed_slots(1) timed_slots(4)])
      (use a in \<open>auto simp: timed_at_def dev_next_def dev_at_def after_command_def members_def Let_def\<close>)
  show "timed_at fr cs (OwSecond i P) (line_read (timed_line fr cs) b)" if a: "timed_at fr cs (OwFirst i P) b"
    by (rule timed_slot [OF a timed_slots(3) timed_slots(6)])
      (use a in \<open>auto simp: timed_at_def dev_next_def dev_at_def members_def\<close>)
  show "timed_at fr cs (OwDir i P) (line_read (timed_line fr cs) b)" if a: "timed_at fr cs (OwSecond i P) b"
    by (rule timed_slot [OF a timed_slots(3) timed_slots(6)])
      (use a in \<open>auto simp: timed_at_def dev_next_def dev_at_def members_def\<close>)
  show "timed_at fr cs (after_dir i P v) (line_write (timed_line fr cs) v b)" if a: "timed_at fr cs (OwDir i P) b"
    by (rule timed_slot [OF a timed_slots(1) timed_slots(4)])
      (use a in \<open>auto simp: timed_at_def dev_next_def dev_at_def after_dir_def members_def\<close>)
  show "lineLevel (timed_line fr cs) (line_sample (timed_line fr cs) b) = (\<forall>c\<in>set P. rom_bit c i)" if a: "timed_at fr cs (OwFirst i P) b"
    by (rule timed_level [OF a]) (simp_all add: members_def dev_pulls_def dev_at_def timed_devices [OF a])
  show "lineLevel (timed_line fr cs) (line_sample (timed_line fr cs) b) = (\<forall>c\<in>set P. \<not> rom_bit c i)" if a: "timed_at fr cs (OwSecond i P) b"
    by (rule timed_level [OF a]) (simp_all add: members_def dev_pulls_def dev_at_def timed_devices [OF a])
qed

lemma timed_pads:
  assumes "timed_at fr cs ph b" "set P = {c \<in> set cs. \<exists>k. dev_at ph c = DevPad k}" "k < 72"
    "\<And>c. c \<in> set P \<Longrightarrow> dev_at ph c = DevPad k \<and> timed_pad cs c (m c) b"
    "\<And>c. c \<notin> set P \<Longrightarrow> dev_at ph c = DevDone" "i < length cs"
  shows "dev_pulls (cs ! i) (tbDev b i) = (cs ! i \<in> set P \<and> \<not> bit (m (cs ! i) ! (k div 8)) (k mod 8))"
proof (cases "cs ! i \<in> set P")
  case True
  then have "tdPad (tbDev b i) = m (cs ! i)" using assms(4,6) by (auto simp: timed_pad_def)
  then show ?thesis using True assms(3,4) timed_devices [OF assms(1,6)] by (simp add: dev_pulls_def)
next
  case False
  then show ?thesis using assms(5) timed_devices [OF assms(1,6)] by (simp add: dev_pulls_def)
qed

lemma timed_pad_steady:
  assumes "timed_pad cs c u b"
  shows "timed_pad cs c u (line_reset (timed_line fr cs) b)" "timed_pad cs c u (lineWait (timed_line fr cs) n b)"
  using assms by (auto simp: timed_pad_def line_reset_def timed_line_def timed_drive_def dev_slot_def Let_def)

lemma timed_wait: "timed_at fr cs ph b \<Longrightarrow> timed_at fr cs ph (lineWait (timed_line fr cs) n b)"
  by (simp add: timed_at_def timed_line_def conv_wait)

lemma timed_convert:
  assumes "timed_at fr cs (OwConvert P) b" "c \<in> set P" "750000 \<le> n"
  shows "timed_pad cs c (fr c) (lineWait (timed_line fr cs) n b)"
  unfolding timed_pad_def
proof (intro conjI allI impI)
  show "\<not> tbLow (lineWait (timed_line fr cs) n b)" using assms(1) by (simp add: timed_at_def timed_line_def)
  fix k assume "k < length cs" "cs ! k = c"
  then have "tdPhase (tbDev b k) = DevConvert" "conv_ok (fr c) (tbDev b k)" using assms(1,2) by (auto simp: timed_at_def dev_at_def)
  then show "tdPad (tbDev (lineWait (timed_line fr cs) n b) k) = fr c" "tdConv (tbDev (lineWait (timed_line fr cs) n b) k) = None"
    using assms(3) \<open>cs ! k = c\<close> by (auto simp: timed_line_def conv_ok_def dev_wait_def split: option.splits)
qed

interpretation th: ow_thermo "timed_line fr cs" cs "timed_at fr cs" "timed_pad cs" fr for fr cs
proof
  fix b bs v P k c u n ph and m :: "rom \<Rightarrow> u8 list"
  show "timed_at fr cs (after_match cs (bs @ [v])) (line_send (timed_line fr cs) v b)" if a: "timed_at fr cs (OwMatch bs) b"
    by (rule timed_slot [OF a timed_slots(2) timed_slots(5)])
      (use a in \<open>auto simp: timed_at_def dev_next_def dev_at_def after_match_def members_def Let_def\<close>)
  show "timed_at fr cs (after_function P (bs @ [v])) (line_write (timed_line fr cs) v b)" if a: "timed_at fr cs (OwSelected P bs) b"
    by (rule timed_slot [OF a timed_slots(1) timed_slots(4)])
      (use a in \<open>auto simp: timed_at_def dev_next_def dev_at_def after_function_def members_def Let_def\<close>)
  show "timed_at fr cs (OwPad P (Suc k)) (line_read (timed_line fr cs) b)" if a: "timed_at fr cs (OwPad P k) b"
    by (rule timed_slot [OF a timed_slots(3) timed_slots(6)])
      (use a in \<open>auto simp: timed_at_def dev_next_def dev_at_def members_def\<close>)
  show "timed_at fr cs ph (lineWait (timed_line fr cs) n b)" if "timed_at fr cs ph b" by (rule timed_wait [OF that])
  show "lineLevel (timed_line fr cs) (line_sample (timed_line fr cs) b) = (\<forall>c\<in>set P. bit (m c ! (k div 8)) (k mod 8))"
    if a: "timed_at fr cs (OwPad P k) b" and k: "k < 72" and pads: "\<forall>c\<in>set P. timed_pad cs c (m c) b"
  proof (rule timed_level [OF a])
    show "members cs (OwPad P k) = P" by (simp add: members_def)
    fix i assume i: "i < length cs"
    have P: "set P \<subseteq> set cs" using timed_members [OF a] by (simp add: members_def)
    show "dev_pulls (cs ! i) (tbDev b i) = (cs ! i \<in> set P \<and> \<not> bit (m (cs ! i) ! (k div 8)) (k mod 8))"
      by (rule timed_pads [OF a _ k]) (use P pads i in \<open>auto simp: dev_at_def split: if_splits\<close>)
  qed
  show "timed_pad cs c (fr c) (lineWait (timed_line fr cs) n b)" if "timed_at fr cs (OwConvert P) b" "c \<in> set P" "750000 \<le> n"
    by (rule timed_convert [OF that])
  assume pad: "timed_pad cs c u b"
  show "timed_pad cs c u (line_reset (timed_line fr cs) b)" "timed_pad cs c u (lineWait (timed_line fr cs) n b)"
    using timed_pad_steady [OF pad] by blast+
  show "timed_pad cs c u (line_send (timed_line fr cs) v b)" if a: "timed_at fr cs (OwMatch bs) b"
    by (rule pad_slot [OF pad a timed_slots(2) timed_slots(5)]) (use a in \<open>auto simp: timed_at_def dev_next_def dev_at_def Let_def\<close>)
  show "timed_pad cs c u (line_read (timed_line fr cs) b)" if a: "timed_at fr cs (OwPad P k) b"
    by (rule pad_slot [OF pad a timed_slots(3) timed_slots(6)]) (use a in \<open>auto simp: timed_at_def dev_next_def dev_at_def\<close>)
  show "timed_pad cs c u (line_write (timed_line fr cs) v b)" if a: "timed_at fr cs (OwCommand bs) b"
    by (rule pad_slot [OF pad a timed_slots(1) timed_slots(4)]) (use a in \<open>auto simp: timed_at_def dev_next_def dev_at_def Let_def\<close>)
  show "timed_pad cs c u (line_write (timed_line fr cs) v b)" if a: "timed_at fr cs (OwSelected P bs) b" and "bs @ [v] \<noteq> byte_bits 0x44"
    by (rule pad_slot [OF pad a timed_slots(1) timed_slots(4)]) (use a that(2) in \<open>auto simp: timed_at_def dev_next_def dev_at_def Let_def\<close>)
qed

section \<open>A bus with three thermometers\<close>

text \<open>The pin is pin 2 of port C; the codes are those of DS18B20, two of them alike in the first
  byte's 8 and 16 bits of the serial number.\<close>

definition ow_codes :: "rom list" where
  "ow_codes = [[0x28, 0xFF, 0x4B, 0x60, 0, 0, 0, 0x41], [0x28, 0x61, 0x64, 0x12, 0x3C, 0x7C, 0x2F, 0x27], [0x28, 0xFF, 0x13, 0x60, 0, 0, 0, 0xEA]]"

text \<open>At power-up the memory says 85 degrees; the devices then measure 25.0625, -10.125 and 25.0625.\<close>

definition ow_power_up :: "u8 list" where "ow_power_up = [0x50, 0x05, 0x4B, 0x46, 0x7F, 0xFF, 0x0C, 0x10, 0x1C]"

definition ow_fresh :: "rom \<Rightarrow> u8 list" where
  "ow_fresh c = (if c ! 1 = 0x61 then [0x5E, 0xFF, 0x4B, 0x46, 0x7F, 0xFF, 0x02, 0x10, 0xB6]
     else [0x91, 0x01, 0x4B, 0x46, 0x7F, 0xFF, 0x0F, 0x10, 0x25])"

definition ow_board :: "(addr \<rightharpoonup> fte_object) \<Rightarrow> 'y \<Rightarrow> (timed_bus, 'y) owsys" where
  "ow_board obs y = \<lparr>pool = [], live = {}, nodes = Map.empty, lists = Map.empty, sems = [0x7014 \<mapsto> 1], unstable = False,
     objs = obs, cfg = cfg reg_demo,
     dev = \<lparr>events = Map.empty, pListLockKey = NULL, evLog = log_demo, evMore =
       \<lparr>gpio = \<lparr>regs = (\<lambda>pt. \<lparr>PDOR = 0, PDDR = 0, PDIR = 0, PCR = (\<lambda>n. 0x100)\<rparr>), irqOn = (\<lambda>pt. False), isrTab = Map.empty,
            lwgpios = [0x6000 \<mapsto> dio_lwgpio 0x10001 2 2 LWGPIO_DIR_INPUT LWGPIO_DIR_MASK], lwChain = [0x6000], nLWGPIOs = 1,
            gpios = Map.empty, gpChain = [], nGPIOs = 0\<rparr>,
          stGPIO = (\<lambda>p. NULL), stPreset = (\<lambda>p. dio_value 0), stLed = (\<lambda>p. value_zero), hTimer = 0, ledTimers = [], timerIDs = [],
          clock = at_second 0,
          dioMore = \<lparr>owBus = \<lparr>tbDev = (\<lambda>_. \<lparr>tdPhase = DevDone, tdPad = ow_power_up, tdConv = None\<rparr>), tbLow = False, tbTime = 0, tbPull = False\<rparr>, owIrq = 0,
            ows = [0x7000 \<mapsto> \<lparr>owConfig = \<lparr>owID = 0x30001, xGPIO = 0x10001, nMaxDevices = 2, owFlags = 1\<rparr>, owParent = 0,
              pROMMem = 0x7100, pROMCodes = [], nROMCodes = 0, pLWGPIO = 0x6000\<rparr>],
            owChain = [0x7000], n1Wires = 1, n1WireRecoveryTimerID = 0, \<dots> = y\<rparr>\<rparr>\<rparr>\<rparr>"

lemma ow_board_rest: "ow_rest 0x7000 (ow_board obs y)"
  by (simp add: ow_board_def ow_rest_def xLock_def dio_lwgpio_def open_drain_def handle_ok_def LWGPIO_PORTS_def
      lwgpio_int_get_vector_def LWGPIO_DIR_MASK_def pin_latch_def pin_out_def)

definition ow_demo :: "(timed_bus, unit) owsys" where "ow_demo = ow_board Map.empty ()"

lemma ow_demo_rest: "ow_rest 0x7000 ow_demo"
  unfolding ow_demo_def by (rule ow_board_rest)

lemma ow_demo_codes: "\<forall>c\<in>set ow_codes. rom_code c"
proof
  fix c assume "c \<in> set ow_codes"
  then have "length c = 8 \<and> hd c = 0x28" by (auto simp: ow_codes_def)
  then show "rom_code c" by (auto simp: rom_code_def)
qed

lemma ow_demo_order:
  "sort_key rom_key (remdups ow_codes) = [[0x28, 0x61, 0x64, 0x12, 0x3C, 0x7C, 0x2F, 0x27],
     [0x28, 0xFF, 0x13, 0x60, 0, 0, 0, 0xEA], [0x28, 0xFF, 0x4B, 0x60, 0, 0, 0, 0x41]]"
  by code_simp

theorem FTE_1WIRE_search_finds_all_witness:
  "\<exists>b n s'. FTE_1WIRE_search (timed_line ow_fresh ow_codes) 0x7000 2 ow_demo
      = Some ([[0x28, 0x61, 0x64, 0x12, 0x3C, 0x7C, 0x2F, 0x27], [0x28, 0xFF, 0x13, 0x60, 0, 0, 0, 0xEA]], s')
    \<and> ow_at 0x7000 ow_demo False b n s'"
  using FTE_1WIRE_search_finds_all [OF tb.ow_slaves_axioms [of ow_fresh] ow_demo_codes ow_demo_rest, of 2] by (simp add: ow_demo_order)

theorem FTE_1WIRE_search_masks_interrupts_witness:
  "\<exists>out s'. FTE_1WIRE_search (timed_line ow_fresh ow_codes) 0x7000 2 ow_demo = Some (out, s') \<and> owIrq (ow s') = 512"
  using FTE_1WIRE_search_masks_interrupts [OF tb.ow_slaves_axioms [of ow_fresh] ow_demo_codes ow_demo_rest, of 2]
  by (simp add: ow_codes_def ow_demo_def ow_board_def)

end
