(* ===== verification/FTE_Ds18b20Props.thy ===== *)
theory FTE_Ds18b20Props
  imports FTE_Ds18b20 FTE_OneWireTimed
begin

unbundle bit_operations_syntax

text \<open>
  What a thermometer's object may be relied on for: its checksum rejects what a garbled byte
  makes of a reading, a temperature is within the range of the device, and 800 ms after a
  measurement was started the object holds what its own device measured, whatever else is on
  the bus.
\<close>

section \<open>The checksum\<close>

lemma ds_poly: "drop_bit 1 (x XOR 0x18) OR 0x80 = drop_bit 1 x XOR 0x8C" for x :: u8
proof (rule bit_word_eqI)
  fix n assume "n < LENGTH(8)"
  then have "n = 0 \<or> n = 1 \<or> n = 2 \<or> n = 3 \<or> n = 4 \<or> n = 5 \<or> n = 6 \<or> n = 7" by simp arith
  moreover have "\<not> bit x 8" using bit_imp_le_length [of x 8] by auto
  ultimately show "bit (drop_bit 1 (x XOR 0x18) OR 0x80) n = bit (drop_bit 1 x XOR 0x8C) n"
    by (elim disjE) (simp_all add: bit_or_iff bit_xor_iff bit_drop_bit_eq)
qed

text \<open>The seed and the byte together are the register that is shifted.\<close>

lemma ds_crc_bit_refl: "ds_crc_bit (x, d) = (refl_bit 0x8C (x XOR d) XOR drop_bit 1 d, drop_bit 1 d)"
proof -
  have low: "(w AND 1 = 0) = (\<not> bit w 0)" for w :: u8
    using and_exp_eq_0_iff_not_bit [of w 0] by simp
  have "drop_bit 1 x XOR p = (drop_bit 1 (x XOR d) XOR p) XOR drop_bit 1 d" for p
    by (rule bit_word_eqI) (auto simp: bit_xor_iff bit_drop_bit_eq)
  from this [of 0] this [of "0x8C"] show ?thesis
    unfolding ds_crc_bit_def refl_bit_def low Let_def prod.case ds_poly by (simp del: drop_bit_Suc)
qed

lemma ds_crc_bits: "(ds_crc_bit ^^ n) (x, d) = ((refl_bit 0x8C ^^ n) (x XOR d) XOR drop_bit n d, drop_bit n d)"
proof (induction n)
  case 0
  then show ?case by (simp add: xor.assoc)
next
  case (Suc n)
  have "drop_bit 1 (drop_bit n d) = drop_bit (Suc n) d" by (simp add: drop_bit_drop_bit)
  moreover have "((refl_bit 0x8C ^^ n) (x XOR d) XOR drop_bit n d) XOR drop_bit n d = (refl_bit 0x8C ^^ n) (x XOR d)"
    by (rule bit_word_eqI) (auto simp: bit_xor_iff)
  ultimately show ?case by (simp add: Suc ds_crc_bit_refl)
qed

lemma ds_crc_byte_refl: "ds_crc_byte = refl_byte 0x8C"
proof (intro ext)
  fix x d :: u8
  have "drop_bit 8 d = 0" by (rule bit_word_eqI) (auto simp: bit_drop_bit_eq dest: bit_imp_le_length)
  then show "ds_crc_byte x d = refl_byte 0x8C x d" unfolding ds_crc_byte_def ds_crc_bits refl_byte_def by simp
qed

interpretation crc8: burst_crc ds_crc_byte 1
proof unfold_locales
  have p: "bit (0x8C :: u8) (LENGTH(8) - 1)" by simp
  show "ds_crc_byte c d = ds_crc_byte c' d \<Longrightarrow> c = c'" for c d c'
    unfolding ds_crc_byte_refl by (rule refl_byte_inj [OF p])
  show "length xs = length ys \<Longrightarrow> length xs \<le> 1 \<Longrightarrow> foldl ds_crc_byte c xs = foldl ds_crc_byte c ys \<Longrightarrow> xs = ys" for xs ys c
    unfolding ds_crc_byte_refl by (rule refl_window_inj [OF p]) auto
qed

text \<open>C13: A reading of the nine bytes that passes the checksum does not pass it any more when one of
  them, any one, has been garbled: \<^verbatim>\<open>_FTE_DS18B20_get_temperature\<close> then reports an error.\<close>

theorem FTE_DS18B20_garbled_rejected:
  assumes "length v = 9" "FTE_DS18B20_crc v 0 = 0" "i < 9" "b \<noteq> v ! i"
  shows "ds_decode (v[i := b]) = None"
proof -
  have v: "v = take i v @ [v ! i] @ drop (Suc i) v" using assms(1,3) id_take_nth_drop [of i v] by simp
  have "v[i := b] = take i v @ [b] @ drop (Suc i) v" using assms(1,3) upd_conv_take_nth_drop [of i v b] by simp
  moreover have "foldl ds_crc_byte 0 (take i v @ [b] @ drop (Suc i) v) \<noteq> foldl ds_crc_byte 0 (take i v @ [v ! i] @ drop (Suc i) v)"
    by (rule crc8.burst_detected) (use assms(4) in auto)
  ultimately have "FTE_DS18B20_crc (v[i := b]) 0 \<noteq> 0" using assms(2) v unfolding FTE_DS18B20_crc_def by metis
  then show ?thesis by (simp add: ds_decode_def)
qed

theorem FTE_DS18B20_garbled_rejected_witness:
  "ds_decode [0x91, 0x01, 0x4B, 0x46, 0x7F, 0xFF, 0x0F, 0x10, 0x25] = Some 2506
   \<and> ds_decode ([0x91, 0x01, 0x4B, 0x46, 0x7F, 0xFF, 0x0F, 0x10, 0x25][1 := 0x03]) = None"
proof
  let ?v = "[0x91, 0x01, 0x4B, 0x46, 0x7F, 0xFF, 0x0F, 0x10, 0x25] :: u8 list"
  show "ds_decode ?v = Some 2506" by code_simp
  have "FTE_DS18B20_crc ?v 0 = 0" by code_simp
  then show "ds_decode (?v[1 := 0x03]) = None" using FTE_DS18B20_garbled_rejected [of ?v 1 "0x03"] by simp
qed

section \<open>The range\<close>

lemma ds_decode_range: "ds_decode v = Some t \<Longrightarrow> -5500 \<le> t \<and> t \<le> 12500"
  by (auto simp: ds_decode_def Let_def split: if_splits)

section \<open>The bus and the object\<close>

lemma at_rest:
  assumes "ow_rest p s" "ow_at p s False b n s'"
  shows "ow_rest p s'"
proof -
  have "sems s' = sems s" by (rule at_sems_eq [OF assms(2)])
  then show ?thesis using assms(1,2) by (elim ow_atE) (simp add: ow_rest_def)
qed

lemma upd_ow_simps:
  "gpio (dio (upd_ow f s)) = gpio (dio s)" "ow (upd_ow f s) = f (ow s)" "sems (upd_ow f s) = sems s"
  "objs (upd_ow f s) = objs s" "cfg (upd_ow f s) = cfg s" "clock (dio (upd_ow f s)) = clock (dio s)"
  by (simp_all add: upd_ow_def upd_dio_def)

lemma ow_rest_upd: "ows (f (ow s)) = ows (ow s) \<Longrightarrow> ow_rest p (upd_ow f s) = ow_rest p s"
  unfolding ow_rest_def upd_ow_simps by (simp only:)

text \<open>What stays when only the line was used.\<close>

lemma at_frame:
  assumes "ow_at p s out b n s'"
  shows "objs s' = objs s" "cfg s' = cfg s" "clock (dio s') = clock (dio s)" "ow s' = (ow s)\<lparr>owBus := b, owIrq := n\<rparr>"
  using assms by (elim ow_atE, simp add: ow_put_def upd_dio_def)+

lemma selected_codes:
  assumes "\<forall>c\<in>set cs. length c = 8" "length c = 8"
  shows "set (filter (\<lambda>d. rom_key d = rom_key c) cs) = (if c \<in> set cs then {c} else {})"
  using assms rom_key_inj by auto

lemma start_convert_run:
  fixes s :: "'b dssys"
  assumes "ow_thermo L cs Ph Pd fresh" "ds_bus pObj s = Some (x, p)" "ow_rest p s" "length (cfg_pROMCode x) = 8"
  shows "\<exists>b s'. DS18B20_start_convert L pObj s = Some (FTE_RET_OK, s') \<and> ow_at p s False b (owIrq (ow s)) s'
    \<and> Ph (OwConvert (filter (\<lambda>d. rom_key d = rom_key (cfg_pROMCode x)) cs)) b"
proof (rule ow_locked [OF assms(3)])
  fix s0 assume s0: "FTE_1WIRE_lock p s = Some (FTE_RET_OK, s0)" "ow_at p s0 False (owBus (ow s)) (owIrq (ow s)) s0"
    and unlock: "\<And>b n s'. ow_at p s0 False b n s' \<Longrightarrow> \<exists>s''. FTE_1WIRE_unlock p s' = Some (FTE_RET_OK, s'') \<and> ow_at p s False b n s''"
  obtain b s1 s2 s3 where s3: "FTE_1WIRE_reset L p s0 = Some (FTE_RET_OK, s1)" "FTE_1WIRE_writeByte L p 0x55 s1 = Some (FTE_RET_OK, s2)"
    "FTE_1WIRE_write L p (cfg_pROMCode x) s2 = Some (FTE_RET_OK, s3)" "ow_at p s0 False b (owIrq (ow s)) s3"
    "Ph (OwSelected (filter (\<lambda>d. rom_key d = rom_key (cfg_pROMCode x)) cs) []) b"
    by (rule ow_thermo.select_device [OF assms(1) s0(2) assms(4)])
  obtain b4 s4 where s4: "FTE_1WIRE_writeByte L p 0x44 s3 = Some (FTE_RET_OK, s4)" "ow_at p s0 False b4 (owIrq (ow s)) s4"
    "Ph (OwConvert (filter (\<lambda>d. rom_key d = rom_key (cfg_pROMCode x)) cs)) b4"
    using ow_thermo.function_byte [OF assms(1) s3(4,5), of "0x44"] by (auto simp: after_byte)
  obtain s5 where s5: "FTE_1WIRE_unlock p s4 = Some (FTE_RET_OK, s5)" "ow_at p s False b4 (owIrq (ow s)) s5" using unlock [OF s4(2)] by blast
  then show ?thesis using assms(2) s0(1) s3(1-3) s4(1,3) by (auto simp: DS18B20_start_convert_def)
qed

text \<open>Without a device the nine bytes are all ones.\<close>

lemma ds_no_device:
  assumes "Q \<longleftrightarrow> \<not> R"
  shows "ds_decode (if Q then replicate 9 0xFF else m) = (if R then ds_decode m else None)"
proof (cases R)
  case True
  then show ?thesis unfolding assms by (simp only: simp_thms if_True if_False)
next
  case False
  have "replicate 9 (0xFF :: u8) ! 7 = 0xFF" by (subst nth_replicate) simp_all
  then have "ds_decode (replicate 9 0xFF) = None" unfolding ds_decode_def by (simp only: simp_thms if_True)
  with False show ?thesis unfolding assms by (simp only: simp_thms if_True if_False)
qed

lemma get_temperature_run:
  fixes s :: "'b dssys"
  assumes "ow_thermo L cs Ph Pd fresh" "ds_bus pObj s = Some (x, p)" "ow_rest p s" "length (cfg_pROMCode x) = 8"
    "\<forall>c\<in>set cs. length c = 8" "cfg_pROMCode x \<in> set cs \<longrightarrow> Pd (cfg_pROMCode x) m (owBus (ow s))" "length m = 9"
  shows "\<exists>b s'. DS18B20_get_temperature L pObj s = Some (if cfg_pROMCode x \<in> set cs then ds_decode m else None, s')
    \<and> ow_at p s False b (owIrq (ow s)) s'"
proof (rule ow_locked [OF assms(3)])
  let ?c = "cfg_pROMCode x"
  let ?P = "filter (\<lambda>d. rom_key d = rom_key ?c) cs"
  fix s0 assume s0: "FTE_1WIRE_lock p s = Some (FTE_RET_OK, s0)" "ow_at p s0 False (owBus (ow s)) (owIrq (ow s)) s0"
    and unlock: "\<And>b n s'. ow_at p s0 False b n s' \<Longrightarrow> \<exists>s''. FTE_1WIRE_unlock p s' = Some (FTE_RET_OK, s'') \<and> ow_at p s False b n s''"
  obtain b s1 s2 s3 where s3: "FTE_1WIRE_reset L p s0 = Some (FTE_RET_OK, s1)" "FTE_1WIRE_writeByte L p 0x55 s1 = Some (FTE_RET_OK, s2)"
    "FTE_1WIRE_write L p ?c s2 = Some (FTE_RET_OK, s3)" "ow_at p s0 False b (owIrq (ow s)) s3"
    "Ph (OwSelected ?P []) b" "ow_thermo.keeps Pd (owBus (ow s)) b"
    by (rule ow_thermo.select_device [OF assms(1) s0(2) assms(4)])
  obtain b4 s4 where s4: "FTE_1WIRE_writeByte L p 0xBE s3 = Some (FTE_RET_OK, s4)" "ow_at p s0 False b4 (owIrq (ow s)) s4"
    "Ph (OwPad ?P 0) b4" "ow_thermo.keeps Pd b b4"
    using ow_thermo.function_byte [OF assms(1) s3(4,5), of "0xBE"] by (auto simp: after_byte)
  have P: "set ?P = (if ?c \<in> set cs then {?c} else {})" by (rule selected_codes [OF assms(5,4)])
  have "\<forall>c\<in>set ?P. c = ?c \<and> Pd ?c m b4"
    using assms(6) s3(6) s4(4) unfolding P by (auto simp: ow_thermo.keeps_def [OF assms(1)])
  from ow_thermo.read_device [OF assms(1) s4(2,3) this assms(7)] obtain b5 s5 where
    s5: "FTE_1WIRE_read L p 9 s4 = Some (FTE_RET_OK, if ?P = [] then replicate 9 0xFF else m, s5)" "ow_at p s0 False b5 (owIrq (ow s)) s5"
    by blast
  obtain s6 where s6: "FTE_1WIRE_unlock p s5 = Some (FTE_RET_OK, s6)" "ow_at p s False b5 (owIrq (ow s)) s6" using unlock [OF s5(2)] by blast
  have "?P = [] \<longleftrightarrow> ?c \<notin> set cs" using P unfolding set_empty [symmetric] by (metis insert_not_empty)
  then have "ds_decode (if ?P = [] then replicate 9 0xFF else m) = (if ?c \<in> set cs then ds_decode m else None)" by (rule ds_no_device)
  moreover have "DS18B20_get_temperature L pObj s = Some (ds_decode (if ?P = [] then replicate 9 0xFF else m), s6)"
    by (simp only: DS18B20_get_temperature_def assms(2) s0(1) s3(1-3) s4(1) s5(1) s6(1) bind.bind_lunit prod.case)
  ultimately have "DS18B20_get_temperature L pObj s = Some (if ?c \<in> set cs then ds_decode m else None, s6)" by (simp only:)
  then show ?thesis using s6(2) by blast
qed

text \<open>What a reading makes of a value.\<close>

definition ds_good :: "int option \<Rightarrow> bool" where "ds_good t \<longleftrightarrow> t \<noteq> None \<and> t \<noteq> Some 8500"

definition ds_value :: "time_struct \<Rightarrow> int option \<Rightarrow> fte_value \<Rightarrow> fte_value" where
  "ds_value now t v = (if ds_good t then snd (FTE_VALUE_setTemperature now (word_of_int (the t)) v) else snd (FTE_VALUE_setValid False v))"

definition ds_stat :: "fte_config \<Rightarrow> int option \<Rightarrow> obj_stat \<Rightarrow> obj_stat" where
  "ds_stat c t st = (if ds_good t then snd (FT_OBJ_STAT_incSucceed st) else snd (snd (FT_OBJ_STAT_incFailed c st)))"

lemma upd_stat_simps:
  "objs (upd_stat q ok s) = objs s" "owIrq (ow (upd_stat q ok s)) = owIrq (ow s)"
  "xStatistics (ow (upd_stat q ok s)) = (xStatistics (ow s))(q := if ok then snd (FT_OBJ_STAT_incSucceed (xStatistics (ow s) q))
     else snd (snd (FT_OBJ_STAT_incFailed (cfg s) (xStatistics (ow s) q))))"
proof -
  obtain r bad st where fail: "FT_OBJ_STAT_incFailed (cfg s) (xStatistics (ow s) q) = (r, bad, st)" by (metis prod_cases3)
  show "objs (upd_stat q ok s) = objs s" "owIrq (ow (upd_stat q ok s)) = owIrq (ow s)"
    "xStatistics (ow (upd_stat q ok s)) = (xStatistics (ow s))(q := if ok then snd (FT_OBJ_STAT_incSucceed (xStatistics (ow s) q))
       else snd (snd (FT_OBJ_STAT_incFailed (cfg s) (xStatistics (ow s) q))))"
    by (cases ok; cases bad; simp add: upd_stat_def fail Let_def upd_ds_def upd_ow_simps)+
qed

lemma done_run:
  fixes s :: "'b dssys"
  assumes "ow_thermo L cs Ph Pd fresh" "objs s pObj = Some ob" "oValues ob = [v]" "ow_rest (p1Wire (ow s) (pStatusP ob)) s"
    "length (cfg_pROMCode (oConfig ob)) = 8" "\<forall>c\<in>set cs. length c = 8"
    "cfg_pROMCode (oConfig ob) \<in> set cs \<longrightarrow> Pd (cfg_pROMCode (oConfig ob)) m (owBus (ow s))" "length m = 9"
  defines "t \<equiv> if cfg_pROMCode (oConfig ob) \<in> set cs then ds_decode m else None"
  shows "\<exists>s'. DS18B20_done L pObj s = Some s' \<and> objs s' = (objs s)(pObj \<mapsto> ob\<lparr>oValues := [ds_value (clock (dio s)) t v]\<rparr>)
    \<and> xStatistics (ow s') = (xStatistics (ow s))(pStatusP ob := ds_stat (cfg s) t (xStatistics (ow s) (pStatusP ob)))
    \<and> owIrq (ow s') = owIrq (ow s)"
proof -
  let ?q = "pStatusP ob" let ?s = "upd_ds (\<lambda>d. d\<lparr>hConvertTimer := (hConvertTimer d)(pStatusP ob := 0)\<rparr>) s"
  note u = upd_ow_simps [where f = "\<lambda>d. d\<lparr>hConvertTimer := (hConvertTimer d)(pStatusP ob := 0)\<rparr>" and s = s, folded upd_ds_def]
  have f: "objs ?s = objs s" "cfg ?s = cfg s" "clock (dio ?s) = clock (dio s)" "xStatistics (ow ?s) = xStatistics (ow s)"
    "owIrq (ow ?s) = owIrq (ow s)" "owBus (ow ?s) = owBus (ow s)" "p1Wire (ow ?s) = p1Wire (ow s)"
    by (simp_all add: u)
  have bus: "ds_bus pObj ?s = Some (oConfig ob, p1Wire (ow s) ?q)" using assms(2) f by (simp add: ds_bus_def)
  have rest: "ow_rest (p1Wire (ow s) ?q) ?s" unfolding upd_ds_def using assms(4) by (subst ow_rest_upd) simp_all
  obtain b s1 where s1: "DS18B20_get_temperature L pObj ?s = Some (t, s1)" "ow_at (p1Wire (ow s) ?q) ?s False b (owIrq (ow ?s)) s1"
    using get_temperature_run [OF assms(1) bus rest assms(5,6) _ assms(8)] assms(7) f(6) unfolding t_def by auto
  note g = at_frame [OF s1(2)]
  have o: "objs s1 pObj = Some ob" "obj_value ob = Some v" using assms(2,3) f(1) g(1) by (simp_all add: obj_value_def)
  have st: "xStatistics (ow s1) = xStatistics (ow s)" "owIrq (ow s1) = owIrq (ow s)" using g(4) f(4,5) by simp_all
  let ?v = "ds_value (clock (dio s)) t v"
  let ?s2 = "s1\<lparr>objs := (objs s1)(pObj \<mapsto> ob\<lparr>oValues := [?v]\<rparr>)\<rparr>"
  have upd: "upd_value pObj ?v s1 = Some ?s2" using o(1) assms(3) by (simp add: upd_value_def upd_obj_def guard_opt_def)
  have run: "DS18B20_done L pObj s = Some (upd_stat ?q (ds_good t) ?s2)"
  proof (cases "ds_good t")
    case True
    then obtain x where "t = Some x" "x \<noteq> 8500" by (auto simp: ds_good_def)
    then show ?thesis using assms(2) s1(1) o upd True g(3) f(3) by (simp add: DS18B20_done_def Let_def ds_value_def)
  next
    case False
    then show ?thesis using assms(2) s1(1) o upd
      by (cases t) (auto simp: DS18B20_done_def Let_def ds_value_def ds_good_def)
  qed
  have c: "cfg s1 = cfg s" using g(2) f(2) by simp
  have "objs (upd_stat ?q (ds_good t) ?s2) = (objs s)(pObj \<mapsto> ob\<lparr>oValues := [?v]\<rparr>)"
    "xStatistics (ow (upd_stat ?q (ds_good t) ?s2)) = (xStatistics (ow s))(?q := ds_stat (cfg s) t (xStatistics (ow s) ?q))"
    "owIrq (ow (upd_stat ?q (ds_good t) ?s2)) = owIrq (ow s)"
    using g(1) f(1) st c by (simp_all add: upd_stat_simps ds_stat_def)
  then show ?thesis using run by blast
qed

text \<open>C12: Whatever other devices are on the bus, starting a measurement and letting the handler of the
  conversion timer run 800 ms later sets the object's value to what its own device has
  measured, checked and cut to its range, and counts a success; when the device is missing,
  its memory fails the checksum, or the value is the 85.00 degrees of power-up, the value is
  marked as failed and the failure is counted.  Nothing else of any object changes, and the
  interrupts are as they were.\<close>

theorem FTE_DS18B20_measures:
  fixes s :: "'b dssys"
  assumes "ow_thermo L cs Ph Pd fresh" "\<forall>c\<in>set cs. length c = 8 \<and> length (fresh c) = 9"
    "objs s pObj = Some ob" "oValues ob = [v]" "ow_rest (p1Wire (ow s) (pStatusP ob)) s" "length (cfg_pROMCode (oConfig ob)) = 8"
  defines "t \<equiv> if cfg_pROMCode (oConfig ob) \<in> set cs then ds_decode (fresh (cfg_pROMCode (oConfig ob))) else None"
  shows "\<exists>s1 s2. DS18B20_start_convert L pObj s = Some (FTE_RET_OK, s1) \<and> DS18B20_done L pObj (udelay L 800000 s1) = Some s2
    \<and> objs s2 = (objs s)(pObj \<mapsto> ob\<lparr>oValues := [ds_value (clock (dio s)) t v]\<rparr>)
    \<and> xStatistics (ow s2) = (xStatistics (ow s))(pStatusP ob := ds_stat (cfg s) t (xStatistics (ow s) (pStatusP ob)))
    \<and> owIrq (ow s2) = owIrq (ow s)"
proof -
  let ?c = "cfg_pROMCode (oConfig ob)" let ?p = "p1Wire (ow s) (pStatusP ob)"
  let ?m = "if ?c \<in> set cs then fresh ?c else replicate 9 0"
  have bus: "ds_bus pObj s = Some (oConfig ob, ?p)" using assms(3) by (simp add: ds_bus_def)
  obtain b s1 where s1: "DS18B20_start_convert L pObj s = Some (FTE_RET_OK, s1)" "ow_at ?p s False b (owIrq (ow s)) s1"
    "Ph (OwConvert (filter (\<lambda>d. rom_key d = rom_key ?c) cs)) b" using start_convert_run [OF assms(1) bus assms(5,6)] by blast
  let ?s = "udelay L 800000 s1"
  have at: "ow_at ?p s False (lineWait L 800000 b) (owIrq (ow s)) ?s" by (rule at_delay [OF s1(2)])
  note f = at_frame [OF at]
  have pad: "?c \<in> set cs \<longrightarrow> Pd ?c ?m (owBus (ow ?s))"
    using ow_thermo.bus_convert [OF assms(1) s1(3), of ?c 800000] f(4) by simp
  have m: "length ?m = 9" "(if ?c \<in> set cs then ds_decode ?m else None) = t" using assms(2) by (simp_all add: t_def)
  have o: "objs ?s pObj = Some ob" using f(1) assms(3) by simp
  have rest: "ow_rest (p1Wire (ow ?s) (pStatusP ob)) ?s" using at_rest [OF assms(5) at] f(4) by simp
  have len: "\<forall>c\<in>set cs. length c = 8" using assms(2) by blast
  from done_run [OF assms(1) o assms(4) rest assms(6) len pad m(1)] m(2) s1(1) f show ?thesis by simp
qed

text \<open>On the board with three thermometers: the object of the one that measures -10.125 degrees.\<close>

definition ds_object :: fte_object where
  "ds_object = fte_object_zero\<lparr>pStatusP := 0x1080, oConfig := object_zero\<lparr>nID := 0x01020001, xFlags := 3, nDevID := 0x30001,
     obj_rest := [0x28, 0x61, 0x64, 0x12, 0x3C, 0x7C, 0x2F, 0x27, 0x10, 0x27, 0, 0]\<rparr>,
     oValues := [value_zero\<lparr>xType := FTE_VALUE_TYPE_TEMPERATURE\<rparr>]\<rparr>"

definition ds_demo :: "timed_bus dssys" where
  "ds_demo = ow_board [0x1000 \<mapsto> ds_object] (ds_state.fields (\<lambda>q. 0) (\<lambda>q. 0) (\<lambda>q. 0x7000) (\<lambda>q. stat_zero) [])"

lemma ds_demo_views:
  "objs ds_demo = [0x1000 \<mapsto> ds_object]" "p1Wire (ow ds_demo) q = 0x7000" "xStatistics (ow ds_demo) q = stat_zero"
  "clock (dio ds_demo) = at_second 0" "owIrq (ow ds_demo) = 0"
  by (simp_all add: ds_demo_def ow_board_def ds_state.defs)

lemma ds_object_views:
  "pStatusP ds_object = 0x1080" "oValues ds_object = [value_zero\<lparr>xType := FTE_VALUE_TYPE_TEMPERATURE\<rparr>]"
  "cfg_pROMCode (oConfig ds_object) = [0x28, 0x61, 0x64, 0x12, 0x3C, 0x7C, 0x2F, 0x27]"
  by (simp_all add: ds_object_def cfg_pROMCode_def)

lemma ow_fresh_reading: "ds_decode (ow_fresh [0x28, 0x61, 0x64, 0x12, 0x3C, 0x7C, 0x2F, 0x27]) = Some (- 1012)"
  by code_simp

theorem FTE_DS18B20_measures_witness:
  "\<exists>s1 s2 ob v. DS18B20_start_convert (timed_line ow_fresh ow_codes) 0x1000 ds_demo = Some (FTE_RET_OK, s1)
    \<and> DS18B20_done (timed_line ow_fresh ow_codes) 0x1000 (udelay (timed_line ow_fresh ow_codes) 800000 s1) = Some s2
    \<and> objs s2 0x1000 = Some ob \<and> oValues ob = [v] \<and> sint (xData v) = - 1012 \<and> bValid v
    \<and> nTotalTrial (xStatistics (ow s2) 0x1080) = 1 \<and> nTotalFail (xStatistics (ow s2) 0x1080) = 0"
proof -
  have codes: "\<forall>c\<in>set ow_codes. length c = 8 \<and> length (ow_fresh c) = 9" by (simp add: ow_codes_def ow_fresh_def)
  have mem: "cfg_pROMCode (oConfig ds_object) \<in> set ow_codes" by (simp add: ds_object_views ow_codes_def)
  have rest: "ow_rest (p1Wire (ow ds_demo) (pStatusP ds_object)) ds_demo"
    unfolding ds_demo_views by (simp only: ds_demo_def ow_board_rest)
  have t: "(if cfg_pROMCode (oConfig ds_object) \<in> set ow_codes then ds_decode (ow_fresh (cfg_pROMCode (oConfig ds_object))) else None) = Some (- 1012)"
    unfolding if_P [OF mem] unfolding ds_object_views by (rule ow_fresh_reading)
  have "ds_good (Some (- 1012))" by (simp add: ds_good_def)
  from FTE_DS18B20_measures [OF th.ow_thermo_axioms [of ow_fresh ow_codes] codes _ ds_object_views(2) rest, where pObj = "0x1000", unfolded t]
  show ?thesis
    by (auto simp: ds_demo_views ds_object_views ds_value_def ds_stat_def ds_good_def FTE_VALUE_setTemperature_def FTE_VALUE_setValid_def
        FT_OBJ_STAT_incSucceed_def stat_drop_oldest_def stat_zero_def Let_def)
qed

end
