(* ===== verification/FTE_Timer.thy ===== *)
theory FTE_Timer
  imports FTE_Value
begin

text \<open>
  Software timers on one timer of MQX: \<^verbatim>\<open>target/source/fte_timer.c\<close>.  The events wait in a list
  linked through their own \<^verbatim>\<open>Next\<close>, each with the time after the one before it; a timer of MQX
  runs for the first.  The lemmas show what the list says of the times at which events are due.
\<close>

section \<open>State\<close>

record tm_event =
  ulTimestamp :: u32
  ulReloadValue :: u32
  bIsRunning :: bool
  fCallback :: "nat option"
  Next :: addr
  xID :: u32

text \<open>The timers of MQX: what was asked for when they were started.\<close>

datatype mqx_timer = AtTicks nat addr u32 nat | After nat addr u32 | HandlerAfter u32

text \<open>\<open>tmIDs\<close> are the identifiers that MQX will hand out (0: no timer), \<open>tmElapsed\<close> is
  \<^verbatim>\<open>_time_get_elapsed\<close> and \<open>tmClock\<close> \<^verbatim>\<open>_time_get\<close>.\<close>

record tm_sys =
  tmEvents :: "addr \<rightharpoonup> tm_event"
  pTimerListHead :: addr
  tmRunning :: "(u32 \<times> mqx_timer) list"
  tmIDs :: "u32 list"
  tmElapsed :: time_struct
  tmClock :: time_struct

text \<open>\<open>tmCall\<close> are the callbacks, which may use the timers; \<open>cancelError\<close> is what \<^verbatim>\<open>_timer_cancel\<close>
  returns for an identifier that it does not know.\<close>

record 'z tm_env =
  ticksPerSec :: u32
  tmCall :: "nat \<Rightarrow> 'z tm_sys_scheme \<Rightarrow> 'z tm_sys_scheme option"
  cancelError :: fte_ret

section \<open>Timers of MQX\<close>

definition mqx_start :: "mqx_timer \<Rightarrow> 'z tm_sys_scheme \<Rightarrow> u32 \<times> 'z tm_sys_scheme" where
  "mqx_start t s = (case tmIDs s of
       [] \<Rightarrow> (0, s)
     | i # is \<Rightarrow> (i, s\<lparr>tmIDs := is, tmRunning := if i = 0 then tmRunning s else (i, t) # tmRunning s\<rparr>))"

definition mqx_cancel :: "u32 \<Rightarrow> 'z tm_sys_scheme \<Rightarrow> 'z tm_sys_scheme" where
  "mqx_cancel i s = s\<lparr>tmRunning := filter (\<lambda>t. fst t \<noteq> i) (tmRunning s)\<rparr>"

text \<open>The second result is \<^verbatim>\<open>*pTimerID\<close>.\<close>

definition FTE_TIMER_cancel :: "'z tm_env \<Rightarrow> u32 \<Rightarrow> 'z tm_sys_scheme \<Rightarrow> fte_ret \<times> u32 \<times> 'z tm_sys_scheme" where
  "FTE_TIMER_cancel E i s =
     (if i = 0 then (FTE_RET_OK, i, s)
      else let xRet = if i \<in> fst ` set (tmRunning s) then FTE_RET_OK else cancelError E
           in (xRet, if xRet = FTE_RET_OK then 0 else i, mqx_cancel i s))"

definition FTE_TIMER_startOneshotAtTicks :: "nat \<Rightarrow> addr \<Rightarrow> u32 \<Rightarrow> nat \<Rightarrow> 'z tm_sys_scheme \<Rightarrow> fte_ret \<times> u32 \<times> 'z tm_sys_scheme" where
  "FTE_TIMER_startOneshotAtTicks fTimeout pData ulMode ticks s =
     (let (i, s) = mqx_start (AtTicks fTimeout pData ulMode ticks) s
      in (if i = 0 then FTE_RET_NOT_ENOUGH_MEMORY else FTE_RET_OK, i, s))"

definition FTE_TIMER_startOneshotAfter :: "nat \<Rightarrow> addr \<Rightarrow> u32 \<Rightarrow> 'z tm_sys_scheme \<Rightarrow> fte_ret \<times> u32 \<times> 'z tm_sys_scheme" where
  "FTE_TIMER_startOneshotAfter fTimeout pData ulMilliSecs s =
     (let (i, s) = mqx_start (After fTimeout pData ulMilliSecs) s
      in (if i = 0 then FTE_RET_NOT_ENOUGH_MEMORY else FTE_RET_OK, i, s))"

section \<open>Events\<close>

definition upd_event :: "addr \<Rightarrow> (tm_event \<Rightarrow> tm_event) \<Rightarrow> 'z tm_sys_scheme \<Rightarrow> 'z tm_sys_scheme option" where
  "upd_event p f s = do { e \<leftarrow> tmEvents s p; Some (s\<lparr>tmEvents := (tmEvents s)(p \<mapsto> f e)\<rparr>) }"

definition FTE_TIMER_init :: "addr \<Rightarrow> nat option \<Rightarrow> 'z tm_sys_scheme \<Rightarrow> 'z tm_sys_scheme option" where
  "FTE_TIMER_init p callback =
     upd_event p (\<lambda>e. e\<lparr>ulTimestamp := 0, ulReloadValue := 0, bIsRunning := False, fCallback := callback, Next := NULL\<rparr>)"

text \<open>The time since the start of the system, not of the timer, in microseconds.\<close>

definition FTE_TIMER_getValue :: "'z tm_sys_scheme \<Rightarrow> u32" where
  "FTE_TIMER_getValue s = ucast (ucast (SECONDS (tmElapsed s)) * 1000000 + ucast (MILLISECONDS (tmElapsed s) * 1000) :: u64)"

definition FTE_TIMER_getCurrentTime :: "'z tm_sys_scheme \<Rightarrow> u64" where
  "FTE_TIMER_getCurrentTime s = ucast (SECONDS (tmClock s)) * 1000000 + ucast (MILLISECONDS (tmClock s) * 1000)"

definition FTE_TIMER_setTimeout :: "'z tm_env \<Rightarrow> addr \<Rightarrow> 'z tm_sys_scheme \<Rightarrow> 'z tm_sys_scheme option" where
  "FTE_TIMER_setTimeout E p s = do {
     e \<leftarrow> tmEvents s p;
     let (i, s) = mqx_start (HandlerAfter (ticksPerSec E * ulTimestamp e div 1000000)) s;
     upd_event p (\<lambda>e. e\<lparr>xID := i\<rparr>) s
   }"

partial_function (option) tm_exists :: "addr \<Rightarrow> addr \<Rightarrow> 'z tm_sys_scheme \<Rightarrow> bool option" where
  "tm_exists p cur s =
     (if cur = NULL then Some False
      else if cur = p then Some True
      else do { c \<leftarrow> tmEvents s cur; tm_exists p (Next c) s })"

definition FTE_TIMER_exists :: "addr \<Rightarrow> 'z tm_sys_scheme \<Rightarrow> bool option" where
  "FTE_TIMER_exists p s = tm_exists p (pTimerListHead s) s"

definition FTE_TIMER_insertNewHeadTimer :: "'z tm_env \<Rightarrow> addr \<Rightarrow> u32 \<Rightarrow> 'z tm_sys_scheme \<Rightarrow> 'z tm_sys_scheme option" where
  "FTE_TIMER_insertNewHeadTimer E p ulRemainingTime s = do {
     let cur = pTimerListHead s;
     e \<leftarrow> tmEvents s p;
     s \<leftarrow> (if cur \<noteq> NULL then upd_event cur (\<lambda>c. c\<lparr>ulTimestamp := ulRemainingTime - ulTimestamp e, bIsRunning := False\<rparr>) s
          else Some s);
     s \<leftarrow> upd_event p (\<lambda>e. e\<lparr>Next := cur, bIsRunning := True\<rparr>) s;
     FTE_TIMER_setTimeout E p (s\<lparr>pTimerListHead := p\<rparr>)
   }"

text \<open>At the end of the list, \<open>agg\<close> after the head.\<close>

definition tm_insert_last :: "addr \<Rightarrow> addr \<Rightarrow> u32 \<Rightarrow> 'z tm_sys_scheme \<Rightarrow> 'z tm_sys_scheme option" where
  "tm_insert_last p prev agg s = do {
     s \<leftarrow> upd_event p (\<lambda>e. e\<lparr>ulTimestamp := ulTimestamp e - agg\<rparr>) s;
     s \<leftarrow> upd_event prev (\<lambda>c. c\<lparr>Next := p\<rparr>) s;
     upd_event p (\<lambda>e. e\<lparr>Next := NULL\<rparr>) s
   }"

partial_function (option) tm_insert_loop :: "addr \<Rightarrow> addr \<Rightarrow> addr \<Rightarrow> u32 \<Rightarrow> u32 \<Rightarrow> 'z tm_sys_scheme \<Rightarrow> 'z tm_sys_scheme option" where
  "tm_insert_loop p prev cur agg aggNext s =
     (if prev = NULL then Some s
      else do {
        e \<leftarrow> tmEvents s p;
        if aggNext > ulTimestamp e then do {
          s \<leftarrow> upd_event p (\<lambda>e. e\<lparr>ulTimestamp := ulTimestamp e - agg\<rparr>) s;
          e \<leftarrow> tmEvents s p;
          s \<leftarrow> (if cur \<noteq> NULL then upd_event cur (\<lambda>c. c\<lparr>ulTimestamp := ulTimestamp c - ulTimestamp e\<rparr>) s else Some s);
          s \<leftarrow> upd_event prev (\<lambda>c. c\<lparr>Next := p\<rparr>) s;
          upd_event p (\<lambda>e. e\<lparr>Next := cur\<rparr>) s
        } else do {
          c \<leftarrow> tmEvents s cur;
          if Next c = NULL then tm_insert_last p cur aggNext s
          else do {
            n \<leftarrow> tmEvents s (Next c);
            tm_insert_loop p cur (Next c) aggNext (aggNext + ulTimestamp n) s
          }
        }
      })"

definition FTE_TIMER_insertTimer :: "addr \<Rightarrow> u32 \<Rightarrow> 'z tm_sys_scheme \<Rightarrow> 'z tm_sys_scheme option" where
  "FTE_TIMER_insertTimer p ulRemainingTime s = do {
     let prev = pTimerListHead s;
     h \<leftarrow> tmEvents s prev;
     if Next h = NULL then tm_insert_last p prev ulRemainingTime s
     else do {
       c \<leftarrow> tmEvents s (Next h);
       tm_insert_loop p prev (Next h) ulRemainingTime (ulRemainingTime + ulTimestamp c) s
     }
   }"

text \<open>What is left of a running event, by \<^verbatim>\<open>FTE_TIMER_getValue\<close>.\<close>

definition tm_remaining :: "tm_event \<Rightarrow> 'z tm_sys_scheme \<Rightarrow> u32" where
  "tm_remaining e s = (let ulElapsedTime = FTE_TIMER_getValue s in
     ulTimestamp e - (if ulElapsedTime > ulTimestamp e then ulTimestamp e else ulElapsedTime))"

text \<open>The timer cancelled is the one the started event had, not the one that runs for the head.\<close>

definition FTE_TIMER_start :: "'z tm_env \<Rightarrow> addr \<Rightarrow> 'z tm_sys_scheme \<Rightarrow> 'z tm_sys_scheme option" where
  "FTE_TIMER_start E p s =
     (if p = NULL then Some s
      else do {
        found \<leftarrow> FTE_TIMER_exists p s;
        if found then Some s
        else do {
          s \<leftarrow> upd_event p (\<lambda>e. e\<lparr>ulTimestamp := ulReloadValue e, bIsRunning := False\<rparr>) s;
          e \<leftarrow> tmEvents s p;
          if pTimerListHead s = NULL then FTE_TIMER_insertNewHeadTimer E p (ulTimestamp e) s
          else do {
            h \<leftarrow> tmEvents s (pTimerListHead s);
            let ulRemainingTime = (if bIsRunning h then tm_remaining h s else ulTimestamp h);
            s \<leftarrow> (if bIsRunning h then upd_event p (\<lambda>e. e\<lparr>xID := 0\<rparr>) (mqx_cancel (xID e) s) else Some s);
            if ulTimestamp e < ulRemainingTime then FTE_TIMER_insertNewHeadTimer E p ulRemainingTime s
            else FTE_TIMER_insertTimer p ulRemainingTime s
          }
        }
      })"

section \<open>The handler\<close>

partial_function (option) tm_drop_expired :: "'z tm_sys_scheme \<Rightarrow> 'z tm_sys_scheme option" where
  "tm_drop_expired s =
     (if pTimerListHead s = NULL then Some s
      else do {
        h \<leftarrow> tmEvents s (pTimerListHead s);
        if ulTimestamp h = 0 then tm_drop_expired (s\<lparr>pTimerListHead := Next h\<rparr>) else Some s
      })"

partial_function (option) tm_run_expired :: "'z tm_env \<Rightarrow> addr \<Rightarrow> 'z tm_sys_scheme \<Rightarrow> 'z tm_sys_scheme option" where
  "tm_run_expired E p s =
     (if p = NULL then Some s
      else do {
        e \<leftarrow> tmEvents s p;
        if ulTimestamp e \<noteq> 0 then Some s
        else do {
          s \<leftarrow> (case fCallback e of None \<Rightarrow> Some s | Some f \<Rightarrow> tmCall E f s);
          e \<leftarrow> tmEvents s p;
          tm_run_expired E (Next e) s
        }
      })"

definition tm_restart :: "'z tm_env \<Rightarrow> 'z tm_sys_scheme \<Rightarrow> 'z tm_sys_scheme option" where
  "tm_restart E s =
     (if pTimerListHead s \<noteq> NULL then do {
        s \<leftarrow> upd_event (pTimerListHead s) (\<lambda>h. h\<lparr>bIsRunning := True\<rparr>) s;
        FTE_TIMER_setTimeout E (pTimerListHead s) s
      } else Some s)"

definition FTE_TIMER_handler :: "'z tm_env \<Rightarrow> 'z tm_sys_scheme \<Rightarrow> 'z tm_sys_scheme option" where
  "FTE_TIMER_handler E s =
     (if pTimerListHead s = NULL then Some s
      else do {
        let ulElapsedTime = FTE_TIMER_getValue s;
        let p = pTimerListHead s;
        s \<leftarrow> upd_event p (\<lambda>h. h\<lparr>ulTimestamp := if ulElapsedTime > ulTimestamp h then 0 else ulTimestamp h - ulElapsedTime\<rparr>) s;
        s \<leftarrow> tm_drop_expired s;
        s \<leftarrow> tm_run_expired E p s;
        tm_restart E s
      })"

section \<open>Stopping\<close>

partial_function (option) tm_stop_loop :: "addr \<Rightarrow> u32 \<Rightarrow> addr \<Rightarrow> addr \<Rightarrow> 'z tm_sys_scheme \<Rightarrow> 'z tm_sys_scheme option" where
  "tm_stop_loop p ulRemainingTime prev cur s =
     (if cur = NULL then Some s
      else do {
        c \<leftarrow> tmEvents s cur;
        if cur = p then do {
          s \<leftarrow> upd_event prev (\<lambda>e. e\<lparr>Next := Next c\<rparr>) s;
          if Next c \<noteq> NULL then upd_event (Next c) (\<lambda>e. e\<lparr>ulTimestamp := ulTimestamp e + ulRemainingTime\<rparr>) s else Some s
        } else tm_stop_loop p ulRemainingTime cur (Next c) s
      })"

definition FTE_TIMER_stop :: "'z tm_env \<Rightarrow> addr \<Rightarrow> 'z tm_sys_scheme \<Rightarrow> 'z tm_sys_scheme option" where
  "FTE_TIMER_stop E p s =
     (if pTimerListHead s = NULL \<or> p = NULL then Some s
      else do {
        e \<leftarrow> tmEvents s p;
        if pTimerListHead s = p then
          if bIsRunning e then
            if Next e \<noteq> NULL then do {
              let ulRemainingTime = tm_remaining e s;
              s \<leftarrow> upd_event p (\<lambda>e. e\<lparr>bIsRunning := False\<rparr>) s;
              s \<leftarrow> upd_event (Next e) (\<lambda>h. h\<lparr>ulTimestamp := ulTimestamp h + ulRemainingTime, bIsRunning := True\<rparr>)
                     (s\<lparr>pTimerListHead := Next e\<rparr>);
              FTE_TIMER_setTimeout E (Next e) s
            } else Some (s\<lparr>pTimerListHead := NULL\<rparr>)
          else if Next e \<noteq> NULL
            then upd_event (Next e) (\<lambda>h. h\<lparr>ulTimestamp := ulTimestamp h + ulTimestamp e\<rparr>) (s\<lparr>pTimerListHead := Next e\<rparr>)
            else Some (s\<lparr>pTimerListHead := NULL\<rparr>)
        else tm_stop_loop p (ulTimestamp e) (pTimerListHead s) (pTimerListHead s) s
      })"

definition FTE_TIMER_reset :: "'z tm_env \<Rightarrow> addr \<Rightarrow> 'z tm_sys_scheme \<Rightarrow> 'z tm_sys_scheme option" where
  "FTE_TIMER_reset E p s = do { s \<leftarrow> FTE_TIMER_stop E p s; FTE_TIMER_start E p s }"

definition FTE_TIMER_setValue :: "'z tm_env \<Rightarrow> addr \<Rightarrow> u32 \<Rightarrow> 'z tm_sys_scheme \<Rightarrow> 'z tm_sys_scheme option" where
  "FTE_TIMER_setValue E p ulValue s = do {
     s \<leftarrow> FTE_TIMER_stop E p s;
     let ulValue = (if ulValue < 1000 then 1000 else ulValue);
     upd_event p (\<lambda>e. e\<lparr>ulTimestamp := ulValue, ulReloadValue := ulValue\<rparr>) s
   }"

section \<open>The list and its times\<close>

definition nx :: "(addr \<rightharpoonup> tm_event) \<Rightarrow> addr \<rightharpoonup> addr" where "nx ev a = map_option Next (ev a)"

definition ts :: "(addr \<rightharpoonup> tm_event) \<Rightarrow> addr \<Rightarrow> nat" where
  "ts ev a = (case ev a of None \<Rightarrow> 0 | Some e \<Rightarrow> unat (ulTimestamp e))"

primrec chain :: "(addr \<rightharpoonup> addr) \<Rightarrow> addr \<Rightarrow> addr list \<Rightarrow> bool" where
  "chain f x [] \<longleftrightarrow> x = NULL"
| "chain f x (a # as) \<longleftrightarrow> x = a \<and> a \<noteq> NULL \<and> (\<exists>y. f a = Some y \<and> chain f y as)"

definition tm_list :: "'z tm_sys_scheme \<Rightarrow> addr list \<Rightarrow> bool" where
  "tm_list s xs \<longleftrightarrow> chain (nx (tmEvents s)) (pTimerListHead s) xs \<and> distinct xs"

text \<open>When the events after one that is due at \<open>n\<close> are due.\<close>

primrec due_after :: "(addr \<rightharpoonup> tm_event) \<Rightarrow> nat \<Rightarrow> addr list \<Rightarrow> (addr \<times> nat) list" where
  "due_after ev n [] = []"
| "due_after ev n (a # as) = (a, n + ts ev a) # due_after ev (n + ts ev a) as"

text \<open>\<open>n\<close> is what is left of the first.\<close>

fun dues :: "(addr \<rightharpoonup> tm_event) \<Rightarrow> nat \<Rightarrow> addr list \<Rightarrow> (addr \<times> nat) list" where
  "dues ev n [] = []"
| "dues ev n (a # as) = (a, n) # due_after ev n as"

text \<open>What a list of times is to become when an event is started: behind those that are due not later.\<close>

primrec due_insert :: "addr \<Rightarrow> nat \<Rightarrow> (addr \<times> nat) list \<Rightarrow> (addr \<times> nat) list" where
  "due_insert p d [] = [(p, d)]"
| "due_insert p d (x # xs) = (if d < snd x then (p, d) # x # xs else x # due_insert p d xs)"

lemma next_upd [simp]: "nx (ev(a \<mapsto> e)) = (nx ev)(a \<mapsto> Next e)"
  by (auto simp: nx_def)

lemma nx_some: "ev a = Some e \<Longrightarrow> nx ev a = Some (Next e)"
  by (simp add: nx_def)

lemma nx_SomeE: "nx ev a = Some y \<Longrightarrow> (\<And>e. ev a = Some e \<Longrightarrow> Next e = y \<Longrightarrow> P) \<Longrightarrow> P"
  by (auto simp: nx_def)

lemma ts_upd [simp]: "ts (ev(a \<mapsto> e)) b = (if b = a then unat (ulTimestamp e) else ts ev b)"
  by (simp add: ts_def)

lemma ts_some: "ev a = Some e \<Longrightarrow> ts ev a = unat (ulTimestamp e)"
  by (simp add: ts_def)

lemma chain_cong: "(\<And>a. a \<in> set xs \<Longrightarrow> f a = g a) \<Longrightarrow> chain f x xs = chain g x xs"
  by (induction xs arbitrary: x) auto

lemma chain_upd [simp]: "a \<notin> set xs \<Longrightarrow> chain (f(a \<mapsto> y)) x xs = chain f x xs"
  by (rule chain_cong) auto

lemma chain_no_null: "chain f x xs \<Longrightarrow> NULL \<notin> set xs"
  by (induction xs arbitrary: x) auto

lemma chain_hd: "chain f x xs \<Longrightarrow> x = (case xs of [] \<Rightarrow> NULL | a # _ \<Rightarrow> a)"
  by (cases xs) auto

lemma due_after_cong: "(\<And>a. a \<in> set xs \<Longrightarrow> ts ev a = ts ev' a) \<Longrightarrow> due_after ev n xs = due_after ev' n xs"
  by (induction xs arbitrary: n) auto

lemma due_after_upd [simp]: "a \<notin> set xs \<Longrightarrow> due_after (ev(a \<mapsto> e)) n xs = due_after ev n xs"
  by (rule due_after_cong) auto

lemma fst_due_after [simp]: "map fst (due_after ev n xs) = xs"
  by (induction xs arbitrary: n) auto

lemma upd_event_some: "tmEvents s p = Some e \<Longrightarrow> upd_event p f s = Some (s\<lparr>tmEvents := (tmEvents s)(p \<mapsto> f e)\<rparr>)"
  by (simp add: upd_event_def)

text \<open>Times are sums of words; the bound keeps them from wrapping.\<close>

definition due_ok :: "(addr \<times> nat) list \<Rightarrow> bool" where "due_ok ds \<longleftrightarrow> (\<forall>x\<in>set ds. snd x < 2 ^ 32)"

lemma due_ok_Cons [simp]: "due_ok (x # xs) \<longleftrightarrow> snd x < 2 ^ 32 \<and> due_ok xs"
  by (simp add: due_ok_def)

lemma unat_plus_ok: "unat a + unat b < 2 ^ 32 \<Longrightarrow> unat (a + b) = unat a + unat b" for a b :: u32
  by (simp add: unat_plus_if')

lemma unat_minus_ok: "unat b \<le> unat a \<Longrightarrow> unat (a - b) = unat a - unat b" for a b :: u32
  by (simp add: unat_sub word_le_nat_alt)

section \<open>Starting an event\<close>

text \<open>\<open>p\<close> went into \<open>as\<close>, the events behind \<open>prev\<close>.\<close>

definition inserted :: "addr \<Rightarrow> nat \<Rightarrow> addr \<Rightarrow> nat \<Rightarrow> addr list \<Rightarrow> 'z tm_sys_scheme \<Rightarrow> 'z tm_sys_scheme \<Rightarrow> bool" where
  "inserted p d prev n as s s' \<longleftrightarrow> (\<exists>ev' zs c. s' = s\<lparr>tmEvents := ev'\<rparr> \<and> distinct zs \<and> set zs = insert p (set as)
     \<and> tmEvents s prev = Some c \<and> chain (nx ev') (hd zs) zs \<and> ev' prev = Some (c\<lparr>Next := hd zs\<rparr>)
     \<and> (\<forall>q. q \<notin> insert p (insert prev (set as)) \<longrightarrow> ev' q = tmEvents s q)
     \<and> due_after ev' n zs = due_insert p d (due_after (tmEvents s) n as))"

lemma insert_last:
  assumes "tmEvents s p = Some e" "tmEvents s prev = Some c" "p \<noteq> prev" "p \<noteq> NULL" "unat agg \<le> unat (ulTimestamp e)"
  shows "\<exists>s'. tm_insert_last p prev agg s = Some s' \<and> inserted p (unat (ulTimestamp e)) prev (unat agg) [] s s'"
proof -
  let ?e = "e\<lparr>ulTimestamp := ulTimestamp e - agg, Next := NULL\<rparr>"
  let ?ev = "(tmEvents s)(prev \<mapsto> c\<lparr>Next := p\<rparr>, p \<mapsto> ?e)"
  have "tm_insert_last p prev agg s = Some (s\<lparr>tmEvents := ?ev\<rparr>)"
    using assms(1-3) by (simp add: tm_insert_last_def upd_event_def fun_upd_twist)
  moreover have "inserted p (unat (ulTimestamp e)) prev (unat agg) [] s (s\<lparr>tmEvents := ?ev\<rparr>)"
    unfolding inserted_def using assms
    by (intro exI [of _ ?ev] exI [of _ "[p]"] exI [of _ c]) (simp add: unat_minus_ok)
  ultimately show ?thesis by blast
qed

lemma insert_before:
  assumes "tmEvents s p = Some e" "tmEvents s prev = Some c" "tmEvents s a = Some ae" "chain (nx (tmEvents s)) a (a # as)"
    "distinct (prev # a # as)" "p \<notin> set (prev # a # as)" "p \<noteq> NULL" "unat agg \<le> unat (ulTimestamp e)"
    "unat (ulTimestamp e) < unat agg + unat (ulTimestamp ae)"
  defines "e' \<equiv> e\<lparr>ulTimestamp := ulTimestamp e - agg\<rparr>"
  shows "inserted p (unat (ulTimestamp e)) prev (unat agg) (a # as) s (s\<lparr>tmEvents := (tmEvents s)(p \<mapsto> e',
    a \<mapsto> ae\<lparr>ulTimestamp := ulTimestamp ae - ulTimestamp e'\<rparr>, prev \<mapsto> c\<lparr>Next := p\<rparr>, p \<mapsto> e'\<lparr>Next := a\<rparr>)\<rparr>)"
proof -
  let ?ev = "(tmEvents s)(p \<mapsto> e', a \<mapsto> ae\<lparr>ulTimestamp := ulTimestamp ae - ulTimestamp e'\<rparr>, prev \<mapsto> c\<lparr>Next := p\<rparr>, p \<mapsto> e'\<lparr>Next := a\<rparr>)"
  have ne: "prev \<noteq> a" "a \<noteq> prev" "p \<noteq> prev" "prev \<noteq> p" "p \<noteq> a" "a \<noteq> p" using assms(5,6) by auto
  have e': "unat (ulTimestamp e') = unat (ulTimestamp e) - unat agg" using assms(8) by (simp add: e'_def unat_minus_ok)
  moreover from this have "unat (ulTimestamp ae - ulTimestamp e') = unat (ulTimestamp ae) - (unat (ulTimestamp e) - unat agg)"
    using assms(8,9) by (subst unat_minus_ok) simp_all
  ultimately have "due_after ?ev (unat agg) (p # a # as) = due_insert p (unat (ulTimestamp e)) (due_after (tmEvents s) (unat agg) (a # as))"
    using assms(3,5,6,8,9) ne by (simp add: ts_some ac_simps)
  moreover have "chain (nx ?ev) p (p # a # as)" using assms(3,4,5,6,7) by (auto simp: nx_some)
  ultimately show ?thesis unfolding inserted_def using assms(2,5,6)
    by (intro exI [of _ ?ev] exI [of _ "p # a # as"] exI [of _ c]) auto
qed

lemma insert_skip:
  assumes "inserted p d a (n + ts (tmEvents s) a) as s s'" "tmEvents s prev = Some c" "Next c = a" "a \<noteq> NULL"
    "distinct (prev # a # as)" "p \<notin> set (prev # a # as)" "n + ts (tmEvents s) a \<le> d"
  shows "inserted p d prev n (a # as) s s'"
proof -
  obtain ev' zs ae where r: "s' = s\<lparr>tmEvents := ev'\<rparr>" "distinct zs" "set zs = insert p (set as)" "tmEvents s a = Some ae"
    "chain (nx ev') (hd zs) zs" "ev' a = Some (ae\<lparr>Next := hd zs\<rparr>)" "\<forall>q. q \<notin> insert p (insert a (set as)) \<longrightarrow> ev' q = tmEvents s q"
    "due_after ev' (n + ts (tmEvents s) a) zs = due_insert p d (due_after (tmEvents s) (n + ts (tmEvents s) a) as)"
    using assms(1) unfolding inserted_def by blast
  have "ts ev' a = ts (tmEvents s) a" using r(4,6) by (simp add: ts_some)
  then have "due_after ev' n (a # zs) = due_insert p d (due_after (tmEvents s) n (a # as))" using r(8) assms(7) by simp
  moreover have "chain (nx ev') a (a # zs)" using r(5,6) assms(4) by (simp add: nx_some)
  moreover have "c\<lparr>Next := a\<rparr> = c" using assms(3) by simp
  moreover have "ev' prev = Some c" using r(7) assms(2,5,6) by auto
  ultimately show ?thesis unfolding inserted_def using r(1,2,3,7) assms(2,5,6)
    by (intro exI [of _ ev'] exI [of _ "a # zs"] exI [of _ c]) auto
qed

lemma insert_loop:
  assumes "tmEvents s p = Some e" "tmEvents s prev = Some c" "Next c = a" "tmEvents s a = Some ae"
    "chain (nx (tmEvents s)) a (a # as)" "distinct (prev # a # as)" "p \<notin> set (prev # a # as)" "p \<noteq> NULL" "prev \<noteq> NULL"
    "due_ok (due_after (tmEvents s) (unat agg) (a # as))" "unat agg \<le> unat (ulTimestamp e)"
  shows "\<exists>s'. tm_insert_loop p prev a agg (agg + ulTimestamp ae) s = Some s'
    \<and> inserted p (unat (ulTimestamp e)) prev (unat agg) (a # as) s s'"
  using assms
proof (induction as arbitrary: prev c a agg ae)
  case (Nil prev c a agg ae)
  have ts_a: "ts (tmEvents s) a = unat (ulTimestamp ae)" using Nil.prems(4) by (rule ts_some)
  have sum: "unat (agg + ulTimestamp ae) = unat agg + unat (ulTimestamp ae)" using Nil.prems(4,10) by (intro unat_plus_ok) (simp add: ts_some)
  have a: "a \<noteq> NULL" "Next ae = NULL" using Nil.prems(4,5) by (auto simp: nx_some)
  show ?case
  proof (cases "ulTimestamp e < agg + ulTimestamp ae")
    case True
    have "unat (ulTimestamp e) < unat agg + unat (ulTimestamp ae)" using True sum by (simp add: word_less_nat_alt)
    note insert_before [OF Nil.prems(1,2,4,5,6,7,8,11) this]
    moreover have "prev \<noteq> a" "p \<noteq> prev" "prev \<noteq> p" "p \<noteq> a" "a \<noteq> p" using Nil.prems(6,7) by auto
    ultimately show ?thesis using True Nil.prems(1-4,8,9) a(1)
      by (subst tm_insert_loop.simps) (simp add: upd_event_def)
  next
    case False
    then have d: "unat (agg + ulTimestamp ae) \<le> unat (ulTimestamp e)" by (simp add: word_le_nat_alt not_less)
    have "p \<noteq> a" using Nil.prems(7) by simp
    then obtain s' where s': "tm_insert_last p a (agg + ulTimestamp ae) s = Some s'"
      "inserted p (unat (ulTimestamp e)) a (unat (agg + ulTimestamp ae)) [] s s'"
      using insert_last [OF Nil.prems(1,4) _ Nil.prems(8) d] by blast
    have "inserted p (unat (ulTimestamp e)) prev (unat agg) [a] s s'"
      by (rule insert_skip [OF _ Nil.prems(2,3) a(1) Nil.prems(6,7)]) (use s'(2) sum d in \<open>simp_all add: ts_a\<close>)
    then show ?thesis using False s'(1) Nil.prems(1,4,9) a(2) by (subst tm_insert_loop.simps) simp
  qed
next
  case (Cons b bs prev c a agg ae)
  have ts_a: "ts (tmEvents s) a = unat (ulTimestamp ae)" using Cons.prems(4) by (rule ts_some)
  have sum: "unat (agg + ulTimestamp ae) = unat agg + unat (ulTimestamp ae)" using Cons.prems(4,10) by (intro unat_plus_ok) (simp add: ts_some)
  have a: "a \<noteq> NULL" "Next ae = b" "chain (nx (tmEvents s)) b (b # bs)" "b \<noteq> NULL" using Cons.prems(4,5) by (auto simp: nx_some)
  obtain be where be: "tmEvents s b = Some be" using a(3) by (auto elim: nx_SomeE)
  show ?case
  proof (cases "ulTimestamp e < agg + ulTimestamp ae")
    case True
    have "unat (ulTimestamp e) < unat agg + unat (ulTimestamp ae)" using True sum by (simp add: word_less_nat_alt)
    note insert_before [OF Cons.prems(1,2,4,5,6,7,8,11) this]
    moreover have "prev \<noteq> a" "p \<noteq> prev" "prev \<noteq> p" "p \<noteq> a" "a \<noteq> p" using Cons.prems(6,7) by auto
    ultimately show ?thesis using True Cons.prems(1-4,8,9) a(1)
      by (subst tm_insert_loop.simps) (simp add: upd_event_def)
  next
    case False
    then have d: "unat (agg + ulTimestamp ae) \<le> unat (ulTimestamp e)" by (simp add: word_le_nat_alt not_less)
    have "due_ok (due_after (tmEvents s) (unat (agg + ulTimestamp ae)) (b # bs))"
      using Cons.prems(10) sum by (simp add: ts_a)
    moreover have "distinct (a # b # bs)" "p \<notin> set (a # b # bs)" using Cons.prems(6,7) by auto
    ultimately obtain s' where s': "tm_insert_loop p a b (agg + ulTimestamp ae) (agg + ulTimestamp ae + ulTimestamp be) s = Some s'"
      "inserted p (unat (ulTimestamp e)) a (unat (agg + ulTimestamp ae)) (b # bs) s s'"
      using Cons.IH [OF Cons.prems(1,4) a(2) be a(3) _ _ Cons.prems(8) a(1) _ d] by blast
    have "inserted p (unat (ulTimestamp e)) prev (unat agg) (a # b # bs) s s'"
      by (rule insert_skip [OF _ Cons.prems(2,3) a(1) Cons.prems(6,7)]) (use s'(2) sum d in \<open>simp_all add: ts_a\<close>)
    then show ?thesis using False s'(1) Cons.prems(1,4,9) a(2,4) be by (subst tm_insert_loop.simps) simp
  qed
qed

lemma exists_chain: "chain (nx (tmEvents s)) x xs \<Longrightarrow> tm_exists p x s = Some (p \<in> set xs)"
  by (induction xs arbitrary: x) (subst tm_exists.simps, auto elim: nx_SomeE)+

lemma setTimeout_ok:
  assumes "tmEvents s p = Some e"
  shows "\<exists>i s'. FTE_TIMER_setTimeout E p s = Some s' \<and> tmEvents s' = (tmEvents s)(p \<mapsto> e\<lparr>xID := i\<rparr>) \<and> pTimerListHead s' = pTimerListHead s
    \<and> tm_sys.more s' = tm_sys.more s"
  using assms by (auto simp: FTE_TIMER_setTimeout_def mqx_start_def upd_event_def split: list.split)

text \<open>Either way the events keep their times and the new one gets its own.\<close>

lemma new_head:
  assumes "tm_list s (a # as)" "tmEvents s p = Some e" "p \<notin> set (a # as)" "p \<noteq> NULL" "ulTimestamp e < R"
  shows "\<exists>s'. FTE_TIMER_insertNewHeadTimer E p R s = Some s' \<and> tm_list s' (p # a # as)
    \<and> dues (tmEvents s') (unat (ulTimestamp e)) (p # a # as) = due_insert p (unat (ulTimestamp e)) (dues (tmEvents s) (unat R) (a # as))"
proof -
  obtain ae where ae: "tmEvents s a = Some ae" "chain (nx (tmEvents s)) (Next ae) as" "pTimerListHead s = a" "a \<noteq> NULL"
    using assms(1) by (auto simp: tm_list_def elim: nx_SomeE)
  have ne: "p \<noteq> a" "a \<noteq> p" "a \<notin> set as" "p \<notin> set as" "distinct as" using assms(1,3) by (auto simp: tm_list_def)
  let ?a = "ae\<lparr>ulTimestamp := R - ulTimestamp e, bIsRunning := False\<rparr>" let ?p = "e\<lparr>Next := a, bIsRunning := True\<rparr>"
  let ?s = "s\<lparr>tmEvents := (tmEvents s)(a \<mapsto> ?a, p \<mapsto> ?p), pTimerListHead := p\<rparr>"
  obtain i s' where s': "FTE_TIMER_setTimeout E p ?s = Some s'" "tmEvents s' = (tmEvents ?s)(p \<mapsto> ?p\<lparr>xID := i\<rparr>)" "pTimerListHead s' = p"
    using setTimeout_ok [of ?s p ?p E] by auto
  have run: "FTE_TIMER_insertNewHeadTimer E p R s = Some s'"
    using s'(1) ae assms(2) ne by (simp add: FTE_TIMER_insertNewHeadTimer_def upd_event_def)
  have d: "unat (ulTimestamp e) < unat R" "unat (R - ulTimestamp e) = unat R - unat (ulTimestamp e)"
    using assms(5) by (simp_all add: word_less_nat_alt unat_minus_ok)
  have "tm_list s' (p # a # as)" using s'(2,3) ae ne assms(4) by (simp add: tm_list_def)
  moreover have "dues (tmEvents s') (unat (ulTimestamp e)) (p # a # as) = due_insert p (unat (ulTimestamp e)) (dues (tmEvents s) (unat R) (a # as))"
    using s'(2) ne d by simp
  ultimately show ?thesis using run by blast
qed

lemma behind_head:
  assumes "tm_list s (a # as)" "tmEvents s p = Some e" "p \<notin> set (a # as)" "p \<noteq> NULL" "R \<le> ulTimestamp e"
    "due_ok (dues (tmEvents s) (unat R) (a # as))"
  shows "\<exists>s' ys. FTE_TIMER_insertTimer p R s = Some s' \<and> tm_list s' (a # ys)
    \<and> dues (tmEvents s') (unat R) (a # ys) = due_insert p (unat (ulTimestamp e)) (dues (tmEvents s) (unat R) (a # as))"
proof -
  obtain ae where ae: "tmEvents s a = Some ae" "chain (nx (tmEvents s)) (Next ae) as" "pTimerListHead s = a" "a \<noteq> NULL"
    using assms(1) by (auto simp: tm_list_def elim: nx_SomeE)
  have ne: "p \<noteq> a" "a \<notin> set as" "p \<notin> set as" "distinct as" using assms(1,3) by (auto simp: tm_list_def)
  have d: "unat R \<le> unat (ulTimestamp e)" using assms(5) by (simp add: word_le_nat_alt)
  have "\<exists>s'. FTE_TIMER_insertTimer p R s = Some s' \<and> inserted p (unat (ulTimestamp e)) a (unat R) as s s'"
  proof (cases as)
    case Nil
    then show ?thesis using insert_last [OF assms(2) ae(1) ne(1) assms(4) d] ae by (auto simp: FTE_TIMER_insertTimer_def)
  next
    case (Cons b bs)
    obtain be where be: "tmEvents s b = Some be" "b \<noteq> NULL" "Next ae = b" using ae(2) Cons by (auto elim: nx_SomeE)
    have "chain (nx (tmEvents s)) b (b # bs)" "distinct (a # b # bs)" "p \<notin> set (a # b # bs)" "due_ok (due_after (tmEvents s) (unat R) (b # bs))"
      using ae(2) be(3) Cons assms(6) ne by auto
    from insert_loop [OF assms(2) ae(1) be(3,1) this(1-3) assms(4) ae(4) this(4) d]
    show ?thesis using ae be Cons by (auto simp: FTE_TIMER_insertTimer_def)
  qed
  then obtain s' ev' zs where r: "FTE_TIMER_insertTimer p R s = Some s'" "s' = s\<lparr>tmEvents := ev'\<rparr>" "distinct zs" "set zs = insert p (set as)"
    "chain (nx ev') (hd zs) zs" "ev' a = Some (ae\<lparr>Next := hd zs\<rparr>)"
    "due_after ev' (unat R) zs = due_insert p (unat (ulTimestamp e)) (due_after (tmEvents s) (unat R) as)"
    using ae(1) unfolding inserted_def by auto
  have "tm_list s' (a # zs)" using r ae ne by (simp add: tm_list_def nx_some)
  moreover have "dues (tmEvents s') (unat R) (a # zs) = due_insert p (unat (ulTimestamp e)) (dues (tmEvents s) (unat R) (a # as))"
    using r d by simp
  ultimately show ?thesis using r(1) by blast
qed

text \<open>What the code takes for the time left of the head.\<close>

definition tm_left :: "'z tm_sys_scheme \<Rightarrow> u32" where
  "tm_left s = (case tmEvents s (pTimerListHead s) of None \<Rightarrow> 0
     | Some h \<Rightarrow> if bIsRunning h then tm_remaining h s else ulTimestamp h)"

lemma remaining_same: "tm_remaining e (s\<lparr>tmEvents := ev\<rparr>) = tm_remaining e s"
  by (simp add: tm_remaining_def FTE_TIMER_getValue_def)

lemma start_prepared:
  assumes "tm_list s (a # as)" "p \<notin> set (a # as)" "p \<noteq> NULL" "tmEvents s p = Some e"
  shows "\<exists>s1 e1. tmEvents s1 = (tmEvents s)(p \<mapsto> e1) \<and> pTimerListHead s1 = a \<and> ulTimestamp e1 = ulReloadValue e
    \<and> FTE_TIMER_start E p s = (if ulReloadValue e < tm_left s then FTE_TIMER_insertNewHeadTimer E p (tm_left s) s1
        else FTE_TIMER_insertTimer p (tm_left s) s1)"
proof -
  obtain ae where ae: "tmEvents s a = Some ae" "pTimerListHead s = a" "a \<noteq> NULL"
    using assms(1) by (auto simp: tm_list_def elim: nx_SomeE)
  have found: "FTE_TIMER_exists p s = Some False"
    using exists_chain [of s a "a # as" p] assms(1,2) ae(2) by (simp add: FTE_TIMER_exists_def tm_list_def)
  have ne: "p \<noteq> a" "a \<noteq> p" using assms(2) by auto
  let ?e = "e\<lparr>ulTimestamp := ulReloadValue e, bIsRunning := False\<rparr>"
  show ?thesis
  proof (cases "bIsRunning ae")
    case True
    let ?s = "(mqx_cancel (xID e) s)\<lparr>tmEvents := (tmEvents s)(p \<mapsto> ?e\<lparr>xID := 0\<rparr>)\<rparr>"
    show ?thesis
      by (rule exI [of _ ?s], rule exI [of _ "?e\<lparr>xID := 0\<rparr>"])
        (use True found ae ne assms(3,4) in \<open>simp add: FTE_TIMER_start_def upd_event_def mqx_cancel_def tm_left_def remaining_same Let_def\<close>)
  next
    case False
    show ?thesis
      by (rule exI [of _ "s\<lparr>tmEvents := (tmEvents s)(p \<mapsto> ?e)\<rparr>"], rule exI [of _ ?e])
        (use False found ae ne assms(3,4) in \<open>simp add: FTE_TIMER_start_def upd_event_def tm_left_def\<close>)
  qed
qed

lemma start_empty:
  assumes "tm_list s []" "p \<noteq> NULL" "tmEvents s p = Some e"
  shows "\<exists>s'. FTE_TIMER_start E p s = Some s' \<and> tm_list s' [p]"
proof -
  have h: "pTimerListHead s = NULL" using assms(1) by (simp add: tm_list_def)
  let ?e = "e\<lparr>ulTimestamp := ulReloadValue e, Next := NULL, bIsRunning := True\<rparr>"
  let ?s = "s\<lparr>tmEvents := (tmEvents s)(p \<mapsto> ?e), pTimerListHead := p\<rparr>"
  obtain i s' where s': "FTE_TIMER_setTimeout E p ?s = Some s'" "tmEvents s' = (tmEvents ?s)(p \<mapsto> ?e\<lparr>xID := i\<rparr>)" "pTimerListHead s' = p"
    using setTimeout_ok [of ?s p ?e E] by auto
  have "FTE_TIMER_exists p s = Some False" using h by (simp add: FTE_TIMER_exists_def tm_exists.simps)
  then have "FTE_TIMER_start E p s = Some s'"
    using s'(1) h assms(2,3) by (simp add: FTE_TIMER_start_def FTE_TIMER_insertNewHeadTimer_def upd_event_def)
  moreover have "tm_list s' [p]" using s'(2,3) assms(2) by (simp add: tm_list_def)
  ultimately show ?thesis by blast
qed


text \<open>The time that the code takes for the one since the head was started is the one since the start
  of the system.  When that is more than the head's whole time, nothing is taken to be left.\<close>

lemma due_after_shift: "(q, d) \<in> set (due_after ev n xs) \<Longrightarrow> (q, d + k) \<in> set (due_after ev (n + k) xs)"
proof (induction xs arbitrary: n)
  case (Cons a as)
  have k: "n + k + ts ev a = n + ts ev a + k" by simp
  show ?case using Cons.prems Cons.IH [of "n + ts ev a"] by (auto simp: k)
qed simp

lemma due_insert_in: "(p, d) \<in> set (due_insert p d ds)"
  by (induction ds) auto

text \<open>C40: From the time on at which the system has been up for longer than the head's time, an event that
  is started waits for the head however short its own time is, and then its own time: whatever
  is really left of the head, the event is due by just that too late.\<close>

theorem FTE_TIMER_start_late:
  assumes "tm_list s (a # as)" "p \<notin> set (a # as)" "p \<noteq> NULL" "tmEvents s p = Some e" "tmEvents s a = Some ae" "bIsRunning ae"
    "ulTimestamp ae \<le> FTE_TIMER_getValue s" "due_ok (dues (tmEvents s) 0 (a # as))"
  shows "\<exists>s' ys. FTE_TIMER_start E p s = Some s' \<and> tm_list s' (a # ys)
    \<and> (\<forall>h. (p, h + unat (ulReloadValue e)) \<in> set (dues (tmEvents s') h (a # ys)))"
proof -
  have left: "tm_left s = 0"
    using assms(1,5,6,7) by (auto simp: tm_left_def tm_list_def tm_remaining_def Let_def)
  obtain s1 e1 where s1: "tmEvents s1 = (tmEvents s)(p \<mapsto> e1)" "pTimerListHead s1 = a" "ulTimestamp e1 = ulReloadValue e"
    "FTE_TIMER_start E p s = FTE_TIMER_insertTimer p 0 s1"
    using start_prepared [OF assms(1-4), of E] left by auto
  have p: "tmEvents s1 p = Some e1" "a \<noteq> p" using assms(2) s1(1) by auto
  have list: "tm_list s1 (a # as)" using assms(1,2) s1(1,2) p(2) by (simp add: tm_list_def)
  have same: "dues (tmEvents s1) n (a # as) = dues (tmEvents s) n (a # as)" for n using s1(1) assms(2) by simp
  from behind_head [OF list p(1) assms(2,3), of 0] obtain s' ys where r: "FTE_TIMER_insertTimer p 0 s1 = Some s'" "tm_list s' (a # ys)"
    "dues (tmEvents s') 0 (a # ys) = due_insert p (unat (ulReloadValue e)) (dues (tmEvents s) 0 (a # as))"
    using s1(3) same assms(8) by auto
  have "(p, unat (ulReloadValue e)) \<in> set (dues (tmEvents s') 0 (a # ys))" unfolding r(3) by (rule due_insert_in)
  then have "(p, unat (ulReloadValue e)) \<in> set (due_after (tmEvents s') 0 ys)" using p(2) by simp
  then have "(p, h + unat (ulReloadValue e)) \<in> set (dues (tmEvents s') h (a # ys))" for h
    using due_after_shift [of p "unat (ulReloadValue e)" "tmEvents s'" 0 ys h] by (simp add: add.commute)
  then show ?thesis using r(1,2) s1(4) by metis
qed

section \<open>Stopping an event\<close>

lemma filter_due_after [simp]: "p \<notin> set xs \<Longrightarrow> filter (\<lambda>x. fst x \<noteq> p) (due_after ev n xs) = due_after ev n xs"
  by (induction xs arbitrary: n) auto

lemma stop_loop:
  assumes "tmEvents s prev = Some c" "chain (nx (tmEvents s)) cur as" "distinct (prev # as)" "p \<in> set as" "Next c = cur"
    "due_ok (due_after (tmEvents s) n as)" "unat R = ts (tmEvents s) p"
  shows "\<exists>ev' y. tm_stop_loop p R prev cur s = Some (s\<lparr>tmEvents := ev'\<rparr>) \<and> ev' prev = Some (c\<lparr>Next := y\<rparr>)
    \<and> chain (nx ev') y (remove1 p as) \<and> due_after ev' n (remove1 p as) = filter (\<lambda>x. fst x \<noteq> p) (due_after (tmEvents s) n as)
    \<and> (\<forall>q. q \<notin> insert prev (set as) \<longrightarrow> ev' q = tmEvents s q)"
  using assms
proof (induction as arbitrary: prev c cur n)
  case (Cons a bs)
  obtain ae where ae: "tmEvents s a = Some ae" "chain (nx (tmEvents s)) (Next ae) bs" "cur = a" "a \<noteq> NULL"
    using Cons.prems(2) by (auto elim: nx_SomeE)
  have ne: "prev \<noteq> a" "a \<noteq> prev" "a \<notin> set bs" "prev \<notin> set bs" "distinct bs" using Cons.prems(3) by auto
  show ?case
  proof (cases "a = p")
    case True
    show ?thesis
    proof (cases bs)
      case Nil
      then show ?thesis using True ae ne Cons.prems(1)
        by (subst tm_stop_loop.simps)
          (intro exI [of _ "(tmEvents s)(prev \<mapsto> c\<lparr>Next := NULL\<rparr>)"] exI [of _ NULL], simp add: upd_event_def)
    next
      case (Cons b ds)
      obtain be where be: "tmEvents s b = Some be" "b \<noteq> NULL" "Next ae = b" "chain (nx (tmEvents s)) (Next be) ds"
        using ae(2) Cons by (auto elim: nx_SomeE)
      have nb: "prev \<noteq> b" "b \<noteq> prev" "a \<noteq> b" "b \<noteq> a" "b \<notin> set ds" "prev \<notin> set ds" using ne Cons by auto
      have R: "unat R = unat (ulTimestamp ae)" using Cons.prems(7) True ts_some [of "tmEvents s", OF ae(1)] by simp
      have "n + unat (ulTimestamp ae) + unat (ulTimestamp be) < 2 ^ 32"
        using Cons.prems(6) Cons ae(1) be(1) by (simp add: ts_some)
      then have "unat (ulTimestamp be + R) = unat (ulTimestamp be) + unat (ulTimestamp ae)" using R by (subst unat_plus_ok) simp_all
      then show ?thesis using True Cons ae be ne nb Cons.prems(1)
        by (subst tm_stop_loop.simps)
          (intro exI [of _ "(tmEvents s)(prev \<mapsto> c\<lparr>Next := b\<rparr>, b \<mapsto> be\<lparr>ulTimestamp := ulTimestamp be + R\<rparr>)"] exI [of _ b],
            simp add: upd_event_def ts_some ac_simps)
    qed
  next
    case False
    have "distinct (a # bs)" "p \<in> set bs" "due_ok (due_after (tmEvents s) (n + ts (tmEvents s) a) bs)"
      using Cons.prems(4,6) False ne by auto
    from Cons.IH [OF ae(1,2) this(1,2) refl this(3) Cons.prems(7)]
    obtain ev' y where r: "tm_stop_loop p R a (Next ae) s = Some (s\<lparr>tmEvents := ev'\<rparr>)" "ev' a = Some (ae\<lparr>Next := y\<rparr>)"
      "chain (nx ev') y (remove1 p bs)"
      "due_after ev' (n + ts (tmEvents s) a) (remove1 p bs) = filter (\<lambda>x. fst x \<noteq> p) (due_after (tmEvents s) (n + ts (tmEvents s) a) bs)"
      "\<forall>q. q \<notin> insert a (set bs) \<longrightarrow> ev' q = tmEvents s q" by blast
    have "ts ev' a = ts (tmEvents s) a" using r(2) ae(1) by (simp add: ts_some)
    moreover have "ev' prev = Some (c\<lparr>Next := a\<rparr>)" using r(5) ne Cons.prems(1,5) ae(3) by auto
    ultimately show ?thesis using r ae False
      by (subst tm_stop_loop.simps) (intro exI [of _ ev'] exI [of _ a], auto simp: nx_some)
  qed
qed simp

lemma stop_head:
  assumes "tm_list s (p # as)" "due_ok (dues (tmEvents s) (unat (tm_left s)) (p # as))"
  shows "\<exists>s'. FTE_TIMER_stop E p s = Some s' \<and> tm_list s' as \<and> dues (tmEvents s') (ts (tmEvents s') (hd as)) as
    = due_after (tmEvents s) (unat (tm_left s)) as"
proof -
  obtain e where e: "tmEvents s p = Some e" "chain (nx (tmEvents s)) (Next e) as" "pTimerListHead s = p" "p \<noteq> NULL"
    using assms(1) by (auto simp: tm_list_def elim: nx_SomeE)
  have d: "p \<notin> set as" "distinct as" using assms(1) by (auto simp: tm_list_def)
  show ?thesis
  proof (cases as)
    case Nil
    then show ?thesis using e by (auto simp: FTE_TIMER_stop_def tm_list_def)
  next
    case (Cons b bs)
    obtain be where be: "tmEvents s b = Some be" "Next e = b" "b \<noteq> NULL" "chain (nx (tmEvents s)) (Next be) bs"
      using e(2) Cons by (auto elim: nx_SomeE)
    have nb: "p \<noteq> b" "b \<noteq> p" "b \<notin> set bs" "p \<notin> set bs" using d Cons by auto
    have sum: "unat (ulTimestamp be + tm_left s) = unat (tm_left s) + unat (ulTimestamp be)"
      using assms(2) Cons be(1) by (subst unat_plus_ok) (simp_all add: ts_some)
    have fin: "tm_list s' as \<and> dues (tmEvents s') (ts (tmEvents s') (hd as)) as = due_after (tmEvents s) (unat (tm_left s)) as"
      if "tmEvents s' = (tmEvents s)(p \<mapsto> e', b \<mapsto> b')" "pTimerListHead s' = b" "Next b' = Next be" "ulTimestamp b' = ulTimestamp be + tm_left s" for s' e' b'
      using that be nb d Cons sum by (simp add: tm_list_def ts_some)
    show ?thesis
    proof (cases "bIsRunning e")
      case True
      let ?b = "be\<lparr>ulTimestamp := ulTimestamp be + tm_left s, bIsRunning := True\<rparr>"
      let ?s = "s\<lparr>pTimerListHead := b, tmEvents := (tmEvents s)(p \<mapsto> e\<lparr>bIsRunning := False\<rparr>, b \<mapsto> ?b)\<rparr>"
      obtain i s' where s': "FTE_TIMER_setTimeout E b ?s = Some s'" "tmEvents s' = (tmEvents ?s)(b \<mapsto> ?b\<lparr>xID := i\<rparr>)" "pTimerListHead s' = b"
        using setTimeout_ok [of ?s b ?b E] by auto
      have "FTE_TIMER_stop E p s = Some s'" using True s'(1) e be nb
        by (simp add: FTE_TIMER_stop_def upd_event_def tm_left_def Let_def)
      moreover have "tmEvents s' = (tmEvents s)(p \<mapsto> e\<lparr>bIsRunning := False\<rparr>, b \<mapsto> ?b\<lparr>xID := i\<rparr>)" using s'(2) by simp
      ultimately show ?thesis using fin [of s' "e\<lparr>bIsRunning := False\<rparr>" "?b\<lparr>xID := i\<rparr>"] s'(3) by simp
    next
      case False
      let ?b = "be\<lparr>ulTimestamp := ulTimestamp be + tm_left s\<rparr>"
      let ?s = "s\<lparr>pTimerListHead := b, tmEvents := (tmEvents s)(p \<mapsto> e, b \<mapsto> ?b)\<rparr>"
      have "(tmEvents s)(p \<mapsto> e) = tmEvents s" using e(1) by (rule map_upd_triv)
      then have "FTE_TIMER_stop E p s = Some ?s" using False e be
        by (simp add: FTE_TIMER_stop_def upd_event_def tm_left_def)
      then show ?thesis using fin [of ?s e ?b] by simp
    qed
  qed
qed

text \<open>Stopping an event that waits takes it out of the list and leaves every other event due when it was,
  counted from what the code takes for the time left of the head; when the head itself is
  stopped the new head has its full time to go.\<close>

lemma FTE_TIMER_stop_keeps:
  assumes "tm_list s xs" "p \<in> set xs" "due_ok (dues (tmEvents s) (unat (tm_left s)) xs)"
  shows "\<exists>s'. FTE_TIMER_stop E p s = Some s' \<and> tm_list s' (remove1 p xs)
    \<and> dues (tmEvents s') (if hd xs = p then ts (tmEvents s') (hd (remove1 p xs)) else unat (tm_left s)) (remove1 p xs)
      = filter (\<lambda>x. fst x \<noteq> p) (dues (tmEvents s) (unat (tm_left s)) xs)"
proof -
  obtain a as where xs: "xs = a # as" using assms(2) by (cases xs) auto
  have dist: "distinct (a # as)" using assms(1) xs by (simp add: tm_list_def)
  show ?thesis
  proof (cases "a = p")
    case True
    then show ?thesis using stop_head [OF assms(1,3) [unfolded xs True], of E] dist xs by simp
  next
    case False
    obtain ae where ae: "tmEvents s a = Some ae" "chain (nx (tmEvents s)) (Next ae) as" "pTimerListHead s = a" "a \<noteq> NULL"
      using assms(1) xs by (auto simp: tm_list_def elim: nx_SomeE)
    have mem: "p \<in> set as" using assms(2) xs False by simp
    have "p \<noteq> NULL" using chain_no_null [OF ae(2)] mem by auto
    obtain e where e: "tmEvents s p = Some e"
    proof -
      obtain us vs where "as = us @ p # vs" using mem by (auto simp: in_set_conv_decomp)
      moreover have "chain f x (us @ p # vs) \<Longrightarrow> f p \<noteq> None" for f x by (induction us arbitrary: x) auto
      ultimately show thesis using ae(2) that by (fastforce simp: nx_def)
    qed
    have "due_ok (due_after (tmEvents s) (unat (tm_left s)) as)" using assms(3) xs by simp
    from stop_loop [OF ae(1,2) dist mem refl this ts_some [of "tmEvents s", OF e, symmetric]]
    obtain ev' y where r: "tm_stop_loop p (ulTimestamp e) a (Next ae) s = Some (s\<lparr>tmEvents := ev'\<rparr>)" "ev' a = Some (ae\<lparr>Next := y\<rparr>)"
      "chain (nx ev') y (remove1 p as)"
      "due_after ev' (unat (tm_left s)) (remove1 p as) = filter (\<lambda>x. fst x \<noteq> p) (due_after (tmEvents s) (unat (tm_left s)) as)"
      by blast
    have "FTE_TIMER_stop E p s = Some (s\<lparr>tmEvents := ev'\<rparr>)"
      using r(1) ae e False \<open>p \<noteq> NULL\<close> by (simp add: FTE_TIMER_stop_def tm_stop_loop.simps [of p _ a a])
    moreover have "tm_list (s\<lparr>tmEvents := ev'\<rparr>) (a # remove1 p as)"
      using r(2,3) ae dist by (auto simp: tm_list_def nx_some dest: notin_set_remove1)
    ultimately show ?thesis using r(4) xs False by simp
  qed
qed

section \<open>The ticks asked of MQX\<close>

text \<open>The product is one of 32-bit words: the head gets its time exactly when that does not wrap, which
  with 200 ticks a second is up to 21 seconds.\<close>

lemma wrapped_ticks: "(m mod 2 ^ 32) div 1000000 = m div 1000000 \<longleftrightarrow> m < 2 ^ 32" for m :: nat
proof (cases "m < 2 ^ 32")
  case False
  then have "m mod 2 ^ 32 = (m - 2 ^ 32) mod 2 ^ 32" by (intro le_mod_geq) simp
  then have "m mod 2 ^ 32 + 1000000 \<le> m" using False mod_less_eq_dividend [of "m - 2 ^ 32" "2 ^ 32"] by simp
  then have "(m mod 2 ^ 32 + 1000000) div 1000000 \<le> m div 1000000" by (rule div_le_mono)
  then have "(m mod 2 ^ 32) div 1000000 < m div 1000000" by simp
  with False show ?thesis by simp
qed simp

lemma FTE_TIMER_setTimeout_ticks:
  assumes "tmEvents s p = Some e" "tmIDs s = i # is" "i \<noteq> 0"
  shows "\<exists>s' t. FTE_TIMER_setTimeout E p s = Some s' \<and> tmRunning s' = (i, HandlerAfter t) # tmRunning s
    \<and> (unat t = unat (ticksPerSec E) * unat (ulTimestamp e) div 1000000 \<longleftrightarrow> unat (ticksPerSec E) * unat (ulTimestamp e) < 2 ^ 32)"
proof -
  let ?n = "unat (ticksPerSec E) * unat (ulTimestamp e)"
  have "unat (ticksPerSec E * ulTimestamp e) = ?n mod 2 ^ 32" by (simp add: unat_word_ariths)
  then have t: "unat (ticksPerSec E * ulTimestamp e div 1000000) = (?n mod 2 ^ 32) div 1000000" by (simp add: unat_div)
  have "(m mod 2 ^ 32) div 1000000 = m div 1000000 \<longleftrightarrow> m < 2 ^ 32" for m :: nat by (rule wrapped_ticks)
  with t have "unat (ticksPerSec E * ulTimestamp e div 1000000) = ?n div 1000000 \<longleftrightarrow> ?n < 2 ^ 32" by metis
  then show ?thesis using assms by (simp add: FTE_TIMER_setTimeout_def mqx_start_def upd_event_def)
qed

section \<open>Expired events\<close>

text \<open>The events whose time is over: the head when at least its time has passed, with those right behind it
  that have no time after it.\<close>

fun tm_expired :: "'z tm_sys_scheme \<Rightarrow> addr list \<Rightarrow> addr list" where
  "tm_expired s [] = []"
| "tm_expired s (a # as) = (if ts (tmEvents s) a \<le> unat (FTE_TIMER_getValue s) then a # takeWhile (\<lambda>b. ts (tmEvents s) b = 0) as else [])"

text \<open>\<open>g\<close> is what the callbacks do to what is not the timers'.\<close>

definition fired :: "(nat \<Rightarrow> 'z \<Rightarrow> 'z) \<Rightarrow> (addr \<rightharpoonup> tm_event) \<Rightarrow> addr \<Rightarrow> 'z \<Rightarrow> 'z" where
  "fired g ev a = (case ev a of None \<Rightarrow> id | Some e \<Rightarrow> (case fCallback e of None \<Rightarrow> id | Some f \<Rightarrow> g f))"

lemma drop_expired_chain:
  assumes "chain (nx (tmEvents s)) (pTimerListHead s) (us @ vs)" "\<forall>a\<in>set us. ts (tmEvents s) a = 0" "vs \<noteq> [] \<longrightarrow> ts (tmEvents s) (hd vs) \<noteq> 0"
  shows "tm_drop_expired s = Some (s\<lparr>pTimerListHead := if vs = [] then NULL else hd vs\<rparr>)"
  using assms
proof (induction us arbitrary: s)
  case Nil
  then show ?case by (cases vs) (subst tm_drop_expired.simps, auto simp: ts_some unat_eq_zero elim!: nx_SomeE)+
next
  case (Cons a us)
  obtain e where e: "tmEvents s a = Some e" "chain (nx (tmEvents s)) (Next e) (us @ vs)" "pTimerListHead s = a" "a \<noteq> NULL"
    using Cons.prems(1) by (auto elim: nx_SomeE)
  have "ulTimestamp e = 0" using Cons.prems(2) e(1) by (simp add: ts_some unat_eq_zero)
  moreover have "tm_drop_expired (s\<lparr>pTimerListHead := Next e\<rparr>) = Some (s\<lparr>pTimerListHead := if vs = [] then NULL else hd vs\<rparr>)"
    using Cons.IH [of "s\<lparr>pTimerListHead := Next e\<rparr>"] Cons.prems(2,3) e(2) by simp
  ultimately show ?case using e by (subst tm_drop_expired.simps) simp
qed

lemma run_expired_chain:
  fixes s :: "'z tm_sys_scheme"
  assumes "\<And>f t. tmCall E f t = Some (tm_sys.more_update (g f) t)"
    "chain (nx (tmEvents s)) p (us @ vs)" "\<forall>a\<in>set us. ts (tmEvents s) a = 0" "vs \<noteq> [] \<longrightarrow> ts (tmEvents s) (hd vs) \<noteq> 0"
  shows "tm_run_expired E p s = Some (tm_sys.more_update (fold (fired g (tmEvents s)) us) s)"
  using assms(2-)
proof (induction us arbitrary: p s)
  case Nil
  then show ?case by (cases vs) (subst tm_run_expired.simps, auto simp: ts_some unat_eq_zero elim!: nx_SomeE)+
next
  case (Cons a us)
  obtain e where e: "tmEvents s a = Some e" "chain (nx (tmEvents s)) (Next e) (us @ vs)" "p = a" "a \<noteq> NULL"
    using Cons.prems(1) by (auto elim: nx_SomeE)
  let ?s = "tm_sys.more_update (fired g (tmEvents s) a) s"
  have call: "(case fCallback e of None \<Rightarrow> Some s | Some f \<Rightarrow> tmCall E f s) = Some ?s"
    using e(1) assms(1) by (simp add: fired_def split: option.split)
  have "tm_run_expired E (Next e) ?s = Some (tm_sys.more_update (fold (fired g (tmEvents s)) us) ?s)"
    using Cons.IH [of ?s "Next e"] Cons.prems(2,3) e(2) by simp
  moreover have "ulTimestamp e = 0" using Cons.prems(2) e(1) by (simp add: ts_some unat_eq_zero)
  ultimately show ?case using e call by (subst tm_run_expired.simps) (simp add: comp_def)
qed

lemma chain_drop: "chain f x (us @ vs) \<Longrightarrow> chain f (if vs = [] then NULL else hd vs) vs"
  by (induction us arbitrary: x) (cases vs, auto)

lemma dues_upd: "a \<notin> set (tl vs) \<Longrightarrow> dues (ev(a \<mapsto> e)) n vs = dues ev n vs"
  by (cases vs) auto

lemma restart_ok:
  fixes s :: "'z tm_sys_scheme"
  assumes "tm_list s vs"
  shows "\<exists>s'. tm_restart E s = Some s' \<and> tm_list s' vs \<and> tm_sys.more s' = tm_sys.more s \<and> dues (tmEvents s') n vs = dues (tmEvents s) n vs"
proof (cases vs)
  case Nil
  then show ?thesis using assms by (simp add: tm_list_def tm_restart_def)
next
  case (Cons a as)
  obtain e where e: "tmEvents s a = Some e" "chain (nx (tmEvents s)) (Next e) as" "pTimerListHead s = a" "a \<noteq> NULL" "a \<notin> set as" "distinct as"
    using assms Cons by (auto simp: tm_list_def elim: nx_SomeE)
  let ?s = "s\<lparr>tmEvents := (tmEvents s)(a \<mapsto> e\<lparr>bIsRunning := True\<rparr>)\<rparr>"
  obtain i s' where s': "FTE_TIMER_setTimeout E a ?s = Some s'" "tmEvents s' = (tmEvents ?s)(a \<mapsto> e\<lparr>bIsRunning := True, xID := i\<rparr>)"
    "pTimerListHead s' = a" "tm_sys.more s' = tm_sys.more s"
    using setTimeout_ok [of ?s a "e\<lparr>bIsRunning := True\<rparr>" E] e(3) by auto
  moreover have "tm_list s' vs" using s'(2,3) e Cons by (simp add: tm_list_def)
  moreover have "dues (tmEvents s') n vs = dues (tmEvents s) n vs" using s'(2) e Cons by simp
  ultimately show ?thesis using e by (simp add: tm_restart_def upd_event_def)
qed

lemma expired_split:
  assumes "tm_list s (a # as)" "tmEvents s a = Some ae"
  defines "ev \<equiv> (tmEvents s)(a \<mapsto> ae\<lparr>ulTimestamp := if FTE_TIMER_getValue s > ulTimestamp ae then 0 else ulTimestamp ae - FTE_TIMER_getValue s\<rparr>)"
    and "us \<equiv> tm_expired s (a # as)"
  defines "vs \<equiv> drop (length us) (a # as)"
  shows "a # as = us @ vs" "\<forall>b\<in>set us. ts ev b = 0" "vs \<noteq> [] \<longrightarrow> ts ev (hd vs) \<noteq> 0"
proof -
  have dist: "a \<notin> set as" using assms(1) by (simp add: tm_list_def)
  have same: "ts ev b = ts (tmEvents s) b" if "b \<in> set as" for b using that dist by (auto simp: ev_def)
  have all: "a # as = us @ vs \<and> (\<forall>b\<in>set us. ts ev b = 0) \<and> (vs \<noteq> [] \<longrightarrow> ts ev (hd vs) \<noteq> 0)"
  proof (cases "ts (tmEvents s) a \<le> unat (FTE_TIMER_getValue s)")
    case True
    have us: "us = a # takeWhile (\<lambda>b. ts (tmEvents s) b = 0) as" using True by (simp add: us_def)
    then have vs: "vs = dropWhile (\<lambda>b. ts (tmEvents s) b = 0) as" by (simp add: vs_def dropWhile_eq_drop)
    have "ts ev a = 0" using True assms(2) by (auto simp: ev_def ts_some word_le_nat_alt word_less_nat_alt not_less unat_minus_ok)
    then have "\<forall>b\<in>set us. ts ev b = 0" unfolding us by (auto simp: same dest: set_takeWhileD)
    moreover have "ts ev (hd vs) \<noteq> 0" if "vs \<noteq> []"
    proof -
      have "hd vs \<in> set vs" using that by simp
      then have "hd vs \<in> set as" unfolding vs by (rule set_dropWhileD)
      moreover have "ts (tmEvents s) (hd vs) \<noteq> 0" using hd_dropWhile [of "\<lambda>b. ts (tmEvents s) b = 0" as] that unfolding vs by simp
      ultimately show ?thesis by (simp add: same)
    qed
    moreover have "a # as = us @ vs" by (simp add: us vs)
    ultimately show ?thesis by blast
  next
    case False
    then have "us = []" "vs = a # as" by (simp_all add: us_def vs_def)
    moreover have "unat (FTE_TIMER_getValue s) < unat (ulTimestamp ae)" using False assms(2) by (simp add: ts_some)
    then have "ts ev a \<noteq> 0" by (simp add: ev_def word_less_nat_alt unat_minus_ok)
    ultimately show ?thesis by simp
  qed
  then show "a # as = us @ vs" "\<forall>b\<in>set us. ts ev b = 0" "vs \<noteq> [] \<longrightarrow> ts ev (hd vs) \<noteq> 0" by blast+
qed


text \<open>An event whose callback starts it again is at the end of the list by then: the handler follows its
  \<^verbatim>\<open>Next\<close> and never comes to the events that expired with it.  They are in no list any more, and
  their callbacks are not called: the result does not depend on them.\<close>

lemma FTE_TIMER_handler_drops:
  assumes "tm_list s [a, b]" "tmEvents s a = Some ae" "tmEvents s b = Some be" "ulTimestamp ae \<le> FTE_TIMER_getValue s" "ulTimestamp be = 0"
    "fCallback ae = Some f" "tmCall E f = FTE_TIMER_start E a" "fCallback be = Some g" "g \<noteq> f"
  shows "\<exists>s'. tm_list s' [a] \<and> (\<forall>c. FTE_TIMER_handler (E\<lparr>tmCall := (tmCall E)(g := c)\<rparr>) s = Some s')"
proof -
  have h: "pTimerListHead s = a" "a \<noteq> NULL" "Next ae = b" "b \<noteq> NULL" "Next be = NULL" "a \<noteq> b" "b \<noteq> a"
    using assms(1,2,3) by (auto simp: tm_list_def nx_some)
  let ?ae = "ae\<lparr>ulTimestamp := 0\<rparr>"
  let ?s1 = "s\<lparr>tmEvents := (tmEvents s)(a \<mapsto> ?ae)\<rparr>"
  let ?s2 = "?s1\<lparr>pTimerListHead := NULL\<rparr>"
  have "(tm_drop_expired (?s1\<lparr>pTimerListHead := b\<rparr>)) = Some ?s2"
    using assms(3,5) h by (subst tm_drop_expired.simps) (simp add: tm_drop_expired.simps [of "_\<lparr>pTimerListHead := NULL\<rparr>"])
  then have drop: "tm_drop_expired ?s1 = Some ?s2" using h by (subst tm_drop_expired.simps) simp
  let ?e = "?ae\<lparr>ulTimestamp := ulReloadValue ae, Next := NULL, bIsRunning := True\<rparr>"
  let ?s3 = "s\<lparr>tmEvents := (tmEvents s)(a \<mapsto> ?e), pTimerListHead := a\<rparr>"
  obtain i s4 where s4: "FTE_TIMER_setTimeout E a ?s3 = Some s4" "tmEvents s4 = (tmEvents s)(a \<mapsto> ?e\<lparr>xID := i\<rparr>)" "pTimerListHead s4 = a"
    using setTimeout_ok [of ?s3 a ?e E] by auto
  have start: "FTE_TIMER_start E a ?s2 = Some s4"
    using s4(1) h by (simp add: FTE_TIMER_start_def FTE_TIMER_exists_def tm_exists.simps FTE_TIMER_insertNewHeadTimer_def upd_event_def)
  let ?s5 = "s4\<lparr>tmEvents := (tmEvents s4)(a \<mapsto> ?e\<lparr>xID := i, bIsRunning := True\<rparr>)\<rparr>"
  obtain j s6 where s6: "FTE_TIMER_setTimeout E a ?s5 = Some s6" "tmEvents s6 = (tmEvents ?s5)(a \<mapsto> ?e\<lparr>xID := i, bIsRunning := True, xID := j\<rparr>)" "pTimerListHead s6 = a"
    using setTimeout_ok [of ?s5 a "?e\<lparr>xID := i, bIsRunning := True\<rparr>" E] s4(3) by auto
  have "FTE_TIMER_handler (E\<lparr>tmCall := (tmCall E)(g := c)\<rparr>) s = Some s6" for c
  proof -
    let ?E = "E\<lparr>tmCall := (tmCall E)(g := c)\<rparr>"
    have timeout: "FTE_TIMER_setTimeout ?E = FTE_TIMER_setTimeout E" by (intro ext) (simp add: FTE_TIMER_setTimeout_def)
    have restart: "tm_restart ?E s4 = Some s6" using s4(2,3) s6(1) h(2) timeout by (simp add: tm_restart_def upd_event_def)
    have "tm_run_expired ?E a ?s2 = tm_run_expired ?E NULL s4"
      using h start s4(2) assms(6,7,9) by (subst tm_run_expired.simps) simp
    also have "\<dots> = Some s4" by (subst tm_run_expired.simps) simp
    finally show ?thesis using assms(2,4) h drop restart
      by (simp add: FTE_TIMER_handler_def upd_event_def Let_def)
  qed
  moreover have "tm_list s6 [a]" using s6(2,3) h by (simp add: tm_list_def)
  ultimately show ?thesis by blast
qed

section \<open>Three events\<close>

text \<open>The events at 16 and 32 run; the one at 48 is to be started with 3 ms.  The callbacks note their number.\<close>

definition tm_demo_event :: "u32 \<Rightarrow> u32 \<Rightarrow> bool \<Rightarrow> nat \<Rightarrow> addr \<Rightarrow> tm_event" where
  "tm_demo_event t r run f n = \<lparr>ulTimestamp = t, ulReloadValue = r, bIsRunning = run, fCallback = Some f, Next = n, xID = 0\<rparr>"

definition tm_demo :: "u32 \<Rightarrow> nat list tm_sys_scheme" where
  "tm_demo up = \<lparr>tmEvents = [16 \<mapsto> tm_demo_event 2000 2000 True 1 32, 32 \<mapsto> tm_demo_event 3000 5000 False 2 0, 48 \<mapsto> tm_demo_event 0 3000 False 3 0],
     pTimerListHead = 16, tmRunning = [(1, HandlerAfter 0)], tmIDs = [2, 3], tmElapsed = \<lparr>SECONDS = 0, MILLISECONDS = up\<rparr>,
     tmClock = \<lparr>SECONDS = 0, MILLISECONDS = 0\<rparr>, \<dots> = []\<rparr>"

text \<open>All three wait; the second is due with the first.\<close>

definition tm_demo_due :: "nat list tm_sys_scheme" where
  "tm_demo_due = (tm_demo 60000)\<lparr>tmEvents := [16 \<mapsto> tm_demo_event 2000 2000 True 1 32, 32 \<mapsto> tm_demo_event 0 2000 False 2 48,
     48 \<mapsto> tm_demo_event 1000 3000 False 3 0]\<rparr>"

definition tm_demo_env :: "nat list tm_env" where
  "tm_demo_env = \<lparr>ticksPerSec = 200, tmCall = (\<lambda>f t. Some (tm_sys.more_update ((#) f) t)), cancelError = 0xFF\<rparr>"

lemma tm_demo_list: "tm_list (tm_demo up) [16, 32]" "tm_list tm_demo_due [16, 32, 48]"
  by (simp_all add: tm_list_def tm_demo_def tm_demo_due_def tm_demo_event_def nx_def)

lemma tm_demo_events:
  "tmEvents (tm_demo up) 48 = Some (tm_demo_event 0 3000 False 3 0)" "tmEvents (tm_demo up) 16 = Some (tm_demo_event 2000 2000 True 1 32)"
  by (simp_all add: tm_demo_def)

lemma tm_demo_values: "FTE_TIMER_getValue (tm_demo 60000) = 60000000" "ts (tmEvents (tm_demo up)) 32 = 3000" "tm_left (tm_demo 1) = 1000"
  "tm_left (tm_demo 0) = 2000" "dues (tmEvents (tm_demo up)) n [16, 32] = [(16, n), (32, n + 3000)]"
  subgoal by (simp add: tm_demo_def FTE_TIMER_getValue_def)
  subgoal by (simp add: tm_demo_def tm_demo_event_def ts_def)
  subgoal by (simp add: tm_left_def tm_demo_def tm_demo_event_def tm_remaining_def FTE_TIMER_getValue_def)
  subgoal by (simp add: tm_left_def tm_demo_def tm_demo_event_def tm_remaining_def FTE_TIMER_getValue_def)
  subgoal by (simp add: tm_demo_def tm_demo_event_def ts_def)
  done


theorem FTE_TIMER_start_late_witness:
  "\<exists>s' ys. FTE_TIMER_start tm_demo_env 48 (tm_demo 60000) = Some s' \<and> tm_list s' (16 # ys)
    \<and> (48, 5000) \<in> set (dues (tmEvents s') 2000 (16 # ys))"
proof -
  obtain s' ys where r: "FTE_TIMER_start tm_demo_env 48 (tm_demo 60000) = Some s'" "tm_list s' (16 # ys)"
    "\<forall>h. (48, h + unat (ulReloadValue (tm_demo_event 0 3000 False 3 0))) \<in> set (dues (tmEvents s') h (16 # ys))"
    using FTE_TIMER_start_late [OF tm_demo_list(1) _ _ tm_demo_events(1) tm_demo_events(2), of 60000 tm_demo_env]
    by (auto simp: tm_demo_values due_ok_def tm_demo_event_def)
  from r(3) [rule_format, of 2000] r(1,2) show ?thesis by (auto simp: tm_demo_event_def)
qed

lemma FTE_TIMER_stop_keeps_witness:
  "\<exists>s'. FTE_TIMER_stop tm_demo_env 32 (tm_demo 0) = Some s' \<and> tm_list s' [16] \<and> dues (tmEvents s') 2000 [16] = [(16, 2000)]"
  using FTE_TIMER_stop_keeps [OF tm_demo_list(1), of 32 0 tm_demo_env]
  by (simp add: tm_demo_values due_ok_def)


end
