(* ===== verification/FTE_Md5.thy ===== *)
theory FTE_Md5
  imports FTE_Prelude
begin

unbundle bit_operations_syntax

text \<open>
  The digest of \<^verbatim>\<open>target/source/fte_md5.c\<close>, and its proof against the algorithm as RFC 1321
  states it: a message that comes in pieces of any size has the digest of the padded whole.
\<close>

section \<open>The code\<close>

record md5_ctx =
  md5_i0 :: u32
  md5_i1 :: u32
  pScratchBuf :: "u32 list"
  pInBuf :: "u8 list"
  pDigest :: "u8 list"

type_synonym md5_regs = "u32 \<times> u32 \<times> u32 \<times> u32"

definition PADDING :: "u8 list" where "PADDING = 0x80 # replicate 63 0"

definition md5_F :: "u32 \<Rightarrow> u32 \<Rightarrow> u32 \<Rightarrow> u32" where "md5_F x y z = (x AND y) OR (NOT x AND z)"
definition md5_G :: "u32 \<Rightarrow> u32 \<Rightarrow> u32 \<Rightarrow> u32" where "md5_G x y z = (x AND z) OR (y AND NOT z)"
definition md5_H :: "u32 \<Rightarrow> u32 \<Rightarrow> u32 \<Rightarrow> u32" where "md5_H x y z = x XOR y XOR z"
definition md5_I :: "u32 \<Rightarrow> u32 \<Rightarrow> u32 \<Rightarrow> u32" where "md5_I x y z = y XOR (x OR NOT z)"

definition ROTATE_LEFT :: "u32 \<Rightarrow> nat \<Rightarrow> u32" where "ROTATE_LEFT x n = push_bit n x OR drop_bit (32 - n) x"

text \<open>The macros \<^verbatim>\<open>FF\<close>, \<^verbatim>\<open>GG\<close>, \<^verbatim>\<open>HH\<close> and \<^verbatim>\<open>II\<close>: the new value of the first register.\<close>

definition md5_op :: "(u32 \<Rightarrow> u32 \<Rightarrow> u32 \<Rightarrow> u32) \<Rightarrow> u32 \<Rightarrow> u32 \<Rightarrow> u32 \<Rightarrow> u32 \<Rightarrow> u32 \<Rightarrow> nat \<Rightarrow> u32 \<Rightarrow> u32" where
  "md5_op f a b c d x s ac = ROTATE_LEFT (a + (f b c d + x + ac)) s + b"

text \<open>Four lines of \<^verbatim>\<open>FTE_MD5_transform\<close>: each register in turn, with its word and constant.\<close>

definition md5_quad :: "(u32 \<Rightarrow> u32 \<Rightarrow> u32 \<Rightarrow> u32) \<Rightarrow> nat \<Rightarrow> nat \<Rightarrow> nat \<Rightarrow> nat \<Rightarrow> u32 list
    \<Rightarrow> nat \<times> u32 \<Rightarrow> nat \<times> u32 \<Rightarrow> nat \<times> u32 \<Rightarrow> nat \<times> u32 \<Rightarrow> md5_regs \<Rightarrow> md5_regs" where
  "md5_quad f s1 s2 s3 s4 inw l1 l2 l3 l4 r = (case r of (a, b, c, d) \<Rightarrow>
     let a = md5_op f a b c d (inw ! fst l1) s1 (snd l1);
         d = md5_op f d a b c (inw ! fst l2) s2 (snd l2);
         c = md5_op f c d a b (inw ! fst l3) s3 (snd l3);
         b = md5_op f b c d a (inw ! fst l4) s4 (snd l4)
     in (a, b, c, d))"

definition md5_round1 :: "u32 list \<Rightarrow> md5_regs \<Rightarrow> md5_regs" where
  "md5_round1 inw r = (
     let r = md5_quad md5_F 7 12 17 22 inw (0, 3614090360) (1, 3905402710) (2, 606105819) (3, 3250441966) r in
     let r = md5_quad md5_F 7 12 17 22 inw (4, 4118548399) (5, 1200080426) (6, 2821735955) (7, 4249261313) r in
     let r = md5_quad md5_F 7 12 17 22 inw (8, 1770035416) (9, 2336552879) (10, 4294925233) (11, 2304563134) r in
     let r = md5_quad md5_F 7 12 17 22 inw (12, 1804603682) (13, 4254626195) (14, 2792965006) (15, 1236535329) r in
     r)"

definition md5_round2 :: "u32 list \<Rightarrow> md5_regs \<Rightarrow> md5_regs" where
  "md5_round2 inw r = (
     let r = md5_quad md5_G 5 9 14 20 inw (1, 4129170786) (6, 3225465664) (11, 643717713) (0, 3921069994) r in
     let r = md5_quad md5_G 5 9 14 20 inw (5, 3593408605) (10, 38016083) (15, 3634488961) (4, 3889429448) r in
     let r = md5_quad md5_G 5 9 14 20 inw (9, 568446438) (14, 3275163606) (3, 4107603335) (8, 1163531501) r in
     let r = md5_quad md5_G 5 9 14 20 inw (13, 2850285829) (2, 4243563512) (7, 1735328473) (12, 2368359562) r in
     r)"

definition md5_round3 :: "u32 list \<Rightarrow> md5_regs \<Rightarrow> md5_regs" where
  "md5_round3 inw r = (
     let r = md5_quad md5_H 4 11 16 23 inw (5, 4294588738) (8, 2272392833) (11, 1839030562) (14, 4259657740) r in
     let r = md5_quad md5_H 4 11 16 23 inw (1, 2763975236) (4, 1272893353) (7, 4139469664) (10, 3200236656) r in
     let r = md5_quad md5_H 4 11 16 23 inw (13, 681279174) (0, 3936430074) (3, 3572445317) (6, 76029189) r in
     let r = md5_quad md5_H 4 11 16 23 inw (9, 3654602809) (12, 3873151461) (15, 530742520) (2, 3299628645) r in
     r)"

definition md5_round4 :: "u32 list \<Rightarrow> md5_regs \<Rightarrow> md5_regs" where
  "md5_round4 inw r = (
     let r = md5_quad md5_I 6 10 15 21 inw (0, 4096336452) (7, 1126891415) (14, 2878612391) (5, 4237533241) r in
     let r = md5_quad md5_I 6 10 15 21 inw (12, 1700485571) (3, 2399980690) (10, 4293915773) (1, 2240044497) r in
     let r = md5_quad md5_I 6 10 15 21 inw (8, 1873313359) (15, 4264355552) (6, 2734768916) (13, 1309151649) r in
     let r = md5_quad md5_I 6 10 15 21 inw (4, 4149444226) (11, 3174756917) (2, 718787259) (9, 3951481745) r in
     r)"

definition FTE_MD5_transform :: "u32 list \<Rightarrow> u32 list \<Rightarrow> u32 list" where
  "FTE_MD5_transform pBuf inw =
     (let (a, b, c, d) = md5_round4 inw (md5_round3 inw (md5_round2 inw (md5_round1 inw (pBuf ! 0, pBuf ! 1, pBuf ! 2, pBuf ! 3))))
      in [pBuf ! 0 + a, pBuf ! 1 + b, pBuf ! 2 + c, pBuf ! 3 + d])"

definition FTE_MD5_init :: "md5_ctx \<Rightarrow> md5_ctx" where
  "FTE_MD5_init c = c\<lparr>md5_i0 := 0, md5_i1 := 0, pScratchBuf := [0x67452301, 0xEFCDAB89, 0x98BADCFE, 0x10325476]\<rparr>"

text \<open>The word at \<open>4 * i\<close> of the buffer, low byte first.\<close>

definition md5_word :: "u8 list \<Rightarrow> nat \<Rightarrow> u32" where
  "md5_word buf i = push_bit 24 (ucast (buf ! (4 * i + 3))) OR push_bit 16 (ucast (buf ! (4 * i + 2)))
     OR push_bit 8 (ucast (buf ! (4 * i + 1))) OR ucast (buf ! (4 * i))"

text \<open>A turn of the loop over the data.\<close>

definition md5_put :: "u8 \<Rightarrow> nat \<times> md5_ctx \<Rightarrow> nat \<times> md5_ctx" where
  "md5_put b x = (case x of (mdi, c) \<Rightarrow>
     let c = c\<lparr>pInBuf := (pInBuf c)[mdi := b]\<rparr>; mdi = mdi + 1
     in if mdi = 0x40
        then (0, c\<lparr>pScratchBuf := FTE_MD5_transform (pScratchBuf c) (map (md5_word (pInBuf c)) [0..<16])\<rparr>)
        else (mdi, c))"

definition FTE_MD5_update :: "md5_ctx \<Rightarrow> u8 list \<Rightarrow> md5_ctx" where
  "FTE_MD5_update c pData =
     (let nDataLen = of_nat (length pData) :: u32;
          mdi = unat (drop_bit 3 (md5_i0 c) AND 0x3F);
          c = (if md5_i0 c + push_bit 3 nDataLen < md5_i0 c then c\<lparr>md5_i1 := md5_i1 c + 1\<rparr> else c);
          c = c\<lparr>md5_i0 := md5_i0 c + push_bit 3 nDataLen, md5_i1 := md5_i1 c + drop_bit 29 nDataLen\<rparr>
      in snd (fold md5_put pData (mdi, c)))"

definition md5_bytes :: "u32 \<Rightarrow> u8 list" where
  "md5_bytes w = [ucast (w AND 0xFF), ucast (drop_bit 8 w AND 0xFF), ucast (drop_bit 16 w AND 0xFF), ucast (drop_bit 24 w AND 0xFF)]"

definition FTE_MD5_final :: "md5_ctx \<Rightarrow> md5_ctx" where
  "FTE_MD5_final c =
     (let in14 = md5_i0 c; in15 = md5_i1 c;
          mdi = unat (drop_bit 3 (md5_i0 c) AND 0x3F);
          padLen = (if mdi < 56 then 56 - mdi else 120 - mdi);
          c = FTE_MD5_update c (take padLen PADDING);
          c = c\<lparr>pScratchBuf := FTE_MD5_transform (pScratchBuf c) (map (md5_word (pInBuf c)) [0..<14] @ [in14, in15])\<rparr>
      in c\<lparr>pDigest := concat (map md5_bytes (pScratchBuf c))\<rparr>)"

text \<open>\<open>c\<close> is what is on the stack.\<close>

definition FTE_MD5_calc :: "md5_ctx \<Rightarrow> u8 list \<Rightarrow> u8 list" where
  "FTE_MD5_calc c pData = take 16 (pDigest (FTE_MD5_final (FTE_MD5_update (FTE_MD5_init c) pData)))"

section \<open>RFC 1321\<close>

text \<open>The 64 steps as one loop: the table of sines, the shifts, and the word that each step takes.\<close>

definition rfc_T :: "u32 list" where
  "rfc_T = [3614090360, 3905402710, 606105819, 3250441966, 4118548399, 1200080426, 2821735955, 4249261313,
     1770035416, 2336552879, 4294925233, 2304563134, 1804603682, 4254626195, 2792965006, 1236535329,
     4129170786, 3225465664, 643717713, 3921069994, 3593408605, 38016083, 3634488961, 3889429448,
     568446438, 3275163606, 4107603335, 1163531501, 2850285829, 4243563512, 1735328473, 2368359562,
     4294588738, 2272392833, 1839030562, 4259657740, 2763975236, 1272893353, 4139469664, 3200236656,
     681279174, 3936430074, 3572445317, 76029189, 3654602809, 3873151461, 530742520, 3299628645,
     4096336452, 1126891415, 2878612391, 4237533241, 1700485571, 2399980690, 4293915773, 2240044497,
     1873313359, 4264355552, 2734768916, 1309151649, 4149444226, 3174756917, 718787259, 3951481745]"

definition rfc_step :: "u32 list \<Rightarrow> nat \<Rightarrow> md5_regs \<Rightarrow> md5_regs" where
  "rfc_step x i r = (case r of (a, b, c, d) \<Rightarrow>
     let (f, k) = (if i < 16 then ((b AND c) OR (NOT b AND d), i)
           else if i < 32 then ((b AND d) OR (c AND NOT d), (5 * i + 1) mod 16)
           else if i < 48 then (b XOR c XOR d, (3 * i + 5) mod 16)
           else (c XOR (b OR NOT d), 7 * i mod 16));
         s = [[7, 12, 17, 22], [5, 9, 14, 20], [4, 11, 16, 23], [6, 10, 15, 21]] ! (i div 16) ! (i mod 4)
     in (d, b + word_rotl s (a + f + x ! k + rfc_T ! i), b, c))"

definition rfc_compress :: "u32 list \<Rightarrow> u8 list \<Rightarrow> u32 list" where
  "rfc_compress h block = (let (a, b, c, d) = fold (rfc_step (map (md5_word block) [0..<16])) [0..<64] (h ! 0, h ! 1, h ! 2, h ! 3)
     in [h ! 0 + a, h ! 1 + b, h ! 2 + c, h ! 3 + d])"

text \<open>The blocks of 64 bytes; what is left over of a message is \<open>rfc_rest\<close>.\<close>

function rfc_blocks :: "u32 list \<Rightarrow> u8 list \<Rightarrow> u32 list" where
  "rfc_blocks h m = (if length m < 64 then h else rfc_blocks (rfc_compress h (take 64 m)) (drop 64 m))"
  by auto
termination by (relation "measure (\<lambda>(h, m). length m)") auto

function rfc_rest :: "u8 list \<Rightarrow> u8 list" where
  "rfc_rest m = (if length m < 64 then m else rfc_rest (drop 64 m))"
  by auto
termination by (relation "measure length") auto

text \<open>A one and zeros up to 56 modulo 64 bytes, and the number of bits modulo \<open>2 ^ 64\<close>, low byte first.\<close>

definition rfc_pad :: "u8 list \<Rightarrow> u8 list" where
  "rfc_pad m = m @ 0x80 # replicate ((119 - length m mod 64) mod 64) 0
     @ map (\<lambda>k. ucast (drop_bit (8 * k) (of_nat (8 * length m) :: u64))) [0..<8]"

definition rfc_md5 :: "u8 list \<Rightarrow> u8 list" where
  "rfc_md5 m = concat (map md5_bytes (rfc_blocks [0x67452301, 0xEFCDAB89, 0x98BADCFE, 0x10325476] (rfc_pad m)))"

section \<open>The rounds\<close>

lemma ROTATE_LEFT_rotl:
  assumes "0 < n" "n < 32"
  shows "ROTATE_LEFT x n = word_rotl n x"
proof (rule bit_word_eqI)
  fix k assume k: "k < LENGTH(32)"
  show "bit (ROTATE_LEFT x n) k = bit (word_rotl n x) k"
  proof (cases "n \<le> k")
    case True
    then have "(k + (32 - n mod 32)) mod 32 = k - n" using assms k by (simp add: mod_if)
    moreover have "\<not> bit x (32 - n + k)" using True assms(2) by (auto dest: bit_imp_le_length)
    ultimately show ?thesis using True assms k by (simp add: ROTATE_LEFT_def bit_or_iff bit_push_bit_iff bit_drop_bit_eq bit_word_rotl_iff)
  next
    case False
    then have "(k + (32 - n mod 32)) mod 32 = 32 - n + k" using assms k by simp
    then show ?thesis using False assms k by (simp add: ROTATE_LEFT_def bit_or_iff bit_push_bit_iff bit_drop_bit_eq bit_word_rotl_iff)
  qed
qed

text \<open>A step of the loop with its function, shift, word and constant.\<close>

definition rfc_op :: "(u32 \<Rightarrow> u32 \<Rightarrow> u32 \<Rightarrow> u32) \<Rightarrow> nat \<Rightarrow> u32 \<Rightarrow> u32 \<Rightarrow> md5_regs \<Rightarrow> md5_regs" where
  "rfc_op f s w t r = (case r of (a, b, c, d) \<Rightarrow> (d, b + word_rotl s (a + f b c d + w + t), b, c))"

lemma md5_op_rotl: "0 < s \<Longrightarrow> s < 32 \<Longrightarrow> md5_op f a b c d w s t = b + word_rotl s (a + f b c d + w + t)"
  by (simp add: md5_op_def ROTATE_LEFT_rotl ac_simps)

lemma md5_quad_steps:
  assumes "0 < s1" "s1 < 32" "0 < s2" "s2 < 32" "0 < s3" "s3 < 32" "0 < s4" "s4 < 32"
  shows "md5_quad f s1 s2 s3 s4 x (k1, t1) (k2, t2) (k3, t3) (k4, t4) r
    = rfc_op f s4 (x ! k4) t4 (rfc_op f s3 (x ! k3) t3 (rfc_op f s2 (x ! k2) t2 (rfc_op f s1 (x ! k1) t1 r)))"
  using assms by (cases r) (simp add: md5_quad_def rfc_op_def Let_def md5_op_rotl)

lemma rfc_steps:
  "i < 16 \<Longrightarrow> rfc_step x i = rfc_op md5_F ([7, 12, 17, 22] ! (i mod 4)) (x ! i) (rfc_T ! i)"
  "16 \<le> i \<Longrightarrow> i < 32 \<Longrightarrow> rfc_step x i = rfc_op md5_G ([5, 9, 14, 20] ! (i mod 4)) (x ! ((5 * i + 1) mod 16)) (rfc_T ! i)"
  "32 \<le> i \<Longrightarrow> i < 48 \<Longrightarrow> rfc_step x i = rfc_op md5_H ([4, 11, 16, 23] ! (i mod 4)) (x ! ((3 * i + 5) mod 16)) (rfc_T ! i)"
  "48 \<le> i \<Longrightarrow> i < 64 \<Longrightarrow> rfc_step x i = rfc_op md5_I ([6, 10, 15, 21] ! (i mod 4)) (x ! (7 * i mod 16)) (rfc_T ! i)"
proof -
  have d: "16 \<le> i \<Longrightarrow> i < 32 \<Longrightarrow> i div 16 = 1" "32 \<le> i \<Longrightarrow> i < 48 \<Longrightarrow> i div 16 = 2" "48 \<le> i \<Longrightarrow> i < 64 \<Longrightarrow> i div 16 = 3"
    by linarith+
  show "i < 16 \<Longrightarrow> rfc_step x i = rfc_op md5_F ([7, 12, 17, 22] ! (i mod 4)) (x ! i) (rfc_T ! i)"
    by (simp add: rfc_step_def rfc_op_def md5_F_def fun_eq_iff)
  show "16 \<le> i \<Longrightarrow> i < 32 \<Longrightarrow> rfc_step x i = rfc_op md5_G ([5, 9, 14, 20] ! (i mod 4)) (x ! ((5 * i + 1) mod 16)) (rfc_T ! i)"
    by (simp add: rfc_step_def rfc_op_def md5_G_def fun_eq_iff d(1))
  show "32 \<le> i \<Longrightarrow> i < 48 \<Longrightarrow> rfc_step x i = rfc_op md5_H ([4, 11, 16, 23] ! (i mod 4)) (x ! ((3 * i + 5) mod 16)) (rfc_T ! i)"
    by (simp add: rfc_step_def rfc_op_def md5_H_def fun_eq_iff d(2))
  show "48 \<le> i \<Longrightarrow> i < 64 \<Longrightarrow> rfc_step x i = rfc_op md5_I ([6, 10, 15, 21] ! (i mod 4)) (x ! (7 * i mod 16)) (rfc_T ! i)"
    by (simp add: rfc_step_def rfc_op_def md5_I_def fun_eq_iff d(3))
qed

lemma round1: "fold (rfc_step x) [0..<16] r = md5_round1 x r"
proof -
  have l: "[0..<16] = [0, 1, 2, 3, 4, 5, 6, 7, 8, 9, 10, 11, 12, 13, 14, 15]" by code_simp
  show ?thesis unfolding l by (simp add: md5_round1_def md5_quad_steps rfc_steps(1) rfc_T_def Let_def)
qed

lemma round2: "fold (rfc_step x) [16..<32] r = md5_round2 x r"
proof -
  have l: "[16..<32] = [16, 17, 18, 19, 20, 21, 22, 23, 24, 25, 26, 27, 28, 29, 30, 31]" by code_simp
  show ?thesis unfolding l by (simp add: md5_round2_def md5_quad_steps rfc_steps(2) rfc_T_def Let_def)
qed

lemma round3: "fold (rfc_step x) [32..<48] r = md5_round3 x r"
proof -
  have l: "[32..<48] = [32, 33, 34, 35, 36, 37, 38, 39, 40, 41, 42, 43, 44, 45, 46, 47]" by code_simp
  show ?thesis unfolding l by (simp add: md5_round3_def md5_quad_steps rfc_steps(3) rfc_T_def Let_def)
qed

lemma round4: "fold (rfc_step x) [48..<64] r = md5_round4 x r"
proof -
  have l: "[48..<64] = [48, 49, 50, 51, 52, 53, 54, 55, 56, 57, 58, 59, 60, 61, 62, 63]" by code_simp
  show ?thesis unfolding l by (simp add: md5_round4_def md5_quad_steps rfc_steps(4) rfc_T_def Let_def)
qed

lemma transform_compress: "FTE_MD5_transform h (map (md5_word block) [0..<16]) = rfc_compress h block"
proof -
  have l: "[0..<64] = [0..<16] @ [16..<32] @ [32..<48] @ [48..<64]" by code_simp
  show ?thesis
    by (simp only: FTE_MD5_transform_def rfc_compress_def l fold_append comp_apply round1 round2 round3 round4 Let_def)
qed

section \<open>Messages in pieces\<close>

declare rfc_blocks.simps [simp del] rfc_rest.simps [simp del]

lemma rfc_rest_length: "length (rfc_rest m) = length m mod 64"
proof (induction m rule: rfc_rest.induct)
  case (1 m)
  then show ?case by (subst rfc_rest.simps) (auto simp: mod_if)
qed

lemma rfc_rest_snoc: "rfc_rest (m @ [b]) = (if length (rfc_rest m) = 63 then [] else rfc_rest m @ [b])"
proof (induction m rule: rfc_rest.induct)
  case (1 m)
  show ?case
  proof (cases "length m < 64")
    case True
    then show ?thesis using rfc_rest.simps [of m] rfc_rest.simps [of "m @ [b]"] by (auto simp: rfc_rest.simps [of "[]"])
  next
    case False
    then show ?thesis using 1 rfc_rest.simps [of m] rfc_rest.simps [of "m @ [b]"] by simp
  qed
qed

lemma rfc_blocks_snoc:
  "rfc_blocks h (m @ [b]) = (if length (rfc_rest m) = 63 then rfc_compress (rfc_blocks h m) (rfc_rest m @ [b]) else rfc_blocks h m)"
proof (induction h m rule: rfc_blocks.induct)
  case (1 h m)
  show ?case
  proof (cases "length m < 64")
    case True
    then show ?thesis using rfc_rest.simps [of m] rfc_blocks.simps [of h m] rfc_blocks.simps [of h "m @ [b]"]
      by (auto simp: rfc_blocks.simps [of _ "[]"])
  next
    case False
    then show ?thesis using 1 rfc_rest.simps [of m] rfc_blocks.simps [of h m] rfc_blocks.simps [of h "m @ [b]"] by simp
  qed
qed

lemma rfc_blocks_last:
  assumes "length (rfc_rest m) + length z = 64"
  shows "rfc_blocks h (m @ z) = rfc_compress (rfc_blocks h m) (rfc_rest m @ z)"
  using assms
proof (induction h m rule: rfc_blocks.induct)
  case (1 h m)
  show ?case
  proof (cases "length m < 64")
    case True
    then show ?thesis using 1 rfc_rest.simps [of m] rfc_blocks.simps [of h m] rfc_blocks.simps [of h "m @ z"]
      by (simp add: rfc_blocks.simps [of _ "[]"])
  next
    case False
    then show ?thesis using 1 rfc_rest.simps [of m] rfc_blocks.simps [of h m] rfc_blocks.simps [of h "m @ z"] by simp
  qed
qed

text \<open>The buffer holds what is left over of the message \<open>m\<close>, the scratch buffer is that of its blocks.\<close>

definition md5_start :: "u32 list" where "md5_start = [0x67452301, 0xEFCDAB89, 0x98BADCFE, 0x10325476]"

definition md5_buf :: "u8 list \<Rightarrow> nat \<times> md5_ctx \<Rightarrow> bool" where
  "md5_buf m x \<longleftrightarrow> fst x = length (rfc_rest m) \<and> length (pInBuf (snd x)) = 64 \<and> take (fst x) (pInBuf (snd x)) = rfc_rest m
     \<and> pScratchBuf (snd x) = rfc_blocks md5_start m"

lemma md5_put_buf:
  assumes "md5_buf m x"
  shows "md5_buf (m @ [b]) (md5_put b x) \<and> md5_i0 (snd (md5_put b x)) = md5_i0 (snd x) \<and> md5_i1 (snd (md5_put b x)) = md5_i1 (snd x)"
proof -
  obtain mdi c where x: "x = (mdi, c)" by force
  note A = assms [unfolded md5_buf_def x fst_conv snd_conv]
  have lt: "mdi < 64" using A by (simp add: rfc_rest_length)
  let ?buf = "(pInBuf c)[mdi := b]"
  have buf: "take (Suc mdi) ?buf = rfc_rest m @ [b]" using A lt by (auto simp: take_Suc_conv_app_nth)
  show ?thesis
  proof (cases "mdi = 63")
    case True
    then have "?buf = rfc_rest m @ [b]" using buf A by simp
    then show ?thesis using True A
      by (simp add: x md5_put_def md5_buf_def Let_def transform_compress rfc_rest_snoc rfc_blocks_snoc)
  next
    case False
    then show ?thesis using A buf by (simp add: x md5_put_def md5_buf_def Let_def rfc_rest_snoc rfc_blocks_snoc)
  qed
qed

lemma md5_puts_buf:
  "md5_buf m x \<Longrightarrow> md5_buf (m @ d) (fold md5_put d x) \<and> md5_i0 (snd (fold md5_put d x)) = md5_i0 (snd x) \<and> md5_i1 (snd (fold md5_put d x)) = md5_i1 (snd x)"
proof (induction d arbitrary: m x)
  case (Cons b d)
  then show ?case using md5_put_buf [OF Cons.prems, of b] Cons.IH [of "m @ [b]" "md5_put b x"] by simp
qed simp

text \<open>The counter of bits.\<close>

definition md5_abs :: "u8 list \<Rightarrow> md5_ctx \<Rightarrow> bool" where
  "md5_abs m c \<longleftrightarrow> md5_buf m (length (rfc_rest m), c) \<and> md5_i0 c = of_nat (8 * length m) \<and> md5_i1 c = of_nat (8 * length m div 2 ^ 32)"

lemma md5_mdi:
  assumes "md5_i0 c = of_nat (8 * length m)"
  shows "unat (drop_bit 3 (md5_i0 c) AND 0x3F) = length (rfc_rest m)"
proof -
  have "unat (md5_i0 c) = 8 * length m mod 2 ^ 32" unfolding assms by (simp only: unat_of_nat) simp
  moreover have "drop_bit 3 (md5_i0 c) AND 0x3F = take_bit 6 (drop_bit 3 (md5_i0 c))" by (simp add: take_bit_eq_mask mask_eq_exp_minus_1)
  ultimately have "unat (drop_bit 3 (md5_i0 c) AND 0x3F) = 8 * length m mod 2 ^ 32 div 8 mod 64"
    by (simp add: unsigned_take_bit_eq unsigned_drop_bit_eq take_bit_eq_mod drop_bit_eq_div unat_mod unat_div)
  also have "8 * length m mod 2 ^ 32 = 8 * (length m mod 2 ^ 29)" using mult_mod_right [of 8 "length m" "2 ^ 29"] by simp
  also have "8 * (length m mod 2 ^ 29) div 8 mod 64 = length m mod 64" by (simp add: mod_mod_cancel)
  finally show ?thesis by (simp add: rfc_rest_length)
qed

lemma carry_nat:
  fixes a r k :: nat
  assumes "a < k" "r < k"
  shows "of_bool ((a + r) mod k < a) = (a + r) div k"
proof (cases "a + r < k")
  case False
  then have "(a + r) mod k = (a + r - k) mod k" "(a + r) div k = Suc ((a + r - k) div k)"
    using assms by (simp_all add: le_mod_geq le_div_geq)
  moreover have "a + r - k < k" "a + r - k < a" using assms False by simp_all
  ultimately show ?thesis by simp
qed simp

lemma md5_count:
  fixes L n :: nat
  defines "i0 \<equiv> of_nat (8 * L) :: u32" and "x \<equiv> of_nat n :: u32"
  assumes "n < 2 ^ 32"
  shows "i0 + push_bit 3 x = of_nat (8 * (L + n))"
    "of_nat (8 * L div 2 ^ 32) + of_bool (i0 + push_bit 3 x < i0) + drop_bit 29 x = (of_nat (8 * (L + n) div 2 ^ 32) :: u32)"
proof -
  show s: "i0 + push_bit 3 x = of_nat (8 * (L + n))" by (simp add: i0_def x_def push_bit_eq_mult algebra_simps)
  let ?a = "8 * L mod 2 ^ 32" let ?r = "8 * n mod 2 ^ 32"
  have a: "unat i0 = ?a" unfolding i0_def by (simp only: unat_of_nat) simp
  have sum: "unat (i0 + push_bit 3 x) = (?a + ?r) mod 2 ^ 32" unfolding s by (simp only: unat_of_nat) (simp add: mod_add_eq distrib_left)
  have ar: "?a < 2 ^ 32" "?r < 2 ^ 32" by simp_all
  have carry: "of_bool (i0 + push_bit 3 x < i0) = (?a + ?r) div 2 ^ 32"
    unfolding word_less_nat_alt sum a by (rule carry_nat [OF ar])
  have "unat x = n" using assms(3) unfolding x_def by (simp add: unat_of_nat)
  moreover have "8 * n div 2 ^ 32 = n div 2 ^ 29" using div_mult_mult1 [of 8 n "2 ^ 29"] by simp
  ultimately have "unat (drop_bit 29 x) = 8 * n div 2 ^ 32" by (simp add: unsigned_drop_bit_eq drop_bit_eq_div unat_div)
  moreover have "drop_bit 29 x = of_nat (unat (drop_bit 29 x))" by simp
  ultimately have d: "drop_bit 29 x = of_nat (8 * n div 2 ^ 32)" by metis
  have total: "8 * (L + n) div 2 ^ 32 = 8 * L div 2 ^ 32 + 8 * n div 2 ^ 32 + (?a + ?r) div 2 ^ 32"
    unfolding distrib_left by (rule div_add1_eq)
  have "(of_bool (i0 + push_bit 3 x < i0) :: u32) = of_nat (of_bool (i0 + push_bit 3 x < i0))" by (simp only: of_nat_of_bool)
  then have c: "(of_bool (i0 + push_bit 3 x < i0) :: u32) = of_nat ((?a + ?r) div 2 ^ 32)" by (simp only: carry)
  show "of_nat (8 * L div 2 ^ 32) + of_bool (i0 + push_bit 3 x < i0) + drop_bit 29 x = (of_nat (8 * (L + n) div 2 ^ 32) :: u32)"
    unfolding c d total of_nat_add by (simp only: ac_simps)
qed

lemma md5_buf_same:
  "md5_buf m (n, c) \<Longrightarrow> pInBuf c' = pInBuf c \<Longrightarrow> pScratchBuf c' = pScratchBuf c \<Longrightarrow> md5_buf m (n, c')"
  by (auto simp: md5_buf_def)

lemma md5_update_abs:
  assumes "md5_abs m c" "length d < 2 ^ 32"
  shows "md5_abs (m @ d) (FTE_MD5_update c d)"
proof -
  note A = assms(1) [unfolded md5_abs_def]
  let ?n = "of_nat (length d) :: u32"
  note C = md5_count [OF assms(2), of "length m"]
  let ?c = "c\<lparr>md5_i0 := md5_i0 c + push_bit 3 ?n, md5_i1 := md5_i1 c + of_bool (md5_i0 c + push_bit 3 ?n < md5_i0 c) + drop_bit 29 ?n\<rparr>"
  let ?x = "fold md5_put d (length (rfc_rest m), ?c)"
  have upd: "FTE_MD5_update c d = snd ?x"
    using md5_mdi [of c m] A by (simp add: FTE_MD5_update_def Let_def)
  have "md5_buf m (length (rfc_rest m), ?c)" by (rule md5_buf_same [OF A [THEN conjunct1]]) simp_all
  from md5_puts_buf [OF this, of d] have r: "md5_buf (m @ d) ?x" "md5_i0 (snd ?x) = md5_i0 c + push_bit 3 ?n"
    "md5_i1 (snd ?x) = md5_i1 c + of_bool (md5_i0 c + push_bit 3 ?n < md5_i0 c) + drop_bit 29 ?n" by simp_all
  have "?x = (length (rfc_rest (m @ d)), snd ?x)" using r(1) by (simp add: md5_buf_def prod_eq_iff)
  then have "md5_buf (m @ d) (length (rfc_rest (m @ d)), snd ?x)" using r(1) by metis
  moreover have "md5_i0 (snd ?x) = of_nat (8 * length (m @ d))" "md5_i1 (snd ?x) = of_nat (8 * length (m @ d) div 2 ^ 32)"
    unfolding r(2,3) using A C by (simp_all only: length_append)
  ultimately show ?thesis unfolding md5_abs_def upd by blast
qed

lemma md5_init_abs: "length (pInBuf c) = 64 \<Longrightarrow> md5_abs [] (FTE_MD5_init c)"
  by (simp add: md5_abs_def md5_buf_def FTE_MD5_init_def md5_start_def rfc_rest.simps [of "[]"] rfc_blocks.simps [of _ "[]"])

section \<open>The end of a message\<close>

text \<open>The two words of the length, as bytes.\<close>

definition le64 :: "u64 \<Rightarrow> u8 list" where "le64 w = map (\<lambda>k. ucast (drop_bit (8 * k) w)) [0..<8]"

lemma md5_word_bytes:
  "md5_word [ucast w, ucast (drop_bit 8 w), ucast (drop_bit 16 w), ucast (drop_bit 24 w)] 0 = ucast w" for w :: u64
proof (rule bit_word_eqI)
  fix n assume n: "n < LENGTH(32)"
  show "bit (md5_word [ucast w, ucast (drop_bit 8 w), ucast (drop_bit 16 w), ucast (drop_bit 24 w)] 0) n = bit (ucast w :: u32) n"
    using n by (cases "n < 8"; cases "n < 16"; cases "n < 24")
      (auto simp: md5_word_def bit_or_iff bit_push_bit_iff bit_ucast_iff bit_drop_bit_eq)
qed

lemma md5_word_shift: "length xs = 4 * i \<Longrightarrow> md5_word (xs @ ys) (i + j) = md5_word ys j"
  by (simp add: md5_word_def nth_append)

lemma md5_word_prefix: "4 * i + 3 < length xs \<Longrightarrow> md5_word (xs @ ys) i = md5_word xs i"
  by (simp add: md5_word_def nth_append)

lemma md5_length_words:
  "md5_word (le64 (of_nat N)) 0 = of_nat N" "md5_word (le64 (of_nat N)) 1 = of_nat (N div 2 ^ 32)"
proof -
  let ?w = "of_nat N :: u64"
  have le: "le64 w = [ucast w, ucast (drop_bit 8 w), ucast (drop_bit 16 w), ucast (drop_bit 24 w)]
    @ [ucast (drop_bit 32 w), ucast (drop_bit 40 w), ucast (drop_bit 48 w), ucast (drop_bit 56 w)]" for w
    by (simp add: le64_def upt_rec)
  have "md5_word (le64 ?w) 0 = ucast ?w" unfolding le by (subst md5_word_prefix) (simp, rule md5_word_bytes)
  also have "\<dots> = of_nat N"
  proof (rule word_unat_eq_iff [THEN iffD2])
    show "unat (ucast ?w :: u32) = unat (of_nat N :: u32)" by (simp add: unsigned_ucast_eq take_bit_eq_mod unat_of_nat mod_mod_cancel)
  qed
  finally show "md5_word (le64 ?w) 0 = of_nat N" .
  let ?v = "drop_bit 32 ?w"
  have "md5_word (le64 ?w) 1 = md5_word [ucast ?v, ucast (drop_bit 8 ?v), ucast (drop_bit 16 ?v), ucast (drop_bit 24 ?v)] 0"
    unfolding le by (simp only: md5_word_def drop_bit_drop_bit) simp
  also have "\<dots> = ucast ?v" by (rule md5_word_bytes)
  also have "\<dots> = of_nat (N div 2 ^ 32)"
  proof (rule word_unat_eq_iff [THEN iffD2])
    have "N mod 2 ^ 64 div 2 ^ 32 = N div 2 ^ 32 mod 2 ^ 32" using mod_mult2_eq [of N "2 ^ 32" "2 ^ 32"] by simp
    then show "unat (ucast ?v :: u32) = unat (of_nat (N div 2 ^ 32) :: u32)"
      by (simp add: unsigned_ucast_eq take_bit_eq_mod unat_of_nat unsigned_drop_bit_eq drop_bit_eq_div unat_div)
  qed
  finally show "md5_word (le64 ?w) 1 = of_nat (N div 2 ^ 32)" .
qed

lemma md5_last_block:
  assumes "length P = 56" "take 56 buf = P" "length buf = 64"
  shows "map (md5_word (P @ le64 (of_nat N))) [0..<16] = map (md5_word buf) [0..<14] @ [of_nat N, of_nat (N div 2 ^ 32)]"
proof -
  have buf: "buf = P @ drop 56 buf" using assms(2) by (metis append_take_drop_id)
  have "md5_word (P @ z) i = md5_word buf i" if "i < 14" for z i
    by (subst buf) (use that assms(1) in \<open>simp add: md5_word_prefix\<close>)
  then have "map (md5_word (P @ z)) [0..<14] = map (md5_word buf) [0..<14]" for z by simp
  moreover have "md5_word (P @ z) 14 = md5_word z 0" "md5_word (P @ z) 15 = md5_word z 1" for z
    using md5_word_shift [of P 14 z 0] md5_word_shift [of P 14 z 1] assms(1) by simp_all
  moreover have "[0..<16] = [0..<14] @ [14, 15]" by code_simp
  ultimately show ?thesis using md5_length_words(2) [of N] by (simp add: md5_length_words(1))
qed

lemma md5_padding:
  "0 < k \<Longrightarrow> k \<le> 64 \<Longrightarrow> take k PADDING = 0x80 # replicate (k - 1) 0"
  by (cases k) (simp_all add: PADDING_def min_def)

lemma md5_pad_length:
  fixes r :: nat
  assumes "r < 64"
  defines "k \<equiv> if r < 56 then 56 - r else 120 - r"
  shows "0 < k" "k \<le> 64" "k - 1 = (119 - r) mod 64" "(r + k) mod 64 = 56"
proof -
  have "0 < k \<and> k \<le> 64 \<and> k - 1 = (119 - r) mod 64 \<and> (r + k) mod 64 = 56"
  proof (cases "r < 56")
    case True
    then have "119 - r = 55 - r + 64" by simp
    then have "(119 - r) mod 64 = 55 - r" by (simp only: mod_add_self2) simp
    with True show ?thesis by (simp add: k_def)
  qed (use assms(1) in \<open>simp add: k_def\<close>)
  then show "0 < k" "k \<le> 64" "k - 1 = (119 - r) mod 64" "(r + k) mod 64 = 56" by blast+
qed

lemma md5_final_digest:
  assumes "md5_abs m c"
  shows "pDigest (FTE_MD5_final c) = rfc_md5 m"
proof -
  let ?r = "length m mod 64"
  define k where "k = (if ?r < 56 then 56 - ?r else 120 - ?r)"
  have k: "0 < k" "k \<le> 64" "k - 1 = (119 - ?r) mod 64" "(?r + k) mod 64 = 56"
    unfolding k_def by (rule md5_pad_length, simp)+
  note A = assms [unfolded md5_abs_def]
  let ?p = "take k PADDING"
  have "length PADDING = 64" by (simp add: PADDING_def)
  then have "length ?p = k" using k(2) by simp
  then have P: "md5_abs (m @ ?p) (FTE_MD5_update c ?p)" using md5_update_abs [OF assms, of ?p] k(2) by simp
  let ?c = "FTE_MD5_update c ?p" let ?N = "8 * length m"
  have len: "length (rfc_rest (m @ ?p)) = 56" using \<open>length ?p = k\<close> k(4) by (simp add: rfc_rest_length mod_add_left_eq)
  have buf: "take 56 (pInBuf ?c) = rfc_rest (m @ ?p)" "length (pInBuf ?c) = 64" "pScratchBuf ?c = rfc_blocks md5_start (m @ ?p)"
    using P len by (auto simp: md5_abs_def md5_buf_def)
  have "FTE_MD5_transform (pScratchBuf ?c) (map (md5_word (pInBuf ?c)) [0..<14] @ [md5_i0 c, md5_i1 c])
      = rfc_compress (rfc_blocks md5_start (m @ ?p)) (rfc_rest (m @ ?p) @ le64 (of_nat ?N))"
    using md5_last_block [OF len buf(1,2), of ?N] A transform_compress [of "pScratchBuf ?c" "rfc_rest (m @ ?p) @ le64 (of_nat ?N)"] buf(3) by simp
  also have "\<dots> = rfc_blocks md5_start ((m @ ?p) @ le64 (of_nat ?N))"
    using len by (intro rfc_blocks_last [symmetric]) (simp add: le64_def)
  also have "(m @ ?p) @ le64 (of_nat ?N) = rfc_pad m"
    using md5_padding [OF k(1,2)] k(3) by (simp add: rfc_pad_def le64_def)
  finally have t: "FTE_MD5_transform (pScratchBuf ?c) (map (md5_word (pInBuf ?c)) [0..<14] @ [md5_i0 c, md5_i1 c]) = rfc_blocks md5_start (rfc_pad m)" .
  have "unat (drop_bit 3 (md5_i0 c) AND 0x3F) = ?r" using md5_mdi [of c m] A by (simp add: rfc_rest_length)
  then show ?thesis using t by (simp add: FTE_MD5_final_def Let_def rfc_md5_def md5_start_def flip: k_def)
qed

text \<open>C7: Whatever the pieces in which a message is given to \<^verbatim>\<open>FTE_MD5_update\<close>, and whatever the context held
  before, the digest is that of RFC 1321 for the whole message.\<close>

theorem FTE_MD5_pieces:
  assumes "length (pInBuf c) = 64" "\<forall>d\<in>set ds. length d < 2 ^ 32"
  shows "pDigest (FTE_MD5_final (foldl FTE_MD5_update (FTE_MD5_init c) ds)) = rfc_md5 (concat ds)"
proof -
  have "md5_abs (concat ds) (foldl FTE_MD5_update (FTE_MD5_init c) ds)"
    using assms(2)
  proof (induction ds rule: rev_induct)
    case Nil
    then show ?case using md5_init_abs [OF assms(1)] by simp
  next
    case (snoc d ds)
    then show ?case using md5_update_abs [of "concat ds" "foldl FTE_MD5_update (FTE_MD5_init c) ds" d] by simp
  qed
  then show ?thesis by (rule md5_final_digest)
qed

text \<open>The test vector of RFC 1321 for \<open>''abc''\<close>, given in two pieces.\<close>

definition md5_zero :: md5_ctx where
  "md5_zero = \<lparr>md5_i0 = 0, md5_i1 = 0, pScratchBuf = replicate 4 0, pInBuf = replicate 64 0, pDigest = replicate 16 0\<rparr>"

theorem FTE_MD5_pieces_witness:
  "pDigest (FTE_MD5_final (foldl FTE_MD5_update (FTE_MD5_init md5_zero) [[0x61], [0x62, 0x63]]))
   = [0x90, 0x01, 0x50, 0x98, 0x3C, 0xD2, 0x4F, 0xB0, 0xD6, 0x96, 0x3F, 0x7D, 0x28, 0xE1, 0x7F, 0x72]"
proof -
  have "rfc_md5 [0x61, 0x62, 0x63] = [0x90, 0x01, 0x50, 0x98, 0x3C, 0xD2, 0x4F, 0xB0, 0xD6, 0x96, 0x3F, 0x7D, 0x28, 0xE1, 0x7F, 0x72]"
    by code_simp
  then show ?thesis using FTE_MD5_pieces [of md5_zero "[[0x61], [0x62, 0x63]]"] by (simp add: md5_zero_def)
qed

end
