(* ===== verification/Spec2Isabelle.thy ===== *)
theory Spec2Isabelle
  imports FTE_Crc FTE_Buff FTE_Value FTE_Utils FTE_Modbus FTE_ConfigFlash FTE_Stat FTE_Platform FTE_MbTcp FTE_Json FTE_Event FTE_DioOut FTE_Ds18b20Props FTE_Timer FTE_Md5
begin

text \<open>
  Verification development of the FTE gateway firmware (\<^verbatim>\<open>src/target\<close>): an edge device on
  a Kinetis processor under the MQX operating system that measures sensors, drives
  outputs, keeps its configuration and journal in a serial flash, raises events, and
  reports over MODBUS, JSON/HTTP, MQTT and SNMP.

  \<^bold>\<open>Parts and how they interact.\<close>
  Start-up (\<^verbatim>\<open>mach/fte_common.c\<close>) reads the configuration (\<^verbatim>\<open>fte_config.c\<close>) from two
  alternating flash areas protected by a CRC-16 (\<^verbatim>\<open>fte_crc16.c\<close>), creates an object for
  every configured sensor or actuator (\<^verbatim>\<open>obj/fte_object.c\<close>) and an event for every
  configured condition (\<^verbatim>\<open>obj/fte_event.c\<close>).  An object holds a typed value
  (\<^verbatim>\<open>fte_value.c\<close>), a configuration and statistics, and dispatches to its driver through
  a table of function pointers.  Digital inputs (\<^verbatim>\<open>obj/fte_di.c\<close>) are noted by the
  interrupt of their pin (\<^verbatim>\<open>drv/fte_gpio.c\<close>, \<^verbatim>\<open>drv/fte_lwgpio.c\<close>), armed again by the
  timer task and taken over by the management task; outputs (\<^verbatim>\<open>obj/fte_do.c\<close>) and lamps
  (\<^verbatim>\<open>obj/fte_led.c\<close>) set pins; 1-Wire buses (\<^verbatim>\<open>drv/fte_1wire.c\<close>) drive one
  in timed slots, over which thermometers (\<^verbatim>\<open>obj/fte_ds18b20.c\<close>) are found, told to measure
  and read.  A task checks the events of changed objects, which write journal entries
  (\<^verbatim>\<open>fte_log.c\<close>) and send traps.  The MODBUS slave
  (\<^verbatim>\<open>protocol/modbus\<close>, \<^verbatim>\<open>net/mbtcp\<close>) exposes the objects as registers, and the JSON
  builder (\<^verbatim>\<open>fte_json.c\<close>) prints them.  Objects, events, JSON members and buffers all live
  in the doubly linked ring of \<^verbatim>\<open>fte_list.c\<close>.

  \<^bold>\<open>Theories.\<close>  Every theory opens with a block that says what it holds.  C functions keep
  their names; a helper definition that stands for a loop or branch of a function is named
  after what it does and mapped to those lines.
  \<^item> \<open>FTE_Prelude\<close>: integer types (\<open>u8\<close> \<open>u16\<close> \<open>u32\<close>), the numeric return codes of
    \<open>FTE_RET\<close>, lemmas and collections shared by all parts.
  \<^item> \<open>FTE_Kernel\<close>: the allocator (a pool of blocks, a supply of addresses and a
    budget) and the semaphores of \<^verbatim>\<open>sys/fte_sys.c\<close>; a blocked semaphore is the result
    \<open>None\<close>.
  \<^item> \<open>FTE_List\<close>: the ring of \<^verbatim>\<open>fte_list.c\<close> over an explicit store of nodes.  The locale
    \<open>list_store\<close> states what a list promises its clients (an abstract list, a frame);
    it is interpreted on the ring, and \<open>FTE_Buff\<close>, \<open>FTE_Object\<close>, \<open>FTE_ObjectReg\<close>,
    \<open>FTE_Platform\<close>, \<open>FTE_Event\<close> rest on it.
  \<^item> \<open>FTE_Buff\<close>: the buffer pool of \<^verbatim>\<open>fte_buff.c\<close> and its abstract pool.
  \<^item> \<open>FTE_Crc\<close>: the three checksums, the shift registers they compute, and the locale
    \<open>burst_crc\<close> (errors confined to a window are detected), interpreted on each of them
    and on the checksum of the thermometers.
  \<^item> \<open>FTE_Md5\<close>: the digest of \<^verbatim>\<open>fte_md5.c\<close> against RFC 1321.
  \<^item> \<open>FTE_CString\<close>: \<open>snprintf\<close> conversions, \<open>strlen\<close>, \<open>atoi\<close> and the like, as far as
    the firmware uses them.
  \<^item> \<open>FTE_Utils\<close>: the text parsers of \<^verbatim>\<open>fte_utils.c\<close>.
  \<^item> \<open>FTE_Value\<close>: the typed values of \<^verbatim>\<open>fte_value.c\<close>, every operation.
  \<^item> \<open>FTE_Config\<close>, \<open>FTE_ConfigPools\<close>, \<open>FTE_ConfigFlash\<close>: \<^verbatim>\<open>fte_config.c\<close>: the byte layout
    of the configuration, its object and event pools and trap list, and the saving to the
    two flash areas with loss of power at any byte.
  \<^item> \<open>FTE_Stat\<close>: the failure statistics of an object.
  \<^item> \<open>FTE_Object\<close>, \<open>FTE_ObjectReg\<close>: \<^verbatim>\<open>obj/fte_object.c\<close>: creation, destruction, values,
    start and stop, with the driver behind the function table a parameter; and the registry
    with its searches.
  \<^item> \<open>FTE_Platform\<close>: the loops of \<^verbatim>\<open>mach/fte_common.c\<close> that bring the configured objects up.
  \<^item> \<open>FTE_Log\<close>: the journal and its two flash areas, with the locale \<open>bounded_journal\<close>.
  \<^item> \<open>FTE_Event\<close>: events, with the locale \<open>schmitt\<close> for a threshold with hysteresis.
  \<^item> \<open>FTE_Gpio\<close>: port registers, the pin driver of MQX (\<^verbatim>\<open>mqx/source/io/lwgpio\<close>) and
    the two layers of pins above it, with the steps of the hardware.
  \<^item> \<open>FTE_Dio\<close>: digital inputs, outputs and lamps, and the turns of the timer and
    management tasks, over the state of the events.  \<open>FTE_DioProps\<close>: every operation as a
    step of the small machine of its own object.  \<open>FTE_DioSys\<close>: the inputs of a board as an
    inductive step relation (levels, clock, interrupts, tasks) with its invariant.
    \<open>FTE_DioOut\<close>: the outputs as a table.
  \<^item> \<open>FTE_OneWire\<close>: 1-Wire buses, from the slots to the search.  \<open>FTE_OneWireSearch\<close>: the
    search apart from the line, as an enumeration of codes in the order of their bits.
    \<open>FTE_OneWireBus\<close>: the slots on the pin, the locale \<open>ow_slaves\<close> with the laws of the devices
    on a line, the search on such a line, and its extension \<open>ow_thermo\<close> with the laws of
    thermometers.  \<open>FTE_OneWireTimed\<close>: a line of devices that measure time, on which both
    locales are interpreted for every list of codes.
  \<^item> \<open>FTE_Ds18b20\<close>: the thermometers, with the discovery that makes objects of them.
    \<open>FTE_Ds18b20Props\<close>: their checksum, and a measurement from its start to the object.
  \<^item> \<open>FTE_Timer\<close>: the delta list of software timers of \<^verbatim>\<open>fte_timer.c\<close>, a linked list through
    the events' own pointers.
  \<^item> \<open>FTE_Modbus\<close>, \<open>FTE_ModbusGen\<close>, \<open>FTE_MbTcp\<close>: request processing, the register model,
    and the session of the TCP server.
  \<^item> \<open>FTE_Json\<close>: building, printing and destroying JSON documents.

  \<^bold>\<open>What the lemmas show.\<close>  Refinement: lists, buffer pools, the trap list, the journal and
  the event check implement abstract lists, pools, bounded queues and comparators with
  hysteresis, and digital outputs a table with pins that agree, for every history of calls;
  the delta list of timers implements a list of times.
  State machine: along every interleaving of levels, interrupts and tasks no lasting change
  of an input is missed, and a steady level reaches its object.  Enumeration: the search of a
  1-Wire bus finds every device once.  Composition: a measurement reaches the object of its own
  thermometer through driver, slots and pin, whatever else is on the line.  Equivalence:
  table-driven checksums compute their shift registers, the digest is that of RFC 1321.  Safety and bounds: replies fit their buffers, no
  request of full length is read out of bounds, printed documents fit, lists do not
  interfere, documents are released completely, a configuration is never lost to a power
  failure.  Round trips: configuration through the flash, values and addresses through
  text, registers through MODBUS.  Liveness and termination: every poll is answered,
  iteration visits every item once.  Error behaviour is stated as theorems too: what a
  function does on the inputs it mishandles (the manifest lists these as findings).

  \<^bold>\<open>Conventions.\<close>  Integers are words of their C width; arithmetic wraps.  State is passed
  explicitly in records.  A call that never returns (a semaphore taken twice, a loop that
  does not end) or that leaves defined behaviour (an access out of bounds, a null
  dereference) is the result \<open>None\<close>; the functions whose loops may not end are
  \<open>partial_function (option)\<close>, and the theorems about them state the result as
  \<open>Some\<close>.  No fuel is used where the code has none; where a theorem speaks of a number of
  rounds (polls, scans) it is a parameter of the theorem.

  \<^bold>\<open>Parameters.\<close>  Not under \<^verbatim>\<open>src/target\<close> or not code that computes: the supply of
  fresh addresses, the clock, the tick arithmetic of MQX, the random numbers of RTCS,
  floating-point parsing, what hangs on a 1-Wire line, the bytes that sockets deliver (sequences of reads), the serial
  flash (an array of bytes with sector erase), the drivers behind an object's function
  table (those of digital inputs, outputs, lamps and thermometers are modelled), and the senders of SNMP traps and MQTT messages.  Each theory names its own and
  states what it relies on as named hypotheses.

  \<^bold>\<open>Not modelled.\<close>  The vendored trees (MQX but for its pin driver, RTCS, MFS, USB, FNET, CyaSSL, FreeMODBUS,
  nanostack, jsmn, nxjson, the MQTT library, the shell and the radio stacks), the
  boot loader and host tools; the register-level drivers of buses and chips
  (the rest of \<^verbatim>\<open>drv/\<close>), which only move bytes between registers; board tables (\<^verbatim>\<open>mach/\<close>); the
  shell commands, which parse arguments and print; the web pages and MIB tables, which are
  data.  The components of the manifest give the reason for each part.
\<close>

end
